(* ===== verification/Prelude.thy ===== *)
theory Prelude
  imports Complex_Main "HOL-Library.AList" "HOL-Library.Char_ord" "HOL-Library.List_Lexorder"
    "HOL-Library.Product_Lexorder" "HOL-Library.Code_Target_Nat"
begin

text \<open>
  Shared vocabulary of the development: results that may be an error, sequencing of steps that
  may raise, Python dictionaries as association lists, SQL-table helpers, and the generic lemmas
  the component theories use.
\<close>

named_theorems result_simps "rewriting of fallible computations"
named_theorems inv_intros "preservation of a component's invariant by its operations"

section \<open>Results: a raised exception is a value\<close>

text \<open>A call that raises returns \<open>Inl\<close> of the exception; a call that returns gives \<open>Inr\<close>.\<close>

type_synonym ('e, 'a) result = "'e + 'a"

definition rbind :: "('e, 'a) result \<Rightarrow> ('a \<Rightarrow> ('e, 'b) result) \<Rightarrow> ('e, 'b) result" where
  "rbind m f = (case m of Inl e \<Rightarrow> Inl e | Inr a \<Rightarrow> f a)"

definition ensure :: "bool \<Rightarrow> 'e \<Rightarrow> ('e, unit) result" where
  "ensure c e = (if c then Inr () else Inl e)"

definition option_result :: "'e \<Rightarrow> 'a option \<Rightarrow> ('e, 'a) result" where
  "option_result e v = (case v of None \<Rightarrow> Inl e | Some x \<Rightarrow> Inr x)"

lemma option_result_Some [simp]: "option_result e (Some x) = Inr x"
  by (simp add: option_result_def)

lemma option_result_None [simp]: "option_result e None = Inl e"
  by (simp add: option_result_def)

lemma option_result_eq_Inr [result_simps]: "option_result e v = Inr x \<longleftrightarrow> v = Some x"
  by (cases v) simp_all

lemma rbind_Inl [simp, result_simps]: "rbind (Inl e) f = Inl e"
  by (simp add: rbind_def)

lemma rbind_Inr [simp, result_simps]: "rbind (Inr a) f = f a"
  by (simp add: rbind_def)

lemma rbind_eq_Inr [result_simps]: "rbind m f = Inr b \<longleftrightarrow> (\<exists>a. m = Inr a \<and> f a = Inr b)"
  by (cases m) (simp_all add: rbind_def)

lemma rbind_eq_Inl [result_simps]:
  "rbind m f = Inl e \<longleftrightarrow> m = Inl e \<or> (\<exists>a. m = Inr a \<and> f a = Inl e)"
  by (cases m) (simp_all add: rbind_def)

lemma ensure_eq_Inr [simp, result_simps]: "ensure c e = Inr u \<longleftrightarrow> c"
  by (simp add: ensure_def)

lemma ensure_eq_Inl [simp, result_simps]: "ensure c e = Inl e' \<longleftrightarrow> \<not> c \<and> e' = e"
  by (auto simp: ensure_def)

lemma ensure_True [simp]: "ensure True e = Inr ()"
  by (simp add: ensure_def)

lemma ensure_False [simp]: "ensure False e = Inl e"
  by (simp add: ensure_def)

text \<open>A \<open>for\<close> loop whose body may raise.\<close>

fun rfold :: "('a \<Rightarrow> 's \<Rightarrow> ('e, 's) result) \<Rightarrow> 'a list \<Rightarrow> 's \<Rightarrow> ('e, 's) result" where
  "rfold f [] s = Inr s"
| "rfold f (x # xs) s = rbind (f x s) (rfold f xs)"

text \<open>A comprehension whose element expression may raise.\<close>

fun rmap :: "('a \<Rightarrow> ('e, 'b) result) \<Rightarrow> 'a list \<Rightarrow> ('e, 'b list) result" where
  "rmap f [] = Inr []"
| "rmap f (x # xs) = rbind (f x) (\<lambda>y. rbind (rmap f xs) (\<lambda>ys. Inr (y # ys)))"

lemma rfold_append: "rfold f (xs @ ys) s = rbind (rfold f xs s) (rfold f ys)"
proof (induction xs arbitrary: s)
  case (Cons x xs)
  then show ?case by (cases "f x s") simp_all
qed simp

lemma rfold_invariant:
  assumes "rfold f xs s = Inr t" and "P s"
    and "\<And>x a b. x \<in> set xs \<Longrightarrow> P a \<Longrightarrow> f x a = Inr b \<Longrightarrow> P b"
  shows "P t"
  using assms
proof (induction xs arbitrary: s)
  case (Cons x xs)
  from Cons.prems(1) obtain b where b: "f x s = Inr b" "rfold f xs b = Inr t"
    by (auto simp: result_simps)
  have "P b" using Cons.prems b by auto
  with b(2) show ?case using Cons.prems(3) by (intro Cons.IH) auto
qed simp

lemma rmap_Inr_length: "rmap f xs = Inr ys \<Longrightarrow> length ys = length xs"
  by (induction xs arbitrary: ys) (auto simp: result_simps)

lemma rmap_Inr_nth:
  "rmap f xs = Inr ys \<Longrightarrow> i < length xs \<Longrightarrow> f (xs ! i) = Inr (ys ! i)"
proof (induction xs arbitrary: ys i)
  case (Cons x xs)
  then show ?case by (cases i) (auto simp: result_simps)
qed simp

lemma rmap_Inr_iff: "rmap f xs = Inr ys \<longleftrightarrow> list_all2 (\<lambda>x y. f x = Inr y) xs ys"
proof (induction xs arbitrary: ys)
  case (Cons x xs)
  then show ?case by (cases ys) (auto simp: result_simps)
qed auto

section \<open>Dictionaries\<close>

text \<open>
  A Python \<open>dict\<close> is an association list without duplicate keys: \<open>d[k] = v\<close> overwrites in place
  or appends (\<open>AList.update\<close>), \<open>d.pop(k)\<close> deletes, \<open>d.get(k)\<close> is \<open>map_of\<close>.
\<close>

definition dict_get :: "('k \<times> 'v) list \<Rightarrow> 'k \<Rightarrow> 'v \<Rightarrow> 'v" where
  "dict_get d k dflt = (case map_of d k of Some v \<Rightarrow> v | None \<Rightarrow> dflt)"

lemma dict_get_update: "dict_get (AList.update k v d) k' dflt = (if k' = k then v else dict_get d k' dflt)"
  by (simp add: dict_get_def update_conv')

lemma dict_get_Nil [simp]: "dict_get [] k dflt = dflt"
  by (simp add: dict_get_def)

lemma dict_get_Cons [simp]:
  "dict_get ((k, v) # d) k' dflt = (if k' = k then v else dict_get d k' dflt)"
  by (simp add: dict_get_def)

section \<open>Lists and sums\<close>

lemma sum_list_map_if_eq:
  fixes f g :: "'a \<Rightarrow> 'b::comm_monoid_add"
  shows "sum_list (map (\<lambda>x. if P x then f x else 0) xs) = sum_list (map f (filter P xs))"
  by (induction xs) auto

lemma sum_list_map_filter_split:
  fixes f :: "'a \<Rightarrow> 'b::comm_monoid_add"
  shows "sum_list (map f xs) = sum_list (map f (filter P xs)) + sum_list (map f (filter (\<lambda>x. \<not> P x) xs))"
  by (induction xs) (auto simp: ac_simps)

lemma sum_list_filter_disj:
  fixes f :: "'a \<Rightarrow> 'b::comm_monoid_add"
  assumes "\<And>x. x \<in> set xs \<Longrightarrow> \<not> (P x \<and> Q x)"
  shows "sum_list (map f (filter (\<lambda>x. P x \<or> Q x) xs))
    = sum_list (map f (filter P xs)) + sum_list (map f (filter Q xs))"
  using assms by (induction xs) (auto simp: ac_simps)

lemma sum_list_swap:
  fixes f :: "'a \<Rightarrow> 'b \<Rightarrow> 'c::comm_monoid_add"
  shows "sum_list (map (\<lambda>x. sum_list (map (f x) ys)) xs) = sum_list (map (\<lambda>y. sum_list (map (\<lambda>x. f x y) xs)) ys)"
  by (induction xs) (simp_all add: sum_list_addf)

lemma sum_list_indicator_distinct:
  fixes a :: "'b::comm_monoid_add"
  assumes "distinct cs"
  shows "sum_list (map (\<lambda>c. if x = c then a else 0) cs) = (if x \<in> set cs then a else 0)"
  using assms by (induction cs) auto

lemma filter_map_id_distinct:
  "distinct (map f xs) \<Longrightarrow> x \<in> set xs \<Longrightarrow> filter (\<lambda>y. f y = f x) xs = [x]"
proof (induction xs)
  case (Cons a xs)
  then show ?case by (cases "f a = f x") (auto simp: filter_empty_conv rev_image_eqI)
qed simp

lemma find_Some_mem: "find P xs = Some x \<Longrightarrow> x \<in> set xs \<and> P x"
  by (induction xs) (auto split: if_splits)

lemma find_append: "find P (xs @ ys) = (case find P xs of None \<Rightarrow> find P ys | Some x \<Rightarrow> Some x)"
  by (induction xs) auto

lemma find_None_all: "find P xs = None \<longleftrightarrow> (\<forall>x\<in>set xs. \<not> P x)"
  by (induction xs) auto

lemma find_distinct_map:
  "distinct (map f xs) \<Longrightarrow> find (\<lambda>y. f y = k) xs = Some x \<longleftrightarrow> x \<in> set xs \<and> f x = k"
  by (induction xs) (auto simp: rev_image_eqI split: if_splits)

end
