(* ===== verification/Decimal.thy ===== *)
theory Decimal
  imports Prelude
begin

text \<open>
  The arithmetic of Python's \<open>decimal\<close> module under its default context: every result is rounded
  to 28 significant digits, half to even. A finite \<open>Decimal\<close> is the rational it denotes (its
  exponent and the sign of zero are not observed by the code modelled here); the exponent limits
  of the context (about a million digits) are not modelled. \<open>NUMERIC\<close> columns of the database add
  exactly, which is plain rational addition.
\<close>

type_synonym decimal = rat

section \<open>Rounding\<close>

definition round_half_even :: "rat \<Rightarrow> int" where
  "round_half_even r =
     (let f = \<lfloor>r\<rfloor>; d = r - of_int f
      in if d < 1 / 2 then f else if d > 1 / 2 then f + 1 else if even f then f else f + 1)"

function digit_count :: "int \<Rightarrow> int" where
  "digit_count n = (if n < 10 then 1 else 1 + digit_count (n div 10))"
  by pat_completeness auto
termination by (relation "measure nat") auto

declare digit_count.simps [simp del]

text \<open>The exponent of the leading digit of a positive number: \<open>10\<^bsup>a\<^esup> \<le> x < 10\<^bsup>a+1\<^esup>\<close>.\<close>

definition leading_exponent :: "rat \<Rightarrow> int" where
  "leading_exponent x =
     (let (n, d) = quotient_of x; e = digit_count n - digit_count d
      in if 10 powi e \<le> x then e else e - 1)"

definition PRECISION :: int where "PRECISION = 28"

definition round_positive :: "rat \<Rightarrow> rat" where
  "round_positive x =
     (let e = leading_exponent x - (PRECISION - 1)
      in of_int (round_half_even (x / 10 powi e)) * 10 powi e)"

definition dround :: "rat \<Rightarrow> decimal" where
  "dround x = (if x = 0 then 0 else if x < 0 then - round_positive (- x) else round_positive x)"

definition dadd :: "decimal \<Rightarrow> decimal \<Rightarrow> decimal" where "dadd x y = dround (x + y)"
definition dsub :: "decimal \<Rightarrow> decimal \<Rightarrow> decimal" where "dsub x y = dround (x - y)"
definition dmul :: "decimal \<Rightarrow> decimal \<Rightarrow> decimal" where "dmul x y = dround (x * y)"
definition ddiv :: "decimal \<Rightarrow> decimal \<Rightarrow> decimal" where "ddiv x y = dround (x / y)"

text \<open>Unary minus and \<open>abs\<close> also round to the context.\<close>

definition dneg :: "decimal \<Rightarrow> decimal" where "dneg x = dround (- x)"
definition dabs :: "decimal \<Rightarrow> decimal" where "dabs x = dround \<bar>x\<bar>"

text \<open>\<open>sum(xs, Decimal(0))\<close> adds from the left, rounding every partial sum.\<close>

definition dsum :: "decimal list \<Rightarrow> decimal" where
  "dsum xs = foldl dadd 0 xs"

section \<open>Rounding to an integer\<close>

lemma round_half_even_near: "\<bar>of_int (round_half_even r) - r\<bar> \<le> 1 / 2"
  unfolding round_half_even_def Let_def using floor_correct[of r] by (auto simp: abs_le_iff)

lemma round_half_even_of_int [simp]: "round_half_even (of_int n) = n"
  by (simp add: round_half_even_def)

lemma round_half_even_mono: "r \<le> s \<Longrightarrow> round_half_even r \<le> round_half_even s"
proof -
  assume le: "r \<le> s"
  then have "\<lfloor>r\<rfloor> \<le> \<lfloor>s\<rfloor>" by (rule floor_mono)
  show ?thesis
  proof (cases "\<lfloor>r\<rfloor> = \<lfloor>s\<rfloor>")
    case True
    then show ?thesis using le by (auto simp: round_half_even_def Let_def)
  next
    case False
    with \<open>\<lfloor>r\<rfloor> \<le> \<lfloor>s\<rfloor>\<close> have "\<lfloor>r\<rfloor> + 1 \<le> \<lfloor>s\<rfloor>" by simp
    moreover have "round_half_even r \<le> \<lfloor>r\<rfloor> + 1" "\<lfloor>s\<rfloor> \<le> round_half_even s"
      by (auto simp: round_half_even_def Let_def)
    ultimately show ?thesis by simp
  qed
qed

section \<open>The leading digit\<close>

lemma digit_count_bounds: "1 \<le> n \<Longrightarrow> 10 ^ nat (digit_count n - 1) \<le> n \<and> n < 10 ^ nat (digit_count n) \<and> 1 \<le> digit_count n"
proof (induction n rule: digit_count.induct)
  case (1 n)
  show ?case
  proof (cases "n < 10")
    case True
    with 1 show ?thesis by (simp add: digit_count.simps[of n])
  next
    case False
    let ?k = "digit_count (n div 10)"
    have IH: "10 ^ nat (?k - 1) \<le> n div 10" "n div 10 < 10 ^ nat ?k" "1 \<le> ?k"
      using 1 False by auto
    have "digit_count n = 1 + ?k" using False by (simp add: digit_count.simps[of n])
    moreover have "nat ?k = Suc (nat (?k - 1))" "nat (1 + ?k) = Suc (nat ?k)" using IH(3) by auto
    moreover have "10 * 10 ^ nat (?k - 1) \<le> n" using IH(1) by linarith
    moreover have "n < 10 * 10 ^ nat ?k" using IH(2) by linarith
    ultimately show ?thesis using IH(3) by simp
  qed
qed

lemma digit_count_powi:
  assumes "1 \<le> n"
  shows "10 powi (digit_count n - 1) \<le> (of_int n :: rat)" "(of_int n :: rat) < 10 powi digit_count n"
proof -
  note b = digit_count_bounds[OF assms]
  have "(10 :: rat) powi (digit_count n - 1) = of_int (10 ^ nat (digit_count n - 1))"
    using b by (simp add: power_int_def)
  then show "10 powi (digit_count n - 1) \<le> (of_int n :: rat)"
    using b by (simp only: of_int_le_iff)
  have "(10 :: rat) powi digit_count n = of_int (10 ^ nat (digit_count n))"
    using b by (simp add: power_int_def)
  then show "(of_int n :: rat) < 10 powi digit_count n"
    using b by (simp only: of_int_less_iff)
qed

lemma leading_exponent_bounds:
  assumes "0 < x"
  shows "10 powi leading_exponent x \<le> x" "x < 10 powi (leading_exponent x + 1)"
proof -
  obtain n d where q: "quotient_of x = (n, d)" by fastforce
  have d: "0 < d" using quotient_of_denom_pos[OF q] .
  have x: "x = of_int n / of_int d" using quotient_of_div[OF q] .
  have n: "0 < n" using assms d unfolding x by (simp add: zero_less_divide_iff)
  let ?N = "digit_count n" and ?D = "digit_count d"
  have pow: "(10 :: rat) powi (a - b) = 10 powi a / 10 powi b" for a b
    by (simp add: power_int_diff)
  have dpos: "0 < (of_int d :: rat)" using d by simp
  have "x < 10 powi ?N / 10 powi (?D - 1)"
    unfolding x using digit_count_powi[of n] digit_count_powi[of d] n d
    by (intro frac_less) auto
  then have up: "x < 10 powi (?N - ?D + 1)"
    by (simp add: pow[symmetric] algebra_simps)
  have "10 powi (?N - 1) / 10 powi ?D < x"
    unfolding x using digit_count_powi[of n] digit_count_powi[of d] n d
    by (intro frac_less2) auto
  then have lo: "10 powi (?N - ?D - 1) < x"
    by (simp add: pow[symmetric] algebra_simps)
  show "10 powi leading_exponent x \<le> x" "x < 10 powi (leading_exponent x + 1)"
    using up lo by (auto simp: leading_exponent_def q Let_def)
qed

lemma powi_less_iff: "(10 :: rat) powi a < 10 powi b \<longleftrightarrow> a < b"
  using power_int_strict_increasing[of a b "10 :: rat"] power_int_strict_increasing[of b a "10 :: rat"]
  by (cases a b rule: linorder_cases) auto

lemma powi_pos [simp]: "0 < (10 :: rat) powi a"
  by (rule zero_less_power_int) simp

lemma powi_not_neg [simp]: "\<not> (10 :: rat) powi a < 0"
  using powi_pos[of a] by linarith

lemma leading_exponent_unique:
  assumes "10 powi a \<le> x" "x < 10 powi (a + 1)"
  shows "leading_exponent x = a"
proof -
  have "0 < x" using assms(1) powi_pos[of a] by linarith
  note b = leading_exponent_bounds[OF this]
  have "10 powi a < (10 :: rat) powi (leading_exponent x + 1)" using assms(1) b(2) by linarith
  moreover have "10 powi leading_exponent x < (10 :: rat) powi (a + 1)" using assms(2) b(1) by linarith
  ultimately show ?thesis by (simp add: powi_less_iff)
qed

lemma leading_exponent_mono: "0 < x \<Longrightarrow> x \<le> y \<Longrightarrow> leading_exponent x \<le> leading_exponent y"
proof -
  assume "0 < x" "x \<le> y"
  then have "10 powi leading_exponent x < (10 :: rat) powi (leading_exponent y + 1)"
    using leading_exponent_bounds(1)[of x] leading_exponent_bounds(2)[of y] by linarith
  then show ?thesis by (simp add: powi_less_iff)
qed

section \<open>Rounding to 28 digits\<close>

lemma powi_mult_div: "10 powi a / (10 :: rat) powi b = 10 powi (a - b)"
  by (simp add: power_int_diff)

lemma powi_add: "(10 :: rat) powi a * 10 powi b = 10 powi (a + b)"
  by (simp add: power_int_add)

lemma scaled_bounds:
  assumes "0 < x"
  shows "10 ^ 27 \<le> x / 10 powi (leading_exponent x - 27)" "x / 10 powi (leading_exponent x - 27) < 10 ^ 28"
proof -
  have p: "(10 :: rat) ^ 27 * 10 powi (leading_exponent x - 27) = 10 powi leading_exponent x"
    "(10 :: rat) ^ 28 * 10 powi (leading_exponent x - 27) = 10 powi (leading_exponent x + 1)"
    using powi_add[of 27 "leading_exponent x - 27"] powi_add[of 28 "leading_exponent x - 27"]
    by (simp_all add: add.commute)
  show "10 ^ 27 \<le> x / 10 powi (leading_exponent x - 27)" "x / 10 powi (leading_exponent x - 27) < 10 ^ 28"
    using leading_exponent_bounds[OF assms]
    by (simp_all only: pos_le_divide_eq pos_divide_less_eq powi_pos p)
qed

lemma scaled_round_bounds:
  assumes "0 < x"
  shows "10 ^ 27 \<le> round_half_even (x / 10 powi (leading_exponent x - 27))"
    "round_half_even (x / 10 powi (leading_exponent x - 27)) \<le> 10 ^ 28"
proof -
  have "round_half_even (of_int (10 ^ 27)) \<le> round_half_even (x / 10 powi (leading_exponent x - 27))"
    using scaled_bounds(1)[OF assms] by (intro round_half_even_mono) simp
  then show "10 ^ 27 \<le> round_half_even (x / 10 powi (leading_exponent x - 27))"
    by (simp only: round_half_even_of_int)
  have "round_half_even (x / 10 powi (leading_exponent x - 27)) \<le> round_half_even (of_int (10 ^ 28))"
    using scaled_bounds(2)[OF assms] by (intro round_half_even_mono) simp
  then show "round_half_even (x / 10 powi (leading_exponent x - 27)) \<le> 10 ^ 28"
    by (simp only: round_half_even_of_int)
qed

lemma round_positive_eq:
  "round_positive x = of_int (round_half_even (x / 10 powi (leading_exponent x - 27)))
     * 10 powi (leading_exponent x - 27)"
  by (simp add: round_positive_def PRECISION_def Let_def)

lemma round_positive_bounds:
  assumes "0 < x"
  shows "10 powi leading_exponent x \<le> round_positive x" "round_positive x \<le> 10 powi (leading_exponent x + 1)"
proof -
  let ?m = "round_half_even (x / 10 powi (leading_exponent x - 27))"
  have m: "(10 :: rat) powi 27 \<le> of_int ?m" "of_int ?m \<le> (10 :: rat) powi 28"
    using scaled_round_bounds[OF assms] by (simp_all flip: of_int_power add: of_int_le_iff)
  have "10 powi 27 * 10 powi (leading_exponent x - 27) \<le> round_positive x"
    unfolding round_positive_eq using m(1) by (intro mult_right_mono) auto
  then show "10 powi leading_exponent x \<le> round_positive x"
    unfolding powi_add by simp
  have "round_positive x \<le> 10 powi 28 * 10 powi (leading_exponent x - 27)"
    unfolding round_positive_eq using m(2) by (intro mult_right_mono) auto
  then show "round_positive x \<le> 10 powi (leading_exponent x + 1)"
    unfolding powi_add by (simp add: add.commute)
qed

lemma round_positive_pos: "0 < x \<Longrightarrow> 0 < round_positive x"
  using round_positive_bounds(1)[of x] powi_pos[of "leading_exponent x"] by linarith

lemma round_positive_mono:
  assumes "0 < x" "x \<le> y"
  shows "round_positive x \<le> round_positive y"
proof (cases "leading_exponent x = leading_exponent y")
  case True
  have "x / 10 powi (leading_exponent y - 27) \<le> y / 10 powi (leading_exponent y - 27)"
    using assms by (intro divide_right_mono) auto
  then show ?thesis
    unfolding round_positive_eq True by (intro mult_right_mono) (auto intro: round_half_even_mono)
next
  case False
  then have "leading_exponent x + 1 \<le> leading_exponent y"
    using leading_exponent_mono[OF assms] by simp
  then have "(10 :: rat) powi (leading_exponent x + 1) \<le> 10 powi leading_exponent y"
    using powi_less_iff[of "leading_exponent y" "leading_exponent x + 1"] by (simp add: not_less[symmetric])
  then show ?thesis
    using round_positive_bounds(2)[OF assms(1)] round_positive_bounds(1)[of y] assms by linarith
qed

lemma dround_0 [simp]: "dround 0 = 0"
  by (simp add: dround_def)

lemma dround_minus: "dround (- x) = - dround x"
  by (simp add: dround_def)

lemma dround_pos_iff [simp]: "0 < dround x \<longleftrightarrow> 0 < x"
  using round_positive_pos[of x] round_positive_pos[of "- x"] by (auto simp: dround_def)

lemma dround_neg_iff [simp]: "dround x < 0 \<longleftrightarrow> x < 0"
  using dround_pos_iff[of "- x"] by (simp add: dround_minus)

lemma dround_eq_0_iff [simp]: "dround x = 0 \<longleftrightarrow> x = 0"
  using dround_pos_iff[of x] dround_neg_iff[of x] by (cases x "0 :: rat" rule: linorder_cases) (auto simp del: dround_pos_iff dround_neg_iff)

lemma dround_nonneg_iff [simp]: "0 \<le> dround x \<longleftrightarrow> 0 \<le> x"
  using dround_neg_iff[of x] by (simp only: not_less[symmetric])

lemma dround_nonpos_iff [simp]: "dround x \<le> 0 \<longleftrightarrow> x \<le> 0"
  using dround_pos_iff[of x] by (simp only: not_less[symmetric])

lemma dround_mono: "x \<le> y \<Longrightarrow> dround x \<le> dround y"
proof -
  assume le: "x \<le> y"
  consider "0 < x" | "y < 0" | "x \<le> 0" "0 \<le> y" by linarith
  then show ?thesis
  proof cases
    case 1
    then show ?thesis using le round_positive_mono[of x y] by (simp add: dround_def)
  next
    case 2
    then show ?thesis using le round_positive_mono[of "- y" "- x"] by (simp add: dround_def)
  next
    case 3
    then have "dround x \<le> 0" "0 \<le> dround y" by simp_all
    then show ?thesis by linarith
  qed
qed

section \<open>Numbers that are not rounded\<close>

definition exact :: "rat \<Rightarrow> bool" where
  "exact x \<longleftrightarrow> dround x = x"

lemma round_positive_coefficient:
  assumes "0 < m" "m \<le> 10 ^ 28"
  shows "round_positive (of_int m * 10 powi k) = of_int m * 10 powi k"
proof -
  let ?x = "of_int m * 10 powi k :: rat"
  let ?e = "leading_exponent ?x - 27"
  have x: "0 < ?x" using assms(1) by simp
  have "\<exists>n :: int. ?x / 10 powi ?e = of_int n"
  proof (cases "?e \<le> k")
    case True
    have "?x / 10 powi ?e = of_int m * 10 powi (k - ?e)"
      by (simp only: powi_mult_div[symmetric] times_divide_eq_right)
    also have "(10 :: rat) powi (k - ?e) = of_int (10 ^ nat (k - ?e))" using True by (simp add: power_int_def)
    finally show ?thesis by (metis of_int_mult)
  next
    case False
    have "10 powi 28 * 10 powi k \<le> (10 :: rat) powi leading_exponent ?x"
      unfolding powi_add using False powi_less_iff[of "leading_exponent ?x" "28 + k"]
      by (simp only: not_less[symmetric]) simp
    then have "10 powi 28 * 10 powi k \<le> ?x" using leading_exponent_bounds(1)[OF x] by linarith
    then have "(10 :: rat) powi 28 \<le> of_int m" by (simp add: mult_le_cancel_right_pos)
    moreover have "(10 :: rat) powi 28 = of_int (10 ^ 28)" by simp
    ultimately have "10 ^ 28 \<le> m" by (simp only: of_int_le_iff)
    then have m: "m = 10 ^ 28" using assms(2) by simp
    have xm: "?x = 10 powi (28 + k)" unfolding m powi_add[symmetric] by simp
    have "leading_exponent ?x = 28 + k"
      unfolding xm using powi_less_iff[of "28 + k" "28 + k + 1"] by (intro leading_exponent_unique) auto
    then have "?x / 10 powi ?e = 10 powi 27" unfolding xm powi_mult_div by simp
    also have "\<dots> = of_int (10 ^ 27)" by simp
    finally show ?thesis by blast
  qed
  then obtain n :: int where n: "?x / 10 powi ?e = of_int n" by blast
  then have "round_half_even (?x / 10 powi ?e) = n" by (simp only: round_half_even_of_int)
  then have "round_positive ?x = of_int n * 10 powi ?e"
    by (simp only: round_positive_eq)
  also have "\<dots> = ?x" unfolding n[symmetric] by simp
  finally show ?thesis .
qed

lemma exact_coefficient:
  assumes "\<bar>m\<bar> \<le> 10 ^ 28"
  shows "exact (of_int m * 10 powi k)"
proof -
  consider "m = 0" | "0 < m" | "m < 0" by linarith
  then show ?thesis
  proof cases
    case 3
    then have "\<not> 0 < of_int m * (10 :: rat) powi k" by (simp add: zero_less_mult_iff not_less order_less_imp_le)
    with 3 have "dround (of_int (- m) * 10 powi k) = of_int (- m) * 10 powi k"
      using round_positive_coefficient[of "- m" k] assms
      by (simp only: dround_def) (simp add: mult_less_0_iff)
    then have "dround (- (of_int m * 10 powi k)) = - (of_int m * 10 powi k)" by simp
    then show ?thesis by (simp only: dround_minus exact_def neg_equal_iff_equal)
  next
    case 2
    then show ?thesis
      using round_positive_coefficient[of m k] assms
      by (simp add: exact_def dround_def mult_less_0_iff)
  qed (simp add: exact_def)
qed

lemma exact_minus [simp]: "exact (- x) = exact x"
  by (simp add: exact_def dround_minus)

lemma exact_0 [simp]: "exact 0" by (simp add: exact_def)

lemma exact_dround [simp]: "exact (dround x)"
proof -
  have "exact (round_positive y)" if "0 < y" for y
    unfolding round_positive_eq using scaled_round_bounds[OF that] by (intro exact_coefficient) simp
  from this[of x] this[of "- x"] show ?thesis by (auto simp: dround_def)
qed

lemma dround_exact: "exact x \<Longrightarrow> dround x = x"
  by (simp add: exact_def)

lemma dround_idem [simp]: "dround (dround x) = dround x"
  using exact_dround[of x] by (simp add: exact_def)

lemma exact_of_int: "\<bar>m\<bar> \<le> 10 ^ 28 \<Longrightarrow> exact (of_int m)"
  using exact_coefficient[of m 0] by simp

lemma exact_numeral: "numeral n \<le> (10 :: int) ^ 28 \<Longrightarrow> exact (numeral n)"
  using exact_of_int[of "numeral n"] by simp

lemma exact_abs [simp]: "exact x \<Longrightarrow> exact \<bar>x\<bar>"
  by (simp add: abs_if)

lemma exact_arith [simp]:
  "exact (dadd x y)" "exact (dsub x y)" "exact (dmul x y)" "exact (ddiv x y)" "exact (dneg x)" "exact (dabs x)"
  by (simp_all add: dadd_def dsub_def dmul_def ddiv_def dneg_def dabs_def)

text \<open>Results whose exact value has at most 28 digits are not rounded.\<close>

lemma dadd_exact: "exact (x + y) \<Longrightarrow> dadd x y = x + y"
  and dsub_exact: "exact (x - y) \<Longrightarrow> dsub x y = x - y"
  and dmul_exact: "exact (x * y) \<Longrightarrow> dmul x y = x * y"
  and ddiv_exact: "exact (x / y) \<Longrightarrow> ddiv x y = x / y"
  by (simp_all add: dadd_def dsub_def dmul_def ddiv_def dround_exact)

lemma dneg_exact: "exact x \<Longrightarrow> dneg x = - x"
  by (simp add: dneg_def dround_minus dround_exact)

lemma dabs_exact: "exact x \<Longrightarrow> dabs x = \<bar>x\<bar>"
  by (simp add: dabs_def dround_exact)

lemma dadd_0 [simp]: "exact x \<Longrightarrow> dadd 0 x = x" "exact x \<Longrightarrow> dadd x 0 = x"
  by (simp_all add: dadd_def dround_exact)

text \<open>The sign of a rounded result is the sign of the exact one.\<close>

lemma dadd_sign:
  "0 < dadd x y \<longleftrightarrow> 0 < x + y" "dadd x y = 0 \<longleftrightarrow> x + y = 0" "dadd x y < 0 \<longleftrightarrow> x + y < 0"
  by (simp_all add: dadd_def)

lemma dmul_sign:
  "0 < dmul x y \<longleftrightarrow> 0 < x * y" "dmul x y = 0 \<longleftrightarrow> x * y = 0" "dmul x y < 0 \<longleftrightarrow> x * y < 0"
  by (simp_all only: dmul_def dround_pos_iff dround_eq_0_iff dround_neg_iff)

lemma ddiv_sign: "0 < ddiv x y \<longleftrightarrow> 0 < x / y"
  by (simp only: ddiv_def dround_pos_iff)

lemma dround_le_exact: "x \<le> y \<Longrightarrow> exact y \<Longrightarrow> dround x \<le> y"
  using dround_mono[of x y] by (simp add: exact_def)

lemma dround_ge_exact: "y \<le> x \<Longrightarrow> exact y \<Longrightarrow> y \<le> dround x"
  using dround_mono[of y x] by (simp add: exact_def)

text \<open>Evaluation takes a short way for numbers with at most six decimal places, which are not rounded.\<close>

lemma dround_code [code]:
  "dround x = (let (p, q) = quotient_of x in
     if 1000000 mod q = 0 \<and> \<bar>p * (1000000 div q)\<bar> \<le> 10000000000000000000000000000 then x
     else if x < 0 then - round_positive (- x) else round_positive x)"
proof -
  obtain p q where pq: "quotient_of x = (p, q)" by fastforce
  have q: "0 < q" using quotient_of_denom_pos[OF pq] .
  have x: "x = of_int p / of_int q" using quotient_of_div[OF pq] .
  have "dround x = x" if "1000000 mod q = 0" "\<bar>p * (1000000 div q)\<bar> \<le> 10000000000000000000000000000"
  proof -
    have "1000000 = 1000000 div q * q" using that(1) by (metis add.right_neutral div_mult_mod_eq)
    then have "(1000000 :: rat) = of_int (1000000 div q) * of_int q" by (metis of_int_mult of_int_numeral)
    then have "x = of_int (p * (1000000 div q)) * 10 powi (- 6)"
      using q by (simp add: x power_int_minus field_simps)
    moreover have "exact (of_int (p * (1000000 div q)) * 10 powi (- 6))"
      using that(2) by (intro exact_coefficient) simp
    ultimately show ?thesis by (simp only: dround_exact)
  qed
  moreover have "dround x = (if x < 0 then - round_positive (- x) else round_positive x)" if "x \<noteq> 0"
    using that by (simp add: dround_def)
  moreover have "x = 0 \<Longrightarrow> dround x = x" by (simp add: dround_def)
  moreover have "x = 0 \<Longrightarrow> q = 1" "x = 0 \<Longrightarrow> p = 0" using pq by (simp_all add: quotient_of_eq)
  ultimately show ?thesis unfolding pq by (cases "x = 0") auto
qed

lemma sgn_dround [simp]: "sgn (dround x) = sgn x"
  by (cases x "0 :: rat" rule: linorder_cases) simp_all

end
