(* ===== verification/Venue_Protocol.thy ===== *)
theory Venue_Protocol
  imports Decimal
begin

text \<open>
  The value objects every trading component shares, from \<open>src/omni/venue/protocol.py\<close>: sides, market
  types, capabilities, intents, quotes, fills, positions and balances with the validation of their
  constructors. A \<open>Decimal\<close> that may be infinite or NaN is \<open>xdecimal\<close>; only a fill is read by
  code that guards against one (\<open>record_fill\<close>), so its record is polymorphic in its numbers.
  Instants are integers (UTC microseconds).
\<close>

datatype trading_error =
    Invalid_Intent | Invalid_Value | Decimal_Error | Type_Error
  | Illegal_Transition | Unknown_Order | Order_Ledger_Error
  | Unknown_Portfolio | Unmarked_Position | Duplicate_Portfolio | Unaccounted_Close
  | Integrity_Error | Venue_Unavailable | Uncertain_Execution | Key_Error | Attribute_Error

type_synonym 'a trading = "(trading_error, 'a) result"

datatype side = Buy | Sell
datatype order_kind = Market | Limit
datatype market_type = Spot | Margin | Perpetual

text \<open>\<open>MarketType.value\<close>, the text stored in the database; rows are ordered by it.\<close>

fun market_value :: "market_type \<Rightarrow> string" where
  "market_value Spot = ''spot''"
| "market_value Margin = ''margin''"
| "market_value Perpetual = ''perpetual''"

lemma market_value_inj: "market_value a = market_value b \<longleftrightarrow> a = b"
  by (cases a; cases b) simp_all

instantiation market_type :: linorder
begin

definition less_eq_market_type :: "market_type \<Rightarrow> market_type \<Rightarrow> bool" where
  "less_eq_market_type a b \<longleftrightarrow> market_value a \<le> market_value b"

definition less_market_type :: "market_type \<Rightarrow> market_type \<Rightarrow> bool" where
  "less_market_type a b \<longleftrightarrow> market_value a < market_value b"

instance
  by intro_classes (auto simp: less_eq_market_type_def less_market_type_def market_value_inj order_less_le)

end

section \<open>Numbers that may not be finite\<close>

datatype xdecimal = Fin decimal | Infinity bool | NaN

fun is_finite :: "xdecimal \<Rightarrow> bool" where
  "is_finite (Fin _) = True"
| "is_finite _ = False"

fun finite_part :: "xdecimal \<Rightarrow> decimal" where
  "finite_part (Fin x) = x"
| "finite_part _ = 0"

text \<open>Ordered comparison with zero; on NaN it raises \<open>InvalidOperation\<close>. \<open>Infinity True\<close> is positive.\<close>

fun x_negative :: "xdecimal \<Rightarrow> bool trading" where
  "x_negative (Fin x) = Inr (x < 0)"
| "x_negative (Infinity up) = Inr (\<not> up)"
| "x_negative NaN = Inl Decimal_Error"

fun x_positive :: "xdecimal \<Rightarrow> bool trading" where
  "x_positive (Fin x) = Inr (0 < x)"
| "x_positive (Infinity up) = Inr up"
| "x_positive NaN = Inl Decimal_Error"

section \<open>Capabilities\<close>

record capabilities =
  cap_spot :: bool
  cap_margin :: bool
  cap_perpetuals :: bool
  cap_limit_orders :: bool
  cap_shorting :: bool
  cap_funding_data :: bool
  cap_maker_fee_bps :: decimal
  cap_taker_fee_bps :: decimal
  cap_min_notional :: decimal
  cap_perp_maker_fee_bps :: "decimal option"
  cap_perp_taker_fee_bps :: "decimal option"

definition negative_option :: "decimal option \<Rightarrow> bool" where
  "negative_option x = (case x of None \<Rightarrow> False | Some v \<Rightarrow> v < 0)"

definition check_capabilities :: "capabilities \<Rightarrow> capabilities trading" where
  "check_capabilities c =
     rbind (ensure (\<not> (cap_maker_fee_bps c < 0 \<or> cap_taker_fee_bps c < 0)) Invalid_Value) (\<lambda>_.
     rbind (ensure (\<not> negative_option (cap_perp_maker_fee_bps c)) Invalid_Value) (\<lambda>_.
     rbind (ensure (\<not> negative_option (cap_perp_taker_fee_bps c)) Invalid_Value) (\<lambda>_.
     rbind (ensure (\<not> cap_min_notional c < 0) Invalid_Value) (\<lambda>_.
     rbind (ensure (\<not> (cap_perpetuals c \<and> \<not> cap_shorting c)) Invalid_Value) (\<lambda>_.
     Inr c)))))"

definition supports :: "capabilities \<Rightarrow> market_type \<Rightarrow> bool" where
  "supports c mt = (case mt of Spot \<Rightarrow> cap_spot c | Margin \<Rightarrow> cap_margin c | Perpetual \<Rightarrow> cap_perpetuals c)"

section \<open>Intents\<close>

record intent =
  in_venue :: string
  in_symbol :: string
  in_side :: side
  in_market_type :: market_type
  in_quantity :: decimal
  in_reference_price :: decimal
  in_kind :: order_kind
  in_limit_price :: "decimal option"
  in_stop_price :: "decimal option"
  in_take_profit_price :: "decimal option"
  in_expires_at :: "int option"
  in_reduce_only :: bool
  in_provenance :: string
  in_key :: string

definition validate_barriers :: "intent \<Rightarrow> unit trading" where
  "validate_barriers i =
     (let below = (if in_side i = Buy then in_stop_price i else in_take_profit_price i);
          above = (if in_side i = Buy then in_take_profit_price i else in_stop_price i)
      in rbind (ensure (case below of None \<Rightarrow> True | Some b \<Rightarrow> \<not> in_reference_price i \<le> b) Invalid_Intent) (\<lambda>_.
         ensure (case above of None \<Rightarrow> True | Some a \<Rightarrow> \<not> a \<le> in_reference_price i) Invalid_Intent))"

definition check_intent :: "intent \<Rightarrow> intent trading" where
  "check_intent i =
     rbind (ensure (\<not> in_quantity i \<le> 0) Invalid_Intent) (\<lambda>_.
     rbind (ensure (\<not> in_reference_price i \<le> 0) Invalid_Intent) (\<lambda>_.
     rbind (ensure (\<not> (in_kind i = Limit \<and> in_limit_price i = None)) Invalid_Intent) (\<lambda>_.
     rbind (ensure (\<not> (in_kind i = Market \<and> in_limit_price i \<noteq> None)) Invalid_Intent) (\<lambda>_.
     rbind (ensure (case in_limit_price i of None \<Rightarrow> True | Some p \<Rightarrow> \<not> p \<le> 0) Invalid_Intent) (\<lambda>_.
     rbind (validate_barriers i) (\<lambda>_. Inr i))))))"

definition intent_notional :: "intent \<Rightarrow> decimal" where
  "intent_notional i = dmul (in_quantity i) (in_reference_price i)"

section \<open>Quotes\<close>

record quote =
  qt_intent :: intent
  qt_expected_price :: decimal
  qt_fee :: decimal
  qt_slippage :: decimal
  qt_gas :: decimal

definition check_quote :: "quote \<Rightarrow> quote trading" where
  "check_quote q =
     rbind (ensure (\<not> qt_expected_price q \<le> 0) Invalid_Value) (\<lambda>_.
     rbind (ensure (\<not> qt_fee q < 0 \<and> \<not> qt_slippage q < 0 \<and> \<not> qt_gas q < 0) Invalid_Value) (\<lambda>_. Inr q))"

definition total_cost :: "quote \<Rightarrow> decimal" where
  "total_cost q = dadd (dadd (qt_fee q) (qt_slippage q)) (qt_gas q)"

definition quantity_notional :: "quote \<Rightarrow> decimal" where
  "quantity_notional q = dmul (in_quantity (qt_intent q)) (qt_expected_price q)"

definition cost_bps :: "quote \<Rightarrow> decimal trading" where
  "cost_bps q =
     (let notional = quantity_notional q
      in if notional = 0 then Inl Invalid_Value else Inr (dmul (ddiv (total_cost q) notional) 10000))"

section \<open>Fills\<close>

record 'd fill =
  fl_intent_id :: string
  fl_venue :: string
  fl_symbol :: string
  fl_side :: side
  fl_quantity :: 'd
  fl_price :: 'd
  fl_fee :: 'd
  fl_at :: int
  fl_aware :: bool
  fl_external_id :: "string option"
  fl_raw :: string

text \<open>The fill with its numbers changed by \<open>f\<close>.\<close>

definition fill_numbers :: "('a \<Rightarrow> 'b) \<Rightarrow> 'a fill \<Rightarrow> 'b fill" where
  "fill_numbers f x =
     \<lparr>fl_intent_id = fl_intent_id x, fl_venue = fl_venue x, fl_symbol = fl_symbol x, fl_side = fl_side x,
      fl_quantity = f (fl_quantity x), fl_price = f (fl_price x), fl_fee = f (fl_fee x), fl_at = fl_at x,
      fl_aware = fl_aware x, fl_external_id = fl_external_id x, fl_raw = fl_raw x\<rparr>"

definition check_fill :: "xdecimal fill \<Rightarrow> xdecimal fill trading" where
  "check_fill f =
     rbind (x_negative (fl_quantity f)) (\<lambda>neg.
     rbind (ensure (\<not> neg) Invalid_Value) (\<lambda>_.
     rbind (x_positive (fl_quantity f)) (\<lambda>filled.
     rbind (if filled then x_positive (fl_price f) else Inr True) (\<lambda>priced.
     rbind (ensure priced Invalid_Value) (\<lambda>_.
     rbind (x_negative (fl_fee f)) (\<lambda>neg_fee.
     rbind (ensure (\<not> neg_fee) Invalid_Value) (\<lambda>_. Inr f)))))))"

definition fill_notional :: "decimal fill \<Rightarrow> decimal" where
  "fill_notional f = dmul (fl_quantity f) (fl_price f)"

text \<open>A fill \<open>Fill.__post_init__\<close> accepts whose numbers are finite.\<close>

definition valid_fill :: "decimal fill \<Rightarrow> bool" where
  "valid_fill f \<longleftrightarrow> 0 \<le> fl_quantity f \<and> (0 < fl_quantity f \<longrightarrow> 0 < fl_price f) \<and> 0 \<le> fl_fee f"

lemma check_fill_finite:
  "check_fill (fill_numbers Fin f) = Inr x \<longleftrightarrow> x = fill_numbers Fin f \<and> valid_fill f"
  by (auto simp: check_fill_def fill_numbers_def valid_fill_def result_simps)

section \<open>Positions and balances\<close>

record position =
  po_venue :: string
  po_symbol :: string
  po_market_type :: market_type
  po_quantity :: decimal
  po_average_entry :: decimal
  po_as_of :: int

definition check_position :: "position \<Rightarrow> position trading" where
  "check_position p =
     rbind (ensure (\<not> (po_quantity p \<noteq> 0 \<and> po_average_entry p \<le> 0)) Invalid_Value) (\<lambda>_. Inr p)"

definition is_short :: "position \<Rightarrow> bool" where
  "is_short p \<longleftrightarrow> po_quantity p < 0"

definition position_notional :: "position \<Rightarrow> decimal" where
  "position_notional p = dmul (dabs (po_quantity p)) (po_average_entry p)"

record balance =
  ba_venue :: string
  ba_asset :: string
  ba_free :: decimal
  ba_locked :: decimal
  ba_as_of :: int

definition check_balance :: "balance \<Rightarrow> balance trading" where
  "check_balance b = rbind (ensure (\<not> (ba_free b < 0 \<or> ba_locked b < 0)) Invalid_Value) (\<lambda>_. Inr b)"

definition balance_total :: "balance \<Rightarrow> decimal" where
  "balance_total b = dadd (ba_free b) (ba_locked b)"

section \<open>Properties of intents\<close>

text \<open>An intent that can be constructed has a positive size and prices, carries a limit price exactly
  when it is a limit order, and its stop is on the losing side of its reference price and its target
  on the winning side, for buys and for sells.\<close>

theorem intent_barriers_straddle:
  assumes "check_intent i = Inr j"
  shows "j = i \<and> 0 < in_quantity i \<and> 0 < in_reference_price i \<and> (in_kind i = Limit \<longleftrightarrow> in_limit_price i \<noteq> None)
    \<and> (\<forall>stop. in_stop_price i = Some stop \<longrightarrow>
         (if in_side i = Buy then stop < in_reference_price i else in_reference_price i < stop))
    \<and> (\<forall>target. in_take_profit_price i = Some target \<longrightarrow>
         (if in_side i = Buy then in_reference_price i < target else target < in_reference_price i))"
proof -
  have "in_kind i = Market \<or> in_kind i = Limit" by (cases "in_kind i") auto
  then show ?thesis
    using assms by (auto simp: check_intent_def validate_barriers_def Let_def result_simps not_le)
qed

definition sample_intent :: intent where
  "sample_intent = \<lparr>in_venue = ''paper'', in_symbol = ''BTC/USDT'', in_side = Sell, in_market_type = Perpetual,
     in_quantity = 2, in_reference_price = 100, in_kind = Market, in_limit_price = None,
     in_stop_price = Some 110, in_take_profit_price = Some 90, in_expires_at = None,
     in_reduce_only = False, in_provenance = ''{}'', in_key = ''k1''\<rparr>"

lemma intent_barriers_straddle_witness:
  "check_intent sample_intent = Inr sample_intent \<and> 100 < (110 :: decimal)"
proof -
  have ok: "check_intent sample_intent = Inr sample_intent" by code_simp
  have "in_stop_price sample_intent = Some 110" "in_side sample_intent = Sell" "in_reference_price sample_intent = 100"
    by (simp_all add: sample_intent_def)
  with intent_barriers_straddle[OF ok] ok show ?thesis by auto
qed

end
