(* ===== verification/Order_Ledger.thy ===== *)
theory Order_Ledger
  imports Venue_Protocol
begin

text \<open>
  The order ledger of \<open>src/omni/portfolio/orders.py\<close>: the \<open>trade_order\<close> and \<open>order_event\<close> tables,
  the declared lifecycle, and the three operations that write them. An operation that raises
  leaves the tables as they were (one transaction), so it returns the error alone. The
  \<open>ON CONFLICT\<close> insert is one atomic step; its branch for a competing write that rolled back
  does not arise between atomic steps. Payloads keep what the code reads back from them.

  The lemmas: every order's event log is a legal path that ends in its status, and its filled
  quantity, average price and fee are the replay of its fill events; an order is never overfilled
  and terminal orders never change.
\<close>

section \<open>Statuses\<close>

datatype order_status = Intent | Submitted | Acknowledged | Partially_Filled | Filled | Rejected | Cancelled

definition OPEN_STATUSES :: "order_status list" where
  "OPEN_STATUSES = [Intent, Submitted, Acknowledged, Partially_Filled]"

fun LEGAL_TRANSITIONS :: "order_status \<Rightarrow> order_status list" where
  "LEGAL_TRANSITIONS Intent = [Submitted, Rejected, Cancelled]"
| "LEGAL_TRANSITIONS Submitted = [Acknowledged, Partially_Filled, Filled, Rejected, Cancelled]"
| "LEGAL_TRANSITIONS Acknowledged = [Partially_Filled, Filled, Rejected, Cancelled]"
| "LEGAL_TRANSITIONS Partially_Filled = [Partially_Filled, Filled, Cancelled]"
| "LEGAL_TRANSITIONS Filled = []"
| "LEGAL_TRANSITIONS Rejected = []"
| "LEGAL_TRANSITIONS Cancelled = []"

definition check_transition :: "order_status \<Rightarrow> order_status \<Rightarrow> unit trading" where
  "check_transition current target = ensure (target \<in> set (LEGAL_TRANSITIONS current)) Illegal_Transition"

section \<open>Tables\<close>

record trade_order =
  od_id :: nat
  od_portfolio :: nat
  od_intent :: intent
  od_status :: order_status
  od_external_id :: "string option"
  od_filled :: decimal
  od_average :: "decimal option"
  od_fee :: decimal
  od_created :: int

definition remaining_quantity :: "trade_order \<Rightarrow> decimal" where
  "remaining_quantity r = dsub (in_quantity (od_intent r)) (od_filled r)"

definition is_open :: "trade_order \<Rightarrow> bool" where
  "is_open r \<longleftrightarrow> od_status r \<in> set OPEN_STATUSES"

datatype payload = Intent_Payload intent | Venue_Payload "string option" | Fill_Payload "decimal fill"

record order_event =
  ev_order :: nat
  ev_status :: order_status
  ev_at :: int
  ev_external_id :: "string option"
  ev_payload :: payload

text \<open>The database: rows in insertion order, the next row id and the clock (\<open>now()\<close>).\<close>

record ledger =
  ld_orders :: "trade_order list"
  ld_events :: "order_event list"
  ld_next :: nat
  ld_now :: int

definition empty_ledger :: ledger where
  "empty_ledger = \<lparr>ld_orders = [], ld_events = [], ld_next = 0, ld_now = 0\<rparr>"

definition order_by_id :: "ledger \<Rightarrow> nat \<Rightarrow> trade_order option" where
  "order_by_id L i = find (\<lambda>r. od_id r = i) (ld_orders L)"

definition order_by_key :: "ledger \<Rightarrow> string \<Rightarrow> trade_order option" where
  "order_by_key L k = find (\<lambda>r. in_key (od_intent r) = k) (ld_orders L)"

text \<open>\<open>UPDATE trade_order SET ... WHERE id = i\<close>\<close>

definition update_order :: "nat \<Rightarrow> (trade_order \<Rightarrow> trade_order) \<Rightarrow> ledger \<Rightarrow> ledger" where
  "update_order i f L = L\<lparr>ld_orders := map (\<lambda>r. if od_id r = i then f r else r) (ld_orders L)\<rparr>"

definition insert_event :: "nat \<Rightarrow> order_status \<Rightarrow> string option \<Rightarrow> payload \<Rightarrow> ledger \<Rightarrow> ledger" where
  "insert_event i st ext pl L = L\<lparr>ld_events := ld_events L @
     [\<lparr>ev_order = i, ev_status = st, ev_at = ld_now L, ev_external_id = ext, ev_payload = pl\<rparr>]\<rparr>"

definition coalesce :: "'a option \<Rightarrow> 'a option \<Rightarrow> 'a option" where
  "coalesce x y = (case x of None \<Rightarrow> y | Some _ \<Rightarrow> x)"

section \<open>Operations\<close>

text \<open>The table's CHECK constraints on a row.\<close>

definition order_checks :: "trade_order \<Rightarrow> bool" where
  "order_checks r \<longleftrightarrow> 0 < in_quantity (od_intent r) \<and> 0 < in_reference_price (od_intent r)
     \<and> 0 \<le> od_filled r \<and> 0 \<le> od_fee r \<and> (od_filled r = 0 \<or> od_average r \<noteq> None)"

definition record_intent :: "nat \<Rightarrow> intent \<Rightarrow> ledger \<Rightarrow> (nat \<times> ledger) trading" where
  "record_intent portfolio i L =
     (let row = \<lparr>od_id = ld_next L, od_portfolio = portfolio, od_intent = i, od_status = Intent,
                 od_external_id = None, od_filled = 0, od_average = None, od_fee = 0, od_created = ld_now L\<rparr>
      in rbind (ensure (order_checks row) Integrity_Error) (\<lambda>_.
         case order_by_key L (in_key i) of
           Some existing \<Rightarrow> Inr (od_id existing, L)
         | None \<Rightarrow> Inr (ld_next L,
             insert_event (ld_next L) Intent None (Intent_Payload i)
               (L\<lparr>ld_orders := ld_orders L @ [row], ld_next := Suc (ld_next L)\<rparr>))))"

definition transition ::
  "nat \<Rightarrow> order_status \<Rightarrow> string option \<Rightarrow> string option \<Rightarrow> ledger \<Rightarrow> ledger trading" where
  "transition i target ext pl L =
     (case order_by_id L i of
        None \<Rightarrow> Inl Unknown_Order
      | Some row \<Rightarrow>
          rbind (check_transition (od_status row) target) (\<lambda>_.
          Inr (update_order i (\<lambda>r. r\<lparr>od_status := target, od_external_id := coalesce ext (od_external_id r)\<rparr>)
                (insert_event i target ext (Venue_Payload pl) L))))"

text \<open>What a fill makes of the accumulated quantity, average price and fee.\<close>

definition accumulate :: "decimal fill \<Rightarrow> decimal \<times> decimal option \<times> decimal \<Rightarrow> decimal \<times> decimal option \<times> decimal" where
  "accumulate f acc =
     (let (prior_quantity, prior_average, fee) = acc;
          accumulated = dadd prior_quantity (fl_quantity f);
          prior_notional = (case prior_average of None \<Rightarrow> 0 | Some a \<Rightarrow> dmul a prior_quantity);
          average = ddiv (dadd prior_notional (dmul (fl_price f) (fl_quantity f))) accumulated
      in (accumulated, Some average, dadd fee (fl_fee f)))"

definition record_finite_fill :: "nat \<Rightarrow> decimal fill \<Rightarrow> ledger \<Rightarrow> ledger trading" where
  "record_finite_fill i f L =
     rbind (ensure (\<not> fl_quantity f \<le> 0) Invalid_Value) (\<lambda>_.
     case order_by_id L i of
       None \<Rightarrow> Inl Unknown_Order
     | Some row \<Rightarrow>
         (let order_quantity = in_quantity (od_intent row);
              (accumulated, average, fee) = accumulate f (od_filled row, od_average row, od_fee row);
              target = (if order_quantity \<le> accumulated then Filled else Partially_Filled)
          in rbind (check_transition (od_status row) target) (\<lambda>_.
             rbind (ensure (\<not> order_quantity < accumulated) Order_Ledger_Error) (\<lambda>_.
             Inr (update_order i (\<lambda>r. r\<lparr>od_status := target, od_filled := accumulated,
                      od_average := average, od_fee := fee,
                      od_external_id := coalesce (fl_external_id f) (od_external_id r)\<rparr>)
                    (insert_event i target (fl_external_id f) (Fill_Payload f) L))))))"

definition record_fill :: "nat \<Rightarrow> xdecimal fill \<Rightarrow> ledger \<Rightarrow> ledger trading" where
  "record_fill i f L =
     rbind (ensure (is_finite (fl_quantity f) \<and> is_finite (fl_price f) \<and> is_finite (fl_fee f)) Invalid_Value) (\<lambda>_.
     record_finite_fill i (fill_numbers finite_part f) L)"

definition get_order :: "ledger \<Rightarrow> nat \<Rightarrow> trade_order option" where
  "get_order L i = order_by_id L i"

definition open_orders :: "ledger \<Rightarrow> nat \<Rightarrow> trade_order list" where
  "open_orders L p = sort_key (\<lambda>r. (od_created r, od_id r))
     (filter (\<lambda>r. od_portfolio r = p \<and> od_status r \<in> set OPEN_STATUSES) (ld_orders L))"

section \<open>Lifecycles\<close>

text \<open>A declared lifecycle: the statuses reachable in one step, where it starts, where it ends.\<close>

fun legal_path :: "('s \<Rightarrow> 's list) \<Rightarrow> 's \<Rightarrow> 's list \<Rightarrow> bool" where
  "legal_path legal s [] = True"
| "legal_path legal s (t # ts) = (t \<in> set (legal s) \<and> legal_path legal t ts)"

lemma legal_path_append:
  "legal_path legal s (xs @ ys) \<longleftrightarrow> legal_path legal s xs \<and> legal_path legal (last (s # xs)) ys"
  by (induction xs arbitrary: s) auto

locale lifecycle =
  fixes legal :: "'s \<Rightarrow> 's list" and initial :: 's and terminal :: "'s \<Rightarrow> bool"
  assumes terminal_absorbs: "terminal s \<Longrightarrow> legal s = []"
    and initial_not_reentered: "initial \<notin> set (legal s)"
begin

lemma path_from_terminal: "terminal s \<Longrightarrow> legal_path legal s ts \<Longrightarrow> ts = []"
  by (cases ts) (auto simp: terminal_absorbs)

lemma terminal_is_last: "legal_path legal s (xs @ t # ys) \<Longrightarrow> terminal t \<Longrightarrow> ys = []"
  using path_from_terminal by (auto simp: legal_path_append)

lemma initial_only_first: "legal_path legal s ts \<Longrightarrow> initial \<notin> set ts"
  by (induction ts arbitrary: s) (auto simp: initial_not_reentered)

end

definition terminal_status :: "order_status \<Rightarrow> bool" where
  "terminal_status s \<longleftrightarrow> s \<notin> set OPEN_STATUSES"

interpretation order_life: lifecycle LEGAL_TRANSITIONS Intent terminal_status
proof
  show "terminal_status s \<Longrightarrow> LEGAL_TRANSITIONS s = []" for s
    by (cases s) (auto simp: terminal_status_def OPEN_STATUSES_def)
  show "Intent \<notin> set (LEGAL_TRANSITIONS s)" for s
    by (cases s) auto
qed

section \<open>The invariant\<close>

definition events_of :: "ledger \<Rightarrow> nat \<Rightarrow> order_event list" where
  "events_of L i = filter (\<lambda>e. ev_order e = i) (ld_events L)"

definition replay_event :: "order_event \<Rightarrow> decimal \<times> decimal option \<times> decimal \<Rightarrow> decimal \<times> decimal option \<times> decimal" where
  "replay_event e acc = (case ev_payload e of Fill_Payload f \<Rightarrow> accumulate f acc | _ \<Rightarrow> acc)"

definition replay_fills :: "order_event list \<Rightarrow> decimal \<times> decimal option \<times> decimal" where
  "replay_fills es = fold replay_event es (0, None, 0)"

definition is_fill_event :: "order_event \<Rightarrow> bool" where
  "is_fill_event e = (case ev_payload e of Fill_Payload _ \<Rightarrow> True | _ \<Rightarrow> False)"

text \<open>The events of an order are a legal path that starts with the intent and ends in its status.\<close>

definition log_ok :: "order_event list \<Rightarrow> order_status \<Rightarrow> bool" where
  "log_ok es st \<longleftrightarrow> (case map ev_status es of [] \<Rightarrow> False
     | s # path \<Rightarrow> s = Intent \<and> legal_path LEGAL_TRANSITIONS Intent path \<and> st = last (s # path))"

text \<open>The accumulated quantity is within the order and in step with the status.\<close>

definition amounts_ok :: "order_event list \<Rightarrow> trade_order \<Rightarrow> bool" where
  "amounts_ok es r \<longleftrightarrow>
     0 \<le> od_filled r \<and> od_filled r \<le> in_quantity (od_intent r)
     \<and> (od_filled r = in_quantity (od_intent r) \<longrightarrow> od_status r = Filled)
     \<and> (od_status r \<in> {Intent, Submitted, Acknowledged, Rejected} \<longrightarrow> od_filled r = 0)
     \<and> (od_status r = Filled \<and> list_all (\<lambda>e. ev_status e = Filled \<longrightarrow> is_fill_event e) es
          \<longrightarrow> od_filled r = in_quantity (od_intent r))"

text \<open>The row of an order agrees with its events.\<close>

definition row_ok :: "order_event list \<Rightarrow> trade_order \<Rightarrow> bool" where
  "row_ok es r \<longleftrightarrow> log_ok es (od_status r) \<and> replay_fills es = (od_filled r, od_average r, od_fee r)
     \<and> amounts_ok es r \<and> order_checks r"

lemma log_ok_snoc:
  assumes "log_ok es s" "t \<in> set (LEGAL_TRANSITIONS s)" "ev_status e = t"
  shows "log_ok (es @ [e]) t"
  using assms by (cases "map ev_status es") (auto simp: log_ok_def legal_path_append)

definition ledger_inv :: "ledger \<Rightarrow> bool" where
  "ledger_inv L \<longleftrightarrow>
     distinct (map od_id (ld_orders L)) \<and> distinct (map (in_key \<circ> od_intent) (ld_orders L))
     \<and> (\<forall>r\<in>set (ld_orders L). od_id r < ld_next L)
     \<and> (\<forall>e\<in>set (ld_events L). ev_order e < ld_next L)
     \<and> (\<forall>r\<in>set (ld_orders L). row_ok (events_of L (od_id r)) r)"

lemma events_of_insert:
  "events_of (insert_event i st ext pl L) j = events_of L j @
     (if i = j then [\<lparr>ev_order = i, ev_status = st, ev_at = ld_now L, ev_external_id = ext, ev_payload = pl\<rparr>] else [])"
  by (simp add: events_of_def insert_event_def)

lemma insert_event_sel [simp]:
  "ld_orders (insert_event i st ext pl L) = ld_orders L" "ld_next (insert_event i st ext pl L) = ld_next L"
  by (simp_all add: insert_event_def)

lemma update_order_sel [simp]:
  "ld_events (update_order i f L) = ld_events L" "ld_next (update_order i f L) = ld_next L"
  "ld_orders (update_order i f L) = map (\<lambda>r. if od_id r = i then f r else r) (ld_orders L)"
  by (simp_all add: update_order_def)

lemma events_of_update [simp]: "events_of (update_order i f L) j = events_of L j"
  by (simp add: events_of_def)

lemma events_of_sel: "ld_events L = ld_events L' \<Longrightarrow> events_of L j = events_of L' j"
  by (simp add: events_of_def)

lemma order_by_idD: "order_by_id L i = Some r \<Longrightarrow> r \<in> set (ld_orders L) \<and> od_id r = i"
  unfolding order_by_id_def by (drule find_Some_mem)

lemma order_by_keyD: "order_by_key L k = Some r \<Longrightarrow> r \<in> set (ld_orders L) \<and> in_key (od_intent r) = k"
  unfolding order_by_key_def by (drule find_Some_mem)

lemma order_by_id_mem: "ledger_inv L \<Longrightarrow> r \<in> set (ld_orders L) \<Longrightarrow> order_by_id L (od_id r) = Some r"
  unfolding order_by_id_def by (subst find_distinct_map) (auto simp: ledger_inv_def)

lemma order_by_key_mem:
  "ledger_inv L \<Longrightarrow> r \<in> set (ld_orders L) \<Longrightarrow> order_by_key L (in_key (od_intent r)) = Some r"
  unfolding order_by_key_def
  using find_distinct_map[of "in_key \<circ> od_intent" "ld_orders L" "in_key (od_intent r)" r]
  by (auto simp: ledger_inv_def)

lemma ledger_inv_empty [inv_intros]: "ledger_inv empty_ledger"
  by (simp add: ledger_inv_def empty_ledger_def)

text \<open>An update of one order together with its event keeps the invariant when the new row agrees
  with the extended log.\<close>

lemma ledger_inv_update:
  assumes "ledger_inv L" "order_by_id L i = Some row"
    and "\<And>r. od_id (f r) = od_id r \<and> od_intent (f r) = od_intent r"
    and "row_ok (events_of L i @ [\<lparr>ev_order = i, ev_status = st, ev_at = ld_now L, ev_external_id = ext, ev_payload = pl\<rparr>]) (f row)"
  shows "ledger_inv (update_order i f (insert_event i st ext pl L))"
proof -
  note row = order_by_idD[OF assms(2)]
  have uniq: "r = row" if "r \<in> set (ld_orders L)" "od_id r = i" for r
    using order_by_id_mem[OF assms(1) that(1)] that(2) assms(2) by simp
  have ids: "map od_id (map (\<lambda>r. if od_id r = i then f r else r) (ld_orders L)) = map od_id (ld_orders L)"
    "map (in_key \<circ> od_intent) (map (\<lambda>r. if od_id r = i then f r else r) (ld_orders L))
      = map (in_key \<circ> od_intent) (ld_orders L)"
    using assms(3) by auto
  show ?thesis
    unfolding ledger_inv_def update_order_sel insert_event_sel ids events_of_update
  proof (intro conjI ballI)
    show "distinct (map od_id (ld_orders L))" "distinct (map (in_key \<circ> od_intent) (ld_orders L))"
      using assms(1) by (auto simp: ledger_inv_def)
    fix e assume "e \<in> set (ld_events (insert_event i st ext pl L))"
    then show "ev_order e < ld_next L"
      using assms(1) row by (auto simp: insert_event_def ledger_inv_def)
  next
    fix r assume "r \<in> set (map (\<lambda>r. if od_id r = i then f r else r) (ld_orders L))"
    then obtain r0 where r0: "r0 \<in> set (ld_orders L)" "r = (if od_id r0 = i then f r0 else r0)" by auto
    show "od_id r < ld_next L" using r0 assms(1,3) by (auto simp: ledger_inv_def)
    show "row_ok (events_of (insert_event i st ext pl L) (od_id r)) r"
    proof (cases "od_id r0 = i")
      case True
      then have "r0 = row" using uniq r0(1) by blast
      with True r0(2) assms(3,4) show ?thesis by (simp add: events_of_insert)
    next
      case False
      then show ?thesis using r0 assms(1) by (simp add: events_of_insert ledger_inv_def)
    qed
  qed
qed

section \<open>Every operation keeps the invariant\<close>

lemma record_intentE:
  assumes "record_intent p i L = Inr (n, L')"
  obtains existing where "order_by_key L (in_key i) = Some existing" "n = od_id existing" "L' = L"
  | row where "order_by_key L (in_key i) = None" "n = ld_next L" "order_checks row" "od_intent row = i"
      "od_id row = ld_next L" "od_status row = Intent" "od_filled row = 0" "od_average row = None" "od_fee row = 0"
      "L' = insert_event n Intent None (Intent_Payload i)
              (L\<lparr>ld_orders := ld_orders L @ [row], ld_next := Suc (ld_next L)\<rparr>)"
  using assms unfolding record_intent_def Let_def
  by (auto simp: result_simps split: option.splits)

lemma record_intent_inv [inv_intros]:
  assumes "ledger_inv L" "record_intent p i L = Inr (n, L')"
  shows "ledger_inv L'"
  using assms(2)
proof (cases rule: record_intentE)
  case 1
  then show ?thesis using assms(1) by simp
next
  case (2 row)
  have fresh: "ld_next L \<notin> od_id ` set (ld_orders L)" "events_of L (ld_next L) = []"
    using assms(1) by (auto simp: ledger_inv_def events_of_def filter_empty_conv)
  have key: "in_key i \<notin> (in_key \<circ> od_intent) ` set (ld_orders L)"
    using 2(1) by (auto simp: order_by_key_def find_None_all)
  have log: "ld_events L' = ld_events L @ [\<lparr>ev_order = n, ev_status = Intent, ev_at = ld_now L,
      ev_external_id = None, ev_payload = Intent_Payload i\<rparr>]"
    using 2 by (simp add: insert_event_def)
  have events: "events_of L' j = events_of L j @ (if j = n then [\<lparr>ev_order = n, ev_status = Intent,
      ev_at = ld_now L, ev_external_id = None, ev_payload = Intent_Payload i\<rparr>] else [])" for j
    unfolding events_of_def log by simp
  have first: "row_ok [e] row" if "ev_status e = Intent" "ev_payload e = Intent_Payload i" for e
    using 2(3-9) that
    by (simp add: row_ok_def log_ok_def amounts_ok_def replay_fills_def replay_event_def order_checks_def)
  have "events_of L' n = [\<lparr>ev_order = n, ev_status = Intent, ev_at = ld_now L,
      ev_external_id = None, ev_payload = Intent_Payload i\<rparr>]"
    using fresh 2(2) by (simp add: events)
  then have "row_ok (events_of L' n) row" by (simp add: first)
  moreover have "row_ok (events_of L' (od_id r)) r" if "r \<in> set (ld_orders L)" for r
  proof -
    have "od_id r \<noteq> n" using that fresh(1) 2(2) by (auto simp: rev_image_eqI)
    then have "events_of L' (od_id r) = events_of L (od_id r)" by (simp add: events)
    then show ?thesis using that assms(1) by (simp add: ledger_inv_def)
  qed
  moreover have "ld_orders L' = ld_orders L @ [row]" "ld_next L' = Suc (ld_next L)" using 2 by simp_all
  ultimately show ?thesis
    using assms(1) 2 fresh key log by (auto simp: ledger_inv_def less_Suc_eq)
qed

lemma transition_row_ok:
  assumes ok: "row_ok es r" and legal: "t \<in> set (LEGAL_TRANSITIONS (od_status r))"
    and new: "od_intent r' = od_intent r" "od_status r' = t" "od_filled r' = od_filled r"
      "od_average r' = od_average r" "od_fee r' = od_fee r"
    and e: "ev_status e = t" "ev_payload e = Venue_Payload pl"
  shows "row_ok (es @ [e]) r'"
proof -
  have am: "amounts_ok es r" using ok by (simp add: row_ok_def)
  have not_full: "od_filled r \<noteq> in_quantity (od_intent r)"
  proof
    assume "od_filled r = in_quantity (od_intent r)"
    then have "od_status r = Filled" using am by (simp add: amounts_ok_def)
    then show False using legal by simp
  qed
  have zero: "od_filled r = 0" if "t \<in> {Intent, Submitted, Acknowledged, Rejected}"
  proof -
    have "od_status r \<in> {Intent, Submitted, Acknowledged, Rejected}"
      using that legal by (cases "od_status r") auto
    then show ?thesis using am unfolding amounts_ok_def by blast
  qed
  have "\<not> is_fill_event e" using e by (simp add: is_fill_event_def)
  then have "amounts_ok (es @ [e]) r'"
    using am not_full zero e unfolding amounts_ok_def new list_all_append by simp
  moreover have "replay_fills (es @ [e]) = replay_fills es"
    using e by (simp add: replay_fills_def replay_event_def)
  ultimately show ?thesis
    using ok legal new e log_ok_snoc[of es "od_status r" t e]
    unfolding row_ok_def order_checks_def by simp
qed

lemma transitionE:
  assumes "transition i target ext pl L = Inr L'"
  obtains row where "order_by_id L i = Some row" "target \<in> set (LEGAL_TRANSITIONS (od_status row))"
    "L' = update_order i (\<lambda>r. r\<lparr>od_status := target, od_external_id := coalesce ext (od_external_id r)\<rparr>)
            (insert_event i target ext (Venue_Payload pl) L)"
  using assms unfolding transition_def check_transition_def
  by (auto simp: result_simps split: option.splits)

lemma transition_inv [inv_intros]:
  assumes "ledger_inv L" "transition i target ext pl L = Inr L'"
  shows "ledger_inv L'"
  using assms(2)
proof (cases rule: transitionE)
  case (1 row)
  note row = order_by_idD[OF 1(1)]
  have "row_ok (events_of L i) row" using assms(1) row by (auto simp: ledger_inv_def)
  then show ?thesis
    unfolding 1(3) using assms(1) 1 by (intro ledger_inv_update transition_row_ok) auto
qed

lemma accumulate_parts:
  "accumulate f (q, a, fee) = (dadd q (fl_quantity f),
     Some (ddiv (dadd (case a of None \<Rightarrow> 0 | Some a \<Rightarrow> dmul a q) (dmul (fl_price f) (fl_quantity f)))
            (dadd q (fl_quantity f))), dadd fee (fl_fee f))"
  by (simp add: accumulate_def Let_def)

lemma record_finite_fillE:
  assumes "record_finite_fill i f L = Inr L'"
  obtains row accumulated average fee target where "0 < fl_quantity f" "order_by_id L i = Some row"
    "(accumulated, average, fee) = accumulate f (od_filled row, od_average row, od_fee row)"
    "accumulated \<le> in_quantity (od_intent row)"
    "target = (if accumulated = in_quantity (od_intent row) then Filled else Partially_Filled)"
    "target \<in> set (LEGAL_TRANSITIONS (od_status row))"
    "L' = update_order i (\<lambda>r. r\<lparr>od_status := target, od_filled := accumulated, od_average := average,
            od_fee := fee, od_external_id := coalesce (fl_external_id f) (od_external_id r)\<rparr>)
           (insert_event i target (fl_external_id f) (Fill_Payload f) L)"
  using assms unfolding record_finite_fill_def check_transition_def Let_def
  by (fastforce simp: result_simps split: option.splits prod.splits if_splits)

lemma fill_row_ok:
  assumes ok: "row_ok es r" and f: "0 < fl_quantity f" "0 \<le> fl_fee f"
    and acc: "(q, a, fee) = accumulate f (od_filled r, od_average r, od_fee r)"
    and le: "q \<le> in_quantity (od_intent r)"
    and t: "t = (if q = in_quantity (od_intent r) then Filled else Partially_Filled)"
    and legal: "t \<in> set (LEGAL_TRANSITIONS (od_status r))"
    and new: "od_intent r' = od_intent r" "od_status r' = t" "od_filled r' = q" "od_average r' = a" "od_fee r' = fee"
    and e: "ev_status e = t" "ev_payload e = Fill_Payload f"
  shows "row_ok (es @ [e]) r'"
proof -
  have "0 \<le> od_filled r" "0 \<le> od_fee r" using ok by (simp_all add: row_ok_def order_checks_def)
  with acc f have q: "0 < q" "a \<noteq> None" "0 \<le> fee"
    by (simp_all add: accumulate_parts dadd_def)
  have "replay_fills (es @ [e]) = (q, a, fee)"
    using acc ok e by (simp add: replay_fills_def replay_event_def row_ok_def)
  moreover have "amounts_ok (es @ [e]) r'"
    using q le t new unfolding amounts_ok_def new by (cases "q = in_quantity (od_intent r)") auto
  ultimately show ?thesis
    using ok q new legal e log_ok_snoc[of es "od_status r" t e]
    unfolding row_ok_def order_checks_def by simp
qed

lemma record_finite_fill_inv [inv_intros]:
  assumes "ledger_inv L" "record_finite_fill i f L = Inr L'" "0 \<le> fl_fee f"
  shows "ledger_inv L'"
  using assms(2)
proof (cases rule: record_finite_fillE)
  case (1 row accumulated average fee target)
  note row = order_by_idD[OF 1(2)]
  have "row_ok (events_of L i) row" using assms(1) row by (auto simp: ledger_inv_def)
  then show ?thesis
    unfolding 1(7) using assms(1,3) 1 by (intro ledger_inv_update fill_row_ok) auto
qed

section \<open>Runs of the ledger\<close>

text \<open>One committed call on the ledger. Between calls the clock moves. A fill has passed the checks of
  its constructor.\<close>

inductive ledger_step :: "ledger \<Rightarrow> ledger \<Rightarrow> bool" where
  Record_Intent: "record_intent p i L = Inr (n, L') \<Longrightarrow> ledger_step L L'"
| Transition: "transition i target ext pl L = Inr L' \<Longrightarrow> ledger_step L L'"
| Record_Fill: "check_fill f = Inr f \<Longrightarrow> record_fill i f L = Inr L' \<Longrightarrow> ledger_step L L'"
| Tick: "ld_now L \<le> now \<Longrightarrow> ledger_step L (L\<lparr>ld_now := now\<rparr>)"

inductive_cases ledger_stepE: "ledger_step L L'"

abbreviation ledger_run :: "ledger \<Rightarrow> ledger \<Rightarrow> bool" where
  "ledger_run \<equiv> ledger_step\<^sup>*\<^sup>*"

lemma fill_numbers_finite:
  assumes "is_finite (fl_quantity f)" "is_finite (fl_price f)" "is_finite (fl_fee f)"
  shows "f = fill_numbers Fin (fill_numbers finite_part f)"
  using assms by (cases f; cases "fl_quantity f"; cases "fl_price f"; cases "fl_fee f") (auto simp: fill_numbers_def)

lemma record_fill_finite:
  assumes "check_fill f = Inr f" "record_fill i f L = Inr L'"
  shows "record_finite_fill i (fill_numbers finite_part f) L = Inr L' \<and> valid_fill (fill_numbers finite_part f)"
proof -
  have fin: "is_finite (fl_quantity f)" "is_finite (fl_price f)" "is_finite (fl_fee f)"
    and rec: "record_finite_fill i (fill_numbers finite_part f) L = Inr L'"
    using assms(2) by (auto simp: record_fill_def result_simps)
  have "check_fill (fill_numbers Fin (fill_numbers finite_part f)) = Inr f"
    using assms(1) fill_numbers_finite[OF fin] by simp
  with rec show ?thesis by (simp add: check_fill_finite)
qed

lemma tick_inv [inv_intros]: "ledger_inv L \<Longrightarrow> ledger_inv (L\<lparr>ld_now := now\<rparr>)"
  by (simp add: ledger_inv_def events_of_def)

lemma ledger_step_inv:
  assumes "ledger_step L L'" "ledger_inv L"
  shows "ledger_inv L'"
  using assms
proof (cases rule: ledger_step.cases)
  case (Record_Fill f i)
  then show ?thesis
    using record_fill_finite[OF Record_Fill] assms(2) record_finite_fill_inv by (auto simp: valid_fill_def)
qed (auto intro: inv_intros)

lemma ledger_run_inv: "ledger_run L L' \<Longrightarrow> ledger_inv L \<Longrightarrow> ledger_inv L'"
  by (induction rule: rtranclp_induct) (auto intro: ledger_step_inv)

lemma reachable_inv: "ledger_run empty_ledger L \<Longrightarrow> ledger_inv L"
  by (rule ledger_run_inv) (auto intro: inv_intros)

text \<open>What a step does to an order that is already there: it stays, with its intent, and if its status
  is terminal it stays as it is.\<close>

lemma update_order_keeps:
  assumes "r \<in> set (ld_orders L)" "\<And>r. od_id (f r) = od_id r \<and> od_intent (f r) = od_intent r"
    and "od_id r = i \<Longrightarrow> \<not> terminal_status (od_status r)"
  shows "\<exists>r'\<in>set (ld_orders (update_order i f L)). od_id r' = od_id r \<and> od_intent r' = od_intent r
    \<and> (terminal_status (od_status r) \<longrightarrow> r' = r)"
  using assms by (intro bexI[of _ "if od_id r = i then f r else r"]) auto

lemma not_terminal_if_legal: "t \<in> set (LEGAL_TRANSITIONS s) \<Longrightarrow> \<not> terminal_status s"
  using order_life.terminal_absorbs by auto

lemma ledger_step_keeps:
  assumes "ledger_step L L'" "ledger_inv L" "r \<in> set (ld_orders L)"
  shows "\<exists>r'\<in>set (ld_orders L'). od_id r' = od_id r \<and> od_intent r' = od_intent r
    \<and> (terminal_status (od_status r) \<longrightarrow> r' = r)"
  using assms(1)
proof (cases rule: ledger_step.cases)
  case (Record_Intent p i n)
  then have "set (ld_orders L) \<subseteq> set (ld_orders L')" by (elim record_intentE) auto
  then show ?thesis using assms(3) by blast
next
  case (Transition i target ext pl)
  then obtain row where row: "order_by_id L i = Some row" "target \<in> set (LEGAL_TRANSITIONS (od_status row))"
    and L': "L' = update_order i (\<lambda>r. r\<lparr>od_status := target, od_external_id := coalesce ext (od_external_id r)\<rparr>)
               (insert_event i target ext (Venue_Payload pl) L)"
    by (rule transitionE)
  have "r = row" if "od_id r = i" using that row(1) order_by_id_mem[OF assms(2,3)] by simp
  then show ?thesis
    unfolding L' using assms(3) row(2) by (intro update_order_keeps) (auto dest: not_terminal_if_legal)
next
  case (Record_Fill f i)
  from record_fill_finite[OF this] have "record_finite_fill i (fill_numbers finite_part f) L = Inr L'" ..
  then obtain row accumulated average fee target where row: "order_by_id L i = Some row"
    and legal: "target \<in> set (LEGAL_TRANSITIONS (od_status row))"
    and L': "L' = update_order i (\<lambda>r. r\<lparr>od_status := target, od_filled := accumulated, od_average := average,
            od_fee := fee, od_external_id := coalesce (fl_external_id (fill_numbers finite_part f)) (od_external_id r)\<rparr>)
           (insert_event i target (fl_external_id (fill_numbers finite_part f)) (Fill_Payload (fill_numbers finite_part f)) L)"
    by (rule record_finite_fillE)
  have "r = row" if "od_id r = i" using that row order_by_id_mem[OF assms(2,3)] by simp
  then show ?thesis
    unfolding L' using assms(3) legal by (intro update_order_keeps) (auto dest: not_terminal_if_legal)
next
  case (Tick now)
  then show ?thesis using assms(3) by auto
qed

lemma ledger_run_keeps:
  assumes "ledger_run L L'" "ledger_inv L" "r \<in> set (ld_orders L)"
  shows "\<exists>r'\<in>set (ld_orders L'). od_id r' = od_id r \<and> od_intent r' = od_intent r
    \<and> (terminal_status (od_status r) \<longrightarrow> r' = r)"
  using assms(1)
proof (induction rule: rtranclp_induct)
  case base
  then show ?case using assms(3) by auto
next
  case (step M N)
  then obtain r' where r': "r' \<in> set (ld_orders M)" "od_id r' = od_id r" "od_intent r' = od_intent r"
    "terminal_status (od_status r) \<longrightarrow> r' = r" by auto
  have "ledger_inv M" using ledger_run_inv step(1) assms(2) by blast
  from ledger_step_keeps[OF step(2) this r'(1)] r' show ?case by auto
qed

section \<open>Properties of the order ledger\<close>

text \<open>A run used by the witnesses: an intent to sell two, submitted, half filled.\<close>

definition half_fill :: "decimal fill" where
  "half_fill = \<lparr>fl_intent_id = ''k1'', fl_venue = ''paper'', fl_symbol = ''BTC/USDT'', fl_side = Sell,
     fl_quantity = 1, fl_price = 101, fl_fee = 1 / 10, fl_at = 5, fl_aware = True,
     fl_external_id = Some ''x1'', fl_raw = []\<rparr>"

definition sample_order :: trade_order where
  "sample_order = \<lparr>od_id = 0, od_portfolio = 7, od_intent = sample_intent, od_status = Intent,
     od_external_id = None, od_filled = 0, od_average = None, od_fee = 0, od_created = 0\<rparr>"

definition ledger_intent :: ledger where
  "ledger_intent = insert_event 0 Intent None (Intent_Payload sample_intent)
     \<lparr>ld_orders = [sample_order], ld_events = [], ld_next = 1, ld_now = 0\<rparr>"

definition ledger_submitted :: ledger where
  "ledger_submitted = projr (transition 0 Submitted None None ledger_intent)"

definition ledger_half :: ledger where
  "ledger_half = projr (record_fill 0 (fill_numbers Fin half_fill) ledger_submitted)"

lemma sample_steps:
  "record_intent 7 sample_intent empty_ledger = Inr (0, ledger_intent)"
  "transition 0 Submitted None None ledger_intent = Inr ledger_submitted"
  "check_fill (fill_numbers Fin half_fill) = Inr (fill_numbers Fin half_fill)"
  "record_fill 0 (fill_numbers Fin half_fill) ledger_submitted = Inr ledger_half"
  by code_simp+

lemma sample_run: "ledger_run empty_ledger ledger_intent" "ledger_run ledger_intent ledger_half"
  "ledger_run empty_ledger ledger_half"
proof -
  show a: "ledger_run empty_ledger ledger_intent"
    using Record_Intent[OF sample_steps(1)] by blast
  show b: "ledger_run ledger_intent ledger_half"
    using Transition[OF sample_steps(2)] Record_Fill[OF sample_steps(3,4)] by (meson converse_rtranclp_into_rtranclp rtranclp.rtrancl_refl)
  show "ledger_run empty_ledger ledger_half" using a b by (rule rtranclp_trans)
qed

text \<open>C21. In every reachable ledger an order row agrees with its event log: the events are a legal
  path from the intent to the row's status, the filled quantity, average price and fee are what
  replaying the fill events gives, and the order is not overfilled.\<close>

theorem order_rows_match_events:
  assumes "ledger_run empty_ledger L" "order_by_id L i = Some r"
  shows "log_ok (events_of L i) (od_status r)
    \<and> replay_fills (events_of L i) = (od_filled r, od_average r, od_fee r)
    \<and> 0 \<le> od_filled r \<and> od_filled r \<le> in_quantity (od_intent r)"
proof -
  have "row_ok (events_of L (od_id r)) r" "od_id r = i"
    using reachable_inv[OF assms(1)] order_by_idD[OF assms(2)] by (auto simp: ledger_inv_def)
  then show ?thesis unfolding row_ok_def amounts_ok_def by blast
qed

lemma order_rows_match_events_witness:
  "\<exists>r. order_by_id ledger_half 0 = Some r \<and> od_status r = Partially_Filled
     \<and> replay_fills (events_of ledger_half 0) = (1, Some 101, 1 / 10) \<and> od_filled r \<le> 2"
proof -
  define r where "r = the (order_by_id ledger_half 0)"
  have r: "order_by_id ledger_half 0 = Some r" unfolding r_def by code_simp
  have "od_status r = Partially_Filled" "in_quantity (od_intent r) = 2" unfolding r_def by code_simp+
  moreover have "replay_fills (events_of ledger_half 0) = (1, Some 101, 1 / 10)" by code_simp
  ultimately show ?thesis using order_rows_match_events[OF sample_run(3) r] r by auto
qed

text \<open>C22. Recording an intent is idempotent on its key: whatever was committed since, recording an
  intent with the key again returns the first order's id and writes nothing.\<close>

theorem record_intent_idempotent:
  assumes "ledger_run empty_ledger L" "record_intent p i L = Inr (n, L1)" "ledger_run L1 L2"
    and "in_key j = in_key i" "0 < in_quantity j" "0 < in_reference_price j"
  shows "record_intent p' j L2 = Inr (n, L2)"
proof -
  have inv1: "ledger_inv L1" using reachable_inv[OF assms(1)] assms(2) by (rule record_intent_inv)
  obtain r where r: "r \<in> set (ld_orders L1)" "od_id r = n" "in_key (od_intent r) = in_key i"
    using assms(2)
  proof (cases rule: record_intentE)
    case (1 existing)
    then show thesis using order_by_keyD that by metis
  next
    case (2 row)
    then show thesis using that[of row] by simp
  qed
  obtain r' where r': "r' \<in> set (ld_orders L2)" "od_id r' = n" "in_key (od_intent r') = in_key j"
    using ledger_run_keeps[OF assms(3) inv1 r(1)] r assms(4) by auto
  have "order_by_key L2 (in_key j) = Some r'"
    using order_by_key_mem[OF ledger_run_inv[OF assms(3) inv1] r'(1)] r'(3) by simp
  then show ?thesis
    using assms(5,6) r'(2) by (simp add: record_intent_def Let_def order_checks_def)
qed

lemma record_intent_idempotent_witness:
  "record_intent 9 (sample_intent\<lparr>in_quantity := 5\<rparr>) ledger_half = Inr (0, ledger_half)"
  by (rule record_intent_idempotent[OF rtranclp.rtrancl_refl sample_steps(1) sample_run(2)])
    (simp_all add: sample_intent_def)

text \<open>A terminal order never changes again: neither a status change nor a fill on it is accepted,
  and its row is the same in every later ledger.\<close>

theorem terminal_orders_absorb:
  assumes "ledger_run empty_ledger L" "order_by_id L i = Some r" "terminal_status (od_status r)"
  shows "transition i target ext pl L = Inl Illegal_Transition
    \<and> (0 < fl_quantity f \<longrightarrow> record_finite_fill i f L = Inl Illegal_Transition)
    \<and> (\<forall>L'. ledger_run L L' \<longrightarrow> order_by_id L' i = Some r)"
proof (intro conjI allI impI)
  have none: "t \<notin> set (LEGAL_TRANSITIONS (od_status r))" for t
    using order_life.terminal_absorbs[OF assms(3)] by simp
  show "transition i target ext pl L = Inl Illegal_Transition"
    using assms(2) none by (simp add: transition_def check_transition_def)
  show "record_finite_fill i f L = Inl Illegal_Transition" if "0 < fl_quantity f"
    using assms(2) none that
    by (simp add: record_finite_fill_def check_transition_def accumulate_parts Let_def)
  fix L' assume run: "ledger_run L L'"
  note inv = reachable_inv[OF assms(1)]
  have "r \<in> set (ld_orders L')" "od_id r = i"
    using ledger_run_keeps[OF run inv] order_by_idD[OF assms(2)] assms(3) by auto
  then show "order_by_id L' i = Some r"
    using order_by_id_mem[OF ledger_run_inv[OF run inv], of r] by simp
qed

definition ledger_cancelled :: ledger where
  "ledger_cancelled = projr (transition 0 Cancelled None (Some ''too late'') ledger_half)"

lemma terminal_orders_absorb_witness:
  "record_finite_fill 0 half_fill ledger_cancelled = Inl Illegal_Transition"
proof -
  have t: "transition 0 Cancelled None (Some ''too late'') ledger_half = Inr ledger_cancelled" by code_simp
  have run: "ledger_run empty_ledger ledger_cancelled"
    using sample_run(3) Transition[OF t] by (rule rtranclp.rtrancl_into_rtrancl)
  define r where "r = the (order_by_id ledger_cancelled 0)"
  have "order_by_id ledger_cancelled 0 = Some r" "od_status r = Cancelled" unfolding r_def by code_simp+
  moreover from this(2) have "terminal_status (od_status r)" by (simp add: terminal_status_def OPEN_STATUSES_def)
  moreover have "0 < fl_quantity half_fill" by (simp add: half_fill_def)
  ultimately show ?thesis using terminal_orders_absorb[OF run] by blast
qed

lemma fill_accepted:
  assumes "order_by_id L i = Some r" "0 < fl_quantity f"
    and "od_status r \<in> {Submitted, Acknowledged, Partially_Filled}"
    and le: "dadd (od_filled r) (fl_quantity f) \<le> in_quantity (od_intent r)"
  shows "\<exists>L' r'. record_finite_fill i f L = Inr L' \<and> order_by_id L' i = Some r'
        \<and> od_filled r' = dadd (od_filled r) (fl_quantity f)
        \<and> od_status r' = (if od_filled r' = in_quantity (od_intent r) then Filled else Partially_Filled)
        \<and> od_intent r' = od_intent r"
proof -
  define g where "g = (\<lambda>q a fee t r. r\<lparr>od_status := t, od_filled := q, od_average := a, od_fee := fee,
      od_external_id := coalesce (fl_external_id f) (od_external_id r)\<rparr> :: trade_order)"
  obtain q a fee where acc: "accumulate f (od_filled r, od_average r, od_fee r) = (q, a, fee)"
    and q: "q = dadd (od_filled r) (fl_quantity f)"
    by (simp add: accumulate_parts)
  define t where "t = (if in_quantity (od_intent r) \<le> q then Filled else Partially_Filled)"
  define L' where "L' = update_order i (g q a fee t) (insert_event i t (fl_external_id f) (Fill_Payload f) L)"
  have "t \<in> set (LEGAL_TRANSITIONS (od_status r))" using assms(3) by (auto simp: t_def)
  moreover have "\<not> in_quantity (od_intent r) < q" "\<not> fl_quantity f \<le> 0" using le q assms(2) by auto
  ultimately have rec: "record_finite_fill i f L = Inr L'"
    unfolding record_finite_fill_def check_transition_def assms(1) option.case acc Let_def prod.case
      t_def[symmetric] L'_def g_def by simp
  have "find (\<lambda>x. od_id x = i) (map (\<lambda>x. if od_id x = i then g q a fee t x else x) xs)
      = map_option (g q a fee t) (find (\<lambda>x. od_id x = i) xs)" for xs
    by (induction xs) (auto simp: g_def)
  then have "order_by_id L' i = Some (g q a fee t r)"
    using assms(1) by (simp add: order_by_id_def L'_def)
  with rec le q show ?thesis
    by (intro exI[of _ L'] exI[of _ "g q a fee t r"]) (auto simp: g_def t_def)
qed

text \<open>What a fill does, by the accumulated quantity: on a working order it is partially filled
  below the order's quantity and filled at it, above it the fill is refused; on an order that was
  never submitted every fill is refused.\<close>

theorem record_fill_outcomes:
  assumes "order_by_id L i = Some r" "0 < fl_quantity f"
  shows "(od_status r = Intent \<longrightarrow> record_finite_fill i f L = Inl Illegal_Transition)
    \<and> (od_status r \<in> {Submitted, Acknowledged, Partially_Filled} \<longrightarrow>
        (if in_quantity (od_intent r) < dadd (od_filled r) (fl_quantity f)
         then record_finite_fill i f L = Inl Order_Ledger_Error
         else \<exists>L' r'. record_finite_fill i f L = Inr L' \<and> order_by_id L' i = Some r'
           \<and> od_filled r' = dadd (od_filled r) (fl_quantity f)
           \<and> od_status r' = (if od_filled r' = in_quantity (od_intent r) then Filled else Partially_Filled)
           \<and> od_intent r' = od_intent r))"
proof (intro conjI impI)
  assume "od_status r = Intent"
  then show "record_finite_fill i f L = Inl Illegal_Transition"
    using assms by (simp add: record_finite_fill_def check_transition_def accumulate_parts Let_def)
next
  assume s: "od_status r \<in> {Submitted, Acknowledged, Partially_Filled}"
  show "if in_quantity (od_intent r) < dadd (od_filled r) (fl_quantity f)
         then record_finite_fill i f L = Inl Order_Ledger_Error
         else \<exists>L' r'. record_finite_fill i f L = Inr L' \<and> order_by_id L' i = Some r'
           \<and> od_filled r' = dadd (od_filled r) (fl_quantity f)
           \<and> od_status r' = (if od_filled r' = in_quantity (od_intent r) then Filled else Partially_Filled)
           \<and> od_intent r' = od_intent r"
  proof (cases "in_quantity (od_intent r) < dadd (od_filled r) (fl_quantity f)")
    case True
    then show ?thesis
      using assms s by (auto simp: record_finite_fill_def check_transition_def accumulate_parts Let_def)
  next
    case False
    then show ?thesis using fill_accepted[OF assms s] by simp
  qed
qed

lemma record_fill_outcomes_witness:
  "record_finite_fill 0 (half_fill\<lparr>fl_quantity := 5\<rparr>) ledger_half = Inl Order_Ledger_Error"
proof -
  define r where "r = the (order_by_id ledger_half 0)"
  have r: "order_by_id ledger_half 0 = Some r" "od_status r = Partially_Filled"
    "in_quantity (od_intent r) < dadd (od_filled r) (fl_quantity (half_fill\<lparr>fl_quantity := 5\<rparr>))"
    unfolding r_def by code_simp+
  have "0 < fl_quantity (half_fill\<lparr>fl_quantity := 5\<rparr>)" by simp
  from record_fill_outcomes[OF r(1) this] r(2,3) show ?thesis by simp
qed

section \<open>The average price\<close>

text \<open>Fills that are accumulated without any rounding.\<close>

fun exact_fills :: "decimal \<Rightarrow> decimal option \<Rightarrow> decimal \<Rightarrow> decimal fill list \<Rightarrow> bool" where
  "exact_fills q a fee [] = True"
| "exact_fills q a fee (f # fs) =
     (let p = (case a of None \<Rightarrow> 0 | Some a \<Rightarrow> a * q);
          n = p + fl_price f * fl_quantity f;
          q' = q + fl_quantity f
      in 0 < fl_quantity f \<and> exact p \<and> exact (fl_price f * fl_quantity f) \<and> exact n \<and> exact q' \<and> exact (n / q')
         \<and> exact (fee + fl_fee f) \<and> exact_fills q' (Some (n / q')) (fee + fl_fee f) fs)"

definition fill_sum :: "(decimal fill \<Rightarrow> rat) \<Rightarrow> decimal fill list \<Rightarrow> rat" where
  "fill_sum g fs = sum_list (map g fs)"

lemma accumulate_exact:
  assumes "exact_fills q a fee fs" "0 \<le> q" "a = None \<longrightarrow> q = 0"
  shows "\<exists>a'. fold accumulate fs (q, a, fee) = (q + fill_sum fl_quantity fs, a', fee + fill_sum fl_fee fs)
    \<and> (case a' of None \<Rightarrow> 0 | Some x \<Rightarrow> x * (q + fill_sum fl_quantity fs))
        = (case a of None \<Rightarrow> 0 | Some x \<Rightarrow> x * q) + fill_sum (\<lambda>f. fl_price f * fl_quantity f) fs
    \<and> (a' = None \<longrightarrow> a = None \<and> fs = [])"
  using assms
proof (induction fs arbitrary: q a fee)
  case Nil
  then show ?case by (cases a) (simp_all add: fill_sum_def)
next
  case (Cons f fs)
  define p where "p = (case a of None \<Rightarrow> 0 | Some a \<Rightarrow> a * q)"
  define n where "n = p + fl_price f * fl_quantity f"
  define q' where "q' = q + fl_quantity f"
  have ex: "0 < fl_quantity f" "exact p" "exact (fl_price f * fl_quantity f)" "exact n" "exact q'" "exact (n / q')"
      "exact (fee + fl_fee f)" "exact_fills q' (Some (n / q')) (fee + fl_fee f) fs"
    using Cons.prems(1) by (simp_all add: Let_def p_def n_def q'_def)
  have q': "0 < q'" using ex(1) Cons.prems(2) by (simp add: q'_def)
  have "(case a of None \<Rightarrow> 0 | Some a \<Rightarrow> dmul a q) = p"
    using ex(2) by (cases a) (simp_all add: p_def dmul_exact)
  then have acc: "accumulate f (q, a, fee) = (q', Some (n / q'), fee + fl_fee f)"
    using ex by (simp add: accumulate_parts dmul_exact dadd_exact ddiv_exact n_def q'_def)
  have "n / q' * q' = n" using q' by simp
  then show ?case
    using Cons.IH[OF ex(8)] q' unfolding fold_simps comp_def acc
    by (auto simp: fill_sum_def q'_def n_def p_def add.assoc)
qed

text \<open>When no step is rounded, the accumulated average price of an order is the quantity-weighted
  mean of the prices of all its fills, and quantity and fee are the sums.\<close>

theorem average_is_weighted_mean:
  assumes "exact_fills 0 None 0 fs" "fs \<noteq> []"
  shows "fold accumulate fs (0, None, 0)
    = (fill_sum fl_quantity fs,
       Some (fill_sum (\<lambda>f. fl_price f * fl_quantity f) fs / fill_sum fl_quantity fs),
       fill_sum fl_fee fs)"
proof -
  obtain a' where a': "fold accumulate fs (0, None, 0) = (fill_sum fl_quantity fs, a', fill_sum fl_fee fs)"
    "(case a' of None \<Rightarrow> 0 | Some x \<Rightarrow> x * fill_sum fl_quantity fs) = fill_sum (\<lambda>f. fl_price f * fl_quantity f) fs"
    "a' \<noteq> None"
    using accumulate_exact[OF assms(1)] assms(2) by auto
  have pos: "0 < fl_quantity f" if "f \<in> set fs" for f
  proof -
    have "exact_fills q a fee fs \<Longrightarrow> \<forall>f\<in>set fs. 0 < fl_quantity f" for q a fee
      by (induction fs arbitrary: q a fee) (auto simp: Let_def)
    then show ?thesis using assms(1) that by blast
  qed
  have "0 < fill_sum fl_quantity fs"
  proof (cases fs)
    case (Cons f gs)
    then have "0 \<le> sum_list (map fl_quantity gs)"
      using pos by (intro sum_list_nonneg) (auto intro: order_less_imp_le)
    moreover have "0 < fl_quantity f" using Cons pos by simp
    ultimately have "0 < fl_quantity f + sum_list (map fl_quantity gs)" by simp
    with Cons show ?thesis by (simp add: fill_sum_def)
  qed (use assms(2) in simp)
  then show ?thesis using a' by (auto simp: eq_divide_eq)
qed

lemma average_is_weighted_mean_witness:
  "fold accumulate [half_fill\<lparr>fl_quantity := 6, fl_price := 100\<rparr>, half_fill\<lparr>fl_quantity := 4, fl_price := 150\<rparr>] (0, None, 0)
     = (10, Some 120, 1 / 5)"
proof -
  have "exact_fills 0 None 0 [half_fill\<lparr>fl_quantity := 6, fl_price := 100\<rparr>, half_fill\<lparr>fl_quantity := 4, fl_price := 150\<rparr>]"
    by code_simp
  from average_is_weighted_mean[OF this] show ?thesis by (simp add: fill_sum_def half_fill_def)
qed

definition large_intent :: intent where
  "large_intent = sample_intent\<lparr>in_quantity := 100000000000\<rparr>"

definition short_fill :: "decimal fill" where
  "short_fill = half_fill\<lparr>fl_quantity := 99999999999999999999999999999 / 1000000000000000000\<rparr>"

text \<open>Accumulation is not exact beyond 28 digits: a fill that falls short of the order by
  \<open>10\<^bsup>-18\<^esup>\<close> leaves the order filled, with the whole quantity recorded.\<close>

theorem shortfall_reads_filled:
  "fl_quantity short_fill < in_quantity large_intent
   \<and> accumulate short_fill (0, None, 0) = (in_quantity large_intent, Some 101, 1 / 10)
   \<and> map_option (\<lambda>r. (od_status r, od_filled r)) (order_by_id (projr
        (rbind (record_intent 7 large_intent empty_ledger) (\<lambda>(i, L).
         rbind (transition i Submitted None None L) (record_finite_fill i short_fill)))) 0)
       = Some (Filled, in_quantity large_intent)"
  by (intro conjI) code_simp+

end
