(* ===== verification/Text.thy ===== *)
theory Text
  imports Prelude
begin

text \<open>
  The string operations of Python the finance code uses, on ASCII text: \<open>strip\<close>, \<open>lower\<close>, \<open>split\<close>,
  \<open>in\<close>, \<open>replace\<close> of single characters and \<open>int(text)\<close>. Decimal notation of naturals, with the
  lemmas that reading it back gives the number.
\<close>

definition UPPER_LETTERS :: string where "UPPER_LETTERS = ''ABCDEFGHIJKLMNOPQRSTUVWXYZ''"
definition LOWER_LETTERS :: string where "LOWER_LETTERS = ''abcdefghijklmnopqrstuvwxyz''"
definition DIGITS :: string where "DIGITS = ''0123456789''"

definition translate :: "string \<Rightarrow> string \<Rightarrow> char \<Rightarrow> char" where
  "translate from_chars to_chars c =
     (case map_of (zip from_chars to_chars) c of Some d \<Rightarrow> d | None \<Rightarrow> c)"

definition lower_char :: "char \<Rightarrow> char" where
  "lower_char c = translate UPPER_LETTERS LOWER_LETTERS c"

definition upper_char :: "char \<Rightarrow> char" where
  "upper_char c = translate LOWER_LETTERS UPPER_LETTERS c"

definition lower :: "string \<Rightarrow> string" where
  "lower s = map lower_char s"

definition upper :: "string \<Rightarrow> string" where
  "upper s = map upper_char s"

definition is_space :: "char \<Rightarrow> bool" where
  "is_space c \<longleftrightarrow> c \<in> set [CHR '' '', CHR 0x09, CHR 0x0A, CHR 0x0B, CHR 0x0C, CHR 0x0D,
     CHR 0x1C, CHR 0x1D, CHR 0x1E, CHR 0x1F]"

definition strip :: "string \<Rightarrow> string" where
  "strip s = rev (dropWhile is_space (rev (dropWhile is_space s)))"

definition is_alpha :: "char \<Rightarrow> bool" where
  "is_alpha c \<longleftrightarrow> lower_char c \<noteq> c \<or> upper_char c \<noteq> c"

definition is_upper :: "string \<Rightarrow> bool" where
  "is_upper s \<longleftrightarrow> list_ex is_alpha s \<and> list_all (\<lambda>c. upper_char c = c) s"

text \<open>\<open>s.split()\<close>: the maximal runs of non-space characters.\<close>

fun split_words :: "string \<Rightarrow> string \<Rightarrow> string list" where
  "split_words acc [] = (if acc = [] then [] else [rev acc])"
| "split_words acc (c # cs) =
     (if is_space c then (if acc = [] then split_words [] cs else rev acc # split_words [] cs)
      else split_words (c # acc) cs)"

fun join :: "string \<Rightarrow> string list \<Rightarrow> string" where
  "join sep [] = []"
| "join sep [w] = w"
| "join sep (w # v # ws) = w @ sep @ join sep (v # ws)"

text \<open>\<open>sub in s\<close>.\<close>

fun contains :: "string \<Rightarrow> string \<Rightarrow> bool" where
  "contains sub [] = (sub = [])"
| "contains sub (c # cs) = (take (length sub) (c # cs) = sub \<or> contains sub cs)"

text \<open>\<open>s.partition(sep)\<close> of a one-character separator: what is before it and what is after.\<close>

definition before :: "char \<Rightarrow> string \<Rightarrow> string" where
  "before c s = takeWhile (\<lambda>x. x \<noteq> c) s"

definition after_sep :: "char \<Rightarrow> string \<Rightarrow> string" where
  "after_sep c s = drop 1 (dropWhile (\<lambda>x. x \<noteq> c) s)"

section \<open>Integers in decimal notation\<close>

definition is_digit :: "char \<Rightarrow> bool" where
  "is_digit c \<longleftrightarrow> c \<in> set DIGITS"

definition digit_value :: "char \<Rightarrow> int" where
  "digit_value c = (case map_of (zip DIGITS [0, 1, 2, 3, 4, 5, 6, 7, 8, 9]) c of Some v \<Rightarrow> v | None \<Rightarrow> 0)"

text \<open>Digits with single underscores between them, as \<open>int\<close> accepts them.\<close>

fun digit_run :: "string \<Rightarrow> bool" where
  "digit_run [] = False"
| "digit_run [c] = is_digit c"
| "digit_run (c # d # cs) = (is_digit c \<and> (if d = CHR ''_'' then digit_run cs else digit_run (d # cs)))"

definition run_value :: "string \<Rightarrow> int" where
  "run_value s = foldl (\<lambda>a c. if c = CHR ''_'' then a else a * 10 + digit_value c) 0 s"

text \<open>\<open>int(text)\<close>; \<open>None\<close> where it raises \<open>ValueError\<close>.\<close>

definition py_int :: "string \<Rightarrow> int option" where
  "py_int text =
     (case strip text of
        [] \<Rightarrow> None
      | c # cs \<Rightarrow>
          if c = CHR ''-'' then (if digit_run cs then Some (- run_value cs) else None)
          else if c = CHR ''+'' then (if digit_run cs then Some (run_value cs) else None)
          else if digit_run (c # cs) then Some (run_value (c # cs)) else None)"

definition digit_char :: "nat \<Rightarrow> char" where
  "digit_char d = DIGITS ! (d mod 10)"

fun decimal :: "nat \<Rightarrow> string" where
  "decimal n = (if n < 10 then [digit_char n] else decimal (n div 10) @ [digit_char n])"

declare decimal.simps [simp del]

lemma less_10_cases: "(k::nat) < 10 \<longleftrightarrow> k \<in> {0, 1, 2, 3, 4, 5, 6, 7, 8, 9}"
  by auto

lemma is_digit_digit_char [simp]: "is_digit (digit_char d)"
  using nth_mem[of "d mod 10" DIGITS] by (simp add: is_digit_def digit_char_def DIGITS_def)

lemma digit_value_digit_char [simp]: "digit_value (digit_char d) = int (d mod 10)"
proof -
  have "d mod 10 \<in> {0, 1, 2, 3, 4, 5, 6, 7, 8, 9}" using less_10_cases by (metis mod_less_divisor zero_less_numeral)
  then show ?thesis by (auto simp: digit_value_def digit_char_def DIGITS_def)
qed

lemma digit_not_underscore: "is_digit c \<Longrightarrow> c \<noteq> CHR ''_''"
  by (auto simp: is_digit_def DIGITS_def)

lemma digit_not_space: "is_digit c \<Longrightarrow> \<not> is_space c"
  by (auto simp: is_digit_def is_space_def DIGITS_def)

lemma digit_not_sign: "is_digit c \<Longrightarrow> c \<noteq> CHR ''-'' \<and> c \<noteq> CHR ''+'' \<and> c \<noteq> CHR ''.'' \<and> c \<noteq> CHR '','' \<and> c \<noteq> CHR ''$''"
  by (auto simp: is_digit_def DIGITS_def)

lemma digit_run_digits: "s \<noteq> [] \<Longrightarrow> list_all is_digit s \<Longrightarrow> digit_run s"
  by (induction s rule: digit_run.induct) (auto dest: digit_not_underscore)

lemma decimal_digits: "decimal n \<noteq> [] \<and> list_all is_digit (decimal n)"
proof (induction n rule: decimal.induct)
  case (1 n)
  then show ?case by (subst (1 2) decimal.simps) simp
qed

lemma run_value_append_digit: "is_digit c \<Longrightarrow> run_value (s @ [c]) = run_value s * 10 + digit_value c"
  by (auto simp: run_value_def dest: digit_not_underscore)

lemma run_value_decimal: "run_value (decimal n) = int n"
proof (induction n rule: decimal.induct)
  case (1 n)
  show ?case
  proof (cases "n < 10")
    case True
    then show ?thesis
      using run_value_append_digit[of "digit_char n" "[]"] by (subst decimal.simps) (simp add: run_value_def)
  next
    case False
    have "int n = int (n div 10) * 10 + int (n mod 10)"
      using div_mult_mod_eq[of n 10] by (metis of_nat_add of_nat_mult of_nat_numeral)
    with 1 False show ?thesis by (subst decimal.simps) (simp add: run_value_append_digit)
  qed
qed

lemma strip_no_space: "list_all (\<lambda>c. \<not> is_space c) s \<Longrightarrow> strip s = s"
proof -
  assume a: "list_all (\<lambda>c. \<not> is_space c) s"
  then have "dropWhile is_space s = s" by (cases s) auto
  moreover have "dropWhile is_space (rev s) = rev s"
    using a by (cases s rule: rev_cases) auto
  ultimately show ?thesis by (simp add: strip_def)
qed

lemma py_int_digits:
  assumes "s \<noteq> []" "list_all is_digit s"
  shows "py_int s = Some (run_value s)"
proof -
  have "strip s = s" using assms(2) by (intro strip_no_space) (auto simp: list_all_iff digit_not_space)
  moreover obtain c cs where "s = c # cs" using assms(1) by (cases s) auto
  ultimately show ?thesis
    using assms digit_run_digits[OF assms] digit_not_sign[of c] by (simp add: py_int_def)
qed

lemma py_int_decimal [simp]: "py_int (decimal n) = Some (int n)"
  using decimal_digits[of n] by (simp add: py_int_digits run_value_decimal)

lemma py_int_minus_decimal [simp]: "py_int (CHR ''-'' # decimal n) = Some (- int n)"
proof -
  have "list_all is_digit (decimal n)" using decimal_digits by blast
  then have "strip (CHR ''-'' # decimal n) = CHR ''-'' # decimal n"
    by (intro strip_no_space) (auto simp: list_all_iff digit_not_space is_space_def[of "CHR ''-''"])
  then show ?thesis
    using decimal_digits[of n] by (simp add: py_int_def digit_run_digits run_value_decimal)
qed

lemma nat_div_mod_int: "int n = int (n div k) * int k + int (n mod k)"
  by (metis div_mult_mod_eq of_nat_add of_nat_mult)

end
