(* ===== verification/Portfolio_State.thy ===== *)
theory Portfolio_State
  imports Order_Ledger Text
begin

text \<open>
  The materialised portfolio of \<open>src/omni/portfolio/state.py\<close>: the averaging rules, cash settlement,
  the position, cash, funding and NAV tables and the operations on them, the replay of fills
  without the tables, and realised profit and loss from the order ledger; and the transaction of
  \<open>src/omni/trading/fill_commit.py\<close> that joins a fill in the ledger to the book.

  Python arithmetic is \<open>dadd\<close>, \<open>dmul\<close>, ...; the addition in the cash upsert is done by the
  database on \<open>NUMERIC\<close> and is exact. Rows are ordered with \<open>COLLATE "C"\<close>, which is the order of
  strings here. An operation that raises leaves the tables as they were. Time bounds given to
  \<open>realised_pnl\<close> are aware instants, and events of equal time are replayed in insertion order.
\<close>

section \<open>The averaging rules\<close>

definition signed_fill :: "side \<Rightarrow> decimal \<Rightarrow> decimal" where
  "signed_fill s q = (if s = Buy then q else dneg q)"

definition next_position :: "decimal \<Rightarrow> decimal \<Rightarrow> side \<Rightarrow> decimal \<Rightarrow> decimal \<Rightarrow> decimal \<times> decimal" where
  "next_position quantity average_entry s filled price =
     (let delta = signed_fill s filled; new_quantity = dadd quantity delta
      in if new_quantity = 0 then (new_quantity, 0)
         else if quantity = 0 \<or> (0 < quantity) \<noteq> (0 < new_quantity) then (new_quantity, price)
         else if (0 < delta) = (0 < quantity)
         then (let blended = dadd (dmul (dabs quantity) average_entry) (dmul (dabs delta) price)
               in (new_quantity, ddiv blended (dabs new_quantity)))
         else (new_quantity, average_entry))"

definition closed_quantity :: "decimal \<Rightarrow> side \<Rightarrow> decimal \<Rightarrow> decimal" where
  "closed_quantity quantity s filled =
     (let delta = signed_fill s filled
      in if quantity = 0 \<or> (0 < delta) = (0 < quantity) then 0 else min (dabs delta) (dabs quantity))"

definition closed_pnl :: "decimal \<Rightarrow> decimal \<Rightarrow> side \<Rightarrow> decimal \<Rightarrow> decimal \<Rightarrow> decimal" where
  "closed_pnl quantity average_entry s filled price =
     (let closed = closed_quantity quantity s filled
      in if 0 < quantity then dmul closed (dsub price average_entry) else dmul closed (dsub average_entry price))"

definition cash_delta :: "decimal fill \<Rightarrow> market_type \<Rightarrow> decimal \<Rightarrow> decimal \<Rightarrow> decimal" where
  "cash_delta f mt quantity average_entry =
     (if mt = Perpetual
      then dsub (closed_pnl quantity average_entry (fl_side f) (fl_quantity f) (fl_price f)) (fl_fee f)
      else dsub (if fl_side f = Sell then fill_notional f else dneg (fill_notional f)) (fl_fee f))"

definition marked_equity :: "position \<Rightarrow> decimal \<Rightarrow> decimal" where
  "marked_equity p marked_value =
     (if po_market_type p = Perpetual then dsub marked_value (dmul (po_quantity p) (po_average_entry p))
      else marked_value)"

definition realised_leg :: "decimal \<Rightarrow> decimal \<Rightarrow> side \<Rightarrow> decimal \<Rightarrow> decimal \<Rightarrow> decimal \<Rightarrow> decimal" where
  "realised_leg quantity average_entry s filled price fee =
     (let closed = closed_quantity quantity s filled
      in if closed = 0 then 0
         else (let gross = closed_pnl quantity average_entry s filled price;
                   share = (if closed = dabs filled then fee else ddiv (dmul fee closed) (dabs filled))
               in dsub gross share))"

section \<open>Tables\<close>

record portfolio_row =
  pf_id :: nat
  pf_user :: nat
  pf_name :: string
  pf_base :: string

record position_row =
  ps_portfolio :: nat
  ps_venue :: string
  ps_symbol :: string
  ps_market :: market_type
  ps_quantity :: decimal
  ps_entry :: decimal
  ps_at :: int

record cash_row =
  ca_portfolio :: nat
  ca_venue :: string
  ca_asset :: string
  ca_free :: rat
  ca_locked :: rat
  ca_at :: int

record nav_row =
  nv_portfolio :: nat
  nv_nav :: decimal
  nv_cash :: decimal
  nv_gross :: decimal
  nv_net :: decimal

record funding_row =
  fu_portfolio :: nat
  fu_venue :: string
  fu_symbol :: string
  fu_time :: int
  fu_rate :: decimal
  fu_quantity :: "decimal option"
  fu_mark :: "decimal option"
  fu_amount :: "decimal option"

record book =
  bk_portfolios :: "portfolio_row list"
  bk_positions :: "position_row list"
  bk_cash :: "cash_row list"
  bk_navs :: "nav_row list"
  bk_funding :: "funding_row list"
  bk_next :: nat
  bk_now :: int

type_synonym leg_key = "string \<times> string \<times> market_type"
type_synonym position_key = "nat \<times> leg_key"

definition row_key :: "position_row \<Rightarrow> position_key" where
  "row_key r = (ps_portfolio r, ps_venue r, ps_symbol r, ps_market r)"

definition portfolio_base :: "book \<Rightarrow> nat \<Rightarrow> string option" where
  "portfolio_base B p = map_option pf_base (find (\<lambda>r. pf_id r = p) (bk_portfolios B))"

text \<open>\<open>_LOCK_POSITION\<close>, \<open>_UPSERT_POSITION\<close> and \<open>_DELETE_POSITION\<close> on the position rows.\<close>

definition select_position :: "position_row list \<Rightarrow> position_key \<Rightarrow> (decimal \<times> decimal \<times> int) option" where
  "select_position rows k = map_option (\<lambda>r. (ps_quantity r, ps_entry r, ps_at r)) (find (\<lambda>r. row_key r = k) rows)"

fun upsert_position :: "position_key \<Rightarrow> decimal \<times> decimal \<times> int \<Rightarrow> position_row list \<Rightarrow> position_row list" where
  "upsert_position (p, v, s, m) (q, e, t) [] =
     [\<lparr>ps_portfolio = p, ps_venue = v, ps_symbol = s, ps_market = m, ps_quantity = q, ps_entry = e, ps_at = t\<rparr>]"
| "upsert_position (p, v, s, m) (q, e, t) (r # rs) =
     (if row_key r = (p, v, s, m) then r\<lparr>ps_quantity := q, ps_entry := e, ps_at := t\<rparr> # rs
      else r # upsert_position (p, v, s, m) (q, e, t) rs)"

definition delete_position :: "position_key \<Rightarrow> position_row list \<Rightarrow> position_row list" where
  "delete_position k rows = filter (\<lambda>r. row_key r \<noteq> k) rows"

text \<open>\<open>_UPSERT_CASH\<close>: the database adds to what is there.\<close>

fun upsert_cash :: "nat \<Rightarrow> string \<Rightarrow> string \<Rightarrow> rat \<Rightarrow> int \<Rightarrow> cash_row list \<Rightarrow> cash_row list" where
  "upsert_cash p v a amount t [] =
     [\<lparr>ca_portfolio = p, ca_venue = v, ca_asset = a, ca_free = amount, ca_locked = 0, ca_at = t\<rparr>]"
| "upsert_cash p v a amount t (r # rs) =
     (if ca_portfolio r = p \<and> ca_venue r = v \<and> ca_asset r = a
      then r\<lparr>ca_free := ca_free r + amount, ca_at := t\<rparr> # rs
      else r # upsert_cash p v a amount t rs)"

section \<open>Reading the state\<close>

record cash_position =
  cp_venue :: string
  cp_asset :: string
  cp_free :: decimal
  cp_locked :: decimal
  cp_as_of :: int

definition check_cash_position :: "cash_position \<Rightarrow> cash_position trading" where
  "check_cash_position c = rbind (ensure (\<not> cp_locked c < 0) Invalid_Value) (\<lambda>_. Inr c)"

definition cash_total :: "cash_position \<Rightarrow> decimal" where
  "cash_total c = dadd (cp_free c) (cp_locked c)"

record portfolio_state =
  st_portfolio :: nat
  st_nav :: decimal
  st_cash :: decimal
  st_positions :: "position list"
  st_cash_positions :: "cash_position list"

definition gross_exposure :: "portfolio_state \<Rightarrow> decimal" where
  "gross_exposure st = dsum (map position_notional (st_positions st))"

definition net_exposure :: "portfolio_state \<Rightarrow> decimal" where
  "net_exposure st = dsum (map (\<lambda>p. dmul (po_quantity p) (po_average_entry p)) (st_positions st))"

definition position_for :: "portfolio_state \<Rightarrow> string \<Rightarrow> string \<Rightarrow> market_type \<Rightarrow> position option" where
  "position_for st v s m =
     find (\<lambda>p. po_venue p = v \<and> po_symbol p = s \<and> po_market_type p = m) (st_positions st)"

definition make_state :: "nat \<Rightarrow> decimal \<Rightarrow> position list \<Rightarrow> cash_position list \<Rightarrow> portfolio_state" where
  "make_state portfolio cash positions cash_positions =
     (let book = dsum (map (\<lambda>p. marked_equity p (dmul (po_quantity p) (po_average_entry p))) positions)
      in \<lparr>st_portfolio = portfolio, st_nav = dadd cash book, st_cash = cash, st_positions = positions,
          st_cash_positions = cash_positions\<rparr>)"

definition position_rows :: "book \<Rightarrow> nat \<Rightarrow> position_row list" where
  "position_rows B p = sort_key (\<lambda>r. (ps_venue r, ps_symbol r, ps_market r))
     (filter (\<lambda>r. ps_portfolio r = p) (bk_positions B))"

definition cash_rows :: "book \<Rightarrow> nat \<Rightarrow> cash_row list" where
  "cash_rows B p = sort_key (\<lambda>r. (ca_venue r, ca_asset r)) (filter (\<lambda>r. ca_portfolio r = p) (bk_cash B))"

definition position_of_row :: "position_row \<Rightarrow> position" where
  "position_of_row r = \<lparr>po_venue = ps_venue r, po_symbol = ps_symbol r, po_market_type = ps_market r,
     po_quantity = ps_quantity r, po_average_entry = ps_entry r, po_as_of = ps_at r\<rparr>"

definition cash_of_row :: "cash_row \<Rightarrow> cash_position" where
  "cash_of_row r = \<lparr>cp_venue = ca_venue r, cp_asset = ca_asset r, cp_free = ca_free r,
     cp_locked = ca_locked r, cp_as_of = ca_at r\<rparr>"

definition load :: "nat \<Rightarrow> book \<Rightarrow> portfolio_state trading" where
  "load p B =
     (case portfolio_base B p of
        None \<Rightarrow> Inl Unknown_Portfolio
      | Some base \<Rightarrow>
          rbind (rmap (\<lambda>r. check_position (position_of_row r)) (position_rows B p)) (\<lambda>positions.
          rbind (rmap (\<lambda>r. check_cash_position (cash_of_row r)) (cash_rows B p)) (\<lambda>cash_positions.
          Inr (make_state p (dsum (map cash_total (filter (\<lambda>c. cp_asset c = base) cash_positions)))
                 positions cash_positions))))"

section \<open>Opening a portfolio\<close>

definition create_portfolio ::
  "nat option \<Rightarrow> string \<Rightarrow> string \<Rightarrow> xdecimal option \<Rightarrow> string \<Rightarrow> book \<Rightarrow> (portfolio_state \<times> book) trading" where
  "create_portfolio user name base opening_cash cash_venue B =
     (case user of
        None \<Rightarrow> Inl Invalid_Value
      | Some u \<Rightarrow>
      case opening_cash of
        None \<Rightarrow> Inl Type_Error
      | Some cash \<Rightarrow>
          rbind (ensure (is_finite cash) Invalid_Value) (\<lambda>_.
          rbind (ensure (\<not> finite_part cash < 0) Invalid_Value) (\<lambda>_.
          rbind (ensure (strip name \<noteq> [] \<and> strip base \<noteq> [] \<and> strip cash_venue \<noteq> []) Invalid_Value) (\<lambda>_.
          rbind (ensure (find (\<lambda>r. pf_user r = u \<and> pf_name r = name) (bk_portfolios B) = None) Duplicate_Portfolio) (\<lambda>_.
          (let p = bk_next B;
               B' = B\<lparr>bk_portfolios := bk_portfolios B @ [\<lparr>pf_id = p, pf_user = u, pf_name = name, pf_base = base\<rparr>],
                      bk_cash := bk_cash B @ [\<lparr>ca_portfolio = p, ca_venue = cash_venue, ca_asset = base,
                                    ca_free = finite_part cash, ca_locked = 0, ca_at = bk_now B\<rparr>],
                      bk_next := Suc p\<rparr>
           in rbind (load p B') (\<lambda>st. Inr (st, B'))))))))"

section \<open>Fills\<close>

text \<open>What a fill makes of the position it lands on: \<open>None\<close> when it is closed.\<close>

definition next_leg :: "decimal fill \<Rightarrow> (decimal \<times> decimal \<times> int) option \<Rightarrow> (decimal \<times> decimal \<times> int) option" where
  "next_leg f held =
     (let quantity = (case held of Some (q, e, t) \<Rightarrow> q | None \<Rightarrow> 0);
          average_entry = (case held of Some (q, e, t) \<Rightarrow> e | None \<Rightarrow> 0);
          (new_quantity, new_entry) = next_position quantity average_entry (fl_side f) (fl_quantity f) (fl_price f)
      in if new_quantity = 0 then None else Some (new_quantity, new_entry, fl_at f))"

definition leg_cash :: "decimal fill \<Rightarrow> market_type \<Rightarrow> (decimal \<times> decimal \<times> int) option \<Rightarrow> decimal" where
  "leg_cash f mt held =
     cash_delta f mt (case held of Some (q, e, t) \<Rightarrow> q | None \<Rightarrow> 0) (case held of Some (q, e, t) \<Rightarrow> e | None \<Rightarrow> 0)"

text \<open>The CHECK constraints of a position row.\<close>

definition position_checks :: "(decimal \<times> decimal \<times> int) option \<Rightarrow> bool" where
  "position_checks leg = (case leg of None \<Rightarrow> True | Some (q, e, t) \<Rightarrow> q \<noteq> 0 \<and> 0 < e)"

definition apply_fill_rows :: "nat \<Rightarrow> decimal fill \<Rightarrow> market_type \<Rightarrow> book \<Rightarrow> book trading" where
  "apply_fill_rows p f mt B =
     rbind (ensure (fl_aware f) Invalid_Value) (\<lambda>_.
     case portfolio_base B p of
       None \<Rightarrow> Inl Unknown_Portfolio
     | Some base \<Rightarrow>
         (let key = (p, fl_venue f, fl_symbol f, mt);
              held = select_position (bk_positions B) key;
              leg = next_leg f held
          in rbind (ensure (position_checks leg) Integrity_Error) (\<lambda>_.
             Inr (B\<lparr>bk_positions := (case leg of
                          None \<Rightarrow> (if held = None then bk_positions B else delete_position key (bk_positions B))
                        | Some new \<Rightarrow> upsert_position key new (bk_positions B)),
                    bk_cash := upsert_cash p (fl_venue f) base (leg_cash f mt held) (fl_at f) (bk_cash B)\<rparr>))))"

definition apply_fill :: "nat \<Rightarrow> decimal fill \<Rightarrow> market_type \<Rightarrow> book \<Rightarrow> (portfolio_state \<times> book) trading" where
  "apply_fill p f mt B =
     rbind (apply_fill_rows p f mt B) (\<lambda>B'. rbind (load p B') (\<lambda>st. Inr (st, B')))"

text \<open>\<open>record_and_apply_fill\<close>: ledger and book move together or not at all.\<close>

definition record_and_apply_fill ::
  "nat \<Rightarrow> nat \<Rightarrow> xdecimal fill \<Rightarrow> market_type \<Rightarrow> ledger \<times> book \<Rightarrow> (portfolio_state \<times> ledger \<times> book) trading" where
  "record_and_apply_fill i p f mt db =
     (let (L, B) = db in
      rbind (ensure (portfolio_base B p \<noteq> None) Unknown_Portfolio) (\<lambda>_.
      rbind (record_fill i f L) (\<lambda>L'.
      rbind (apply_fill p (fill_numbers finite_part f) mt B) (\<lambda>(st, B').
      Inr (st, L', B')))))"

section \<open>Funding\<close>

datatype funding_outcome = Accrued | No_Position | Already_Settled

record funding_accrual =
  fa_portfolio :: nat
  fa_venue :: string
  fa_symbol :: string
  fa_time :: int
  fa_rate :: decimal
  fa_outcome :: funding_outcome
  fa_quantity :: "decimal option"
  fa_mark :: "decimal option"
  fa_amount :: "decimal option"

definition check_accrual :: "funding_accrual \<Rightarrow> funding_accrual trading" where
  "check_accrual a =
     rbind (ensure (\<not> (fa_outcome a = No_Position \<and> fa_amount a \<noteq> None)) Invalid_Value) (\<lambda>_.
     rbind (ensure (\<not> (fa_outcome a = Accrued \<and> fa_amount a = None)) Invalid_Value) (\<lambda>_. Inr a))"

definition funding_amount :: "decimal \<Rightarrow> decimal \<Rightarrow> decimal \<Rightarrow> decimal" where
  "funding_amount quantity mark rate = dmul (dmul (dneg quantity) mark) rate"

text \<open>The CHECK constraints of \<open>funding_accrual\<close> (migration 047): a row is whole or absent, settles a
  real position at a price, and its sign follows the convention.\<close>

definition funding_checks :: "funding_row \<Rightarrow> bool" where
  "funding_checks r \<longleftrightarrow>
     (case (fu_quantity r, fu_mark r, fu_amount r) of
        (None, None, None) \<Rightarrow> True
      | (Some q, Some m, Some a) \<Rightarrow> q \<noteq> 0 \<and> 0 < m \<and> sgn a = - sgn q * sgn (fu_rate r)
      | _ \<Rightarrow> False)
     \<and> fu_venue r \<noteq> [] \<and> fu_symbol r \<noteq> []"

definition funding_key :: "funding_row \<Rightarrow> nat \<times> string \<times> string \<times> int" where
  "funding_key r = (fu_portfolio r, fu_venue r, fu_symbol r, fu_time r)"

definition select_funding :: "funding_row list \<Rightarrow> nat \<times> string \<times> string \<times> int \<Rightarrow> funding_row option" where
  "select_funding rows k = find (\<lambda>r. funding_key r = k) rows"

definition apply_funding ::
  "nat \<Rightarrow> string \<Rightarrow> string \<Rightarrow> int \<Rightarrow> bool \<Rightarrow> xdecimal \<Rightarrow> xdecimal \<Rightarrow> book \<Rightarrow> (funding_accrual \<times> book) trading" where
  "apply_funding p venue symbol funding_time aware xrate xmark B =
     rbind (ensure (strip venue \<noteq> [] \<and> strip symbol \<noteq> []) Invalid_Value) (\<lambda>_.
     rbind (ensure aware Invalid_Value) (\<lambda>_.
     rbind (ensure (is_finite xrate \<and> is_finite xmark) Invalid_Value) (\<lambda>_.
     (let rate = finite_part xrate; mark = finite_part xmark in
      rbind (ensure (\<not> mark \<le> 0) Invalid_Value) (\<lambda>_.
      case portfolio_base B p of
        None \<Rightarrow> Inl Unknown_Portfolio
      | Some base \<Rightarrow>
          (let quantity = map_option fst (select_position (bk_positions B) (p, venue, symbol, Perpetual));
               amount = map_option (\<lambda>q. funding_amount q mark rate) quantity;
               row = \<lparr>fu_portfolio = p, fu_venue = venue, fu_symbol = symbol, fu_time = funding_time,
                      fu_rate = rate, fu_quantity = quantity,
                      fu_mark = (if quantity = None then None else Some mark), fu_amount = amount\<rparr>
           in rbind (ensure (funding_checks row) Integrity_Error) (\<lambda>_.
              case select_funding (bk_funding B) (funding_key row) of
                Some settled \<Rightarrow>
                  rbind (check_accrual \<lparr>fa_portfolio = p, fa_venue = venue, fa_symbol = symbol,
                      fa_time = funding_time, fa_rate = fu_rate settled, fa_outcome = Already_Settled,
                      fa_quantity = fu_quantity settled, fa_mark = fu_mark settled,
                      fa_amount = fu_amount settled\<rparr>) (\<lambda>a. Inr (a, B))
              | None \<Rightarrow>
                  rbind (check_accrual \<lparr>fa_portfolio = p, fa_venue = venue, fa_symbol = symbol,
                      fa_time = funding_time, fa_rate = rate,
                      fa_outcome = (if amount = None then No_Position else Accrued),
                      fa_quantity = quantity, fa_mark = (if quantity = None then None else Some mark),
                      fa_amount = amount\<rparr>) (\<lambda>a.
                  Inr (a, B\<lparr>bk_funding := bk_funding B @ [row],
                           bk_cash := (case amount of None \<Rightarrow> bk_cash B
                             | Some c \<Rightarrow> upsert_cash p venue base c funding_time (bk_cash B))\<rparr>)))))))))"

section \<open>Marking the book\<close>

type_synonym marks = "string \<times> string \<Rightarrow> xdecimal option"

definition marked_value :: "marks \<Rightarrow> position \<Rightarrow> decimal trading" where
  "marked_value marks p =
     (case marks (po_venue p, po_symbol p) of
        None \<Rightarrow> Inl Unmarked_Position
      | Some mark \<Rightarrow>
          rbind (ensure (is_finite mark) Unmarked_Position) (\<lambda>_.
          rbind (ensure (\<not> finite_part mark \<le> 0) Unmarked_Position) (\<lambda>_.
          Inr (dmul (po_quantity p) (finite_part mark)))))"

definition snapshot_nav :: "nat \<Rightarrow> marks \<Rightarrow> book \<Rightarrow> (decimal \<times> book) trading" where
  "snapshot_nav p marks B =
     rbind (load p B) (\<lambda>st.
     rbind (rmap (marked_value marks) (st_positions st)) (\<lambda>values.
     (let net = dsum values; gross = dsum (map dabs values);
          nav = dadd (st_cash st) (dsum (map (\<lambda>(q, v). marked_equity q v) (zip (st_positions st) values)))
      in rbind (ensure (0 \<le> gross) Integrity_Error) (\<lambda>_.
         Inr (nav, B\<lparr>bk_navs := bk_navs B @ [\<lparr>nv_portfolio = p, nv_nav = nav, nv_cash = st_cash st,
                                              nv_gross = gross, nv_net = net\<rparr>]\<rparr>)))))"

section \<open>Realised profit and loss\<close>

text \<open>\<open>_LEDGER_FILLS\<close>: the fills of a portfolio's orders with the market type of their order.\<close>

definition order_fill :: "ledger \<Rightarrow> nat \<Rightarrow> order_event \<Rightarrow> (int \<times> decimal fill \<times> market_type) option" where
  "order_fill L p e =
     (case (order_by_id L (ev_order e), ev_payload e) of
        (Some r, Fill_Payload f) \<Rightarrow>
          if od_portfolio r = p then Some (ev_at e, f, in_market_type (od_intent r)) else None
      | _ \<Rightarrow> None)"

definition ledger_fills :: "ledger \<Rightarrow> nat \<Rightarrow> (decimal fill \<times> market_type) list" where
  "ledger_fills L p = map snd (sort_key (\<lambda>(landed, f, mt). (fl_at f, landed)) (List.map_filter (order_fill L p) (ld_events L)))"

type_synonym leg_dict = "(leg_key \<times> (decimal \<times> decimal)) list"

definition pnl_step :: "int \<Rightarrow> int \<Rightarrow> decimal fill \<times> market_type \<Rightarrow> leg_dict \<times> decimal \<Rightarrow> (leg_dict \<times> decimal) trading" where
  "pnl_step since until fm acc =
     (let (f, mt) = fm; (legs, realised) = acc in
      rbind (ensure (fl_venue f \<noteq> [] \<and> fl_symbol f \<noteq> []) Unaccounted_Close) (\<lambda>_.
      (let key = (fl_venue f, fl_symbol f, mt);
           (quantity, average_entry) = dict_get legs key (0, 0);
           realised = (if since \<le> fl_at f \<and> fl_at f < until
             then dadd realised (realised_leg quantity average_entry (fl_side f) (fl_quantity f) (fl_price f) (fl_fee f))
             else realised);
           (new_quantity, new_entry) = next_position quantity average_entry (fl_side f) (fl_quantity f) (fl_price f)
       in Inr (if new_quantity = 0 then AList.delete key legs
               else AList.update key (new_quantity, new_entry) legs, realised))))"

text \<open>\<open>==\<close> of two dicts.\<close>

definition dict_eq :: "('k \<times> 'v) list \<Rightarrow> ('k \<times> 'v) list \<Rightarrow> bool" where
  "dict_eq d e \<longleftrightarrow> list_all (\<lambda>k. map_of d k = map_of e k) (map fst d @ map fst e)"

definition stored_legs :: "book \<Rightarrow> nat \<Rightarrow> leg_dict" where
  "stored_legs B p = map (\<lambda>r. ((ps_venue r, ps_symbol r, ps_market r), (ps_quantity r, ps_entry r))) (position_rows B p)"

definition realised_pnl :: "nat \<Rightarrow> int \<Rightarrow> int \<Rightarrow> ledger \<times> book \<Rightarrow> decimal trading" where
  "realised_pnl p since until db =
     (let (L, B) = db in
      rbind (ensure (\<not> until < since) Invalid_Value) (\<lambda>_.
      rbind (ensure (portfolio_base B p \<noteq> None) Unknown_Portfolio) (\<lambda>_.
      rbind (rfold (pnl_step since until) (ledger_fills L p) ([], 0)) (\<lambda>(legs, realised).
      rbind (ensure (dict_eq (stored_legs B p) legs) Unaccounted_Close) (\<lambda>_.
      Inr realised)))))"

section \<open>Replaying fills\<close>

type_synonym held_dict = "(leg_key \<times> (decimal \<times> decimal \<times> int)) list"

definition replay_step :: "decimal fill \<times> market_type \<Rightarrow> held_dict \<times> decimal \<Rightarrow> (held_dict \<times> decimal) trading" where
  "replay_step fm acc =
     (let (f, mt) = fm; (held, cash) = acc in
      rbind (ensure (fl_aware f) Invalid_Value) (\<lambda>_.
      (let key = (fl_venue f, fl_symbol f, mt); old = map_of held key
       in Inr (case next_leg f old of None \<Rightarrow> AList.delete key held | Some new \<Rightarrow> AList.update key new held,
               dadd cash (leg_cash f mt old)))))"

definition held_position :: "leg_key \<times> (decimal \<times> decimal \<times> int) \<Rightarrow> position" where
  "held_position kv = (case kv of ((v, s, m), (q, e, t)) \<Rightarrow>
     \<lparr>po_venue = v, po_symbol = s, po_market_type = m, po_quantity = q, po_average_entry = e, po_as_of = t\<rparr>)"

definition rebuild_from_fills :: "nat \<Rightarrow> (decimal fill \<times> market_type) list \<Rightarrow> book \<Rightarrow> portfolio_state trading" where
  "rebuild_from_fills p fills B =
     rbind (ensure (portfolio_base B p \<noteq> None) Unknown_Portfolio) (\<lambda>_.
     rbind (rfold replay_step fills ([], 0)) (\<lambda>(held, cash).
     rbind (rmap (\<lambda>kv. check_position (held_position kv)) (sort_key fst held)) (\<lambda>positions.
     Inr (make_state p cash positions []))))"

section \<open>Stores of legs\<close>

text \<open>What the averaging rules need of the place positions are kept in: reading after writing and after
  deleting. The position rows of a portfolio and the dictionaries of the replays both provide it.\<close>

definition set_leg :: "('k \<Rightarrow> 'v \<Rightarrow> 's \<Rightarrow> 's) \<Rightarrow> ('k \<Rightarrow> 's \<Rightarrow> 's) \<Rightarrow> 'k \<Rightarrow> 'v option \<Rightarrow> 's \<Rightarrow> 's" where
  "set_leg put del k leg s = (case leg of None \<Rightarrow> del k s | Some v \<Rightarrow> put k v s)"

locale leg_store =
  fixes get :: "'s \<Rightarrow> 'k \<Rightarrow> 'v option" and put :: "'k \<Rightarrow> 'v \<Rightarrow> 's \<Rightarrow> 's" and del :: "'k \<Rightarrow> 's \<Rightarrow> 's"
  assumes get_put: "get (put k v s) k' = (if k' = k then Some v else get s k')"
    and get_del: "get (del k s) k' = (if k' = k then None else get s k')"
begin

lemma get_set: "get (set_leg put del k leg s) k' = (if k' = k then leg else get s k')"
  by (cases leg) (simp_all add: set_leg_def get_put get_del)

lemma get_set_fun: "get (set_leg put del k leg s) = (get s)(k := leg)"
  by (simp add: fun_eq_iff get_set)

end

text \<open>Two stores that agree still agree after the same leg is set in both.\<close>

locale leg_simulation = a: leg_store get\<^sub>1 put\<^sub>1 del\<^sub>1 + b: leg_store get\<^sub>2 put\<^sub>2 del\<^sub>2
  for get\<^sub>1 :: "'s \<Rightarrow> 'k \<Rightarrow> 'v option" and put\<^sub>1 del\<^sub>1
    and get\<^sub>2 :: "'t \<Rightarrow> 'k \<Rightarrow> 'v option" and put\<^sub>2 del\<^sub>2
begin

lemma agree_set: "get\<^sub>1 s = get\<^sub>2 t \<Longrightarrow> get\<^sub>1 (set_leg put\<^sub>1 del\<^sub>1 k leg s) = get\<^sub>2 (set_leg put\<^sub>2 del\<^sub>2 k leg t)"
  by (simp add: a.get_set_fun b.get_set_fun)

end

lemma row_key_upd [simp]: "row_key (r\<lparr>ps_quantity := q, ps_entry := e, ps_at := t\<rparr>) = row_key r"
  by (simp add: row_key_def)

lemma select_upsert_position:
  "select_position (upsert_position k v rows) k' = (if k' = k then Some v else select_position rows k')"
proof -
  obtain p ve s m q e t where kv: "k = (p, ve, s, m)" "v = (q, e, t)" by (metis prod_cases3 prod.collapse)
  show ?thesis unfolding kv
    by (induction rows) (auto simp: select_position_def row_key_def)
qed

lemma select_delete_position:
  "select_position (delete_position k rows) k' = (if k' = k then None else select_position rows k')"
  by (induction rows) (auto simp: select_position_def delete_position_def)

lemma delete_position_none: "select_position rows k = None \<Longrightarrow> delete_position k rows = rows"
  by (auto simp: select_position_def delete_position_def find_None_all filter_id_conv)

interpretation rows_store: leg_store "\<lambda>rows k. select_position rows (p, k)"
  "\<lambda>k. upsert_position (p, k)" "\<lambda>k. delete_position (p, k)" for p
  by unfold_locales (auto simp: select_upsert_position select_delete_position)

interpretation dict_store: leg_store map_of AList.update AList.delete
  by unfold_locales (auto simp: update_conv' delete_conv')

interpretation rows_dict: leg_simulation "\<lambda>rows k. select_position rows (p, k)"
  "\<lambda>k. upsert_position (p, k)" "\<lambda>k. delete_position (p, k)" map_of AList.update AList.delete for p
  by unfold_locales

section \<open>The invariant of the tables\<close>

definition book_inv :: "book \<Rightarrow> bool" where
  "book_inv B \<longleftrightarrow>
     distinct (map row_key (bk_positions B))
     \<and> (\<forall>r\<in>set (bk_positions B). ps_quantity r \<noteq> 0 \<and> 0 < ps_entry r)
     \<and> (\<forall>r\<in>set (bk_cash B). 0 \<le> ca_locked r)
     \<and> distinct (map funding_key (bk_funding B))
     \<and> (\<forall>r\<in>set (bk_funding B). funding_checks r)"

lemma upsert_position_keys:
  "map row_key (upsert_position k v rows) = (if k \<in> set (map row_key rows) then map row_key rows else map row_key rows @ [k])"
proof -
  obtain p ve s m q e t where kv: "k = (p, ve, s, m)" "v = (q, e, t)" by (metis prod_cases3 prod.collapse)
  show ?thesis unfolding kv by (induction rows) (auto simp: row_key_def)
qed

lemma upsert_position_rows:
  "r \<in> set (upsert_position k (q, e, t) rows) \<Longrightarrow> r \<in> set rows \<or> ps_quantity r = q \<and> ps_entry r = e"
proof -
  obtain p ve s m where k: "k = (p, ve, s, m)" by (metis prod_cases4)
  show "r \<in> set (upsert_position k (q, e, t) rows) \<Longrightarrow> r \<in> set rows \<or> ps_quantity r = q \<and> ps_entry r = e"
    unfolding k by (induction rows) (auto split: if_splits)
qed

lemma upsert_cash_locked:
  "\<forall>r\<in>set rows. 0 \<le> ca_locked r \<Longrightarrow> \<forall>r\<in>set (upsert_cash p v a x t rows). 0 \<le> ca_locked r"
  by (induction rows) auto

lemma select_position_mem:
  "select_position rows k = Some (q, e, t) \<Longrightarrow> \<exists>r\<in>set rows. row_key r = k \<and> ps_quantity r = q \<and> ps_entry r = e"
  unfolding select_position_def by (auto dest: find_Some_mem)

lemma leg_positive:
  assumes "book_inv B" "select_position (bk_positions B) k = Some (q, e, t)"
  shows "q \<noteq> 0" "0 < e"
  using select_position_mem[OF assms(2)] assms(1) by (auto simp: book_inv_def)

text \<open>A fill never produces a flat or unpriced row.\<close>

lemma next_leg_checks:
  assumes "valid_fill f" "\<And>q e t. held = Some (q, e, t) \<Longrightarrow> q \<noteq> 0 \<and> 0 < e"
  shows "position_checks (next_leg f held)"
proof -
  define q where "q = (case held of Some (q, e, t) \<Rightarrow> q | None \<Rightarrow> 0)"
  define e where "e = (case held of Some (q, e, t) \<Rightarrow> e | None \<Rightarrow> 0)"
  define d where "d = signed_fill (fl_side f) (fl_quantity f)"
  have e: "q \<noteq> 0 \<longrightarrow> 0 < e" using assms(2) by (auto simp: q_def e_def split: option.splits)
  have p: "fl_quantity f \<noteq> 0 \<longrightarrow> 0 < fl_price f" using assms(1) by (auto simp: valid_fill_def)
  have d: "d \<noteq> 0 \<longleftrightarrow> fl_quantity f \<noteq> 0" by (auto simp: d_def signed_fill_def dneg_def)
  have blend: "0 < ddiv (dadd (dmul (dabs q) e) (dmul (dabs d) (fl_price f))) (dabs (dadd q d))"
    if "q \<noteq> 0" "dadd q d \<noteq> 0"
  proof -
    have "0 < dmul (dabs q) e" using that e by (simp add: dmul_def dabs_def)
    moreover have "0 \<le> dmul (dabs d) (fl_price f)"
      using d p by (cases "d = 0") (auto simp: dmul_def dabs_def)
    ultimately have "0 < dadd (dmul (dabs q) e) (dmul (dabs d) (fl_price f))" by (simp add: dadd_def)
    then show ?thesis using that by (simp add: ddiv_def dabs_def)
  qed
  have flip: "fl_quantity f \<noteq> 0" if "dadd q d \<noteq> 0" "q = 0 \<or> (0 < q) \<noteq> (0 < dadd q d)"
    using that d by (auto simp: dadd_def)
  show ?thesis
    using blend flip p e
    unfolding next_leg_def q_def[symmetric] e_def[symmetric] next_position_def d_def[symmetric] Let_def
    by (auto simp: position_checks_def)
qed

lemma apply_fill_rowsE:
  assumes "apply_fill_rows p f mt B = Inr B'"
  obtains base where "fl_aware f" "portfolio_base B p = Some base"
    "position_checks (next_leg f (select_position (bk_positions B) (p, fl_venue f, fl_symbol f, mt)))"
    "B' = B\<lparr>bk_positions := set_leg (\<lambda>k. upsert_position (p, k)) (\<lambda>k. delete_position (p, k)) (fl_venue f, fl_symbol f, mt)
             (next_leg f (select_position (bk_positions B) (p, fl_venue f, fl_symbol f, mt))) (bk_positions B),
           bk_cash := upsert_cash p (fl_venue f) base
             (leg_cash f mt (select_position (bk_positions B) (p, fl_venue f, fl_symbol f, mt))) (fl_at f) (bk_cash B)\<rparr>"
  using assms unfolding apply_fill_rows_def Let_def
  by (auto simp: result_simps set_leg_def delete_position_none split: option.splits)

lemma set_leg_rows_inv:
  assumes "book_inv B" "position_checks leg"
  shows "distinct (map row_key (set_leg (\<lambda>k. upsert_position (p, k)) (\<lambda>k. delete_position (p, k)) k leg (bk_positions B)))"
    and "\<forall>r\<in>set (set_leg (\<lambda>k. upsert_position (p, k)) (\<lambda>k. delete_position (p, k)) k leg (bk_positions B)).
           ps_quantity r \<noteq> 0 \<and> 0 < ps_entry r"
proof -
  have inv: "distinct (map row_key (bk_positions B))"
    "\<forall>r\<in>set (bk_positions B). ps_quantity r \<noteq> 0 \<and> 0 < ps_entry r"
    using assms(1) by (auto simp: book_inv_def)
  show "distinct (map row_key (set_leg (\<lambda>k. upsert_position (p, k)) (\<lambda>k. delete_position (p, k)) k leg (bk_positions B)))"
    using inv by (cases leg) (auto simp: set_leg_def upsert_position_keys delete_position_def distinct_map_filter)
  show "\<forall>r\<in>set (set_leg (\<lambda>k. upsert_position (p, k)) (\<lambda>k. delete_position (p, k)) k leg (bk_positions B)).
           ps_quantity r \<noteq> 0 \<and> 0 < ps_entry r"
  proof (cases leg)
    case None
    then show ?thesis using inv by (simp add: set_leg_def delete_position_def)
  next
    case (Some v)
    obtain q e t where v: "v = (q, e, t)" by (cases v)
    then show ?thesis
      using Some inv assms(2) upsert_position_rows[of _ "(p, k)" q e t "bk_positions B"]
      by (fastforce simp: set_leg_def position_checks_def)
  qed
qed

lemma apply_fill_rows_inv [inv_intros]:
  assumes "book_inv B" "apply_fill_rows p f mt B = Inr B'"
  shows "book_inv B'"
  using assms(2)
proof (cases rule: apply_fill_rowsE)
  case (1 base)
  then show ?thesis
    using set_leg_rows_inv[OF assms(1) 1(3)] upsert_cash_locked[of "bk_cash B"] assms(1)
    by (simp add: book_inv_def)
qed

lemma apply_fill_rows_total:
  assumes "book_inv B" "valid_fill f" "fl_aware f" "portfolio_base B p = Some base"
  obtains B' where "apply_fill_rows p f mt B = Inr B'" "book_inv B'" "bk_portfolios B' = bk_portfolios B"
proof -
  have "position_checks (next_leg f (select_position (bk_positions B) (p, fl_venue f, fl_symbol f, mt)))"
    by (intro next_leg_checks[OF assms(2)]) (auto dest: leg_positive[OF assms(1)])
  then obtain B' where B': "apply_fill_rows p f mt B = Inr B'"
    using assms(3,4) by (auto simp: apply_fill_rows_def Let_def)
  then have "bk_portfolios B' = bk_portfolios B" by (auto elim: apply_fill_rowsE)
  with B' that apply_fill_rows_inv[OF assms(1) B'] show thesis by blast
qed

lemma rmap_ok: "(\<And>x. x \<in> set xs \<Longrightarrow> f x = Inr (g x)) \<Longrightarrow> rmap f xs = Inr (map g xs)"
  by (induction xs) auto

definition loaded_state :: "nat \<Rightarrow> string \<Rightarrow> book \<Rightarrow> portfolio_state" where
  "loaded_state p base B =
     make_state p (dsum (map cash_total (filter (\<lambda>c. cp_asset c = base) (map cash_of_row (cash_rows B p)))))
       (map position_of_row (position_rows B p)) (map cash_of_row (cash_rows B p))"

lemma load_total:
  assumes "book_inv B" "portfolio_base B p = Some base"
  shows "load p B = Inr (loaded_state p base B)"
proof -
  have "rmap (\<lambda>r. check_position (position_of_row r)) (position_rows B p) = Inr (map position_of_row (position_rows B p))"
    using assms(1) by (intro rmap_ok) (auto simp: check_position_def position_of_row_def position_rows_def book_inv_def)
  moreover have "rmap (\<lambda>r. check_cash_position (cash_of_row r)) (cash_rows B p) = Inr (map cash_of_row (cash_rows B p))"
    using assms(1) by (intro rmap_ok) (auto simp: check_cash_position_def cash_of_row_def cash_rows_def book_inv_def)
  ultimately show ?thesis using assms(2) by (simp add: load_def loaded_state_def)
qed

section \<open>Stored rows and replay\<close>

text \<open>Calls of \<open>apply_fill\<close> one after the other.\<close>

definition apply_fills :: "nat \<Rightarrow> (decimal fill \<times> market_type) list \<Rightarrow> book \<Rightarrow> book trading" where
  "apply_fills p fills B = rfold (\<lambda>(f, mt) B. rbind (apply_fill p f mt B) (\<lambda>(st, B'). Inr B')) fills B"

lemma apply_fills_Cons:
  assumes "book_inv B" "valid_fill f" "fl_aware f" "portfolio_base B p = Some base"
  obtains B' where "apply_fill_rows p f mt B = Inr B'" "book_inv B'" "portfolio_base B' p = Some base"
    "apply_fills p ((f, mt) # fills) B = apply_fills p fills B'"
proof -
  obtain B' where B': "apply_fill_rows p f mt B = Inr B'" "book_inv B'" "bk_portfolios B' = bk_portfolios B"
    using apply_fill_rows_total[OF assms] by blast
  then have base: "portfolio_base B' p = Some base" using assms(4) by (simp add: portfolio_base_def)
  then have "apply_fills p ((f, mt) # fills) B = apply_fills p fills B'"
    using B' load_total[OF B'(2) base] by (simp add: apply_fills_def apply_fill_def)
  with B' base that show thesis by blast
qed

text \<open>The fills the constructor accepts, with a time zone.\<close>

definition good_fills :: "(decimal fill \<times> market_type) list \<Rightarrow> bool" where
  "good_fills fills \<longleftrightarrow> list_all (\<lambda>(f, mt). valid_fill f \<and> fl_aware f) fills"

text \<open>The positions and the exact cash flows of replaying the fills, leg by leg.\<close>

fun replay_legs :: "(decimal fill \<times> market_type) list \<Rightarrow> held_dict \<Rightarrow> held_dict" where
  "replay_legs [] held = held"
| "replay_legs ((f, mt) # fms) held =
     (let key = (fl_venue f, fl_symbol f, mt)
      in replay_legs fms (set_leg AList.update AList.delete key (next_leg f (map_of held key)) held))"

fun replay_flows :: "(decimal fill \<times> market_type) list \<Rightarrow> held_dict \<Rightarrow> decimal list" where
  "replay_flows [] held = []"
| "replay_flows ((f, mt) # fms) held =
     (let key = (fl_venue f, fl_symbol f, mt)
      in leg_cash f mt (map_of held key)
           # replay_flows fms (set_leg AList.update AList.delete key (next_leg f (map_of held key)) held))"

lemma replay_steps:
  assumes "good_fills fms"
  shows "rfold replay_step fms (held, cash) = Inr (replay_legs fms held, foldl dadd cash (replay_flows fms held))"
  using assms
proof (induction fms arbitrary: held cash)
  case (Cons fm fms)
  obtain f mt where fm: "fm = (f, mt)" by (cases fm)
  have "replay_step (f, mt) (held, cash) = Inr
      (set_leg AList.update AList.delete (fl_venue f, fl_symbol f, mt) (next_leg f (map_of held (fl_venue f, fl_symbol f, mt))) held,
       dadd cash (leg_cash f mt (map_of held (fl_venue f, fl_symbol f, mt))))"
    using Cons.prems by (simp add: fm good_fills_def replay_step_def Let_def set_leg_def)
  then show ?case using Cons by (simp add: fm good_fills_def Let_def)
qed simp

text \<open>The exact sum of the free cash of a portfolio in one asset.\<close>

definition free_cash :: "nat \<Rightarrow> string \<Rightarrow> cash_row list \<Rightarrow> rat" where
  "free_cash p a rows = sum_list (map ca_free (filter (\<lambda>r. ca_portfolio r = p \<and> ca_asset r = a) rows))"

lemma free_cash_upsert: "free_cash p a (upsert_cash p v a x t rows) = free_cash p a rows + x"
  by (induction rows) (auto simp: free_cash_def)

lemma apply_fills_agree:
  assumes "good_fills fms" "book_inv B" "portfolio_base B p = Some base"
    and "(\<lambda>k. select_position (bk_positions B) (p, k)) = map_of held"
  shows "\<exists>B'. apply_fills p fms B = Inr B' \<and> book_inv B' \<and> portfolio_base B' p = Some base
    \<and> (\<lambda>k. select_position (bk_positions B') (p, k)) = map_of (replay_legs fms held)
    \<and> free_cash p base (bk_cash B') = free_cash p base (bk_cash B) + sum_list (replay_flows fms held)"
  using assms
proof (induction fms arbitrary: B held)
  case Nil
  then show ?case by (simp add: apply_fills_def)
next
  case (Cons fm fms)
  obtain f mt where fm: "fm = (f, mt)" by (cases fm)
  define k where "k = (fl_venue f, fl_symbol f, mt)"
  have f: "valid_fill f" "fl_aware f" "good_fills fms" using Cons.prems(1) by (auto simp: fm good_fills_def)
  obtain B1 where B1: "apply_fill_rows p f mt B = Inr B1" "book_inv B1" "portfolio_base B1 p = Some base"
    "apply_fills p ((f, mt) # fms) B = apply_fills p fms B1"
    using apply_fills_Cons[OF Cons.prems(2) f(1,2) Cons.prems(3)] by blast
  have sel: "select_position (bk_positions B) (p, k) = map_of held k"
    using Cons.prems(4) by (rule fun_cong)
  from B1(1) have pos: "bk_positions B1 = set_leg (\<lambda>k. upsert_position (p, k)) (\<lambda>k. delete_position (p, k)) k
      (next_leg f (map_of held k)) (bk_positions B)"
    and cash: "bk_cash B1 = upsert_cash p (fl_venue f) base (leg_cash f mt (map_of held k)) (fl_at f) (bk_cash B)"
    using Cons.prems(3) sel by (auto elim!: apply_fill_rowsE simp: k_def)
  have "(\<lambda>k. select_position (bk_positions B1) (p, k))
      = map_of (set_leg AList.update AList.delete k (next_leg f (map_of held k)) held)"
    unfolding pos by (rule rows_dict.agree_set[OF Cons.prems(4)])
  from Cons.IH[OF f(3) B1(2,3) this] show ?case
    unfolding fm B1(4) cash by (auto simp: Let_def k_def[symmetric] free_cash_upsert add.assoc)
qed

text \<open>Rows of one portfolio as a dictionary.\<close>

definition row_pair :: "position_row \<Rightarrow> leg_key \<times> (decimal \<times> decimal \<times> int)" where
  "row_pair r = ((ps_venue r, ps_symbol r, ps_market r), (ps_quantity r, ps_entry r, ps_at r))"

lemma map_of_row_pairs:
  "map_of (map row_pair (filter (\<lambda>r. ps_portfolio r = p) rows)) k = select_position rows (p, k)"
  by (induction rows) (auto simp: row_pair_def select_position_def row_key_def)

lemma distinct_row_pairs:
  assumes "distinct (map row_key rows)"
  shows "distinct (map fst (map row_pair (filter (\<lambda>r. ps_portfolio r = p) rows)))"
  using assms unfolding map_map distinct_map inj_on_def by (simp add: row_pair_def row_key_def)

lemma sorted_dict_unique:
  fixes xs ys :: "('a::linorder \<times> 'b) list"
  assumes "distinct (map fst xs)" "distinct (map fst ys)" "map_of xs = map_of ys" "sorted (map fst xs)" "sorted (map fst ys)"
  shows "xs = ys"
proof -
  have "set xs = set ys" using map_of_inject_set[OF assms(1,2)] assms(3) by blast
  moreover have "inj_on fst (set xs \<union> set ys)"
    using assms(1) calculation by (simp add: distinct_map)
  ultimately show ?thesis
    using assms by (intro map_sorted_distinct_set_unique[of fst]) auto
qed

lemma map_of_sort_key:
  fixes d :: "('a::linorder \<times> 'b) list"
  assumes "distinct (map fst d)"
  shows "map_of (sort_key fst d) = map_of d"
proof -
  have "distinct (map fst (sort_key fst d))"
    using assms by (metis distinct_map distinct_sort set_sort)
  then show ?thesis using map_of_inject_set[of "sort_key fst d" d] assms by simp
qed

lemma position_rows_dict:
  assumes "book_inv B" "distinct (map fst held)" "(\<lambda>k. select_position (bk_positions B) (p, k)) = map_of held"
  shows "map row_pair (position_rows B p) = sort_key fst held"
proof (rule sorted_dict_unique)
  let ?rows = "filter (\<lambda>r. ps_portfolio r = p) (bk_positions B)"
  have fst_pair: "fst \<circ> row_pair = (\<lambda>r. (ps_venue r, ps_symbol r, ps_market r))"
    by (auto simp: row_pair_def)
  have perm: "set (map row_pair (position_rows B p)) = set (map row_pair ?rows)"
    by (simp add: position_rows_def)
  have d: "distinct (map fst (map row_pair ?rows))"
    using assms(1) by (intro distinct_row_pairs) (simp add: book_inv_def)
  show dp: "distinct (map fst (map row_pair (position_rows B p)))"
    using d unfolding position_rows_def map_map fst_pair by (simp add: distinct_map)
  show "distinct (map fst (sort_key fst held))"
    using assms(2) by (metis distinct_map distinct_sort set_sort)
  have "map_of (map row_pair (position_rows B p)) = map_of (map row_pair ?rows)"
    using map_of_inject_set[OF dp d] perm by blast
  also have "\<dots> = map_of held" using assms(3) by (simp add: map_of_row_pairs fun_eq_iff)
  finally show "map_of (map row_pair (position_rows B p)) = map_of (sort_key fst held)"
    using map_of_sort_key[OF assms(2)] by simp
  show "sorted (map fst (map row_pair (position_rows B p)))"
    unfolding position_rows_def map_map fst_pair by (rule sorted_sort_key)
  show "sorted (map fst (sort_key fst held))" by (rule sorted_sort_key)
qed

lemma positions_of_dict:
  assumes "map row_pair (position_rows B p) = sort_key fst held"
  shows "map position_of_row (position_rows B p) = map held_position (sort_key fst held)"
proof -
  have "position_of_row = held_position \<circ> row_pair"
    by (auto simp: position_of_row_def held_position_def row_pair_def)
  then show ?thesis unfolding assms[symmetric] by simp
qed

lemma distinct_replay_legs: "distinct (map fst held) \<Longrightarrow> distinct (map fst (replay_legs fms held))"
  by (induction fms arbitrary: held)
    (auto simp: Let_def set_leg_def distinct_update distinct_delete split: option.splits)

lemma replay_legs_positions:
  assumes "book_inv B" "map row_pair (position_rows B p) = sort_key fst held"
  shows "rmap (\<lambda>kv. check_position (held_position kv)) (sort_key fst held) = Inr (map held_position (sort_key fst held))"
proof (rule rmap_ok)
  fix kv assume "kv \<in> set (sort_key fst held)"
  then obtain r where r: "r \<in> set (position_rows B p)" "kv = row_pair r"
    unfolding assms(2)[symmetric] by auto
  then have "0 < ps_entry r" using assms(1) by (simp add: book_inv_def position_rows_def)
  then show "check_position (held_position kv) = Inr (held_position kv)"
    by (simp add: r(2) check_position_def held_position_def row_pair_def)
qed

lemma no_rows_select:
  "\<forall>r\<in>set rows. ps_portfolio r \<noteq> p \<Longrightarrow> (\<lambda>k. select_position rows (p, k)) = map_of []"
  by (auto simp: select_position_def find_None_all row_key_def)

section \<open>Properties of the portfolio\<close>

text \<open>C23. The stored position rows are the replay of the fills: from a book with nothing held,
  applying any sequence of accepted fills succeeds, and the positions \<open>load\<close> then reads are exactly,
  and in the same order, the ones \<open>rebuild_from_fills\<close> computes from the same fills. The free base
  cash has moved by the exact sum of the same cash flows the replay adds up.\<close>

theorem stored_positions_are_replay:
  assumes "good_fills fms" "book_inv B" "portfolio_base B p = Some base" "\<forall>r\<in>set (bk_positions B). ps_portfolio r \<noteq> p"
  shows "\<exists>B' st rs. apply_fills p fms B = Inr B' \<and> load p B' = Inr st \<and> rebuild_from_fills p fms B' = Inr rs
    \<and> st_positions st = st_positions rs
    \<and> st_cash rs = dsum (replay_flows fms [])
    \<and> free_cash p base (bk_cash B') = free_cash p base (bk_cash B) + sum_list (replay_flows fms [])"
proof -
  obtain B' where B': "apply_fills p fms B = Inr B'" "book_inv B'" "portfolio_base B' p = Some base"
    "(\<lambda>k. select_position (bk_positions B') (p, k)) = map_of (replay_legs fms [])"
    "free_cash p base (bk_cash B') = free_cash p base (bk_cash B) + sum_list (replay_flows fms [])"
    using apply_fills_agree[OF assms(1-3) no_rows_select[OF assms(4)]] by blast
  have rows: "map row_pair (position_rows B' p) = sort_key fst (replay_legs fms [])"
    using B'(2,4) by (intro position_rows_dict) (auto intro: distinct_replay_legs)
  have "rebuild_from_fills p fms B' = Inr (make_state p (dsum (replay_flows fms []))
      (map held_position (sort_key fst (replay_legs fms []))) [])"
    using B'(3) replay_steps[OF assms(1), of "[]" 0] replay_legs_positions[OF B'(2) rows]
    by (simp add: rebuild_from_fills_def dsum_def)
  with B' load_total[OF B'(2,3)] positions_of_dict[OF rows] show ?thesis
    by (auto simp: loaded_state_def make_state_def Let_def)
qed

definition usdt_book :: book where
  "usdt_book = \<lparr>bk_portfolios = [\<lparr>pf_id = 7, pf_user = 1, pf_name = ''carry'', pf_base = ''USDT''\<rparr>],
     bk_positions = [], bk_cash = [\<lparr>ca_portfolio = 7, ca_venue = ''paper'', ca_asset = ''USDT'',
       ca_free = 1000, ca_locked = 0, ca_at = 0\<rparr>],
     bk_navs = [], bk_funding = [], bk_next = 8, bk_now = 0\<rparr>"

definition paper_fill :: "side \<Rightarrow> decimal \<Rightarrow> decimal \<Rightarrow> int \<Rightarrow> decimal fill" where
  "paper_fill s q price t = \<lparr>fl_intent_id = ''k'', fl_venue = ''paper'', fl_symbol = ''ETH'', fl_side = s,
     fl_quantity = q, fl_price = price, fl_fee = 1, fl_at = t, fl_aware = True, fl_external_id = None, fl_raw = []\<rparr>"

definition flip_fills :: "(decimal fill \<times> market_type) list" where
  "flip_fills = [(paper_fill Buy 2 100 1, Spot), (paper_fill Buy 2 130 2, Spot), (paper_fill Sell 5 120 3, Spot)]"

lemma usdt_book_ok:
  "book_inv usdt_book" "portfolio_base usdt_book 7 = Some ''USDT''" "\<forall>r\<in>set (bk_positions usdt_book). ps_portfolio r \<noteq> 7"
  "good_fills flip_fills"
  by (simp_all add: usdt_book_def book_inv_def portfolio_base_def good_fills_def flip_fills_def paper_fill_def valid_fill_def)

lemma stored_positions_are_replay_witness:
  "\<exists>B' st rs. apply_fills 7 flip_fills usdt_book = Inr B' \<and> load 7 B' = Inr st
    \<and> rebuild_from_fills 7 flip_fills B' = Inr rs \<and> st_positions st = st_positions rs"
  using stored_positions_are_replay[OF usdt_book_ok(4,1,2,3)] by blast

text \<open>What each fill in the window realises against the position it lands on in the replay.\<close>

definition entry_of :: "(decimal \<times> decimal \<times> int) option \<Rightarrow> decimal \<times> decimal" where
  "entry_of held = (case held of Some (q, e, t) \<Rightarrow> (q, e) | None \<Rightarrow> (0, 0))"

fun realised_legs :: "int \<Rightarrow> int \<Rightarrow> (decimal fill \<times> market_type) list \<Rightarrow> held_dict \<Rightarrow> decimal list" where
  "realised_legs since until [] held = []"
| "realised_legs since until ((f, mt) # fms) held =
     (let key = (fl_venue f, fl_symbol f, mt); (q, e) = entry_of (map_of held key)
      in (if since \<le> fl_at f \<and> fl_at f < until
          then [realised_leg q e (fl_side f) (fl_quantity f) (fl_price f) (fl_fee f)] else [])
         @ realised_legs since until fms (set_leg AList.update AList.delete key (next_leg f (map_of held key)) held))"

definition drop_time :: "decimal \<times> decimal \<times> int \<Rightarrow> decimal \<times> decimal" where
  "drop_time = (\<lambda>(q, e, t). (q, e))"

definition named_fills :: "(decimal fill \<times> market_type) list \<Rightarrow> bool" where
  "named_fills fms \<longleftrightarrow> list_all (\<lambda>(f, mt). fl_venue f \<noteq> [] \<and> fl_symbol f \<noteq> []) fms"

lemma dict_get_entry:
  "map_of legs = map_option drop_time \<circ> map_of held \<Longrightarrow> dict_get legs k (0, 0) = entry_of (map_of held k)"
  by (auto simp: dict_get_def entry_of_def drop_time_def split: option.splits)

lemma next_position_leg:
  assumes "entry_of held = (q, e)" "next_position q e (fl_side f) (fl_quantity f) (fl_price f) = (q', e')"
  shows "map_option drop_time (next_leg f held) = (if q' = 0 then None else Some (q', e'))"
  using assms by (auto simp: next_leg_def entry_of_def drop_time_def split: option.splits)

lemma pnl_step_leg:
  assumes "map_of legs = map_option drop_time \<circ> map_of held" "fl_venue f \<noteq> []" "fl_symbol f \<noteq> []"
    and "k = (fl_venue f, fl_symbol f, mt)" "entry_of (map_of held k) = (q, e)"
  shows "pnl_step since until (f, mt) (legs, r) = Inr
    (set_leg AList.update AList.delete k (map_option drop_time (next_leg f (map_of held k))) legs,
     if since \<le> fl_at f \<and> fl_at f < until
     then dadd r (realised_leg q e (fl_side f) (fl_quantity f) (fl_price f) (fl_fee f)) else r)"
proof -
  obtain q' e' where n: "next_position q e (fl_side f) (fl_quantity f) (fl_price f) = (q', e')" by fastforce
  have g: "dict_get legs (fl_venue f, fl_symbol f, mt) (0, 0) = (q, e)"
    using dict_get_entry[OF assms(1), of k] assms(4,5) by simp
  show ?thesis
    using assms(2-4) unfolding pnl_step_def Let_def prod.case g n next_position_leg[OF assms(5) n] set_leg_def
    by simp
qed

lemma pnl_agree:
  assumes "named_fills fms" "map_of legs = map_option drop_time \<circ> map_of held"
  shows "\<exists>legs'. rfold (pnl_step since until) fms (legs, r) = Inr (legs', foldl dadd r (realised_legs since until fms held))
    \<and> map_of legs' = map_option drop_time \<circ> map_of (replay_legs fms held)"
  using assms
proof (induction fms arbitrary: legs held r)
  case (Cons fm fms)
  obtain f mt where fm: "fm = (f, mt)" by (cases fm)
  define k where "k = (fl_venue f, fl_symbol f, mt)"
  obtain q e where qe: "entry_of (map_of held k) = (q, e)" by fastforce
  have names: "fl_venue f \<noteq> []" "fl_symbol f \<noteq> []" "named_fills fms"
    using Cons.prems(1) by (auto simp: named_fills_def fm)
  have agree: "map_of (set_leg AList.update AList.delete k (map_option drop_time (next_leg f (map_of held k))) legs)
      = map_option drop_time \<circ> map_of (set_leg AList.update AList.delete k (next_leg f (map_of held k)) held)"
    unfolding dict_store.get_set_fun Cons.prems(2) by (auto simp: fun_eq_iff)
  show ?case
    using Cons.IH[OF names(3) agree] pnl_step_leg[OF Cons.prems(2) names(1,2) k_def qe]
    by (simp add: fm Let_def k_def[symmetric] qe)
qed simp

lemma stored_legs_dict:
  assumes "map row_pair (position_rows B p) = sort_key fst held" "distinct (map fst held)"
  shows "map_of (stored_legs B p) = map_option drop_time \<circ> map_of held"
proof -
  have "stored_legs B p = map (\<lambda>(k, v). (k, drop_time v)) (map row_pair (position_rows B p))"
    by (simp add: stored_legs_def row_pair_def drop_time_def)
  then show ?thesis
    unfolding assms(1) using map_of_sort_key[OF assms(2)] by (simp add: map_of_map fun_eq_iff)
qed

lemma dict_eq_map_of: "map_of d = map_of e \<Longrightarrow> dict_eq d e"
  by (simp add: dict_eq_def list_all_iff)

text \<open>C24. Realised profit and loss is derivable whenever the book was moved by the ledger's fills in
  the order of their own timestamps: it is then the sum, over the fills in the window, of what each
  realises against the position it lands on.\<close>

theorem realised_pnl_in_order:
  assumes "good_fills (ledger_fills L p)" "named_fills (ledger_fills L p)"
    and "book_inv B" "portfolio_base B p = Some base" "\<forall>r\<in>set (bk_positions B). ps_portfolio r \<noteq> p"
    and "apply_fills p (ledger_fills L p) B = Inr B'" "since \<le> until"
  shows "realised_pnl p since until (L, B') = Inr (dsum (realised_legs since until (ledger_fills L p) []))"
proof -
  let ?fms = "ledger_fills L p"
  have B': "book_inv B'" "portfolio_base B' p = Some base"
    "(\<lambda>k. select_position (bk_positions B') (p, k)) = map_of (replay_legs ?fms [])"
    using apply_fills_agree[OF assms(1,3,4) no_rows_select[OF assms(5)]] assms(6) by auto
  have d: "distinct (map fst (replay_legs ?fms []))" by (intro distinct_replay_legs) simp
  obtain legs where legs: "rfold (pnl_step since until) ?fms ([], 0)
      = Inr (legs, foldl dadd 0 (realised_legs since until ?fms []))"
    "map_of legs = map_option drop_time \<circ> map_of (replay_legs ?fms [])"
    using pnl_agree[OF assms(2), of "[]" "[]" since until 0] by auto
  have "dict_eq (stored_legs B' p) legs"
    using stored_legs_dict[OF position_rows_dict[OF B'(1) d B'(3)] d] legs(2) by (intro dict_eq_map_of) simp
  then show ?thesis
    using assms(7) B'(2) legs(1) by (simp add: realised_pnl_def dsum_def)
qed

definition spot_intent :: "string \<Rightarrow> side \<Rightarrow> decimal \<Rightarrow> decimal \<Rightarrow> intent" where
  "spot_intent key s q price = \<lparr>in_venue = ''paper'', in_symbol = ''ETH'', in_side = s, in_market_type = Spot,
     in_quantity = q, in_reference_price = price, in_kind = Market, in_limit_price = None, in_stop_price = None,
     in_take_profit_price = None, in_expires_at = None, in_reduce_only = False, in_provenance = [], in_key = key\<rparr>"

text \<open>A ledger of a round trip, reduced to what is read from it.\<close>

definition filled_order :: "nat \<Rightarrow> string \<Rightarrow> decimal fill \<Rightarrow> trade_order" where
  "filled_order i key f = \<lparr>od_id = i, od_portfolio = 7,
     od_intent = spot_intent key (fl_side f) (fl_quantity f) (fl_price f), od_status = Filled, od_external_id = None,
     od_filled = fl_quantity f, od_average = Some (fl_price f), od_fee = fl_fee f, od_created = 0\<rparr>"

definition fill_event :: "nat \<Rightarrow> decimal fill \<Rightarrow> order_event" where
  "fill_event i f = \<lparr>ev_order = i, ev_status = Filled, ev_at = fl_at f, ev_external_id = None, ev_payload = Fill_Payload f\<rparr>"

definition round_trip_ledger :: ledger where
  "round_trip_ledger = \<lparr>ld_orders = [filled_order 0 ''a'' (paper_fill Buy 2 100 1), filled_order 1 ''b'' (paper_fill Sell 1 130 2)],
     ld_events = [fill_event 0 (paper_fill Buy 2 100 1), fill_event 1 (paper_fill Sell 1 130 2)], ld_next = 2, ld_now = 2\<rparr>"

lemma round_trip_fills:
  "ledger_fills round_trip_ledger 7 = [(paper_fill Buy 2 100 1, Spot), (paper_fill Sell 1 130 2, Spot)]"
  by (simp add: ledger_fills_def round_trip_ledger_def order_fill_def order_by_id_def filled_order_def
      fill_event_def spot_intent_def List.map_filter_def paper_fill_def)

lemma realised_pnl_in_order_witness:
  "\<exists>B'. apply_fills 7 (ledger_fills round_trip_ledger 7) usdt_book = Inr B'
     \<and> realised_pnl 7 0 5 (round_trip_ledger, B') = Inr 29"
proof -
  note f = round_trip_fills
  have ok: "good_fills (ledger_fills round_trip_ledger 7)" "named_fills (ledger_fills round_trip_ledger 7)"
    unfolding f by (simp_all add: good_fills_def named_fills_def paper_fill_def valid_fill_def)
  obtain B' where B': "apply_fills 7 (ledger_fills round_trip_ledger 7) usdt_book = Inr B'"
    using apply_fills_agree[OF ok(1) usdt_book_ok(1,2) no_rows_select[OF usdt_book_ok(3)]] by blast
  have "dsum (realised_legs 0 5 (ledger_fills round_trip_ledger 7) []) = 29"
    unfolding f by code_simp
  then show ?thesis
    using realised_pnl_in_order[OF ok usdt_book_ok(1-3) B', of 0 5] B' by auto
qed

lemma late_legs:
  "replay_legs [(paper_fill Buy 1 100 1, Spot), (paper_fill Sell 1 120 3, Spot), (paper_fill Buy 1 110 2, Spot)] []
     = [((''paper'', ''ETH'', Spot), (1, 110, 2))]"
  "replay_legs [(paper_fill Buy 1 100 1, Spot), (paper_fill Buy 1 110 2, Spot), (paper_fill Sell 1 120 3, Spot)] []
     = [((''paper'', ''ETH'', Spot), (1, 105, 3))]"
  by code_simp+

text \<open>The ledger after the three orders, with the buy at 110 reported last.\<close>

definition late_ledger :: ledger where
  "late_ledger = \<lparr>ld_orders = [filled_order 0 ''a'' (paper_fill Buy 1 100 1), filled_order 1 ''b'' (paper_fill Sell 1 120 3),
       filled_order 2 ''c'' (paper_fill Buy 1 110 2)],
     ld_events = [fill_event 0 (paper_fill Buy 1 100 1), fill_event 1 (paper_fill Sell 1 120 3),
       fill_event 2 (paper_fill Buy 1 110 2)], ld_next = 3, ld_now = 4\<rparr>"

lemma late_ledger_fills:
  "ledger_fills late_ledger 7
     = [(paper_fill Buy 1 100 1, Spot), (paper_fill Buy 1 110 2, Spot), (paper_fill Sell 1 120 3, Spot)]"
  by (simp add: ledger_fills_def late_ledger_def order_fill_def order_by_id_def filled_order_def
      fill_event_def spot_intent_def List.map_filter_def paper_fill_def)

text \<open>A fill the venue reports late breaks the agreement: the rows are moved in the order the fills
  arrive and realised profit replays them by their own time. Bought at 100 and sold at 120, with a
  buy at 110 between the two reported last, the position row holds one at 110 while the replay
  holds one at 105, and realised profit is refused, although no fill is missing.\<close>

theorem late_fill_unaccounted:
  "\<exists>B. apply_fills 7 [(paper_fill Buy 1 100 1, Spot), (paper_fill Sell 1 120 3, Spot), (paper_fill Buy 1 110 2, Spot)]
        usdt_book = Inr B
     \<and> stored_legs B 7 = [((''paper'', ''ETH'', Spot), (1, 110))]
     \<and> realised_pnl 7 0 10 (late_ledger, B) = Inl Unaccounted_Close"
proof -
  let ?arrived = "[(paper_fill Buy 1 100 1, Spot), (paper_fill Sell 1 120 3, Spot), (paper_fill Buy 1 110 2, Spot)]"
  have good: "good_fills ?arrived" by (simp add: good_fills_def paper_fill_def valid_fill_def)
  obtain B where B: "apply_fills 7 ?arrived usdt_book = Inr B" "book_inv B" "portfolio_base B 7 = Some ''USDT''"
    "(\<lambda>k. select_position (bk_positions B) (7, k)) = map_of (replay_legs ?arrived [])"
    using apply_fills_agree[OF good usdt_book_ok(1,2) no_rows_select[OF usdt_book_ok(3)]] by blast
  have rows: "map row_pair (position_rows B 7) = [((''paper'', ''ETH'', Spot), (1, 110, 2))]"
    using position_rows_dict[OF B(2) _ B(4)[unfolded late_legs]] by simp
  have "stored_legs B 7 = map (\<lambda>(k, v). (k, drop_time v)) (map row_pair (position_rows B 7))"
    by (simp add: stored_legs_def row_pair_def drop_time_def)
  then have stored: "stored_legs B 7 = [((''paper'', ''ETH'', Spot), (1, 110))]"
    by (simp only: rows) (simp add: drop_time_def)
  have "named_fills (ledger_fills late_ledger 7)" by (simp add: late_ledger_fills named_fills_def paper_fill_def)
  then obtain legs r where legs: "rfold (pnl_step 0 10) (ledger_fills late_ledger 7) ([], 0) = Inr (legs, r)"
    "map_of legs = map_option drop_time \<circ> map_of (replay_legs (ledger_fills late_ledger 7) [])"
    using pnl_agree[of "ledger_fills late_ledger 7" "[]" "[]" 0 10 0] by auto
  have "map_of legs (''paper'', ''ETH'', Spot) = Some (1, 105)"
    unfolding legs(2) late_ledger_fills late_legs by (simp add: drop_time_def)
  then have "\<not> dict_eq (stored_legs B 7) legs" by (simp add: dict_eq_def stored)
  then have "realised_pnl 7 0 10 (late_ledger, B) = Inl Unaccounted_Close"
    using B(3) legs(1) by (simp add: realised_pnl_def)
  with B(1) stored show ?thesis by blast
qed

section \<open>Funding\<close>

lemma funding_amount_sign:
  assumes "0 < mark"
  shows "sgn (funding_amount q mark rate) = - sgn q * sgn rate"
  using assms by (simp add: funding_amount_def dmul_def dneg_def sgn_mult sgn_minus)

text \<open>The row a settlement would write.\<close>

definition funding_entry :: "book \<Rightarrow> nat \<Rightarrow> string \<Rightarrow> string \<Rightarrow> int \<Rightarrow> decimal \<Rightarrow> decimal \<Rightarrow> funding_row" where
  "funding_entry B p v s t rate mark =
     (let q = map_option fst (select_position (bk_positions B) (p, v, s, Perpetual))
      in \<lparr>fu_portfolio = p, fu_venue = v, fu_symbol = s, fu_time = t, fu_rate = rate, fu_quantity = q,
          fu_mark = (if q = None then None else Some mark), fu_amount = map_option (\<lambda>q. funding_amount q mark rate) q\<rparr>)"

lemma funding_entry_checks:
  assumes "book_inv B" "0 < mark" "v \<noteq> []" "s \<noteq> []"
  shows "funding_checks (funding_entry B p v s t rate mark)"
proof (cases "select_position (bk_positions B) (p, v, s, Perpetual)")
  case (Some x)
  obtain q e t' where x: "x = (q, e, t')" by (cases x)
  have "q \<noteq> 0" using leg_positive(1)[OF assms(1) Some[unfolded x]] .
  then show ?thesis
    using Some assms funding_amount_sign[OF assms(2), of q rate] by (simp add: x funding_checks_def funding_entry_def)
qed (use assms in \<open>simp add: funding_checks_def funding_entry_def\<close>)

lemma strip_Nil [simp]: "strip [] = []"
  by (simp add: strip_def)

definition outcome_of :: "funding_row \<Rightarrow> funding_outcome" where
  "outcome_of r = (if fu_amount r = None then No_Position else Accrued)"

definition accrual_of :: "funding_outcome \<Rightarrow> funding_row \<Rightarrow> funding_accrual" where
  "accrual_of out r = \<lparr>fa_portfolio = fu_portfolio r, fa_venue = fu_venue r, fa_symbol = fu_symbol r, fa_time = fu_time r,
     fa_rate = fu_rate r, fa_outcome = out, fa_quantity = fu_quantity r, fa_mark = fu_mark r, fa_amount = fu_amount r\<rparr>"

text \<open>What \<open>apply_funding\<close> does when its arguments are usable.\<close>

lemma apply_funding_eq:
  assumes "book_inv B" "strip v \<noteq> []" "strip s \<noteq> []" "0 < mark" "portfolio_base B p = Some base"
  shows "apply_funding p v s t True (Fin rate) (Fin mark) B =
    (let row = funding_entry B p v s t rate mark in
     case select_funding (bk_funding B) (p, v, s, t) of
       Some settled \<Rightarrow> Inr (accrual_of Already_Settled settled, B)
     | None \<Rightarrow> Inr (accrual_of (outcome_of row) row,
         B\<lparr>bk_funding := bk_funding B @ [row],
           bk_cash := (case fu_amount row of None \<Rightarrow> bk_cash B | Some c \<Rightarrow> upsert_cash p v base c t (bk_cash B))\<rparr>))"
proof -
  define row where "row = funding_entry B p v s t rate mark"
  have ne: "v \<noteq> []" "s \<noteq> []" using assms(2,3) by auto
  have ck: "funding_checks row" unfolding row_def using assms ne by (intro funding_entry_checks) auto
  have row: "row = \<lparr>fu_portfolio = p, fu_venue = v, fu_symbol = s, fu_time = t, fu_rate = rate,
      fu_quantity = map_option fst (select_position (bk_positions B) (p, v, s, Perpetual)),
      fu_mark = (if map_option fst (select_position (bk_positions B) (p, v, s, Perpetual)) = None then None else Some mark),
      fu_amount = map_option (\<lambda>q. funding_amount q mark rate) (map_option fst (select_position (bk_positions B) (p, v, s, Perpetual)))\<rparr>"
    by (simp add: row_def funding_entry_def Let_def)
  have key: "funding_key row = (p, v, s, t)" by (simp add: row funding_key_def)
  have settled: "fu_portfolio r = p" "fu_venue r = v" "fu_symbol r = s" "fu_time r = t"
    if "select_funding (bk_funding B) (p, v, s, t) = Some r" for r
    using that by (auto simp: select_funding_def funding_key_def dest: find_Some_mem)
  have m: "\<not> mark \<le> 0" using assms(4) by simp
  show ?thesis
  proof (cases "select_funding (bk_funding B) (p, v, s, t)")
    case (Some r)
    then show ?thesis
      using assms(2,3,5) m ck key settled[OF Some]
      unfolding apply_funding_def Let_def is_finite.simps finite_part.simps row[symmetric]
      by (simp add: row_def[symmetric] check_accrual_def accrual_of_def)
  next
    case None
    then show ?thesis
      using assms(2,3,5) m ck key
      unfolding apply_funding_def Let_def is_finite.simps finite_part.simps row[symmetric]
      by (simp add: row_def[symmetric] check_accrual_def accrual_of_def outcome_of_def) (simp add: row)
  qed
qed

lemma apply_fundingE:
  assumes "apply_funding p v s t aware xr xm B = Inr (a, B')" "book_inv B"
  obtains base rate mark where "strip v \<noteq> []" "strip s \<noteq> []" "aware" "xr = Fin rate" "xm = Fin mark" "0 < mark"
    "portfolio_base B p = Some base"
proof -
  have "strip v \<noteq> [] \<and> strip s \<noteq> []" "aware" "is_finite xr" "is_finite xm" "0 < finite_part xm"
    "\<exists>base. portfolio_base B p = Some base"
    using assms(1) unfolding apply_funding_def Let_def
    by (auto simp: result_simps not_le split: option.splits)
  then show thesis using that by (cases xr; cases xm) auto
qed

section \<open>Runs of the book\<close>

inductive book_step :: "book \<Rightarrow> book \<Rightarrow> bool" where
  Fill: "valid_fill f \<Longrightarrow> apply_fill p f mt B = Inr (st, B') \<Longrightarrow> book_step B B'"
| Funding: "apply_funding p v s t aware xr xm B = Inr (a, B') \<Longrightarrow> book_step B B'"
| Snapshot: "snapshot_nav p marks B = Inr (nav, B') \<Longrightarrow> book_step B B'"
| Create: "create_portfolio u n b oc cv B = Inr (st, B') \<Longrightarrow> book_step B B'"
| Clock: "book_step B (B\<lparr>bk_now := now\<rparr>)"

abbreviation book_run :: "book \<Rightarrow> book \<Rightarrow> bool" where
  "book_run \<equiv> book_step\<^sup>*\<^sup>*"

lemma apply_fill_rows_of: "apply_fill p f mt B = Inr (st, B') \<Longrightarrow> apply_fill_rows p f mt B = Inr B'"
  by (auto simp: apply_fill_def result_simps)

lemma snapshotE:
  assumes "snapshot_nav p marks B = Inr (nav, B')"
  obtains row where "B' = B\<lparr>bk_navs := bk_navs B @ [row]\<rparr>"
  using assms by (auto simp: snapshot_nav_def result_simps Let_def)

lemma createE:
  assumes "create_portfolio u n b oc cv B = Inr (st, B')"
  obtains user cash where "u = Some user" "B' = B\<lparr>bk_portfolios := bk_portfolios B @ [\<lparr>pf_id = bk_next B, pf_user = user, pf_name = n, pf_base = b\<rparr>],
      bk_cash := bk_cash B @ [\<lparr>ca_portfolio = bk_next B, ca_venue = cv, ca_asset = b, ca_free = cash, ca_locked = 0, ca_at = bk_now B\<rparr>],
      bk_next := Suc (bk_next B)\<rparr>"
  using assms unfolding create_portfolio_def Let_def
  by (auto simp: result_simps split: option.splits)

lemma funding_step:
  assumes "apply_funding p v s t aware xr xm B = Inr (a, B')" "book_inv B"
  shows "book_inv B' \<and> (\<exists>rows. bk_funding B' = bk_funding B @ rows) \<and> bk_portfolios B' = bk_portfolios B"
proof -
  obtain base rate mark where args: "strip v \<noteq> []" "strip s \<noteq> []" "aware" "xr = Fin rate" "xm = Fin mark" "0 < mark"
    "portfolio_base B p = Some base"
    using apply_fundingE[OF assms] by blast
  define row where "row = funding_entry B p v s t rate mark"
  have ck: "funding_checks row" unfolding row_def using args by (intro funding_entry_checks[OF assms(2)]) auto
  have key: "funding_key row = (p, v, s, t)" by (simp add: row_def funding_entry_def funding_key_def Let_def)
  show ?thesis
  proof (cases "select_funding (bk_funding B) (p, v, s, t)")
    case (Some r)
    then show ?thesis using assms args by (auto simp: apply_funding_eq)
  next
    case None
    then have "(p, v, s, t) \<notin> funding_key ` set (bk_funding B)"
      by (auto simp: select_funding_def find_None_all)
    then show ?thesis
      using None assms args ck key upsert_cash_locked[of "bk_cash B"]
      by (auto simp: apply_funding_eq Let_def row_def[symmetric] book_inv_def split: option.splits)
  qed
qed

lemma book_step_inv:
  assumes "book_step B B'" "book_inv B"
  shows "book_inv B' \<and> (\<exists>rows. bk_funding B' = bk_funding B @ rows)
    \<and> (\<forall>p b. portfolio_base B p = Some b \<longrightarrow> portfolio_base B' p = Some b)"
  using assms(1)
proof (cases rule: book_step.cases)
  case (Fill f p mt st)
  from apply_fill_rows_of[OF this(2)] show ?thesis
    using apply_fill_rows_inv[OF assms(2)] by (auto elim!: apply_fill_rowsE simp: portfolio_base_def)
next
  case (Funding p v s t aware xr xm a)
  from funding_step[OF this assms(2)] show ?thesis by (auto simp: portfolio_base_def)
next
  case (Snapshot p marks nav)
  then show ?thesis using assms(2) by (auto elim!: snapshotE simp: book_inv_def portfolio_base_def)
next
  case (Create u n b oc cv st)
  then show ?thesis
    using assms(2) by (auto elim!: createE simp: book_inv_def portfolio_base_def find_append split: option.splits)
next
  case (Clock now)
  then show ?thesis using assms(2) by (auto simp: book_inv_def portfolio_base_def)
qed

lemma book_run_inv:
  assumes "book_run B B'" "book_inv B"
  shows "book_inv B' \<and> (\<exists>rows. bk_funding B' = bk_funding B @ rows)
    \<and> (\<forall>p b. portfolio_base B p = Some b \<longrightarrow> portfolio_base B' p = Some b)"
  using assms(1)
proof (induction rule: rtranclp_induct)
  case (step C D)
  with book_step_inv[of C D] show ?case by fastforce
qed (use assms(2) in auto)

text \<open>C25. A settlement is applied exactly once: once \<open>apply_funding\<close> has answered for a portfolio,
  market and funding time, then whatever was committed since, settling it again, at whatever rate
  and mark, changes nothing and returns the values that were stored.\<close>

theorem funding_applies_once:
  assumes "book_inv B" "apply_funding p v s t aware xr xm B = Inr (a, B1)" "book_run B1 B2" "0 < mark"
  shows "\<exists>a'. apply_funding p v s t True (Fin rate) (Fin mark) B2 = Inr (a', B2) \<and> fa_outcome a' = Already_Settled
    \<and> fa_rate a' = fa_rate a \<and> fa_quantity a' = fa_quantity a \<and> fa_mark a' = fa_mark a \<and> fa_amount a' = fa_amount a"
proof -
  obtain base r0 m0 where args: "strip v \<noteq> []" "strip s \<noteq> []" "aware" "xr = Fin r0" "xm = Fin m0" "0 < m0"
    "portfolio_base B p = Some base"
    using apply_fundingE[OF assms(2,1)] by blast
  define row where "row = funding_entry B p v s t r0 m0"
  have key: "funding_key row = (p, v, s, t)" by (simp add: row_def funding_entry_def funding_key_def Let_def)
  have inv1: "book_inv B1" "bk_portfolios B1 = bk_portfolios B" using funding_step[OF assms(2,1)] by auto
  obtain settled out where st: "select_funding (bk_funding B1) (p, v, s, t) = Some settled" "a = accrual_of out settled"
  proof (cases "select_funding (bk_funding B) (p, v, s, t)")
    case (Some r)
    then show thesis using assms(1,2) args that[of r Already_Settled] by (auto simp: apply_funding_eq)
  next
    case None
    then have "bk_funding B1 = bk_funding B @ [row]" "a = accrual_of (outcome_of row) row"
      using assms(1,2) args by (auto simp: apply_funding_eq Let_def row_def[symmetric] split: option.splits)
    with None key show thesis using that[of row "outcome_of row"] by (simp add: select_funding_def find_append)
  qed
  have run: "book_inv B2" "\<exists>rows. bk_funding B2 = bk_funding B1 @ rows" "portfolio_base B2 p = Some base"
    using book_run_inv[OF assms(3) inv1(1)] args(7) inv1(2) by (auto simp: portfolio_base_def)
  have "select_funding (bk_funding B2) (p, v, s, t) = Some settled"
    using run(2) st(1) by (auto simp: select_funding_def find_append)
  then show ?thesis
    using args(1,2) assms(4) run(1,3) st(2) by (simp add: apply_funding_eq accrual_of_def Let_def)
qed

text \<open>A book that is short two perpetuals.\<close>

definition short_book :: book where
  "short_book = usdt_book\<lparr>bk_positions := [\<lparr>ps_portfolio = 7, ps_venue = ''paper'', ps_symbol = ''BTC'',
     ps_market = Perpetual, ps_quantity = -2, ps_entry = 50000, ps_at = 1\<rparr>]\<rparr>"

lemma short_book_ok: "book_inv short_book" "portfolio_base short_book 7 = Some ''USDT''"
  by (simp_all add: short_book_def usdt_book_def book_inv_def portfolio_base_def)

lemma paper_names: "strip ''paper'' = ''paper''" "strip ''BTC'' = ''BTC''"
  by (rule strip_no_space, simp add: is_space_def)+

lemma funding_applies_once_witness:
  "\<exists>a B1 a'. apply_funding 7 ''paper'' ''BTC'' 8 True (Fin (1 / 10000)) (Fin 50000) short_book = Inr (a, B1)
     \<and> apply_funding 7 ''paper'' ''BTC'' 8 True (Fin 3) (Fin 1) B1 = Inr (a', B1) \<and> fa_amount a' = fa_amount a"
proof -
  obtain a B1 where s: "apply_funding 7 ''paper'' ''BTC'' 8 True (Fin (1 / 10000)) (Fin 50000) short_book = Inr (a, B1)"
    using apply_funding_eq[OF short_book_ok(1) _ _ _ short_book_ok(2), of "''paper''" "''BTC''" 50000 8 "1 / 10000"]
    by (auto simp: paper_names Let_def split: option.splits)
  from funding_applies_once[OF short_book_ok(1) s rtranclp.rtrancl_refl, of 1 3] s show ?thesis by auto
qed

text \<open>The sign of a first settlement: with a positive rate a long pays and a short receives, and the
  reverse with a negative one; the free base cash moves by exactly the amount recorded and no
  position changes. With no perpetual held nothing is accrued, which is recorded as absent, not as
  zero, and no cash moves; a spot holding of the same symbol is not looked at.\<close>

theorem funding_follows_convention:
  assumes "book_inv B" "strip v \<noteq> []" "strip s \<noteq> []" "0 < mark" "portfolio_base B p = Some base"
    and "select_funding (bk_funding B) (p, v, s, t) = None"
  shows "\<exists>a B'. apply_funding p v s t True (Fin rate) (Fin mark) B = Inr (a, B') \<and> bk_positions B' = bk_positions B
    \<and> (case select_position (bk_positions B) (p, v, s, Perpetual) of
         None \<Rightarrow> fa_outcome a = No_Position \<and> fa_amount a = None \<and> bk_cash B' = bk_cash B
       | Some (q, e, at_time) \<Rightarrow> fa_outcome a = Accrued
           \<and> (\<exists>x. fa_amount a = Some x \<and> sgn x = - sgn q * sgn rate
                \<and> free_cash p base (bk_cash B') = free_cash p base (bk_cash B) + x))"
proof -
  define row where "row = funding_entry B p v s t rate mark"
  have eq: "apply_funding p v s t True (Fin rate) (Fin mark) B = Inr (accrual_of (outcome_of row) row,
         B\<lparr>bk_funding := bk_funding B @ [row],
           bk_cash := (case fu_amount row of None \<Rightarrow> bk_cash B | Some c \<Rightarrow> upsert_cash p v base c t (bk_cash B))\<rparr>)"
    using apply_funding_eq[OF assms(1-5)] assms(6) by (simp add: Let_def row_def)
  show ?thesis
  proof (cases "select_position (bk_positions B) (p, v, s, Perpetual)")
    case None
    then show ?thesis
      unfolding eq by (auto simp: row_def funding_entry_def accrual_of_def outcome_of_def)
  next
    case (Some x)
    obtain q e t' where x: "x = (q, e, t')" by (cases x)
    have "fu_amount row = Some (funding_amount q mark rate)"
      using Some by (simp add: x row_def funding_entry_def)
    then show ?thesis
      unfolding eq Some x using funding_amount_sign[OF assms(4), of q rate]
      by (auto simp: accrual_of_def outcome_of_def free_cash_upsert)
  qed
qed

lemma funding_follows_convention_witness:
  "\<exists>a B' x. apply_funding 7 ''paper'' ''BTC'' 8 True (Fin (1 / 10000)) (Fin 50000) short_book = Inr (a, B')
     \<and> fa_amount a = Some x \<and> 0 < x \<and> free_cash 7 ''USDT'' (bk_cash B') = 1000 + x"
proof -
  have sel: "select_position (bk_positions short_book) (7, ''paper'', ''BTC'', Perpetual) = Some (-2, 50000, 1)"
    by (simp add: short_book_def select_position_def row_key_def)
  have none: "select_funding (bk_funding short_book) (7, ''paper'', ''BTC'', 8) = None"
    by (simp add: short_book_def usdt_book_def select_funding_def)
  have cash: "free_cash 7 ''USDT'' (bk_cash short_book) = 1000"
    by (simp add: short_book_def usdt_book_def free_cash_def)
  have "\<exists>a B'. apply_funding 7 ''paper'' ''BTC'' 8 True (Fin (1 / 10000)) (Fin 50000) short_book = Inr (a, B')
      \<and> bk_positions B' = bk_positions short_book
      \<and> (case select_position (bk_positions short_book) (7, ''paper'', ''BTC'', Perpetual) of
         None \<Rightarrow> fa_outcome a = No_Position \<and> fa_amount a = None \<and> bk_cash B' = bk_cash short_book
       | Some (q, e, at_time) \<Rightarrow> fa_outcome a = Accrued
           \<and> (\<exists>x. fa_amount a = Some x \<and> sgn x = - sgn q * sgn (1 / 10000)
                \<and> free_cash 7 ''USDT'' (bk_cash B') = free_cash 7 ''USDT'' (bk_cash short_book) + x))"
    by (rule funding_follows_convention[OF short_book_ok(1) _ _ _ short_book_ok(2) none]) (simp_all add: paper_names)
  then show ?thesis by (auto simp: sel cash sgn_1_pos)
qed

section \<open>Net asset value\<close>

definition usable_mark :: "marks \<Rightarrow> position \<Rightarrow> bool" where
  "usable_mark marks p \<longleftrightarrow> (case marks (po_venue p, po_symbol p) of Some (Fin m) \<Rightarrow> 0 < m | _ \<Rightarrow> False)"

definition mark_of :: "marks \<Rightarrow> position \<Rightarrow> decimal" where
  "mark_of marks p = finite_part (the (marks (po_venue p, po_symbol p)))"

lemma marked_value_cases:
  "marked_value marks p = (if usable_mark marks p then Inr (dmul (po_quantity p) (mark_of marks p)) else Inl Unmarked_Position)"
  by (auto simp: marked_value_def usable_mark_def mark_of_def not_le split: option.splits xdecimal.splits)

lemma rmap_first_error:
  assumes "x \<in> set xs" "\<And>y. f y = (if P y then Inr (g y) else Inl e)" "\<not> P x"
  shows "rmap f xs = Inl e"
  using assms(1) by (induction xs) (auto simp: assms(2) assms(3))

lemma dsum_nonneg: "\<forall>x\<in>set xs. 0 \<le> x \<Longrightarrow> 0 \<le> dsum xs"
proof -
  have "\<forall>x\<in>set xs. 0 \<le> x \<Longrightarrow> 0 \<le> a \<Longrightarrow> 0 \<le> foldl dadd a xs" for a
    by (induction xs arbitrary: a) (simp_all add: dadd_def)
  then show "\<forall>x\<in>set xs. 0 \<le> x \<Longrightarrow> 0 \<le> dsum xs" by (simp add: dsum_def)
qed

text \<open>A snapshot is refused exactly when some held position has no positive finite mark of its own
  venue, and then no row is written; otherwise one row is written and it records the returned NAV,
  which values a perpetual at its gain over its entry and everything else at its mark.\<close>

theorem snapshot_needs_every_mark:
  assumes "book_inv B" "portfolio_base B p = Some base"
  shows "if \<forall>q\<in>set (st_positions (loaded_state p base B)). usable_mark marks q
    then \<exists>nav row. snapshot_nav p marks B = Inr (nav, B\<lparr>bk_navs := bk_navs B @ [row]\<rparr>) \<and> nv_nav row = nav
      \<and> nav = dadd (st_cash (loaded_state p base B)) (dsum (map (\<lambda>q.
          if po_market_type q = Perpetual
          then dsub (dmul (po_quantity q) (mark_of marks q)) (dmul (po_quantity q) (po_average_entry q))
          else dmul (po_quantity q) (mark_of marks q)) (st_positions (loaded_state p base B))))
      \<and> nv_gross row = dsum (map (\<lambda>q. dabs (dmul (po_quantity q) (mark_of marks q))) (st_positions (loaded_state p base B)))
    else snapshot_nav p marks B = Inl Unmarked_Position"
proof (cases "\<forall>q\<in>set (st_positions (loaded_state p base B)). usable_mark marks q")
  case True
  let ?ps = "st_positions (loaded_state p base B)"
  have v: "rmap (marked_value marks) ?ps = Inr (map (\<lambda>q. dmul (po_quantity q) (mark_of marks q)) ?ps)"
    using True by (intro rmap_ok) (simp add: marked_value_cases)
  have z: "map (\<lambda>(q, v). marked_equity q v) (zip ?ps (map (\<lambda>q. dmul (po_quantity q) (mark_of marks q)) ?ps))
      = map (\<lambda>q. marked_equity q (dmul (po_quantity q) (mark_of marks q))) ?ps"
    by (induction ?ps arbitrary: rule: list.induct) (auto simp: zip_map2 zip_same_conv_map)
  have g: "0 \<le> dsum (map dabs (map (\<lambda>q. dmul (po_quantity q) (mark_of marks q)) ?ps))"
    by (intro dsum_nonneg) (auto simp: dabs_def)
  define nav where "nav = dadd (st_cash (loaded_state p base B))
      (dsum (map (\<lambda>q. marked_equity q (dmul (po_quantity q) (mark_of marks q))) ?ps))"
  define row where "row = \<lparr>nv_portfolio = p, nv_nav = nav, nv_cash = st_cash (loaded_state p base B),
      nv_gross = dsum (map dabs (map (\<lambda>q. dmul (po_quantity q) (mark_of marks q)) ?ps)),
      nv_net = dsum (map (\<lambda>q. dmul (po_quantity q) (mark_of marks q)) ?ps)\<rparr>"
  have "snapshot_nav p marks B = Inr (nav, B\<lparr>bk_navs := bk_navs B @ [row]\<rparr>)"
    unfolding snapshot_nav_def load_total[OF assms] rbind_Inr v Let_def z nav_def[symmetric] row_def[symmetric]
    using g by simp
  moreover have "nv_nav row = nav" "nv_gross row = dsum (map (\<lambda>q. dabs (dmul (po_quantity q) (mark_of marks q))) ?ps)"
    by (simp_all add: row_def comp_def)
  ultimately show ?thesis using True by (auto simp: nav_def marked_equity_def)
next
  case False
  then obtain q where "q \<in> set (st_positions (loaded_state p base B))" "\<not> usable_mark marks q" by blast
  then have "rmap (marked_value marks) (st_positions (loaded_state p base B)) = Inl Unmarked_Position"
    by (intro rmap_first_error[where P = "usable_mark marks"]) (auto simp: marked_value_cases)
  then show ?thesis using False load_total[OF assms] by (auto simp: snapshot_nav_def)
qed

lemma snapshot_needs_every_mark_witness:
  "snapshot_nav 7 (\<lambda>k. if k = (''other'', ''BTC'') then Some (Fin 50000) else None) short_book = Inl Unmarked_Position"
proof -
  have "st_positions (loaded_state 7 ''USDT'' short_book) = [\<lparr>po_venue = ''paper'', po_symbol = ''BTC'',
      po_market_type = Perpetual, po_quantity = -2, po_average_entry = 50000, po_as_of = 1\<rparr>]"
    by (simp add: loaded_state_def make_state_def Let_def position_rows_def short_book_def usdt_book_def position_of_row_def)
  then have "\<not> (\<forall>q\<in>set (st_positions (loaded_state 7 ''USDT'' short_book)).
      usable_mark (\<lambda>k. if k = (''other'', ''BTC'') then Some (Fin 50000) else None) q)"
    by (simp add: usable_mark_def)
  with snapshot_needs_every_mark[OF short_book_ok, of "\<lambda>k. if k = (''other'', ''BTC'') then Some (Fin 50000) else None"]
  show ?thesis by simp
qed

section \<open>What a fill does to the value of the book\<close>

text \<open>None of the amounts a fill computes has more than 28 digits.\<close>

definition unrounded :: "decimal \<Rightarrow> decimal \<Rightarrow> decimal fill \<Rightarrow> bool" where
  "unrounded q e f \<longleftrightarrow>
     (let d = (if fl_side f = Buy then fl_quantity f else - fl_quantity f);
          c = min (fl_quantity f) \<bar>q\<bar>; n = fl_quantity f * fl_price f; g = fl_price f - e
      in exact q \<and> exact (fl_quantity f) \<and> exact (q + d) \<and> exact (\<bar>q\<bar> * e) \<and> exact n \<and> exact (\<bar>q\<bar> * e + n)
         \<and> exact ((\<bar>q\<bar> * e + n) / \<bar>q + d\<bar>) \<and> exact g \<and> exact (c * g) \<and> exact (c * g - fl_fee f) \<and> exact (- (c * g) - fl_fee f)
         \<and> exact (- fl_fee f) \<and> exact (n - fl_fee f) \<and> exact (- n - fl_fee f))"

text \<open>What a leg contributes to the cost-basis NAV.\<close>

definition cost_equity :: "market_type \<Rightarrow> decimal \<times> decimal \<Rightarrow> rat" where
  "cost_equity mt leg = (if mt = Perpetual then 0 else fst leg * snd leg)"

lemma signed_fill_exact:
  "exact (fl_quantity f) \<Longrightarrow> signed_fill (fl_side f) (fl_quantity f) = (if fl_side f = Buy then fl_quantity f else - fl_quantity f)"
  by (simp add: signed_fill_def dneg_exact)

lemma min_abs_exact: "exact x \<Longrightarrow> exact y \<Longrightarrow> exact (min x y)"
  by (simp add: min_def)

lemma dmul_zero: "dmul 0 x = 0" "dmul x 0 = 0"
  by (simp_all add: dmul_def)

lemma closed_pnl_exact:
  assumes "unrounded q e f" "0 < fl_quantity f" "fl_side f = Buy \<Longrightarrow> d = fl_quantity f" "fl_side f = Sell \<Longrightarrow> d = - fl_quantity f"
  shows "closed_pnl q e (fl_side f) (fl_quantity f) (fl_price f)
    = (if q = 0 \<or> (0 < d) = (0 < q) then 0
       else if 0 < q then min (fl_quantity f) \<bar>q\<bar> * (fl_price f - e) else - (min (fl_quantity f) \<bar>q\<bar> * (fl_price f - e)))"
proof -
  have sf: "signed_fill (fl_side f) (fl_quantity f) = d"
    using assms by (cases "fl_side f") (simp_all add: unrounded_def Let_def signed_fill_def dneg_exact)
  have ex: "exact q" "exact (fl_quantity f)" "exact (fl_price f - e)" "exact (min (fl_quantity f) \<bar>q\<bar> * (fl_price f - e))"
    using assms(1) by (simp_all add: unrounded_def Let_def)
  have "\<bar>d\<bar> = fl_quantity f" "exact d" using assms(2-4) ex(2) by (cases "fl_side f"; simp)+
  then have cq: "closed_quantity q (fl_side f) (fl_quantity f)
      = (if q = 0 \<or> (0 < d) = (0 < q) then 0 else min (fl_quantity f) \<bar>q\<bar>)"
    using ex(1) by (simp add: closed_quantity_def Let_def sf dabs_exact)
  have g: "dsub (fl_price f) e = fl_price f - e" "dsub e (fl_price f) = - (fl_price f - e)"
    using ex(3) dsub_exact[of "fl_price f" e] dsub_exact[of e "fl_price f"] exact_minus[of "fl_price f - e"] by simp_all
  have m: "dmul c (- x) = - (c * x)" if "exact (c * x)" for c x
    using that dmul_exact[of c "- x"] by simp
  show ?thesis
    unfolding closed_pnl_def Let_def cq g using ex(4)
    by (auto simp: dmul_exact m dmul_zero simp del: minus_diff_eq)
qed

lemma next_position_exact:
  assumes "unrounded q e f" "0 < fl_quantity f" "d = (if fl_side f = Buy then fl_quantity f else - fl_quantity f)"
  shows "next_position q e (fl_side f) (fl_quantity f) (fl_price f) =
    (if q + d = 0 then (0, 0)
     else if q = 0 \<or> (0 < q) \<noteq> (0 < q + d) then (q + d, fl_price f)
     else if (0 < d) = (0 < q) then (q + d, (\<bar>q\<bar> * e + fl_quantity f * fl_price f) / \<bar>q + d\<bar>)
     else (q + d, e))"
proof -
  have ex: "exact q" "exact (fl_quantity f)" "exact (q + d)" "exact (\<bar>q\<bar> * e)" "exact (fl_quantity f * fl_price f)"
    "exact (\<bar>q\<bar> * e + fl_quantity f * fl_price f)" "exact ((\<bar>q\<bar> * e + fl_quantity f * fl_price f) / \<bar>q + d\<bar>)"
    using assms(1,3) by (simp_all add: unrounded_def Let_def)
  have sf: "signed_fill (fl_side f) (fl_quantity f) = d" using signed_fill_exact[OF ex(2)] assms(3) by simp
  have "\<bar>d\<bar> = fl_quantity f" "exact d" using assms(2,3) ex(2) by auto
  then show ?thesis
    unfolding next_position_def Let_def sf
    using ex by (simp add: dadd_exact dabs_exact dmul_exact ddiv_exact)
qed

lemma cash_delta_exact:
  assumes "unrounded q e f" "0 < fl_quantity f" "d = (if fl_side f = Buy then fl_quantity f else - fl_quantity f)"
    and "gain = closed_pnl q e (fl_side f) (fl_quantity f) (fl_price f)"
  shows "cash_delta f mt q e = (if mt = Perpetual then gain else - (d * fl_price f)) - fl_fee f"
proof -
  let ?c = "min (fl_quantity f) \<bar>q\<bar> * (fl_price f - e)"
  have ex: "exact (fl_quantity f * fl_price f)" "exact (?c - fl_fee f)" "exact (- ?c - fl_fee f)" "exact (- fl_fee f)"
    "exact (fl_quantity f * fl_price f - fl_fee f)" "exact (- (fl_quantity f * fl_price f) - fl_fee f)"
    using assms(1) by (simp_all add: unrounded_def Let_def)
  have gain: "gain \<in> {0, ?c, - ?c}"
    using closed_pnl_exact[OF assms(1,2), of d] assms(3,4) by (cases "fl_side f") auto
  have perp: "dsub gain (fl_fee f) = gain - fl_fee f"
    using gain ex(2-4) by (intro dsub_exact) auto
  have spot: "dsub (if fl_side f = Sell then fill_notional f else dneg (fill_notional f)) (fl_fee f)
      = - (d * fl_price f) - fl_fee f"
    using ex(1,5,6) assms(3)
    by (cases "fl_side f") (simp_all add: fill_notional_def dmul_exact dneg_exact dsub_exact)
  show ?thesis unfolding cash_delta_def assms(4)[symmetric] perp spot by simp
qed

text \<open>C26. The cost-basis NAV moves by what a fill realises less its fee, and by nothing else: opening
  or adding to a position only costs the fee, for cash-settled markets and for perpetuals alike,
  when no amount is rounded.\<close>

theorem fill_moves_nav_by_realised:
  assumes "unrounded q e f" "0 < fl_quantity f"
  shows "cash_delta f mt q e + cost_equity mt (next_position q e (fl_side f) (fl_quantity f) (fl_price f))
    = cost_equity mt (q, e) + closed_pnl q e (fl_side f) (fl_quantity f) (fl_price f) - fl_fee f"
proof -
  define d where "d = (if fl_side f = Buy then fl_quantity f else - fl_quantity f)"
  define p where "p = fl_price f"
  define n where "n = fl_quantity f"
  have n: "0 < n" "d = n \<or> d = - n" using assms(2) by (auto simp: n_def d_def)
  have gain: "closed_pnl q e (fl_side f) (fl_quantity f) (fl_price f)
      = (if q = 0 \<or> (0 < d) = (0 < q) then 0 else if 0 < q then min n \<bar>q\<bar> * (p - e) else - (min n \<bar>q\<bar> * (p - e)))"
    using closed_pnl_exact[OF assms, of d] by (simp add: d_def p_def n_def)
  note cash = cash_delta_exact[OF assms d_def refl]
  note leg = next_position_exact[OF assms d_def]
  show ?thesis
  proof (cases "mt = Perpetual")
    case True
    then show ?thesis unfolding cash cost_equity_def by simp
  next
    case False
    have "fst l * snd l - d * p = q * e + closed_pnl q e (fl_side f) (fl_quantity f) (fl_price f)"
      if "l = next_position q e (fl_side f) (fl_quantity f) (fl_price f)" for l
    proof -
      consider "q = 0" | "0 < q" "d = n" | "q < 0" "d = - n" | "0 < q" "d = - n" | "q < 0" "d = n"
        using n(2) by fastforce
      then show ?thesis
      proof cases
        case 1
        then show ?thesis using n unfolding that leg gain by (auto simp: p_def)
      next
        case 2
        then show ?thesis using n unfolding that leg gain by (simp add: p_def[symmetric] n_def[symmetric])
      next
        case 3
        then show ?thesis
          using n unfolding that leg gain by (simp add: p_def[symmetric] n_def[symmetric] field_simps)
      next
        case 4
        then show ?thesis
          using n unfolding that leg gain
          by (cases "n = q"; cases "n < q") (simp_all add: p_def[symmetric] min_def algebra_simps)
      next
        case 5
        then show ?thesis
          using n unfolding that leg gain
          by (cases "n = - q"; cases "n < - q") (simp_all add: p_def[symmetric] min_def algebra_simps)
      qed
    qed
    from this[OF refl] False show ?thesis
      unfolding cash cost_equity_def by (simp add: p_def[symmetric] algebra_simps)
  qed
qed

lemma fill_moves_nav_by_realised_witness:
  "cash_delta (paper_fill Sell 5 120 3) Spot 4 115
     + cost_equity Spot (next_position 4 115 Sell 5 120) = 4 * 115 + 4 * (120 - 115) - 1"
proof -
  have u: "unrounded 4 115 (paper_fill Sell 5 120 3)"
    using exact_of_int[of 1] by (simp add: unrounded_def Let_def paper_fill_def exact_numeral)
  have g: "closed_pnl 4 115 Sell 5 120 = 20" by code_simp
  have sel: "fl_side (paper_fill Sell 5 120 3) = Sell" "fl_quantity (paper_fill Sell 5 120 3) = 5"
    "fl_price (paper_fill Sell 5 120 3) = 120" "fl_fee (paper_fill Sell 5 120 3) = 1"
    by (simp_all add: paper_fill_def)
  have "0 < fl_quantity (paper_fill Sell 5 120 3)" by (simp add: sel)
  from fill_moves_nav_by_realised[OF u this, of Spot] show ?thesis
    unfolding sel g by (simp add: cost_equity_def)
qed

section \<open>One transaction for ledger and book\<close>

text \<open>The book half of \<open>record_and_apply_fill\<close> never undoes the ledger half: on consistent tables
  and an existing portfolio, a fill the ledger accepts is always applied to the book, both tables
  stay consistent, and the state returned is the one \<open>load\<close> reads afterwards.\<close>

theorem recorded_fill_is_applied:
  assumes "ledger_inv L" "book_inv B" "portfolio_base B p = Some base"
    and "check_fill f = Inr f" "fl_aware f" "record_fill i f L = Inr L'"
  shows "\<exists>st B'. record_and_apply_fill i p f mt (L, B) = Inr (st, L', B') \<and> ledger_inv L' \<and> book_inv B'
    \<and> load p B' = Inr st"
proof -
  have fin: "record_finite_fill i (fill_numbers finite_part f) L = Inr L'" "valid_fill (fill_numbers finite_part f)"
    using record_fill_finite[OF assms(4,6)] by auto
  have aware: "fl_aware (fill_numbers finite_part f)" using assms(5) by (simp add: fill_numbers_def)
  obtain B' where B': "apply_fill_rows p (fill_numbers finite_part f) mt B = Inr B'" "book_inv B'"
    "bk_portfolios B' = bk_portfolios B"
    using apply_fill_rows_total[OF assms(2) fin(2) aware assms(3)] by blast
  have "load p B' = Inr (loaded_state p base B')"
    using B'(2,3) assms(3) by (intro load_total) (simp_all add: portfolio_base_def)
  moreover have "ledger_inv L'"
    using record_finite_fill_inv[OF assms(1) fin(1)] fin(2) by (simp add: valid_fill_def)
  ultimately show ?thesis
    using assms(3,6) B' by (simp add: record_and_apply_fill_def apply_fill_def)
qed

lemma recorded_fill_is_applied_witness:
  "\<exists>st B'. record_and_apply_fill 0 7 (fill_numbers Fin half_fill) Perpetual (ledger_submitted, usdt_book)
     = Inr (st, ledger_half, B') \<and> book_inv B'"
proof -
  have "ledger_run empty_ledger ledger_submitted"
    using sample_run(1) Transition[OF sample_steps(2)] by (rule rtranclp.rtrancl_into_rtrancl)
  then have "ledger_inv ledger_submitted" by (rule reachable_inv)
  moreover have "fl_aware (fill_numbers Fin half_fill)" by (simp add: fill_numbers_def half_fill_def)
  ultimately show ?thesis
    using recorded_fill_is_applied[OF _ usdt_book_ok(1,2) sample_steps(3) _ sample_steps(4)] by blast
qed

end
