(* ===== verification/Calendar.thy ===== *)
theory Calendar
  imports Prelude
begin

text \<open>
  Python's \<open>datetime.date\<close> (proleptic Gregorian calendar). A date is its ordinal: day 1 is
  0001-01-01, so comparing dates compares ordinals and adding a \<open>timedelta\<close> adds days.
  \<open>mk_date y m d\<close> is \<open>date(y, m, d)\<close>; \<open>year_of\<close>, \<open>month_of_year\<close> and \<open>day_of\<close> are the
  attributes \<open>.year\<close>, \<open>.month\<close> and \<open>.day\<close>; \<open>weekday\<close> is 0 on Monday. The interpreter's limit to
  the years 1 to 9999 is not modelled.
\<close>

type_synonym date = int

definition is_leap :: "int \<Rightarrow> bool" where
  "is_leap y \<longleftrightarrow> y mod 4 = 0 \<and> (y mod 100 \<noteq> 0 \<or> y mod 400 = 0)"

definition days_before_year :: "int \<Rightarrow> int" where
  "days_before_year y = (y - 1) * 365 + (y - 1) div 4 - (y - 1) div 100 + (y - 1) div 400"

definition leap_day :: "int \<Rightarrow> int" where
  "leap_day y = (if is_leap y then 1 else 0)"

definition days_before_month :: "int \<Rightarrow> int \<Rightarrow> int" where
  "days_before_month y m =
     (if m \<le> 1 then 0 else if m = 2 then 31 else
      (if m = 3 then 59 else if m = 4 then 90 else if m = 5 then 120 else if m = 6 then 151
       else if m = 7 then 181 else if m = 8 then 212 else if m = 9 then 243
       else if m = 10 then 273 else if m = 11 then 304 else if m = 12 then 334 else 365) + leap_day y)"

definition mk_date :: "int \<Rightarrow> int \<Rightarrow> int \<Rightarrow> date" where
  "mk_date y m d = days_before_year y + days_before_month y m + d"

definition weekday :: "date \<Rightarrow> int" where
  "weekday d = (d + 6) mod 7"

definition year_of :: "date \<Rightarrow> int" where
  "year_of n =
     (let y = 400 * (n - 1) div 146097 + 1
      in if n \<le> days_before_year y then y - 1
         else if days_before_year (y + 1) < n then y + 1 else y)"

definition month_of_year :: "date \<Rightarrow> int" where
  "month_of_year n =
     (let y = year_of n; k = n - days_before_year y; b = days_before_month y
      in if k \<le> b 2 then 1 else if k \<le> b 3 then 2 else if k \<le> b 4 then 3
         else if k \<le> b 5 then 4 else if k \<le> b 6 then 5 else if k \<le> b 7 then 6
         else if k \<le> b 8 then 7 else if k \<le> b 9 then 8 else if k \<le> b 10 then 9
         else if k \<le> b 11 then 10 else if k \<le> b 12 then 11 else 12)"

definition day_of :: "date \<Rightarrow> int" where
  "day_of n = n - days_before_year (year_of n) - days_before_month (year_of n) (month_of_year n)"

text \<open>The number of days of a month, from the calendar itself (used in the correctness lemmas).\<close>

definition month_length :: "int \<Rightarrow> int \<Rightarrow> int" where
  "month_length y m = days_before_month y (m + 1) - days_before_month y m"

lemma div_pred:
  fixes c y :: int
  assumes "0 < c"
  shows "y div c = (y - 1) div c + (if y mod c = 0 then 1 else 0)"
proof (cases "y mod c = 0")
  case True
  then have "y - 1 = c * (y div c - 1) + (c - 1)"
    using mult_div_mod_eq[of c y] by (simp add: algebra_simps)
  then have "(y - 1) div c = y div c - 1"
    using assms by (intro int_div_pos_eq[of _ _ _ "c - 1"]) auto
  with True show ?thesis by simp
next
  case False
  then have "0 < y mod c" using assms pos_mod_sign[of c y] by linarith
  moreover have "y - 1 = c * (y div c) + (y mod c - 1)"
    using mult_div_mod_eq[of c y] by (simp add: algebra_simps)
  moreover have "y mod c - 1 < c" using assms pos_mod_bound[of c y] by linarith
  ultimately have "(y - 1) div c = y div c"
    by (intro int_div_pos_eq[of _ _ _ "y mod c - 1"]) auto
  with False show ?thesis by simp
qed

lemma div_between:
  fixes c k :: int
  assumes "0 < c"
  shows "c * (k div c) \<le> k" "k < c * (k div c) + c"
  using assms mult_div_mod_eq[of c k] pos_mod_sign[of c k] pos_mod_bound[of c k] by linarith+

lemma days_before_year_Suc: "days_before_year (y + 1) = days_before_year y + 365 + leap_day y"
proof -
  have "y mod 400 = 0 \<Longrightarrow> y mod 100 = 0" "y mod 100 = 0 \<Longrightarrow> y mod 4 = 0"
    using mod_mod_cancel[of 100 400 y] mod_mod_cancel[of 4 100 y] by simp_all
  then show ?thesis
    unfolding days_before_year_def leap_day_def is_leap_def add_diff_cancel_right'
      div_pred[of 4 y, simplified] div_pred[of 100 y, simplified] div_pred[of 400 y, simplified]
    by (cases "y mod 4 = 0"; cases "y mod 100 = 0"; cases "y mod 400 = 0") simp_all
qed

lemma leap_day_bounds: "0 \<le> leap_day y" "leap_day y \<le> 1"
  by (simp_all add: leap_day_def)

lemma days_before_year_step: "days_before_year y < days_before_year (y + 1)"
  using leap_day_bounds(1)[of y] by (simp add: days_before_year_Suc)

lemma days_before_year_mono: "y \<le> z \<Longrightarrow> days_before_year y \<le> days_before_year z"
proof (induction z rule: int_ge_induct)
  case (step z)
  then show ?case using days_before_year_step[of z] by simp
qed simp

lemma days_before_year_strict: "y < z \<Longrightarrow> days_before_year y < days_before_year z"
  using days_before_year_mono[of "y + 1" z] days_before_year_step[of y] by simp

lemma days_before_year_linear:
  "400 * days_before_year (k + 1) \<le> 146097 * k + 396"
  "146097 * k - 699 \<le> 400 * days_before_year (k + 1)"
  using div_between[of 4 k] div_between[of 100 k] div_between[of 400 k]
  unfolding days_before_year_def by simp_all

lemma year_of_bounds: "days_before_year (year_of n) < n" "n \<le> days_before_year (year_of n + 1)"
proof -
  define k where "k = 400 * (n - 1) div 146097"
  have k: "146097 * k \<le> 400 * (n - 1)" "400 * (n - 1) < 146097 * k + 146097"
    unfolding k_def using div_between[of 146097 "400 * (n - 1)"] by simp_all
  have k3: "k + 2 + 1 = k + 3" by simp
  have "days_before_year k < n"
    using days_before_year_linear(1)[of "k - 1"] k by simp
  moreover have "n \<le> days_before_year (k + 3)"
  proof -
    define D where "D = days_before_year (k + 3)"
    show ?thesis
      using days_before_year_linear(2)[of "k + 2", unfolded k3] k unfolding D_def[symmetric] by simp
  qed
  ultimately show "days_before_year (year_of n) < n" "n \<le> days_before_year (year_of n + 1)"
    unfolding year_of_def k_def[symmetric] Let_def by (auto simp: add.commute split: if_splits)
qed

lemma year_of_unique:
  assumes "days_before_year y < n" "n \<le> days_before_year (y + 1)"
  shows "year_of n = y"
proof (rule ccontr)
  assume "year_of n \<noteq> y"
  then consider "year_of n + 1 \<le> y" | "y + 1 \<le> year_of n" by linarith
  then show False
    using assms year_of_bounds[of n] days_before_year_mono[of "year_of n + 1" y]
      days_before_year_mono[of "y + 1" "year_of n"] by cases linarith+
qed

lemma days_before_month_13: "days_before_month y 13 = 365 + leap_day y"
  by (simp add: days_before_month_def)

lemma month_of_year_bounds: "1 \<le> month_of_year n" "month_of_year n \<le> 12"
  by (simp_all add: month_of_year_def Let_def)

lemma day_of_bounds: "1 \<le> day_of n" "day_of n \<le> month_length (year_of n) (month_of_year n)"
proof -
  define y where "y = year_of n"
  define k where "k = n - days_before_year y"
  have k: "1 \<le> k" "k \<le> 365 + leap_day y"
    using year_of_bounds[of n] by (simp_all add: k_def y_def days_before_year_Suc)
  have "1 \<le> k - days_before_month y (month_of_year n)"
    "k - days_before_month y (month_of_year n) \<le> month_length y (month_of_year n)"
    using k unfolding month_of_year_def Let_def y_def[symmetric] k_def[symmetric]
    by (auto simp: month_length_def days_before_month_def split: if_splits)
  then show "1 \<le> day_of n" "day_of n \<le> month_length (year_of n) (month_of_year n)"
    by (simp_all add: day_of_def y_def k_def)
qed

lemma mk_date_of_parts: "mk_date (year_of n) (month_of_year n) (day_of n) = n"
  by (simp add: mk_date_def day_of_def)

lemma days_before_month_bounds:
  assumes "1 \<le> m" "m \<le> 12" "1 \<le> d" "d \<le> month_length y m"
  shows "1 \<le> days_before_month y m + d" "days_before_month y m + d \<le> 365 + leap_day y"
  using assms leap_day_bounds[of y]
  by (auto simp: month_length_def days_before_month_def split: if_splits)

lemma year_of_mk_date:
  assumes "1 \<le> m" "m \<le> 12" "1 \<le> d" "d \<le> month_length y m"
  shows "year_of (mk_date y m d) = y"
  using days_before_month_bounds[OF assms]
  by (intro year_of_unique) (simp_all add: mk_date_def days_before_year_Suc)

lemma month_of_mk_date:
  assumes "1 \<le> m" "m \<le> 12" "1 \<le> d" "d \<le> month_length y m"
  shows "month_of_year (mk_date y m d) = m"
proof -
  have m: "m = 1 \<or> m = 2 \<or> m = 3 \<or> m = 4 \<or> m = 5 \<or> m = 6 \<or> m = 7 \<or> m = 8 \<or> m = 9 \<or> m = 10
    \<or> m = 11 \<or> m = 12" using assms by presburger
  have "mk_date y m d - days_before_year y = days_before_month y m + d" by (simp add: mk_date_def)
  with m assms(3,4) leap_day_bounds[of y] show ?thesis
    unfolding month_of_year_def year_of_mk_date[OF assms] Let_def
    by (elim disjE) (simp_all add: month_length_def days_before_month_def)
qed

lemma day_of_mk_date:
  assumes "1 \<le> m" "m \<le> 12" "1 \<le> d" "d \<le> month_length y m"
  shows "day_of (mk_date y m d) = d"
  using assms by (simp add: day_of_def year_of_mk_date month_of_mk_date) (simp add: mk_date_def)

lemma month_length_ge_28: "1 \<le> m \<Longrightarrow> m \<le> 12 \<Longrightarrow> 28 \<le> month_length y m"
proof -
  assume "1 \<le> m" "m \<le> 12"
  then have m: "m = 1 \<or> m = 2 \<or> m = 3 \<or> m = 4 \<or> m = 5 \<or> m = 6 \<or> m = 7 \<or> m = 8 \<or> m = 9 \<or> m = 10
    \<or> m = 11 \<or> m = 12" by presburger
  then show ?thesis using leap_day_bounds[of y]
    by (elim disjE) (simp_all add: month_length_def days_before_month_def)
qed

lemmas first_of_month_parts =
  year_of_mk_date[of m 1 y for m y] month_of_mk_date[of m 1 y for m y] day_of_mk_date[of m 1 y for m y]

section \<open>Months\<close>

text \<open>The first day of the month after the one \<open>d\<close> (a first of a month) starts, the idiom
  \<open>d.replace(year=d.year + (d.month == 12), month=d.month % 12 + 1, day=1)\<close>.\<close>

definition first_of_month :: "date \<Rightarrow> date" where
  "first_of_month d = mk_date (year_of d) (month_of_year d) 1"

definition next_month :: "date \<Rightarrow> date" where
  "next_month d = mk_date (year_of d + (if month_of_year d = 12 then 1 else 0)) (month_of_year d mod 12 + 1) 1"

text \<open>Months counted from year 0, so that consecutive months have consecutive numbers.\<close>

definition month_index :: "date \<Rightarrow> int" where
  "month_index d = year_of d * 12 + (month_of_year d - 1)"

definition month_start :: "int \<Rightarrow> date" where
  "month_start i = mk_date (i div 12) (i mod 12 + 1) 1"

lemma month_start_parts [simp]:
  "year_of (month_start i) = i div 12" "month_of_year (month_start i) = i mod 12 + 1" "day_of (month_start i) = 1"
proof -
  have m: "1 \<le> i mod 12 + 1" "i mod 12 + 1 \<le> 12"
    using pos_mod_bound[of 12 i] pos_mod_sign[of 12 i] by linarith+
  then have "1 \<le> month_length (i div 12) (i mod 12 + 1)"
    using month_length_ge_28[of "i mod 12 + 1" "i div 12"] by linarith
  with m show "year_of (month_start i) = i div 12" "month_of_year (month_start i) = i mod 12 + 1"
    "day_of (month_start i) = 1"
    unfolding month_start_def by (simp_all only: first_of_month_parts)
qed

lemma month_index_start [simp]: "month_index (month_start i) = i"
  by (simp add: month_index_def)

lemma first_of_month_start: "first_of_month d = month_start (month_index d)"
  using month_of_year_bounds[of d] by (simp add: first_of_month_def month_start_def month_index_def)

lemma next_month_start: "next_month d = month_start (month_index d + 1)"
proof (cases "month_of_year d = 12")
  case True
  then have "month_index d + 1 = (year_of d + 1) * 12" by (simp add: month_index_def)
  with True show ?thesis by (simp add: next_month_def month_start_def add.commute)
next
  case False
  then have "0 \<le> month_of_year d" "month_of_year d < 12" using month_of_year_bounds[of d] by simp_all
  then show ?thesis by (simp add: next_month_def month_start_def month_index_def False)
qed

lemma month_start_length: "month_start (i + 1) = month_start i + month_length (i div 12) (i mod 12 + 1)"
proof (cases "i mod 12 = 11")
  case True
  then have "i + 1 = 12 * (i div 12 + 1) + 0" using mult_div_mod_eq[of 12 i] by simp
  then have "(i + 1) div 12 = i div 12 + 1" "(i + 1) mod 12 = 0"
    by (simp_all only: int_div_pos_eq int_mod_pos_eq)
  with True show ?thesis
    by (simp add: month_start_def mk_date_def month_length_def days_before_month_13
        days_before_year_Suc) (simp add: days_before_month_def)
next
  case False
  have e: "i + 1 = 12 * (i div 12) + (i mod 12 + 1)" using mult_div_mod_eq[of 12 i] by simp
  have r: "0 \<le> i mod 12 + 1" "i mod 12 + 1 < 12"
    using False pos_mod_bound[of 12 i] pos_mod_sign[of 12 i] by linarith+
  have "(i + 1) div 12 = i div 12" "(i + 1) mod 12 = i mod 12 + 1"
    by (rule int_div_pos_eq[OF e r]) (rule int_mod_pos_eq[OF e r])
  then show ?thesis
    by (simp add: month_start_def mk_date_def month_length_def add.assoc)
qed

lemma month_start_step: "month_start i + 28 \<le> month_start (i + 1)"
  using pos_mod_bound[of 12 i] pos_mod_sign[of 12 i] month_length_ge_28[of "i mod 12 + 1" "i div 12"]
  unfolding month_start_length by linarith

lemma month_start_mono: "i \<le> j \<Longrightarrow> month_start i \<le> month_start j"
proof (induction j rule: int_ge_induct)
  case (step j)
  then show ?case using month_start_step[of j] by simp
qed simp

lemma month_start_less_iff: "month_start i < month_start j \<longleftrightarrow> i < j"
proof
  assume "i < j"
  then have "month_start (i + 1) \<le> month_start j" by (intro month_start_mono) simp
  then show "month_start i < month_start j" using month_start_step[of i] by simp
next
  assume "month_start i < month_start j"
  then show "i < j" using month_start_mono[of j i] by (cases "i < j") auto
qed

lemma month_start_le_iff: "month_start i \<le> month_start j \<longleftrightarrow> i \<le> j"
  using month_start_less_iff[of j i] by linarith

lemma in_month: "month_start (month_index d) \<le> d" "d < month_start (month_index d + 1)"
proof -
  have m: "(month_index d) div 12 = year_of d" "(month_index d) mod 12 + 1 = month_of_year d"
    using month_of_year_bounds[of d] by (simp_all add: month_index_def)
  show "month_start (month_index d) \<le> d"
    using day_of_bounds(1)[of d] mk_date_of_parts[of d]
    by (simp add: month_start_def m) (simp add: mk_date_def)
  show "d < month_start (month_index d + 1)"
    using day_of_bounds(2)[of d] mk_date_of_parts[of d]
    by (simp add: month_start_length m) (simp add: month_start_def m, simp add: mk_date_def)
qed

lemma month_index_unique:
  "month_start i \<le> d \<Longrightarrow> d < month_start (i + 1) \<Longrightarrow> month_index d = i"
  using in_month[of d] month_start_less_iff[of i "month_index d + 1"]
    month_start_less_iff[of "month_index d" "i + 1"] by linarith

lemma weekday_bounds: "0 \<le> weekday d" "weekday d < 7"
  by (simp_all add: weekday_def)

end
