(* ===== verification/Schedules.thy ===== *)
theory Schedules
  imports Calendar
begin

text \<open>
  The recurrence engine of \<open>src/omni/finance/schedules.py\<close>: the validated configuration, the
  weekend solver, the four frequency solvers, \<open>occurrences_between\<close>, \<open>next_occurrence\<close> and the
  schedule status. The set \<open>out\<close> the code collects dates in is a list here; it is only read
  through \<open>sorted\<close>. The lemmas give the declarative meaning of each frequency, the window,
  ordering and weekend guarantees of the result, and where the window is narrower than announced.
\<close>

section \<open>Configuration\<close>

datatype frequency = Daily | Weekly | Monthly | Yearly

datatype solve_mode = Before | After | Nearest

datatype schedule_error = ScheduleError | MissingValue

record pattern =
  p_type :: string
  p_value :: "int option"
  p_n :: "int option"

record recurrence =
  rec_frequency :: frequency
  rec_start :: date
  rec_interval :: int
  rec_end :: "date option"
  rec_skip_weekend :: bool
  rec_mode :: solve_mode
  rec_patterns :: "pattern list"
  rec_month :: "int option"
  rec_day :: "int option"

text \<open>The JSON object a recurrence is read from; an absent key is \<open>None\<close>.\<close>

record config =
  c_frequency :: "string option"
  c_start :: "string option"
  c_interval :: "int option"
  c_end :: "string option"
  c_skip_weekend :: "bool option"
  c_mode :: "string option"
  c_patterns :: "pattern list option"
  c_month :: "int option"
  c_day :: "int option"

definition parse_frequency :: "string \<Rightarrow> (schedule_error, frequency) result" where
  "parse_frequency s =
     (if s = ''daily'' then Inr Daily else if s = ''weekly'' then Inr Weekly
      else if s = ''monthly'' then Inr Monthly else if s = ''yearly'' then Inr Yearly
      else Inl ScheduleError)"

definition parse_mode :: "string \<Rightarrow> (schedule_error, solve_mode) result" where
  "parse_mode s =
     (if s = ''before'' then Inr Before else if s = ''after'' then Inr After
      else if s = ''nearest'' then Inr Nearest else Inl ScheduleError)"

text \<open>\<open>Recurrence.from_config\<close>; \<open>isodate\<close> is \<open>date.fromisoformat\<close>, \<open>None\<close> where it raises.\<close>

definition from_config :: "(string \<Rightarrow> date option) \<Rightarrow> config \<Rightarrow> (schedule_error, recurrence) result" where
  "from_config isodate c =
     rbind (option_result ScheduleError (c_frequency c)) (\<lambda>fs.
     rbind (option_result ScheduleError
       (isodate (take 10 (case c_start c of Some s \<Rightarrow> s | None \<Rightarrow> ''2000-01-01'')))) (\<lambda>start.
     rbind (case c_end c of
         None \<Rightarrow> Inr None
       | Some e \<Rightarrow> if e = [] then Inr None
                   else rbind (option_result ScheduleError (isodate (take 10 e))) (\<lambda>d. Inr (Some d))) (\<lambda>finish.
     rbind (parse_frequency fs) (\<lambda>f.
     rbind (ensure (1 \<le> (case c_interval c of Some i \<Rightarrow> i | None \<Rightarrow> 1)) ScheduleError) (\<lambda>_.
     rbind (parse_mode (case c_mode c of Some m \<Rightarrow> m | None \<Rightarrow> ''after'')) (\<lambda>mode.
       Inr \<lparr>rec_frequency = f, rec_start = start,
            rec_interval = (case c_interval c of Some i \<Rightarrow> i | None \<Rightarrow> 1),
            rec_end = finish,
            rec_skip_weekend = (case c_skip_weekend c of Some b \<Rightarrow> b | None \<Rightarrow> False),
            rec_mode = mode,
            rec_patterns = (case c_patterns c of Some ps \<Rightarrow> ps | None \<Rightarrow> []),
            rec_month = c_month c, rec_day = c_day c\<rparr>))))))"

section \<open>Solving weekends\<close>

function back_to_weekday :: "date \<Rightarrow> date" where
  "back_to_weekday d = (if weekday d \<ge> 5 then back_to_weekday (d - 1) else d)"
  by pat_completeness auto

lemma weekday_pred: "0 < weekday d \<Longrightarrow> weekday (d - 1) = weekday d - 1"
  by (simp add: weekday_def) presburger

lemma weekday_succ: "weekday (d + 1) = (if weekday d = 6 then 0 else weekday d + 1)"
  by (simp add: weekday_def) presburger

termination back_to_weekday
  by (relation "measure (\<lambda>d. nat (weekday d))") (auto simp: weekday_pred)

function forward_to_weekday :: "date \<Rightarrow> date" where
  "forward_to_weekday d = (if weekday d \<ge> 5 then forward_to_weekday (d + 1) else d)"
  by pat_completeness auto
termination
proof (relation "measure (\<lambda>d. if weekday d \<ge> 5 then nat (7 - weekday d) else 0)")
  fix d assume "weekday d \<ge> 5"
  then show "(d + 1, d) \<in> measure (\<lambda>d. if weekday d \<ge> 5 then nat (7 - weekday d) else 0)"
    using weekday_bounds[of d] by (auto simp: weekday_succ)
qed simp

declare back_to_weekday.simps [simp del] forward_to_weekday.simps [simp del]

definition solve_weekend :: "date \<Rightarrow> solve_mode \<Rightarrow> date" where
  "solve_weekend d mode =
     (if weekday d < 5 then d
      else case mode of
        Before \<Rightarrow> back_to_weekday d
      | After \<Rightarrow> forward_to_weekday d
      | Nearest \<Rightarrow>
          (let back = back_to_weekday d; forward = forward_to_weekday d
           in if d - back \<le> forward - d then back else forward))"

section \<open>The frequency solvers\<close>

definition days_in_month :: "int \<Rightarrow> int \<Rightarrow> int" where
  "days_in_month y m = (if m = 12 then 31 else day_of (mk_date y (m + 1) 1 - 1))"

lemma mod_7_nonzero: "-7 < x \<Longrightarrow> x < 7 \<Longrightarrow> x \<noteq> 0 \<Longrightarrow> x mod 7 \<noteq> (0::int)"
  by presburger

lemma mod_7_pred: "x mod 7 \<noteq> 0 \<Longrightarrow> (x - 1) mod 7 = x mod (7::int) - 1"
  by presburger

lemma weekday_back_diff: "(weekday (d - 1) - w) mod 7 = (weekday d - w - 1) mod 7"
proof -
  have "(weekday (d - 1) - w) mod 7 = (d - 1 + 6 - w) mod 7"
    unfolding weekday_def by (rule mod_diff_left_eq)
  also have "\<dots> = (d + 6 - (w + 1)) mod 7" by (simp add: algebra_simps)
  also have "\<dots> = (weekday d - (w + 1)) mod 7"
    unfolding weekday_def by (rule mod_diff_left_eq[symmetric])
  finally show ?thesis by (simp add: diff_diff_eq)
qed

lemma weekday_forward_diff: "(w - weekday (d + 1)) mod 7 = (w - weekday d - 1) mod 7"
proof -
  have "(w - weekday (d + 1)) mod 7 = (w - (d + 1 + 6)) mod 7"
    unfolding weekday_def by (rule mod_diff_right_eq)
  also have "\<dots> = (w - 1 - (d + 6)) mod 7" by (simp add: algebra_simps)
  also have "\<dots> = (w - 1 - weekday d) mod 7"
    unfolding weekday_def by (rule mod_diff_right_eq[symmetric])
  finally show ?thesis by (simp add: algebra_simps)
qed

lemma weekday_gap_back:
  assumes "weekday d \<noteq> w" "0 \<le> w" "w < 7"
  shows "(weekday (d - 1) - w) mod 7 = (weekday d - w) mod 7 - 1"
  using assms weekday_bounds[of d] mod_7_nonzero[of "weekday d - w"]
  by (simp only: weekday_back_diff) (intro mod_7_pred mod_7_nonzero, auto)

lemma weekday_gap_forward:
  assumes "weekday d \<noteq> w" "0 \<le> w" "w < 7"
  shows "(w - weekday (d + 1)) mod 7 = (w - weekday d) mod 7 - 1"
  using assms weekday_bounds[of d]
  by (simp only: weekday_forward_diff) (intro mod_7_pred mod_7_nonzero, auto)

text \<open>The two searches of \<open>_nth_weekday_of_month\<close>; the weekday sought is always in 0..6.\<close>

function seek_back :: "int \<Rightarrow> date \<Rightarrow> date" where
  "seek_back w d = (if weekday d \<noteq> w \<and> 0 \<le> w \<and> w < 7 then seek_back w (d - 1) else d)"
  by pat_completeness auto
termination
proof (relation "measure (\<lambda>(w, d). nat ((weekday d - w) mod 7))")
  fix w d assume "weekday d \<noteq> w \<and> 0 \<le> w \<and> w < 7"
  then show "((w, d - 1), (w, d)) \<in> measure (\<lambda>(w, d). nat ((weekday d - w) mod 7))"
    using weekday_gap_back[of d w] pos_mod_sign[of 7 "weekday (d - 1) - w"] by simp
qed simp

function seek_forward :: "int \<Rightarrow> date \<Rightarrow> date" where
  "seek_forward w d = (if weekday d \<noteq> w \<and> 0 \<le> w \<and> w < 7 then seek_forward w (d + 1) else d)"
  by pat_completeness auto
termination
proof (relation "measure (\<lambda>(w, d). nat ((w - weekday d) mod 7))")
  fix w d assume "weekday d \<noteq> w \<and> 0 \<le> w \<and> w < 7"
  then show "((w, d + 1), (w, d)) \<in> measure (\<lambda>(w, d). nat ((w - weekday d) mod 7))"
    using weekday_gap_forward[of d w] pos_mod_sign[of 7 "w - weekday (d + 1)"] by simp
qed simp

declare seek_back.simps [simp del] seek_forward.simps [simp del]

definition nth_weekday_of_month :: "int \<Rightarrow> int \<Rightarrow> int \<Rightarrow> int \<Rightarrow> date option" where
  "nth_weekday_of_month y m w n =
     (if n = -1 then Some (seek_back w (mk_date y m (days_in_month y m)))
      else (let d = seek_forward w (mk_date y m 1) + 7 * (n - 1)
            in if month_of_year d \<noteq> m then None else Some d))"

definition pattern_date :: "int \<Rightarrow> int \<Rightarrow> pattern \<Rightarrow> date option" where
  "pattern_date y m p =
     (if p_type p = ''dayOfMonth'' then
        (let v = (case p_value p of Some v \<Rightarrow> v | None \<Rightarrow> 0)
         in if 1 \<le> v \<and> v \<le> days_in_month y m then Some (mk_date y m v) else None)
      else if p_type p = ''dayOfWeek'' then
        nth_weekday_of_month y m ((case p_value p of Some v \<Rightarrow> v | None \<Rightarrow> 0) mod 7)
          (case p_n p of Some n \<Rightarrow> n | None \<Rightarrow> 1)
      else None)"

definition month_occurrences :: "recurrence \<Rightarrow> int \<Rightarrow> int \<Rightarrow> date list" where
  "month_occurrences rec y m = sort (List.map_filter (pattern_date y m) (rec_patterns rec))"

text \<open>The loops advance by the interval, which the constructor keeps positive.\<close>

function daily_days :: "int \<Rightarrow> date \<Rightarrow> date \<Rightarrow> date \<Rightarrow> date list" where
  "daily_days i lo hi d =
     (if d \<le> hi \<and> 0 < i then (if lo \<le> d then [d] else []) @ daily_days i lo hi (d + i) else [])"
  by pat_completeness auto
termination by (relation "measure (\<lambda>(i, lo, hi, d). nat (hi - d + 1))") auto

fun weekly_weekdays :: "pattern list \<Rightarrow> (schedule_error, int list) result" where
  "weekly_weekdays [] = Inr []"
| "weekly_weekdays (p # ps) =
     (if p_type p = ''dayOfWeek'' then
        rbind (option_result MissingValue (p_value p)) (\<lambda>v.
        rbind (weekly_weekdays ps) (\<lambda>ws. Inr (v mod 7 # ws)))
      else weekly_weekdays ps)"

function weekly_days :: "int list \<Rightarrow> int \<Rightarrow> date \<Rightarrow> date \<Rightarrow> date \<Rightarrow> date \<Rightarrow> date list" where
  "weekly_days ws i anchor lo hi d =
     (if d \<le> hi then
        (if lo \<le> d \<and> weekday d \<in> set ws \<and> ((d - anchor) div 7) mod i = 0 then [d] else [])
          @ weekly_days ws i anchor lo hi (d + 1)
      else [])"
  by pat_completeness auto
termination by (relation "measure (\<lambda>(ws, i, anchor, lo, hi, d). nat (hi - d + 1))") auto

function monthly_days :: "recurrence \<Rightarrow> date \<Rightarrow> date \<Rightarrow> date \<Rightarrow> date list" where
  "monthly_days rec lo hi m =
     (if m \<le> hi then
        (let index = (year_of m - year_of (rec_start rec)) * 12
                       + (month_of_year m - month_of_year (rec_start rec))
         in if index mod rec_interval rec = 0 \<and> first_of_month lo \<le> m
            then filter (\<lambda>d. lo \<le> d \<and> d \<le> hi) (month_occurrences rec (year_of m) (month_of_year m))
            else [])
          @ monthly_days rec lo hi (next_month m)
      else [])"
  by pat_completeness auto

lemma next_month_greater: "m < next_month m"
  using in_month(2)[of m] by (simp add: next_month_start)

termination monthly_days
proof (relation "measure (\<lambda>(rec, lo, hi, m). nat (hi - m + 1))")
  fix rec :: recurrence and lo hi m :: date
  assume "m \<le> hi"
  then show "((rec, lo, hi, next_month m), (rec, lo, hi, m)) \<in> measure (\<lambda>(rec, lo, hi, m). nat (hi - m + 1))"
    using next_month_greater[of m] by simp
qed simp

definition yearly_month :: "recurrence \<Rightarrow> int" where
  "yearly_month rec =
     (case rec_month rec of Some m \<Rightarrow> if m = 0 then month_of_year (rec_start rec) else m
      | None \<Rightarrow> month_of_year (rec_start rec))"

definition yearly_day :: "recurrence \<Rightarrow> int" where
  "yearly_day rec =
     (case rec_day rec of Some d \<Rightarrow> if d = 0 then day_of (rec_start rec) else d
      | None \<Rightarrow> day_of (rec_start rec))"

function yearly_days :: "recurrence \<Rightarrow> date \<Rightarrow> date \<Rightarrow> int \<Rightarrow> date list" where
  "yearly_days rec lo hi y =
     (if mk_date y 1 1 \<le> hi \<and> 0 < rec_interval rec then
        (let m = yearly_month rec; dv = yearly_day rec
         in if 1 \<le> m \<and> m \<le> 12 \<and> 1 \<le> dv \<and> dv \<le> days_in_month y m
            then (let d = mk_date y m dv
                  in if lo \<le> d \<and> d \<le> hi \<and> rec_start rec \<le> d then [d] else [])
            else [])
          @ yearly_days rec lo hi (y + rec_interval rec)
      else [])"
  by pat_completeness auto
termination
proof (relation "measure (\<lambda>(rec, lo, hi, y). nat (hi - mk_date y 1 1 + 1))")
  fix rec :: recurrence and lo hi y
  assume a: "mk_date y 1 1 \<le> hi \<and> 0 < rec_interval rec"
  have "mk_date y 1 1 < mk_date (y + rec_interval rec) 1 1"
    using a days_before_year_strict[of y "y + rec_interval rec"]
    by (simp add: mk_date_def days_before_month_def)
  with a show "((rec, lo, hi, y + rec_interval rec), (rec, lo, hi, y))
    \<in> measure (\<lambda>(rec, lo, hi, y). nat (hi - mk_date y 1 1 + 1))" by simp
qed simp

declare daily_days.simps [simp del] weekly_days.simps [simp del] monthly_days.simps [simp del]
  yearly_days.simps [simp del]

section \<open>Occurrences in a window\<close>

definition raw_days :: "recurrence \<Rightarrow> date \<Rightarrow> date \<Rightarrow> (schedule_error, date list) result" where
  "raw_days rec lo hi =
     (case rec_frequency rec of
        Daily \<Rightarrow> Inr (daily_days (rec_interval rec) lo hi (rec_start rec))
      | Weekly \<Rightarrow>
          rbind (weekly_weekdays (rec_patterns rec)) (\<lambda>ws.
          Inr (weekly_days (if ws = [] then [weekday (rec_start rec)] else ws) (rec_interval rec)
                 (rec_start rec - rec_start rec mod 7) lo hi (rec_start rec)))
      | Monthly \<Rightarrow> Inr (monthly_days rec lo hi (first_of_month (rec_start rec)))
      | Yearly \<Rightarrow> Inr (yearly_days rec lo hi (year_of (rec_start rec))))"

definition solve_days :: "recurrence \<Rightarrow> date \<Rightarrow> date \<Rightarrow> date list \<Rightarrow> date list" where
  "solve_days rec lo hi out =
     (let solved = map (\<lambda>d. if rec_skip_weekend rec then solve_weekend d (rec_mode rec) else d) out
      in sort (remdups (filter (\<lambda>d. lo \<le> d \<and> d \<le> hi
            \<and> (case rec_end rec of None \<Rightarrow> True | Some e \<Rightarrow> d \<le> e) \<and> rec_start rec \<le> d) solved)))"

definition occurrences_between :: "recurrence \<Rightarrow> date \<Rightarrow> date \<Rightarrow> (schedule_error, date list) result" where
  "occurrences_between rec lo hi =
     (if hi < lo \<or> hi < rec_start rec then Inr []
      else rbind (raw_days rec lo hi) (\<lambda>out. Inr (solve_days rec lo hi out)))"

definition next_occurrence :: "recurrence \<Rightarrow> date \<Rightarrow> (schedule_error, date option) result" where
  "next_occurrence rec after =
     rbind (occurrences_between rec (after + 1) (after + 370)) (\<lambda>window.
     Inr (case window of [] \<Rightarrow> None | d # _ \<Rightarrow> Some d))"

section \<open>Status\<close>

definition POSTED_WINDOW_BEFORE :: int where "POSTED_WINDOW_BEFORE = 4"
definition POSTED_WINDOW_AFTER :: int where "POSTED_WINDOW_AFTER = 7"

definition occurrence_is_posted :: "date \<Rightarrow> date list \<Rightarrow> bool" where
  "occurrence_is_posted occurrence tx_dates =
     list_ex (\<lambda>d. occurrence - POSTED_WINDOW_BEFORE \<le> d \<and> d \<le> occurrence + POSTED_WINDOW_AFTER) tx_dates"

datatype schedule_state = Upcoming | Due | Paid | Missed | Completed

definition schedule_status ::
  "recurrence \<Rightarrow> date \<Rightarrow> date list \<Rightarrow> (schedule_error, schedule_state \<times> date option) result" where
  "schedule_status rec today tx_dates =
     rbind (occurrences_between rec (today - 60) (today + 370)) (\<lambda>window.
     if window = [] then Inr (Completed, None)
     else
       (let upcoming = filter (\<lambda>d. today \<le> d) window; recent = filter (\<lambda>d. d < today) window
        in if recent \<noteq> [] \<and> \<not> occurrence_is_posted (last recent) tx_dates
           then Inr (Missed, Some (last recent))
           else case upcoming of
             [] \<Rightarrow> Inr (Completed, None)
           | next_date # _ \<Rightarrow>
               if occurrence_is_posted next_date tx_dates
               then rbind (next_occurrence rec next_date) (\<lambda>following. Inr (Paid, following))
               else if next_date = today then Inr (Due, Some next_date)
               else Inr (Upcoming, Some next_date)))"

section \<open>The weekend solver\<close>

lemma back_to_weekday_eq:
  "back_to_weekday d = (if weekday d = 6 then d - 2 else if weekday d = 5 then d - 1 else d)"
proof -
  have sat: "back_to_weekday e = e - 1" if "weekday e = 5" for e
    using that weekday_pred[of e] by (simp add: back_to_weekday.simps[of e] back_to_weekday.simps[of "e - 1"])
  have "back_to_weekday d = d - 2" if "weekday d = 6"
    using that weekday_pred[of d] sat[of "d - 1"] by (simp add: back_to_weekday.simps[of d])
  moreover have "back_to_weekday d = d" if "weekday d < 5"
    using that by (simp add: back_to_weekday.simps[of d])
  ultimately show ?thesis
    using weekday_bounds[of d] sat[of d] by (cases "weekday d < 5") auto
qed

lemma forward_to_weekday_eq:
  "forward_to_weekday d = (if weekday d = 5 then d + 2 else if weekday d = 6 then d + 1 else d)"
proof -
  have sun: "forward_to_weekday e = e + 1" if "weekday e = 6" for e
    using that weekday_succ[of e] by (simp add: forward_to_weekday.simps[of e] forward_to_weekday.simps[of "e + 1"])
  have "forward_to_weekday d = d + 2" if "weekday d = 5"
    using that weekday_succ[of d] sun[of "d + 1"] by (simp add: forward_to_weekday.simps[of d])
  moreover have "forward_to_weekday d = d" if "weekday d < 5"
    using that by (simp add: forward_to_weekday.simps[of d])
  ultimately show ?thesis
    using weekday_bounds[of d] sun[of d] by (cases "weekday d < 5") auto
qed

lemma solve_weekend_eq:
  "solve_weekend d mode =
     (if weekday d < 5 then d
      else if mode = Before \<or> mode = Nearest \<and> weekday d = 5 then d - (weekday d - 4)
      else d + (7 - weekday d))"
  using weekday_bounds[of d]
  by (cases mode) (auto simp: solve_weekend_def back_to_weekday_eq forward_to_weekday_eq Let_def)

lemma solve_weekend_weekday: "weekday (solve_weekend d mode) < 5"
  using weekday_bounds[of d] unfolding solve_weekend_eq weekday_def by auto presburger+

section \<open>What the solvers compute\<close>

lemma arith_progression_step:
  assumes "0 < (i::int)"
  shows "d \<le> x \<and> (x - d) mod i = 0 \<longleftrightarrow> x = d \<or> d + i \<le> x \<and> (x - (d + i)) mod i = 0"
proof -
  have e: "(x - (d + i)) mod i = (x - d) mod i"
    by (metis diff_diff_eq minus_mod_self2)
  have "x = d \<or> d + i \<le> x" if "d \<le> x" "(x - d) mod i = 0"
    using that assms zdvd_imp_le[of i "x - d"] by (cases "x = d") (auto simp: mod_eq_0_iff_dvd)
  with e assms show ?thesis by auto
qed

lemma ex_first_or_rest:
  assumes "\<And>z. Q z \<longleftrightarrow> z = d \<or> R z"
  shows "(\<exists>z. Q z \<and> P z) \<longleftrightarrow> P d \<or> (\<exists>z. R z \<and> P z)"
  using assms by auto

lemma arith_progression_ex:
  assumes "0 < (i::int)"
  shows "(\<exists>z. d \<le> z \<and> (z - d) mod i = 0 \<and> P z)
    \<longleftrightarrow> P d \<or> (\<exists>z. d + i \<le> z \<and> (z - (d + i)) mod i = 0 \<and> P z)"
  using ex_first_or_rest[OF arith_progression_step[OF assms], of d P] by (simp only: conj_assoc)

lemma set_daily_days:
  "0 < i \<Longrightarrow> set (daily_days i lo hi d) = {x. lo \<le> x \<and> x \<le> hi \<and> d \<le> x \<and> (x - d) mod i = 0}"
proof (induction i lo hi d rule: daily_days.induct)
  case (1 i lo hi d)
  show ?case
  proof (cases "d \<le> hi")
    case True
    with 1 have IH: "set (daily_days i lo hi (d + i))
      = {x. lo \<le> x \<and> x \<le> hi \<and> d + i \<le> x \<and> (x - (d + i)) mod i = 0}" by simp
    have "set (daily_days i lo hi d) = {x. lo \<le> x \<and> x \<le> hi \<and> (x = d \<or> d + i \<le> x \<and> (x - (d + i)) mod i = 0)}"
      unfolding daily_days.simps[of i lo hi d] using True 1(2) IH by (simp del: daily_days.simps) blast
    also have "\<dots> = {x. lo \<le> x \<and> x \<le> hi \<and> d \<le> x \<and> (x - d) mod i = 0}"
    proof (rule Collect_cong)
      fix x
      show "(lo \<le> x \<and> x \<le> hi \<and> (x = d \<or> d + i \<le> x \<and> (x - (d + i)) mod i = 0))
        = (lo \<le> x \<and> x \<le> hi \<and> d \<le> x \<and> (x - d) mod i = 0)"
        by (simp only: arith_progression_step[OF 1(2), of d x])
    qed
    finally show ?thesis .
  next
    case False
    then show ?thesis by (auto simp: daily_days.simps[of i lo hi d])
  qed
qed

lemma set_weekly_days:
  "set (weekly_days ws i anchor lo hi d)
    = {x. lo \<le> x \<and> x \<le> hi \<and> d \<le> x \<and> weekday x \<in> set ws \<and> ((x - anchor) div 7) mod i = 0}"
proof (induction ws i anchor lo hi d rule: weekly_days.induct)
  case (1 ws i anchor lo hi d)
  show ?case
  proof (cases "d \<le> hi")
    case True
    have "d \<le> x \<longleftrightarrow> x = d \<or> d + 1 \<le> x" for x by auto
    with 1[OF True] True show ?thesis
      by (subst weekly_days.simps) auto
  next
    case False
    then show ?thesis by (subst weekly_days.simps) auto
  qed
qed

lemma set_monthly_days:
  "set (monthly_days rec lo hi (month_start k))
    = {x. lo \<le> x \<and> x \<le> hi \<and> (\<exists>i. k \<le> i \<and> month_start i \<le> hi \<and> first_of_month lo \<le> month_start i
          \<and> (i - month_index (rec_start rec)) mod rec_interval rec = 0
          \<and> x \<in> set (month_occurrences rec (i div 12) (i mod 12 + 1)))}"
proof (induction "nat (hi - month_start k + 1)" arbitrary: k rule: less_induct)
  case (less k)
  show ?case
  proof (cases "month_start k \<le> hi")
    case True
    have "nat (hi - month_start (k + 1) + 1) < nat (hi - month_start k + 1)"
      using True month_start_step[of k] by simp
    note IH = less(1)[OF this]
    have idx: "(k div 12 - year_of s) * 12 + (k mod 12 + 1 - month_of_year s) = k - month_index s" for s
      using mult_div_mod_eq[of 12 k] by (simp add: month_index_def)
    have unf: "set (monthly_days rec lo hi (month_start k))
      = {x. (k - month_index (rec_start rec)) mod rec_interval rec = 0 \<and> first_of_month lo \<le> month_start k
            \<and> lo \<le> x \<and> x \<le> hi \<and> x \<in> set (month_occurrences rec (k div 12) (k mod 12 + 1))}
        \<union> set (monthly_days rec lo hi (month_start (k + 1)))"
      using True
      unfolding monthly_days.simps[of rec lo hi "month_start k"] Let_def month_start_parts idx
        next_month_start month_index_start
      by auto
    have split: "(\<exists>i. k \<le> i \<and> P i) \<longleftrightarrow> P k \<or> (\<exists>i. k + 1 \<le> i \<and> P i)" for P
      by (rule ex_first_or_rest) auto
    show ?thesis unfolding unf IH split using True by auto
  next
    case False
    have "month_start i > hi" if "k \<le> i" for i
      using False month_start_mono[OF that] by simp
    with False show ?thesis by (subst monthly_days.simps) (auto simp: not_le[symmetric])
  qed
qed

definition yearly_date :: "recurrence \<Rightarrow> int \<Rightarrow> date" where
  "yearly_date rec y = mk_date y (yearly_month rec) (yearly_day rec)"

definition yearly_valid :: "recurrence \<Rightarrow> int \<Rightarrow> bool" where
  "yearly_valid rec y \<longleftrightarrow> 1 \<le> yearly_month rec \<and> yearly_month rec \<le> 12 \<and> 1 \<le> yearly_day rec
     \<and> yearly_day rec \<le> days_in_month y (yearly_month rec)"

lemma days_in_month_length:
  assumes "1 \<le> m" "m \<le> 12"
  shows "days_in_month y m = month_length y m"
proof (cases "m = 12")
  case True
  then show ?thesis by (simp add: days_in_month_def month_length_def days_before_month_def)
next
  case False
  have "mk_date y (m + 1) 1 - 1 = mk_date y m (month_length y m)"
    by (simp add: mk_date_def month_length_def)
  moreover have "1 \<le> month_length y m" using month_length_ge_28[OF assms, of y] by simp
  ultimately show ?thesis
    using False assms by (simp add: days_in_month_def day_of_mk_date)
qed

lemma yearly_date_parts:
  assumes "yearly_valid rec y"
  shows "year_of (yearly_date rec y) = y" "mk_date y 1 1 \<le> yearly_date rec y"
proof -
  note v = assms[unfolded yearly_valid_def]
  then have l: "yearly_day rec \<le> month_length y (yearly_month rec)"
    using days_in_month_length[of "yearly_month rec" y] by simp
  show "year_of (yearly_date rec y) = y"
    unfolding yearly_date_def using v l by (intro year_of_mk_date) auto
  show "mk_date y 1 1 \<le> yearly_date rec y"
    using days_before_month_bounds(1)[of "yearly_month rec" "yearly_day rec" y] v l
    by (simp add: yearly_date_def mk_date_def) (simp add: days_before_month_def)
qed

lemma set_yearly_days:
  assumes "0 < rec_interval rec"
  shows "set (yearly_days rec lo hi y)
    = {x. \<exists>z. y \<le> z \<and> (z - y) mod rec_interval rec = 0 \<and> yearly_valid rec z \<and> x = yearly_date rec z
            \<and> lo \<le> x \<and> x \<le> hi \<and> rec_start rec \<le> x}"
  using assms
proof (induction rec lo hi y rule: yearly_days.induct)
  case (1 rec lo hi y)
  show ?case
  proof (cases "mk_date y 1 1 \<le> hi")
    case True
    have IH: "set (yearly_days rec lo hi (y + rec_interval rec))
      = {x. \<exists>z. y + rec_interval rec \<le> z \<and> (z - (y + rec_interval rec)) mod rec_interval rec = 0
            \<and> yearly_valid rec z \<and> x = yearly_date rec z
            \<and> lo \<le> x \<and> x \<le> hi \<and> rec_start rec \<le> x}"
      using 1 True by simp
    have unf: "set (yearly_days rec lo hi y) =
      {x. yearly_valid rec y \<and> x = yearly_date rec y \<and> lo \<le> x \<and> x \<le> hi \<and> rec_start rec \<le> x}
        \<union> set (yearly_days rec lo hi (y + rec_interval rec))"
      using True 1(2)
      by (subst yearly_days.simps) (auto simp: Let_def yearly_valid_def yearly_date_def)
    show ?thesis unfolding unf IH Un_def mem_Collect_eq arith_progression_ex[OF 1(2), of y] ..
  next
    case False
    have "hi < yearly_date rec z" if "y \<le> z" "yearly_valid rec z" for z
    proof -
      have "mk_date y 1 1 \<le> mk_date z 1 1"
        using days_before_year_mono[OF that(1)] by (simp add: mk_date_def days_before_month_def)
      then show ?thesis using False yearly_date_parts(2)[OF that(2)] by simp
    qed
    with False show ?thesis by (subst yearly_days.simps) fastforce
  qed
qed

section \<open>Month patterns stay in their month\<close>

lemma seek_forward_eq:
  "0 \<le> w \<Longrightarrow> w < 7 \<Longrightarrow> seek_forward w d = d + (w - weekday d) mod 7"
proof (induction w d rule: seek_forward.induct)
  case (1 w d)
  then show ?case
    by (cases "weekday d = w") (simp_all add: seek_forward.simps[of w d] weekday_gap_forward)
qed

lemma seek_back_eq:
  "0 \<le> w \<Longrightarrow> w < 7 \<Longrightarrow> seek_back w d = d - (weekday d - w) mod 7"
proof (induction w d rule: seek_back.induct)
  case (1 w d)
  then show ?case
    by (cases "weekday d = w") (simp_all add: seek_back.simps[of w d] weekday_gap_back)
qed

lemma seek_forward_range:
  assumes "0 \<le> w" "w < 7"
  shows "d \<le> seek_forward w d" "seek_forward w d \<le> d + 6"
  unfolding seek_forward_eq[OF assms]
  using pos_mod_bound[of 7 "w - weekday d"] pos_mod_sign[of 7 "w - weekday d"] by auto

lemma seek_back_range:
  assumes "0 \<le> w" "w < 7"
  shows "d - 6 \<le> seek_back w d" "seek_back w d \<le> d"
  unfolding seek_back_eq[OF assms]
  using pos_mod_bound[of 7 "weekday d - w"] pos_mod_sign[of 7 "weekday d - w"] by auto

text \<open>The weekday patterns the configuration documents: the first to fifth of a month, or the last.\<close>

definition wf_pattern :: "pattern \<Rightarrow> bool" where
  "wf_pattern p \<longleftrightarrow> (p_type p = ''dayOfWeek'' \<longrightarrow>
     (case p_n p of None \<Rightarrow> True | Some n \<Rightarrow> n = -1 \<or> 1 \<le> n \<and> n \<le> 5))"

lemma nth_weekday_in_month:
  assumes "nth_weekday_of_month (i div 12) (i mod 12 + 1) w n = Some d" "0 \<le> w" "w < 7"
    and "n = -1 \<or> 1 \<le> n \<and> n \<le> 5"
  shows "month_index d = i"
proof -
  have m: "1 \<le> i mod 12 + 1" "i mod 12 + 1 \<le> 12" by simp_all
  have first: "mk_date (i div 12) (i mod 12 + 1) 1 = month_start i" by (simp add: month_start_def)
  show ?thesis
  proof (cases "n = -1")
    case True
    have "mk_date (i div 12) (i mod 12 + 1) (days_in_month (i div 12) (i mod 12 + 1)) = month_start (i + 1) - 1"
      using days_in_month_length[OF m] month_start_length[of i]
      by (simp add: month_start_def mk_date_def)
    then have "d = seek_back w (month_start (i + 1) - 1)"
      using assms(1) True by (simp add: nth_weekday_of_month_def)
    then show ?thesis
      using seek_back_range[OF assms(2,3), of "month_start (i + 1) - 1"] month_start_step[of i]
      by (intro month_index_unique) auto
  next
    case False
    then have d: "d = seek_forward w (month_start i) + 7 * (n - 1)" "month_of_year d = i mod 12 + 1"
      using assms(1) first by (auto simp: nth_weekday_of_month_def Let_def split: if_splits)
    moreover have "0 \<le> 7 * (n - 1)" "7 * (n - 1) \<le> 28" using assms(4) False by auto
    ultimately have "month_start i \<le> d" "d < month_start i + 42"
      using seek_forward_range[OF assms(2,3), of "month_start i"] by auto
    then have "month_start i < month_start (month_index d + 1)" "month_start (month_index d) < month_start (i + 2)"
      using in_month[of d] month_start_step[of i] month_start_step[of "i + 1"]
      by (simp_all add: add.commute)
    then have "i \<le> month_index d" "month_index d < i + 2"
      by (simp_all add: month_start_less_iff)
    moreover have "month_index d mod 12 = i mod 12"
      using d(2) month_of_year_bounds[of d] by (simp add: month_index_def)
    ultimately show ?thesis by presburger
  qed
qed

lemma month_occurrences_in_month:
  assumes "d \<in> set (month_occurrences rec (i div 12) (i mod 12 + 1))" "list_all wf_pattern (rec_patterns rec)"
  shows "month_index d = i"
proof -
  obtain p where p: "p \<in> set (rec_patterns rec)" "pattern_date (i div 12) (i mod 12 + 1) p = Some d"
    using assms(1) by (auto simp: month_occurrences_def List.map_filter_def)
  have m: "1 \<le> i mod 12 + 1" "i mod 12 + 1 \<le> 12" by simp_all
  show ?thesis
  proof (cases "p_type p = ''dayOfMonth''")
    case True
    then obtain v where v: "1 \<le> v" "v \<le> month_length (i div 12) (i mod 12 + 1)"
      "d = mk_date (i div 12) (i mod 12 + 1) v"
      using p(2) days_in_month_length[OF m] by (auto simp: pattern_date_def Let_def split: if_splits)
    then show ?thesis
      using year_of_mk_date[OF m v(1,2)] month_of_mk_date[OF m v(1,2)] by (simp add: month_index_def)
  next
    case False
    with p(2) have "nth_weekday_of_month (i div 12) (i mod 12 + 1)
        ((case p_value p of Some v \<Rightarrow> v | None \<Rightarrow> 0) mod 7) (case p_n p of Some n \<Rightarrow> n | None \<Rightarrow> 1) = Some d"
      and t: "p_type p = ''dayOfWeek''"
      by (auto simp: pattern_date_def split: if_splits)
    moreover have "(case p_n p of Some n \<Rightarrow> n | None \<Rightarrow> 1) = -1
        \<or> 1 \<le> (case p_n p of Some n \<Rightarrow> n | None \<Rightarrow> 1) \<and> (case p_n p of Some n \<Rightarrow> n | None \<Rightarrow> 1) \<le> (5::int)"
      using assms(2) p(1) t by (auto simp: wf_pattern_def list_all_iff split: option.splits)
    ultimately show ?thesis by (intro nth_weekday_in_month) auto
  qed
qed

section \<open>The meaning of a recurrence\<close>

text \<open>\<open>raw_occurrence rec ws d\<close>: the rule of \<open>rec\<close> produces day \<open>d\<close>, before weekends are solved;
  \<open>ws\<close> are the weekdays of a weekly rule.\<close>

definition raw_occurrence :: "recurrence \<Rightarrow> int list \<Rightarrow> date \<Rightarrow> bool" where
  "raw_occurrence rec ws d =
     (case rec_frequency rec of
        Daily \<Rightarrow> rec_start rec \<le> d \<and> (d - rec_start rec) mod rec_interval rec = 0
      | Weekly \<Rightarrow> rec_start rec \<le> d
          \<and> weekday d \<in> set (if ws = [] then [weekday (rec_start rec)] else ws)
          \<and> ((d - (rec_start rec - rec_start rec mod 7)) div 7) mod rec_interval rec = 0
      | Monthly \<Rightarrow> month_index (rec_start rec) \<le> month_index d
          \<and> (month_index d - month_index (rec_start rec)) mod rec_interval rec = 0
          \<and> d \<in> set (month_occurrences rec (year_of d) (month_of_year d))
      | Yearly \<Rightarrow> rec_start rec \<le> d \<and> (year_of d - year_of (rec_start rec)) mod rec_interval rec = 0
          \<and> yearly_valid rec (year_of d) \<and> d = yearly_date rec (year_of d))"

definition moved :: "recurrence \<Rightarrow> date \<Rightarrow> date" where
  "moved rec d = (if rec_skip_weekend rec then solve_weekend d (rec_mode rec) else d)"

definition in_life :: "recurrence \<Rightarrow> date \<Rightarrow> bool" where
  "in_life rec d \<longleftrightarrow> rec_start rec \<le> d \<and> (case rec_end rec of None \<Rightarrow> True | Some e \<Rightarrow> d \<le> e)"

lemma month_index_parts: "month_index d div 12 = year_of d" "month_index d mod 12 + 1 = month_of_year d"
  using month_of_year_bounds[of d] by (simp_all add: month_index_def)

lemma month_index_mono: "d \<le> e \<Longrightarrow> month_index d \<le> month_index e"
  using in_month[of d] in_month[of e] month_start_less_iff[of "month_index d" "month_index e + 1"]
  by linarith

lemma set_raw_days:
  assumes "1 \<le> rec_interval rec" "list_all wf_pattern (rec_patterns rec)"
    and "weekly_weekdays (rec_patterns rec) = Inr ws" "raw_days rec lo hi = Inr out"
  shows "set out = {d. raw_occurrence rec ws d \<and> lo \<le> d \<and> d \<le> hi}"
proof (cases "rec_frequency rec")
  case Daily
  then have "out = daily_days (rec_interval rec) lo hi (rec_start rec)"
    using assms(4) by (simp add: raw_days_def)
  then have "set out = {x. lo \<le> x \<and> x \<le> hi \<and> rec_start rec \<le> x \<and> (x - rec_start rec) mod rec_interval rec = 0}"
    using set_daily_days[of "rec_interval rec"] assms(1) by simp
  then show ?thesis
    using Daily by (simp only: raw_occurrence_def frequency.simps) (rule Collect_cong, simp only: conj_ac)
next
  case Weekly
  then have "out = weekly_days (if ws = [] then [weekday (rec_start rec)] else ws) (rec_interval rec)
                 (rec_start rec - rec_start rec mod 7) lo hi (rec_start rec)"
    using assms(3,4) by (simp add: raw_days_def)
  then show ?thesis using Weekly by (auto simp: raw_occurrence_def set_weekly_days)
next
  case Monthly
  then have out: "out = monthly_days rec lo hi (month_start (month_index (rec_start rec)))"
    using assms(4) by (simp add: raw_days_def first_of_month_start)
  have raw: "raw_occurrence rec ws x \<longleftrightarrow> month_index (rec_start rec) \<le> month_index x
      \<and> (month_index x - month_index (rec_start rec)) mod rec_interval rec = 0
      \<and> x \<in> set (month_occurrences rec (month_index x div 12) (month_index x mod 12 + 1))" for x
    unfolding raw_occurrence_def month_index_parts Monthly frequency.simps ..
  have "x \<in> set out \<longleftrightarrow> raw_occurrence rec ws x \<and> lo \<le> x \<and> x \<le> hi" for x
  proof
    assume "x \<in> set out"
    then obtain i where i: "month_index (rec_start rec) \<le> i" "lo \<le> x" "x \<le> hi"
      "(i - month_index (rec_start rec)) mod rec_interval rec = 0"
      "x \<in> set (month_occurrences rec (i div 12) (i mod 12 + 1))"
      unfolding out set_monthly_days mem_Collect_eq by (elim conjE exE)
    have "i = month_index x" using month_occurrences_in_month[OF i(5) assms(2)] by (rule sym)
    with i show "raw_occurrence rec ws x \<and> lo \<le> x \<and> x \<le> hi"
      unfolding raw by (simp only: simp_thms)
  next
    assume x: "raw_occurrence rec ws x \<and> lo \<le> x \<and> x \<le> hi"
    have h: "month_start (month_index x) \<le> hi" using in_month(1)[of x] x by linarith
    have l: "first_of_month lo \<le> month_start (month_index x)"
      unfolding first_of_month_start month_start_le_iff using x by (intro month_index_mono) simp
    show "x \<in> set out"
      unfolding out set_monthly_days mem_Collect_eq using x h l unfolding raw
      by (intro conjI exI[of _ "month_index x"]) simp_all
  qed
  then show ?thesis by blast
next
  case Yearly
  have "x \<in> set out \<longleftrightarrow> raw_occurrence rec ws x \<and> lo \<le> x \<and> x \<le> hi" for x
  proof -
    have "x \<in> set out \<longleftrightarrow> (\<exists>z. year_of (rec_start rec) \<le> z
        \<and> (z - year_of (rec_start rec)) mod rec_interval rec = 0 \<and> yearly_valid rec z
        \<and> x = yearly_date rec z \<and> lo \<le> x \<and> x \<le> hi \<and> rec_start rec \<le> x)"
    proof -
      have "out = yearly_days rec lo hi (year_of (rec_start rec))"
        using Yearly assms(4) by (simp add: raw_days_def)
      moreover have "0 < rec_interval rec" using assms(1) by simp
      ultimately show ?thesis by (simp only: set_yearly_days mem_Collect_eq)
    qed
    also have "\<dots> \<longleftrightarrow> raw_occurrence rec ws x \<and> lo \<le> x \<and> x \<le> hi"
    proof
      assume "raw_occurrence rec ws x \<and> lo \<le> x \<and> x \<le> hi"
      moreover have "year_of (rec_start rec) \<le> year_of x" if "rec_start rec \<le> x"
        using month_index_mono[OF that] month_index_parts(1) zdiv_mono1[of _ _ 12] by fastforce
      ultimately show "\<exists>z. year_of (rec_start rec) \<le> z
        \<and> (z - year_of (rec_start rec)) mod rec_interval rec = 0 \<and> yearly_valid rec z
        \<and> x = yearly_date rec z \<and> lo \<le> x \<and> x \<le> hi \<and> rec_start rec \<le> x"
        using Yearly by (intro exI[of _ "year_of x"]) (simp add: raw_occurrence_def)
    qed (use Yearly yearly_date_parts in \<open>auto simp: raw_occurrence_def\<close>)
    finally show ?thesis .
  qed
  then show ?thesis by blast
qed

lemma set_solve_days:
  "set (solve_days rec lo hi out) = {e \<in> moved rec ` set out. lo \<le> e \<and> e \<le> hi \<and> in_life rec e}"
  by (auto simp: solve_days_def moved_def in_life_def Let_def)

lemma raw_days_Inr:
  "weekly_weekdays (rec_patterns rec) = Inr ws \<Longrightarrow> \<exists>out. raw_days rec lo hi = Inr out"
  by (cases "rec_frequency rec") (auto simp: raw_days_def)

lemma occurrences_InrE:
  assumes "occurrences_between rec lo hi = Inr ds"
  obtains "hi < lo \<or> hi < rec_start rec" "ds = []"
    | out where "lo \<le> hi" "rec_start rec \<le> hi" "raw_days rec lo hi = Inr out" "ds = solve_days rec lo hi out"
  using assms by (auto simp: occurrences_between_def result_simps split: if_splits)

lemma solve_days_sorted: "sorted (solve_days rec lo hi out)" "distinct (solve_days rec lo hi out)"
  by (simp_all add: solve_days_def Let_def)

lemma occurrences_exact_set:
  assumes "1 \<le> rec_interval rec" "list_all wf_pattern (rec_patterns rec)"
    and "weekly_weekdays (rec_patterns rec) = Inr ws"
  shows "\<exists>ds. occurrences_between rec lo hi = Inr ds \<and>
    set ds = {e. \<exists>d. raw_occurrence rec ws d \<and> lo \<le> d \<and> d \<le> hi \<and> e = moved rec d
                  \<and> lo \<le> e \<and> e \<le> hi \<and> in_life rec e}"
proof (cases "hi < lo \<or> hi < rec_start rec")
  case True
  then show ?thesis by (auto simp: occurrences_between_def in_life_def)
next
  case False
  obtain out where out: "raw_days rec lo hi = Inr out" using raw_days_Inr[OF assms(3)] by blast
  show ?thesis
  proof (intro exI conjI)
    show "occurrences_between rec lo hi = Inr (solve_days rec lo hi out)"
      using False out by (simp add: occurrences_between_def)
    show "set (solve_days rec lo hi out)
      = {e. \<exists>d. raw_occurrence rec ws d \<and> lo \<le> d \<and> d \<le> hi \<and> e = moved rec d
              \<and> lo \<le> e \<and> e \<le> hi \<and> in_life rec e}"
      unfolding set_solve_days set_raw_days[OF assms out] by auto
  qed
qed

section \<open>Properties of the recurrence engine\<close>

lemma solve_weekend_near: "d - 2 \<le> solve_weekend d mode" "solve_weekend d mode \<le> d + 2"
  using weekday_bounds[of d] by (auto simp: solve_weekend_eq)

lemma moved_near: "d - 2 \<le> moved rec d" "moved rec d \<le> d + 2"
  using solve_weekend_near by (simp_all add: moved_def)

text \<open>A window has clean edges when the weekend solver moves no day across them. Moving forward
  carries Saturday and Sunday over a Sunday or Monday on which the window opens; moving back
  carries them over a Friday or Saturday on which it closes; moving to the nearest weekday carries
  Sunday over an opening Monday and Saturday over a closing Friday.\<close>

definition clean_edges :: "recurrence \<Rightarrow> date \<Rightarrow> date \<Rightarrow> bool" where
  "clean_edges rec lo hi \<longleftrightarrow>
     (rec_skip_weekend rec \<longrightarrow>
       (case rec_mode rec of
         After \<Rightarrow> weekday lo \<noteq> 6 \<and> weekday lo \<noteq> 0
       | Before \<Rightarrow> weekday hi \<noteq> 4 \<and> weekday hi \<noteq> 5
       | Nearest \<Rightarrow> weekday lo \<noteq> 0 \<and> weekday hi \<noteq> 4))"

lemma weekday_shift: "weekday (d + n) = (weekday d + n) mod 7"
  by (simp add: weekday_def ac_simps mod_simps)

lemma clean_edges_moved:
  assumes "clean_edges rec lo hi" "lo \<le> moved rec d" "moved rec d \<le> hi"
  shows "lo \<le> d \<and> d \<le> hi"
proof (cases "rec_skip_weekend rec \<and> 5 \<le> weekday d")
  case False
  then show ?thesis using assms(2,3) by (auto simp: moved_def solve_weekend_eq split: if_splits)
next
  case True
  have days: "weekday d = 5 \<or> weekday d = 6" using True weekday_bounds[of d] by auto
  have beside: "weekday (d + 1) = (weekday d + 1) mod 7" "weekday (d + 2) = (weekday d + 2) mod 7"
    "weekday (d - 1) = (weekday d - 1) mod 7" "weekday (d - 2) = (weekday d - 2) mod 7"
    using weekday_shift[of d "- 1"] weekday_shift[of d "- 2"] by (simp_all add: weekday_shift)
  show ?thesis
  proof (rule ccontr)
    assume "\<not> (lo \<le> d \<and> d \<le> hi)"
    then consider "lo = d + 1" | "lo = d + 2" | "hi = d - 1" | "hi = d - 2"
      using moved_near[where d = d and rec = rec] assms(2,3) by linarith
    then show False
      using assms True days
      by cases (auto simp: clean_edges_def moved_def solve_weekend_eq beside split: solve_mode.splits)
  qed
qed

text \<open>C40. The occurrences of a window are exactly the days of the rule of the frequency, moved off
  weekends where asked, that lie in the window and in the schedule's life, in order and each once;
  every validated recurrence has them. Where weekends are skipped the window must have clean edges,
  since the code looks for the days before it moves them (\<open>window_edge_loss\<close> shows the loss).\<close>

theorem occurrences_exact:
  assumes "1 \<le> rec_interval rec" "list_all wf_pattern (rec_patterns rec)"
    and "weekly_weekdays (rec_patterns rec) = Inr ws"
    and "clean_edges rec lo hi"
  shows "\<exists>ds. occurrences_between rec lo hi = Inr ds \<and> sorted ds \<and> distinct ds \<and>
    set ds = {e. (\<exists>d. raw_occurrence rec ws d \<and> e = moved rec d) \<and> lo \<le> e \<and> e \<le> hi \<and> in_life rec e}"
proof -
  obtain ds where ds: "occurrences_between rec lo hi = Inr ds"
    and s: "set ds = {e. \<exists>d. raw_occurrence rec ws d \<and> lo \<le> d \<and> d \<le> hi \<and> e = moved rec d
                  \<and> lo \<le> e \<and> e \<le> hi \<and> in_life rec e}"
    using occurrences_exact_set[OF assms(1-3)] by blast
  have "sorted ds" "distinct ds"
    using ds by (auto elim!: occurrences_InrE simp: solve_days_sorted)
  moreover have "set ds
    = {e. (\<exists>d. raw_occurrence rec ws d \<and> e = moved rec d) \<and> lo \<le> e \<and> e \<le> hi \<and> in_life rec e}"
    unfolding s using clean_edges_moved[OF assms(4)] by blast
  ultimately show ?thesis using ds by blast
qed

text \<open>A monthly bill on the first and on the last Friday, starting 2026-01-10.\<close>

definition rent :: recurrence where
  "rent = \<lparr>rec_frequency = Monthly, rec_start = mk_date 2026 1 10, rec_interval = 1, rec_end = None,
     rec_skip_weekend = True, rec_mode = After,
     rec_patterns = [\<lparr>p_type = ''dayOfMonth'', p_value = Some 1, p_n = None\<rparr>,
                     \<lparr>p_type = ''dayOfWeek'', p_value = Some 4, p_n = Some (-1)\<rparr>],
     rec_month = None, rec_day = None\<rparr>"

lemma rent_wf:
  "1 \<le> rec_interval rent" "list_all wf_pattern (rec_patterns rent)" "weekly_weekdays (rec_patterns rent) = Inr [4]"
  by (simp_all add: rent_def wf_pattern_def)

lemma rent_edges: "clean_edges rent (mk_date 2026 3 3) (mk_date 2026 4 1)"
  by code_simp

lemma occurrences_exact_witness:
  "\<exists>ds. occurrences_between rent (mk_date 2026 3 3) (mk_date 2026 4 1) = Inr ds \<and> sorted ds \<and> distinct ds \<and>
    set ds = {e. (\<exists>d. raw_occurrence rent [4] d \<and> e = moved rent d)
                  \<and> mk_date 2026 3 3 \<le> e \<and> e \<le> mk_date 2026 4 1 \<and> in_life rent e}"
  by (rule occurrences_exact[OF rent_wf rent_edges])

text \<open>The result is sorted and free of duplicates, lies in the window and in the schedule's life,
  and has no Saturday or Sunday when weekends are skipped.\<close>

theorem occurrences_window:
  assumes "occurrences_between rec lo hi = Inr ds"
  shows "sorted ds \<and> distinct ds \<and> (\<forall>d\<in>set ds. lo \<le> d \<and> d \<le> hi \<and> in_life rec d
    \<and> (rec_skip_weekend rec \<longrightarrow> weekday d < 5))"
  using assms
proof (cases rule: occurrences_InrE)
  case (2 out)
  then show ?thesis
    by (auto simp: solve_days_sorted set_solve_days moved_def solve_weekend_weekday)
qed simp

lemma occurrences_window_witness:
  "occurrences_between rent (mk_date 2026 3 1) (mk_date 2026 3 31) = Inr [mk_date 2026 3 2, mk_date 2026 3 27]
    \<and> sorted [mk_date 2026 3 2, mk_date 2026 3 27]"
proof -
  have e: "occurrences_between rent (mk_date 2026 3 1) (mk_date 2026 3 31) = Inr [mk_date 2026 3 2, mk_date 2026 3 27]"
    by code_simp
  from occurrences_window[OF e] e show ?thesis by blast
qed

text \<open>A bill on the first of each month, moved to the next weekday.\<close>

definition first_of_month_bill :: recurrence where
  "first_of_month_bill = rent\<lparr>rec_patterns := [\<lparr>p_type = ''dayOfMonth'', p_value = Some 1, p_n = None\<rparr>]\<rparr>"

lemma bill_wf:
  "1 \<le> rec_interval first_of_month_bill" "list_all wf_pattern (rec_patterns first_of_month_bill)"
  "weekly_weekdays (rec_patterns first_of_month_bill) = Inr []"
  by (simp_all add: first_of_month_bill_def rent_def wf_pattern_def)

text \<open>A date the weekend solver moves into a window from the day before it is lost: the same
  occurrence is reported by a wider window and not by the narrower one, though it lies in both,
  so the next occurrence after the first of August is reported a month late. Here the bill of
  Saturday 2026-08-01, moved to Monday 2026-08-03.\<close>

theorem window_edge_loss:
  "occurrences_between first_of_month_bill (mk_date 2026 8 1) (mk_date 2026 8 31) = Inr [mk_date 2026 8 3]
   \<and> occurrences_between first_of_month_bill (mk_date 2026 8 3) (mk_date 2026 8 31) = Inr []
   \<and> (\<exists>late. next_occurrence first_of_month_bill (mk_date 2026 8 1) = Inr (Some late) \<and> mk_date 2026 8 31 < late)"
proof -
  have "occurrences_between first_of_month_bill (mk_date 2026 8 1) (mk_date 2026 8 31) = Inr [mk_date 2026 8 3]"
    by code_simp
  moreover have "occurrences_between first_of_month_bill (mk_date 2026 8 3) (mk_date 2026 8 31) = Inr []"
    by code_simp
  moreover have "next_occurrence first_of_month_bill (mk_date 2026 8 1) = Inr (Some (mk_date 2026 9 1))"
    by code_simp
  moreover have "mk_date 2026 8 31 < mk_date 2026 9 1" by code_simp
  ultimately show ?thesis by blast
qed

text \<open>Two days of slack on each side are enough: restricted to a window, the occurrences of the
  window widened by two days are all the moved dates of the rule that fall in it.\<close>

theorem widened_window_complete:
  assumes "1 \<le> rec_interval rec" "list_all wf_pattern (rec_patterns rec)"
    and "weekly_weekdays (rec_patterns rec) = Inr ws"
    and "occurrences_between rec (lo - 2) (hi + 2) = Inr ds"
  shows "{e \<in> set ds. lo \<le> e \<and> e \<le> hi}
    = {e. (\<exists>d. raw_occurrence rec ws d \<and> e = moved rec d) \<and> lo \<le> e \<and> e \<le> hi \<and> in_life rec e}"
proof -
  have "set ds = {e. \<exists>d. raw_occurrence rec ws d \<and> lo - 2 \<le> d \<and> d \<le> hi + 2 \<and> e = moved rec d
                  \<and> lo - 2 \<le> e \<and> e \<le> hi + 2 \<and> in_life rec e}"
    using occurrences_exact_set[OF assms(1-3), of "lo - 2" "hi + 2"] assms(4) by auto
  moreover have "lo - 2 \<le> d" "d \<le> hi + 2" if "lo \<le> moved rec d" "moved rec d \<le> hi" for d
    using that moved_near[where d = d and rec = rec] by linarith+
  ultimately show ?thesis by auto
qed

lemma widened_window_complete_witness:
  "{e \<in> set [mk_date 2026 8 3]. mk_date 2026 8 3 \<le> e \<and> e \<le> mk_date 2026 8 29}
    = {e. (\<exists>d. raw_occurrence first_of_month_bill [] d \<and> e = moved first_of_month_bill d)
          \<and> mk_date 2026 8 3 \<le> e \<and> e \<le> mk_date 2026 8 29 \<and> in_life first_of_month_bill e}"
proof (rule widened_window_complete[OF bill_wf])
  show "occurrences_between first_of_month_bill (mk_date 2026 8 3 - 2) (mk_date 2026 8 29 + 2)
    = Inr [mk_date 2026 8 3]" by code_simp
qed

text \<open>The next occurrence is in the 370 days after the given day, in the schedule's life, and no
  earlier day of those is an occurrence of that window; it is absent only when the window is empty.\<close>

theorem next_occurrence_least:
  assumes "occurrences_between rec (after + 1) (after + 370) = Inr ds"
  shows "next_occurrence rec after = Inr (if ds = [] then None else Some (Min (set ds)))
    \<and> (\<forall>d. next_occurrence rec after = Inr (Some d) \<longrightarrow>
        after < d \<and> d \<le> after + 370 \<and> in_life rec d \<and> (\<forall>e\<in>set ds. d \<le> e))"
proof -
  have s: "sorted ds" and w: "\<forall>d\<in>set ds. after + 1 \<le> d \<and> d \<le> after + 370 \<and> in_life rec d"
    using assms by (auto elim!: occurrences_InrE simp: solve_days_sorted set_solve_days)
  show ?thesis
  proof (cases ds)
    case Nil
    then show ?thesis using assms by (simp add: next_occurrence_def)
  next
    case (Cons d es)
    then have "Min (set ds) = d" using s by (intro Min_eqI) auto
    with Cons show ?thesis using assms s w by (auto simp: next_occurrence_def)
  qed
qed

lemma next_occurrence_least_witness:
  "next_occurrence (rent\<lparr>rec_end := Some (mk_date 2026 3 10)\<rparr>) (mk_date 2026 2 28) = Inr (Some (mk_date 2026 3 2))"
proof -
  have "occurrences_between (rent\<lparr>rec_end := Some (mk_date 2026 3 10)\<rparr>) (mk_date 2026 2 28 + 1) (mk_date 2026 2 28 + 370)
    = Inr [mk_date 2026 3 2]" by code_simp
  from next_occurrence_least[OF this] show ?thesis by simp
qed

lemma sorted_last_max: "sorted xs \<Longrightarrow> x \<in> set xs \<Longrightarrow> x \<le> last xs"
  by (induction xs) auto

text \<open>The status agrees with the occurrences of the sixty days before and the 370 days after
  today: missed names the latest past occurrence and it has no transaction near it, due is today,
  upcoming is the first future occurrence and nothing has been posted for it, paid means the
  first occurrence from today on has been posted, and completed means none is left.\<close>

theorem schedule_status_sound:
  assumes "occurrences_between rec (today - 60) (today + 370) = Inr ds"
    and "schedule_status rec today txs = Inr (st, nxt)"
  shows "case st of
      Missed \<Rightarrow> \<exists>d\<in>set ds. nxt = Some d \<and> d < today \<and> \<not> occurrence_is_posted d txs
                 \<and> (\<forall>e\<in>set ds. e < today \<longrightarrow> e \<le> d)
    | Due \<Rightarrow> nxt = Some today \<and> today \<in> set ds \<and> \<not> occurrence_is_posted today txs
    | Upcoming \<Rightarrow> \<exists>d\<in>set ds. nxt = Some d \<and> today < d \<and> \<not> occurrence_is_posted d txs
                 \<and> (\<forall>e\<in>set ds. today \<le> e \<longrightarrow> d \<le> e)
    | Paid \<Rightarrow> \<exists>d\<in>set ds. today \<le> d \<and> occurrence_is_posted d txs
                 \<and> (\<forall>e\<in>set ds. today \<le> e \<longrightarrow> d \<le> e) \<and> next_occurrence rec d = Inr nxt
    | Completed \<Rightarrow> nxt = None \<and> (\<forall>e\<in>set ds. e < today)"
proof -
  have s: "sorted ds" using assms(1) by (auto elim!: occurrences_InrE simp: solve_days_sorted)
  define recent where "recent = filter (\<lambda>d. d < today) ds"
  have st: "schedule_status rec today txs = (if ds = [] then Inr (Completed, None)
      else if recent \<noteq> [] \<and> \<not> occurrence_is_posted (last recent) txs then Inr (Missed, Some (last recent))
      else case filter (\<lambda>d. today \<le> d) ds of
             [] \<Rightarrow> Inr (Completed, None)
           | d # _ \<Rightarrow> if occurrence_is_posted d txs
               then rbind (next_occurrence rec d) (\<lambda>f. Inr (Paid, f))
               else if d = today then Inr (Due, Some d) else Inr (Upcoming, Some d))"
    using assms(1) by (simp add: schedule_status_def recent_def Let_def)
  show ?thesis
  proof (cases "recent \<noteq> [] \<and> \<not> occurrence_is_posted (last recent) txs")
    case True
    have "last recent \<in> set recent" using True by simp
    moreover have "e \<le> last recent" if "e \<in> set ds" "e < today" for e
      using that s by (intro sorted_last_max) (auto simp: recent_def sorted_wrt_filter)
    moreover have "ds \<noteq> []" using True by (auto simp: recent_def)
    ultimately show ?thesis using True assms(2) st by (auto simp: recent_def)
  next
    case False
    show ?thesis
    proof (cases "filter (\<lambda>d. today \<le> d) ds")
      case Nil
      then have "(st, nxt) = (Completed, None)" using st False assms(2) by (auto split: if_splits)
      then show ?thesis using Nil by (auto simp: filter_empty_conv)
    next
      case (Cons d es)
      have "d \<in> set ds" "today \<le> d"
        using Cons by (auto dest: filter_eq_ConsD)
      moreover have "sorted (d # es)" using s Cons sorted_wrt_filter[of "(\<le>)" ds "\<lambda>d. today \<le> d"] by simp
      then have "\<forall>e\<in>set ds. today \<le> e \<longrightarrow> d \<le> e"
        using arg_cong[OF Cons, of set] by (auto simp: set_eq_iff)
      moreover have "ds \<noteq> []" using Cons by auto
      ultimately show ?thesis using assms(2)[unfolded st] False Cons
        by (auto simp: result_simps split: if_splits)
    qed
  qed
qed

lemma schedule_status_sound_witness:
  "schedule_status rent (mk_date 2026 3 3) [mk_date 2026 3 2] = Inr (Upcoming, Some (mk_date 2026 3 27))
   \<and> mk_date 2026 3 3 < mk_date 2026 3 27 \<and> \<not> occurrence_is_posted (mk_date 2026 3 27) [mk_date 2026 3 2]"
proof -
  define ds where "ds = (case occurrences_between rent (mk_date 2026 3 3 - 60) (mk_date 2026 3 3 + 370) of Inr ds \<Rightarrow> ds)"
  have o: "occurrences_between rent (mk_date 2026 3 3 - 60) (mk_date 2026 3 3 + 370) = Inr ds"
    unfolding ds_def by code_simp
  have st: "schedule_status rent (mk_date 2026 3 3) [mk_date 2026 3 2] = Inr (Upcoming, Some (mk_date 2026 3 27))"
    by code_simp
  from schedule_status_sound[OF o st] st show ?thesis by auto
qed

end
