(* ===== verification/Normalisation.thy ===== *)
theory Normalisation
  imports Text Calendar
begin

text \<open>
  Import normalisation: \<open>src/omni/finance/normalisation.py\<close> and the CSV reading of
  \<open>src/omni/finance/service.py\<close> (\<open>_map_columns\<close>, \<open>parse_csv\<close>). Text is ASCII, where Unicode
  decomposition and the special-letter table change nothing and \<open>normalised_string\<close> is \<open>lower\<close>.
  A CSV file enters as the rows \<open>csv.reader\<close> yields, and \<open>_parse_date\<close> (a series of \<open>strptime\<close>
  formats) is the argument \<open>parse_date\<close>. The lemmas show that cents survive the round trip through
  their decimal notation and what a signed debit column does.
\<close>

section \<open>Names and notes\<close>

definition normalised_string :: "string \<Rightarrow> string" where
  "normalised_string value = lower value"

definition SMALL_WORDS :: "string list" where
  "SMALL_WORDS = [''a'', ''an'', ''and'', ''as'', ''at'', ''but'', ''by'', ''for'', ''in'', ''of'',
     ''on'', ''or'', ''the'', ''to'', ''vs'', ''via'']"

definition title_word :: "nat \<Rightarrow> nat \<Rightarrow> string \<Rightarrow> string" where
  "title_word idx n word =
     (if idx \<notin> {0, n - 1} \<and> lower word \<in> set SMALL_WORDS \<and> \<not> is_upper word then lower word
      else upper (take 1 word) @ drop 1 word)"

definition title_case :: "string \<Rightarrow> string" where
  "title_case value =
     (let words = split_words [] value
      in join '' '' (map (\<lambda>(idx, word). title_word idx (length words) word) (enumerate 0 words)))"

definition normalise_payee_name :: "string option \<Rightarrow> string option" where
  "normalise_payee_name name =
     (case name of None \<Rightarrow> None | Some s \<Rightarrow> if strip s = [] then None else Some (title_case (strip s)))"

definition double_hash :: "string \<Rightarrow> string" where
  "double_hash s = concat (map (\<lambda>c. if c = CHR ''#'' then ''##'' else [c]) s)"

definition normalise_notes :: "string option \<Rightarrow> string option" where
  "normalise_notes notes =
     (case notes of None \<Rightarrow> None | Some s \<Rightarrow> if strip s = [] then None else Some (double_hash (strip s)))"

section \<open>Amounts\<close>

text \<open>An incoming amount: an integer already in cents, or text (a float enters as its \<open>str\<close>).\<close>

datatype raw_amount = Cents int | AmountText string

datatype import_error = ImportRowError string | ValueError | HeaderError | EmptyCsv

definition option_int :: "string \<Rightarrow> (import_error, int) result" where
  "option_int s = (case py_int (if s = [] then ''0'' else s) of Some v \<Rightarrow> Inr v | None \<Rightarrow> Inl ValueError)"

definition amount_to_cents :: "raw_amount \<Rightarrow> (import_error, int) result" where
  "amount_to_cents value =
     (case value of
        Cents c \<Rightarrow> Inr c
      | AmountText s \<Rightarrow>
          (let text = filter (\<lambda>c. c \<noteq> CHR '','' \<and> c \<noteq> CHR ''$'') (strip s);
               negative = (take 1 text = ''-'');
               text = (if negative then drop 1 text else text);
               whole = (if CHR ''.'' \<in> set text then before (CHR ''.'') text else text);
               frac = (if CHR ''.'' \<in> set text then take 2 (after_sep (CHR ''.'') text @ ''00'') else ''00'')
           in rbind (option_int whole) (\<lambda>w.
              rbind (option_int frac) (\<lambda>f.
              Inr (if negative then - (w * 100 + f) else w * 100 + f)))))"

section \<open>One import row\<close>

record import_row =
  ir_date :: "string option"
  ir_payee_name :: "string option"
  ir_imported_payee :: "string option"
  ir_amount :: "raw_amount option"
  ir_imported_id :: "string option"
  ir_notes :: "string option"
  ir_cleared :: "bool option"
  ir_category :: "string option"
  ir_raw :: "string option"

record normal_row =
  nr_date :: string
  nr_amount :: int
  nr_payee_name :: "string option"
  nr_imported_id :: "string option"
  nr_imported_payee :: "string option"
  nr_notes :: "string option"
  nr_cleared :: bool
  nr_category :: "string option"
  nr_raw :: "string option"

text \<open>\<open>x or None\<close> and \<open>x or y\<close> on optional strings: the empty string is falsy.\<close>

definition non_empty :: "string option \<Rightarrow> string option" where
  "non_empty x = (case x of Some [] \<Rightarrow> None | _ \<Rightarrow> x)"

definition or_else :: "'a option \<Rightarrow> 'a option \<Rightarrow> 'a option" where
  "or_else x y = (case x of None \<Rightarrow> y | Some _ \<Rightarrow> x)"

definition empty_amount :: "raw_amount option \<Rightarrow> bool" where
  "empty_amount a \<longleftrightarrow> a = None \<or> a = Some (AmountText [])"

lemma non_empty_eq_Some: "non_empty x = Some s \<longleftrightarrow> x = Some s \<and> s \<noteq> []"
  by (auto simp: non_empty_def split: option.splits list.splits)

lemma not_empty_amount: "\<not> empty_amount x \<Longrightarrow> \<exists>a. x = Some a"
  by (auto simp: empty_amount_def)

definition normalise_import_row :: "import_row \<Rightarrow> (import_error, normal_row) result" where
  "normalise_import_row row =
     rbind (option_result (ImportRowError ''date'') (non_empty (ir_date row))) (\<lambda>date.
     (let payee_name = normalise_payee_name (ir_payee_name row);
          imported_payee = non_empty (Some (strip (case or_else (non_empty (ir_imported_payee row)) payee_name of
             Some s \<Rightarrow> s | None \<Rightarrow> [])))
      in
      rbind (ensure (payee_name \<noteq> None \<or> imported_payee \<noteq> None) (ImportRowError ''payee_name'')) (\<lambda>_.
      rbind (ensure (\<not> empty_amount (ir_amount row)) (ImportRowError ''amount'')) (\<lambda>_.
      rbind (amount_to_cents (the (ir_amount row))) (\<lambda>amount.
      rbind (ensure (amount \<noteq> 0) (ImportRowError ''amount must be non-zero'')) (\<lambda>_.
      Inr \<lparr>nr_date = take 10 date, nr_amount = amount, nr_payee_name = payee_name,
           nr_imported_id = non_empty (ir_imported_id row), nr_imported_payee = imported_payee,
           nr_notes = normalise_notes (ir_notes row),
           nr_cleared = (case ir_cleared row of Some b \<Rightarrow> b | None \<Rightarrow> True),
           nr_category = non_empty (ir_category row), nr_raw = ir_raw row\<rparr>))))))"

section \<open>CSV files\<close>

definition header_matches :: "string list \<Rightarrow> string \<Rightarrow> bool" where
  "header_matches words column = list_ex (\<lambda>w. contains w (lower column)) words"

record columns =
  col_date :: "nat option"
  col_payee :: "nat option"
  col_amount :: "nat option"
  col_debit :: "nat option"
  col_credit :: "nat option"
  col_notes :: "nat option"
  col_imported_id :: "nat option"

definition no_columns :: columns where
  "no_columns = \<lparr>col_date = None, col_payee = None, col_amount = None, col_debit = None,
     col_credit = None, col_notes = None, col_imported_id = None\<rparr>"

definition map_column :: "nat \<times> string \<Rightarrow> columns \<Rightarrow> columns" where
  "map_column ic m =
     (let (idx, column) = ic in
      if col_date m = None \<and> header_matches [''date'', ''posted'', ''transaction date''] column
        then m\<lparr>col_date := Some idx\<rparr>
      else if col_payee m = None
          \<and> header_matches [''payee'', ''description'', ''merchant'', ''name'', ''detail''] column
        then m\<lparr>col_payee := Some idx\<rparr>
      else if col_amount m = None \<and> header_matches [''amount'', ''value''] column
        then m\<lparr>col_amount := Some idx\<rparr>
      else if col_debit m = None \<and> header_matches [''debit'', ''withdraw'', ''money_out''] column
        then m\<lparr>col_debit := Some idx\<rparr>
      else if col_credit m = None \<and> header_matches [''credit'', ''deposit'', ''money_in''] column
        then m\<lparr>col_credit := Some idx\<rparr>
      else if col_notes m = None \<and> header_matches [''notes'', ''memo'', ''comment''] column
        then m\<lparr>col_notes := Some idx\<rparr>
      else if col_imported_id m = None \<and> header_matches [''fitid'', ''reference'', ''ref'', ''id''] column
        then m\<lparr>col_imported_id := Some idx\<rparr>
      else m)"

definition map_columns :: "string list \<Rightarrow> (import_error, columns) result" where
  "map_columns header =
     (let m = fold map_column (enumerate 0 header) no_columns
      in if col_date m = None \<or> (col_amount m = None \<and> col_debit m = None \<and> col_credit m = None)
         then Inl HeaderError else Inr m)"

definition pick :: "string list \<Rightarrow> nat option \<Rightarrow> string option" where
  "pick line idx = (case idx of None \<Rightarrow> None | Some i \<Rightarrow> if i < length line then Some (strip (line ! i)) else None)"

lemma pick_None: "pick line None = None"
  by (simp add: pick_def)

definition csv_amount :: "columns \<Rightarrow> string list \<Rightarrow> string option" where
  "csv_amount m line =
     (case pick line (col_amount m) of
        Some a \<Rightarrow> Some a
      | None \<Rightarrow>
          (case non_empty (pick line (col_debit m)) of
             Some debit \<Rightarrow> Some (''-'' @ debit)
           | None \<Rightarrow> non_empty (pick line (col_credit m))))"

definition csv_line :: "(string \<Rightarrow> (import_error, string) result) \<Rightarrow> columns \<Rightarrow> string list
    \<Rightarrow> (import_error, import_row) result" where
  "csv_line parse_date m line =
     rbind (parse_date (case pick line (col_date m) of Some d \<Rightarrow> d | None \<Rightarrow> [])) (\<lambda>date.
     Inr \<lparr>ir_date = Some date, ir_payee_name = pick line (col_payee m), ir_imported_payee = None,
          ir_amount = map_option AmountText (csv_amount m line),
          ir_imported_id = pick line (col_imported_id m), ir_notes = pick line (col_notes m),
          ir_cleared = None, ir_category = None, ir_raw = None\<rparr>)"

definition parse_csv :: "(string \<Rightarrow> (import_error, string) result) \<Rightarrow> string list list
    \<Rightarrow> (import_error, import_row list) result" where
  "parse_csv parse_date rows =
     (case rows of
        [] \<Rightarrow> Inl EmptyCsv
      | header # lines \<Rightarrow>
          rbind (map_columns (map strip header)) (\<lambda>m.
          rmap (csv_line parse_date m) (filter (list_ex (\<lambda>cell. strip cell \<noteq> [])) lines)))"

section \<open>Decimal notation of cents\<close>

definition cents_digits :: "nat \<Rightarrow> string" where
  "cents_digits f = [digit_char (f div 10), digit_char f]"

definition render_unsigned :: "nat \<Rightarrow> string" where
  "render_unsigned n = decimal (n div 100) @ CHR ''.'' # cents_digits (n mod 100)"

definition render_cents :: "int \<Rightarrow> string" where
  "render_cents c = (if c < 0 then ''-'' else []) @ render_unsigned (nat \<bar>c\<bar>)"

lemma cents_digits_value:
  assumes "f < 100"
  shows "py_int (cents_digits f) = Some (int f)"
proof -
  have "f div 10 mod 10 = f div 10" using assms by simp
  then have "int f = int (f div 10 mod 10) * 10 + int (f mod 10)" using nat_div_mod_int[of f 10] by simp
  moreover have "digit_char f \<noteq> CHR ''_''" "digit_char (f div 10) \<noteq> CHR ''_''"
    by (simp_all add: digit_not_underscore)
  ultimately have "run_value (cents_digits f) = int f"
    by (simp add: cents_digits_def run_value_def)
  then show ?thesis by (subst py_int_digits) (simp_all add: cents_digits_def)
qed

lemma unsigned_parts:
  "before (CHR ''.'') (render_unsigned n) = decimal (n div 100)"
  "after_sep (CHR ''.'') (render_unsigned n) = cents_digits (n mod 100)"
  "CHR ''.'' \<in> set (render_unsigned n)"
proof -
  have dot: "\<forall>x\<in>set (decimal (n div 100)). x \<noteq> CHR ''.''"
    using decimal_digits[of "n div 100"] digit_not_sign by (auto simp: list_all_iff)
  then show "before (CHR ''.'') (render_unsigned n) = decimal (n div 100)"
    by (simp add: before_def render_unsigned_def takeWhile_append)
  show "after_sep (CHR ''.'') (render_unsigned n) = cents_digits (n mod 100)"
    using dot by (simp add: after_sep_def render_unsigned_def dropWhile_append)
  show "CHR ''.'' \<in> set (render_unsigned n)" by (simp add: render_unsigned_def)
qed

lemma unsigned_head: "take 1 (render_unsigned n) \<noteq> ''-''"
  using decimal_digits[of "n div 100"] digit_not_sign
  by (cases "decimal (n div 100)") (auto simp: render_unsigned_def)

lemma unsigned_chars: "x \<in> set (render_unsigned n) \<Longrightarrow> x = CHR ''.'' \<or> is_digit x"
  using decimal_digits[of "n div 100"] by (auto simp: render_unsigned_def cents_digits_def list_all_iff)

lemma option_int_decimal: "option_int (decimal n) = Inr (int n)"
  using decimal_digits[of n] by (simp add: option_int_def)

lemma option_int_cents: "f < 100 \<Longrightarrow> option_int (cents_digits f) = Inr (int f)"
  by (simp add: option_int_def cents_digits_value) (simp add: cents_digits_def)

section \<open>Properties of the import normalisation\<close>

lemma amount_of_unsigned:
  assumes "filter (\<lambda>c. c \<noteq> CHR '','' \<and> c \<noteq> CHR ''$'') (strip s) = sign @ render_unsigned n"
    and "sign = ''-'' \<or> sign = []"
  shows "amount_to_cents (AmountText s) = Inr (if sign = ''-'' then - int n else int n)"
proof -
  have n: "int (n div 100) * 100 + int (n mod 100) = int n" using nat_div_mod_int[of n 100] by simp
  have pad: "take 2 (cents_digits (n mod 100) @ ''00'') = cents_digits (n mod 100)"
    by (simp add: cents_digits_def)
  define t where "t = sign @ render_unsigned n"
  have neg: "(take 1 t = ''-'') = (sign = ''-'')"
    using assms(2) unsigned_head[of n] by (auto simp: t_def)
  have body: "(if sign = ''-'' then drop 1 t else t) = render_unsigned n"
    using assms(2) by (auto simp: t_def)
  show ?thesis
    using n
    unfolding amount_to_cents_def raw_amount.case assms(1) t_def[symmetric] Let_def neg body
      unsigned_parts pad option_int_decimal
    by (simp add: option_int_cents option_int_decimal unsigned_parts)
qed

text \<open>Reading an amount gives back the cents it was written from, whatever the sign, also when the
  text carries surrounding space, currency signs or thousands separators.\<close>

theorem amount_roundtrip:
  assumes "filter (\<lambda>c. c \<noteq> CHR '','' \<and> c \<noteq> CHR ''$'') (strip s) = render_cents c"
  shows "amount_to_cents (AmountText s) = Inr c"
  using amount_of_unsigned[of s "if c < 0 then ''-'' else []" "nat \<bar>c\<bar>"] assms
  by (auto simp: render_cents_def split: if_splits)

lemma amount_roundtrip_witness: "amount_to_cents (AmountText '' -$1,234.05'') = Inr (-123405)"
  by (rule amount_roundtrip) code_simp

text \<open>A row that is accepted has a date, a non-zero amount in cents and a payee in some form.\<close>

theorem import_row_complete:
  assumes "normalise_import_row row = Inr r"
  shows "nr_amount r \<noteq> 0 \<and> (nr_payee_name r \<noteq> None \<or> nr_imported_payee r \<noteq> None)
    \<and> nr_date r \<noteq> [] \<and> (\<exists>d. ir_date row = Some d \<and> nr_date r = take 10 d)
    \<and> (\<exists>a. ir_amount row = Some a \<and> amount_to_cents a = Inr (nr_amount r))"
proof -
  obtain date where date: "ir_date row = Some date" "date \<noteq> []" "nr_date r = take 10 date"
    and payee: "nr_payee_name r \<noteq> None \<or> nr_imported_payee r \<noteq> None"
    and amount: "\<not> empty_amount (ir_amount row)" "amount_to_cents (the (ir_amount row)) = Inr (nr_amount r)"
      "nr_amount r \<noteq> 0"
    using assms unfolding normalise_import_row_def Let_def
    by (simp only: result_simps ensure_eq_Inr non_empty_eq_Some sum.inject)
      (elim exE conjE, hypsubst, rule that, simp_all)
  obtain a where "ir_amount row = Some a" using not_empty_amount[OF amount(1)] by blast
  with date payee amount show ?thesis by simp
qed

definition sample_row :: import_row where
  "sample_row = \<lparr>ir_date = Some ''2026-03-02T10:00'', ir_payee_name = Some '' the corner OF main '',
     ir_imported_payee = None, ir_amount = Some (AmountText ''$12.5''), ir_imported_id = Some [],
     ir_notes = Some ''a#b'', ir_cleared = None, ir_category = None, ir_raw = None\<rparr>"

lemma import_row_complete_witness:
  "\<exists>r. normalise_import_row sample_row = Inr r \<and> nr_amount r = 1250
     \<and> nr_payee_name r = Some ''The Corner OF Main'' \<and> nr_date r \<noteq> []"
proof -
  obtain r where r: "normalise_import_row sample_row = Inr r" "nr_amount r = 1250"
    "nr_payee_name r = Some ''The Corner OF Main''"
    by (rule that[of "projr (normalise_import_row sample_row)"]) code_simp+
  with import_row_complete[OF r(1)] show ?thesis by blast
qed

text \<open>A debit column whose values carry a minus sign of their own is misread: the amount recorded
  for a withdrawal of \<open>w\<close> dollars and \<open>f\<close> cents is a deposit, and of \<open>w\<close> dollars less \<open>f\<close> cents.\<close>

theorem signed_debit_becomes_deposit:
  assumes "col_amount m = None" "pick line (col_debit m) = Some (render_cents (- int n))" "n \<noteq> 0"
  shows "\<exists>t. csv_amount m line = Some t
    \<and> amount_to_cents (AmountText t) = Inr (int (n div 100) * 100 - int (n mod 100))"
proof -
  have t: "csv_amount m line = Some (''--'' @ render_unsigned n)"
    unfolding csv_amount_def assms(1,2) pick_None using assms(3)
    by (simp add: render_cents_def non_empty_def)
  have "\<not> is_space x \<and> x \<noteq> CHR '','' \<and> x \<noteq> CHR ''$''" if "x \<in> set (''--'' @ render_unsigned n)" for x
  proof -
    have "x = CHR ''-'' \<or> x = CHR ''.'' \<or> is_digit x" using that unsigned_chars[of x n] by auto
    moreover have "\<not> is_space (CHR ''-'')" "\<not> is_space (CHR ''.'')" by code_simp+
    ultimately show ?thesis using digit_not_space[of x] digit_not_sign[of x] by auto
  qed
  then have num: "list_all (\<lambda>c. \<not> is_space c \<and> c \<noteq> CHR '','' \<and> c \<noteq> CHR ''$'') (''--'' @ render_unsigned n)"
    by (simp only: list_all_iff) blast
  have s: "strip (''--'' @ render_unsigned n) = ''--'' @ render_unsigned n"
    using num by (intro strip_no_space) (auto simp: list_all_iff)
  have f: "filter (\<lambda>c. c \<noteq> CHR '','' \<and> c \<noteq> CHR ''$'') (''--'' @ render_unsigned n) = ''--'' @ render_unsigned n"
    using num by (simp add: list_all_iff filter_id_conv)
  have parts: "before (CHR ''.'') (CHR ''-'' # render_unsigned n) = CHR ''-'' # decimal (n div 100)"
    "after_sep (CHR ''.'') (CHR ''-'' # render_unsigned n) = cents_digits (n mod 100)"
    using unsigned_parts[of n] by (simp_all add: before_def after_sep_def)
  have "take 2 (cents_digits (n mod 100) @ ''00'') = cents_digits (n mod 100)"
    by (simp add: cents_digits_def)
  moreover have "option_int (CHR ''-'' # decimal (n div 100)) = Inr (- int (n div 100))"
    by (simp add: option_int_def)
  ultimately have "amount_to_cents (AmountText (''--'' @ render_unsigned n))
      = Inr (int (n div 100) * 100 - int (n mod 100))"
    using parts unsigned_parts(3)[of n]
    unfolding amount_to_cents_def raw_amount.case s f Let_def
    by (simp add: option_int_cents)
  with t show ?thesis by blast
qed

lemma signed_debit_becomes_deposit_witness:
  "\<exists>t. csv_amount (no_columns\<lparr>col_debit := Some 1\<rparr>) [''2026-03-02'', ''-12.50''] = Some t
     \<and> amount_to_cents (AmountText t) = Inr 1150"
  using signed_debit_becomes_deposit[of "no_columns\<lparr>col_debit := Some 1\<rparr>" "[''2026-03-02'', ''-12.50'']" 1250]
proof -
  have "col_amount (no_columns\<lparr>col_debit := Some 1\<rparr>) = None"
    and "pick [''2026-03-02'', ''-12.50''] (col_debit (no_columns\<lparr>col_debit := Some 1\<rparr>)) = Some (render_cents (- int 1250))"
    by code_simp+
  from signed_debit_becomes_deposit[OF this] show ?thesis by simp
qed

text \<open>With the common header of separate debit and credit amounts the debit column is taken as a
  signed amount column, so every withdrawal is read as a deposit and the debit sign is never applied.\<close>

theorem debit_amount_header_loses_sign:
  "map_columns [''Date'', ''Description'', ''Debit Amount'', ''Credit Amount'']
     = Inr (no_columns\<lparr>col_date := Some 0, col_payee := Some 1, col_amount := Some 2, col_credit := Some 3\<rparr>)
   \<and> csv_amount (no_columns\<lparr>col_date := Some 0, col_payee := Some 1, col_amount := Some 2, col_credit := Some 3\<rparr>)
       [''2026-03-02'', ''Rent'', ''900.00'', []] = Some ''900.00''
   \<and> amount_to_cents (AmountText ''900.00'') = Inr 90000"
proof (intro conjI)
  show "map_columns [''Date'', ''Description'', ''Debit Amount'', ''Credit Amount'']
     = Inr (no_columns\<lparr>col_date := Some 0, col_payee := Some 1, col_amount := Some 2, col_credit := Some 3\<rparr>)"
    by code_simp
qed code_simp+

end
