(* ===== verification/Rules.thy ===== *)
theory Rules
  imports Schedules Normalisation "HOL-Library.Multiset"
begin

text \<open>
  The transaction rules of \<open>src/omni/finance/rules.py\<close>: conditions, actions, templates,
  \<open>apply_rules\<close> and the payload check. Conditions and actions are JSON, so their values have the
  type \<open>jval\<close> and every operation states what Python does on a value of the wrong type. Numbers are
  integers. The formula evaluator (Python's own parser and evaluator on a whitelisted tree) and the
  text of a number of dollars are components of \<open>rule_env\<close>. The lemmas show which errors an
  accepted rule can still raise and that only the ranks decide the order of application.
\<close>

section \<open>Values\<close>

text \<open>
  A JSON value. \<open>JRecur c\<close> is the object \<open>{"type": "recur", "schedule": c}\<close> with its decoded
  configuration; \<open>JObj\<close> is any other object.
\<close>

datatype jval =
    JNull
  | JBool bool
  | JInt int
  | JText string
  | JList "jval list"
  | JObj "(string \<times> jval) list"
  | JRecur config

datatype rule_error =
    Unsupported_Operator
  | Unsupported_Field
  | Unsupported_Action
  | Bad_Date
  | Bad_Schedule
  | Bad_Payload
  | Formula_Error
  | Type_Error
  | Schedule_Failure schedule_error
  | Not_Modelled

type_synonym 'a ruled = "(rule_error, 'a) result"

primrec truthy :: "jval \<Rightarrow> bool" where
  "truthy JNull = False"
| "truthy (JBool b) = b"
| "truthy (JInt i) = (i \<noteq> 0)"
| "truthy (JText s) = (s \<noteq> [])"
| "truthy (JList vs) = (vs \<noteq> [])"
| "truthy (JObj kvs) = (kvs \<noteq> [])"
| "truthy (JRecur c) = True"

text \<open>A Python \<open>bool\<close> is the integer 0 or 1.\<close>

fun as_int :: "jval \<Rightarrow> int option" where
  "as_int (JInt i) = Some i"
| "as_int (JBool b) = Some (if b then 1 else 0)"
| "as_int _ = None"

definition py_eq :: "jval \<Rightarrow> jval \<Rightarrow> bool" where
  "py_eq a b = (case (as_int a, as_int b) of (Some x, Some y) \<Rightarrow> x = y | _ \<Rightarrow> a = b)"

definition int_text :: "int \<Rightarrow> string" where
  "int_text i = (if i < 0 then CHR ''-'' # decimal (nat (- i)) else decimal (nat i))"

text \<open>\<open>str(value)\<close>; the text of a list or an object is not modelled.\<close>

fun py_str :: "jval \<Rightarrow> string ruled" where
  "py_str JNull = Inr ''None''"
| "py_str (JBool b) = Inr (if b then ''True'' else ''False'')"
| "py_str (JInt i) = Inr (int_text i)"
| "py_str (JText s) = Inr s"
| "py_str _ = Inl Not_Modelled"

fun py_add :: "jval \<Rightarrow> jval \<Rightarrow> jval ruled" where
  "py_add (JText s) (JText t) = Inr (JText (s @ t))"
| "py_add (JList s) (JList t) = Inr (JList (s @ t))"
| "py_add a b = (case (as_int a, as_int b) of (Some x, Some y) \<Rightarrow> Inr (JInt (x + y)) | _ \<Rightarrow> Inl Type_Error)"

definition jget :: "jval \<Rightarrow> string \<Rightarrow> jval ruled" where
  "jget v k =
     (case v of
        JObj kvs \<Rightarrow> Inr (dict_get kvs k JNull)
      | JRecur c \<Rightarrow> if k = ''type'' then Inr (JText ''recur'') else if k = ''schedule'' then Inl Not_Modelled else Inr JNull
      | _ \<Rightarrow> Inl Type_Error)"

text \<open>Iterating over a value: the elements of a list, the characters of a string, the keys of an object.\<close>

fun elements :: "jval \<Rightarrow> jval list ruled" where
  "elements (JList vs) = Inr vs"
| "elements (JText s) = Inr (map (\<lambda>c. JText [c]) s)"
| "elements (JObj kvs) = Inr (map (\<lambda>kv. JText (fst kv)) kvs)"
| "elements (JRecur c) = Inr [JText ''type'', JText ''schedule'']"
| "elements _ = Inl Type_Error"

section \<open>The environment, rules and transactions\<close>

text \<open>What a tx dict holds while rules run on it; an absent key is \<open>JNull\<close> or \<open>None\<close>.\<close>

record rule_tx =
  rt_amount :: jval
  rt_date :: jval
  rt_cleared :: jval
  rt_notes :: jval
  rt_imported_payee :: "string option"
  rt_category :: "string option"
  rt_payee_id :: "nat option"
  rt_category_id :: "nat option"
  rt_schedule_id :: jval
  rt_tombstone :: bool

record rule_names =
  nm_imported_payee :: "string option"
  nm_payee :: "string option"
  nm_notes :: "string option"
  nm_account :: "string option"
  nm_category :: "string option"

record formula_context =
  fc_cents :: int
  fc_today :: string
  fc_date :: jval
  fc_cleared :: jval
  fc_names :: rule_names

record rule_env =
  re_isodate :: "string \<Rightarrow> date option"
  re_today :: string
  re_formula :: "string \<Rightarrow> formula_context \<Rightarrow> jval ruled"
  re_dollars :: "int \<Rightarrow> string"

record rule_condition =
  cd_field :: "string option"
  cd_op :: "string option"
  cd_value :: jval
  cd_direction :: "string option"

record rule_action =
  ac_op :: "string option"
  ac_field :: "string option"
  ac_value :: jval
  ac_method :: "string option"
  ac_formula :: "string option"
  ac_template :: "string option"

record rule =
  ru_id :: nat
  ru_rank :: int
  ru_conditions :: "rule_condition list"
  ru_actions :: "rule_action list"
  ru_enabled :: bool

definition STRING_FIELDS :: "string list" where
  "STRING_FIELDS = [''imported_payee'', ''payee'', ''notes'', ''account'', ''category'']"
definition STRING_OPS :: "string list" where
  "STRING_OPS = [''is'', ''contains'', ''oneOf'', ''isNot'']"
definition NUMBER_OPS :: "string list" where
  "NUMBER_OPS = [''is'', ''isapprox'', ''isbetween'', ''gt'', ''gte'', ''lt'', ''lte'']"
definition NUMBER_FIELDS :: "string list" where "NUMBER_FIELDS = [''amount'']"
definition DATE_OPS :: "string list" where
  "DATE_OPS = [''is'', ''isapprox'', ''isbetween'', ''gt'', ''gte'', ''lt'', ''lte'']"
definition DATE_FIELDS :: "string list" where "DATE_FIELDS = [''date'']"
definition SCHEDULE_OPS :: "string list" where "SCHEDULE_OPS = [''is'', ''isapprox'']"
definition SCHEDULE_FIELDS :: "string list" where "SCHEDULE_FIELDS = [''schedule'']"
definition BOOLEAN_OPS :: "string list" where "BOOLEAN_OPS = [''is'']"
definition BOOLEAN_FIELDS :: "string list" where "BOOLEAN_FIELDS = [''cleared'']"
definition ACTION_OPS :: "string list" where
  "ACTION_OPS = [''set'', ''set-split-amount'', ''link-schedule'', ''prepend-notes'', ''append-notes'',
     ''delete-transaction'']"
definition SET_FIELDS :: "string list" where
  "SET_FIELDS = [''category'', ''payee'', ''notes'', ''cleared'', ''date'', ''amount'']"

definition among :: "string option \<Rightarrow> string list \<Rightarrow> bool" where
  "among x xs = (case x of None \<Rightarrow> False | Some s \<Rightarrow> List.member xs s)"

section \<open>Conditions\<close>

definition norm_text :: "string option \<Rightarrow> string" where
  "norm_text v = (case v of None \<Rightarrow> [] | Some s \<Rightarrow> normalised_string s)"

text \<open>\<open>_norm\<close> on a JSON value: falsy values are the empty string, other values must be text.\<close>

definition norm_jval :: "jval \<Rightarrow> string ruled" where
  "norm_jval v =
     (if truthy v then (case v of JText s \<Rightarrow> Inr (normalised_string s) | _ \<Rightarrow> Inl Type_Error) else Inr [])"

definition string_matches :: "string option \<Rightarrow> jval \<Rightarrow> string option \<Rightarrow> bool ruled" where
  "string_matches oper expected actual =
     (let hay = norm_text actual in
      if oper = Some ''is'' then rbind (norm_jval expected) (\<lambda>e. Inr (hay = e))
      else if oper = Some ''contains'' then rbind (norm_jval expected) (\<lambda>e. Inr (contains e hay))
      else if oper = Some ''oneOf'' then
        rbind (elements expected) (\<lambda>vs. rbind (rmap norm_jval vs) (\<lambda>es. Inr (List.member es hay)))
      else if oper = Some ''isNot'' then rbind (norm_jval expected) (\<lambda>e. Inr (hay \<noteq> e))
      else Inl Unsupported_Operator)"

definition int_value :: "jval \<Rightarrow> int ruled" where
  "int_value v = option_result Type_Error (as_int v)"

text \<open>
  The comparison of \<open>_number_matches\<close> after the direction is resolved. On integers below
  \<open>2\<^sup>53\<close> the float product with 0.10 decides as the exact tenth does.
\<close>

definition number_compare :: "string option \<Rightarrow> jval \<Rightarrow> jval \<Rightarrow> bool ruled" where
  "number_compare oper expected value =
     (if oper = Some ''is'' then Inr (py_eq value expected)
      else if oper = Some ''isapprox'' then
        rbind (int_value value) (\<lambda>v. rbind (int_value expected) (\<lambda>e. Inr (10 * \<bar>v - e\<bar> \<le> \<bar>e\<bar>)))
      else if oper = Some ''isbetween'' then
        (case expected of
           JList (a # b # _) \<Rightarrow>
             rbind (int_value a) (\<lambda>x. rbind (int_value b) (\<lambda>y. rbind (int_value value) (\<lambda>v.
               Inr (min x y \<le> v \<and> v \<le> max x y))))
         | _ \<Rightarrow> Inl Type_Error)
      else if among oper [''gt'', ''gte'', ''lt'', ''lte''] then
        rbind (int_value value) (\<lambda>v. rbind (int_value expected) (\<lambda>e.
          Inr (if oper = Some ''gt'' then e < v else if oper = Some ''gte'' then e \<le> v
               else if oper = Some ''lt'' then v < e else v \<le> e)))
      else Inl Unsupported_Operator)"

definition number_matches :: "string option \<Rightarrow> jval \<Rightarrow> jval \<Rightarrow> string option \<Rightarrow> bool ruled" where
  "number_matches oper expected actual direction =
     (if direction = Some ''outflow'' then
        rbind (int_value actual) (\<lambda>a. if 0 \<le> a then Inr False else number_compare oper expected (JInt (- a)))
      else if direction = Some ''inflow'' then
        rbind (int_value actual) (\<lambda>a. if a \<le> 0 then Inr False else number_compare oper expected actual)
      else number_compare oper expected actual)"

definition date_value :: "jval \<Rightarrow> string ruled" where
  "date_value v =
     (case v of
        JText s \<Rightarrow> Inr (take 10 s)
      | JObj kvs \<Rightarrow>
          if truthy (dict_get kvs ''date'' JNull)
          then rbind (py_str (dict_get kvs ''date'' JNull)) (\<lambda>s. Inr (take 10 s))
          else if truthy (dict_get kvs ''num1'' JNull)
          then rbind (py_str (dict_get kvs ''num1'' JNull)) (\<lambda>s. Inr (take 10 s))
          else Inl Bad_Date
      | _ \<Rightarrow> Inl Bad_Date)"

definition date_pair :: "jval \<Rightarrow> jval list ruled" where
  "date_pair v =
     (case v of
        JList vs \<Rightarrow> Inr vs
      | _ \<Rightarrow> rbind (jget v ''num1'') (\<lambda>a. rbind (jget v ''num2'') (\<lambda>b. Inr [a, b])))"

text \<open>The text of the transaction's day; slicing anything but text fails or is not modelled.\<close>

definition day_text :: "jval \<Rightarrow> string ruled" where
  "day_text v = (case v of JText s \<Rightarrow> Inr (take 10 s) | JList vs \<Rightarrow> Inl Not_Modelled | _ \<Rightarrow> Inl Type_Error)"

definition date_matches :: "string option \<Rightarrow> jval \<Rightarrow> jval \<Rightarrow> bool ruled" where
  "date_matches oper value actual =
     (if \<not> truthy actual then Inr False
      else rbind (day_text actual) (\<lambda>day.
        if oper = Some ''is'' then rbind (date_value value) (\<lambda>b. Inr (day = b))
        else if oper = Some ''isapprox'' then rbind (date_value value) (\<lambda>b. Inr (take 7 day = take 7 b))
        else if oper = Some ''isbetween'' then
          rbind (date_pair value) (\<lambda>vs. rbind (rmap date_value vs) (\<lambda>ds.
            (case ds of
               [a, b] \<Rightarrow> Inr (min a b \<le> day \<and> day \<le> max a b)
             | _ \<Rightarrow> Inl Type_Error)))
        else rbind (date_value value) (\<lambda>bound.
          if oper = Some ''gt'' then Inr (bound < day)
          else if oper = Some ''gte'' then Inr (bound \<le> day)
          else if oper = Some ''lt'' then Inr (day < bound)
          else if oper = Some ''lte'' then Inr (day \<le> bound)
          else Inl Unsupported_Operator)))"

definition schedule_result :: "(schedule_error, 'a) result \<Rightarrow> 'a ruled" where
  "schedule_result r = (case r of Inl e \<Rightarrow> Inl (Schedule_Failure e) | Inr x \<Rightarrow> Inr x)"

definition schedule_matches :: "rule_env \<Rightarrow> string option \<Rightarrow> jval \<Rightarrow> jval \<Rightarrow> bool ruled" where
  "schedule_matches env oper value tx_date =
     (case value of
        JRecur c \<Rightarrow>
          rbind (if truthy tx_date then py_str tx_date else Inr []) (\<lambda>s.
            if s = [] then Inr False
            else
              rbind (schedule_result (from_config (re_isodate env) c)) (\<lambda>rec.
              rbind (option_result Type_Error (re_isodate env (take 10 s))) (\<lambda>day.
              rbind (schedule_result
                (if oper = Some ''is'' then occurrences_between rec day day
                 else occurrences_between rec (day - POSTED_WINDOW_BEFORE) (day + POSTED_WINDOW_AFTER)))
                (\<lambda>days. Inr (days \<noteq> [])))))
      | _ \<Rightarrow> Inl Bad_Schedule)"

definition name_of_field :: "rule_names \<Rightarrow> string option \<Rightarrow> string option" where
  "name_of_field names field =
     (if field = Some ''imported_payee'' then nm_imported_payee names
      else if field = Some ''payee'' then nm_payee names
      else if field = Some ''notes'' then nm_notes names
      else if field = Some ''account'' then nm_account names
      else nm_category names)"

definition condition_matches :: "rule_env \<Rightarrow> rule_condition \<Rightarrow> 'a rule_tx_scheme \<Rightarrow> rule_names \<Rightarrow> bool ruled" where
  "condition_matches env c tx names =
     (if among (cd_field c) STRING_FIELDS then
        string_matches (cd_op c) (cd_value c) (name_of_field names (cd_field c))
      else if among (cd_field c) NUMBER_FIELDS then
        if rt_amount tx = JNull then Inr False
        else number_matches (cd_op c) (cd_value c) (rt_amount tx) (cd_direction c)
      else if among (cd_field c) DATE_FIELDS then date_matches (cd_op c) (cd_value c) (rt_date tx)
      else if among (cd_field c) SCHEDULE_FIELDS then
        schedule_matches env (cd_op c) (cd_value c) (rt_date tx)
      else if among (cd_field c) BOOLEAN_FIELDS then
        Inr (truthy (rt_cleared tx) = truthy (cd_value c))
      else Inl Unsupported_Field)"

text \<open>\<open>all(...)\<close> stops at the first condition that does not match.\<close>

fun all_match :: "rule_env \<Rightarrow> rule_condition list \<Rightarrow> 'a rule_tx_scheme \<Rightarrow> rule_names \<Rightarrow> bool ruled" where
  "all_match env [] tx names = Inr True"
| "all_match env (c # cs) tx names =
     rbind (condition_matches env c tx names) (\<lambda>b. if b then all_match env cs tx names else Inr False)"

definition rule_applies :: "rule_env \<Rightarrow> rule \<Rightarrow> 'a rule_tx_scheme \<Rightarrow> rule_names \<Rightarrow> bool ruled" where
  "rule_applies env r tx names = all_match env (ru_conditions r) tx names"

section \<open>Templates\<close>

definition is_ident_start :: "char \<Rightarrow> bool" where
  "is_ident_start c \<longleftrightarrow> is_alpha c \<or> c = CHR ''_''"

definition is_ident :: "char \<Rightarrow> bool" where
  "is_ident c \<longleftrightarrow> is_ident_start c \<or> is_digit c"

text \<open>A match of \<open>_TEMPLATE_RE\<close> at the start of a text: the key and what follows the closing braces.\<close>

definition match_placeholder :: "string \<Rightarrow> (string \<times> string) option" where
  "match_placeholder s =
     (if take 2 s = ''{{'' then
        (let inner = dropWhile is_space (drop 2 s);
             key = takeWhile is_ident inner;
             rest = dropWhile is_space (dropWhile is_ident inner)
         in if key \<noteq> [] \<and> is_ident_start (hd key) \<and> take 2 rest = ''}}'' then Some (key, drop 2 rest) else None)
      else None)"

lemma match_placeholder_shorter: "match_placeholder s = Some (key, rest) \<Longrightarrow> length rest < length s"
proof -
  assume m: "match_placeholder s = Some (key, rest)"
  define inner where "inner = dropWhile is_space (drop 2 s)"
  define tail where "tail = dropWhile is_space (dropWhile is_ident inner)"
  have "rest = drop 2 tail" "s \<noteq> []"
    using m by (auto simp: match_placeholder_def Let_def inner_def tail_def split: if_splits)
  moreover have "length tail \<le> length inner" "length inner \<le> length s - 2"
    using length_dropWhile_le[of is_space "dropWhile is_ident inner"] length_dropWhile_le[of is_ident inner]
      length_dropWhile_le[of is_space "drop 2 s"] by (simp_all add: tail_def inner_def)
  ultimately show ?thesis by (cases s) auto
qed

text \<open>\<open>render_template\<close> with the text of each key; \<open>None\<close> renders as nothing.\<close>

function render_template :: "(string \<Rightarrow> string option ruled) \<Rightarrow> string \<Rightarrow> string ruled" where
  "render_template look s =
     (case s of
        [] \<Rightarrow> Inr []
      | c # cs \<Rightarrow>
          (case match_placeholder s of
             None \<Rightarrow> rbind (render_template look cs) (\<lambda>r. Inr (c # r))
           | Some (key, rest) \<Rightarrow>
               rbind (look key) (\<lambda>v.
               rbind (render_template look rest) (\<lambda>r.
               Inr ((case v of None \<Rightarrow> [] | Some w \<Rightarrow> w) @ r)))))"
  by pat_completeness auto
termination
  by (relation "measure (\<lambda>(look, s). length s)") (auto dest!: match_placeholder_shorter)

declare render_template.simps [simp del]

definition or_value :: "jval \<Rightarrow> jval \<Rightarrow> jval" where
  "or_value a b = (if truthy a then a else b)"

definition make_context :: "rule_env \<Rightarrow> 'a rule_tx_scheme \<Rightarrow> rule_names \<Rightarrow> formula_context ruled" where
  "make_context env tx names =
     rbind (int_value (or_value (rt_amount tx) (JInt 0))) (\<lambda>cents.
     Inr \<lparr>fc_cents = cents, fc_today = re_today env, fc_date = or_value (rt_date tx) (JText (re_today env)),
          fc_cleared = rt_cleared tx, fc_names = names\<rparr>)"

definition text_of :: "jval \<Rightarrow> string option ruled" where
  "text_of v = (if v = JNull then Inr None else rbind (py_str v) (\<lambda>s. Inr (Some s)))"

definition context_text :: "rule_env \<Rightarrow> formula_context \<Rightarrow> string \<Rightarrow> string option ruled" where
  "context_text env ctx key =
     (if key = ''amount'' then Inr (Some (re_dollars env (fc_cents ctx)))
      else if key = ''today'' then Inr (Some (fc_today ctx))
      else if key = ''date'' then text_of (fc_date ctx)
      else if key = ''cleared'' then text_of (fc_cleared ctx)
      else if List.member STRING_FIELDS key then Inr (name_of_field (fc_names ctx) (Some key))
      else Inr None)"

section \<open>Actions\<close>

text \<open>\<open>resolve\<close>: for a normalised category or payee name its id and whether it may be used.\<close>

record resolver =
  rs_category :: "(string \<times> nat \<times> bool) list"
  rs_payee :: "(string \<times> nat \<times> bool) list"

definition usable :: "(string \<times> nat \<times> bool) list \<Rightarrow> string \<Rightarrow> nat option" where
  "usable table k = (case map_of table k of Some (i, ok) \<Rightarrow> if ok then Some i else None | None \<Rightarrow> None)"

definition jint :: "jval \<Rightarrow> int ruled" where
  "jint v = (case v of JText s \<Rightarrow> option_result Type_Error (py_int s) | _ \<Rightarrow> int_value v)"

definition truthy_text :: "string option \<Rightarrow> bool" where
  "truthy_text s \<longleftrightarrow> s \<noteq> None \<and> s \<noteq> Some []"

text \<open>The value a \<open>set\<close> action assigns: of its formula, its template or itself.\<close>

definition set_value :: "rule_env \<Rightarrow> formula_context \<Rightarrow> rule_action \<Rightarrow> jval ruled" where
  "set_value env ctx a =
     (if truthy_text (ac_formula a) then re_formula env (the (ac_formula a)) ctx
      else if truthy_text (ac_template a) then
        rbind (render_template (context_text env ctx) (the (ac_template a))) (\<lambda>s. Inr (JText s))
      else Inr (ac_value a))"

definition set_field :: "resolver \<Rightarrow> string option \<Rightarrow> jval \<Rightarrow> 'a rule_tx_scheme \<Rightarrow> 'a rule_tx_scheme ruled" where
  "set_field rs field v tx =
     (if field = Some ''category'' then
        rbind (norm_jval v) (\<lambda>k. Inr (case usable (rs_category rs) k of
          None \<Rightarrow> tx | Some i \<Rightarrow> tx\<lparr>rt_category_id := Some i\<rparr>))
      else if field = Some ''payee'' then
        rbind (norm_jval v) (\<lambda>k. Inr (case usable (rs_payee rs) k of
          None \<Rightarrow> tx | Some i \<Rightarrow> tx\<lparr>rt_payee_id := Some i\<rparr>))
      else if field = Some ''cleared'' then Inr (tx\<lparr>rt_cleared := JBool (truthy v)\<rparr>)
      else if field = Some ''amount'' then rbind (jint v) (\<lambda>i. Inr (tx\<lparr>rt_amount := JInt i\<rparr>))
      else if field = Some ''notes'' then Inr (tx\<lparr>rt_notes := v\<rparr>)
      else Inr (tx\<lparr>rt_date := v\<rparr>))"

definition action_op :: "rule_action \<Rightarrow> string" where
  "action_op a = (case ac_op a of None \<Rightarrow> ''set'' | Some s \<Rightarrow> s)"

definition run_action :: "rule_env \<Rightarrow> formula_context \<Rightarrow> resolver \<Rightarrow> rule_action \<Rightarrow> 'a rule_tx_scheme
    \<Rightarrow> 'a rule_tx_scheme ruled" where
  "run_action env ctx rs a tx =
     (let oper = action_op a; notes = rt_notes tx in
      if \<not> List.member ACTION_OPS oper then Inl Unsupported_Action
      else if oper = ''delete-transaction'' then Inr (tx\<lparr>rt_tombstone := True\<rparr>)
      else if oper = ''link-schedule'' then Inr (tx\<lparr>rt_schedule_id := ac_value a\<rparr>)
      else if oper = ''prepend-notes'' then
        rbind (if truthy notes then py_add (ac_value a) notes else Inr (ac_value a)) (\<lambda>v.
          Inr (tx\<lparr>rt_notes := v\<rparr>))
      else if oper = ''append-notes'' then
        rbind (if truthy notes then py_add notes (ac_value a) else Inr (ac_value a)) (\<lambda>v.
          Inr (tx\<lparr>rt_notes := v\<rparr>))
      else if oper = ''set-split-amount'' then
        (if ac_method a = Some ''fixed-amount'' then Inr (tx\<lparr>rt_amount := ac_value a\<rparr>)
         else if ac_method a = Some ''formula'' then
           rbind (re_formula env (case ac_formula a of None \<Rightarrow> [] | Some f \<Rightarrow> f) ctx) (\<lambda>v.
             Inr (tx\<lparr>rt_amount := v\<rparr>))
         else Inr tx)
      else if \<not> among (ac_field a) SET_FIELDS then Inl Unsupported_Action
      else rbind (set_value env ctx a) (\<lambda>v. set_field rs (ac_field a) v tx))"

section \<open>Applying the rules\<close>

definition run_rule :: "rule_env \<Rightarrow> formula_context \<Rightarrow> resolver \<Rightarrow> rule_names \<Rightarrow> rule
    \<Rightarrow> 'a rule_tx_scheme \<times> nat list \<Rightarrow> ('a rule_tx_scheme \<times> nat list) ruled" where
  "run_rule env ctx rs names r st =
     (if ru_conditions r = [] then Inr st
      else rbind (rule_applies env r (fst st) names) (\<lambda>hit.
        if hit then rbind (rfold (run_action env ctx rs) (ru_actions r) (fst st)) (\<lambda>tx.
          Inr (tx, snd st @ [ru_id r]))
        else Inr st))"

definition effective_names :: "'a rule_tx_scheme \<Rightarrow> rule_names \<Rightarrow> rule_names ruled" where
  "effective_names tx names =
     rbind (case nm_notes names of
         Some s \<Rightarrow> Inr (Some s)
       | None \<Rightarrow> (case rt_notes tx of JNull \<Rightarrow> Inr None | JText s \<Rightarrow> Inr (Some s) | _ \<Rightarrow> Inl Not_Modelled)) (\<lambda>notes.
     Inr \<lparr>nm_imported_payee = or_else (nm_imported_payee names) (rt_imported_payee tx),
          nm_payee = nm_payee names, nm_notes = notes, nm_account = nm_account names,
          nm_category = or_else (nm_category names) (rt_category tx)\<rparr>)"

definition rank_order :: "rule list \<Rightarrow> rule list" where
  "rank_order rules = sort_key ru_rank (filter ru_enabled rules)"

definition apply_rules :: "rule_env \<Rightarrow> rule list \<Rightarrow> 'a rule_tx_scheme \<Rightarrow> rule_names \<Rightarrow> resolver
    \<Rightarrow> ('a rule_tx_scheme \<times> nat list) ruled" where
  "apply_rules env rules tx names rs =
     rbind (effective_names tx names) (\<lambda>shown.
     rbind (make_context env tx shown) (\<lambda>ctx.
     rfold (run_rule env ctx rs shown) (rank_order rules) (tx, [])))"

section \<open>The payload check\<close>

definition condition_op_ok :: "rule_condition \<Rightarrow> unit ruled" where
  "condition_op_ok c =
     (let f = cd_field c; oper = cd_op c in
      if among f STRING_FIELDS \<and> \<not> among oper STRING_OPS then Inl Unsupported_Operator
      else if among f NUMBER_FIELDS \<and> \<not> among oper NUMBER_OPS then Inl Unsupported_Operator
      else if among f DATE_FIELDS \<and> \<not> among oper DATE_OPS then Inl Unsupported_Operator
      else if among f SCHEDULE_FIELDS \<and> \<not> among oper SCHEDULE_OPS then Inl Unsupported_Operator
      else if among f BOOLEAN_FIELDS \<and> \<not> among oper BOOLEAN_OPS then Inl Unsupported_Operator
      else if \<not> among f (STRING_FIELDS @ NUMBER_FIELDS @ DATE_FIELDS @ SCHEDULE_FIELDS @ BOOLEAN_FIELDS)
      then Inl Unsupported_Field else Inr ())"

definition is_jlist :: "jval \<Rightarrow> bool" where
  "is_jlist v = (case v of JList vs \<Rightarrow> True | _ \<Rightarrow> False)"

definition is_pair :: "jval \<Rightarrow> bool" where
  "is_pair v = (case v of JList vs \<Rightarrow> length vs = 2 | _ \<Rightarrow> False)"

definition check_condition :: "rule_env \<Rightarrow> rule_condition \<Rightarrow> unit ruled" where
  "check_condition env c =
     rbind (condition_op_ok c) (\<lambda>_.
     rbind (ensure (cd_op c = Some ''oneOf'' \<longrightarrow> is_jlist (cd_value c)) Bad_Payload) (\<lambda>_.
     rbind (ensure (among (cd_field c) NUMBER_FIELDS \<and> cd_op c = Some ''isbetween'' \<longrightarrow> is_pair (cd_value c))
       Bad_Payload) (\<lambda>_.
     if among (cd_field c) SCHEDULE_FIELDS then
       (case cd_value c of
          JRecur cfg \<Rightarrow> rbind (schedule_result (from_config (re_isodate env) cfg)) (\<lambda>_. Inr ())
        | _ \<Rightarrow> Inl Bad_Schedule)
     else Inr ())))"

definition check_action :: "rule_action \<Rightarrow> unit ruled" where
  "check_action a =
     rbind (ensure (List.member ACTION_OPS (action_op a)) Unsupported_Action) (\<lambda>_.
     rbind (ensure (action_op a = ''set'' \<longrightarrow> among (ac_field a) SET_FIELDS) Unsupported_Action) (\<lambda>_.
     ensure (truthy_text (ac_formula a) \<longrightarrow> take 1 (the (ac_formula a)) = ''='') Formula_Error))"

definition validate_rule_payload :: "rule_env \<Rightarrow> rule_condition list \<Rightarrow> rule_action list \<Rightarrow> unit ruled" where
  "validate_rule_payload env conditions actions =
     rbind (ensure (conditions \<noteq> []) Bad_Payload) (\<lambda>_.
     rbind (ensure (actions \<noteq> []) Bad_Payload) (\<lambda>_.
     rbind (rmap (check_condition env) conditions) (\<lambda>_.
     rbind (rmap check_action actions) (\<lambda>_. Inr ()))))"

section \<open>Errors an accepted rule can raise\<close>

text \<open>An error about the shape of a rule: an operator, a field or an action outside the tables.\<close>

definition shape_error :: "rule_error \<Rightarrow> bool" where
  "shape_error e \<longleftrightarrow> e \<in> {Unsupported_Operator, Unsupported_Field, Unsupported_Action}"

definition shaped :: "'a ruled \<Rightarrow> bool" where
  "shaped r \<longleftrightarrow> (case r of Inl e \<Rightarrow> \<not> shape_error e | Inr _ \<Rightarrow> True)"

named_theorems shaped_intros "computations that raise no error about the shape of a rule"

lemma shaped_Inr [simp, shaped_intros]: "shaped (Inr x)"
  by (simp add: shaped_def)

lemma shaped_Inl [simp]: "shaped (Inl e) \<longleftrightarrow> \<not> shape_error e"
  by (simp add: shaped_def)

lemma shape_error_simps [simp]:
  "\<not> shape_error Type_Error" "\<not> shape_error Bad_Date" "\<not> shape_error Bad_Schedule"
  "\<not> shape_error (Schedule_Failure f)" "\<not> shape_error Not_Modelled" "\<not> shape_error Formula_Error"
  "shape_error Unsupported_Operator" "shape_error Unsupported_Field" "shape_error Unsupported_Action"
  by (simp_all add: shape_error_def)

lemma shaped_rbind [shaped_intros]: "shaped r \<Longrightarrow> (\<And>x. shaped (f x)) \<Longrightarrow> shaped (rbind r f)"
  by (cases r) simp_all

lemma shaped_if [shaped_intros]: "(c \<Longrightarrow> shaped a) \<Longrightarrow> (\<not> c \<Longrightarrow> shaped b) \<Longrightarrow> shaped (if c then a else b)"
  by simp

lemma shaped_pair_case [shaped_intros]:
  "(\<And>a b. shaped (f a b)) \<Longrightarrow> \<not> shape_error e \<Longrightarrow> shaped (case ds of [a, b] \<Rightarrow> f a b | _ \<Rightarrow> Inl e)"
  by (auto split: list.split)

lemma shaped_rmap [shaped_intros]: "(\<And>x. shaped (f x)) \<Longrightarrow> shaped (rmap f xs)"
  by (induction xs) (auto intro!: shaped_intros)

lemma shaped_rfold: "(\<And>x s. x \<in> set xs \<Longrightarrow> shaped (f x s)) \<Longrightarrow> shaped (rfold f xs s)"
  by (induction xs arbitrary: s) (auto intro!: shaped_intros)

lemma shaped_option_result [shaped_intros]: "\<not> shape_error e \<Longrightarrow> shaped (option_result e v)"
  by (cases v) simp_all

lemma shaped_int_value [shaped_intros]: "shaped (int_value v)"
  by (simp add: int_value_def shaped_option_result)

lemma shaped_norm_jval [shaped_intros]: "shaped (norm_jval v)"
  by (simp add: norm_jval_def split: jval.split)

lemma shaped_elements [shaped_intros]: "shaped (elements v)"
  by (cases v) simp_all

lemma shaped_py_str [shaped_intros]: "shaped (py_str v)"
  by (cases v) simp_all

lemma shaped_py_add [shaped_intros]: "shaped (py_add a b)"
  by (cases "(a, b)" rule: py_add.cases) (simp_all split: option.split)

lemma shaped_date_value [shaped_intros]: "shaped (date_value v)"
  by (auto simp: date_value_def split: jval.split intro!: shaped_intros)

lemma shaped_date_pair [shaped_intros]: "shaped (date_pair v)"
  by (auto simp: date_pair_def jget_def split: jval.split intro!: shaped_intros)

lemma shaped_string_matches: "among oper STRING_OPS \<Longrightarrow> shaped (string_matches oper v actual)"
  by (auto simp: string_matches_def Let_def among_def STRING_OPS_def split: option.splits intro!: shaped_intros)

lemma shaped_number_compare: "among oper NUMBER_OPS \<Longrightarrow> shaped (number_compare oper v a)"
  by (auto simp: number_compare_def among_def NUMBER_OPS_def split: option.splits jval.split list.split intro!: shaped_intros)

lemma shaped_number_matches: "among oper NUMBER_OPS \<Longrightarrow> shaped (number_matches oper v a d)"
  by (auto simp: number_matches_def shaped_number_compare intro!: shaped_intros)

lemma shaped_day_text [shaped_intros]: "shaped (day_text v)"
  by (auto simp: day_text_def split: jval.split)

lemma shaped_date_matches: "among oper DATE_OPS \<Longrightarrow> shaped (date_matches oper v a)"
  by (auto simp: date_matches_def among_def DATE_OPS_def split: option.splits list.split intro!: shaped_intros)

lemma shaped_schedule_result [shaped_intros]: "shaped (schedule_result r)"
  by (cases r) (simp_all add: schedule_result_def)

lemma shaped_schedule_matches: "shaped (schedule_matches env oper v d)"
  by (auto simp: schedule_matches_def split: jval.split intro!: shaped_intros)

lemma shaped_condition:
  "condition_op_ok c = Inr () \<Longrightarrow> shaped (condition_matches env c tx names)"
  by (auto simp: condition_op_ok_def condition_matches_def Let_def shaped_string_matches shaped_number_matches
      shaped_date_matches shaped_schedule_matches among_def split: if_splits option.splits)

lemma shaped_all_match:
  "(\<And>c. c \<in> set cs \<Longrightarrow> condition_op_ok c = Inr ()) \<Longrightarrow> shaped (all_match env cs tx names)"
  by (induction cs) (auto intro!: shaped_intros shaped_condition)

lemma shaped_render [shaped_intros]: "(\<And>k. shaped (look k)) \<Longrightarrow> shaped (render_template look s)"
proof (induction look s rule: render_template.induct)
  case (1 look s)
  show ?case
  proof (cases s)
    case (Cons c cs)
    with 1 show ?thesis
      by (subst render_template.simps) (auto split: option.split intro!: shaped_intros)
  qed (simp add: render_template.simps)
qed

lemma shaped_context_text [shaped_intros]: "shaped (context_text env ctx k)"
  by (auto simp: context_text_def text_of_def intro!: shaped_intros)

lemma shaped_set_field [shaped_intros]: "shaped (set_field rs f v tx)"
  by (auto simp: set_field_def jint_def split: jval.split intro!: shaped_intros)

lemma shaped_set_value [shaped_intros]:
  "(\<And>f. shaped (re_formula env f ctx)) \<Longrightarrow> shaped (set_value env ctx a)"
  by (auto simp: set_value_def intro!: shaped_intros)

lemma shaped_run_action:
  assumes "\<And>f. shaped (re_formula env f ctx)" "check_action a = Inr ()"
  shows "shaped (run_action env ctx rs a tx)"
  using assms
  by (auto simp: run_action_def check_action_def Let_def result_simps ACTION_OPS_def intro!: shaped_intros)

lemma validated_parts:
  assumes "validate_rule_payload env cs as = Inr ()"
  shows "cs \<noteq> []" "\<And>c. c \<in> set cs \<Longrightarrow> condition_op_ok c = Inr ()" "\<And>a. a \<in> set as \<Longrightarrow> check_action a = Inr ()"
proof -
  from assms obtain us vs where *: "cs \<noteq> []" "rmap (check_condition env) cs = Inr us" "rmap check_action as = Inr vs"
    by (auto simp: validate_rule_payload_def result_simps)
  then show "cs \<noteq> []" by simp
  show "condition_op_ok c = Inr ()" if "c \<in> set cs" for c
  proof -
    obtain i where "i < length cs" "cs ! i = c" using \<open>c \<in> set cs\<close> by (auto simp: in_set_conv_nth)
    with rmap_Inr_nth[OF *(2)] show ?thesis by (force simp: check_condition_def result_simps)
  qed
  show "check_action a = Inr ()" if "a \<in> set as" for a
  proof -
    obtain i where "i < length as" "as ! i = a" using \<open>a \<in> set as\<close> by (auto simp: in_set_conv_nth)
    with rmap_Inr_nth[OF *(3)] show ?thesis by force
  qed
qed

lemma shaped_run_rule:
  assumes "\<And>f. shaped (re_formula env f ctx)"
    and "validate_rule_payload env (ru_conditions r) (ru_actions r) = Inr ()"
  shows "shaped (run_rule env ctx rs names r st)"
  using assms validated_parts[OF assms(2)]
  by (auto simp: run_rule_def rule_applies_def intro!: shaped_intros shaped_all_match shaped_rfold shaped_run_action)

lemma shaped_effective_names: "shaped (effective_names tx names)"
  by (auto simp: effective_names_def split: option.split jval.split intro!: shaped_intros)

lemma shaped_make_context: "shaped (make_context env tx names)"
  by (auto simp: make_context_def intro!: shaped_intros)

section \<open>Properties\<close>

text \<open>A rule as a client may post it, an environment and a transaction to run it on.\<close>

definition sample_env :: rule_env where
  "sample_env = \<lparr>re_isodate = (\<lambda>s. None), re_today = ''2026-03-02'', re_formula = (\<lambda>f ctx. Inl Formula_Error),
     re_dollars = (\<lambda>c. decimal (nat c div 100))\<rparr>"

definition sample_tx :: rule_tx where
  "sample_tx = \<lparr>rt_amount = JInt (-1250), rt_date = JText ''2026-03-02'', rt_cleared = JBool True, rt_notes = JNull,
     rt_imported_payee = Some ''Corner Shop'', rt_category = None, rt_payee_id = None, rt_category_id = None,
     rt_schedule_id = JNull, rt_tombstone = False\<rparr>"

definition no_names :: rule_names where
  "no_names = \<lparr>nm_imported_payee = None, nm_payee = None, nm_notes = None, nm_account = None, nm_category = None\<rparr>"

definition no_resolver :: resolver where
  "no_resolver = \<lparr>rs_category = [], rs_payee = []\<rparr>"

definition shop_rule :: rule where
  "shop_rule = \<lparr>ru_id = 1, ru_rank = 5,
     ru_conditions = [\<lparr>cd_field = Some ''imported_payee'', cd_op = Some ''contains'', cd_value = JText ''shop'', cd_direction = None\<rparr>],
     ru_actions = [\<lparr>ac_op = None, ac_field = Some ''notes'', ac_value = JText ''groceries'', ac_method = None,
       ac_formula = None, ac_template = None\<rparr>], ru_enabled = True\<rparr>"

definition text_threshold_rule :: rule where
  "text_threshold_rule = \<lparr>ru_id = 2, ru_rank = 1,
     ru_conditions = [\<lparr>cd_field = Some ''amount'', cd_op = Some ''gt'', cd_value = JText ''100'', cd_direction = None\<rparr>],
     ru_actions = [\<lparr>ac_op = Some ''delete-transaction'', ac_field = None, ac_value = JNull, ac_method = None,
       ac_formula = None, ac_template = None\<rparr>], ru_enabled = True\<rparr>"

lemma shop_rule_valid: "validate_rule_payload sample_env (ru_conditions shop_rule) (ru_actions shop_rule) = Inr ()"
  by code_simp

lemma sample_formula_shaped: "shaped (re_formula sample_env f ctx)"
  by (simp add: sample_env_def)

text \<open>Rules that passed the payload check never stop a transaction because of an operator, a
  field or an action the engine does not know, whatever the transaction looks like and as long as
  the formula evaluator reports its own errors only.\<close>

theorem validated_rules_supported:
  assumes "\<And>r. r \<in> set rules \<Longrightarrow> validate_rule_payload env (ru_conditions r) (ru_actions r) = Inr ()"
    and "\<And>f ctx. shaped (re_formula env f ctx)"
  shows "apply_rules env rules tx names rs \<notin> {Inl Unsupported_Operator, Inl Unsupported_Field, Inl Unsupported_Action}"
proof -
  have "shaped (apply_rules env rules tx names rs)"
    unfolding apply_rules_def
    by (intro shaped_rbind shaped_effective_names shaped_make_context shaped_rfold shaped_run_rule assms)
      (auto simp: rank_order_def)
  then show ?thesis by auto
qed

lemma validated_rules_supported_witness:
  "apply_rules sample_env [shop_rule] sample_tx no_names no_resolver
    \<notin> {Inl Unsupported_Operator, Inl Unsupported_Field, Inl Unsupported_Action}"
  by (rule validated_rules_supported) (auto simp: shop_rule_valid sample_formula_shaped)

text \<open>The rank alone orders the rules: lists that hold the same rules, no two enabled ones of
  one rank, have the same effect on every transaction.\<close>

theorem rank_decides:
  assumes "mset rules = mset rules'" "distinct (map ru_rank (filter ru_enabled rules))"
  shows "apply_rules env rules tx names rs = apply_rules env rules' tx names rs"
proof -
  have "rank_order rules = rank_order rules'"
    unfolding rank_order_def
  proof (rule sort_key_eq_sort_key)
    show "mset (filter ru_enabled rules) = mset (filter ru_enabled rules')" using assms(1) by (metis mset_filter)
    show "inj_on ru_rank (set (filter ru_enabled rules))" using assms(2) by (metis distinct_map)
  qed
  then show ?thesis by (simp add: apply_rules_def)
qed

lemma rank_decides_witness:
  "apply_rules sample_env [shop_rule, text_threshold_rule] sample_tx no_names no_resolver
    = apply_rules sample_env [text_threshold_rule, shop_rule] sample_tx no_names no_resolver"
  by (rule rank_decides) (simp_all add: shop_rule_def text_threshold_rule_def)

text \<open>The payload check does not look at the type of a threshold: an amount condition with a
  text threshold is accepted and then fails on every transaction with an integer amount.\<close>

theorem validated_rule_can_fail:
  "validate_rule_payload env (ru_conditions text_threshold_rule) (ru_actions text_threshold_rule) = Inr ()
    \<and> apply_rules env [text_threshold_rule] (sample_tx\<lparr>rt_amount := JInt i\<rparr>) no_names no_resolver = Inl Type_Error"
proof
  show "validate_rule_payload env (ru_conditions text_threshold_rule) (ru_actions text_threshold_rule) = Inr ()"
    by (simp add: validate_rule_payload_def text_threshold_rule_def check_condition_def condition_op_ok_def
        check_action_def among_def action_op_def truthy_text_def STRING_FIELDS_def NUMBER_FIELDS_def DATE_FIELDS_def
        SCHEDULE_FIELDS_def BOOLEAN_FIELDS_def NUMBER_OPS_def ACTION_OPS_def Let_def)
  show "apply_rules env [text_threshold_rule] (sample_tx\<lparr>rt_amount := JInt i\<rparr>) no_names no_resolver = Inl Type_Error"
    by (simp add: apply_rules_def rank_order_def effective_names_def make_context_def run_rule_def rule_applies_def
        condition_matches_def number_matches_def number_compare_def int_value_def or_value_def among_def or_else_def
        STRING_FIELDS_def NUMBER_FIELDS_def text_threshold_rule_def sample_tx_def no_names_def)
qed

end
