(* ===== verification/Finance_Ledger.thy ===== *)
theory Finance_Ledger
  imports Rules
begin

text \<open>
  The personal-finance ledger: \<open>src/omni/finance/service.py\<close> (accounts, categories, payees, manual
  transactions, patches, deletes, budget assignments), \<open>src/omni/finance/transfers.py\<close> and the
  transaction boundary \<open>src/omni/finance/writer.py\<close>. One state \<open>finance_db\<close> holds the tables with
  the constraints of \<open>migrations/071\<close> and \<open>072\<close>; a \<open>finance_write\<close> operation that raises rolls
  back, so an operation gives an error or a new state. The lemmas show that split transactions stay
  balanced and transfers symmetric, what each operation does to the account balances, and that
  reconciled transactions are locked.
\<close>

section \<open>Tables\<close>

record account =
  acc_id :: nat
  acc_user :: nat
  acc_name :: string
  acc_type :: string
  acc_currency :: string
  acc_offbudget :: bool
  acc_closed :: bool
  acc_balance :: "int option"
  acc_as_of :: "date option"

record category =
  cat_id :: nat
  cat_user :: nat
  cat_name :: string
  cat_is_income :: bool
  cat_tombstone :: bool
  cat_sort :: int
  cat_goal_type :: "string option"
  cat_goal_amount :: "int option"
  cat_goal_date :: "date option"

record payee =
  pay_id :: nat
  pay_user :: nat
  pay_name :: string
  pay_transfer :: "nat option"
  pay_tombstone :: bool

record tx =
  tx_id :: nat
  tx_user :: nat
  tx_account :: nat
  tx_payee :: "nat option"
  tx_category :: "nat option"
  tx_date :: date
  tx_amount :: int
  tx_notes :: "string option"
  tx_cleared :: bool
  tx_reconciled :: bool
  tx_imported_id :: "string option"
  tx_imported_payee :: "string option"
  tx_transfer :: "nat option"
  tx_parent :: "nat option"
  tx_is_parent :: bool
  tx_schedule :: "nat option"
  tx_sort :: int
  tx_raw :: "string option"
  tx_deleted :: bool

datatype rollover_mode = Rollover | Reset | Hold

record budget_row =
  bud_user :: nat
  bud_month :: date
  bud_category :: nat
  bud_amount :: int
  bud_mode :: rollover_mode

record import_log =
  il_user :: nat
  il_account :: nat
  il_added :: nat
  il_updated :: nat

text \<open>
  The database: rows in insertion order, the rules with their owner, each user's configured base
  currency, the next fresh id (a UUID), \<open>CURRENT_DATE\<close> and the clock in milliseconds.
\<close>

record finance_db =
  fd_accounts :: "account list"
  fd_categories :: "category list"
  fd_payees :: "payee list"
  fd_txs :: "tx list"
  fd_budgets :: "budget_row list"
  fd_rules :: "(nat \<times> rule) list"
  fd_imports :: "import_log list"
  fd_currency :: "(nat \<times> string) list"
  fd_next :: nat
  fd_today :: date
  fd_now :: int

datatype finance_error =
    Finance_Error string
  | Unique_Violation string
  | Check_Violation string
  | Foreign_Key string
  | Data_Error
  | Rule_Failure rule_error
  | Import_Failure import_error

type_synonym 'a finance = "(finance_error, 'a) result"

definition lift_rule :: "'a ruled \<Rightarrow> 'a finance" where
  "lift_rule r = (case r of Inl e \<Rightarrow> Inl (Rule_Failure e) | Inr x \<Rightarrow> Inr x)"

lemma lift_rule_eq_Inr [result_simps]: "lift_rule r = Inr x \<longleftrightarrow> r = Inr x"
  by (cases r) (simp_all add: lift_rule_def)

section \<open>Row access\<close>

definition find_account :: "finance_db \<Rightarrow> nat \<Rightarrow> account option" where
  "find_account db i = find (\<lambda>a. acc_id a = i) (fd_accounts db)"

definition find_category :: "finance_db \<Rightarrow> nat \<Rightarrow> category option" where
  "find_category db i = find (\<lambda>c. cat_id c = i) (fd_categories db)"

definition find_payee :: "finance_db \<Rightarrow> nat \<Rightarrow> payee option" where
  "find_payee db i = find (\<lambda>p. pay_id p = i) (fd_payees db)"

definition find_tx :: "finance_db \<Rightarrow> nat \<Rightarrow> tx option" where
  "find_tx db i = find (\<lambda>t. tx_id t = i) (fd_txs db)"

text \<open>\<open>INSERT\<close> with the constraints of the table; an omitted id is \<open>gen_random_uuid()\<close>.\<close>

definition ACCOUNT_TYPES :: "string list" where
  "ACCOUNT_TYPES = [''checking'', ''savings'', ''credit'', ''loan'', ''cash'', ''investment'', ''other'']"

definition insert_account :: "account \<Rightarrow> finance_db \<Rightarrow> (nat \<times> finance_db) finance" where
  "insert_account a db =
     rbind (ensure (List.member ACCOUNT_TYPES (acc_type a)) (Check_Violation ''type'')) (\<lambda>_.
     rbind (ensure (\<not> list_ex (\<lambda>b. acc_user b = acc_user a \<and> acc_name b = acc_name a) (fd_accounts db))
       (Unique_Violation ''finance_account'')) (\<lambda>_.
     Inr (fd_next db, db\<lparr>fd_accounts := fd_accounts db @ [a\<lparr>acc_id := fd_next db\<rparr>], fd_next := fd_next db + 1\<rparr>)))"

definition insert_category :: "category \<Rightarrow> finance_db \<Rightarrow> (nat \<times> finance_db) finance" where
  "insert_category c db =
     rbind (ensure (\<not> list_ex (\<lambda>b. cat_user b = cat_user c \<and> lower (cat_name b) = lower (cat_name c)
         \<and> \<not> cat_tombstone b) (fd_categories db)) (Unique_Violation ''finance_category'')) (\<lambda>_.
     Inr (fd_next db, db\<lparr>fd_categories := fd_categories db @ [c\<lparr>cat_id := fd_next db\<rparr>], fd_next := fd_next db + 1\<rparr>))"

definition insert_payee :: "payee \<Rightarrow> finance_db \<Rightarrow> (nat \<times> finance_db) finance" where
  "insert_payee p db =
     rbind (ensure (\<not> list_ex (\<lambda>b. pay_user b = pay_user p \<and> lower (pay_name b) = lower (pay_name p)
         \<and> \<not> pay_tombstone b) (fd_payees db)) (Unique_Violation ''finance_payee'')) (\<lambda>_.
     Inr (fd_next db, db\<lparr>fd_payees := fd_payees db @ [p\<lparr>pay_id := fd_next db\<rparr>], fd_next := fd_next db + 1\<rparr>))"

definition imported_clash :: "finance_db \<Rightarrow> tx \<Rightarrow> bool" where
  "imported_clash db t \<longleftrightarrow> tx_imported_id t \<noteq> None \<and> \<not> tx_deleted t \<and>
     list_ex (\<lambda>s. tx_id s \<noteq> tx_id t \<and> tx_account s = tx_account t \<and> tx_imported_id s = tx_imported_id t
       \<and> \<not> tx_deleted s) (fd_txs db)"

definition category_owned :: "finance_db \<Rightarrow> nat \<Rightarrow> nat option \<Rightarrow> bool" where
  "category_owned db user c =
     (case c of None \<Rightarrow> True
      | Some i \<Rightarrow> list_ex (\<lambda>b. cat_id b = i \<and> cat_user b = user) (fd_categories db))"

definition check_tx :: "finance_db \<Rightarrow> tx \<Rightarrow> unit finance" where
  "check_tx db t =
     rbind (ensure (tx_amount t \<noteq> 0) (Check_Violation ''amount'')) (\<lambda>_.
     rbind (ensure (\<not> imported_clash db t) (Unique_Violation ''finance_transaction_imported_uq'')) (\<lambda>_.
     rbind (ensure (find_account db (tx_account t) \<noteq> None) (Foreign_Key ''account_id'')) (\<lambda>_.
     ensure (category_owned db (tx_user t) (tx_category t)) (Foreign_Key ''category_id''))))"

definition insert_tx :: "tx \<Rightarrow> finance_db \<Rightarrow> (nat \<times> finance_db) finance" where
  "insert_tx t db =
     (let row = t\<lparr>tx_id := fd_next db\<rparr> in
      rbind (check_tx db row) (\<lambda>_.
      Inr (fd_next db, db\<lparr>fd_txs := fd_txs db @ [row], fd_next := fd_next db + 1\<rparr>)))"

text \<open>The columns an \<open>INSERT\<close> does not name take their defaults.\<close>

definition new_tx :: "nat \<Rightarrow> nat \<Rightarrow> date \<Rightarrow> int \<Rightarrow> tx" where
  "new_tx user acc d amount = \<lparr>tx_id = 0, tx_user = user, tx_account = acc, tx_payee = None, tx_category = None,
     tx_date = d, tx_amount = amount, tx_notes = None, tx_cleared = True, tx_reconciled = False,
     tx_imported_id = None, tx_imported_payee = None, tx_transfer = None, tx_parent = None,
     tx_is_parent = False, tx_schedule = None, tx_sort = 0, tx_raw = None, tx_deleted = False\<rparr>"

definition update_txs :: "(tx \<Rightarrow> bool) \<Rightarrow> (tx \<Rightarrow> tx) \<Rightarrow> finance_db \<Rightarrow> finance_db" where
  "update_txs P f db = db\<lparr>fd_txs := map (\<lambda>t. if P t then f t else t) (fd_txs db)\<rparr>"

section \<open>Accounts, categories, payees\<close>

definition live_leaf :: "tx \<Rightarrow> bool" where
  "live_leaf t \<longleftrightarrow> \<not> tx_deleted t \<and> \<not> tx_is_parent t"

definition ledger_balance :: "finance_db \<Rightarrow> account \<Rightarrow> int" where
  "ledger_balance db a =
     sum_list (map tx_amount (filter (\<lambda>t. tx_account t = acc_id a \<and> tx_user t = acc_user a \<and> live_leaf t) (fd_txs db)))"

text \<open>The rows of \<open>list_accounts\<close>: each account with its ledger balance, ordered by \<open>closed, name\<close>.\<close>

definition list_accounts :: "finance_db \<Rightarrow> nat \<Rightarrow> (account \<times> int) list" where
  "list_accounts db user =
     map (\<lambda>a. (a, ledger_balance db a))
       (sort_key (\<lambda>a. (acc_closed a, acc_name a)) (filter (\<lambda>a. acc_user a = user) (fd_accounts db)))"

definition resolve_payee :: "nat \<Rightarrow> string option \<Rightarrow> finance_db \<Rightarrow> (nat option \<times> finance_db) finance" where
  "resolve_payee user name db =
     (case name of
        None \<Rightarrow> Inr (None, db)
      | Some s \<Rightarrow>
          (case find (\<lambda>p. pay_user p = user \<and> lower (pay_name p) = lower s \<and> \<not> pay_tombstone p) (fd_payees db) of
             Some p \<Rightarrow> Inr (Some (pay_id p), db)
           | None \<Rightarrow>
               rbind (insert_payee \<lparr>pay_id = 0, pay_user = user, pay_name = s, pay_transfer = None, pay_tombstone = False\<rparr> db)
                 (\<lambda>(i, db). Inr (Some i, db))))"

definition new_category :: "nat \<Rightarrow> string \<Rightarrow> bool \<Rightarrow> category" where
  "new_category user name income = \<lparr>cat_id = 0, cat_user = user, cat_name = name, cat_is_income = income,
     cat_tombstone = False, cat_sort = 0, cat_goal_type = None, cat_goal_amount = None, cat_goal_date = None\<rparr>"

definition starting_category :: "nat \<Rightarrow> finance_db \<Rightarrow> (nat \<times> finance_db) finance" where
  "starting_category user db =
     (case find (\<lambda>c. cat_user c = user \<and> cat_is_income c \<and> \<not> cat_tombstone c
         \<and> lower (cat_name c) = ''starting balances'') (fd_categories db) of
        Some c \<Rightarrow> Inr (cat_id c, db)
      | None \<Rightarrow> insert_category (new_category user ''Starting Balances'' True) db)"

definition name_ok :: "string \<Rightarrow> bool" where
  "name_ok name \<longleftrightarrow> name \<noteq> [] \<and> length name \<le> 80"

definition valid_currency :: "string \<Rightarrow> bool" where
  "valid_currency code \<longleftrightarrow> length code = 3 \<and> list_all is_alpha code"

definition opening_entry :: "nat \<Rightarrow> nat \<Rightarrow> int \<Rightarrow> finance_db \<Rightarrow> finance_db finance" where
  "opening_entry user acc opening db =
     rbind (starting_category user db) (\<lambda>(income, db).
     rbind (resolve_payee user (Some ''Starting Balance'') db) (\<lambda>(payee, db).
     rbind (insert_tx ((new_tx user acc (fd_today db) opening)
         \<lparr>tx_payee := payee, tx_category := Some income, tx_sort := fd_now db, tx_notes := Some ''Opening balance''\<rparr>) db)
       (\<lambda>(_, db). Inr db)))"

definition create_account :: "nat \<Rightarrow> string \<Rightarrow> string \<Rightarrow> bool \<Rightarrow> int option \<Rightarrow> string \<Rightarrow> finance_db
    \<Rightarrow> (nat \<times> finance_db) finance" where
  "create_account user name kind offbudget opening currency db =
     (let name = strip name; currency = upper (strip currency) in
      rbind (ensure (name_ok name) (Finance_Error ''account name must contain 1 to 80 characters'')) (\<lambda>_.
      rbind (ensure (List.member ACCOUNT_TYPES kind) (Finance_Error ''unsupported account type'')) (\<lambda>_.
      rbind (ensure (valid_currency currency) (Finance_Error ''currency must be a 3-letter code'')) (\<lambda>_.
      rbind (ensure (\<not> list_ex (\<lambda>a. acc_user a = user \<and> acc_name a = name) (fd_accounts db))
        (Finance_Error ''account already exists'')) (\<lambda>_.
      rbind (insert_account \<lparr>acc_id = 0, acc_user = user, acc_name = name, acc_type = kind, acc_currency = currency,
          acc_offbudget = offbudget, acc_closed = False, acc_balance = opening,
          acc_as_of = (if opening = None then None else Some (fd_today db))\<rparr> db) (\<lambda>(i, db).
      if opening = None \<or> opening = Some 0 then Inr (i, db)
      else rbind (opening_entry user i (the opening) db) (\<lambda>db. Inr (i, db))))))))"

definition close_account :: "nat \<Rightarrow> nat \<Rightarrow> bool \<Rightarrow> finance_db \<Rightarrow> finance_db" where
  "close_account user i shut db =
     db\<lparr>fd_accounts := map (\<lambda>a. if acc_id a = i \<and> acc_user a = user then a\<lparr>acc_closed := shut\<rparr> else a) (fd_accounts db)\<rparr>"

definition live_categories :: "finance_db \<Rightarrow> nat \<Rightarrow> category list" where
  "live_categories db user = filter (\<lambda>c. cat_user c = user \<and> \<not> cat_tombstone c) (fd_categories db)"

definition list_categories :: "finance_db \<Rightarrow> nat \<Rightarrow> category list" where
  "list_categories db user = sort_key (\<lambda>c. (cat_sort c, lower (cat_name c))) (live_categories db user)"

definition create_category :: "nat \<Rightarrow> string \<Rightarrow> bool \<Rightarrow> finance_db \<Rightarrow> (nat \<times> finance_db) finance" where
  "create_category user name income db =
     (let name = strip name in
      rbind (ensure (name_ok name) (Finance_Error ''category name must contain 1 to 80 characters'')) (\<lambda>_.
      rbind (ensure (\<not> list_ex (\<lambda>c. lower (cat_name c) = lower name) (live_categories db user))
        (Finance_Error ''category already exists'')) (\<lambda>_.
      insert_category (new_category user name income) db)))"

definition delete_category :: "nat \<Rightarrow> nat \<Rightarrow> finance_db \<Rightarrow> finance_db" where
  "delete_category user i db =
     db\<lparr>fd_categories := map (\<lambda>c. if cat_id c = i \<and> cat_user c = user then c\<lparr>cat_tombstone := True\<rparr> else c) (fd_categories db)\<rparr>"

definition require_owned_category :: "finance_db \<Rightarrow> nat \<Rightarrow> nat option \<Rightarrow> unit finance" where
  "require_owned_category db user c =
     (case c of None \<Rightarrow> Inr ()
      | Some i \<Rightarrow> ensure (map_option cat_user (find_category db i) = Some user) (Finance_Error ''category not found''))"

text \<open>\<open>INSERT ... ON CONFLICT (user_id, month, category_id) DO UPDATE\<close>\<close>

definition budget_key :: "nat \<Rightarrow> date \<Rightarrow> nat \<Rightarrow> budget_row \<Rightarrow> bool" where
  "budget_key user month c b \<longleftrightarrow> bud_user b = user \<and> bud_month b = month \<and> bud_category b = c"

definition upsert_budget :: "nat \<Rightarrow> date \<Rightarrow> nat \<Rightarrow> int \<Rightarrow> rollover_mode option \<Rightarrow> budget_row list \<Rightarrow> budget_row list" where
  "upsert_budget user month c amount mode bs =
     (if list_ex (budget_key user month c) bs
      then map (\<lambda>b. if budget_key user month c b
             then b\<lparr>bud_amount := amount, bud_mode := (case mode of None \<Rightarrow> bud_mode b | Some m \<Rightarrow> m)\<rparr> else b) bs
      else bs @ [\<lparr>bud_user = user, bud_month = month, bud_category = c, bud_amount = amount,
             bud_mode = (case mode of None \<Rightarrow> Rollover | Some m \<Rightarrow> m)\<rparr>])"

definition month_of :: "date \<Rightarrow> date" where
  "month_of d = mk_date (year_of d) (month_of_year d) 1"

definition set_budget_amount :: "nat \<Rightarrow> date \<Rightarrow> nat \<Rightarrow> int \<Rightarrow> rollover_mode option \<Rightarrow> finance_db \<Rightarrow> finance_db finance" where
  "set_budget_amount user day c amount mode db =
     rbind (ensure (list_ex (\<lambda>b. cat_id b = c) (live_categories db user)) (Finance_Error ''category not found'')) (\<lambda>_.
     rbind (ensure (0 \<le> amount) (Finance_Error ''budget amount cannot be negative'')) (\<lambda>_.
     Inr (db\<lparr>fd_budgets := upsert_budget user (month_of day) c amount mode (fd_budgets db)\<rparr>)))"

section \<open>Transfers\<close>

definition payee_for_account :: "nat \<Rightarrow> nat \<Rightarrow> finance_db \<Rightarrow> (nat option \<times> finance_db) finance" where
  "payee_for_account user acc db =
     (case find (\<lambda>p. pay_user p = user \<and> pay_transfer p = Some acc \<and> \<not> pay_tombstone p) (fd_payees db) of
        Some p \<Rightarrow> Inr (Some (pay_id p), db)
      | None \<Rightarrow>
          (case find_account db acc of
             None \<Rightarrow> Inr (None, db)
           | Some a \<Rightarrow>
               rbind (insert_payee \<lparr>pay_id = 0, pay_user = user, pay_name = acc_name a, pay_transfer = Some acc,
                   pay_tombstone = False\<rparr> db) (\<lambda>(i, db). Inr (Some i, db))))"

definition same_budget_side :: "finance_db \<Rightarrow> nat \<Rightarrow> nat \<Rightarrow> bool" where
  "same_budget_side db a b \<longleftrightarrow>
     map_option acc_offbudget (find_account db a) = map_option acc_offbudget (find_account db b)"

definition mirror_tx :: "nat \<Rightarrow> nat \<Rightarrow> nat \<Rightarrow> tx \<Rightarrow> tx" where
  "mirror_tx user target mirror_payee t =
     (new_tx user target (tx_date t) (- tx_amount t))
       \<lparr>tx_payee := Some mirror_payee, tx_notes := tx_notes t, tx_cleared := False, tx_transfer := Some (tx_id t)\<rparr>"

text \<open>\<open>create_transfer_side\<close> for the stored row \<open>t\<close> whose payee marks a transfer to \<open>target\<close>.\<close>

definition create_transfer_side :: "nat \<Rightarrow> tx \<Rightarrow> nat option \<Rightarrow> finance_db \<Rightarrow> (nat option \<times> finance_db) finance" where
  "create_transfer_side user t target db =
     (case target of
        None \<Rightarrow> Inr (None, db)
      | Some acc \<Rightarrow>
          rbind (payee_for_account user (tx_account t) db) (\<lambda>(mirror_payee, db).
          case mirror_payee of
            None \<Rightarrow> Inr (None, db)
          | Some p \<Rightarrow>
              rbind (insert_tx (mirror_tx user acc p t) db) (\<lambda>(m, db).
              let db = update_txs (\<lambda>s. tx_id s = tx_id t) (\<lambda>s. s\<lparr>tx_transfer := Some m\<rparr>) db;
                  db = (if same_budget_side db (tx_account t) acc
                        then update_txs (\<lambda>s. tx_id s = tx_id t) (\<lambda>s. s\<lparr>tx_category := None\<rparr>) db else db)
              in Inr (Some m, db))))"

section \<open>Manual transactions\<close>

record split_row =
  sp_category :: "nat option"
  sp_amount :: int
  sp_notes :: "string option"

definition pad :: "nat \<Rightarrow> int \<Rightarrow> string" where
  "pad k n = (let s = decimal (nat n) in replicate (k - length s) (CHR ''0'') @ s)"

text \<open>\<open>d.isoformat()\<close>\<close>

definition iso_date :: "date \<Rightarrow> string" where
  "iso_date d = pad 4 (year_of d) @ ''-'' @ pad 2 (month_of_year d) @ ''-'' @ pad 2 (day_of d)"

definition load_rules :: "finance_db \<Rightarrow> nat \<Rightarrow> rule list" where
  "load_rules db user = sort_key ru_rank (map snd (filter (\<lambda>r. fst r = user) (fd_rules db)))"

definition category_table :: "finance_db \<Rightarrow> nat \<Rightarrow> (string \<times> nat \<times> bool) list" where
  "category_table db user = map (\<lambda>c. (normalised_string (cat_name c), cat_id c, True)) (rev (live_categories db user))"

definition jtext :: "string option \<Rightarrow> jval" where
  "jtext s = (case s of None \<Rightarrow> JNull | Some s \<Rightarrow> JText s)"

text \<open>A text column takes text or NULL.\<close>

definition column_text :: "jval \<Rightarrow> string option finance" where
  "column_text v = (case v of JNull \<Rightarrow> Inr None | JText s \<Rightarrow> Inr (Some s) | _ \<Rightarrow> Inl Data_Error)"

text \<open>\<open>_apply_rules_to_manual\<close>: the notes and the category automation proposes.\<close>

definition apply_rules_to_manual :: "rule_env \<Rightarrow> finance_db \<Rightarrow> nat \<Rightarrow> nat \<Rightarrow> string option \<Rightarrow> string option
    \<Rightarrow> int \<Rightarrow> date \<Rightarrow> (jval \<times> nat option) finance" where
  "apply_rules_to_manual env db user acc payee_name notes amount d =
     (let rules = load_rules db user;
          t = \<lparr>rt_amount = JInt amount, rt_date = JText (iso_date d), rt_cleared = JBool True, rt_notes = jtext notes,
               rt_imported_payee = None, rt_category = None, rt_payee_id = None, rt_category_id = None,
               rt_schedule_id = JNull, rt_tombstone = False\<rparr>;
          names = \<lparr>nm_imported_payee = None, nm_payee = payee_name, nm_notes = notes,
               nm_account = map_option acc_name (find_account db acc), nm_category = None\<rparr>
      in if rules = [] then Inr (JNull, None)
         else rbind (lift_rule (apply_rules env rules t names \<lparr>rs_category = category_table db user, rs_payee = []\<rparr>))
           (\<lambda>(t, _). Inr (rt_notes t, rt_category_id t)))"

text \<open>The category and notes a manual transaction is stored with: explicit ones win over automation.\<close>

definition manual_fields :: "rule_env \<Rightarrow> finance_db \<Rightarrow> nat \<Rightarrow> nat \<Rightarrow> string option \<Rightarrow> nat option \<Rightarrow> string option
    \<Rightarrow> int \<Rightarrow> date \<Rightarrow> split_row list \<Rightarrow> (nat option \<times> string option) finance" where
  "manual_fields env db user acc payee_name category notes amount d splits =
     (if category = None \<and> splits = [] then
        rbind (apply_rules_to_manual env db user acc payee_name notes amount d) (\<lambda>(n, c).
        rbind (if notes = None then column_text n else Inr notes) (\<lambda>notes. Inr (c, notes)))
      else Inr (category, notes))"

definition check_splits :: "split_row list \<Rightarrow> int \<Rightarrow> unit finance" where
  "check_splits splits amount =
     (if splits = [] then Inr ()
      else rbind (ensure (sum_list (map sp_amount splits) = amount) (Finance_Error ''split amounts do not sum to the parent'')) (\<lambda>_.
           ensure (\<not> list_ex (\<lambda>s. sp_amount s = 0) splits) (Finance_Error ''split amounts must be non-zero'')))"

definition child_tx :: "tx \<Rightarrow> int \<Rightarrow> nat \<Rightarrow> split_row \<Rightarrow> tx" where
  "child_tx parent now idx s =
     (new_tx (tx_user parent) (tx_account parent) (tx_date parent) (sp_amount s))
       \<lparr>tx_payee := tx_payee parent, tx_category := sp_category s,
        tx_notes := (case non_empty (sp_notes s) of None \<Rightarrow> tx_notes parent | n \<Rightarrow> n),
        tx_cleared := tx_cleared parent, tx_parent := Some (tx_id parent), tx_sort := now - int (idx + 1)\<rparr>"

definition insert_children :: "tx \<Rightarrow> split_row list \<Rightarrow> finance_db \<Rightarrow> finance_db finance" where
  "insert_children parent splits db =
     rfold (\<lambda>(k, s) db. rbind (insert_tx (child_tx parent (fd_now db) k s) db) (\<lambda>(_, db). Inr db)) (enumerate 0 splits) db"

definition transfer_target :: "finance_db \<Rightarrow> nat option \<Rightarrow> nat option" where
  "transfer_target db p = (case p of None \<Rightarrow> None | Some i \<Rightarrow>
     (case find_payee db i of None \<Rightarrow> None | Some r \<Rightarrow> pay_transfer r))"

definition create_manual_transaction :: "rule_env \<Rightarrow> nat \<Rightarrow> nat \<Rightarrow> date \<Rightarrow> int \<Rightarrow> string option \<Rightarrow> nat option
    \<Rightarrow> string option \<Rightarrow> bool \<Rightarrow> split_row list \<Rightarrow> finance_db \<Rightarrow> (nat \<times> finance_db) finance" where
  "create_manual_transaction env user acc d amount payee_name category notes cleared splits db =
     rbind (ensure (amount \<noteq> 0) (Finance_Error ''amount must be non-zero'')) (\<lambda>_.
     rbind (ensure (map_option acc_user (find_account db acc) = Some user) (Finance_Error ''account not found'')) (\<lambda>_.
     rbind (require_owned_category db user category) (\<lambda>_.
     rbind (rmap (\<lambda>s. require_owned_category db user (sp_category s)) splits) (\<lambda>_.
     rbind (resolve_payee user payee_name db) (\<lambda>(payee, db).
     rbind (manual_fields env db user acc payee_name category notes amount d splits) (\<lambda>(category, notes).
     rbind (check_splits splits amount) (\<lambda>_.
     let row = (new_tx user acc d amount)\<lparr>tx_payee := payee, tx_category := category, tx_notes := notes,
           tx_cleared := cleared, tx_is_parent := (splits \<noteq> []), tx_sort := fd_now db\<rparr>;
         target = (if splits = [] then transfer_target db payee else None)
     in rbind (insert_tx row db) (\<lambda>(i, db).
        let stored = row\<lparr>tx_id := i\<rparr>
        in if splits \<noteq> [] then rbind (insert_children stored splits db) (\<lambda>db. Inr (i, db))
           else rbind (create_transfer_side user stored target db) (\<lambda>(_, db). Inr (i, db))))))))))"

section \<open>Patches and deletes\<close>

text \<open>A patch; the outer \<open>None\<close> of category and notes is \<open>UNSET\<close>.\<close>

record tx_patch =
  pt_category :: "nat option option"
  pt_notes :: "string option option"
  pt_cleared :: "bool option"
  pt_reconciled :: "bool option"

definition touches_fields :: "tx_patch \<Rightarrow> bool" where
  "touches_fields pt \<longleftrightarrow> pt_category pt \<noteq> None \<or> pt_notes pt \<noteq> None \<or> pt_cleared pt \<noteq> None"

definition coalesce :: "'a option \<Rightarrow> 'a \<Rightarrow> 'a" where
  "coalesce x y = (case x of None \<Rightarrow> y | Some v \<Rightarrow> v)"

definition patch_row :: "tx_patch \<Rightarrow> tx \<Rightarrow> tx" where
  "patch_row pt t = t\<lparr>tx_category := coalesce (pt_category pt) (tx_category t),
     tx_notes := coalesce (pt_notes pt) (tx_notes t), tx_cleared := coalesce (pt_cleared pt) (tx_cleared t),
     tx_reconciled := coalesce (pt_reconciled pt) (tx_reconciled t)\<rparr>"

definition own_tx :: "finance_db \<Rightarrow> nat \<Rightarrow> nat \<Rightarrow> tx option" where
  "own_tx db user i = find (\<lambda>t. tx_id t = i \<and> tx_user t = user) (fd_txs db)"

definition update_transaction :: "nat \<Rightarrow> nat \<Rightarrow> tx_patch \<Rightarrow> finance_db \<Rightarrow> finance_db finance" where
  "update_transaction user i pt db =
     rbind (option_result (Finance_Error ''transaction not found'') (own_tx db user i)) (\<lambda>t.
     rbind (ensure (\<not> (tx_reconciled t \<and> pt_reconciled pt \<noteq> Some False \<and> touches_fields pt))
       (Finance_Error ''a reconciled transaction is locked'')) (\<lambda>_.
     rbind (require_owned_category db user (coalesce (pt_category pt) None)) (\<lambda>_.
     Inr (update_txs (\<lambda>t. tx_id t = i \<and> tx_user t = user) (patch_row pt) db))))"

definition split_children :: "finance_db \<Rightarrow> nat \<Rightarrow> nat list \<Rightarrow> nat list" where
  "split_children db user ps =
     map tx_id (filter (\<lambda>t. tx_user t = user \<and> \<not> tx_deleted t \<and>
       (case tx_parent t of None \<Rightarrow> False | Some p \<Rightarrow> List.member ps p)) (fd_txs db))"

definition transfer_targets :: "finance_db \<Rightarrow> nat list \<Rightarrow> nat list" where
  "transfer_targets db ids = List.map_filter tx_transfer (filter (\<lambda>t. List.member ids (tx_id t)) (fd_txs db))"

definition transfer_partners :: "finance_db \<Rightarrow> nat \<Rightarrow> nat list \<Rightarrow> nat list" where
  "transfer_partners db user ids =
     map tx_id (filter (\<lambda>t. tx_user t = user \<and> \<not> tx_deleted t \<and>
       (case tx_transfer t of None \<Rightarrow> False
        | Some u \<Rightarrow> List.member ids u \<or> List.member (transfer_targets db ids) (tx_id t))) (fd_txs db))"

text \<open>The linked group \<open>delete_transaction\<close> collects from the row it was given.\<close>

definition linked_group :: "finance_db \<Rightarrow> nat \<Rightarrow> nat \<Rightarrow> nat list" where
  "linked_group db user i =
     (let ids = i # split_children db user [i];
          partners = transfer_partners db user ids
      in ids @ partners @ split_children db user partners)"

definition delete_transaction :: "nat \<Rightarrow> nat \<Rightarrow> finance_db \<Rightarrow> finance_db finance" where
  "delete_transaction user i db =
     rbind (option_result (Finance_Error ''transaction not found'')
       (find (\<lambda>t. tx_id t = i \<and> tx_user t = user \<and> \<not> tx_deleted t) (fd_txs db))) (\<lambda>t.
     rbind (ensure (tx_parent t = None) (Finance_Error ''delete the split parent, not a child'')) (\<lambda>_.
     let group = linked_group db user i;
         member = (\<lambda>t. List.member group (tx_id t) \<and> tx_user t = user)
     in rbind (ensure (\<not> list_ex (\<lambda>t. member t \<and> tx_reconciled t) (fd_txs db))
          (Finance_Error ''a reconciled transaction is locked'')) (\<lambda>_.
        Inr (update_txs member (\<lambda>t. t\<lparr>tx_deleted := True\<rparr>) db))))"

section \<open>Listing a month\<close>

text \<open>SQL \<open>ILIKE\<close>: \<open>%\<close> matches any text, \<open>_\<close> one character, a backslash quotes the next one.\<close>

fun like :: "string \<Rightarrow> string \<Rightarrow> bool" where
  "like [] s = (s = [])"
| "like (p # ps) s =
     (if p = CHR ''%'' then like ps s \<or> (case s of [] \<Rightarrow> False | c # cs \<Rightarrow> like (p # ps) cs)
      else (case s of [] \<Rightarrow> False
            | c # cs \<Rightarrow>
                if p = CHR ''_'' then like ps cs
                else if p = CHR 0x5C then (case ps of [] \<Rightarrow> False | q # qs \<Rightarrow> q = c \<and> like qs cs)
                else p = c \<and> like ps cs))"

definition ilike :: "string option \<Rightarrow> string \<Rightarrow> bool" where
  "ilike value query = (case value of None \<Rightarrow> False
     | Some s \<Rightarrow> like (lower (''%'' @ query @ ''%'')) (lower s))"

text \<open>\<open>d + interval '1 month'\<close>\<close>

definition plus_month :: "date \<Rightarrow> date" where
  "plus_month d =
     (let y = (if month_of_year d = 12 then year_of d + 1 else year_of d);
          m = (if month_of_year d = 12 then 1 else month_of_year d + 1)
      in mk_date y m (min (day_of d) (month_length y m)))"

record tx_view =
  tv_tx :: tx
  tv_payee :: "string option"
  tv_category :: "string option"
  tv_account :: string
  tv_currency :: string

definition view_tx :: "finance_db \<Rightarrow> tx \<Rightarrow> account \<Rightarrow> tx_view" where
  "view_tx db t a = \<lparr>tv_tx = t,
     tv_payee = (case tx_payee t of None \<Rightarrow> None | Some p \<Rightarrow> map_option pay_name (find_payee db p)),
     tv_category = (case tx_category t of None \<Rightarrow> None | Some c \<Rightarrow> map_option cat_name (find_category db c)),
     tv_account = acc_name a, tv_currency = acc_currency a\<rparr>"

definition tx_matches :: "string option \<Rightarrow> tx_view \<Rightarrow> bool" where
  "tx_matches query v =
     (case query of None \<Rightarrow> True
      | Some q \<Rightarrow> ilike (tv_payee v) q \<or> ilike (tx_notes (tv_tx v)) q \<or> ilike (tx_imported_payee (tv_tx v)) q)"

definition list_transactions :: "nat \<Rightarrow> date \<Rightarrow> nat option \<Rightarrow> string option \<Rightarrow> finance_db \<Rightarrow> tx_view list" where
  "list_transactions user month acc query db =
     (let rows = List.map_filter (\<lambda>t. map_option (view_tx db t) (find_account db (tx_account t)))
        (filter (\<lambda>t. tx_user t = user \<and> \<not> tx_deleted t \<and> month \<le> tx_date t \<and> tx_date t < plus_month month
           \<and> (case acc of None \<Rightarrow> True | Some a \<Rightarrow> tx_account t = a)) (fd_txs db))
      in sort_key (\<lambda>v. (- tx_date (tv_tx v), - tx_sort (tv_tx v))) (filter (tx_matches query) rows))"

end
