(* ===== verification/Import_Reconcile.thy ===== *)
theory Import_Reconcile
  imports Finance_Ledger
begin

text \<open>
  Import reconciliation: \<open>src/omni/finance/reconcile.py\<close> and \<open>import_transactions\<close> of
  \<open>src/omni/finance/service.py\<close>. Incoming rows are matched with stored transactions in three passes
  (imported id, payee among the same amounts of the week, any of those), merged or added. The lemmas
  show which matches are one-to-one, that stored values survive a merge, what a preview leaves
  alone, and that repeating an import changes nothing.
\<close>

section \<open>Incoming rows\<close>

text \<open>A prepared row: what the rules work on, with the id, the raw data and the payee text.\<close>

record prepared = rule_tx +
  pr_imported_id :: "string option"
  pr_payee_name :: "string option"
  pr_raw :: "string option"

definition FUZZY_WINDOW_DAYS :: int where "FUZZY_WINDOW_DAYS = 7"
definition TRANSACTION_SORT_INCREMENT :: int where "TRANSACTION_SORT_INCREMENT = 5"

text \<open>\<open>date.fromisoformat(str(v))\<close>, and the value of an integer column.\<close>

definition parse_day :: "rule_env \<Rightarrow> jval \<Rightarrow> date finance" where
  "parse_day env v = rbind (lift_rule (py_str v)) (\<lambda>s. option_result Data_Error (re_isodate env s))"

definition parse_day10 :: "rule_env \<Rightarrow> jval \<Rightarrow> date finance" where
  "parse_day10 env v = rbind (lift_rule (py_str v)) (\<lambda>s. option_result Data_Error (re_isodate env (take 10 s)))"

definition column_int :: "jval \<Rightarrow> int finance" where
  "column_int v = option_result Data_Error (as_int v)"

section \<open>Matching\<close>

record 'r matched =
  md_row :: 'r
  md_match :: "tx option"
  md_fuzzy :: "tx list"

definition exact_match :: "finance_db \<Rightarrow> nat \<Rightarrow> string option \<Rightarrow> bool \<Rightarrow> tx option" where
  "exact_match db acc imported reimport =
     (case imported of
        None \<Rightarrow> None
      | Some k \<Rightarrow> find (\<lambda>t. tx_account t = acc \<and> tx_imported_id t = Some k \<and> (reimport \<or> \<not> tx_deleted t)) (fd_txs db))"

definition fuzzy_dataset :: "rule_env \<Rightarrow> finance_db \<Rightarrow> nat \<Rightarrow> prepared \<Rightarrow> bool \<Rightarrow> tx list finance" where
  "fuzzy_dataset env db acc row strict =
     rbind (parse_day env (rt_date row)) (\<lambda>d.
     rbind (column_int (rt_amount row)) (\<lambda>amount.
     Inr (sort_key (\<lambda>t. \<bar>tx_date t - d\<bar>)
       (filter (\<lambda>t. tx_account t = acc \<and> tx_amount t = amount
          \<and> d - FUZZY_WINDOW_DAYS \<le> tx_date t \<and> tx_date t \<le> d + FUZZY_WINDOW_DAYS \<and> \<not> tx_deleted t
          \<and> (tx_imported_id t = None \<or> (if strict then pr_imported_id row else None) = None)) (fd_txs db)))))"

text \<open>
  The three passes. The set \<open>has_matched\<close> is a list of ids; \<open>find_exact\<close> and \<open>dataset\<close> are the two
  queries of the first pass.
\<close>

definition first_entry :: "('r \<Rightarrow> tx option) \<Rightarrow> ('r \<Rightarrow> tx list finance) \<Rightarrow> 'r \<Rightarrow> 'r matched finance" where
  "first_entry find_exact dataset row =
     (case find_exact row of
        Some t \<Rightarrow> Inr \<lparr>md_row = row, md_match = Some t, md_fuzzy = []\<rparr>
      | None \<Rightarrow> rbind (dataset row) (\<lambda>ts. Inr \<lparr>md_row = row, md_match = None, md_fuzzy = ts\<rparr>))"

definition matched_ids :: "'r matched list \<Rightarrow> nat list" where
  "matched_ids es = List.map_filter (\<lambda>e. map_option tx_id (md_match e)) es"

fun claim_pass :: "('r \<Rightarrow> tx \<Rightarrow> bool) \<Rightarrow> 'r matched list \<Rightarrow> nat list \<Rightarrow> 'r matched list \<times> nat list" where
  "claim_pass P [] used = ([], used)"
| "claim_pass P (e # es) used =
     (case (if md_match e = None
            then find (\<lambda>c. \<not> List.member used (tx_id c) \<and> P (md_row e) c) (md_fuzzy e) else None) of
        None \<Rightarrow> (let (es', used') = claim_pass P es used in (e # es', used'))
      | Some c \<Rightarrow> (let (es', used') = claim_pass P es (tx_id c # used) in (e\<lparr>md_match := Some c\<rparr> # es', used')))"

definition match_rows :: "('r \<Rightarrow> tx option) \<Rightarrow> ('r \<Rightarrow> tx list finance) \<Rightarrow> ('r \<Rightarrow> nat option) \<Rightarrow> 'r list
    \<Rightarrow> 'r matched list finance" where
  "match_rows find_exact dataset payee rows =
     rbind (rmap (first_entry find_exact dataset) rows) (\<lambda>step1.
     let (step2, used) = claim_pass (\<lambda>r c. tx_payee c = payee r) step1 (matched_ids step1);
         (step3, _) = claim_pass (\<lambda>r c. True) step2 used
     in Inr step3)"

definition row_exact :: "finance_db \<Rightarrow> nat \<Rightarrow> bool \<Rightarrow> prepared \<Rightarrow> tx option" where
  "row_exact db acc reimport row =
     (if non_empty (pr_imported_id row) = None then None else exact_match db acc (pr_imported_id row) reimport)"

definition match_transactions :: "rule_env \<Rightarrow> finance_db \<Rightarrow> nat \<Rightarrow> prepared list \<Rightarrow> bool \<Rightarrow> bool
    \<Rightarrow> prepared matched list finance" where
  "match_transactions env db acc rows strict reimport =
     match_rows (row_exact db acc reimport) (\<lambda>row. fuzzy_dataset env db acc row strict) rt_payee_id rows"

section \<open>Merging\<close>

record tx_update =
  up_id :: nat
  up_imported_id :: "string option"
  up_payee :: "nat option"
  up_category :: "nat option"
  up_imported_payee :: "string option"
  up_notes :: jval
  up_cleared :: bool
  up_date :: "jval option"

definition text_or :: "string option \<Rightarrow> string option \<Rightarrow> string option" where
  "text_or x y = (case non_empty x of None \<Rightarrow> y | Some s \<Rightarrow> Some s)"

definition merge_updates :: "tx \<Rightarrow> prepared \<Rightarrow> bool \<Rightarrow> tx_update option" where
  "merge_updates old row update_dates =
     (let upd = \<lparr>up_id = tx_id old,
          up_imported_id = text_or (pr_imported_id row) (tx_imported_id old),
          up_payee = or_else (tx_payee old) (rt_payee_id row),
          up_category = or_else (tx_category old) (rt_category_id row),
          up_imported_payee = text_or (rt_imported_payee row) (tx_imported_payee old),
          up_notes = (if truthy (jtext (tx_notes old)) then jtext (tx_notes old)
                      else if truthy (rt_notes row) then rt_notes row else JNull),
          up_cleared = (tx_cleared old \<or> truthy (rt_cleared row)),
          up_date = (if update_dates \<and> truthy (rt_date row) then Some (rt_date row) else None)\<rparr>
      in if up_imported_id upd \<noteq> tx_imported_id old \<or> up_payee upd \<noteq> tx_payee old
           \<or> up_category upd \<noteq> tx_category old \<or> up_imported_payee upd \<noteq> tx_imported_payee old
           \<or> up_notes upd \<noteq> jtext (tx_notes old) \<or> up_cleared upd \<noteq> tx_cleared old \<or> up_date upd \<noteq> None
         then Some upd else None)"

text \<open>
  \<open>UPDATE ... SET\<close> of the merged columns of one row. A merged date is text, which the date column
  refuses.
\<close>

definition merge_row :: "tx_update \<Rightarrow> string option \<Rightarrow> tx \<Rightarrow> tx" where
  "merge_row u notes t = t\<lparr>tx_imported_id := up_imported_id u, tx_payee := up_payee u, tx_category := up_category u,
     tx_imported_payee := up_imported_payee u, tx_notes := notes, tx_cleared := up_cleared u\<rparr>"

definition write_update :: "tx_update \<Rightarrow> finance_db \<Rightarrow> finance_db finance" where
  "write_update u db =
     rbind (column_text (up_notes u)) (\<lambda>notes.
     rbind (ensure (up_date u = None) Data_Error) (\<lambda>_.
     rbind (case find_tx db (up_id u) of None \<Rightarrow> Inr () | Some t \<Rightarrow> check_tx db (merge_row u notes t)) (\<lambda>_.
     Inr (update_txs (\<lambda>t. tx_id t = up_id u) (merge_row u notes) db))))"

datatype preview =
    Deleted_By_Rule prepared
  | Ignored_Reconciled prepared
  | Ignored_Unchanged prepared
  | Updates_Existing prepared nat
  | Adds_New prepared

text \<open>What one matched row contributes: an update, an addition or nothing, and its preview.\<close>

datatype decision = Keep preview | Merge tx_update preview | Add prepared preview

definition decide :: "bool \<Rightarrow> prepared matched \<Rightarrow> decision" where
  "decide update_dates e =
     (case md_match e of
        None \<Rightarrow> Add (md_row e) (Adds_New (md_row e))
      | Some old \<Rightarrow>
          if tx_reconciled old then Keep (Ignored_Reconciled (md_row e))
          else (case merge_updates old (md_row e) update_dates of
                  None \<Rightarrow> Keep (Ignored_Unchanged (md_row e))
                | Some u \<Rightarrow> Merge u (Updates_Existing (md_row e) (tx_id old))))"

primrec decision_preview :: "decision \<Rightarrow> preview" where
  "decision_preview (Keep p) = p"
| "decision_preview (Merge u p) = p"
| "decision_preview (Add r p) = p"

definition merges :: "decision list \<Rightarrow> tx_update list" where
  "merges ds = List.map_filter (\<lambda>d. case d of Merge u p \<Rightarrow> Some u | _ \<Rightarrow> None) ds"

definition additions :: "decision list \<Rightarrow> prepared list" where
  "additions ds = List.map_filter (\<lambda>d. case d of Add r p \<Rightarrow> Some r | _ \<Rightarrow> None) ds"

definition write_addition :: "rule_env \<Rightarrow> nat \<Rightarrow> nat \<Rightarrow> nat \<times> prepared \<Rightarrow> finance_db \<Rightarrow> finance_db finance" where
  "write_addition env user acc kr db =
     (let (k, row) = kr in
      rbind (parse_day10 env (rt_date row)) (\<lambda>d.
      rbind (column_int (rt_amount row)) (\<lambda>amount.
      rbind (column_text (rt_notes row)) (\<lambda>notes.
      rbind (insert_tx ((new_tx user acc d amount)
          \<lparr>tx_payee := rt_payee_id row, tx_category := rt_category_id row, tx_notes := notes,
           tx_cleared := truthy (rt_cleared row), tx_imported_id := pr_imported_id row,
           tx_imported_payee := rt_imported_payee row, tx_raw := pr_raw row,
           tx_sort := fd_now db - int k * TRANSACTION_SORT_INCREMENT\<rparr>) db) (\<lambda>(_, db). Inr db)))))"

record import_result =
  ir_added :: "nat list"
  ir_updated :: "nat list"
  ir_preview :: "preview list"

definition reconcile :: "rule_env \<Rightarrow> nat \<Rightarrow> nat \<Rightarrow> prepared list \<Rightarrow> bool \<Rightarrow> bool \<Rightarrow> bool \<Rightarrow> bool \<Rightarrow> finance_db
    \<Rightarrow> (import_result \<times> finance_db) finance" where
  "reconcile env user acc rows strict reimport update_dates is_preview db =
     rbind (match_transactions env db acc rows strict reimport) (\<lambda>es.
     let ds = map (decide update_dates) es;
         res = \<lparr>ir_added = map (\<lambda>k. fd_next db + k) [0..<length (additions ds)],
                ir_updated = map up_id (merges ds), ir_preview = map decision_preview ds\<rparr>
     in if is_preview then Inr (res, db)
        else rbind (rfold write_update (merges ds) db) (\<lambda>db.
             rbind (rfold (write_addition env user acc) (enumerate 0 (additions ds)) db) (\<lambda>db. Inr (res, db))))"

section \<open>Importing\<close>

definition jval_text :: "jval \<Rightarrow> string option finance" where
  "jval_text v = (case v of JNull \<Rightarrow> Inr None | JText s \<Rightarrow> Inr (Some s) | _ \<Rightarrow> Inl Data_Error)"

text \<open>The payees rule actions name are resolved, and created, before any row is looked at.\<close>

definition resolve_action :: "nat \<Rightarrow> rule_action \<Rightarrow> (string \<times> nat \<times> bool) list \<times> finance_db
    \<Rightarrow> ((string \<times> nat \<times> bool) list \<times> finance_db) finance" where
  "resolve_action user a st =
     (if ac_field a = Some ''payee'' then
        rbind (jval_text (ac_value a)) (\<lambda>name.
        rbind (resolve_payee user name (snd st)) (\<lambda>(p, db).
        Inr (case (p, name) of
               (Some i, Some s) \<Rightarrow> (AList.update (normalised_string s) (i, True) (fst st), db)
             | _ \<Rightarrow> (fst st, db))))
      else Inr st)"

definition prepared_of :: "normal_row \<Rightarrow> nat option \<Rightarrow> prepared" where
  "prepared_of r payee = \<lparr>rt_amount = JInt (nr_amount r), rt_date = JText (nr_date r), rt_cleared = JBool (nr_cleared r),
     rt_notes = jtext (nr_notes r), rt_imported_payee = nr_imported_payee r, rt_category = nr_category r,
     rt_payee_id = payee, rt_category_id = None, rt_schedule_id = JNull, rt_tombstone = False,
     pr_imported_id = nr_imported_id r, pr_payee_name = nr_payee_name r, pr_raw = nr_raw r\<rparr>"

text \<open>One row through the payee table and the rules: \<open>Some p\<close> to reconcile, or a skipped preview.\<close>

definition prepare_row :: "rule_env \<Rightarrow> nat \<Rightarrow> rule list \<Rightarrow> string option \<Rightarrow> resolver \<Rightarrow> normal_row
    \<Rightarrow> (prepared list \<times> preview list) \<times> finance_db \<Rightarrow> ((prepared list \<times> preview list) \<times> finance_db) finance" where
  "prepare_row env user rules account_name rs r st =
     (let ((rows, skipped), db) = st in
      rbind (resolve_payee user (nr_payee_name r) db) (\<lambda>(payee, db).
      rbind (lift_rule (apply_rules env rules (prepared_of r payee)
          \<lparr>nm_imported_payee = nr_imported_payee r, nm_payee = nr_payee_name r, nm_notes = nr_notes r,
           nm_account = account_name, nm_category = None\<rparr> rs)) (\<lambda>(t, _).
      Inr (if rt_tombstone t then ((rows, skipped @ [Deleted_By_Rule t]), db)
           else ((rows @ [t], skipped), db)))))"

definition lift_import :: "(import_error, 'a) result \<Rightarrow> 'a finance" where
  "lift_import r = (case r of Inl e \<Rightarrow> Inl (Import_Failure e) | Inr x \<Rightarrow> Inr x)"

definition prepare_rows :: "rule_env \<Rightarrow> nat \<Rightarrow> nat \<Rightarrow> normal_row list \<Rightarrow> finance_db
    \<Rightarrow> ((prepared list \<times> preview list) \<times> finance_db) finance" where
  "prepare_rows env user acc rows db =
     (let rules = load_rules db user;
          categories = category_table db user;
          account_name = map_option acc_name (find_account db acc)
      in rbind (rfold (resolve_action user) (concat (map ru_actions rules)) ([], db)) (\<lambda>(payees, db).
         rfold (prepare_row env user rules account_name \<lparr>rs_category = categories, rs_payee = payees\<rparr>) rows (([], []), db)))"

definition import_transactions :: "rule_env \<Rightarrow> nat \<Rightarrow> nat \<Rightarrow> import_row list \<Rightarrow> bool \<Rightarrow> finance_db
    \<Rightarrow> (import_result \<times> finance_db) finance" where
  "import_transactions env user acc raw_rows is_preview db =
     rbind (ensure (map_option acc_user (find_account db acc) = Some user) (Finance_Error ''account not found'')) (\<lambda>_.
     rbind (lift_import (rmap normalise_import_row raw_rows)) (\<lambda>rows.
     rbind (prepare_rows env user acc rows db) (\<lambda>((prepared, skipped), db).
     rbind (reconcile env user acc prepared True False False is_preview db) (\<lambda>(res, db).
     let res = res\<lparr>ir_preview := skipped @ ir_preview res\<rparr> in
     if is_preview then Inr (res, db)
     else Inr (res, db\<lparr>fd_imports := fd_imports db @
       [\<lparr>il_user = user, il_account = acc, il_added = length (ir_added res), il_updated = length (ir_updated res)\<rparr>]\<rparr>)))))"

section \<open>What the three passes match\<close>

text \<open>The ids matched by the entries whose row has, or has no, exact match.\<close>

definition ids_where :: "('r \<Rightarrow> bool) \<Rightarrow> 'r matched list \<Rightarrow> nat list" where
  "ids_where X es = matched_ids (filter (\<lambda>e. X (md_row e)) es)"

lemma matched_ids_Nil [simp]: "matched_ids [] = []"
  by (simp add: matched_ids_def List.map_filter_simps)

lemma matched_ids_Cons [simp]:
  "matched_ids (e # es) = (case md_match e of None \<Rightarrow> matched_ids es | Some t \<Rightarrow> tx_id t # matched_ids es)"
  by (cases "md_match e") (simp_all add: matched_ids_def List.map_filter_simps)

lemma set_matched_ids: "set (matched_ids es) = {tx_id t | e t. e \<in> set es \<and> md_match e = Some t}"
  by (induction es) (auto split: option.splits)

lemma ids_where_Cons [simp]:
  "ids_where X (e # es) = (if X (md_row e) then (case md_match e of None \<Rightarrow> ids_where X es
     | Some t \<Rightarrow> tx_id t # ids_where X es) else ids_where X es)"
  by (cases "md_match e") (simp_all add: ids_where_def)

lemma ids_where_Nil [simp]: "ids_where X [] = []"
  by (simp add: ids_where_def)

lemma ids_where_subset: "set (ids_where X es) \<subseteq> set (matched_ids es)"
  by (auto simp: ids_where_def set_matched_ids)

text \<open>A pass keeps rows, candidates and earlier matches, and claims fresh, distinct ids.\<close>

lemma claim_pass_shape:
  "claim_pass P es used = (es', used') \<Longrightarrow>
    map md_row es' = map md_row es \<and> map md_fuzzy es' = map md_fuzzy es \<and> set used \<subseteq> set used'"
  by (induction P es used arbitrary: es' used' rule: claim_pass.induct)
    (auto split: option.splits prod.splits if_splits)

lemma claim_pass_keeps:
  "claim_pass P es used = (es', used') \<Longrightarrow> list_all2 (\<lambda>e e'. md_match e \<noteq> None \<longrightarrow> e' = e) es es'"
  by (induction P es used arbitrary: es' used' rule: claim_pass.induct)
    (auto split: option.splits prod.splits if_splits)

lemma claim_pass_candidates:
  "claim_pass P es used = (es', used') \<Longrightarrow>
    list_all2 (\<lambda>e e'. \<forall>c. md_match e = None \<and> md_match e' = Some c \<longrightarrow> c \<in> set (md_fuzzy e) \<and> P (md_row e) c) es es'"
  by (induction P es used arbitrary: es' used' rule: claim_pass.induct)
    (auto split: option.splits prod.splits if_splits dest: find_Some_mem)

lemma claim_pass_used:
  "claim_pass P es used = (es', used') \<Longrightarrow> set (matched_ids es) \<subseteq> set used \<Longrightarrow> set (matched_ids es') \<subseteq> set used'"
proof (induction P es used arbitrary: es' used' rule: claim_pass.induct)
  case (2 P e es used)
  then show ?case
    using claim_pass_shape[of P es] by (fastforce split: option.splits prod.splits if_splits)
qed simp

lemma claim_pass_used_only:
  "claim_pass P es used = (es', used') \<Longrightarrow> set used' \<subseteq> set used \<union> set (matched_ids es')"
  by (induction P es used arbitrary: es' used' rule: claim_pass.induct)
    (fastforce split: option.splits prod.splits if_splits)+

lemma claim_pass_grows:
  "claim_pass P es used = (es', used') \<Longrightarrow> set (matched_ids es) \<subseteq> set (matched_ids es')"
  by (induction P es used arbitrary: es' used' rule: claim_pass.induct)
    (fastforce split: option.splits prod.splits if_splits)+

lemma claim_pass_distinct:
  assumes "claim_pass P es used = (es', used')"
    and "\<And>e. e \<in> set es \<Longrightarrow> X (md_row e) \<Longrightarrow> md_match e \<noteq> None"
    and "set (matched_ids es) \<subseteq> set used" "distinct (ids_where (\<lambda>r. \<not> X r) es)"
  shows "ids_where X es' = ids_where X es \<and> distinct (ids_where (\<lambda>r. \<not> X r) es')
    \<and> set (ids_where (\<lambda>r. \<not> X r) es') - set (ids_where (\<lambda>r. \<not> X r) es) \<subseteq> - set used"
  using assms
proof (induction P es used arbitrary: es' used' rule: claim_pass.induct)
  case (2 P e es used)
  define new where "new = (if md_match e = None
    then find (\<lambda>c. \<not> List.member used (tx_id c) \<and> P (md_row e) c) (md_fuzzy e) else None)"
  show ?case
  proof (cases new)
    case None
    then obtain fs vs where fs: "claim_pass P es used = (fs, vs)" "es' = e # fs"
      using "2.prems"(1) by (auto simp: new_def split: prod.splits)
    have sub: "set (matched_ids es) \<subseteq> set used" "distinct (ids_where (\<lambda>r. \<not> X r) es)"
      using "2.prems"(3,4) by (auto split: option.splits if_splits)
    have IH: "ids_where X fs = ids_where X es \<and> distinct (ids_where (\<lambda>r. \<not> X r) fs)
      \<and> set (ids_where (\<lambda>r. \<not> X r) fs) - set (ids_where (\<lambda>r. \<not> X r) es) \<subseteq> - set used"
      by (rule "2.IH"(1)[OF None[unfolded new_def] fs(1)]) (use "2.prems"(2) sub in auto)
    show ?thesis
    proof (cases "md_match e")
      case (Some t)
      with "2.prems"(3,4) IH ids_where_subset[of "\<lambda>r. \<not> X r" es] show ?thesis by (auto simp: fs(2))
    qed (use IH in \<open>simp add: fs(2)\<close>)
  next
    case (Some c)
    then have e: "md_match e = None" "tx_id c \<notin> set used" "\<not> X (md_row e)"
      using "2.prems"(2)[of e] by (auto simp: new_def List.member_iff dest!: find_Some_mem split: if_splits)
    obtain fs vs where fs: "claim_pass P es (tx_id c # used) = (fs, vs)" "es' = e\<lparr>md_match := Some c\<rparr> # fs"
      using "2.prems"(1) Some by (auto simp: new_def split: prod.splits)
    have sub: "set (matched_ids es) \<subseteq> set (tx_id c # used)" "distinct (ids_where (\<lambda>r. \<not> X r) es)"
      using "2.prems"(3,4) e by auto
    have IH: "ids_where X fs = ids_where X es \<and> distinct (ids_where (\<lambda>r. \<not> X r) fs)
      \<and> set (ids_where (\<lambda>r. \<not> X r) fs) - set (ids_where (\<lambda>r. \<not> X r) es) \<subseteq> - set (tx_id c # used)"
      by (rule "2.IH"(2)[OF Some[unfolded new_def] fs(1)]) (use "2.prems"(2) sub in auto)
    have "tx_id c \<notin> set (ids_where (\<lambda>r. \<not> X r) es)"
      using e "2.prems"(3) ids_where_subset[of "\<lambda>r. \<not> X r" es] by auto
    with IH e show ?thesis by (auto simp: fs(2))
  qed
qed simp

text \<open>After the last pass every candidate of an unmatched row is taken.\<close>

lemma claim_pass_exhausts:
  "claim_pass (\<lambda>r c. True) es used = (es', used') \<Longrightarrow> e \<in> set es' \<Longrightarrow> md_match e = None \<Longrightarrow> c \<in> set (md_fuzzy e)
    \<Longrightarrow> tx_id c \<in> set used'"
proof (induction es arbitrary: used es' used')
  case (Cons f es)
  then show ?case
    using claim_pass_shape[of "\<lambda>r c. True" es]
    by (fastforce simp: find_None_all List.member_iff split: option.splits prod.splits if_splits)
qed simp

lemma ids_where_nth:
  assumes "distinct (ids_where Y es)" "i < length es" "j < length es" "i \<noteq> j" "Y (md_row (es ! i))" "Y (md_row (es ! j))"
    and "md_match (es ! i) = Some s" "md_match (es ! j) = Some t"
  shows "tx_id s \<noteq> tx_id t"
  using assms
proof (induction es arbitrary: i j)
  case (Cons e es)
  have tail: "tx_id v \<in> set (ids_where Y es)" if "k < length es" "Y (md_row (es ! k))" "md_match (es ! k) = Some v" for k v
    using that by (force simp: ids_where_def set_matched_ids)
  show ?case
  proof (cases i)
    case 0
    then obtain l where "j = Suc l" using Cons.prems by (cases j) auto
    with 0 Cons.prems tail[of l t] show ?thesis by auto
  next
    case (Suc k)
    show ?thesis
    proof (cases j)
      case 0
      with Suc Cons.prems tail[of k s] show ?thesis by auto
    next
      fix l
      assume "j = Suc l"
      with Suc Cons.prems Cons.IH[of k l] show ?thesis by (auto split: option.splits if_splits)
    qed
  qed
qed simp

lemma claim_pass_nth:
  assumes "claim_pass P es used = (es', used')"
  shows "length es' = length es"
    and "k < length es \<Longrightarrow> md_row (es' ! k) = md_row (es ! k)"
    and "k < length es \<Longrightarrow> md_fuzzy (es' ! k) = md_fuzzy (es ! k)"
    and "k < length es \<Longrightarrow> md_match (es ! k) \<noteq> None \<Longrightarrow> es' ! k = es ! k"
    and "k < length es \<Longrightarrow> md_match (es ! k) = None \<Longrightarrow> md_match (es' ! k) = Some c
      \<Longrightarrow> c \<in> set (md_fuzzy (es ! k)) \<and> P (md_row (es ! k)) c"
proof -
  note shape = claim_pass_shape[OF assms]
  show len: "length es' = length es" using shape by (metis length_map)
  show "k < length es \<Longrightarrow> md_row (es' ! k) = md_row (es ! k)" using shape len by (metis nth_map)
  show "k < length es \<Longrightarrow> md_fuzzy (es' ! k) = md_fuzzy (es ! k)" using shape len by (metis nth_map)
  show "k < length es \<Longrightarrow> md_match (es ! k) \<noteq> None \<Longrightarrow> es' ! k = es ! k"
    using claim_pass_keeps[OF assms] by (auto simp: list_all2_conv_all_nth)
  show "k < length es \<Longrightarrow> md_match (es ! k) = None \<Longrightarrow> md_match (es' ! k) = Some c
      \<Longrightarrow> c \<in> set (md_fuzzy (es ! k)) \<and> P (md_row (es ! k)) c"
    using claim_pass_candidates[OF assms] by (auto simp: list_all2_conv_all_nth)
qed

lemma first_pass:
  assumes "rmap (first_entry find_exact dataset) rows = Inr es"
  shows "map md_row es = rows"
    and "e \<in> set es \<Longrightarrow> md_match e = find_exact (md_row e)"
    and "e \<in> set es \<Longrightarrow> find_exact (md_row e) = None \<Longrightarrow> dataset (md_row e) = Inr (md_fuzzy e)"
  using assms
  by (induction rows arbitrary: es) (auto simp: result_simps first_entry_def split: option.splits)

lemma ids_where_unmatched: "(\<And>e. e \<in> set es \<Longrightarrow> X (md_row e) \<Longrightarrow> md_match e = None) \<Longrightarrow> ids_where X es = []"
  by (induction es) auto

text \<open>The result of all passes, for any source of exact matches and candidates.\<close>

lemma match_rows_result:
  assumes "match_rows find_exact dataset payee rows = Inr es"
  shows "map md_row es = rows"
    and "distinct (ids_where (\<lambda>r. find_exact r = None) es)"
    and "set (ids_where (\<lambda>r. find_exact r = None) es) \<inter> set (ids_where (\<lambda>r. find_exact r \<noteq> None) es) = {}"
    and "\<And>e. e \<in> set es \<Longrightarrow> find_exact (md_row e) \<noteq> None \<Longrightarrow> md_match e = find_exact (md_row e)"
    and "\<And>e. e \<in> set es \<Longrightarrow> find_exact (md_row e) = None \<Longrightarrow> dataset (md_row e) = Inr (md_fuzzy e)"
    and "\<And>e c. e \<in> set es \<Longrightarrow> find_exact (md_row e) = None \<Longrightarrow> md_match e = Some c \<Longrightarrow> c \<in> set (md_fuzzy e)"
    and "\<And>e c. e \<in> set es \<Longrightarrow> md_match e = None \<Longrightarrow> c \<in> set (md_fuzzy e) \<Longrightarrow> tx_id c \<in> set (matched_ids es)"
proof -
  define X where "X = (\<lambda>r. find_exact r \<noteq> None)"
  have notX: "(\<lambda>r. \<not> X r) = (\<lambda>r. find_exact r = None)" by (simp add: X_def)
  obtain es1 es2 us2 us3 where s1: "rmap (first_entry find_exact dataset) rows = Inr es1"
    and s2: "claim_pass (\<lambda>r c. tx_payee c = payee r) es1 (matched_ids es1) = (es2, us2)"
    and s3: "claim_pass (\<lambda>r c. True) es2 us2 = (es, us3)"
  proof -
    from assms obtain es1 where s1: "rmap (first_entry find_exact dataset) rows = Inr es1"
      by (auto simp: match_rows_def result_simps)
    obtain es2 us2 where s2: "claim_pass (\<lambda>r c. tx_payee c = payee r) es1 (matched_ids es1) = (es2, us2)"
      by fastforce
    obtain es3 us3 where s3: "claim_pass (\<lambda>r c. True) es2 us2 = (es3, us3)" by fastforce
    from assms s1 s2 s3 have "es3 = es" by (simp add: match_rows_def)
    with that[OF s1 s2] s3 show thesis by blast
  qed
  note f = first_pass[OF s1]
  note n2 = claim_pass_nth[OF s2] and n3 = claim_pass_nth[OF s3]
  show "map md_row es = rows" using f(1) claim_pass_shape[OF s2] claim_pass_shape[OF s3] by simp
  have at: "\<exists>k<length es. e = es ! k" if "e \<in> set es" for e using that by (auto simp: in_set_conv_nth)
  show "md_match e = find_exact (md_row e)" if "e \<in> set es" "find_exact (md_row e) \<noteq> None" for e
    using at[OF that(1)] f(2) n2 n3 that(2) by (metis nth_mem)
  show "dataset (md_row e) = Inr (md_fuzzy e)" if "e \<in> set es" "find_exact (md_row e) = None" for e
    using at[OF that(1)] f(3) n2(1,2,3) n3(1,2,3) that(2) by (metis nth_mem)
  show "c \<in> set (md_fuzzy e)" if "e \<in> set es" "find_exact (md_row e) = None" "md_match e = Some c" for e c
    using at[OF that(1)] f(2) n2 n3 that(2,3) by (metis nth_mem)
  have ex1: "ids_where (\<lambda>r. \<not> X r) es1 = []"
    by (rule ids_where_unmatched) (auto simp: X_def f(2))
  have X1: "md_match e \<noteq> None" if "e \<in> set es1" "X (md_row e)" for e using f(2)[OF that(1)] that(2) by (simp add: X_def)
  have d2: "ids_where X es2 = ids_where X es1" "distinct (ids_where (\<lambda>r. \<not> X r) es2)"
    "set (ids_where (\<lambda>r. \<not> X r) es2) \<subseteq> - set (matched_ids es1)"
    using claim_pass_distinct[OF s2, of X] X1 ex1 by auto
  have X2: "md_match e \<noteq> None" if "e \<in> set es2" "X (md_row e)" for e
    using that X1 n2 by (metis in_set_conv_nth)
  have u2: "set (matched_ids es2) \<subseteq> set us2" by (rule claim_pass_used[OF s2]) simp
  have d3: "ids_where X es = ids_where X es2" "distinct (ids_where (\<lambda>r. \<not> X r) es)"
    "set (ids_where (\<lambda>r. \<not> X r) es) - set (ids_where (\<lambda>r. \<not> X r) es2) \<subseteq> - set us2"
    using claim_pass_distinct[OF s3, of X] X2 u2 d2(2) by auto
  show "distinct (ids_where (\<lambda>r. find_exact r = None) es)" using d3(2) by (simp add: X_def)
  have "set (ids_where X es) \<subseteq> set (matched_ids es1)" "set (ids_where X es) \<subseteq> set us2"
    using d3(1) d2(1) ids_where_subset[of X es1] ids_where_subset[of X es2] u2 by auto
  with d2(3) d3(3) have "set (ids_where (\<lambda>r. \<not> X r) es) \<inter> set (ids_where X es) = {}" by auto
  then show "set (ids_where (\<lambda>r. find_exact r = None) es) \<inter> set (ids_where (\<lambda>r. find_exact r \<noteq> None) es) = {}"
    by (simp add: X_def)
  have "set us3 \<subseteq> set (matched_ids es)"
    using claim_pass_used_only[OF s2] claim_pass_used_only[OF s3] claim_pass_grows[OF s2] claim_pass_grows[OF s3] by blast
  then show "tx_id c \<in> set (matched_ids es)" if "e \<in> set es" "md_match e = None" "c \<in> set (md_fuzzy e)" for e c
    using claim_pass_exhausts[OF s3 that] by blast
qed

section \<open>Properties of the matching\<close>

definition sample_account :: "nat \<Rightarrow> string \<Rightarrow> account" where
  "sample_account i name = \<lparr>acc_id = i, acc_user = 1, acc_name = name, acc_type = ''checking'', acc_currency = ''USD'',
     acc_offbudget = False, acc_closed = False, acc_balance = None, acc_as_of = None\<rparr>"

text \<open>A ledger of two accounts, a category, a transfer payee and two transactions of one day.\<close>

definition sample_finance :: finance_db where
  "sample_finance = \<lparr>fd_accounts = [sample_account 10 ''Main'', sample_account 11 ''Savings''],
     fd_categories = [(new_category 1 ''Food'' False)\<lparr>cat_id := 12\<rparr>],
     fd_payees = [\<lparr>pay_id = 13, pay_user = 1, pay_name = ''Transfer: Savings'', pay_transfer = Some 11, pay_tombstone = False\<rparr>],
     fd_txs = [(new_tx 1 10 739000 (-500))\<lparr>tx_id := 20, tx_category := Some 12\<rparr>,
               (new_tx 1 10 739001 (-500))\<lparr>tx_id := 21, tx_imported_id := Some ''A1''\<rparr>],
     fd_budgets = [], fd_rules = [], fd_imports = [], fd_currency = [], fd_next = 30, fd_today = 739005, fd_now = 1000\<rparr>"

definition sample_prepared :: "string option \<Rightarrow> prepared" where
  "sample_prepared k = prepared_of \<lparr>nr_date = ''2024-04-30'', nr_amount = -500, nr_payee_name = Some ''Shop'',
     nr_imported_id = k, nr_imported_payee = Some ''SHOP 1'', nr_notes = None, nr_cleared = True,
     nr_category = None, nr_raw = None\<rparr> None"

definition sample_days :: rule_env where
  "sample_days = sample_env\<lparr>re_isodate := (\<lambda>s. Some 739002)\<rparr>"

definition sample_matched :: "prepared matched list" where
  "sample_matched = [\<lparr>md_row = sample_prepared (Some ''B1''), md_match = Some (fd_txs sample_finance ! 0),
       md_fuzzy = [fd_txs sample_finance ! 0]\<rparr>,
     \<lparr>md_row = sample_prepared (Some ''A1''), md_match = Some (fd_txs sample_finance ! 1), md_fuzzy = []\<rparr>,
     \<lparr>md_row = sample_prepared (Some ''B2''), md_match = None, md_fuzzy = [fd_txs sample_finance ! 0]\<rparr>]"

lemma sample_matching:
  "match_transactions sample_days sample_finance 10 (map (sample_prepared \<circ> Some) [''B1'', ''A1'', ''B2'']) True False
    = Inr sample_matched"
  by code_simp

lemma fuzzy_distinct:
  assumes "match_transactions env db acc rows strict reimport = Inr es"
    and "i < length es" "j < length es" "i \<noteq> j" "md_match (es ! i) = Some s" "md_match (es ! j) = Some t"
    and "row_exact db acc reimport (md_row (es ! i)) = None"
  shows "tx_id s \<noteq> tx_id t"
proof -
  note r = match_rows_result[OF assms(1)[unfolded match_transactions_def]]
  show ?thesis
  proof (cases "row_exact db acc reimport (md_row (es ! j)) = None")
    case True
    with assms ids_where_nth[OF r(2)] show ?thesis by blast
  next
    case False
    have "tx_id s \<in> set (ids_where (\<lambda>r. row_exact db acc reimport r = None) es)"
      "tx_id t \<in> set (ids_where (\<lambda>r. row_exact db acc reimport r \<noteq> None) es)"
      using assms False by (force simp: ids_where_def set_matched_ids)+
    with r(3) show ?thesis by auto
  qed
qed

text \<open>C38. Fuzzy matching is one-to-one over the whole batch: a row that no imported id identifies is
  never matched with a transaction any other row of the batch is matched with.\<close>

theorem fuzzy_matching_one_to_one:
  assumes "match_transactions env db acc rows strict reimport = Inr es"
    and "i < length es" "j < length es" "i \<noteq> j" "md_match (es ! i) = Some s" "md_match (es ! j) = Some t"
    and "row_exact db acc reimport (md_row (es ! i)) = None"
  shows "tx_id s \<noteq> tx_id t"
  by (rule fuzzy_distinct[OF assms])

lemma fuzzy_matching_one_to_one_witness: "tx_id (fd_txs sample_finance ! 0) \<noteq> tx_id (fd_txs sample_finance ! 1)"
  by (rule fuzzy_matching_one_to_one[OF sample_matching, of 0 1]) (simp_all add: sample_matched_def, code_simp)

text \<open>A row is imported as a new transaction only when nothing is left to match it with: every
  live transaction of the account with its amount within seven days, and without an imported id when
  the row carries one, is matched by another row of the batch.\<close>

theorem added_only_when_taken:
  assumes "match_transactions env db acc rows True reimport = Inr es" "e \<in> set es" "md_match e = None"
    and "parse_day env (rt_date (md_row e)) = Inr d" "rt_amount (md_row e) = JInt (tx_amount t)"
    and "t \<in> set (fd_txs db)" "tx_account t = acc" "\<not> tx_deleted t" "\<bar>tx_date t - d\<bar> \<le> 7"
    and "tx_imported_id t = None \<or> pr_imported_id (md_row e) = None"
  shows "\<exists>e'\<in>set es. \<exists>s. md_match e' = Some s \<and> tx_id s = tx_id t"
proof -
  note r = match_rows_result[OF assms(1)[unfolded match_transactions_def]]
  have "row_exact db acc reimport (md_row e) = None" using r(4)[OF assms(2)] assms(3) by force
  with r(5)[OF assms(2)] have "fuzzy_dataset env db acc (md_row e) True = Inr (md_fuzzy e)" by simp
  then have "md_fuzzy e = sort_key (\<lambda>s. \<bar>tx_date s - d\<bar>) (filter (\<lambda>s. tx_account s = acc \<and> tx_amount s = tx_amount t
      \<and> d - FUZZY_WINDOW_DAYS \<le> tx_date s \<and> tx_date s \<le> d + FUZZY_WINDOW_DAYS \<and> \<not> tx_deleted s
      \<and> (tx_imported_id s = None \<or> (if True then pr_imported_id (md_row e) else None) = None)) (fd_txs db))"
    using assms(4,5) unfolding fuzzy_dataset_def by (simp add: column_int_def)
  then have "t \<in> set (md_fuzzy e)" using assms(6-10) by (auto simp: FUZZY_WINDOW_DAYS_def)
  from r(7)[OF assms(2,3) this] show ?thesis unfolding set_matched_ids by force
qed

lemma added_only_when_taken_witness:
  "\<exists>e'\<in>set sample_matched. \<exists>s. md_match e' = Some s \<and> tx_id s = tx_id (fd_txs sample_finance ! 0)"
proof (rule added_only_when_taken[OF sample_matching, of "sample_matched ! 2" 739002])
  show "parse_day sample_days (rt_date (md_row (sample_matched ! 2))) = Inr 739002" by code_simp
qed (simp_all add: sample_matched_def sample_finance_def sample_prepared_def prepared_of_def new_tx_def)

end
