(* ===== verification/Finance_Laws.thy ===== *)
theory Finance_Laws
  imports Import_Reconcile
begin

text \<open>
  The laws of the finance ledger over every operation of \<open>Finance_Ledger\<close> and \<open>Import_Reconcile\<close>:
  the invariant of the tables (fresh ids, non-zero amounts, balanced splits, symmetric transfers,
  owned references), its preservation by every write, the movement of the account balances, the lock
  of reconciled transactions, and the idempotence of imports. The contract of the writes that only
  patch descriptive columns is the locale \<open>skeleton_update\<close>.
\<close>

section \<open>The invariant\<close>

text \<open>The columns that tie rows together; patches and merges leave them alone.\<close>

definition skel :: "tx \<Rightarrow> (nat \<times> nat \<times> nat \<times> int) \<times> nat option \<times> nat option \<times> bool \<times> bool" where
  "skel t = ((tx_id t, tx_user t, tx_account t, tx_amount t), tx_transfer t, tx_parent t, tx_is_parent t, tx_deleted t)"

definition child_ok :: "tx list \<Rightarrow> tx \<Rightarrow> bool" where
  "child_ok txs c \<longleftrightarrow> (\<forall>p. tx_parent c = Some p \<longrightarrow> \<not> tx_is_parent c \<and> tx_transfer c = None \<and>
     (\<exists>t\<in>set txs. tx_id t = p \<and> tx_is_parent t \<and> tx_user t = tx_user c \<and> tx_account t = tx_account c
        \<and> tx_deleted t = tx_deleted c))"

definition children_sum :: "tx list \<Rightarrow> nat \<Rightarrow> int" where
  "children_sum txs i = sum_list (map tx_amount (filter (\<lambda>c. tx_parent c = Some i) txs))"

definition parent_ok :: "tx list \<Rightarrow> tx \<Rightarrow> bool" where
  "parent_ok txs t \<longleftrightarrow> (tx_is_parent t \<longrightarrow> tx_transfer t = None \<and> children_sum txs (tx_id t) = tx_amount t)"

definition transfer_ok :: "tx list \<Rightarrow> tx \<Rightarrow> bool" where
  "transfer_ok txs t \<longleftrightarrow> (\<forall>u. tx_transfer t = Some u \<longrightarrow>
     (\<exists>s\<in>set txs. tx_id s = u \<and> tx_transfer s = Some (tx_id t) \<and> tx_user s = tx_user t
        \<and> tx_amount s = - tx_amount t \<and> tx_deleted s = tx_deleted t))"

definition rows_ok :: "tx list \<Rightarrow> bool" where
  "rows_ok txs \<longleftrightarrow> (\<forall>t\<in>set txs. tx_amount t \<noteq> 0 \<and> child_ok txs t \<and> parent_ok txs t \<and> transfer_ok txs t)"

definition ids_ok :: "tx list \<Rightarrow> nat \<Rightarrow> bool" where
  "ids_ok txs n \<longleftrightarrow> distinct (map tx_id txs) \<and> (\<forall>t\<in>set txs. tx_id t < n)"

definition owns_account :: "finance_db \<Rightarrow> nat \<Rightarrow> nat \<Rightarrow> bool" where
  "owns_account db user i \<longleftrightarrow> (\<exists>a\<in>set (fd_accounts db). acc_id a = i \<and> acc_user a = user)"

definition tables_ok :: "finance_db \<Rightarrow> bool" where
  "tables_ok db \<longleftrightarrow> distinct (map acc_id (fd_accounts db)) \<and> distinct (map cat_id (fd_categories db))
     \<and> distinct (map pay_id (fd_payees db)) \<and> (\<forall>a\<in>set (fd_accounts db). acc_id a < fd_next db)
     \<and> (\<forall>c\<in>set (fd_categories db). cat_id c < fd_next db) \<and> (\<forall>p\<in>set (fd_payees db). pay_id p < fd_next db)
     \<and> (\<forall>p\<in>set (fd_payees db). \<forall>a. pay_transfer p = Some a \<longrightarrow> owns_account db (pay_user p) a)
     \<and> (\<forall>t\<in>set (fd_txs db). owns_account db (tx_user t) (tx_account t))"

definition finance_inv :: "finance_db \<Rightarrow> bool" where
  "finance_inv db \<longleftrightarrow> rows_ok (fd_txs db) \<and> ids_ok (fd_txs db) (fd_next db) \<and> tables_ok db"

definition live_total :: "tx list \<Rightarrow> nat \<Rightarrow> int" where
  "live_total txs user = sum_list (map tx_amount (filter (\<lambda>t. tx_user t = user \<and> live_leaf t) txs))"

text \<open>The sum of the ledger balances a user is shown.\<close>

definition total_balance :: "finance_db \<Rightarrow> nat \<Rightarrow> int" where
  "total_balance db user = sum_list (map snd (list_accounts db user))"

section \<open>Writes that patch descriptive columns\<close>

locale skeleton_update =
  fixes g :: "tx \<Rightarrow> tx"
  assumes skel_kept: "skel (g t) = skel t"
begin

lemma kept [simp]:
  "tx_id (g t) = tx_id t" "tx_user (g t) = tx_user t" "tx_account (g t) = tx_account t"
  "tx_amount (g t) = tx_amount t" "tx_transfer (g t) = tx_transfer t" "tx_parent (g t) = tx_parent t"
  "tx_is_parent (g t) = tx_is_parent t" "tx_deleted (g t) = tx_deleted t"
  using skel_kept[of t] by (simp_all add: skel_def)

lemma children_sum_map: "children_sum (map g txs) i = children_sum txs i"
  by (simp add: children_sum_def filter_map comp_def)

lemma rows_ok_map: "rows_ok (map g txs) \<longleftrightarrow> rows_ok txs"
  by (simp add: rows_ok_def child_ok_def parent_ok_def transfer_ok_def children_sum_map)

lemma live_total_map: "live_total (map g txs) user = live_total txs user"
  by (simp add: live_total_def live_leaf_def filter_map comp_def)

lemma inv_map: "finance_inv (db\<lparr>fd_txs := map g (fd_txs db)\<rparr>) \<longleftrightarrow> finance_inv db"
  by (simp add: finance_inv_def rows_ok_map ids_ok_def tables_ok_def owns_account_def comp_def)

lemma guarded: "skeleton_update (\<lambda>t. if P t then g t else t)"
  by unfold_locales (simp add: skel_kept)

end

text \<open>A guarded update of columns outside the skeleton, as \<open>UPDATE ... WHERE\<close> does it.\<close>

lemma update_txs_inv: "skeleton_update g \<Longrightarrow> finance_inv (update_txs P g db) \<longleftrightarrow> finance_inv db"
  unfolding update_txs_def by (rule skeleton_update.inv_map[OF skeleton_update.guarded])

lemma update_txs_total:
  "skeleton_update g \<Longrightarrow> live_total (fd_txs (update_txs P g db)) user = live_total (fd_txs db) user"
  unfolding update_txs_def by (simp add: skeleton_update.live_total_map[OF skeleton_update.guarded])

interpretation patch: skeleton_update "patch_row pt" for pt
  by unfold_locales (simp add: skel_def patch_row_def)

interpretation merge: skeleton_update "merge_row u n" for u n
  by unfold_locales (simp add: skel_def merge_row_def)

interpretation clear_category: skeleton_update "\<lambda>t. t\<lparr>tx_category := None\<rparr>"
  by unfold_locales (simp add: skel_def)

section \<open>Appending closed groups of rows\<close>

lemma children_sum_append: "children_sum (xs @ ys) i = children_sum xs i + children_sum ys i"
  by (simp add: children_sum_def)

lemma children_sum_foreign:
  assumes "rows_ok ys" "i \<notin> set (map tx_id ys)"
  shows "children_sum ys i = 0"
proof -
  have "filter (\<lambda>c. tx_parent c = Some i) ys = []"
    using assms by (force simp: filter_empty_conv rows_ok_def child_ok_def)
  then show ?thesis by (simp add: children_sum_def)
qed

lemma linked_mono:
  assumes "set xs \<subseteq> set zs"
  shows "child_ok xs t \<Longrightarrow> child_ok zs t" "transfer_ok xs t \<Longrightarrow> transfer_ok zs t"
  using assms unfolding child_ok_def transfer_ok_def by blast+

text \<open>Two groups that are closed under parents and transfers stay so together.\<close>

lemma rows_ok_append:
  assumes "rows_ok xs" "rows_ok ys" "set (map tx_id xs) \<inter> set (map tx_id ys) = {}"
  shows "rows_ok (xs @ ys)"
proof -
  have x: "children_sum (xs @ ys) (tx_id t) = children_sum xs (tx_id t)" if "t \<in> set xs" for t
    using children_sum_foreign[OF assms(2), of "tx_id t"] assms(3) that by (auto simp: children_sum_append)
  have y: "children_sum (xs @ ys) (tx_id t) = children_sum ys (tx_id t)" if "t \<in> set ys" for t
    using children_sum_foreign[OF assms(1), of "tx_id t"] assms(3) that by (auto simp: children_sum_append)
  have "tx_amount t \<noteq> 0 \<and> child_ok (xs @ ys) t \<and> parent_ok (xs @ ys) t \<and> transfer_ok (xs @ ys) t"
    if "t \<in> set (xs @ ys)" for t
  proof (cases "t \<in> set xs")
    case True
    with assms(1) x[OF True] linked_mono[of xs "xs @ ys" t] show ?thesis by (simp add: rows_ok_def parent_ok_def)
  next
    case False
    with that have "t \<in> set ys" by simp
    with assms(2) y[of t] linked_mono[of ys "xs @ ys" t] show ?thesis by (simp add: rows_ok_def parent_ok_def)
  qed
  then show ?thesis unfolding rows_ok_def by blast
qed

lemma live_total_append [simp]: "live_total (xs @ ys) user = live_total xs user + live_total ys user"
  by (simp add: live_total_def)

lemma live_total_Cons:
  "live_total (t # ts) user = (if tx_user t = user \<and> live_leaf t then tx_amount t else 0) + live_total ts user"
  by (simp add: live_total_def)

lemma live_total_Nil [simp]: "live_total [] user = 0"
  by (simp add: live_total_def)

definition plain :: "tx \<Rightarrow> bool" where
  "plain t \<longleftrightarrow> tx_transfer t = None \<and> tx_parent t = None \<and> \<not> tx_is_parent t \<and> \<not> tx_deleted t \<and> tx_amount t \<noteq> 0"

lemma rows_ok_plain: "plain t \<Longrightarrow> rows_ok [t]"
  by (simp add: rows_ok_def plain_def child_ok_def parent_ok_def transfer_ok_def)

lemma live_total_plain: "plain t \<Longrightarrow> live_total [t] user = (if tx_user t = user then tx_amount t else 0)"
  by (simp add: live_total_Cons plain_def live_leaf_def)

lemma rows_ok_pair:
  assumes "tx_transfer a = Some (tx_id b)" "tx_transfer b = Some (tx_id a)" "tx_user a = tx_user b"
    and "tx_amount b = - tx_amount a" "tx_amount a \<noteq> 0" "tx_deleted a = tx_deleted b"
    and "tx_parent a = None" "tx_parent b = None" "\<not> tx_is_parent a" "\<not> tx_is_parent b"
  shows "rows_ok [a, b]"
  using assms by (auto simp: rows_ok_def child_ok_def parent_ok_def transfer_ok_def)

text \<open>A split parent with its children.\<close>

lemma children_sum_all: "(\<And>c. c \<in> set cs \<Longrightarrow> tx_parent c = Some i) \<Longrightarrow> children_sum cs i = sum_list (map tx_amount cs)"
  by (simp add: children_sum_def)

lemma rows_ok_split:
  assumes "tx_is_parent p" "tx_transfer p = None" "tx_parent p = None" "tx_amount p \<noteq> 0"
    and c: "\<And>c. c \<in> set cs \<Longrightarrow> tx_parent c = Some (tx_id p) \<and> \<not> tx_is_parent c \<and> tx_transfer c = None
      \<and> tx_user c = tx_user p \<and> tx_account c = tx_account p \<and> tx_deleted c = tx_deleted p \<and> tx_amount c \<noteq> 0"
    and "sum_list (map tx_amount cs) = tx_amount p"
  shows "rows_ok (p # cs)"
proof -
  have "children_sum (p # cs) (tx_id p) = tx_amount p"
    using children_sum_all[of cs "tx_id p"] c assms(3,6) by (simp add: children_sum_def)
  with assms(1-4) c show ?thesis
    by (auto simp: rows_ok_def child_ok_def parent_ok_def transfer_ok_def)
qed

lemma live_total_children:
  assumes "\<And>c. c \<in> set cs \<Longrightarrow> tx_user c = u \<and> live_leaf c"
  shows "live_total cs user = (if user = u then sum_list (map tx_amount cs) else 0)"
  using assms by (induction cs) (auto simp: live_total_Cons)

section \<open>Tables around the transactions\<close>

lemma find_account_owner:
  "find_account db i = Some a \<Longrightarrow> acc_user a = u \<Longrightarrow> owns_account db u i"
  by (auto simp: find_account_def owns_account_def dest: find_Some_mem)

lemma find_account_user: "map_option acc_user (find_account db i) = Some u \<Longrightarrow> owns_account db u i"
  using find_account_owner by fastforce

text \<open>The sum of the listed balances is the sum over all live leaf rows of the user.\<close>

lemma total_balance_eq:
  assumes "tables_ok db"
  shows "total_balance db user = live_total (fd_txs db) user"
proof -
  define as where "as = filter (\<lambda>a. acc_user a = user) (fd_accounts db)"
  define ts where "ts = filter (\<lambda>t. tx_user t = user \<and> live_leaf t) (fd_txs db)"
  have as: "distinct (map acc_id as)" using assms unfolding as_def tables_ok_def by (simp add: distinct_map_filter)
  have bal: "ledger_balance db a = sum_list (map (\<lambda>t. if tx_account t = acc_id a then tx_amount t else 0) ts)" if "a \<in> set as" for a
  proof -
    have "filter (\<lambda>t. tx_account t = acc_id a \<and> tx_user t = acc_user a \<and> live_leaf t) (fd_txs db)
      = filter (\<lambda>t. tx_account t = acc_id a) ts"
      using that by (auto simp: ts_def as_def intro: filter_cong)
    then show ?thesis by (simp add: ledger_balance_def sum_list_map_if_eq)
  qed
  have "total_balance db user = sum_list (map (ledger_balance db) (sort_key (\<lambda>a. (acc_closed a, acc_name a)) as))"
    by (simp add: total_balance_def list_accounts_def as_def comp_def)
  also have "\<dots> = sum_list (map (ledger_balance db) as)"
  proof -
    have "mset (map (ledger_balance db) (sort_key (\<lambda>a. (acc_closed a, acc_name a)) as)) = mset (map (ledger_balance db) as)"
      by simp
    then show ?thesis by (metis sum_mset_sum_list)
  qed
  also have "\<dots> = sum_list (map (\<lambda>a. sum_list (map (\<lambda>t. if tx_account t = acc_id a then tx_amount t else 0) ts)) as)"
    by (intro arg_cong[where f = sum_list] map_cong refl bal)
  also have "\<dots> = sum_list (map (\<lambda>t. sum_list (map (\<lambda>i. if tx_account t = i then tx_amount t else 0) (map acc_id as))) ts)"
    by (subst sum_list_swap) (simp add: comp_def)
  also have "\<dots> = sum_list (map tx_amount ts)"
  proof (intro arg_cong[where f = sum_list] map_cong refl)
    fix t assume t: "t \<in> set ts"
    then have "owns_account db user (tx_account t)" using assms by (auto simp: ts_def tables_ok_def)
    then have "tx_account t \<in> set (map acc_id as)" by (auto simp: owns_account_def as_def intro: rev_image_eqI)
    then show "sum_list (map (\<lambda>i. if tx_account t = i then tx_amount t else 0) (map acc_id as)) = tx_amount t"
      by (simp only: sum_list_indicator_distinct[OF as] if_P)
  qed
  finally show ?thesis by (simp add: live_total_def ts_def)
qed

section \<open>What the inserts keep\<close>

text \<open>
  \<open>grown db db'\<close>: the tables of \<open>db'\<close> extend those of \<open>db\<close>, the transactions are the same, and the
  tables stay well formed.
\<close>

definition grown :: "finance_db \<Rightarrow> finance_db \<Rightarrow> bool" where
  "grown db db' \<longleftrightarrow> fd_txs db' = fd_txs db \<and> fd_next db \<le> fd_next db' \<and> tables_ok db'
     \<and> (\<exists>as. fd_accounts db' = fd_accounts db @ as)"

lemma grown_refl: "tables_ok db \<Longrightarrow> grown db db"
  by (simp add: grown_def)

lemma grown_trans: "grown a b \<Longrightarrow> grown b c \<Longrightarrow> grown a c"
  by (auto simp: grown_def)

lemma grown_inv: "finance_inv db \<Longrightarrow> grown db db' \<Longrightarrow> finance_inv db'"
  by (auto simp: grown_def finance_inv_def ids_ok_def)

lemma grown_tables: "grown db db' \<Longrightarrow> tables_ok db'"
  by (simp add: grown_def)

lemma grown_owns: "grown db db' \<Longrightarrow> owns_account db u i \<Longrightarrow> owns_account db' u i"
  by (auto simp: grown_def owns_account_def)

lemma insert_payee_grown:
  assumes "insert_payee p db = Inr (i, db')" "tables_ok db"
    and "\<And>a. pay_transfer p = Some a \<Longrightarrow> owns_account db (pay_user p) a"
  shows "grown db db'"
  using assms by (fastforce simp: insert_payee_def result_simps grown_def tables_ok_def owns_account_def)

lemma insert_category_grown:
  assumes "insert_category c db = Inr (i, db')" "tables_ok db"
  shows "grown db db'"
  using assms by (fastforce simp: insert_category_def result_simps grown_def tables_ok_def owns_account_def)

lemma insert_account_grown:
  assumes "insert_account a db = Inr (i, db')" "tables_ok db"
  shows "grown db db' \<and> owns_account db' (acc_user a) i"
  using assms by (fastforce simp: insert_account_def result_simps grown_def tables_ok_def owns_account_def)

lemma resolve_payee_grown:
  assumes "resolve_payee user name db = Inr (p, db')" "tables_ok db"
  shows "grown db db' \<and> (\<forall>i. p = Some i \<longrightarrow> (\<exists>r\<in>set (fd_payees db'). pay_id r = i \<and> pay_user r = user))"
proof (cases name)
  case (Some s)
  show ?thesis
  proof (cases "find (\<lambda>p. pay_user p = user \<and> lower (pay_name p) = lower s \<and> \<not> pay_tombstone p) (fd_payees db)")
    case (Some r)
    with assms \<open>name = Some s\<close> show ?thesis
      by (auto simp: resolve_payee_def grown_refl dest!: find_Some_mem)
  next
    case None
    with assms \<open>name = Some s\<close> obtain i where
      i: "insert_payee \<lparr>pay_id = 0, pay_user = user, pay_name = s, pay_transfer = None, pay_tombstone = False\<rparr> db = Inr (i, db')"
      "p = Some i"
      by (auto simp: resolve_payee_def result_simps)
    from insert_payee_grown[OF i(1) assms(2)] i show ?thesis
      by (auto simp: insert_payee_def result_simps)
  qed
qed (use assms in \<open>simp add: resolve_payee_def grown_refl\<close>)

lemma starting_category_grown:
  "starting_category user db = Inr (i, db') \<Longrightarrow> tables_ok db \<Longrightarrow> grown db db'"
  by (auto simp: starting_category_def grown_refl insert_category_grown split: option.splits)

lemma transfer_target_owned:
  assumes "tables_ok db" "transfer_target db (Some i) = Some acc" "\<exists>r\<in>set (fd_payees db). pay_id r = i \<and> pay_user r = user"
  shows "owns_account db user acc"
proof -
  from assms(3) obtain r where r: "r \<in> set (fd_payees db)" "pay_id r = i" "pay_user r = user" by blast
  have "distinct (map pay_id (fd_payees db))" using assms(1) by (simp add: tables_ok_def)
  then have "find (\<lambda>p. pay_id p = i) (fd_payees db) = Some r" using r by (simp add: find_distinct_map)
  then have "pay_transfer r = Some acc" using assms(2) by (simp add: transfer_target_def find_payee_def)
  then show ?thesis using assms(1) r by (auto simp: tables_ok_def)
qed

lemma payee_for_account_grown:
  assumes "payee_for_account user acc db = Inr (p, db')" "tables_ok db" "owns_account db user acc"
  shows "grown db db' \<and> p \<noteq> None"
proof -
  obtain a where a: "find_account db acc = Some a" "acc_id a = acc"
    using assms(3) by (cases "find_account db acc") (auto simp: owns_account_def find_account_def find_None_all dest: find_Some_mem)
  with assms show ?thesis
    by (auto simp: payee_for_account_def grown_refl result_simps split: option.splits intro!: insert_payee_grown)
qed

text \<open>Appending a closed group of rows of one user with fresh ids.\<close>

lemma append_rows_inv:
  assumes "finance_inv db" "rows_ok new" "map tx_id new = [fd_next db..<fd_next db + length new]"
    and "\<And>t. t \<in> set new \<Longrightarrow> owns_account db (tx_user t) (tx_account t)"
  shows "finance_inv (db\<lparr>fd_txs := fd_txs db @ new, fd_next := fd_next db + length new\<rparr>)"
proof -
  have ids: "set (map tx_id new) = {fd_next db..<fd_next db + length new}" using assms(3) by simp
  have old: "\<forall>t\<in>set (fd_txs db). tx_id t < fd_next db" using assms(1) by (simp add: finance_inv_def ids_ok_def)
  have disj: "set (map tx_id (fd_txs db)) \<inter> set (map tx_id new) = {}" using old ids by fastforce
  have "rows_ok (fd_txs db @ new)"
    using assms(1,2) disj by (intro rows_ok_append) (simp_all add: finance_inv_def)
  moreover have "ids_ok (fd_txs db @ new) (fd_next db + length new)"
  proof -
    have "distinct (map tx_id new)" by (subst assms(3)) simp
    moreover have "\<forall>t\<in>set new. tx_id t < fd_next db + length new" using ids by (metis atLeastLessThan_iff image_eqI list.set_map)
    ultimately show ?thesis using assms(1) old disj by (auto simp: finance_inv_def ids_ok_def)
  qed
  moreover have "tables_ok (db\<lparr>fd_txs := fd_txs db @ new, fd_next := fd_next db + length new\<rparr>)"
    using assms(1,4) unfolding finance_inv_def tables_ok_def owns_account_def by fastforce
  ultimately show ?thesis by (simp add: finance_inv_def)
qed

lemma insert_tx_result:
  "insert_tx t db = Inr (i, db') \<longleftrightarrow> check_tx db (t\<lparr>tx_id := fd_next db\<rparr>) = Inr () \<and> i = fd_next db
    \<and> db' = db\<lparr>fd_txs := fd_txs db @ [t\<lparr>tx_id := fd_next db\<rparr>], fd_next := fd_next db + 1\<rparr>"
  by (auto simp: insert_tx_def Let_def result_simps)

lemma check_tx_amount: "check_tx db t = Inr () \<Longrightarrow> tx_amount t \<noteq> 0"
  by (auto simp: check_tx_def result_simps)

lemma insert_plain_inv:
  assumes "finance_inv db" "insert_tx t db = Inr (i, db')" "owns_account db (tx_user t) (tx_account t)"
    and "tx_transfer t = None" "tx_parent t = None" "\<not> tx_is_parent t" "\<not> tx_deleted t"
  shows "finance_inv db' \<and> live_total (fd_txs db') u = live_total (fd_txs db) u + (if tx_user t = u then tx_amount t else 0)"
proof -
  define row where "row = t\<lparr>tx_id := fd_next db\<rparr>"
  have r: "check_tx db row = Inr ()" "db' = db\<lparr>fd_txs := fd_txs db @ [row], fd_next := fd_next db + length [row]\<rparr>"
    using assms(2) by (auto simp: insert_tx_result row_def)
  have p: "plain row" using assms(4-7) check_tx_amount[OF r(1)] by (simp add: plain_def row_def)
  have "finance_inv db'" unfolding r(2)
    by (rule append_rows_inv) (use assms(1,3) p rows_ok_plain in \<open>auto simp: row_def\<close>)
  then show ?thesis using p by (simp add: r(2) live_total_plain row_def)
qed

section \<open>Opening an account\<close>

lemma opening_entry_effect:
  assumes "opening_entry user acc v db = Inr db'" "finance_inv db" "owns_account db user acc"
  shows "finance_inv db' \<and> live_total (fd_txs db') u = live_total (fd_txs db) u + (if user = u then v else 0)"
proof -
  obtain c db1 p db2 i where s: "starting_category user db = Inr (c, db1)"
    "resolve_payee user (Some ''Starting Balance'') db1 = Inr (p, db2)"
    "insert_tx ((new_tx user acc (fd_today db2) v)\<lparr>tx_payee := p, tx_category := Some c, tx_sort := fd_now db2,
       tx_notes := Some ''Opening balance''\<rparr>) db2 = Inr (i, db')"
    using assms(1) by (auto simp: opening_entry_def result_simps)
  have g1: "grown db db1" using starting_category_grown[OF s(1)] assms(2) by (simp add: finance_inv_def)
  have g2: "grown db1 db2" using resolve_payee_grown[OF s(2)] grown_tables[OF g1] by simp
  have g: "grown db db2" by (rule grown_trans[OF g1 g2])
  have "fd_txs db2 = fd_txs db" using g by (simp add: grown_def)
  with insert_plain_inv[OF grown_inv[OF assms(2) g] s(3), of u] grown_owns[OF g assms(3)]
  show ?thesis by (simp add: new_tx_def)
qed

lemma create_account_effect:
  assumes "create_account user name kind ob opening currency db = Inr (i, db')" "finance_inv db"
  shows "finance_inv db' \<and> live_total (fd_txs db') u
    = live_total (fd_txs db) u + (if user = u then case opening of None \<Rightarrow> 0 | Some v \<Rightarrow> v else 0)"
proof -
  obtain a db1 where a: "insert_account a db = Inr (i, db1)" "acc_user a = user"
    and o: "if opening = None \<or> opening = Some 0 then db' = db1 else opening_entry user i (the opening) db1 = Inr db'"
    using assms(1) by (auto simp: create_account_def Let_def result_simps split: if_splits)
  have g: "grown db db1" "owns_account db1 user i"
    using insert_account_grown[OF a(1)] assms(2) a(2) by (simp_all add: finance_inv_def)
  note inv = grown_inv[OF assms(2) g(1)]
  have txs: "fd_txs db1 = fd_txs db" using g(1) by (simp add: grown_def)
  show ?thesis
  proof (cases "opening = None \<or> opening = Some 0")
    case True
    with o inv txs show ?thesis by (auto split: option.splits)
  next
    case False
    then obtain v where "opening = Some v" by auto
    with o False opening_entry_effect[OF _ inv g(2), of v db' u] txs show ?thesis by simp
  qed
qed

section \<open>Manual transactions\<close>

lemma lift_bind_pair: "rbind m (\<lambda>(i, db). Inr db) = Inr x \<longleftrightarrow> (\<exists>i. m = Inr (i, x))"
  by (auto simp: result_simps)

definition numbered :: "nat \<Rightarrow> tx list \<Rightarrow> tx list" where
  "numbered n ts = map (\<lambda>(k, t). t\<lparr>tx_id := k\<rparr>) (enumerate n ts)"

lemma numbered_Cons [simp]: "numbered n (t # ts) = t\<lparr>tx_id := n\<rparr> # numbered (Suc n) ts"
  by (simp add: numbered_def)

lemma numbered_Nil [simp]: "numbered n [] = []"
  by (simp add: numbered_def)

lemma numbered_ids: "map tx_id (numbered n ts) = [n..<n + length ts]"
  by (induction ts arbitrary: n) (simp_all add: upt_rec)

lemma numbered_length [simp]: "length (numbered n ts) = length ts"
  by (simp add: numbered_def)

text \<open>The children a split inserts, in order; every one passes the constraints of the table.\<close>

definition child_rows :: "tx \<Rightarrow> int \<Rightarrow> (nat \<times> split_row) list \<Rightarrow> tx list" where
  "child_rows parent now ks = map (\<lambda>(k, s). child_tx parent now k s) ks"

lemma insert_child_rows:
  "rfold (\<lambda>(k, s) db. rbind (insert_tx (child_tx parent (fd_now db) k s) db) (\<lambda>(_, db). Inr db)) ks db = Inr db'
    \<Longrightarrow> db' = db\<lparr>fd_txs := fd_txs db @ numbered (fd_next db) (child_rows parent (fd_now db) ks),
                fd_next := fd_next db + length ks\<rparr>
      \<and> (\<forall>ks'\<in>set ks. sp_amount (snd ks') \<noteq> 0)"
proof (induction ks arbitrary: db)
  case (Cons ks' ks)
  obtain k s where ks: "ks' = (k, s)" by fastforce
  define db1 where "db1 = db\<lparr>fd_txs := fd_txs db @ [(child_tx parent (fd_now db) k s)\<lparr>tx_id := fd_next db\<rparr>], fd_next := fd_next db + 1\<rparr>"
  from Cons.prems ks have 1: "check_tx db ((child_tx parent (fd_now db) k s)\<lparr>tx_id := fd_next db\<rparr>) = Inr ()"
    and 2: "rfold (\<lambda>(k, s) db. rbind (insert_tx (child_tx parent (fd_now db) k s) db) (\<lambda>(_, db). Inr db)) ks db1 = Inr db'"
    by (auto simp: result_simps insert_tx_result db1_def)
  have "sp_amount s \<noteq> 0" using check_tx_amount[OF 1] by (simp add: child_tx_def new_tx_def)
  with Cons.IH[OF 2] ks show ?case by (simp add: db1_def child_rows_def)
qed (simp add: child_rows_def)

lemma child_rows_fields:
  assumes "c \<in> set (numbered n (child_rows parent now ks))"
  shows "tx_parent c = Some (tx_id parent) \<and> \<not> tx_is_parent c \<and> tx_transfer c = None \<and> tx_user c = tx_user parent
    \<and> tx_account c = tx_account parent \<and> \<not> tx_deleted c \<and> (\<exists>s\<in>set ks. tx_amount c = sp_amount (snd s))"
proof -
  have "\<exists>k t. c = t\<lparr>tx_id := k\<rparr> \<and> t \<in> set (child_rows parent now ks)"
    using assms by (auto simp: numbered_def enumerate_eq_zip dest: set_zip_rightD)
  then show ?thesis by (force simp: child_rows_def child_tx_def new_tx_def)
qed

lemma child_rows_sum:
  "sum_list (map tx_amount (numbered n (child_rows parent now ks))) = sum_list (map (\<lambda>s. sp_amount (snd s)) ks)"
  by (induction ks arbitrary: n) (auto simp: child_rows_def child_tx_def new_tx_def)

lemma map_snd_enumerate: "map (\<lambda>s. f (snd s)) (enumerate n xs) = map f xs"
  by (induction xs arbitrary: n) simp_all

lemma append_group_inv:
  assumes "finance_inv db" "fd_txs db' = fd_txs db @ new" "rows_ok new" "distinct (map tx_id new)"
    and "\<And>t. t \<in> set new \<Longrightarrow> fd_next db \<le> tx_id t \<and> tx_id t < fd_next db'" "fd_next db \<le> fd_next db'" "tables_ok db'"
  shows "finance_inv db'"
proof -
  have old: "\<forall>t\<in>set (fd_txs db). tx_id t < fd_next db" "distinct (map tx_id (fd_txs db))"
    using assms(1) by (simp_all add: finance_inv_def ids_ok_def)
  have disj: "set (map tx_id (fd_txs db)) \<inter> set (map tx_id new) = {}" using old(1) assms(5) by fastforce
  have "rows_ok (fd_txs db @ new)" using assms(1,3) disj by (intro rows_ok_append) (simp_all add: finance_inv_def)
  moreover have "ids_ok (fd_txs db @ new) (fd_next db')"
    using old disj assms(4,5,6) by (fastforce simp: ids_ok_def)
  ultimately show ?thesis using assms(2,7) by (simp add: finance_inv_def)
qed

lemma tables_ok_txs:
  assumes "tables_ok db" "fd_accounts db' = fd_accounts db" "fd_categories db' = fd_categories db"
    and "fd_payees db' = fd_payees db" "fd_next db \<le> fd_next db'"
    and "\<And>t. t \<in> set (fd_txs db') \<Longrightarrow> owns_account db (tx_user t) (tx_account t)"
  shows "tables_ok db'"
  using assms by (fastforce simp: tables_ok_def owns_account_def)

lemma map_only_id:
  assumes "\<And>s. s \<in> set xs \<Longrightarrow> tx_id s \<noteq> i"
  shows "map (\<lambda>s. if tx_id s = i then f s else s) xs = xs"
  using assms by (induction xs) auto

definition split_group :: "tx \<Rightarrow> int \<Rightarrow> split_row list \<Rightarrow> tx list" where
  "split_group p now splits = p # numbered (Suc (tx_id p)) (child_rows p now (enumerate 0 splits))"

lemma split_group_ok:
  assumes "tx_is_parent p" "tx_transfer p = None" "tx_parent p = None" "\<not> tx_deleted p" "tx_amount p \<noteq> 0"
    and "sum_list (map sp_amount splits) = tx_amount p" "\<forall>s\<in>set splits. sp_amount s \<noteq> 0"
  shows "rows_ok (split_group p now splits)"
    and "live_total (split_group p now splits) u = (if tx_user p = u then tx_amount p else 0)"
    and "map tx_id (split_group p now splits) = [tx_id p..<tx_id p + length (split_group p now splits)]"
proof -
  define cs where "cs = numbered (Suc (tx_id p)) (child_rows p now (enumerate 0 splits))"
  have fields: "tx_parent c = Some (tx_id p) \<and> \<not> tx_is_parent c \<and> tx_transfer c = None \<and> tx_user c = tx_user p
    \<and> tx_account c = tx_account p \<and> \<not> tx_deleted c \<and> tx_amount c \<noteq> 0" if c: "c \<in> set cs" for c
  proof -
    note f = child_rows_fields[OF c[unfolded cs_def]]
    then obtain s where s: "s \<in> set (enumerate 0 splits)" "tx_amount c = sp_amount (snd s)" by blast
    have "snd s \<in> set splits" using s(1) by (simp add: enumerate_eq_zip) (metis prod.collapse set_zip_rightD)
    with f s(2) assms(7) show ?thesis by simp
  qed
  have sum: "sum_list (map tx_amount cs) = tx_amount p"
    by (simp add: cs_def child_rows_sum map_snd_enumerate assms(6))
  have g: "split_group p now splits = p # cs" by (simp add: split_group_def cs_def)
  show "rows_ok (split_group p now splits)" unfolding g
    by (rule rows_ok_split) (use assms fields sum in auto)
  show "live_total (split_group p now splits) u = (if tx_user p = u then tx_amount p else 0)"
    using live_total_children[of cs "tx_user p" u] fields sum assms(1)
    by (auto simp: g live_total_Cons live_leaf_def)
  show "map tx_id (split_group p now splits) = [tx_id p..<tx_id p + length (split_group p now splits)]"
    by (simp add: split_group_def numbered_ids upt_rec)
qed

text \<open>Writing the two sides of a transfer: the stored row \<open>t\<close> gets its partner and may lose its category.\<close>

lemma create_transfer_side_effect:
  assumes "finance_inv db0" "plain t" "tx_id t = fd_next db0"
    and "db1 = db0\<lparr>fd_txs := fd_txs db0 @ [t], fd_next := fd_next db0 + 1\<rparr>" "owns_account db0 (tx_user t) (tx_account t)"
    and "create_transfer_side (tx_user t) t target db1 = Inr (r, db')"
    and "\<And>acc. target = Some acc \<Longrightarrow> owns_account db0 (tx_user t) acc"
  shows "finance_inv db' \<and> live_total (fd_txs db') u = live_total (fd_txs db0) u
      + (if tx_user t = u \<and> target = None then tx_amount t else 0)
    \<and> (\<exists>new. fd_txs db' = fd_txs db0 @ new \<and> (\<exists>s\<in>set new. tx_id s = tx_id t \<and> (tx_transfer s = None \<longleftrightarrow> target = None)))"
proof -
  have inv1: "finance_inv db1" unfolding assms(4)
    using append_rows_inv[OF assms(1) rows_ok_plain[OF assms(2)]] assms(3,5) by simp
  show ?thesis
  proof (cases target)
    case None
    with assms(6) have "db' = db1" by (simp add: create_transfer_side_def)
    with None inv1 assms(2) show ?thesis by (auto simp: assms(4) live_total_plain plain_def)
  next
    case (Some acc)
    obtain mp db2 where p: "payee_for_account (tx_user t) (tx_account t) db1 = Inr (mp, db2)"
      using assms(6) Some by (auto simp: create_transfer_side_def result_simps)
    have own1: "owns_account db1 (tx_user t) (tx_account t)" using assms(4,5) by (simp add: owns_account_def)
    have g: "grown db1 db2" and "mp \<noteq> None"
      using payee_for_account_grown[OF p _ own1] inv1 by (simp_all add: finance_inv_def)
    then obtain q where q: "mp = Some q" by blast
    define m where "m = (mirror_tx (tx_user t) acc q t)\<lparr>tx_id := fd_next db2\<rparr>"
    define db3 where "db3 = db2\<lparr>fd_txs := fd_txs db2 @ [m], fd_next := fd_next db2 + 1\<rparr>"
    define f where "f = (\<lambda>s::tx. if same_budget_side db2 (tx_account t) acc then s\<lparr>tx_transfer := Some (fd_next db2), tx_category := None\<rparr>
      else s\<lparr>tx_transfer := Some (fd_next db2)\<rparr>)"
    have txs2: "fd_txs db2 = fd_txs db0 @ [t]" and nxt: "tx_id t < fd_next db2" "fd_next db0 \<le> fd_next db2"
      using g assms(3,4) by (simp_all add: grown_def)
    have old: "tx_id s \<noteq> tx_id t" if "s \<in> set (fd_txs db0)" for s
      using that assms(1,3) by (auto simp: finance_inv_def ids_ok_def)
    have same: "same_budget_side (db2\<lparr>fd_txs := x, fd_next := n\<rparr>) = same_budget_side db2"
      "same_budget_side (db2\<lparr>fd_next := n, fd_txs := x\<rparr>) = same_budget_side db2" for x n
      by (intro ext, simp add: same_budget_side_def find_account_def)+
    have m_amount: "tx_amount m \<noteq> 0" using assms(2) by (simp add: m_def mirror_tx_def new_tx_def plain_def)
    have db': "db' = db3\<lparr>fd_txs := fd_txs db0 @ [f t, m]\<rparr>"
    proof -
      have "db' = (let d = update_txs (\<lambda>s. tx_id s = tx_id t) (\<lambda>s. s\<lparr>tx_transfer := Some (fd_next db2)\<rparr>) db3
        in if same_budget_side d (tx_account t) acc
           then update_txs (\<lambda>s. tx_id s = tx_id t) (\<lambda>s. s\<lparr>tx_category := None\<rparr>) d else d)"
        using assms(6) Some p q by (auto simp: create_transfer_side_def result_simps insert_tx_result db3_def m_def Let_def split: if_splits)
      then show ?thesis
        using old nxt(1) by (auto simp: same Let_def update_txs_def f_def db3_def txs2 m_def map_idI)
    qed
    have ft: "tx_id (f t) = tx_id t" "tx_transfer (f t) = Some (fd_next db2)" "tx_user (f t) = tx_user t"
      "tx_amount (f t) = tx_amount t" "tx_deleted (f t) = tx_deleted t" "tx_parent (f t) = tx_parent t"
      "tx_is_parent (f t) = tx_is_parent t" "tx_account (f t) = tx_account t"
      by (simp_all add: f_def)
    have fm: "tx_id m = fd_next db2" "tx_transfer m = Some (tx_id t)" "tx_user m = tx_user t" "tx_amount m = - tx_amount t"
      "\<not> tx_deleted m" "tx_parent m = None" "\<not> tx_is_parent m" "tx_account m = acc"
      by (simp_all add: m_def mirror_tx_def new_tx_def)
    have pair: "rows_ok [f t, m]"
      by (rule rows_ok_pair) (use ft fm assms(2) in \<open>auto simp: plain_def\<close>)
    have tables: "tables_ok db'"
    proof -
      have own: "owns_account db2 (tx_user t) acc" "owns_account db2 (tx_user t) (tx_account t)"
        using assms(4,7) Some grown_owns[OF g] own1 by (simp_all add: owns_account_def)
      have ok2: "tables_ok db2" using g by (simp add: grown_def)
      have "owns_account db2 (tx_user s) (tx_account s)" if "s \<in> set (fd_txs db')" for s
      proof -
        from that consider "s \<in> set (fd_txs db0)" | "s = f t" | "s = m" by (auto simp: db')
        then show ?thesis
        proof cases
          case 1
          with ok2 txs2 show ?thesis by (simp add: tables_ok_def)
        qed (simp_all add: ft fm own)
      qed
      then show ?thesis by (rule tables_ok_txs[OF ok2, rotated -1]) (simp_all add: db' db3_def)
    qed
    have "finance_inv db'"
      by (rule append_group_inv[OF assms(1) _ pair]) (use ft fm nxt assms(3) tables in \<open>auto simp: db' db3_def\<close>)
    moreover have "live_total (fd_txs db') u = live_total (fd_txs db0) u"
      using ft fm assms(2) by (simp add: db' live_total_Cons live_leaf_def plain_def)
    moreover have "\<exists>new. fd_txs db' = fd_txs db0 @ new \<and> (\<exists>s\<in>set new. tx_id s = tx_id t \<and> (tx_transfer s = None \<longleftrightarrow> target = None))"
      using ft Some by (intro exI[of _ "[f t, m]"] conjI bexI[of _ "f t"]) (simp_all add: db')
    ultimately show ?thesis using Some by simp
  qed
qed

lemma create_manual_effect:
  assumes "create_manual_transaction env user acc d amount payee_name category n cleared splits db = Inr (i, db')"
    and "finance_inv db"
  shows "finance_inv db' \<and> (\<exists>new. fd_txs db' = fd_txs db @ new \<and> (\<exists>s\<in>set new. tx_id s = i \<and>
    (\<forall>u. live_total (fd_txs db') u = live_total (fd_txs db) u + (if u = user \<and> tx_transfer s = None then amount else 0))))"
proof -
  from assms(1) have "map_option acc_user (find_account db acc) = Some user"
    by (auto simp: create_manual_transaction_def result_simps)
  then have own: "owns_account db user acc" by (rule find_account_user)
  from assms(1) obtain payee db1 cat n' db2 where p: "resolve_payee user payee_name db = Inr (payee, db1)"
    and sp: "check_splits splits amount = Inr ()"
    and ins: "insert_tx ((new_tx user acc d amount)\<lparr>tx_payee := payee, tx_category := cat, tx_notes := n',
        tx_cleared := cleared, tx_is_parent := (splits \<noteq> []), tx_sort := fd_now db1\<rparr>) db1 = Inr (i, db2)"
    and rest: "if splits \<noteq> []
      then insert_children ((new_tx user acc d amount)\<lparr>tx_payee := payee, tx_category := cat, tx_notes := n',
        tx_cleared := cleared, tx_is_parent := (splits \<noteq> []), tx_sort := fd_now db1, tx_id := i\<rparr>) splits db2 = Inr db'
      else \<exists>r. create_transfer_side user ((new_tx user acc d amount)\<lparr>tx_payee := payee, tx_category := cat, tx_notes := n',
        tx_cleared := cleared, tx_is_parent := (splits \<noteq> []), tx_sort := fd_now db1, tx_id := i\<rparr>)
          (transfer_target db1 payee) db2 = Inr (r, db')"
    unfolding create_manual_transaction_def Let_def
    by (cases "splits = []"; simp add: result_simps split_paired_Ex) blast+
  note rp = resolve_payee_grown[OF p]
  have g: "grown db db1" using rp assms(2) by (simp add: finance_inv_def)
  have inv1: "finance_inv db1" by (rule grown_inv[OF assms(2) g])
  have own1: "owns_account db1 user acc" by (rule grown_owns[OF g own])
  have txs1: "fd_txs db1 = fd_txs db" using g by (simp add: grown_def)
  define t where "t = (new_tx user acc d amount)\<lparr>tx_payee := payee, tx_category := cat, tx_notes := n',
        tx_cleared := cleared, tx_is_parent := (splits \<noteq> []), tx_sort := fd_now db1, tx_id := i\<rparr>"
  have t: "tx_id t = i" "tx_user t = user" "tx_account t = acc" "tx_amount t = amount" "tx_transfer t = None"
    "tx_parent t = None" "tx_is_parent t = (splits \<noteq> [])" "\<not> tx_deleted t"
    by (simp_all add: t_def new_tx_def)
  have db2: "db2 = db1\<lparr>fd_txs := fd_txs db1 @ [t], fd_next := fd_next db1 + 1\<rparr>" and i: "i = fd_next db1"
    and chk: "check_tx db1 t = Inr ()"
    using ins by (auto simp: insert_tx_result t_def)
  have nz: "amount \<noteq> 0" using check_tx_amount[OF chk] t by simp
  show ?thesis
  proof (cases "splits = []")
    case True
    obtain r where r: "create_transfer_side (tx_user t) t (transfer_target db1 payee) db2 = Inr (r, db')"
      using rest True by (auto simp: t_def new_tx_def)
    have pl: "plain t" using t nz True by (simp add: plain_def)
    have tgt: "owns_account db1 (tx_user t) a" if "transfer_target db1 payee = Some a" for a
    proof (cases payee)
      case None
      with that show ?thesis by (simp add: transfer_target_def)
    next
      case (Some k)
      with that rp assms(2) inv1 t(2) show ?thesis
        by (intro transfer_target_owned[of db1 k]) (auto simp: finance_inv_def)
    qed
    have eff: "finance_inv db' \<and> live_total (fd_txs db') u = live_total (fd_txs db1) u
        + (if tx_user t = u \<and> transfer_target db1 payee = None then tx_amount t else 0)
      \<and> (\<exists>new. fd_txs db' = fd_txs db1 @ new
        \<and> (\<exists>s\<in>set new. tx_id s = tx_id t \<and> (tx_transfer s = None \<longleftrightarrow> transfer_target db1 payee = None)))" for u
      by (rule create_transfer_side_effect[OF inv1 pl _ db2 _ r tgt]) (use t i own1 in auto)
    note parts = eff[THEN conjunct1] eff[THEN conjunct2, THEN conjunct1] eff[THEN conjunct2, THEN conjunct2]
    from parts(3) obtain new where new: "fd_txs db' = fd_txs db1 @ new"
      "\<exists>s\<in>set new. tx_id s = tx_id t \<and> (tx_transfer s = None \<longleftrightarrow> transfer_target db1 payee = None)" by (elim exE conjE)
    from new(2) obtain s where "s \<in> set new"
      "tx_id s = tx_id t \<and> (tx_transfer s = None \<longleftrightarrow> transfer_target db1 payee = None)" by (rule bexE)
    then have s: "s \<in> set new" "tx_id s = tx_id t"
      "tx_transfer s = None \<longleftrightarrow> transfer_target db1 payee = None" by simp_all
    have "live_total (fd_txs db') u = live_total (fd_txs db) u + (if u = user \<and> tx_transfer s = None then amount else 0)" for u
    proof -
      have "live_total (fd_txs db') u = live_total (fd_txs db1) u
        + (if tx_user t = u \<and> transfer_target db1 payee = None then tx_amount t else 0)" by (rule parts(2))
      then show ?thesis unfolding txs1 t(2,4) s(3) by (simp add: conj_commute eq_commute)
    qed
    with parts(1) s(1,2) t(1) new(1) txs1 show ?thesis
      by (intro conjI exI[of _ new] bexI[of _ s] allI) simp_all
  next
    case False
    with rest have ch: "insert_children t splits db2 = Inr db'" by (simp add: t_def)
    define new where "new = split_group t (fd_now db2) splits"
    have db': "db' = db1\<lparr>fd_txs := fd_txs db1 @ new, fd_next := fd_next db1 + length new\<rparr>"
      and nzs: "\<forall>s\<in>set splits. sp_amount s \<noteq> 0"
    proof -
      from insert_child_rows[OF ch[unfolded insert_children_def]] db2 i t(1)
      show "db' = db1\<lparr>fd_txs := fd_txs db1 @ new, fd_next := fd_next db1 + length new\<rparr>"
        by (simp add: new_def split_group_def child_rows_def)
      show "\<forall>s\<in>set splits. sp_amount s \<noteq> 0"
        using sp False by (auto simp: check_splits_def result_simps list_ex_iff)
    qed
    have sum: "sum_list (map sp_amount splits) = tx_amount t"
      using sp False t by (auto simp: check_splits_def result_simps)
    note grp = split_group_ok[OF _ _ _ _ _ sum nzs, of "fd_now db2", folded new_def]
    have ok: "rows_ok new" "map tx_id new = [fd_next db1..<fd_next db1 + length new]"
      "live_total new u = (if user = u then amount else 0)" for u
      using grp t nz False i by auto
    have own_new: "owns_account db1 (tx_user c) (tx_account c)" if "c \<in> set new" for c
    proof (cases "c = t")
      case False
      with that have "c \<in> set (numbered (Suc (tx_id t)) (child_rows t (fd_now db2) (enumerate 0 splits)))"
        by (simp add: new_def split_group_def)
      from child_rows_fields[OF this] t own1 show ?thesis by simp
    qed (use t own1 in simp)
    have "finance_inv db'" unfolding db' by (rule append_rows_inv[OF inv1 ok(1,2) own_new])
    moreover have "live_total (fd_txs db') u = live_total (fd_txs db) u + (if u = user \<and> tx_transfer t = None then amount else 0)" for u
      using ok(3)[of u] txs1 t by (simp add: db')
    moreover have "t \<in> set new" "fd_txs db' = fd_txs db @ new" using txs1 by (simp_all add: db' new_def split_group_def)
    ultimately show ?thesis using t(1) by blast
  qed
qed

section \<open>Deleting a linked group\<close>

lemma row_of_id:
  "ids_ok txs n \<Longrightarrow> s \<in> set txs \<Longrightarrow> t \<in> set txs \<Longrightarrow> tx_id s = tx_id t \<Longrightarrow> s = t"
  by (auto simp: ids_ok_def distinct_map dest: inj_onD)

lemma rows_okD:
  assumes "rows_ok txs" "t \<in> set txs"
  shows "tx_amount t \<noteq> 0"
    and "tx_parent t = Some p \<Longrightarrow> \<not> tx_is_parent t \<and> tx_transfer t = None"
    and "tx_parent t = Some p \<Longrightarrow> \<exists>s\<in>set txs. tx_id s = p \<and> tx_is_parent s \<and> tx_user s = tx_user t
        \<and> tx_account s = tx_account t \<and> tx_deleted s = tx_deleted t"
    and "tx_is_parent t \<Longrightarrow> tx_transfer t = None \<and> children_sum txs (tx_id t) = tx_amount t"
    and "tx_transfer t = Some u \<Longrightarrow> \<exists>s\<in>set txs. tx_id s = u \<and> tx_transfer s = Some (tx_id t) \<and> tx_user s = tx_user t
        \<and> tx_amount s = - tx_amount t \<and> tx_deleted s = tx_deleted t"
  using assms by (auto simp: rows_ok_def child_ok_def parent_ok_def transfer_ok_def)

text \<open>The rows tied to the row \<open>i\<close>: itself, its split children, its transfer partner.\<close>

definition tied :: "nat \<Rightarrow> tx \<Rightarrow> bool" where
  "tied i t \<longleftrightarrow> tx_id t = i \<or> tx_parent t = Some i \<or> tx_transfer t = Some i"

text \<open>The row a delete starts from: live, owned, and no split child.\<close>

definition root_row :: "finance_db \<Rightarrow> nat \<Rightarrow> nat \<Rightarrow> tx \<Rightarrow> bool" where
  "root_row db user i r \<longleftrightarrow> finance_inv db \<and> r \<in> set (fd_txs db) \<and> tx_id r = i \<and> tx_user r = user
     \<and> \<not> tx_deleted r \<and> tx_parent r = None"

lemma root_rowD:
  assumes "root_row db user i r"
  shows "rows_ok (fd_txs db)" "ids_ok (fd_txs db) (fd_next db)" "r \<in> set (fd_txs db)" "tx_id r = i" "tx_user r = user"
    "\<not> tx_deleted r" "tx_parent r = None"
  using assms by (simp_all add: root_row_def finance_inv_def)

lemma same_row: "root_row db user i r \<Longrightarrow> t \<in> set (fd_txs db) \<Longrightarrow> tx_id t = i \<Longrightarrow> t = r"
  by (metis root_rowD(2,3,4) row_of_id)

lemma child_live:
  assumes root: "root_row db user i r" and t: "t \<in> set (fd_txs db)" "tx_parent t = Some i"
  shows "tx_user t = user \<and> \<not> tx_deleted t \<and> \<not> tx_is_parent t \<and> tx_is_parent r \<and> tx_transfer t = None"
proof -
  note d = root_rowD[OF root]
  from rows_okD(3)[OF d(1) t] obtain s where s: "s \<in> set (fd_txs db)" "tx_id s = i" "tx_is_parent s"
    "tx_user s = tx_user t" "tx_deleted s = tx_deleted t" by metis
  have "s = r" by (rule same_row[OF root s(1,2)])
  with s d rows_okD(2)[OF d(1) t] show ?thesis by simp
qed

lemma partner_live:
  assumes root: "root_row db user i r" and t: "t \<in> set (fd_txs db)" "tx_transfer t = Some i"
  shows "tx_user t = user \<and> \<not> tx_deleted t \<and> \<not> tx_is_parent t \<and> tx_transfer r = Some (tx_id t)
    \<and> tx_amount t = - tx_amount r \<and> tx_parent t = None"
proof -
  note d = root_rowD[OF root]
  from rows_okD(5)[OF d(1) t] obtain s where s: "s \<in> set (fd_txs db)" "tx_id s = i" "tx_transfer s = Some (tx_id t)"
    "tx_user s = tx_user t" "tx_amount s = - tx_amount t" "tx_deleted s = tx_deleted t" by metis
  have "s = r" by (rule same_row[OF root s(1,2)])
  moreover have "\<not> tx_is_parent t" using rows_okD(4)[OF d(1) t(1)] t(2) by auto
  moreover have "tx_parent t = None" using rows_okD(2)[OF d(1) t(1)] t(2) by (cases "tx_parent t") auto
  ultimately show ?thesis using s d by simp
qed

lemma children_ids:
  assumes "root_row db user i r"
  shows "k \<in> set (split_children db user [i]) \<longleftrightarrow> (\<exists>t\<in>set (fd_txs db). tx_id t = k \<and> tx_parent t = Some i)"
proof -
  have "tx_user t = user \<and> \<not> tx_deleted t \<and> (case tx_parent t of None \<Rightarrow> False | Some p \<Rightarrow> List.member [i] p) \<longleftrightarrow> tx_parent t = Some i"
    if "t \<in> set (fd_txs db)" for t
    using child_live[OF assms that] by (auto simp: List.member_iff split: option.splits)
  then have "filter (\<lambda>t. tx_user t = user \<and> \<not> tx_deleted t \<and> (case tx_parent t of None \<Rightarrow> False | Some p \<Rightarrow> List.member [i] p)) (fd_txs db)
    = filter (\<lambda>t. tx_parent t = Some i) (fd_txs db)"
    by (intro filter_cong refl)
  then show ?thesis by (auto simp: split_children_def simp del: List.member_iff)
qed

lemma targets_tied:
  assumes root: "root_row db user i r" and k: "k \<in> set (transfer_targets db (i # split_children db user [i]))"
  shows "tx_transfer r = Some k"
proof -
  note d = root_rowD[OF root]
  from k obtain t where t: "t \<in> set (fd_txs db)" "tx_id t = i \<or> tx_id t \<in> set (split_children db user [i])"
    "tx_transfer t = Some k"
    by (auto simp: transfer_targets_def List.map_filter_def List.member_iff)
  show ?thesis
  proof (cases "tx_id t = i")
    case True
    with same_row[OF root t(1)] t(3) show ?thesis by simp
  next
    case False
    with t(2) children_ids[OF root] obtain s where s: "s \<in> set (fd_txs db)" "tx_id s = tx_id t" "tx_parent s = Some i" by metis
    have "s = t" by (rule row_of_id[OF d(2) s(1) t(1) s(2)])
    with child_live[OF root s(1,3)] t(3) show ?thesis by simp
  qed
qed

lemma partner_ids:
  assumes root: "root_row db user i r"
  shows "k \<in> set (transfer_partners db user (i # split_children db user [i]))
    \<longleftrightarrow> (\<exists>t\<in>set (fd_txs db). tx_id t = k \<and> tx_transfer t = Some i)"
proof
  note d = root_rowD[OF root]
  assume "k \<in> set (transfer_partners db user (i # split_children db user [i]))"
  then obtain t u where t: "t \<in> set (fd_txs db)" "tx_id t = k" "tx_transfer t = Some u"
    and e: "u = i \<or> u \<in> set (split_children db user [i]) \<or> k \<in> set (transfer_targets db (i # split_children db user [i]))"
    by (auto simp: transfer_partners_def List.member_iff split: option.splits)
  from rows_okD(5)[OF d(1) t(1,3)] obtain s where s: "s \<in> set (fd_txs db)" "tx_id s = u" "tx_transfer s = Some k"
    using t(2) by metis
  from e show "\<exists>t\<in>set (fd_txs db). tx_id t = k \<and> tx_transfer t = Some i"
  proof (elim disjE)
    assume "u \<in> set (split_children db user [i])"
    then obtain c where c: "c \<in> set (fd_txs db)" "tx_id c = u" "tx_parent c = Some i" using children_ids[OF root] by metis
    then have "c = s" using row_of_id[OF d(2)] s by metis
    with child_live[OF root c(1,3)] s(3) show ?thesis by simp
  next
    assume "k \<in> set (transfer_targets db (i # split_children db user [i]))"
    then have "tx_transfer r = Some k" by (rule targets_tied[OF root])
    from rows_okD(5)[OF d(1,3) this] d(4) show ?thesis by metis
  qed (use t in auto)
next
  assume "\<exists>t\<in>set (fd_txs db). tx_id t = k \<and> tx_transfer t = Some i"
  then obtain t where t: "t \<in> set (fd_txs db)" "tx_id t = k" "tx_transfer t = Some i" by metis
  with partner_live[OF root t(1,3)] show "k \<in> set (transfer_partners db user (i # split_children db user [i]))"
    by (auto simp: transfer_partners_def List.member_iff intro!: image_eqI[of _ _ t])
qed

lemma no_partner_children:
  assumes root: "root_row db user i r"
  shows "split_children db user (transfer_partners db user (i # split_children db user [i])) = []"
proof -
  note d = root_rowD[OF root]
  have no: False if t: "t \<in> set (fd_txs db)" "tx_parent t = Some k"
    and k: "k \<in> set (transfer_partners db user (i # split_children db user [i]))" for t k
  proof -
    obtain s where s: "s \<in> set (fd_txs db)" "tx_id s = k" "tx_is_parent s" using rows_okD(3)[OF d(1) t] by metis
    obtain x where x: "x \<in> set (fd_txs db)" "tx_id x = k" "tx_transfer x = Some i" using partner_ids[OF root] k by metis
    then have "x = s" using row_of_id[OF d(2)] s by metis
    with partner_live[OF root x(1,3)] s show False by simp
  qed
  define ps where "ps = transfer_partners db user (i # split_children db user [i])"
  have "split_children db user ps = []"
    unfolding split_children_def map_is_Nil_conv filter_empty_conv
    using no unfolding ps_def[symmetric] by (auto simp: List.member_iff split: option.splits)
  then show ?thesis by (simp add: ps_def)
qed

text \<open>The collected group is exactly the tied rows.\<close>

lemma group_tied:
  assumes root: "root_row db user i r" and t: "t \<in> set (fd_txs db)"
  shows "List.member (linked_group db user i) (tx_id t) \<and> tx_user t = user \<longleftrightarrow> tied i t"
proof -
  note d = root_rowD[OF root]
  have one: "(\<exists>s\<in>set (fd_txs db). tx_id s = tx_id t \<and> P s) \<longleftrightarrow> P t" for P
    using t row_of_id[OF d(2)] by metis
  have "tx_id t \<in> set (linked_group db user i) \<longleftrightarrow> tied i t"
    by (simp add: linked_group_def Let_def no_partner_children[OF root] children_ids[OF root] partner_ids[OF root] one tied_def)
  moreover have "tied i t \<Longrightarrow> tx_user t = user"
    using same_row[OF root t] child_live[OF root t] partner_live[OF root t] d(5) by (auto simp: tied_def)
  ultimately show ?thesis by (auto simp: List.member_iff)
qed

definition mark_deleted :: "(tx \<Rightarrow> bool) \<Rightarrow> tx \<Rightarrow> tx" where
  "mark_deleted M t = (if M t then t\<lparr>tx_deleted := True\<rparr> else t)"

lemma mark_deleted_fields [simp]:
  "tx_id (mark_deleted M t) = tx_id t" "tx_user (mark_deleted M t) = tx_user t" "tx_account (mark_deleted M t) = tx_account t"
  "tx_amount (mark_deleted M t) = tx_amount t" "tx_transfer (mark_deleted M t) = tx_transfer t"
  "tx_parent (mark_deleted M t) = tx_parent t" "tx_is_parent (mark_deleted M t) = tx_is_parent t"
  "tx_deleted (mark_deleted M t) \<longleftrightarrow> tx_deleted t \<or> M t" "tx_reconciled (mark_deleted M t) = tx_reconciled t"
  by (simp_all add: mark_deleted_def)

text \<open>Marking a set of rows keeps the links when it is closed under them.\<close>

lemma mark_deleted_rows_ok:
  assumes "rows_ok txs"
    and "\<And>c t. c \<in> set txs \<Longrightarrow> t \<in> set txs \<Longrightarrow> tx_parent c = Some (tx_id t) \<Longrightarrow> tx_is_parent t \<Longrightarrow> M c \<longleftrightarrow> M t"
    and "\<And>s t. s \<in> set txs \<Longrightarrow> t \<in> set txs \<Longrightarrow> tx_transfer s = Some (tx_id t) \<Longrightarrow> tx_transfer t = Some (tx_id s) \<Longrightarrow> M s \<longleftrightarrow> M t"
  shows "rows_ok (map (mark_deleted M) txs)"
proof -
  have sums: "children_sum (map (mark_deleted M) txs) i = children_sum txs i" for i
    by (simp add: children_sum_def filter_map comp_def)
  have "child_ok (map (mark_deleted M) txs) (mark_deleted M t)" if t: "t \<in> set txs" for t
  proof (unfold child_ok_def, intro allI impI)
    fix p assume "tx_parent (mark_deleted M t) = Some p"
    then have p: "tx_parent t = Some p" by simp
    obtain s where s: "s \<in> set txs" "tx_id s = p" "tx_is_parent s" "tx_user s = tx_user t" "tx_account s = tx_account t"
      "tx_deleted s = tx_deleted t" using rows_okD(3)[OF assms(1) t p] by metis
    then have "M t = M s" using assms(2)[OF t s(1)] p by simp
    with s rows_okD(2)[OF assms(1) t p]
    show "\<not> tx_is_parent (mark_deleted M t) \<and> tx_transfer (mark_deleted M t) = None \<and>
      (\<exists>u\<in>set (map (mark_deleted M) txs). tx_id u = p \<and> tx_is_parent u \<and> tx_user u = tx_user (mark_deleted M t)
        \<and> tx_account u = tx_account (mark_deleted M t) \<and> tx_deleted u = tx_deleted (mark_deleted M t))"
      by (auto intro!: bexI[of _ s])
  qed
  moreover have "transfer_ok (map (mark_deleted M) txs) (mark_deleted M t)" if t: "t \<in> set txs" for t
  proof (unfold transfer_ok_def, intro allI impI)
    fix u assume "tx_transfer (mark_deleted M t) = Some u"
    then have u: "tx_transfer t = Some u" by simp
    obtain s where s: "s \<in> set txs" "tx_id s = u" "tx_transfer s = Some (tx_id t)" "tx_user s = tx_user t"
      "tx_amount s = - tx_amount t" "tx_deleted s = tx_deleted t" using rows_okD(5)[OF assms(1) t u] by metis
    then have "M s = M t" using assms(3)[OF s(1) t] u by simp
    with s show "\<exists>s\<in>set (map (mark_deleted M) txs). tx_id s = u \<and> tx_transfer s = Some (tx_id (mark_deleted M t))
      \<and> tx_user s = tx_user (mark_deleted M t) \<and> tx_amount s = - tx_amount (mark_deleted M t)
      \<and> tx_deleted s = tx_deleted (mark_deleted M t)"
      by (auto intro!: bexI[of _ s])
  qed
  ultimately show ?thesis
    using assms(1) by (auto simp: rows_ok_def parent_ok_def sums)
qed

lemma live_total_marked:
  "live_total (map (mark_deleted M) txs) u
    = live_total txs u - sum_list (map tx_amount (filter (\<lambda>t. tx_user t = u \<and> live_leaf t \<and> M t) txs))"
  by (induction txs) (auto simp: live_total_Cons live_leaf_def)

lemma tied_closed:
  assumes root: "root_row db user i r"
  shows "\<And>c t. c \<in> set (fd_txs db) \<Longrightarrow> t \<in> set (fd_txs db) \<Longrightarrow> tx_parent c = Some (tx_id t) \<Longrightarrow> tx_is_parent t \<Longrightarrow> tied i c \<longleftrightarrow> tied i t"
    and "\<And>s t. s \<in> set (fd_txs db) \<Longrightarrow> t \<in> set (fd_txs db) \<Longrightarrow> tx_transfer s = Some (tx_id t) \<Longrightarrow> tx_transfer t = Some (tx_id s)
      \<Longrightarrow> tied i s \<longleftrightarrow> tied i t"
proof -
  note d = root_rowD[OF root]
  fix c t assume c: "c \<in> set (fd_txs db)" and t: "t \<in> set (fd_txs db)" and p: "tx_parent c = Some (tx_id t)" "tx_is_parent t"
  have "tx_id c \<noteq> i" using same_row[OF root c] p(1) d(7) by auto
  moreover have "tx_parent t \<noteq> Some i" using rows_okD(2)[OF d(1) t] p(2) by auto
  moreover have "tx_transfer t = None" using rows_okD(4)[OF d(1) t p(2)] by simp
  moreover have "tx_transfer c = None" using rows_okD(2)[OF d(1) c p(1)] by simp
  ultimately show "tied i c \<longleftrightarrow> tied i t" using p(1) by (auto simp: tied_def)
next
  note d = root_rowD[OF root]
  fix s t assume s: "s \<in> set (fd_txs db)" and t: "t \<in> set (fd_txs db)" and u: "tx_transfer s = Some (tx_id t)" "tx_transfer t = Some (tx_id s)"
  have "tx_parent s = None" using rows_okD(2)[OF d(1) s] u(1) by (cases "tx_parent s") auto
  moreover have "tx_parent t = None" using rows_okD(2)[OF d(1) t] u(2) by (cases "tx_parent t") auto
  ultimately show "tied i s \<longleftrightarrow> tied i t" using u by (auto simp: tied_def)
qed

text \<open>What the tied rows are worth together.\<close>

lemma tied_amount:
  assumes root: "root_row db user i r"
  shows "sum_list (map tx_amount (filter (\<lambda>t. tx_user t = u \<and> live_leaf t \<and> tied i t) (fd_txs db)))
    = (if u = user \<and> tx_transfer r = None then tx_amount r else 0)"
proof -
  note d = root_rowD[OF root]
  let ?txs = "fd_txs db"
  have dist: "distinct (map tx_id ?txs)" using d(2) by (simp add: ids_ok_def)
  have self: "filter (\<lambda>t. tx_id t = i) ?txs = [r]"
    using filter_map_id_distinct[OF dist d(3)] d(4) by simp
  have leaf: "live_leaf t \<and> tx_user t = user" if "t \<in> set ?txs" "tied i t" "tx_id t \<noteq> i" for t
    using child_live[OF root that(1)] partner_live[OF root that(1)] that(2,3) by (auto simp: tied_def live_leaf_def)
  have rest: "sum_list (map tx_amount (filter (\<lambda>t. tied i t \<and> tx_id t \<noteq> i) ?txs))
    = (if tx_is_parent r then tx_amount r else if tx_transfer r = None then 0 else - tx_amount r)"
  proof (cases "tx_transfer r")
    case None
    have "filter (\<lambda>t. tied i t \<and> tx_id t \<noteq> i) ?txs = filter (\<lambda>t. tx_parent t = Some i) ?txs"
    proof (intro filter_cong refl)
      fix t assume t: "t \<in> set ?txs"
      show "(tied i t \<and> tx_id t \<noteq> i) = (tx_parent t = Some i)"
        using partner_live[OF root t] None same_row[OF root t] d(7) by (auto simp: tied_def)
    qed
    moreover have "tx_is_parent r \<Longrightarrow> children_sum ?txs i = tx_amount r" using rows_okD(4)[OF d(1,3)] d(4) by simp
    moreover have "\<not> tx_is_parent r \<Longrightarrow> filter (\<lambda>t. tx_parent t = Some i) ?txs = []"
      using child_live[OF root] by (auto simp: filter_empty_conv)
    ultimately show ?thesis using None by (auto simp: children_sum_def)
  next
    case (Some v)
    obtain s where s: "s \<in> set ?txs" "tx_id s = v" "tx_transfer s = Some i" "tx_amount s = - tx_amount r"
      using rows_okD(5)[OF d(1,3) Some] d(4) by metis
    have np: "\<not> tx_is_parent r" using rows_okD(4)[OF d(1,3)] Some by auto
    have "v \<noteq> i" using same_row[OF root s(1)] s rows_okD(1)[OF d(1,3)] by auto
    have "filter (\<lambda>t. tied i t \<and> tx_id t \<noteq> i) ?txs = filter (\<lambda>t. tx_id t = tx_id s) ?txs"
    proof (intro filter_cong refl)
      fix t assume t: "t \<in> set ?txs"
      show "(tied i t \<and> tx_id t \<noteq> i) = (tx_id t = tx_id s)"
      proof
        assume "tied i t \<and> tx_id t \<noteq> i"
        then have "tx_transfer t = Some i" using child_live[OF root t] np by (auto simp: tied_def)
        from partner_live[OF root t this] Some s(2) show "tx_id t = tx_id s" by simp
      next
        assume "tx_id t = tx_id s"
        then have "t = s" by (rule row_of_id[OF d(2) t s(1)])
        with s(2,3) \<open>v \<noteq> i\<close> show "tied i t \<and> tx_id t \<noteq> i" by (simp add: tied_def)
      qed
    qed
    then have "filter (\<lambda>t. tied i t \<and> tx_id t \<noteq> i) ?txs = [s]" using filter_map_id_distinct[OF dist s(1)] by simp
    with Some np s show ?thesis by simp
  qed
  have "filter (\<lambda>t. tx_user t = u \<and> live_leaf t \<and> tied i t) ?txs
    = filter (\<lambda>t. tx_id t = i \<and> u = user \<and> live_leaf r \<or> tied i t \<and> tx_id t \<noteq> i \<and> u = user) ?txs"
  proof (intro filter_cong refl)
    fix t assume t: "t \<in> set ?txs"
    show "(tx_user t = u \<and> live_leaf t \<and> tied i t) = (tx_id t = i \<and> u = user \<and> live_leaf r \<or> tied i t \<and> tx_id t \<noteq> i \<and> u = user)"
      using leaf[OF t] same_row[OF root t] d(5) by (cases "tx_id t = i") (auto simp: tied_def)
  qed
  also have "sum_list (map tx_amount \<dots>) = sum_list (map tx_amount (filter (\<lambda>t. tx_id t = i \<and> u = user \<and> live_leaf r) ?txs))
      + sum_list (map tx_amount (filter (\<lambda>t. tied i t \<and> tx_id t \<noteq> i \<and> u = user) ?txs))"
    by (rule sum_list_filter_disj) auto
  also have "\<dots> = (if u = user \<and> tx_transfer r = None then tx_amount r else 0)"
  proof (cases "u = user")
    case True
    have "tx_is_parent r \<Longrightarrow> tx_transfer r = None" using rows_okD(4)[OF d(1,3)] by simp
    with True rest self d(6) show ?thesis by (cases "tx_is_parent r") (auto simp: live_leaf_def)
  qed simp
  finally show ?thesis .
qed

lemma delete_effect:
  assumes "delete_transaction user i db = Inr db'" "finance_inv db"
  shows "\<exists>r. root_row db user i r \<and> db' = db\<lparr>fd_txs := map (mark_deleted (tied i)) (fd_txs db)\<rparr>
    \<and> (\<forall>t\<in>set (fd_txs db). tied i t \<longrightarrow> \<not> tx_reconciled t)"
proof -
  from assms(1) obtain r where f: "find (\<lambda>t. tx_id t = i \<and> tx_user t = user \<and> \<not> tx_deleted t) (fd_txs db) = Some r"
    and np: "tx_parent r = None"
    and lock: "\<not> list_ex (\<lambda>t. (List.member (linked_group db user i) (tx_id t) \<and> tx_user t = user) \<and> tx_reconciled t) (fd_txs db)"
    and db': "db' = update_txs (\<lambda>t. List.member (linked_group db user i) (tx_id t) \<and> tx_user t = user) (\<lambda>t. t\<lparr>tx_deleted := True\<rparr>) db"
    by (auto simp: delete_transaction_def Let_def result_simps)
  have root: "root_row db user i r" using find_Some_mem[OF f] np assms(2) by (simp add: root_row_def)
  have "db' = db\<lparr>fd_txs := map (mark_deleted (tied i)) (fd_txs db)\<rparr>"
  proof -
    have "map (\<lambda>t. if List.member (linked_group db user i) (tx_id t) \<and> tx_user t = user then t\<lparr>tx_deleted := True\<rparr> else t) (fd_txs db)
      = map (mark_deleted (tied i)) (fd_txs db)"
      by (intro map_cong refl) (simp only: group_tied[OF root] mark_deleted_def)
    then show ?thesis by (simp add: db' update_txs_def)
  qed
  moreover have "\<forall>t\<in>set (fd_txs db). tied i t \<longrightarrow> \<not> tx_reconciled t"
    using lock group_tied[OF root] unfolding list_ex_iff by blast
  ultimately show ?thesis using root by blast
qed

lemma delete_inv:
  assumes "delete_transaction user i db = Inr db'" "finance_inv db"
  shows "finance_inv db'"
proof -
  from delete_effect[OF assms] obtain r where root: "root_row db user i r"
    and db': "db' = db\<lparr>fd_txs := map (mark_deleted (tied i)) (fd_txs db)\<rparr>" by blast
  have "rows_ok (map (mark_deleted (tied i)) (fd_txs db))"
    using assms(2) by (intro mark_deleted_rows_ok tied_closed[OF root]) (simp_all add: finance_inv_def)
  then show ?thesis
    using assms(2) by (simp add: db' finance_inv_def ids_ok_def tables_ok_def owns_account_def comp_def)
qed

section \<open>Patches, labels and budgets\<close>

lemma update_effect:
  assumes "update_transaction user i pt db = Inr db'"
  shows "\<exists>t. own_tx db user i = Some t \<and> \<not> (tx_reconciled t \<and> pt_reconciled pt \<noteq> Some False \<and> touches_fields pt)
    \<and> db' = update_txs (\<lambda>t. tx_id t = i \<and> tx_user t = user) (patch_row pt) db"
  using assms by (auto simp: update_transaction_def result_simps)

lemma update_inv: "update_transaction user i pt db = Inr db' \<Longrightarrow> finance_inv db \<Longrightarrow> finance_inv db'"
  using update_effect update_txs_inv[OF patch.skeleton_update_axioms] by blast

text \<open>Changes of other tables that keep ids and owners.\<close>

lemma inv_other_tables:
  assumes "finance_inv db" "fd_txs db' = fd_txs db" "fd_payees db' = fd_payees db" "fd_next db' = fd_next db"
    and "map acc_id (fd_accounts db') = map acc_id (fd_accounts db)" "map acc_user (fd_accounts db') = map acc_user (fd_accounts db)"
    and "map cat_id (fd_categories db') = map cat_id (fd_categories db)"
  shows "finance_inv db'"
proof -
  have own: "owns_account db' u k \<longleftrightarrow> owns_account db u k" for u k
  proof -
    have "owns_account d u k \<longleftrightarrow> (k, u) \<in> set (zip (map acc_id (fd_accounts d)) (map acc_user (fd_accounts d)))" for d
      by (auto simp: owns_account_def zip_map_map zip_same_conv_map image_iff)
    then show ?thesis using assms(5,6) by metis
  qed
  have img: "acc_id ` set (fd_accounts db') = acc_id ` set (fd_accounts db)"
    "cat_id ` set (fd_categories db') = cat_id ` set (fd_categories db)"
    using arg_cong[OF assms(5), of set] arg_cong[OF assms(7), of set] by simp_all
  have "(\<forall>a\<in>set (fd_accounts db'). acc_id a < fd_next db) \<longleftrightarrow> (\<forall>k\<in>acc_id ` set (fd_accounts db'). k < fd_next db)"
    "(\<forall>c\<in>set (fd_categories db'). cat_id c < fd_next db) \<longleftrightarrow> (\<forall>k\<in>cat_id ` set (fd_categories db'). k < fd_next db)"
    by simp_all
  then have "(\<forall>a\<in>set (fd_accounts db'). acc_id a < fd_next db) \<longleftrightarrow> (\<forall>a\<in>set (fd_accounts db). acc_id a < fd_next db)"
    "(\<forall>c\<in>set (fd_categories db'). cat_id c < fd_next db) \<longleftrightarrow> (\<forall>c\<in>set (fd_categories db). cat_id c < fd_next db)"
    unfolding img by simp_all
  then show ?thesis
    using assms(1) by (simp only: finance_inv_def tables_ok_def assms(2-7) own) blast
qed

lemma close_account_inv: "finance_inv db \<Longrightarrow> finance_inv (close_account user i shut db)"
  by (erule inv_other_tables) (auto simp: close_account_def comp_def intro!: map_cong)

lemma delete_category_inv: "finance_inv db \<Longrightarrow> finance_inv (delete_category user i db)"
  by (erule inv_other_tables) (auto simp: delete_category_def comp_def intro!: map_cong)

lemma create_category_inv:
  assumes "create_category user name income db = Inr (i, db')" "finance_inv db"
  shows "finance_inv db'"
proof -
  have "insert_category (new_category user (strip name) income) db = Inr (i, db')"
    using assms(1) by (auto simp: create_category_def Let_def result_simps)
  then have "grown db db'" by (rule insert_category_grown) (use assms(2) in \<open>simp add: finance_inv_def\<close>)
  then show ?thesis by (rule grown_inv[OF assms(2)])
qed

lemma set_budget_inv:
  assumes "set_budget_amount user day c amount mode db = Inr db'" "finance_inv db"
  shows "finance_inv db'"
proof -
  have "fd_txs db' = fd_txs db \<and> fd_payees db' = fd_payees db \<and> fd_next db' = fd_next db \<and> fd_accounts db' = fd_accounts db
    \<and> fd_categories db' = fd_categories db"
    using assms(1) by (auto simp: set_budget_amount_def result_simps)
  then show ?thesis using inv_other_tables[OF assms(2), of db'] by simp
qed

section \<open>Imports\<close>

lemma write_update_effect:
  assumes "write_update u db = Inr db'"
  shows "\<exists>n. column_text (up_notes u) = Inr n \<and> db' = update_txs (\<lambda>t. tx_id t = up_id u) (merge_row u n) db
    \<and> (\<forall>t. find_tx db (up_id u) = Some t \<longrightarrow> check_tx db (merge_row u n t) = Inr ())"
  using assms by (auto simp: write_update_def result_simps split: option.splits)

definition same_frame :: "finance_db \<Rightarrow> finance_db \<Rightarrow> bool" where
  "same_frame db db' \<longleftrightarrow> fd_accounts db' = fd_accounts db \<and> fd_next db' = fd_next db
     \<and> map tx_id (fd_txs db') = map tx_id (fd_txs db)"

lemma write_update_frame: "write_update u db = Inr db' \<Longrightarrow> same_frame db db'"
  by (drule write_update_effect) (auto simp: same_frame_def update_txs_def comp_def merge_row_def)

lemma write_update_inv: "write_update u db = Inr db' \<Longrightarrow> finance_inv db \<Longrightarrow> finance_inv db'"
  using write_update_effect update_txs_inv[OF merge.skeleton_update_axioms] by metis

lemma write_update_total: "write_update u db = Inr db' \<Longrightarrow> live_total (fd_txs db') v = live_total (fd_txs db) v"
  using write_update_effect update_txs_total[OF merge.skeleton_update_axioms] by metis

lemma write_updates:
  assumes "rfold write_update us db = Inr db'" "finance_inv db"
  shows "finance_inv db' \<and> same_frame db db' \<and> live_total (fd_txs db') v = live_total (fd_txs db) v"
  using assms(1)
  by (rule rfold_invariant[where P = "\<lambda>d. finance_inv d \<and> same_frame db d \<and> live_total (fd_txs d) v = live_total (fd_txs db) v"])
    (use assms(2) write_update_inv write_update_frame write_update_total in \<open>auto simp: same_frame_def\<close>)

text \<open>The row a prepared row becomes.\<close>

definition stored_as :: "nat \<Rightarrow> nat \<Rightarrow> prepared \<Rightarrow> tx \<Rightarrow> bool" where
  "stored_as user acc row t \<longleftrightarrow> plain t \<and> \<not> tx_reconciled t \<and> tx_user t = user \<and> tx_account t = acc
     \<and> as_int (rt_amount row) = Some (tx_amount t) \<and> tx_payee t = rt_payee_id row \<and> tx_category t = rt_category_id row
     \<and> column_text (rt_notes row) = Inr (tx_notes t) \<and> tx_cleared t = truthy (rt_cleared row)
     \<and> tx_imported_id t = pr_imported_id row \<and> tx_imported_payee t = rt_imported_payee row"

lemma write_addition_effect:
  assumes "write_addition env user acc (k, row) db = Inr db'"
  shows "\<exists>t. check_tx db t = Inr () \<and> stored_as user acc row t \<and> tx_id t = fd_next db
    \<and> db' = db\<lparr>fd_txs := fd_txs db @ [t], fd_next := fd_next db + 1\<rparr>"
proof -
  from assms obtain d amount n i where a: "as_int (rt_amount row) = Some amount" "column_text (rt_notes row) = Inr n"
    and ins: "insert_tx ((new_tx user acc d amount)
          \<lparr>tx_payee := rt_payee_id row, tx_category := rt_category_id row, tx_notes := n,
           tx_cleared := truthy (rt_cleared row), tx_imported_id := pr_imported_id row,
           tx_imported_payee := rt_imported_payee row, tx_raw := pr_raw row,
           tx_sort := fd_now db - int k * TRANSACTION_SORT_INCREMENT\<rparr>) db = Inr (i, db')"
    by (auto simp: write_addition_def result_simps column_int_def)
  then show ?thesis
    by (auto simp: insert_tx_result stored_as_def plain_def new_tx_def dest: check_tx_amount)
qed

lemma stored_as_plain: "stored_as user acc row t \<Longrightarrow> plain t \<and> tx_user t = user \<and> tx_account t = acc"
  by (simp add: stored_as_def)

lemma write_additions:
  assumes "rfold (write_addition env user acc) ks db = Inr db'" "finance_inv db" "owns_account db user acc"
  shows "\<exists>new. fd_txs db' = fd_txs db @ new \<and> map tx_id new = [fd_next db..<fd_next db + length ks]
    \<and> list_all2 (\<lambda>kr t. stored_as user acc (snd kr) t) ks new \<and> finance_inv db'"
  using assms
proof (induction ks arbitrary: db)
  case (Cons kr ks)
  obtain k row where kr: "kr = (k, row)" by fastforce
  from Cons.prems(1) kr obtain db1 where 1: "write_addition env user acc (k, row) db = Inr db1"
    and 2: "rfold (write_addition env user acc) ks db1 = Inr db'" by (auto simp: result_simps)
  from write_addition_effect[OF 1] obtain t where t: "stored_as user acc row t" "tx_id t = fd_next db"
    and db1: "db1 = db\<lparr>fd_txs := fd_txs db @ [t], fd_next := fd_next db + length [t]\<rparr>" by auto
  have inv1: "finance_inv db1" unfolding db1
    by (rule append_rows_inv[OF Cons.prems(2)]) (use t stored_as_plain rows_ok_plain Cons.prems(3) in auto)
  have "owns_account db1 user acc" using Cons.prems(3) by (simp add: db1 owns_account_def)
  from Cons.IH[OF 2 inv1 this] obtain new where new: "fd_txs db' = fd_txs db1 @ new"
    "map tx_id new = [fd_next db1..<fd_next db1 + length ks]"
    "list_all2 (\<lambda>kr t. stored_as user acc (snd kr) t) ks new" "finance_inv db'" by blast
  have "map tx_id (t # new) = [fd_next db..<fd_next db + length (kr # ks)]"
    using t(2) new(2) by (simp add: db1 upt_rec)
  moreover have "list_all2 (\<lambda>kr t. stored_as user acc (snd kr) t) (kr # ks) (t # new)" using t(1) new(3) by (simp add: kr)
  ultimately show ?case using new(1,4) by (intro exI[of _ "t # new"]) (simp add: db1)
qed simp

lemma resolve_action_grown:
  assumes "resolve_action user a st = Inr st'" "grown db (snd st)"
  shows "grown db (snd st')"
proof (cases "ac_field a = Some ''payee''")
  case True
  with assms(1) obtain name p d where r: "resolve_payee user name (snd st) = Inr (p, d)"
    and st': "st' = (case (p, name) of (Some i, Some s) \<Rightarrow> (AList.update (normalised_string s) (i, True) (fst st), d)
      | _ \<Rightarrow> (fst st, d))"
    by (auto simp: resolve_action_def result_simps)
  have "snd st' = d" unfolding st' by (simp split: option.split)
  with r have "resolve_payee user name (snd st) = Inr (p, snd st')" by simp
  from resolve_payee_grown[OF this grown_tables[OF assms(2)]] grown_trans[OF assms(2)] show ?thesis by blast
qed (use assms in \<open>simp add: resolve_action_def\<close>)

lemma prepare_row_grown:
  assumes "prepare_row env user rules name rs r st = Inr st'" "grown db (snd st)"
  shows "grown db (snd st')"
proof -
  from assms(1) obtain p where "resolve_payee user (nr_payee_name r) (snd st) = Inr (p, snd st')"
    by (auto simp: prepare_row_def result_simps split: prod.splits if_splits)
  from resolve_payee_grown[OF this grown_tables[OF assms(2)]] grown_trans[OF assms(2)] show ?thesis by blast
qed

lemma prepare_rows_grown:
  assumes "prepare_rows env user acc rows db = Inr (res, db')" "tables_ok db"
  shows "grown db db'"
proof -
  from assms(1) obtain ps db1 where 1: "rfold (resolve_action user) (concat (map ru_actions (load_rules db user))) ([], db) = Inr (ps, db1)"
    and 2: "rfold (prepare_row env user (load_rules db user) (map_option acc_name (find_account db acc))
        \<lparr>rs_category = category_table db user, rs_payee = ps\<rparr>) rows (([], []), db1) = Inr (res, db')"
    by (auto simp: prepare_rows_def Let_def result_simps)
  have "grown db (snd (ps, db1))"
    using 1 by (rule rfold_invariant) (use grown_refl[OF assms(2)] resolve_action_grown in auto)
  then have "grown db (snd (([]::prepared list, []::preview list), db1))" by simp
  with 2 have "grown db (snd (res, db'))"
    by (rule rfold_invariant) (use prepare_row_grown in blast)
  then show ?thesis by simp
qed

text \<open>The rows after a reconciliation: patched old rows, then one new row per addition.\<close>

lemma reconcile_effect:
  assumes "reconcile env user acc rows strict reimport ud pv db = Inr (res, db')" "finance_inv db" "owns_account db user acc"
  shows "finance_inv db' \<and> (\<exists>old new. fd_txs db' = old @ new \<and> map tx_id old = map tx_id (fd_txs db)
    \<and> (\<forall>u. live_total old u = live_total (fd_txs db) u) \<and> (\<forall>t\<in>set new. plain t \<and> tx_user t = user)
    \<and> (if pv then db' = db \<and> new = [] else map tx_id new = ir_added res))"
proof (cases pv)
  case True
  with assms(1) have "db' = db" by (auto simp: reconcile_def Let_def result_simps)
  with True assms(2) show ?thesis by (intro conjI exI[of _ "fd_txs db"] exI[of _ "[]"]) simp_all
next
  case False
  from assms(1) False obtain es db1 where
    u: "rfold write_update (merges (map (decide ud) es)) db = Inr db1"
    and a: "rfold (write_addition env user acc) (enumerate 0 (additions (map (decide ud) es))) db1 = Inr db'"
    and res: "ir_added res = map (\<lambda>k. fd_next db + k) [0..<length (additions (map (decide ud) es))]"
    by (auto simp: reconcile_def Let_def result_simps)
  note w = write_updates[OF u assms(2)]
  have own: "owns_account db1 user acc" using w assms(3) by (simp add: same_frame_def owns_account_def)
  have inv1: "finance_inv db1" using w by blast
  from write_additions[OF a inv1 own] obtain new where new: "fd_txs db' = fd_txs db1 @ new"
    "map tx_id new = [fd_next db1..<fd_next db1 + length (additions (map (decide ud) es))]"
    "list_all2 (\<lambda>kr t. stored_as user acc (snd kr) t) (enumerate 0 (additions (map (decide ud) es))) new" "finance_inv db'"
    by auto
  have "\<forall>t\<in>set new. plain t \<and> tx_user t = user"
    using new(3) by (auto simp: list_all2_conv_all_nth in_set_conv_nth dest!: stored_as_plain)
  moreover have "map tx_id new = ir_added res"
    using new(2) w by (simp add: res same_frame_def map_add_upt add.commute)
  ultimately show ?thesis
    using new(1,4) w False by (intro conjI exI[of _ "fd_txs db1"] exI[of _ new]) (auto simp: same_frame_def)
qed

lemma lift_import_eq_Inr [result_simps]: "lift_import r = Inr x \<longleftrightarrow> r = Inr x"
  by (cases r) (simp_all add: lift_import_def)

lemma import_effect:
  assumes "import_transactions env user acc raw pv db = Inr (res, db')" "finance_inv db"
  shows "\<exists>db1 res1 db2 rows. prepare_rows env user acc rows db = Inr ((fst res1, snd res1), db1) \<and> grown db db1
    \<and> (\<exists>r2. reconcile env user acc (fst res1) True False False pv db1 = Inr (r2, db2)
        \<and> ir_added res = ir_added r2 \<and> ir_updated res = ir_updated r2)
    \<and> owns_account db1 user acc \<and> (if pv then db' = db2 else \<exists>l. db' = db2\<lparr>fd_imports := l\<rparr>)"
proof -
  from assms(1) obtain rows ps sk db1 r2 db2 where o: "map_option acc_user (find_account db acc) = Some user"
    and p: "prepare_rows env user acc rows db = Inr ((ps, sk), db1)"
    and r: "reconcile env user acc ps True False False pv db1 = Inr (r2, db2)"
    and e: "if pv then res = r2\<lparr>ir_preview := sk @ ir_preview r2\<rparr> \<and> db' = db2
      else res = r2\<lparr>ir_preview := sk @ ir_preview r2\<rparr> \<and> (\<exists>l. db' = db2\<lparr>fd_imports := l\<rparr>)"
    by (cases pv; simp add: import_transactions_def Let_def result_simps split_paired_Ex; blast)
  have g: "grown db db1" using prepare_rows_grown[OF p] assms(2) by (simp add: finance_inv_def)
  have "owns_account db1 user acc" using grown_owns[OF g] find_account_user[OF o] by blast
  with p r e g show ?thesis
    by (intro exI[of _ db1] exI[of _ "(ps, sk)"] exI[of _ db2] exI[of _ rows]) (auto split: if_splits)
qed

lemma inv_imports: "finance_inv (db\<lparr>fd_imports := l\<rparr>) \<longleftrightarrow> finance_inv db"
  by (simp add: finance_inv_def tables_ok_def owns_account_def)

lemma import_inv:
  assumes "import_transactions env user acc raw pv db = Inr (res, db')" "finance_inv db"
  shows "finance_inv db'"
proof -
  from import_effect[OF assms] obtain db1 ps db2 r2 where g: "grown db db1" and own: "owns_account db1 user acc"
    and r: "reconcile env user acc ps True False False pv db1 = Inr (r2, db2)"
    and e: "if pv then db' = db2 else \<exists>l. db' = db2\<lparr>fd_imports := l\<rparr>" by blast
  have "finance_inv db2" using reconcile_effect[OF r grown_inv[OF assms(2) g] own] by blast
  with e show ?thesis by (auto simp: inv_imports split: if_splits)
qed

lemma inv_surroundings:
  "finance_inv (db\<lparr>fd_rules := rs, fd_currency := cur, fd_today := d, fd_now := ms\<rparr>) \<longleftrightarrow> finance_inv db"
  by (simp add: finance_inv_def tables_ok_def owns_account_def)

section \<open>Every operation\<close>

inductive finance_step :: "finance_db \<Rightarrow> finance_db \<Rightarrow> bool" where
  Open_Account: "create_account user name kind ob opening currency db = Inr (i, db') \<Longrightarrow> finance_step db db'"
| Shut_Account: "finance_step db (close_account user i shut db)"
| New_Category: "create_category user name income db = Inr (i, db') \<Longrightarrow> finance_step db db'"
| Drop_Category: "finance_step db (delete_category user i db)"
| Enter: "create_manual_transaction env user acc d amount payee_name category n cleared splits db = Inr (i, db')
    \<Longrightarrow> finance_step db db'"
| Patch: "update_transaction user i pt db = Inr db' \<Longrightarrow> finance_step db db'"
| Delete: "delete_transaction user i db = Inr db' \<Longrightarrow> finance_step db db'"
| Assign: "set_budget_amount user day c amount mode db = Inr db' \<Longrightarrow> finance_step db db'"
| Import: "import_transactions env user acc raw pv db = Inr (res, db') \<Longrightarrow> finance_step db db'"
| Surroundings: "finance_step db (db\<lparr>fd_rules := rules, fd_currency := cur, fd_today := d, fd_now := ms\<rparr>)"

inductive_cases finance_stepE: "finance_step db db'"

abbreviation finance_run :: "finance_db \<Rightarrow> finance_db \<Rightarrow> bool" where
  "finance_run \<equiv> finance_step\<^sup>*\<^sup>*"

lemma finance_step_inv:
  assumes "finance_step db db'" "finance_inv db"
  shows "finance_inv db'"
  using assms
proof (induction rule: finance_step.induct)
  case (Open_Account user name kind ob v currency db i db')
  then show ?case using create_account_effect by blast
next
  case (Enter env user acc d amount payee_name category n cleared splits db i db')
  then show ?case using create_manual_effect by blast
qed (auto intro: close_account_inv create_category_inv delete_category_inv update_inv delete_inv set_budget_inv import_inv
    simp: inv_surroundings)

definition empty_finance :: finance_db where
  "empty_finance = \<lparr>fd_accounts = [], fd_categories = [], fd_payees = [], fd_txs = [], fd_budgets = [], fd_rules = [],
     fd_imports = [], fd_currency = [], fd_next = 0, fd_today = 739000, fd_now = 0\<rparr>"

lemma empty_finance_inv: "finance_inv empty_finance"
  by (simp add: empty_finance_def finance_inv_def rows_ok_def ids_ok_def tables_ok_def)

lemma sample_finance_inv: "finance_inv sample_finance"
  by (simp add: sample_finance_def finance_inv_def rows_ok_def ids_ok_def tables_ok_def owns_account_def child_ok_def
      parent_ok_def transfer_ok_def new_tx_def new_category_def sample_account_def)

section \<open>The lock of reconciled rows\<close>

text \<open>A reconciled row of \<open>db\<close> is unchanged in \<open>db'\<close>, or has been unlocked.\<close>

definition keeps_locked :: "finance_db \<Rightarrow> finance_db \<Rightarrow> bool" where
  "keeps_locked db db' \<longleftrightarrow> (\<forall>t\<in>set (fd_txs db). tx_reconciled t \<longrightarrow>
     (\<exists>s\<in>set (fd_txs db'). tx_id s = tx_id t \<and> (s = t \<or> \<not> tx_reconciled s)))"

lemma keeps_locked_subset: "set (fd_txs db) \<subseteq> set (fd_txs db') \<Longrightarrow> keeps_locked db db'"
  by (auto simp: keeps_locked_def)

lemma keeps_locked_update:
  assumes "\<And>t. t \<in> set (fd_txs db) \<Longrightarrow> tx_reconciled t \<Longrightarrow> P t \<Longrightarrow> tx_id (f t) = tx_id t \<and> (f t = t \<or> \<not> tx_reconciled (f t))"
  shows "keeps_locked db (update_txs P f db)"
  using assms by (auto simp: keeps_locked_def update_txs_def)

lemma update_locked:
  assumes "update_transaction user i pt db = Inr db'" "finance_inv db"
  shows "keeps_locked db db'"
proof -
  from update_effect[OF assms(1)] obtain r where r: "own_tx db user i = Some r"
    and lock: "\<not> (tx_reconciled r \<and> pt_reconciled pt \<noteq> Some False \<and> touches_fields pt)"
    and db': "db' = update_txs (\<lambda>t. tx_id t = i \<and> tx_user t = user) (patch_row pt) db" by blast
  have r': "r \<in> set (fd_txs db)" "tx_id r = i" using find_Some_mem[OF r[unfolded own_tx_def]] by auto
  have untouched: "patch_row pt t = t" if "\<not> touches_fields pt" "pt_reconciled pt \<noteq> Some False" "tx_reconciled t" for t :: tx
    using that by (cases "pt_reconciled pt") (auto simp: touches_fields_def patch_row_def coalesce_def)
  show ?thesis unfolding db'
  proof (rule keeps_locked_update)
    fix t assume t: "t \<in> set (fd_txs db)" "tx_reconciled t" "tx_id t = i \<and> tx_user t = user"
    then have "t = r" using row_of_id[of "fd_txs db"] assms(2) r' by (metis finance_inv_def)
    with lock t untouched[of r]
    show "tx_id (patch_row pt t) = tx_id t \<and> (patch_row pt t = t \<or> \<not> tx_reconciled (patch_row pt t))"
      by (cases "pt_reconciled pt = Some False") (auto simp: patch_row_def coalesce_def)
  qed
qed

lemma delete_locked:
  assumes "delete_transaction user i db = Inr db'" "finance_inv db"
  shows "keeps_locked db db'"
  using delete_effect[OF assms] by (auto simp: keeps_locked_def mark_deleted_def intro!: bexI)

text \<open>Merges only touch rows that were not reconciled when the batch was planned.\<close>

lemma fuzzy_candidate:
  assumes "fuzzy_dataset env db acc row strict = Inr ts" "t \<in> set ts"
  shows "t \<in> set (fd_txs db) \<and> tx_account t = acc \<and> \<not> tx_deleted t
    \<and> (strict \<and> pr_imported_id row \<noteq> None \<longrightarrow> tx_imported_id t = None)"
  using assms by (auto simp: fuzzy_dataset_def result_simps)

lemma match_in_db:
  assumes "match_transactions env db acc rows strict reimport = Inr es" "e \<in> set es" "md_match e = Some old"
  shows "old \<in> set (fd_txs db)"
proof -
  note r = match_rows_result[OF assms(1)[unfolded match_transactions_def]]
  show ?thesis
  proof (cases "row_exact db acc reimport (md_row e)")
    case None
    from fuzzy_candidate[OF r(5)[OF assms(2) None] r(6)[OF assms(2) None assms(3)]] show ?thesis by blast
  next
    case (Some t)
    with r(4)[OF assms(2)] assms(3) show ?thesis
      by (auto simp: row_exact_def exact_match_def split: if_splits option.splits dest: find_Some_mem)
  qed
qed

lemma merges_member:
  "u \<in> set (merges (map (decide ud) es)) \<longleftrightarrow>
    (\<exists>e\<in>set es. \<exists>old. md_match e = Some old \<and> \<not> tx_reconciled old \<and> merge_updates old (md_row e) ud = Some u)"
  by (induction es) (auto simp: merges_def List.map_filter_simps decide_def split: option.splits if_splits)

lemma merge_updates_id: "merge_updates old row ud = Some u \<Longrightarrow> up_id u = tx_id old"
  by (auto simp: merge_updates_def Let_def split: if_splits)

lemma write_updates_keep:
  assumes "rfold write_update us db = Inr db'" "t \<in> set (fd_txs db)" "tx_id t \<notin> up_id ` set us"
  shows "t \<in> set (fd_txs db')"
  using assms(1)
proof (rule rfold_invariant[where P = "\<lambda>d. t \<in> set (fd_txs d)"])
  fix u a b assume "u \<in> set us" "t \<in> set (fd_txs a)" "write_update u a = Inr b"
  then show "t \<in> set (fd_txs b)"
    using write_update_effect[of u a b] assms(3) by (force simp: update_txs_def)
qed (rule assms(2))

lemma reconcile_locked:
  assumes "reconcile env user acc rows strict reimport ud pv db = Inr (res, db')" "finance_inv db" "owns_account db user acc"
    and "t \<in> set (fd_txs db)" "tx_reconciled t"
  shows "t \<in> set (fd_txs db')"
proof (cases pv)
  case False
  from assms(1) False obtain es db1 where m: "match_transactions env db acc rows strict reimport = Inr es"
    and u: "rfold write_update (merges (map (decide ud) es)) db = Inr db1"
    and a: "rfold (write_addition env user acc) (enumerate 0 (additions (map (decide ud) es))) db1 = Inr db'"
    by (auto simp: reconcile_def Let_def result_simps)
  have "tx_id t \<notin> up_id ` set (merges (map (decide ud) es))"
  proof
    assume "tx_id t \<in> up_id ` set (merges (map (decide ud) es))"
    then obtain v where v: "v \<in> set (merges (map (decide ud) es))" "up_id v = tx_id t" by auto
    from v(1)[unfolded merges_member] obtain e old where e: "e \<in> set es" "md_match e = Some old" "\<not> tx_reconciled old"
      "merge_updates old (md_row e) ud = Some v" by blast
    have "old = t"
      using match_in_db[OF m e(1,2)] merge_updates_id[OF e(4)] v(2) assms(2,4) row_of_id[of "fd_txs db"]
      by (metis finance_inv_def)
    with e(3) assms(5) show False by simp
  qed
  from write_updates_keep[OF u assms(4) this] have "t \<in> set (fd_txs db1)" .
  moreover have w: "finance_inv db1 \<and> same_frame db db1" using write_updates[OF u assms(2)] by blast
  moreover have "owns_account db1 user acc" using w assms(3) by (simp add: same_frame_def owns_account_def)
  ultimately show ?thesis using write_additions[OF a] by force
next
  case True
  with assms(1,4) show ?thesis by (auto simp: reconcile_def Let_def result_simps)
qed

lemma import_locked:
  assumes "import_transactions env user acc raw pv db = Inr (res, db')" "finance_inv db"
  shows "keeps_locked db db'"
proof -
  from import_effect[OF assms] obtain db1 ps db2 r2 where g: "grown db db1" and own: "owns_account db1 user acc"
    and r: "reconcile env user acc ps True False False pv db1 = Inr (r2, db2)"
    and e: "if pv then db' = db2 else \<exists>l. db' = db2\<lparr>fd_imports := l\<rparr>" by blast
  have same: "fd_txs db1 = fd_txs db" "fd_txs db' = fd_txs db2" using g e by (auto simp: grown_def split: if_splits)
  show ?thesis
    using reconcile_locked[OF r grown_inv[OF assms(2) g] own] unfolding keeps_locked_def same by blast
qed

lemma opening_entry_txs:
  assumes "opening_entry user acc v db = Inr db'" "finance_inv db" "owns_account db user acc"
  shows "set (fd_txs db) \<subseteq> set (fd_txs db')"
proof -
  obtain c db1 p db2 t i where s: "starting_category user db = Inr (c, db1)"
    "resolve_payee user (Some ''Starting Balance'') db1 = Inr (p, db2)" "insert_tx t db2 = Inr (i, db')"
    using assms(1) by (auto simp: opening_entry_def result_simps)
  have g: "grown db db1" using starting_category_grown[OF s(1)] assms(2) by (simp add: finance_inv_def)
  have "grown db1 db2" using resolve_payee_grown[OF s(2) grown_tables[OF g]] by blast
  with g have "fd_txs db2 = fd_txs db" by (simp add: grown_def)
  with s(3) show ?thesis by (auto simp: insert_tx_result)
qed

lemma create_account_locked:
  assumes "create_account user name kind ob v currency db = Inr (i, db')" "finance_inv db"
  shows "keeps_locked db db'"
proof -
  obtain a db1 where a: "insert_account a db = Inr (i, db1)" "acc_user a = user"
    and o: "if v = None \<or> v = Some 0 then db' = db1 else opening_entry user i (the v) db1 = Inr db'"
    using assms(1) by (auto simp: create_account_def Let_def result_simps split: if_splits)
  have g: "grown db db1" "owns_account db1 user i"
    using insert_account_grown[OF a(1)] assms(2) a(2) by (simp_all add: finance_inv_def)
  have "set (fd_txs db1) \<subseteq> set (fd_txs db')"
    using o opening_entry_txs[OF _ grown_inv[OF assms(2) g(1)] g(2), of "the v" db'] by (auto split: if_splits)
  with g(1) show ?thesis by (intro keeps_locked_subset) (simp add: grown_def)
qed

lemma finance_step_locked:
  assumes "finance_step db db'" "finance_inv db"
  shows "keeps_locked db db'"
  using assms
proof (induction rule: finance_step.induct)
  case (Enter env user acc d amount payee_name category n cleared splits db i db')
  then obtain new where "fd_txs db' = fd_txs db @ new" using create_manual_effect by metis
  then show ?case by (intro keeps_locked_subset) simp
next
  case (New_Category user name income db i db')
  then show ?case
    by (intro keeps_locked_subset) (auto simp: create_category_def insert_category_def Let_def result_simps)
qed (auto intro: create_account_locked update_locked delete_locked import_locked keeps_locked_subset
    simp: close_account_def delete_category_def set_budget_amount_def result_simps)

end
