(* ===== verification/Finance_Properties.thy ===== *)
theory Finance_Properties
  imports Finance_Laws
begin

text \<open>
  The properties of the finance ledger and of imports: what an operation does to the balances a user
  is shown, what a delete removes, which rows are locked, what a merge may change, and that importing
  the same rows again changes nothing.
\<close>

section \<open>Balances\<close>

lemma find_tx_row:
  assumes "finance_inv db" "t \<in> set (fd_txs db)"
  shows "find_tx db (tx_id t) = Some t"
  using assms by (simp add: find_tx_def find_distinct_map finance_inv_def ids_ok_def)

lemma total_balance_live: "finance_inv db \<Longrightarrow> total_balance db u = live_total (fd_txs db) u"
  by (simp add: total_balance_eq finance_inv_def)

definition sample_entered :: "finance_db" where
  "sample_entered = (case create_manual_transaction sample_days 1 10 739005 (-700) (Some ''transfer: savings'') (Some 12)
     None True [] sample_finance of Inr (_, db) \<Rightarrow> db | Inl _ \<Rightarrow> empty_finance)"

lemma sample_entry:
  "create_manual_transaction sample_days 1 10 739005 (-700) (Some ''transfer: savings'') (Some 12) None True [] sample_finance
    = Inr (30, sample_entered)"
  by code_simp

text \<open>C34. From every well-formed ledger, any sequence of operations keeps the ledger well formed:
  ids are fresh and unique, amounts are non-zero, the children of a split add up to the parent and
  share its account and its deletion, the two sides of a transfer name each other with opposite
  amounts, and every row belongs to an account of its user.\<close>

theorem finance_ledger_invariant:
  assumes "finance_run db db'" "finance_inv db"
  shows "finance_inv db'"
  using assms by (induction rule: rtranclp_induct) (auto intro: finance_step_inv)

lemma finance_ledger_invariant_witness: "finance_inv sample_entered"
  by (rule finance_ledger_invariant[OF r_into_rtranclp[of finance_step, OF Enter[OF sample_entry]] sample_finance_inv])

text \<open>C35. A manual transaction moves the sum of the user's ledger balances by its amount, once even
  when it is split, and by nothing when its payee makes it a transfer between accounts; other users'
  balances do not move.\<close>

theorem entry_moves_total:
  assumes "create_manual_transaction env user acc d amount payee_name category n cleared splits db = Inr (i, db')"
    and "finance_inv db"
  shows "\<exists>t. find_tx db' i = Some t \<and>
    total_balance db' u = total_balance db u + (if u = user \<and> tx_transfer t = None then amount else 0)"
proof -
  from create_manual_effect[OF assms] obtain new s where inv: "finance_inv db'" and s: "s \<in> set (fd_txs db')" "tx_id s = i"
    and total: "live_total (fd_txs db') u = live_total (fd_txs db) u + (if u = user \<and> tx_transfer s = None then amount else 0)"
    by (metis UnCI set_append)
  show ?thesis
    using find_tx_row[OF inv s(1)] s(2) total total_balance_live[OF inv] total_balance_live[OF assms(2)]
    by (intro exI[of _ s]) simp
qed

lemma entry_moves_total_witness:
  "\<exists>t. find_tx sample_entered 30 = Some t \<and>
    total_balance sample_entered 1 = total_balance sample_finance 1 + (if (1::nat) = 1 \<and> tx_transfer t = None then -700 else 0)"
  by (rule entry_moves_total[OF sample_entry sample_finance_inv])

definition sample_removed :: "finance_db" where
  "sample_removed = (case delete_transaction 1 20 sample_finance of Inr db \<Rightarrow> db | Inl _ \<Rightarrow> empty_finance)"

lemma sample_delete: "delete_transaction 1 20 sample_finance = Inr sample_removed"
  by code_simp

text \<open>A delete marks exactly the linked group of the row (the row, its split children, its transfer
  partner), none of which is reconciled, and the sum of the user's balances falls by the amount of a
  row that is not a transfer and does not move for a transfer.\<close>

theorem delete_removes_group:
  assumes "delete_transaction user i db = Inr db'" "finance_inv db"
  shows "\<exists>r. find_tx db i = Some r
    \<and> fd_txs db' = map (\<lambda>t. if tied i t then t\<lparr>tx_deleted := True\<rparr> else t) (fd_txs db)
    \<and> (\<forall>t\<in>set (fd_txs db). tied i t \<longrightarrow> \<not> tx_reconciled t)
    \<and> total_balance db' u = total_balance db u - (if u = user \<and> tx_transfer r = None then tx_amount r else 0)"
proof -
  from delete_effect[OF assms] obtain r where root: "root_row db user i r"
    and db': "db' = db\<lparr>fd_txs := map (mark_deleted (tied i)) (fd_txs db)\<rparr>"
    and lock: "\<forall>t\<in>set (fd_txs db). tied i t \<longrightarrow> \<not> tx_reconciled t" by blast
  note d = root_rowD[OF root]
  have "live_total (fd_txs db') u = live_total (fd_txs db) u - (if u = user \<and> tx_transfer r = None then tx_amount r else 0)"
    by (simp add: db' live_total_marked tied_amount[OF root])
  then have "total_balance db' u = total_balance db u - (if u = user \<and> tx_transfer r = None then tx_amount r else 0)"
    using total_balance_live[OF delete_inv[OF assms]] total_balance_live[OF assms(2)] by simp
  moreover have "find_tx db i = Some r" using find_tx_row[OF assms(2) d(3)] d(4) by simp
  moreover have "fd_txs db' = map (\<lambda>t. if tied i t then t\<lparr>tx_deleted := True\<rparr> else t) (fd_txs db)"
    by (simp add: db' mark_deleted_def)
  ultimately show ?thesis using lock by blast
qed

lemma delete_removes_group_witness:
  "\<exists>r. find_tx sample_finance 20 = Some r
    \<and> fd_txs sample_removed = map (\<lambda>t. if tied 20 t then t\<lparr>tx_deleted := True\<rparr> else t) (fd_txs sample_finance)
    \<and> (\<forall>t\<in>set (fd_txs sample_finance). tied 20 t \<longrightarrow> \<not> tx_reconciled t)
    \<and> total_balance sample_removed 1 = total_balance sample_finance 1
        - (if (1::nat) = 1 \<and> tx_transfer r = None then tx_amount r else 0)"
  by (rule delete_removes_group[OF sample_delete sample_finance_inv])

text \<open>A reconciled transaction is locked against every operation: it stays in the ledger exactly
  as it is, whatever is entered, patched, deleted or imported, until a patch unlocks it.\<close>

theorem reconciled_is_locked:
  assumes "finance_step db db'" "finance_inv db" "t \<in> set (fd_txs db)" "tx_reconciled t"
  shows "\<exists>s\<in>set (fd_txs db'). tx_id s = tx_id t \<and> (s = t \<or> \<not> tx_reconciled s)"
  using finance_step_locked[OF assms(1,2)] assms(3,4) by (simp add: keeps_locked_def)

definition sample_locked :: finance_db where
  "sample_locked = sample_finance\<lparr>fd_txs := [(fd_txs sample_finance ! 0)\<lparr>tx_reconciled := True\<rparr>]\<rparr>"

lemma sample_locked_inv: "finance_inv sample_locked"
  by (simp add: sample_locked_def sample_finance_def finance_inv_def rows_ok_def ids_ok_def tables_ok_def owns_account_def
      child_ok_def parent_ok_def transfer_ok_def new_tx_def new_category_def sample_account_def)

lemma reconciled_is_locked_witness:
  "\<exists>s\<in>set (fd_txs (close_account 1 10 True sample_locked)). tx_id s = tx_id (fd_txs sample_locked ! 0)
    \<and> (s = fd_txs sample_locked ! 0 \<or> \<not> tx_reconciled s)"
  by (rule reconciled_is_locked[OF Shut_Account sample_locked_inv]) (simp_all add: sample_locked_def)

section \<open>What an import may change\<close>

text \<open>\<open>s\<close> is \<open>t\<close> after imports: links, amount, date and lock are the same, what was set stays.\<close>

definition survives :: "tx \<Rightarrow> tx \<Rightarrow> bool" where
  "survives t s \<longleftrightarrow> skel s = skel t \<and> tx_date s = tx_date t \<and> tx_reconciled s = tx_reconciled t
     \<and> (tx_payee t \<noteq> None \<longrightarrow> tx_payee s = tx_payee t) \<and> (tx_category t \<noteq> None \<longrightarrow> tx_category s = tx_category t)
     \<and> (truthy (jtext (tx_notes t)) \<longrightarrow> tx_notes s = tx_notes t) \<and> (tx_cleared t \<longrightarrow> tx_cleared s)
     \<and> (tx_imported_id t \<noteq> None \<longrightarrow> tx_imported_id s \<noteq> None)"

lemma survives_refl: "survives t t"
  by (simp add: survives_def)

lemma column_jtext: "column_text (jtext n) = Inr m \<longleftrightarrow> m = n"
  by (auto simp: column_text_def jtext_def split: option.splits)

lemma merge_survives:
  assumes "merge_updates t row False = Some u" "column_text (up_notes u) = Inr n" "survives t s"
  shows "survives t (merge_row u n s)"
proof -
  have u: "up_payee u = or_else (tx_payee t) (rt_payee_id row)" "up_category u = or_else (tx_category t) (rt_category_id row)"
    "up_imported_id u = text_or (pr_imported_id row) (tx_imported_id t)" "up_cleared u = (tx_cleared t \<or> truthy (rt_cleared row))"
    "up_notes u = (if truthy (jtext (tx_notes t)) then jtext (tx_notes t) else if truthy (rt_notes row) then rt_notes row else JNull)"
    using assms(1) by (auto simp: merge_updates_def Let_def split: if_splits)
  have "truthy (jtext (tx_notes t)) \<Longrightarrow> n = tx_notes t" using assms(2) by (simp add: u(5) column_jtext)
  moreover have "tx_imported_id t \<noteq> None \<Longrightarrow> up_imported_id u \<noteq> None"
    by (simp add: u(3) text_or_def split: option.split)
  ultimately show ?thesis
    using assms(3) by (auto simp: survives_def merge_row_def skel_def u or_else_def split: option.splits)
qed

lemma reconcile_survives:
  assumes "reconcile env user acc rows strict reimport False pv db = Inr (res, db')" "finance_inv db" "owns_account db user acc"
    and "t \<in> set (fd_txs db)"
  shows "\<exists>s\<in>set (fd_txs db'). survives t s"
proof (cases pv)
  case True
  with assms(1,4) survives_refl show ?thesis by (auto simp: reconcile_def Let_def result_simps)
next
  case False
  from assms(1) False obtain es db1 where m: "match_transactions env db acc rows strict reimport = Inr es"
    and u: "rfold write_update (merges (map (decide False) es)) db = Inr db1"
    and a: "rfold (write_addition env user acc) (enumerate 0 (additions (map (decide False) es))) db1 = Inr db'"
    by (auto simp: reconcile_def Let_def result_simps)
  have "\<exists>s\<in>set (fd_txs db1). survives t s"
    using u
  proof (rule rfold_invariant[where P = "\<lambda>d. \<exists>s\<in>set (fd_txs d). survives t s"])
    show "\<exists>s\<in>set (fd_txs db). survives t s" using assms(4) survives_refl by blast
  next
    fix v d e assume v: "v \<in> set (merges (map (decide False) es))" "\<exists>s\<in>set (fd_txs d). survives t s" "write_update v d = Inr e"
    from v(2) obtain s where s: "s \<in> set (fd_txs d)" "survives t s" by blast
    from write_update_effect[OF v(3)] obtain n where n: "column_text (up_notes v) = Inr n"
      and e: "e = update_txs (\<lambda>t. tx_id t = up_id v) (merge_row v n) d" by blast
    from v(1)[unfolded merges_member] obtain x old where x: "x \<in> set es" "md_match x = Some old"
      "merge_updates old (md_row x) False = Some v" by blast
    show "\<exists>s\<in>set (fd_txs e). survives t s"
    proof (cases "tx_id s = up_id v")
      case True
      have "tx_id old = tx_id t" using merge_updates_id[OF x(3)] True s(2) by (simp add: survives_def skel_def)
      then have "old = t" using match_in_db[OF m x(1,2)] assms(2,4) row_of_id[of "fd_txs db"] by (metis finance_inv_def)
      with merge_survives[OF _ n s(2)] x(3) have "survives t (merge_row v n s)" by blast
      moreover have "merge_row v n s \<in> set (fd_txs e)" using s(1) True by (force simp: e update_txs_def)
      ultimately show ?thesis by blast
    next
      case False
      with s(1) have "s \<in> set (fd_txs e)" by (force simp: e update_txs_def)
      with s(2) show ?thesis by blast
    qed
  qed
  moreover have w: "finance_inv db1 \<and> same_frame db db1" using write_updates[OF u assms(2)] by blast
  moreover have "owns_account db1 user acc" using w assms(3) by (simp add: same_frame_def owns_account_def)
  ultimately show ?thesis using write_additions[OF a] by force
qed

lemma import_survives:
  assumes "import_transactions env user acc raw pv db = Inr (res, db')" "finance_inv db" "t \<in> set (fd_txs db)"
  shows "\<exists>s\<in>set (fd_txs db'). survives t s"
proof -
  from import_effect[OF assms(1,2)] obtain db1 ps db2 r2 where g: "grown db db1" and own: "owns_account db1 user acc"
    and r: "reconcile env user acc ps True False False pv db1 = Inr (r2, db2)"
    and e: "if pv then db' = db2 else \<exists>l. db' = db2\<lparr>fd_imports := l\<rparr>" by blast
  have same: "fd_txs db1 = fd_txs db" "fd_txs db' = fd_txs db2" using g e by (auto simp: grown_def split: if_splits)
  show ?thesis using reconcile_survives[OF r grown_inv[OF assms(2) g] own] assms(3) unfolding same by blast
qed

definition sample_raw :: import_row where
  "sample_raw = \<lparr>ir_date = Some ''2024-04-30'', ir_payee_name = Some ''corner shop'', ir_imported_payee = None,
     ir_amount = Some (Cents (-500)), ir_imported_id = Some ''B1'', ir_notes = None, ir_cleared = None,
     ir_category = None, ir_raw = None\<rparr>"

definition sample_imported :: "import_result \<times> finance_db" where
  "sample_imported = (case import_transactions sample_days 1 10 [sample_raw] False sample_finance of
     Inr r \<Rightarrow> r | Inl _ \<Rightarrow> (\<lparr>ir_added = [], ir_updated = [], ir_preview = []\<rparr>, empty_finance))"

lemma sample_import:
  "import_transactions sample_days 1 10 [sample_raw] False sample_finance = Inr (fst sample_imported, snd sample_imported)"
  by code_simp

text \<open>An import never loses what is stored: every transaction of the ledger is still there with its
  amount, account, date, links and lock; a payee, a category or notes that were set are unchanged, a
  cleared transaction stays cleared and an imported id is never erased.\<close>

theorem import_keeps_stored_values:
  assumes "import_transactions env user acc raw pv db = Inr (res, db')" "finance_inv db" "t \<in> set (fd_txs db)"
  shows "\<exists>s\<in>set (fd_txs db'). survives t s"
  by (rule import_survives[OF assms])

lemma import_keeps_stored_values_witness:
  "\<exists>s\<in>set (fd_txs (snd sample_imported)). survives (fd_txs sample_finance ! 0) s"
  by (rule import_keeps_stored_values[OF sample_import sample_finance_inv]) (simp add: sample_finance_def)

section \<open>Importing the same rows again\<close>

definition imported_unique :: "finance_db \<Rightarrow> bool" where
  "imported_unique db \<longleftrightarrow> (\<forall>s\<in>set (fd_txs db). \<forall>t\<in>set (fd_txs db). tx_account s = tx_account t
     \<and> tx_imported_id s = tx_imported_id t \<and> tx_imported_id t \<noteq> None \<and> \<not> tx_deleted s \<and> \<not> tx_deleted t \<longrightarrow> tx_id s = tx_id t)"

lemma check_tx_unique:
  "check_tx db t = Inr () \<Longrightarrow> s \<in> set (fd_txs db) \<Longrightarrow> tx_account s = tx_account t \<Longrightarrow> tx_imported_id s = tx_imported_id t
    \<Longrightarrow> tx_imported_id t \<noteq> None \<Longrightarrow> \<not> tx_deleted s \<Longrightarrow> \<not> tx_deleted t \<Longrightarrow> tx_id s = tx_id t"
  by (auto simp: check_tx_def result_simps imported_clash_def list_ex_iff)

lemma write_update_unique:
  assumes "write_update u db = Inr db'" "finance_inv db" "imported_unique db"
  shows "imported_unique db'"
proof -
  from write_update_effect[OF assms(1)] obtain n where db': "db' = update_txs (\<lambda>t. tx_id t = up_id u) (merge_row u n) db"
    and chk: "\<And>t. find_tx db (up_id u) = Some t \<Longrightarrow> check_tx db (merge_row u n t) = Inr ()" by blast
  have new: "tx_id a = tx_id b"
    if "a \<in> set (fd_txs db)" "b \<in> set (fd_txs db)" "tx_id a = up_id u" "tx_account (merge_row u n a) = tx_account b"
      "tx_imported_id (merge_row u n a) = tx_imported_id b" "tx_imported_id b \<noteq> None" "\<not> tx_deleted a" "\<not> tx_deleted b" for a b
    using check_tx_unique[OF chk, of a b] find_tx_row[OF assms(2) that(1)] that by (simp add: merge_row_def)
  show ?thesis
    unfolding imported_unique_def
  proof (intro ballI impI)
    fix s t assume s: "s \<in> set (fd_txs db')" and t: "t \<in> set (fd_txs db')"
      and eq: "tx_account s = tx_account t \<and> tx_imported_id s = tx_imported_id t \<and> tx_imported_id t \<noteq> None \<and> \<not> tx_deleted s \<and> \<not> tx_deleted t"
    from s t obtain a b where a: "a \<in> set (fd_txs db)" "s = (if tx_id a = up_id u then merge_row u n a else a)"
      and b: "b \<in> set (fd_txs db)" "t = (if tx_id b = up_id u then merge_row u n b else b)"
      by (auto simp: db' update_txs_def)
    consider "tx_id a = up_id u" "tx_id b = up_id u" | "tx_id a = up_id u" "tx_id b \<noteq> up_id u"
      | "tx_id a \<noteq> up_id u" "tx_id b = up_id u" | "tx_id a \<noteq> up_id u" "tx_id b \<noteq> up_id u" by blast
    then show "tx_id s = tx_id t"
    proof cases
      case 2
      with new[of a b] a b eq show ?thesis by simp
    next
      case 3
      with new[of b a] a b eq show ?thesis by simp
    next
      case 4
      with assms(3)[unfolded imported_unique_def, rule_format, OF a(1) b(1)] a(2) b(2) eq show ?thesis by simp
    qed (use a b in simp)
  qed
qed

lemma write_addition_unique:
  assumes "write_addition env user acc kr db = Inr db'" "imported_unique db"
  shows "imported_unique db'"
proof -
  obtain k row where "kr = (k, row)" by fastforce
  with write_addition_effect assms(1) obtain t where c: "check_tx db t = Inr ()"
    and db': "db' = db\<lparr>fd_txs := fd_txs db @ [t], fd_next := fd_next db + 1\<rparr>" by metis
  note old = assms(2)[unfolded imported_unique_def, rule_format]
  show ?thesis
    unfolding imported_unique_def
  proof (intro ballI impI)
    fix s r assume s: "s \<in> set (fd_txs db')" and r: "r \<in> set (fd_txs db')"
      and eq: "tx_account s = tx_account r \<and> tx_imported_id s = tx_imported_id r \<and> tx_imported_id r \<noteq> None \<and> \<not> tx_deleted s \<and> \<not> tx_deleted r"
    from s r consider "s \<in> set (fd_txs db)" "r \<in> set (fd_txs db)" | "s \<in> set (fd_txs db)" "r = t" | "s = t" "r \<in> set (fd_txs db)" | "s = t" "r = t"
      by (auto simp: db')
    then show "tx_id s = tx_id r"
    proof cases
      case 1
      with old[OF 1] eq show ?thesis by simp
    next
      case 2
      with check_tx_unique[OF c 2(1)] eq show ?thesis by simp
    next
      case 3
      with check_tx_unique[OF c 3(2)] eq show ?thesis by simp
    qed simp
  qed
qed

lemma write_updates_exact:
  assumes "rfold write_update us db = Inr db'" "distinct (map up_id us)" "u \<in> set us" "t \<in> set (fd_txs db)" "tx_id t = up_id u"
  shows "\<exists>n. column_text (up_notes u) = Inr n \<and> merge_row u n t \<in> set (fd_txs db')"
  using assms
proof (induction us arbitrary: db)
  case (Cons v us)
  then obtain d where d: "write_update v db = Inr d" "rfold write_update us d = Inr db'" by (auto simp: result_simps)
  from write_update_effect[OF d(1)] obtain n where n: "column_text (up_notes v) = Inr n"
    and eq: "d = update_txs (\<lambda>t. tx_id t = up_id v) (merge_row v n) db" by blast
  show ?case
  proof (cases "u = v")
    case True
    have "merge_row u n t \<in> set (fd_txs d)" using Cons.prems(4,5) True by (force simp: eq update_txs_def)
    moreover have "tx_id (merge_row u n t) \<notin> up_id ` set us" using Cons.prems(2,5) True by (auto simp: merge_row_def)
    ultimately show ?thesis using write_updates_keep[OF d(2)] n True by blast
  next
    case False
    then have "u \<in> set us" "up_id u \<noteq> up_id v" using Cons.prems(2,3) by (auto simp: rev_image_eqI)
    moreover have "t \<in> set (fd_txs d)" using Cons.prems(4,5) \<open>up_id u \<noteq> up_id v\<close> by (force simp: eq update_txs_def)
    ultimately show ?thesis using Cons.IH[OF d(2)] Cons.prems(2,5) by simp
  qed
qed simp

lemma distinct_matched:
  assumes "\<And>i j s t. i < length es \<Longrightarrow> j < length es \<Longrightarrow> i \<noteq> j \<Longrightarrow> md_match (es ! i) = Some s \<Longrightarrow> md_match (es ! j) = Some t
    \<Longrightarrow> tx_id s \<noteq> tx_id t"
  shows "distinct (matched_ids es)"
  using assms
proof (induction es)
  case (Cons e es)
  have IH: "distinct (matched_ids es)" by (rule Cons.IH) (use Cons.prems[of "Suc i" "Suc j" for i j] in auto)
  have "tx_id t \<notin> set (matched_ids es)" if "md_match e = Some t" for t
  proof
    assume "tx_id t \<in> set (matched_ids es)"
    then obtain k s where "k < length es" "md_match (es ! k) = Some s" "tx_id s = tx_id t"
      by (auto simp: set_matched_ids in_set_conv_nth)
    with Cons.prems[of 0 "Suc k" t s] that show False by simp
  qed
  with IH show ?case by (simp split: option.split)
qed simp

lemma batch_matches_differ:
  assumes "distinct (matched_ids es)" "i < length es" "j < length es" "i \<noteq> j" "md_match (es ! i) = Some s" "md_match (es ! j) = Some t"
  shows "tx_id s \<noteq> tx_id t"
  using assms
proof (induction es arbitrary: i j)
  case (Cons e es)
  have inn: "tx_id v \<in> set (matched_ids es)" if "k < length es" "md_match (es ! k) = Some v" for k v
    using that by (force simp: set_matched_ids)
  show ?case
  proof (cases i)
    case 0
    then obtain l where "j = Suc l" using Cons.prems by (cases j) auto
    with 0 Cons.prems inn[of l t] show ?thesis by auto
  next
    case (Suc k)
    show ?thesis
    proof (cases j)
      case 0
      with Suc Cons.prems inn[of k s] show ?thesis by auto
    next
      fix l assume "j = Suc l"
      with Suc Cons.prems Cons.IH[of k l] show ?thesis by (auto split: option.splits)
    qed
  qed
qed simp

lemma distinct_merges:
  "distinct (matched_ids es) \<Longrightarrow> distinct (map up_id (merges (map (decide ud) es)))
    \<and> set (map up_id (merges (map (decide ud) es))) \<subseteq> set (matched_ids es)"
proof (induction es)
  case (Cons e es)
  then show ?case
    by (cases "decide ud e")
      (auto simp: merges_def List.map_filter_simps decide_def split: option.splits if_splits dest!: merge_updates_id)
qed (simp add: merges_def List.map_filter_simps)

text \<open>A row \<open>t\<close> that a prepared row \<open>r\<close> finds by its imported id and has nothing to change on.\<close>

definition settled :: "nat \<Rightarrow> prepared \<Rightarrow> tx \<Rightarrow> bool" where
  "settled acc r t \<longleftrightarrow> tx_account t = acc \<and> \<not> tx_deleted t \<and> tx_imported_id t = pr_imported_id r
     \<and> merge_updates t r False = None"

lemma column_text_jtext: "column_text v = Inr n \<Longrightarrow> jtext n = v"
  by (cases v) (auto simp: column_text_def jtext_def)

lemma merge_settles:
  assumes "merge_updates old r False = Some u" "column_text (up_notes u) = Inr n" "pr_imported_id r = Some k" "k \<noteq> []"
    and "tx_account old = acc" "\<not> tx_deleted old" "tx_id t = tx_id old" "t = old"
  shows "settled acc r (merge_row u n t)"
proof -
  have u: "u = \<lparr>up_id = tx_id old, up_imported_id = text_or (pr_imported_id r) (tx_imported_id old),
          up_payee = or_else (tx_payee old) (rt_payee_id r), up_category = or_else (tx_category old) (rt_category_id r),
          up_imported_payee = text_or (rt_imported_payee r) (tx_imported_payee old),
          up_notes = (if truthy (jtext (tx_notes old)) then jtext (tx_notes old)
                      else if truthy (rt_notes r) then rt_notes r else JNull),
          up_cleared = (tx_cleared old \<or> truthy (rt_cleared r)), up_date = None\<rparr>"
    using assms(1) by (auto simp: merge_updates_def Let_def split: if_splits)
  have idem: "or_else (or_else x y) y = or_else x y" "text_or a (text_or a b) = text_or a b" for x y :: "nat option" and a b
    by (auto simp: or_else_def text_or_def split: option.split)
  have un: "up_notes u = (if truthy (jtext (tx_notes old)) then jtext (tx_notes old)
      else if truthy (rt_notes r) then rt_notes r else JNull)" by (simp add: u)
  note jn = column_text_jtext[OF assms(2)]
  have "(if truthy (jtext n) then jtext n else if truthy (rt_notes r) then rt_notes r else JNull) = jtext n"
    unfolding jn un by (simp split: if_split)
  moreover have "text_or (pr_imported_id r) b = Some k" for b
    using assms(3,4) by (auto simp: text_or_def non_empty_def split: list.split)
  ultimately show ?thesis
    using assms(3-8) by (auto simp: settled_def merge_updates_def Let_def merge_row_def u idem split: if_splits)
qed

lemma stored_settles:
  assumes "stored_as user acc r t" "pr_imported_id r = Some k" "k \<noteq> []" "rt_notes r \<noteq> JText []"
  shows "settled acc r t"
proof -
  have s: "tx_payee t = rt_payee_id r" "tx_category t = rt_category_id r" "column_text (rt_notes r) = Inr (tx_notes t)"
    "tx_cleared t = truthy (rt_cleared r)" "tx_imported_id t = pr_imported_id r" "tx_imported_payee t = rt_imported_payee r"
    "tx_account t = acc" "\<not> tx_deleted t"
    using assms(1) by (simp_all add: stored_as_def plain_def)
  note jn = column_text_jtext[OF s(3)]
  have "\<not> truthy (rt_notes r) \<Longrightarrow> rt_notes r = JNull"
    using s(3) assms(4) by (cases "rt_notes r") (auto simp: column_text_def)
  moreover have "or_else x x = x" "text_or a a = a" for x :: "nat option" and a
    by (auto simp: or_else_def text_or_def non_empty_def split: option.split list.split)
  ultimately show ?thesis
    using s by (auto simp: settled_def merge_updates_def Let_def jn)
qed

lemma exact_facts:
  assumes "row_exact db acc False r = Some t"
  shows "t \<in> set (fd_txs db) \<and> tx_account t = acc \<and> \<not> tx_deleted t \<and> tx_imported_id t = pr_imported_id r"
  using assms by (auto simp: row_exact_def exact_match_def split: if_splits option.splits dest!: find_Some_mem)

lemma match_facts:
  assumes "match_transactions env db acc rows strict False = Inr es" "e \<in> set es" "md_match e = Some t"
  shows "t \<in> set (fd_txs db) \<and> tx_account t = acc \<and> \<not> tx_deleted t"
proof -
  note r = match_rows_result[OF assms(1)[unfolded match_transactions_def]]
  show ?thesis
  proof (cases "row_exact db acc False (md_row e)")
    case None
    from fuzzy_candidate[OF r(5)[OF assms(2) None] r(6)[OF assms(2) None assms(3)]] show ?thesis by blast
  next
    case (Some s)
    with r(4)[OF assms(2)] assms(3) exact_facts show ?thesis by force
  qed
qed

text \<open>Distinct imported ids make the matches of a batch distinct.\<close>

lemma batch_distinct:
  assumes "match_transactions env db acc rows strict False = Inr es" "distinct (map pr_imported_id rows)" "finance_inv db"
  shows "distinct (matched_ids es)"
proof (rule distinct_matched)
  fix i j s t assume ij: "i < length es" "j < length es" "i \<noteq> j" "md_match (es ! i) = Some s" "md_match (es ! j) = Some t"
  note r = match_rows_result[OF assms(1)[unfolded match_transactions_def]]
  let ?ex = "row_exact db acc False"
  show "tx_id s \<noteq> tx_id t"
  proof (cases "?ex (md_row (es ! i)) = None \<or> ?ex (md_row (es ! j)) = None")
    case True
    with fuzzy_distinct[OF assms(1) ij] fuzzy_distinct[OF assms(1) ij(2,1) ij(3)[symmetric] ij(5,4)] show ?thesis by metis
  next
    case False
    then have "?ex (md_row (es ! i)) = Some s" "?ex (md_row (es ! j)) = Some t"
      using r(4) ij by (metis nth_mem)+
    with exact_facts have ids: "tx_imported_id s = pr_imported_id (md_row (es ! i))" "tx_imported_id t = pr_imported_id (md_row (es ! j))"
      "s \<in> set (fd_txs db)" "t \<in> set (fd_txs db)" by blast+
    have "pr_imported_id (md_row (es ! i)) \<noteq> pr_imported_id (md_row (es ! j))"
      using assms(2) ij(1-3) r(1) by (metis length_map nth_eq_iff_index_eq nth_map)
    with ids row_of_id[of "fd_txs db"] assms(3) show ?thesis by (metis finance_inv_def)
  qed
qed

lemma additions_member: "r \<in> set (additions (map (decide ud) es)) \<longleftrightarrow> (\<exists>e\<in>set es. md_match e = None \<and> md_row e = r)"
  by (induction es) (auto simp: additions_def List.map_filter_simps decide_def split: option.splits if_splits)

lemma reconciled_preview:
  "e \<in> set es \<Longrightarrow> md_match e = Some old \<Longrightarrow> tx_reconciled old \<Longrightarrow>
    Ignored_Reconciled (md_row e) \<in> set (map decision_preview (map (decide ud) es))"
  by (auto simp: decide_def intro!: image_eqI[of _ _ e])

text \<open>After a reconciliation every row with an imported id is settled.\<close>

lemma reconcile_settles:
  assumes "reconcile env user acc rows strict False False False db = Inr (res, db')" "finance_inv db" "owns_account db user acc"
    and "imported_unique db" "distinct (map pr_imported_id rows)"
    and rows: "\<And>r. r \<in> set rows \<Longrightarrow> (\<exists>k. pr_imported_id r = Some k \<and> k \<noteq> []) \<and> rt_notes r \<noteq> JText []"
    and free: "\<And>r. Ignored_Reconciled r \<notin> set (ir_preview res)"
  shows "finance_inv db' \<and> imported_unique db' \<and> (\<forall>r\<in>set rows. \<exists>t\<in>set (fd_txs db'). settled acc r t)"
proof -
  from assms(1) obtain es db1 where m: "match_transactions env db acc rows strict False = Inr es"
    and u: "rfold write_update (merges (map (decide False) es)) db = Inr db1"
    and a: "rfold (write_addition env user acc) (enumerate 0 (additions (map (decide False) es))) db1 = Inr db'"
    and prev: "ir_preview res = map decision_preview (map (decide False) es)"
    by (auto simp: reconcile_def Let_def result_simps)
  have w: "finance_inv db1 \<and> same_frame db db1" using write_updates[OF u assms(2)] by blast
  have own1: "owns_account db1 user acc" using w assms(3) by (simp add: same_frame_def owns_account_def)
  have uni1: "finance_inv db1 \<and> imported_unique db1"
    using u by (rule rfold_invariant) (use assms(2,4) write_update_inv write_update_unique in blast)+
  have uni: "imported_unique db'"
    using a by (rule rfold_invariant) (use uni1 write_addition_unique in blast)+
  from write_additions[OF a conjunct1[OF w] own1] obtain new where new: "fd_txs db' = fd_txs db1 @ new" "finance_inv db'"
    "list_all2 (\<lambda>kr t. stored_as user acc (snd kr) t) (enumerate 0 (additions (map (decide False) es))) new" by blast
  have md: "map md_row es = rows" by (rule match_rows_result(1)[OF m[unfolded match_transactions_def]])
  note dist = distinct_merges[OF batch_distinct[OF m assms(5,2)], of False]
  have "\<exists>t\<in>set (fd_txs db'). settled acc r t" if r: "r \<in> set rows" for r
  proof -
    from r md obtain e where e: "e \<in> set es" "md_row e = r" by (metis imageE list.set_map)
    from rows[OF r] obtain k where k: "pr_imported_id r = Some k" "k \<noteq> []" "rt_notes r \<noteq> JText []" by blast
    show ?thesis
    proof (cases "md_match e")
      case None
      then have "r \<in> set (additions (map (decide False) es))" using e by (auto simp: additions_member)
      then obtain i where i: "i < length (additions (map (decide False) es))" "additions (map (decide False) es) ! i = r"
        by (auto simp: in_set_conv_nth)
      have "stored_as user acc r (new ! i)" "new ! i \<in> set new"
        using new(3) i by (auto simp: list_all2_conv_all_nth nth_enumerate_eq)
      with stored_settles[OF _ k] new(1) show ?thesis by auto
    next
      case (Some old)
      note old = match_facts[OF m e(1) Some]
      have nr: "\<not> tx_reconciled old" using free reconciled_preview[OF e(1) Some, of False] prev by metis
      show ?thesis
      proof (cases "merge_updates old r False")
        case None
        have "tx_imported_id old = pr_imported_id r"
          using None k by (auto simp: merge_updates_def Let_def text_or_def non_empty_def split: if_splits list.splits)
        moreover have "tx_id old \<notin> up_id ` set (merges (map (decide False) es))"
        proof
          assume "tx_id old \<in> up_id ` set (merges (map (decide False) es))"
          then obtain v where v: "v \<in> set (merges (map (decide False) es))" "up_id v = tx_id old" by auto
          from v(1)[unfolded merges_member] obtain f x where f: "f \<in> set es" "md_match f = Some x"
            "merge_updates x (md_row f) False = Some v" by blast
          have x: "tx_id x = tx_id old" using merge_updates_id[OF f(3)] v(2) by simp
          have "f \<noteq> e" using f(2,3) None Some e(2) by auto
          then obtain i j where "i < length es" "j < length es" "es ! i = e" "es ! j = f" "i \<noteq> j" using e(1) f(1) by (metis in_set_conv_nth)
          with batch_matches_differ[OF batch_distinct[OF m assms(5,2)]] f(2) x Some show False by metis
        qed
        ultimately have "old \<in> set (fd_txs db1)" "settled acc r old"
          using write_updates_keep[OF u] old None by (auto simp: settled_def)
        with new(1) show ?thesis by auto
      next
        fix v assume v: "merge_updates old r False = Some v"
        then have "v \<in> set (merges (map (decide False) es))" using e Some nr by (auto simp: merges_member)
        from write_updates_exact[OF u conjunct1[OF dist] this] old merge_updates_id[OF v]
        obtain n where n: "column_text (up_notes v) = Inr n" "merge_row v n old \<in> set (fd_txs db1)" by metis
        have "settled acc r (merge_row v n old)" by (rule merge_settles[OF v n(1) k(1,2)]) (use old in auto)
        with n(2) new(1) show ?thesis by auto
      qed
    qed
  qed
  with new(2) uni show ?thesis by blast
qed

lemma claim_pass_matched: "(\<And>e. e \<in> set es \<Longrightarrow> md_match e \<noteq> None) \<Longrightarrow> claim_pass P es used = (es, used)"
proof (induction es)
  case (Cons e es)
  then have "md_match e \<noteq> None" "claim_pass P es used = (es, used)" by auto
  then show ?case by auto
qed simp

lemma match_rows_all_exact:
  assumes "\<And>r. r \<in> set rows \<Longrightarrow> find_exact r = Some (g r)"
  shows "match_rows find_exact dataset payee rows
    = Inr (map (\<lambda>r. \<lparr>md_row = r, md_match = Some (g r), md_fuzzy = []\<rparr>) rows)"
proof -
  have "rmap (first_entry find_exact dataset) rows = Inr (map (\<lambda>r. \<lparr>md_row = r, md_match = Some (g r), md_fuzzy = []\<rparr>) rows)"
    using assms by (induction rows) (auto simp: first_entry_def)
  moreover have "claim_pass P (map (\<lambda>r. \<lparr>md_row = r, md_match = Some (g r), md_fuzzy = []\<rparr>) rows) used
    = (map (\<lambda>r. \<lparr>md_row = r, md_match = Some (g r), md_fuzzy = []\<rparr>) rows, used)" for P used
    by (rule claim_pass_matched) auto
  ultimately show ?thesis by (simp add: match_rows_def)
qed

lemma settled_exact:
  assumes "finance_inv db" "imported_unique db" "t \<in> set (fd_txs db)" "settled acc r t" "pr_imported_id r = Some k" "k \<noteq> []"
  shows "row_exact db acc False r = Some t"
proof -
  let ?P = "\<lambda>t. tx_account t = acc \<and> tx_imported_id t = Some k \<and> (False \<or> \<not> tx_deleted t)"
  have Pt: "?P t" using assms(4,5) by (simp add: settled_def)
  obtain s where s: "find ?P (fd_txs db) = Some s"
    using assms(3) Pt by (cases "find ?P (fd_txs db)") (auto simp: find_None_all)
  have "tx_id s = tx_id t"
    using assms(2)[unfolded imported_unique_def, rule_format, of s t] find_Some_mem[OF s] assms(3) Pt by simp
  then have "s = t" using row_of_id[of "fd_txs db"] find_Some_mem[OF s] assms(1,3) by (metis finance_inv_def)
  with s assms(5,6) show ?thesis by (simp add: row_exact_def exact_match_def non_empty_def split: list.split)
qed

lemma settled_keeps:
  "settled acc r t \<Longrightarrow> decide False \<lparr>md_row = r, md_match = Some t, md_fuzzy = []\<rparr> \<in> {Keep (Ignored_Reconciled r), Keep (Ignored_Unchanged r)}"
  by (simp add: decide_def settled_def)

lemma no_writes:
  "(\<And>d. d \<in> set ds \<Longrightarrow> \<exists>p. d = Keep p) \<Longrightarrow> merges ds = [] \<and> additions ds = []"
  by (induction ds) (force simp: merges_def additions_def List.map_filter_simps)+

text \<open>Importing the same batch twice adds and updates nothing the second time and leaves the ledger
  as it is, when its rows carry distinct imported ids and none matched a reconciled transaction.\<close>

theorem reimport_changes_nothing:
  assumes "reconcile env user acc rows True False False False db = Inr (res, db')" "finance_inv db" "owns_account db user acc"
    and "imported_unique db" "distinct (map pr_imported_id rows)"
    and "\<And>r. r \<in> set rows \<Longrightarrow> (\<exists>k. pr_imported_id r = Some k \<and> k \<noteq> []) \<and> rt_notes r \<noteq> JText []"
    and "\<And>r. Ignored_Reconciled r \<notin> set (ir_preview res)"
  shows "\<exists>res2. reconcile env user acc rows True False False False db' = Inr (res2, db')
    \<and> ir_added res2 = [] \<and> ir_updated res2 = []"
proof -
  note s = reconcile_settles[OF assms]
  then obtain g where g: "\<And>r. r \<in> set rows \<Longrightarrow> g r \<in> set (fd_txs db') \<and> settled acc r (g r)" by metis
  define es where "es = map (\<lambda>r. \<lparr>md_row = r, md_match = Some (g r), md_fuzzy = []\<rparr>) rows"
  have "row_exact db' acc False r = Some (g r)" if "r \<in> set rows" for r
    using settled_exact[of db' "g r" acc r] s g[OF that] assms(6)[OF that] by blast
  then have m: "match_transactions env db' acc rows True False = Inr es"
    unfolding match_transactions_def es_def by (rule match_rows_all_exact)
  have "\<exists>p. d = Keep p" if "d \<in> set (map (decide False) es)" for d
    using that settled_keeps g by (fastforce simp: es_def)
  then have n: "merges (map (decide False) es) = [] \<and> additions (map (decide False) es) = []" by (rule no_writes)
  then show ?thesis by (simp add: reconcile_def m Let_def)
qed

lemma sample_reconcile:
  "reconcile sample_days 1 10 [sample_prepared (Some ''B1'')] True False False False sample_finance
    = Inr (\<lparr>ir_added = [], ir_updated = [20], ir_preview = [Updates_Existing (sample_prepared (Some ''B1'')) 20]\<rparr>,
        snd (projr (reconcile sample_days 1 10 [sample_prepared (Some ''B1'')] True False False False sample_finance)))"
  by code_simp

lemma reimport_changes_nothing_witness:
  "\<exists>res2. reconcile sample_days 1 10 [sample_prepared (Some ''B1'')] True False False False
      (snd (projr (reconcile sample_days 1 10 [sample_prepared (Some ''B1'')] True False False False sample_finance)))
    = Inr (res2, snd (projr (reconcile sample_days 1 10 [sample_prepared (Some ''B1'')] True False False False sample_finance)))
    \<and> ir_added res2 = [] \<and> ir_updated res2 = []"
proof (rule reimport_changes_nothing[OF sample_reconcile sample_finance_inv])
  show "owns_account sample_finance 1 10" by (simp add: owns_account_def sample_finance_def sample_account_def)
  show "imported_unique sample_finance" by (simp add: imported_unique_def sample_finance_def new_tx_def)
qed (auto simp: sample_prepared_def prepared_of_def jtext_def)

section \<open>Two defects\<close>

text \<open>A payee that carries the name of an account, as an import creates it.\<close>

definition sample_named :: finance_db where
  "sample_named = sample_finance\<lparr>fd_payees := fd_payees sample_finance
     @ [\<lparr>pay_id = 14, pay_user = 1, pay_name = ''main'', pay_transfer = None, pay_tombstone = False\<rparr>]\<rparr>"

text \<open>A transfer cannot be entered while a plain payee carries the name of the account it leaves:
  writing the mirror side inserts a second live payee of that name, which the table refuses, and the
  whole entry fails.\<close>

theorem transfer_payee_clash:
  "create_manual_transaction sample_days 1 10 739005 (-700) (Some ''Transfer: Savings'') None None True [] sample_named
    = Inl (Unique_Violation ''finance_payee'')"
  by code_simp

text \<open>Previewing an import writes to the database: the payee of the previewed row is created, although
  no transaction is.\<close>

theorem preview_creates_payees:
  "\<exists>res db'. import_transactions sample_days 1 10 [sample_raw] True sample_finance = Inr (res, db')
    \<and> fd_txs db' = fd_txs sample_finance \<and> length (fd_payees db') = length (fd_payees sample_finance) + 1"
proof -
  have "case import_transactions sample_days 1 10 [sample_raw] True sample_finance of Inl _ \<Rightarrow> False
    | Inr (res, db') \<Rightarrow> fd_txs db' = fd_txs sample_finance \<and> length (fd_payees db') = length (fd_payees sample_finance) + 1"
    by code_simp
  then show ?thesis by (auto split: sum.splits prod.splits)
qed

end
