(* ===== verification/Budget.thy ===== *)
theory Budget
  imports Finance_Laws
begin

text \<open>
  The envelope budget of \<open>src/omni/finance/budget.py\<close>: the queries a month is computed from, the
  chain of months that carries balances and unassigned cash forward, \<open>month_view\<close> and the goal
  figures. A dictionary the code reads with \<open>.get(key, 0)\<close> is the function of the same value. The
  chain is a loop that need not end, so it is a partial function and \<open>None\<close> is a call that never
  returns. Quotients are exact where the code divides to a float. The lemmas show that the chain
  always ends, that the view of reset and rollover envelopes accounts for all on-budget cash, and what hold mode does.
\<close>

section \<open>Queries\<close>

definition base_currency :: "finance_db \<Rightarrow> nat \<Rightarrow> string" where
  "base_currency db user =
     upper (case map_of (fd_currency db) user of None \<Rightarrow> ''USD'' | Some c \<Rightarrow> if c = [] then ''USD'' else c)"

definition set_base_currency :: "nat \<Rightarrow> string \<Rightarrow> finance_db \<Rightarrow> finance_db finance" where
  "set_base_currency user code db =
     (let code = upper (strip code) in
      rbind (ensure (valid_currency code) (Finance_Error ''currency must be a 3-letter code'')) (\<lambda>_.
      Inr (db\<lparr>fd_currency := AList.update user code (fd_currency db)\<rparr>)))"

definition on_budget :: "finance_db \<Rightarrow> string \<Rightarrow> tx \<Rightarrow> bool" where
  "on_budget db base t =
     (case find_account db (tx_account t) of None \<Rightarrow> False
      | Some a \<Rightarrow> \<not> acc_offbudget a \<and> acc_currency a = base)"

definition month_rows :: "finance_db \<Rightarrow> nat \<Rightarrow> date \<Rightarrow> date \<Rightarrow> tx list" where
  "month_rows db user lo hi =
     filter (\<lambda>t. tx_user t = user \<and> live_leaf t \<and> on_budget db (base_currency db user) t \<and> lo \<le> tx_date t \<and> tx_date t < hi) (fd_txs db)"

definition category_activity :: "finance_db \<Rightarrow> nat \<Rightarrow> date \<Rightarrow> date \<Rightarrow> nat \<Rightarrow> int" where
  "category_activity db user lo hi c =
     sum_list (map tx_amount (filter (\<lambda>t. tx_category t = Some c) (month_rows db user lo hi)))"

definition budget_of :: "finance_db \<Rightarrow> nat \<Rightarrow> date \<Rightarrow> nat \<Rightarrow> int \<times> rollover_mode" where
  "budget_of db user month c =
     (case find (budget_key user month c) (fd_budgets db) of
        None \<Rightarrow> (0, Rollover) | Some b \<Rightarrow> (bud_amount b, bud_mode b))"

definition is_income_tx :: "finance_db \<Rightarrow> tx \<Rightarrow> bool" where
  "is_income_tx db t =
     (case tx_category t of None \<Rightarrow> False
      | Some c \<Rightarrow> (case find_category db c of None \<Rightarrow> False | Some k \<Rightarrow> cat_is_income k))"

definition income_total :: "finance_db \<Rightarrow> nat \<Rightarrow> date \<Rightarrow> date \<Rightarrow> int" where
  "income_total db user lo hi = sum_list (map tx_amount (filter (is_income_tx db) (month_rows db user lo hi)))"

text \<open>Every date the history starts from: live rows of on-budget accounts, and assigned months.\<close>

definition history_days :: "finance_db \<Rightarrow> nat \<Rightarrow> date list" where
  "history_days db user =
     map tx_date (filter (\<lambda>t. tx_user t = user \<and> \<not> tx_deleted t \<and>
       (case find_account db (tx_account t) of None \<Rightarrow> False | Some a \<Rightarrow> \<not> acc_offbudget a)) (fd_txs db))
     @ map bud_month (filter (\<lambda>b. bud_user b = user) (fd_budgets db))"

definition first_activity_month :: "finance_db \<Rightarrow> nat \<Rightarrow> date option" where
  "first_activity_month db user =
     (case history_days db user of [] \<Rightarrow> None | d # ds \<Rightarrow> Some (first_of_month (fold min ds d)))"

section \<open>The chain of months\<close>

text \<open>One category of one past month: balances of the envelopes and unassigned cash.\<close>

definition carried :: "rollover_mode \<Rightarrow> int \<Rightarrow> int \<Rightarrow> int" where
  "carried mode opens ends = (case mode of Reset \<Rightarrow> 0 | Hold \<Rightarrow> opens | Rollover \<Rightarrow> ends)"

definition chain_category :: "(nat \<Rightarrow> int \<times> rollover_mode) \<Rightarrow> (nat \<Rightarrow> int) \<Rightarrow> category
    \<Rightarrow> (nat \<times> int) list \<times> int \<Rightarrow> (nat \<times> int) list \<times> int" where
  "chain_category budgets activity cat st =
     (let (balance, carry) = st; cid = cat_id cat in
      if cat_is_income cat then (balance, carry)
      else let (budgeted, mode) = budgets cid;
               opens = dict_get balance cid 0;
               ends = opens + budgeted + activity cid;
               kept = carried mode opens ends
           in (AList.update cid kept balance, carry - budgeted + (ends - kept)))"

definition chain_step :: "finance_db \<Rightarrow> nat \<Rightarrow> category list \<Rightarrow> date \<Rightarrow> (nat \<times> int) list \<times> int \<Rightarrow> (nat \<times> int) list \<times> int" where
  "chain_step db user cats m st =
     fold (chain_category (budget_of db user m) (category_activity db user m (next_month m))) cats
       (fst st, snd st + income_total db user m (next_month m))"

partial_function (option) rollover_chain :: "finance_db \<Rightarrow> nat \<Rightarrow> category list \<Rightarrow> date \<Rightarrow> date
    \<Rightarrow> (nat \<times> int) list \<times> int \<Rightarrow> ((nat \<times> int) list \<times> int) option" where
  "rollover_chain db user cats month m st =
     (if m < month then rollover_chain db user cats month (next_month m) (chain_step db user cats m st) else Some st)"

declare rollover_chain.simps [code]

section \<open>The month view\<close>

datatype goal =
    Monthly_Goal int "date option" int "rat option"
  | Savings_Goal string int "date option" int int rat "rat option"

definition goal_payload :: "category \<Rightarrow> int \<Rightarrow> int \<Rightarrow> date \<Rightarrow> goal option" where
  "goal_payload cat budgeted available month =
     (case (cat_goal_type cat, cat_goal_amount cat) of
        (Some kind, Some target) \<Rightarrow>
          if kind = ''monthly'' then
            Some (Monthly_Goal target (cat_goal_date cat) (max (target - budgeted) 0)
              (if target = 0 then None else Some (of_int budgeted / of_int target)))
          else
            (let months_left = (case cat_goal_date cat of None \<Rightarrow> 1
                | Some d \<Rightarrow> max ((year_of d - year_of month) * 12 + (month_of_year d - month_of_year month) + 1) 1)
             in Some (Savings_Goal kind target (cat_goal_date cat) available months_left
                  (of_int (max (target - available) 0) / of_int months_left)
                  (if target = 0 then None else Some (of_int available / of_int target))))
      | _ \<Rightarrow> None)"

record budget_line =
  bl_id :: nat
  bl_name :: string
  bl_is_income :: bool
  bl_budgeted :: int
  bl_activity :: int
  bl_available :: int
  bl_rollover :: int
  bl_mode :: "rollover_mode option"
  bl_goal :: "goal option"

record month_budget =
  mb_month :: date
  mb_currency :: string
  mb_income :: int
  mb_budgeted :: int
  mb_available :: int
  mb_lines :: "budget_line list"

definition budget_line_of :: "finance_db \<Rightarrow> nat \<Rightarrow> date \<Rightarrow> (nat \<times> int) list \<Rightarrow> category \<Rightarrow> budget_line" where
  "budget_line_of db user month rollover cat =
     (let cid = cat_id cat; activity = category_activity db user month (next_month month) cid in
      if cat_is_income cat then
        \<lparr>bl_id = cid, bl_name = cat_name cat, bl_is_income = True, bl_budgeted = 0, bl_activity = activity,
         bl_available = 0, bl_rollover = 0, bl_mode = None, bl_goal = None\<rparr>
      else
        let (budgeted, mode) = budget_of db user month cid;
            available = budgeted + dict_get rollover cid 0 + activity
        in \<lparr>bl_id = cid, bl_name = cat_name cat, bl_is_income = False, bl_budgeted = budgeted, bl_activity = activity,
            bl_available = available, bl_rollover = dict_get rollover cid 0, bl_mode = Some mode,
            bl_goal = goal_payload cat budgeted available month\<rparr>)"

definition chain_result :: "finance_db \<Rightarrow> nat \<Rightarrow> date \<Rightarrow> ((nat \<times> int) list \<times> int) option" where
  "chain_result db user month =
     (case first_activity_month db user of
        None \<Rightarrow> Some ([], 0)
      | Some first \<Rightarrow>
          if first < month then rollover_chain db user (list_categories db user) month first ([], 0) else Some ([], 0))"

definition month_view :: "finance_db \<Rightarrow> nat \<Rightarrow> date \<Rightarrow> month_budget option" where
  "month_view db user month =
     (case chain_result db user month of
        None \<Rightarrow> None
      | Some (balance, carry) \<Rightarrow>
          (let rollover = filter (\<lambda>kv. snd kv \<noteq> 0) balance;
               lines = map (budget_line_of db user month rollover) (list_categories db user);
               income = income_total db user month (next_month month);
               budgeted = sum_list (map bl_budgeted (filter (\<lambda>l. \<not> bl_is_income l) lines))
           in Some \<lparr>mb_month = month, mb_currency = base_currency db user, mb_income = income, mb_budgeted = budgeted,
                mb_available = carry + income - budgeted, mb_lines = lines\<rparr>))"

section \<open>The chain ends\<close>

lemma next_month_step: "next_month (month_start j) = month_start (j + 1)"
  by (simp add: next_month_start)

lemma chain_returns: "\<exists>r. rollover_chain db user cats month m st = Some r"
proof (induction "nat (month - m)" arbitrary: m st rule: less_induct)
  case less
  have "m < next_month m" using in_month(2)[of m] by (simp add: next_month_start)
  with less show ?case by (subst rollover_chain.simps) simp
qed

section \<open>Cash is conserved\<close>

definition spend_categories :: "finance_db \<Rightarrow> nat \<Rightarrow> category list" where
  "spend_categories db user = filter (\<lambda>c. \<not> cat_is_income c) (list_categories db user)"

definition envelope_sum :: "category list \<Rightarrow> (nat \<times> int) list \<Rightarrow> int" where
  "envelope_sum cs balance = sum_list (map (\<lambda>c. dict_get balance (cat_id c) 0) cs)"

lemma envelope_sum_Cons: "envelope_sum (c # cs) b = dict_get b (cat_id c) 0 + envelope_sum cs b"
  by (simp add: envelope_sum_def)

lemma envelope_sum_update:
  assumes "distinct (map cat_id cs)" "c \<in> set cs"
  shows "envelope_sum cs (AList.update (cat_id c) v b) = envelope_sum cs b - dict_get b (cat_id c) 0 + v"
  using assms
proof (induction cs)
  case (Cons a cs)
  show ?case
  proof (cases "c = a")
    case True
    have "map (\<lambda>x. dict_get (AList.update (cat_id c) v b) (cat_id x) 0) cs = map (\<lambda>x. dict_get b (cat_id x) 0) cs"
    proof (intro map_cong refl)
      fix x assume "x \<in> set cs"
      with Cons.prems True have "cat_id x \<noteq> cat_id c" by (metis distinct.simps(2) image_eqI list.set_map list.simps(9))
      then show "dict_get (AList.update (cat_id c) v b) (cat_id x) 0 = dict_get b (cat_id x) 0" by (simp add: dict_get_update)
    qed
    then have "envelope_sum cs (AList.update (cat_id c) v b) = envelope_sum cs b" by (simp only: envelope_sum_def)
    with True show ?thesis by (simp add: envelope_sum_Cons dict_get_update)
  next
    case False
    with Cons have "cat_id a \<noteq> cat_id c" by auto
    with Cons False show ?thesis by (simp add: envelope_sum_Cons dict_get_update)
  qed
qed simp

lemma chain_category_conserves:
  assumes "chain_category budgets activity cat (b, carry) = (b', carry')" "distinct (map cat_id cs)"
    and "\<not> cat_is_income cat \<Longrightarrow> cat \<in> set cs"
  shows "carry' + envelope_sum cs b' = carry + envelope_sum cs b + (if cat_is_income cat then 0 else activity (cat_id cat))"
proof (cases "cat_is_income cat")
  case False
  with assms(1) have b': "b' = AList.update (cat_id cat) (carried (snd (budgets (cat_id cat))) (dict_get b (cat_id cat) 0)
      (dict_get b (cat_id cat) 0 + fst (budgets (cat_id cat)) + activity (cat_id cat))) b"
    and carry': "carry' = carry - fst (budgets (cat_id cat)) + (dict_get b (cat_id cat) 0 + fst (budgets (cat_id cat))
      + activity (cat_id cat) - carried (snd (budgets (cat_id cat))) (dict_get b (cat_id cat) 0)
      (dict_get b (cat_id cat) 0 + fst (budgets (cat_id cat)) + activity (cat_id cat)))"
    by (auto simp: chain_category_def Let_def split: prod.splits)
  show ?thesis
    unfolding b' envelope_sum_update[OF assms(2) assms(3)[OF False]] carry' using False by simp
qed (use assms(1) in \<open>simp add: chain_category_def\<close>)

lemma chain_fold_conserves:
  assumes "fold (chain_category budgets activity) cats (b, carry) = (b', carry')" "distinct (map cat_id cs)"
    and "\<And>c. c \<in> set cats \<Longrightarrow> \<not> cat_is_income c \<Longrightarrow> c \<in> set cs"
  shows "carry' + envelope_sum cs b' = carry + envelope_sum cs b
    + sum_list (map (\<lambda>c. activity (cat_id c)) (filter (\<lambda>c. \<not> cat_is_income c) cats))"
  using assms(1,3)
proof (induction cats arbitrary: b carry)
  case (Cons cat cats)
  obtain b1 c1 where 1: "chain_category budgets activity cat (b, carry) = (b1, c1)" by fastforce
  have "carry' + envelope_sum cs b' = c1 + envelope_sum cs b1
      + sum_list (map (\<lambda>c. activity (cat_id c)) (filter (\<lambda>c. \<not> cat_is_income c) cats))"
    using Cons.prems 1 by (intro Cons.IH) auto
  moreover have "c1 + envelope_sum cs b1 = carry + envelope_sum cs b + (if cat_is_income cat then 0 else activity (cat_id cat))"
    using Cons.prems(2)[of cat] by (intro chain_category_conserves[OF 1 assms(2)]) simp
  ultimately show ?case by simp
qed simp

lemma chain_fold_distinct:
  "distinct (map fst b) \<Longrightarrow> distinct (map fst (fst (fold (chain_category budgets activity) cats (b, carry))))"
proof (induction cats arbitrary: b carry)
  case (Cons cat cats)
  obtain b1 c1 where 1: "chain_category budgets activity cat (b, carry) = (b1, c1)" by fastforce
  have "distinct (map fst b1)"
    using 1 Cons.prems by (auto simp: chain_category_def Let_def distinct_update split: if_splits prod.splits)
  from Cons.IH[OF this] show ?case by (simp add: 1)
qed simp

text \<open>What the rows of an interval put into envelopes or into the pool.\<close>

definition counted :: "finance_db \<Rightarrow> nat \<Rightarrow> tx \<Rightarrow> bool" where
  "counted db user t \<longleftrightarrow>
     (case tx_category t of None \<Rightarrow> False
      | Some c \<Rightarrow> (case find_category db c of None \<Rightarrow> False
          | Some k \<Rightarrow> cat_is_income k \<or> (cat_user k = user \<and> \<not> cat_tombstone k)))"

definition counted_total :: "finance_db \<Rightarrow> nat \<Rightarrow> date \<Rightarrow> date \<Rightarrow> int" where
  "counted_total db user lo hi = sum_list (map tx_amount (filter (counted db user) (month_rows db user lo hi)))"

lemma counted_total_split:
  assumes "lo \<le> mid" "mid \<le> hi"
  shows "counted_total db user lo hi = counted_total db user lo mid + counted_total db user mid hi"
proof -
  let ?P = "\<lambda>t. tx_user t = user \<and> live_leaf t \<and> on_budget db (base_currency db user) t \<and> counted db user t"
  have f: "filter (counted db user) (month_rows db user a b) = filter (\<lambda>t. ?P t \<and> a \<le> tx_date t \<and> tx_date t < b) (fd_txs db)" for a b
    by (auto simp: month_rows_def intro: filter_cong)
  have "filter (\<lambda>t. ?P t \<and> lo \<le> tx_date t \<and> tx_date t < hi) (fd_txs db)
    = filter (\<lambda>t. (?P t \<and> lo \<le> tx_date t \<and> tx_date t < mid) \<or> (?P t \<and> mid \<le> tx_date t \<and> tx_date t < hi)) (fd_txs db)"
    using assms by (intro filter_cong) auto
  then show ?thesis
    unfolding counted_total_def f by (simp only:) (rule sum_list_filter_disj, auto)
qed

lemma list_categories_distinct: "tables_ok db \<Longrightarrow> distinct (map cat_id (list_categories db user))"
  by (simp add: list_categories_def live_categories_def tables_ok_def distinct_map_filter distinct_map inj_on_def)

lemma find_category_member:
  "tables_ok db \<Longrightarrow> find_category db i = Some k \<longleftrightarrow> k \<in> set (fd_categories db) \<and> cat_id k = i"
  by (simp add: find_category_def find_distinct_map tables_ok_def)

lemma spend_member:
  "k \<in> set (spend_categories db user) \<longleftrightarrow> k \<in> set (fd_categories db) \<and> cat_user k = user \<and> \<not> cat_tombstone k \<and> \<not> cat_is_income k"
  by (auto simp: spend_categories_def list_categories_def live_categories_def)

lemma counted_cases:
  assumes "tables_ok db"
  shows "counted db user t \<longleftrightarrow> is_income_tx db t \<or> tx_category t \<in> Some ` cat_id ` set (spend_categories db user)"
    and "\<not> (is_income_tx db t \<and> tx_category t \<in> Some ` cat_id ` set (spend_categories db user))"
proof -
  have k: "tx_category t \<in> Some ` cat_id ` set (spend_categories db user) \<longleftrightarrow>
    (\<exists>c k. tx_category t = Some c \<and> find_category db c = Some k \<and> cat_user k = user \<and> \<not> cat_tombstone k \<and> \<not> cat_is_income k)"
    by (auto simp: find_category_member[OF assms] spend_member)
  show "counted db user t \<longleftrightarrow> is_income_tx db t \<or> tx_category t \<in> Some ` cat_id ` set (spend_categories db user)"
    unfolding k by (auto simp: counted_def is_income_tx_def split: option.splits)
  show "\<not> (is_income_tx db t \<and> tx_category t \<in> Some ` cat_id ` set (spend_categories db user))"
    unfolding k by (auto simp: is_income_tx_def split: option.splits)
qed

lemma counted_total_parts:
  assumes "tables_ok db"
  shows "counted_total db user lo hi = income_total db user lo hi
    + sum_list (map (\<lambda>c. category_activity db user lo hi (cat_id c)) (spend_categories db user))"
proof -
  let ?rows = "month_rows db user lo hi"
  let ?cs = "spend_categories db user"
  have dist: "distinct (map cat_id ?cs)"
    unfolding spend_categories_def using list_categories_distinct[OF assms] by (rule distinct_map_filter)
  have "sum_list (map (\<lambda>c. category_activity db user lo hi (cat_id c)) ?cs)
    = sum_list (map (\<lambda>c. sum_list (map (\<lambda>t. if tx_category t = Some (cat_id c) then tx_amount t else 0) ?rows)) ?cs)"
    by (simp add: category_activity_def sum_list_map_if_eq)
  also have "\<dots> = sum_list (map (\<lambda>t. sum_list (map (\<lambda>c. if tx_category t = Some (cat_id c) then tx_amount t else 0) ?cs)) ?rows)"
    by (rule sum_list_swap)
  also have "\<dots> = sum_list (map (\<lambda>t. if tx_category t \<in> Some ` cat_id ` set ?cs then tx_amount t else 0) ?rows)"
  proof (intro arg_cong[where f = sum_list] map_cong refl)
    fix t
    have "distinct (map (\<lambda>c. Some (cat_id c)) ?cs)" using dist by (simp add: distinct_map inj_on_def)
    from sum_list_indicator_distinct[OF this, of "tx_category t" "tx_amount t"]
    show "sum_list (map (\<lambda>c. if tx_category t = Some (cat_id c) then tx_amount t else 0) ?cs)
      = (if tx_category t \<in> Some ` cat_id ` set ?cs then tx_amount t else 0)"
      by (simp add: comp_def image_image)
  qed
  also have "\<dots> = sum_list (map tx_amount (filter (\<lambda>t. tx_category t \<in> Some ` cat_id ` set ?cs) ?rows))"
    by (rule sum_list_map_if_eq)
  finally have a: "sum_list (map (\<lambda>c. category_activity db user lo hi (cat_id c)) ?cs)
    = sum_list (map tx_amount (filter (\<lambda>t. tx_category t \<in> Some ` cat_id ` set ?cs) ?rows))" .
  have "filter (counted db user) ?rows = filter (\<lambda>t. is_income_tx db t \<or> tx_category t \<in> Some ` cat_id ` set ?cs) ?rows"
    by (intro filter_cong refl counted_cases(1)[OF assms])
  then show ?thesis
    unfolding counted_total_def income_total_def a
    by (simp only:) (rule sum_list_filter_disj, use counted_cases(2)[OF assms] in blast)
qed

text \<open>A whole past month moves balances and pool together by what its rows put in.\<close>

lemma chain_step_conserves:
  assumes "tables_ok db" "chain_step db user (list_categories db user) m (b, carry) = (b', carry')"
  shows "carry' + envelope_sum (spend_categories db user) b'
    = carry + envelope_sum (spend_categories db user) b + counted_total db user m (next_month m)"
proof -
  have "distinct (map cat_id (spend_categories db user))"
    unfolding spend_categories_def using list_categories_distinct[OF assms(1)] by (rule distinct_map_filter)
  from chain_fold_conserves[OF assms(2)[unfolded chain_step_def fst_conv snd_conv] this]
  show ?thesis by (simp add: counted_total_parts[OF assms(1)] spend_categories_def)
qed

lemma rollover_chain_conserves:
  assumes "tables_ok db" "j \<le> k" "distinct (map fst b)"
    and "rollover_chain db user (list_categories db user) (month_start k) (month_start j) (b, carry) = Some (b', carry')"
  shows "carry' + envelope_sum (spend_categories db user) b'
    = carry + envelope_sum (spend_categories db user) b + counted_total db user (month_start j) (month_start k)
    \<and> distinct (map fst b')"
  using assms(2-)
proof (induction "nat (k - j)" arbitrary: j b carry rule: less_induct)
  case less
  show ?case
  proof (cases "j = k")
    case True
    with less.prems(3) have "b' = b" "carry' = carry" by (simp_all add: rollover_chain.simps[of _ _ _ "month_start k"])
    moreover have "counted_total db user (month_start k) (month_start k) = 0"
      using counted_total_split[of "month_start k" "month_start k" "month_start k"] by simp
    ultimately show ?thesis using True less.prems(2) by simp
  next
    case False
    with less.prems(1) have jk: "j < k" by simp
    obtain b1 c1 where 1: "chain_step db user (list_categories db user) (month_start j) (b, carry) = (b1, c1)" by fastforce
    have r: "rollover_chain db user (list_categories db user) (month_start k) (month_start (j + 1)) (b1, c1) = Some (b', carry')"
      using less.prems(3) jk 1 by (subst (asm) rollover_chain.simps) (simp add: month_start_less_iff next_month_step)
    have d: "distinct (map fst b1)"
      using chain_fold_distinct[OF less.prems(2)] 1 unfolding chain_step_def by (metis fst_conv)
    have "carry' + envelope_sum (spend_categories db user) b'
      = c1 + envelope_sum (spend_categories db user) b1 + counted_total db user (month_start (j + 1)) (month_start k)
      \<and> distinct (map fst b')"
      by (rule less.hyps[OF _ _ d r]) (use jk in auto)
    moreover have "c1 + envelope_sum (spend_categories db user) b1
      = carry + envelope_sum (spend_categories db user) b + counted_total db user (month_start j) (month_start (j + 1))"
      using chain_step_conserves[OF assms(1) 1] by (simp add: next_month_step)
    moreover have "counted_total db user (month_start j) (month_start k)
      = counted_total db user (month_start j) (month_start (j + 1)) + counted_total db user (month_start (j + 1)) (month_start k)"
      using jk by (intro counted_total_split) (simp_all add: month_start_le_iff)
    ultimately show ?thesis by simp
  qed
qed

text \<open>The reference: all on-budget cash in the base currency that was ever recorded before a day in a
  live spending category of the user or in an income category.\<close>

definition envelope_cash :: "finance_db \<Rightarrow> nat \<Rightarrow> date \<Rightarrow> int" where
  "envelope_cash db user day =
     sum_list (map tx_amount (filter (\<lambda>t. tx_user t = user \<and> live_leaf t \<and> on_budget db (base_currency db user) t
       \<and> counted db user t \<and> tx_date t < day) (fd_txs db)))"

lemma fold_min_start: "fold min ds d \<le> (d::int)"
proof (induction ds arbitrary: d)
  case (Cons a ds)
  from Cons[of "min a d"] show ?case by simp
qed simp

lemma fold_min_le: "x \<in> set (d # ds) \<Longrightarrow> fold min ds d \<le> (x::int)"
proof (induction ds arbitrary: d)
  case (Cons a ds)
  show ?case
  proof (cases "x \<in> set ds")
    case False
    with Cons.prems fold_min_start[of ds "min a d"] show ?thesis by auto
  qed (use Cons.IH[of "min a d"] in simp)
qed simp

lemma first_activity_month_before:
  assumes "first_activity_month db user = Some f" "d \<in> set (history_days db user)"
  shows "f \<le> d \<and> (\<exists>j. f = month_start j)"
proof -
  obtain e es where h: "history_days db user = e # es" "f = first_of_month (fold min es e)"
    using assms(1) by (auto simp: first_activity_month_def split: list.splits)
  have "fold min es e \<le> d" using fold_min_le assms(2) h(1) by metis
  then show ?thesis using in_month(1)[of "fold min es e"] h(2) by (auto simp: first_of_month_start)
qed

lemma on_budget_history:
  "t \<in> set (fd_txs db) \<Longrightarrow> tx_user t = user \<Longrightarrow> live_leaf t \<Longrightarrow> on_budget db base t \<Longrightarrow> tx_date t \<in> set (history_days db user)"
  by (auto simp: history_days_def on_budget_def live_leaf_def intro!: image_eqI split: option.splits)

lemma envelope_cash_from:
  assumes "\<And>d. d \<in> set (history_days db user) \<Longrightarrow> lo \<le> d"
  shows "envelope_cash db user hi = counted_total db user lo hi"
proof -
  have "filter (counted db user) (month_rows db user lo hi) = filter (\<lambda>t. tx_user t = user \<and> live_leaf t
      \<and> on_budget db (base_currency db user) t \<and> counted db user t \<and> tx_date t < hi) (fd_txs db)"
    unfolding month_rows_def filter_filter
    using assms on_budget_history by (intro filter_cong refl) blast
  then show ?thesis by (simp add: envelope_cash_def counted_total_def)
qed

lemma chain_result_total:
  assumes "tables_ok db" "chain_result db user (month_start k) = Some (b, carry)"
  shows "carry + envelope_sum (spend_categories db user) b + counted_total db user (month_start k) (month_start (k + 1))
      = envelope_cash db user (month_start (k + 1)) \<and> distinct (map fst b)"
proof -
  have zero: "envelope_sum (spend_categories db user) [] = 0" by (simp add: envelope_sum_def sum_list_0)
  have k1: "month_start k \<le> month_start (k + 1)" by (simp add: month_start_le_iff)
  show ?thesis
  proof (cases "\<exists>f. first_activity_month db user = Some f \<and> f < month_start k")
    case True
    then obtain f where f: "first_activity_month db user = Some f" "f < month_start k" by blast
    obtain j where fj: "f = month_start j"
      using f(1) by (auto simp: first_activity_month_def first_of_month_start split: list.splits)
    with f(2) have j: "f = month_start j" "j < k" by (simp_all add: month_start_less_iff)
    have "rollover_chain db user (list_categories db user) (month_start k) (month_start j) ([], 0) = Some (b, carry)"
      using assms(2) f j by (simp add: chain_result_def)
    from rollover_chain_conserves[OF assms(1) _ _ this] j(2)
    have c: "carry + envelope_sum (spend_categories db user) b = counted_total db user (month_start j) (month_start k)"
      "distinct (map fst b)" by (simp_all add: zero)
    have "envelope_cash db user (month_start (k + 1)) = counted_total db user (month_start j) (month_start (k + 1))"
      using first_activity_month_before[OF f(1)] j(1) by (intro envelope_cash_from) blast
    also have "\<dots> = counted_total db user (month_start j) (month_start k) + counted_total db user (month_start k) (month_start (k + 1))"
      using j(2) k1 by (intro counted_total_split) (simp_all add: month_start_le_iff)
    finally show ?thesis using c by simp
  next
    case False
    then have "b = [] \<and> carry = 0" using assms(2) by (auto simp: chain_result_def split: option.splits if_splits)
    moreover have "envelope_cash db user (month_start (k + 1)) = counted_total db user (month_start k) (month_start (k + 1))"
    proof (rule envelope_cash_from)
      fix d assume d: "d \<in> set (history_days db user)"
      then obtain f where f: "first_activity_month db user = Some f"
        by (cases "history_days db user") (auto simp: first_activity_month_def)
      with first_activity_month_before[OF f d] False show "month_start k \<le> d" by force
    qed
    ultimately show ?thesis by (simp add: zero)
  qed
qed

lemma dict_get_nonzero:
  "distinct (map fst b) \<Longrightarrow> dict_get (filter (\<lambda>kv. snd kv \<noteq> 0) b) k 0 = dict_get b k (0::int)"
proof (induction b)
  case (Cons kv b)
  obtain c v where kv: "kv = (c, v)" by fastforce
  have "map_of (filter (\<lambda>kv. snd kv \<noteq> 0) b) c = None" if "kv = (c, v)"
    using Cons.prems that by (force simp: map_of_eq_None_iff)
  with Cons kv show ?case by (auto simp: dict_get_def)
qed simp

lemma line_parts:
  "bl_is_income (budget_line_of db user m ro c) = cat_is_income c"
  "\<not> cat_is_income c \<Longrightarrow> bl_available (budget_line_of db user m ro c)
    = bl_budgeted (budget_line_of db user m ro c) + dict_get ro (cat_id c) 0 + category_activity db user m (next_month m) (cat_id c)"
  by (simp_all add: budget_line_of_def Let_def split: prod.splits)

lemma lines_available:
  "sum_list (map bl_available (filter (\<lambda>l. \<not> bl_is_income l) (map (budget_line_of db user m ro) cs)))
    = sum_list (map bl_budgeted (filter (\<lambda>l. \<not> bl_is_income l) (map (budget_line_of db user m ro) cs)))
      + envelope_sum (filter (\<lambda>c. \<not> cat_is_income c) cs) ro
      + sum_list (map (\<lambda>c. category_activity db user m (next_month m) (cat_id c)) (filter (\<lambda>c. \<not> cat_is_income c) cs))"
  by (induction cs) (auto simp: line_parts envelope_sum_def)

section \<open>Properties\<close>

definition sample_budget :: finance_db where
  "sample_budget = sample_finance\<lparr>fd_budgets := [\<lparr>bud_user = 1, bud_month = mk_date 2024 4 1, bud_category = 12, bud_amount = 900, bud_mode = Reset\<rparr>],
     fd_txs := map (\<lambda>t. t\<lparr>tx_category := Some 12\<rparr>) (fd_txs sample_finance)\<rparr>"

lemma sample_budget_tables: "tables_ok sample_budget"
  by (simp add: sample_budget_def sample_finance_def tables_ok_def owns_account_def new_tx_def new_category_def sample_account_def)

definition sample_month :: "month_budget" where
  "sample_month = the (month_view sample_budget 1 (month_start (2024 * 12 + 4)))"

lemma sample_view: "month_view sample_budget 1 (month_start (2024 * 12 + 4)) = Some sample_month"
  by code_simp

text \<open>C37. Computing a month always ends: whatever the history and whichever month is asked for, the loop over
  past months reaches it.\<close>

theorem month_view_returns: "\<exists>v. month_view db user month = Some v"
proof -
  have "\<exists>r. chain_result db user month = Some r"
    using chain_returns by (auto simp: chain_result_def split: option.split)
  then show ?thesis by (auto simp: month_view_def Let_def)
qed

text \<open>The arithmetic identity of the view holds for every mode; in hold mode it is not what the
  comment in the code promises (\<open>hold_mode_releases_leftover\<close> below), so the property is stated for the
  other two.\<close>

lemma month_view_total:
  assumes "month_view db user (month_start k) = Some v" "tables_ok db"
  shows "mb_available v + sum_list (map bl_available (filter (\<lambda>l. \<not> bl_is_income l) (mb_lines v)))
    = envelope_cash db user (month_start (k + 1))"
proof -
  let ?m = "month_start k"
  from assms(1) obtain b carry where c: "chain_result db user ?m = Some (b, carry)"
    by (auto simp: month_view_def split: option.splits)
  define ro where "ro = filter (\<lambda>kv. snd kv \<noteq> 0) b"
  note t = chain_result_total[OF assms(2) c]
  have ro: "envelope_sum cs ro = envelope_sum cs b" for cs
    unfolding envelope_sum_def ro_def by (simp only: dict_get_nonzero[OF conjunct2[OF t]])
  have v: "mb_available v = carry + income_total db user ?m (next_month ?m)
      - sum_list (map bl_budgeted (filter (\<lambda>l. \<not> bl_is_income l) (map (budget_line_of db user ?m ro) (list_categories db user))))"
    "mb_lines v = map (budget_line_of db user ?m ro) (list_categories db user)"
    using assms(1) c by (auto simp: month_view_def Let_def ro_def)
  show ?thesis
    unfolding v lines_available ro
    using conjunct1[OF t] counted_total_parts[OF assms(2), of user ?m "next_month ?m"]
    by (simp add: next_month_step spend_categories_def)
qed

text \<open>C36. For a user who put no category in hold mode in an earlier month, the month view accounts for all
  cash: what is available to budget and what all envelopes hold add up to every on-budget amount in the base
  currency recorded up to the end of the month in an income category or in one of the user's live spending
  categories, whatever was assigned and whichever envelopes roll over or are reset. The tables keep the
  references of the schema.\<close>

theorem month_view_conserves_cash:
  assumes "month_view db user (month_start k) = Some v" "tables_ok db"
    and "list_all (\<lambda>b. bud_user b = user \<and> bud_month b < month_start k \<longrightarrow> bud_mode b \<noteq> Hold) (fd_budgets db)"
  shows "mb_available v + sum_list (map bl_available (filter (\<lambda>l. \<not> bl_is_income l) (mb_lines v)))
    = envelope_cash db user (month_start (k + 1))"
  by (rule month_view_total[OF assms(1,2)])

lemma sample_budget_modes:
  "list_all (\<lambda>b. bud_user b = 1 \<and> bud_month b < month_start (2024 * 12 + 4) \<longrightarrow> bud_mode b \<noteq> Hold) (fd_budgets sample_budget)"
  by (simp add: sample_budget_def)

lemma month_view_conserves_cash_witness:
  "mb_available sample_month + sum_list (map bl_available (filter (\<lambda>l. \<not> bl_is_income l) (mb_lines sample_month)))
    = envelope_cash sample_budget 1 (month_start (2024 * 12 + 4 + 1))"
  by (rule month_view_conserves_cash[OF sample_view sample_budget_tables sample_budget_modes])

text \<open>A category in hold mode keeps its balance of the month's start, and everything else goes to the pool:
  the assignment of the month comes back and its spending is charged to the unassigned cash.\<close>

theorem hold_mode_releases_leftover:
  assumes "budgets (cat_id c) = (assigned, Hold)" "\<not> cat_is_income c"
  shows "chain_category budgets activity c (balance, carry)
    = (AList.update (cat_id c) (dict_get balance (cat_id c) 0) balance, carry + activity (cat_id c))"
  using assms by (simp add: chain_category_def carried_def Let_def)

lemma hold_mode_releases_leftover_witness:
  "chain_category (\<lambda>i. (900, Hold)) (\<lambda>i. -500) (new_category 1 ''Food'' False) ([], 0) = ([(0, 0)], -500)"
  using hold_mode_releases_leftover[of "\<lambda>i. (900, Hold)" "new_category 1 ''Food'' False" 900 "\<lambda>i. -500" "[]" 0]
  by (simp add: new_category_def)

end
