(* ===== verification/Reports.thy ===== *)
theory Reports
  imports Budget
begin

text \<open>
  The reports of \<open>src/omni/finance/reports.py\<close>: cash flow by month, spending by category and net worth.
  A grouped query is the list of its groups' keys with the sums of each; a dictionary the code reads
  with a default is a function. The lemmas show that net worth is the sum of all leaf transactions
  of a currency, however many months are shown, and that cash flow splits the month's net.
\<close>

definition shift_month :: "date \<Rightarrow> int \<Rightarrow> date" where
  "shift_month month delta =
     (let total = year_of month * 12 + (month_of_year month - 1) + delta in mk_date (total div 12) (total mod 12 + 1) 1)"

lemma shift_month_start: "shift_month d k = month_start (month_index d + k)"
  by (simp add: shift_month_def month_start_def month_index_def Let_def)

text \<open>Live leaf rows of a user joined with their account's currency.\<close>

definition tx_currency :: "finance_db \<Rightarrow> tx \<Rightarrow> string option" where
  "tx_currency db t = map_option acc_currency (find_account db (tx_account t))"

definition leaf_rows :: "finance_db \<Rightarrow> nat \<Rightarrow> tx list" where
  "leaf_rows db user = filter (\<lambda>t. tx_user t = user \<and> live_leaf t \<and> tx_currency db t \<noteq> None) (fd_txs db)"

definition in_group :: "finance_db \<Rightarrow> date \<Rightarrow> string \<Rightarrow> tx \<Rightarrow> bool" where
  "in_group db month currency t \<longleftrightarrow> first_of_month (tx_date t) = month \<and> tx_currency db t = Some currency"

definition currencies_of :: "finance_db \<Rightarrow> nat \<Rightarrow> tx list \<Rightarrow> string list" where
  "currencies_of db user rows =
     sort (remdups (base_currency db user # List.map_filter (tx_currency db) rows))"

section \<open>Cash flow\<close>

record flow =
  fl_month :: date
  fl_income :: int
  fl_expense :: int
  fl_net :: int

definition income_of :: "tx list \<Rightarrow> int" where
  "income_of rows = sum_list (map (\<lambda>t. if 0 < tx_amount t then tx_amount t else 0) rows)"

definition expense_of :: "tx list \<Rightarrow> int" where
  "expense_of rows = sum_list (map (\<lambda>t. if tx_amount t < 0 then - tx_amount t else 0) rows)"

definition window_months :: "date \<Rightarrow> nat \<Rightarrow> date list" where
  "window_months end_month n = map (\<lambda>k. shift_month end_month (int k - (int n - 1))) [0..<n]"

definition cash_flow :: "finance_db \<Rightarrow> nat \<Rightarrow> nat \<Rightarrow> date option
    \<Rightarrow> string \<times> flow list \<times> (string \<times> int \<times> int) list" where
  "cash_flow db user months until =
     (let base = base_currency db user;
          last = first_of_month (case until of None \<Rightarrow> fd_today db | Some d \<Rightarrow> d);
          start = shift_month last (- (int months - 1));
          rows = filter (\<lambda>t. start \<le> tx_date t \<and> tx_date t < shift_month last 1) (leaf_rows db user);
          group = (\<lambda>m c. filter (in_group db m c) rows);
          series = map (\<lambda>m. let i = income_of (group m base); e = expense_of (group m base)
            in \<lparr>fl_month = m, fl_income = i, fl_expense = e, fl_net = i - e\<rparr>) (window_months last months);
          others = List.map_filter (\<lambda>c.
            let ms = filter (\<lambda>m. group m c \<noteq> []) (remdups (window_months last months))
            in if c = base \<or> ms = [] then None
               else Some (c, sum_list (map (\<lambda>m. income_of (group m c)) ms), sum_list (map (\<lambda>m. expense_of (group m c)) ms)))
            (currencies_of db user rows)
      in (base, series, others))"

section \<open>Spending by category\<close>

text \<open>One entry per category name, ordered by its total.\<close>

definition spending_rows :: "finance_db \<Rightarrow> nat \<Rightarrow> date \<Rightarrow> string \<Rightarrow> (string \<times> tx) list" where
  "spending_rows db user month currency =
     List.map_filter (\<lambda>t.
       case tx_category t of None \<Rightarrow> None
       | Some c \<Rightarrow>
           (case find_category db c of None \<Rightarrow> None
            | Some k \<Rightarrow> if cat_user k = user \<and> \<not> cat_is_income k then Some (cat_name k, t) else None))
       (filter (\<lambda>t. month \<le> tx_date t \<and> tx_date t < shift_month month 1
          \<and> (case find_account db (tx_account t) of None \<Rightarrow> False
             | Some a \<Rightarrow> acc_user a = user \<and> \<not> acc_offbudget a \<and> acc_currency a = currency)) (leaf_rows db user))"

definition spending_by_category :: "finance_db \<Rightarrow> nat \<Rightarrow> date \<Rightarrow> string option \<Rightarrow> (string \<times> int \<times> nat) list" where
  "spending_by_category db user day currency =
     (let base = (case currency of None \<Rightarrow> base_currency db user | Some c \<Rightarrow> c);
          rows = spending_rows db user (first_of_month day) base
      in sort_key (\<lambda>e. fst (snd e))
           (map (\<lambda>name. let ts = filter (\<lambda>e. fst e = name) rows
                        in (name, sum_list (map (\<lambda>e. tx_amount (snd e)) ts), length ts))
              (remdups (map fst rows))))"

section \<open>Net worth\<close>

record worth =
  nw_month :: date
  nw_worth :: "int option"
  nw_change :: "int option"

definition month_change :: "finance_db \<Rightarrow> tx list \<Rightarrow> string \<Rightarrow> date \<Rightarrow> int" where
  "month_change db rows currency month = sum_list (map tx_amount (filter (in_group db month currency) rows))"

definition opening_worth :: "finance_db \<Rightarrow> nat \<Rightarrow> string \<Rightarrow> date \<Rightarrow> int" where
  "opening_worth db user currency start =
     sum_list (map tx_amount (filter (\<lambda>t. tx_currency db t = Some currency \<and> tx_date t < start) (leaf_rows db user)))"

text \<open>The loop over the shown months: the running worth and the series collected so far.\<close>

definition worth_step :: "(date \<Rightarrow> int) \<Rightarrow> date \<Rightarrow> date \<Rightarrow> worth list \<times> int \<Rightarrow> worth list \<times> int" where
  "worth_step change today month st =
     (let (series, running) = st; past = (month \<le> first_of_month today);
          running = (if past then running + change month else running)
      in (series @ [\<lparr>nw_month = month, nw_worth = (if past then Some running else None),
                     nw_change = (if past then Some (change month) else None)\<rparr>], running))"

definition worth_series :: "finance_db \<Rightarrow> nat \<Rightarrow> nat \<Rightarrow> string \<Rightarrow> worth list \<times> int" where
  "worth_series db user months currency =
     (let today = fd_today db;
          rows = filter (\<lambda>t. tx_date t < shift_month (first_of_month today) 1) (leaf_rows db user);
          start = shift_month (first_of_month today) (- (int months - 1))
      in fold (worth_step (month_change db rows currency) today) (window_months (first_of_month today) months)
           ([], opening_worth db user currency start))"

definition no_history :: "finance_db \<Rightarrow> nat \<Rightarrow> string list" where
  "no_history db user =
     map acc_name (sort_key acc_name (filter (\<lambda>a. acc_user a = user \<and> \<not> acc_closed a
       \<and> \<not> list_ex (\<lambda>t. tx_account t = acc_id a \<and> \<not> tx_deleted t) (fd_txs db)) (fd_accounts db)))"

record net_worth_report =
  nr_base :: string
  nr_months :: "worth list"
  nr_balances :: "(string \<times> int) list"
  nr_without_history :: "string list"

definition net_worth :: "finance_db \<Rightarrow> nat \<Rightarrow> nat \<Rightarrow> net_worth_report" where
  "net_worth db user months =
     (let base = base_currency db user;
          rows = filter (\<lambda>t. tx_date t < shift_month (first_of_month (fd_today db)) 1) (leaf_rows db user)
      in \<lparr>nr_base = base, nr_months = fst (worth_series db user months base),
          nr_balances = map (\<lambda>c. (c, snd (worth_series db user months c))) (currencies_of db user rows),
          nr_without_history = no_history db user\<rparr>)"

section \<open>Running sums\<close>

lemma window_month_starts:
  "window_months (first_of_month d) n = map month_start [month_index d - (int n - 1)..month_index d]"
proof -
  have idx: "month_index (first_of_month d) = month_index d" by (simp add: first_of_month_start)
  have upto: "[a..b] = map (\<lambda>k. a + int k) [0..<nat (b - a + 1)]" for a b :: int
    by (simp add: upto_aux_def atLeastLessThan_upt[symmetric] list_eq_iff_nth_eq)
  show ?thesis by (simp add: window_months_def shift_month_start idx upto comp_def algebra_simps)
qed

definition currency_span :: "finance_db \<Rightarrow> nat \<Rightarrow> string \<Rightarrow> date \<Rightarrow> date \<Rightarrow> int" where
  "currency_span db user currency lo hi =
     sum_list (map tx_amount (filter (\<lambda>t. tx_currency db t = Some currency \<and> lo \<le> tx_date t \<and> tx_date t < hi) (leaf_rows db user)))"

lemma currency_span_split:
  assumes "lo \<le> mid" "mid \<le> hi"
  shows "currency_span db user c lo hi = currency_span db user c lo mid + currency_span db user c mid hi"
proof -
  have "filter (\<lambda>t. tx_currency db t = Some c \<and> lo \<le> tx_date t \<and> tx_date t < hi) (leaf_rows db user)
    = filter (\<lambda>t. (tx_currency db t = Some c \<and> lo \<le> tx_date t \<and> tx_date t < mid)
        \<or> (tx_currency db t = Some c \<and> mid \<le> tx_date t \<and> tx_date t < hi)) (leaf_rows db user)"
    using assms by (intro filter_cong) auto
  then show ?thesis unfolding currency_span_def by (simp only:) (rule sum_list_filter_disj, auto)
qed

lemma in_month_iff: "first_of_month d = month_start j \<longleftrightarrow> month_start j \<le> d \<and> d < month_start (j + 1)"
  using in_month[of d] month_index_unique[of j d] by (auto simp: first_of_month_start dest: arg_cong[where f = month_index])

lemma month_change_span:
  assumes "j < k"
  shows "month_change db (filter (\<lambda>t. tx_date t < month_start k) (leaf_rows db user)) c (month_start j)
    = currency_span db user c (month_start j) (month_start (j + 1))"
proof -
  have "month_start (j + 1) \<le> month_start k" using assms by (simp add: month_start_le_iff)
  then have "filter (in_group db (month_start j) c) (filter (\<lambda>t. tx_date t < month_start k) (leaf_rows db user))
    = filter (\<lambda>t. tx_currency db t = Some c \<and> month_start j \<le> tx_date t \<and> tx_date t < month_start (j + 1)) (leaf_rows db user)"
    unfolding filter_filter by (intro filter_cong refl) (auto simp: in_group_def in_month_iff)
  then show ?thesis by (simp add: month_change_def currency_span_def)
qed

lemma worth_fold:
  assumes "i \<le> k + 1" "k \<le> month_index today"
  shows "snd (fold (worth_step (month_change db (filter (\<lambda>t. tx_date t < month_start (k + 1)) (leaf_rows db user)) c) today)
      (map month_start [i..k]) (series, running))
    = running + currency_span db user c (month_start i) (month_start (k + 1))"
  using assms(1)
proof (induction "nat (k + 1 - i)" arbitrary: i series running rule: less_induct)
  case less
  show ?case
  proof (cases "i = k + 1")
    case True
    have "currency_span db user c (month_start i) (month_start i) = 0"
      using currency_span_split[of "month_start i" "month_start i" "month_start i"] by simp
    with True show ?thesis by simp
  next
    case False
    with less.prems have ik: "i \<le> k" by simp
    let ?f = "worth_step (month_change db (filter (\<lambda>t. tx_date t < month_start (k + 1)) (leaf_rows db user)) c) today"
    define step where "step = currency_span db user c (month_start i) (month_start (i + 1))"
    obtain s where s: "?f (month_start i) (series, running) = (s, running + step)"
      using ik assms(2) by (simp add: worth_step_def first_of_month_start month_start_le_iff month_change_span step_def Let_def)
    have "snd (fold ?f (map month_start [i + 1..k]) (s, running + step))
      = running + step + currency_span db user c (month_start (i + 1)) (month_start (k + 1))"
      using less.hyps[of "i + 1" s "running + step"] ik by simp
    moreover have "currency_span db user c (month_start i) (month_start (k + 1))
      = step + currency_span db user c (month_start (i + 1)) (month_start (k + 1))"
      unfolding step_def using ik by (intro currency_span_split) (simp_all add: month_start_le_iff)
    ultimately show ?thesis using ik s by (simp add: upto_rec1)
  qed
qed

text \<open>Net worth is a plain sum: for every currency it is the sum of all live leaf transactions of the
  user's accounts in that currency up to the end of the current month, whatever the number of months shown.\<close>

theorem net_worth_is_the_sum:
  "map snd (nr_balances (net_worth db user months))
    = map (\<lambda>c. sum_list (map tx_amount (filter (\<lambda>t. tx_currency db t = Some c
        \<and> tx_date t < month_start (month_index (fd_today db) + 1)) (leaf_rows db user))))
      (map fst (nr_balances (net_worth db user months)))"
proof -
  define k where "k = month_index (fd_today db)"
  define i where "i = k - (int months - 1)"
  have "snd (worth_series db user months c) = sum_list (map tx_amount (filter (\<lambda>t. tx_currency db t = Some c
        \<and> tx_date t < month_start (k + 1)) (leaf_rows db user)))" for c
  proof -
    have idx: "month_index (first_of_month (fd_today db)) = k" by (simp add: first_of_month_start k_def)
    have ik: "i \<le> k + 1" by (simp add: i_def)
    have ki: "k + - (int months - 1) = i" by (simp add: i_def)
    have st: "shift_month (first_of_month (fd_today db)) (- (int months - 1)) = month_start i"
      "shift_month (first_of_month (fd_today db)) 1 = month_start (k + 1)"
      unfolding shift_month_start idx ki by (rule refl)+
    have "snd (worth_series db user months c) = opening_worth db user c (month_start i) + currency_span db user c (month_start i) (month_start (k + 1))"
      using worth_fold[OF ik, of "fd_today db" db user c "[]" "opening_worth db user c (month_start i)"]
      unfolding worth_series_def Let_def st window_month_starts by (simp add: k_def[symmetric] i_def)
    also have "\<dots> = sum_list (map tx_amount (filter (\<lambda>t. (tx_currency db t = Some c \<and> tx_date t < month_start i)
        \<or> (tx_currency db t = Some c \<and> month_start i \<le> tx_date t \<and> tx_date t < month_start (k + 1))) (leaf_rows db user)))"
      unfolding opening_worth_def currency_span_def by (rule sum_list_filter_disj[symmetric]) auto
    also have "filter (\<lambda>t. (tx_currency db t = Some c \<and> tx_date t < month_start i)
        \<or> (tx_currency db t = Some c \<and> month_start i \<le> tx_date t \<and> tx_date t < month_start (k + 1))) (leaf_rows db user)
      = filter (\<lambda>t. tx_currency db t = Some c \<and> tx_date t < month_start (k + 1)) (leaf_rows db user)"
    proof (intro filter_cong refl)
      fix t
      have "month_start i \<le> month_start (k + 1)" using ik by (simp add: month_start_le_iff)
      then show "(tx_currency db t = Some c \<and> tx_date t < month_start i)
          \<or> (tx_currency db t = Some c \<and> month_start i \<le> tx_date t \<and> tx_date t < month_start (k + 1))
        \<longleftrightarrow> tx_currency db t = Some c \<and> tx_date t < month_start (k + 1)" by linarith
    qed
    finally show ?thesis .
  qed
  then show ?thesis by (simp add: net_worth_def Let_def comp_def k_def)
qed

end
