(* ===== verification/Venue_Costs.thy ===== *)
theory Venue_Costs
  imports Portfolio_State
begin

text \<open>
  The cost model of \<open>src/omni/venue/costs.py\<close>: what entering, holding and leaving a position costs in
  basis points of its notional, and whether an expected edge clears it. The lemmas show that funding is
  a transfer whose sign agrees with what the book settles, and that a round trip is never cheaper than
  either of its legs.
\<close>

section \<open>Costs by component\<close>

definition BPS :: decimal where "BPS = 10000"

record costs =
  co_fee :: decimal
  co_spread :: decimal
  co_gas :: decimal
  co_borrow :: decimal
  co_funding :: decimal

definition check_costs :: "costs \<Rightarrow> costs trading" where
  "check_costs c =
     rbind (ensure (\<not> co_fee c < 0) Invalid_Value) (\<lambda>_.
     rbind (ensure (\<not> co_spread c < 0) Invalid_Value) (\<lambda>_.
     rbind (ensure (\<not> co_gas c < 0) Invalid_Value) (\<lambda>_.
     rbind (ensure (\<not> co_borrow c < 0) Invalid_Value) (\<lambda>_. Inr c))))"

definition total_bps :: "costs \<Rightarrow> decimal" where
  "total_bps c = dadd (dadd (dadd (dadd (co_fee c) (co_spread c)) (co_gas c)) (co_borrow c)) (co_funding c)"

definition add_costs :: "costs \<Rightarrow> costs \<Rightarrow> costs trading" where
  "add_costs a b = check_costs \<lparr>co_fee = dadd (co_fee a) (co_fee b), co_spread = dadd (co_spread a) (co_spread b),
     co_gas = dadd (co_gas a) (co_gas b), co_borrow = dadd (co_borrow a) (co_borrow b),
     co_funding = dadd (co_funding a) (co_funding b)\<rparr>"

definition as_fraction :: "costs \<Rightarrow> decimal" where
  "as_fraction c = ddiv (total_bps c) BPS"

section \<open>The expected edge\<close>

definition gross_expectancy_bps :: "decimal \<Rightarrow> decimal \<Rightarrow> decimal \<Rightarrow> decimal trading" where
  "gross_expectancy_bps hit_rate target stop =
     rbind (ensure (0 \<le> hit_rate \<and> hit_rate \<le> 1) Invalid_Value) (\<lambda>_.
     rbind (ensure (\<not> target \<le> 0) Invalid_Value) (\<lambda>_.
     rbind (ensure (\<not> stop \<le> 0) Invalid_Value) (\<lambda>_.
     Inr (dsub (dmul hit_rate target) (dmul (dsub 1 hit_rate) stop)))))"

section \<open>One leg, holding, and the round trip\<close>

text \<open>The fee schedule of a market: perpetuals use their own fees where the venue states them.\<close>

definition leg_fee_bps :: "capabilities \<Rightarrow> market_type \<Rightarrow> bool \<Rightarrow> decimal" where
  "leg_fee_bps caps mt maker =
     (let usual = (if maker then cap_maker_fee_bps caps else cap_taker_fee_bps caps);
          special = (if maker then cap_perp_maker_fee_bps caps else cap_perp_taker_fee_bps caps)
      in if mt = Perpetual then (case special of None \<Rightarrow> usual | Some f \<Rightarrow> f) else usual)"

definition entry_cost :: "intent \<Rightarrow> capabilities \<Rightarrow> decimal \<Rightarrow> decimal \<Rightarrow> bool \<Rightarrow> costs trading" where
  "entry_cost i caps spread gas maker =
     rbind (ensure (\<not> spread < 0) Invalid_Value) (\<lambda>_.
     rbind (ensure (\<not> gas < 0) Invalid_Value) (\<lambda>_.
     let notional = intent_notional i in
     rbind (ensure (\<not> notional \<le> 0) Invalid_Value) (\<lambda>_.
     check_costs \<lparr>co_fee = leg_fee_bps caps (in_market_type i) maker,
       co_spread = (if maker then 0 else ddiv spread 2), co_gas = dmul (ddiv gas notional) BPS,
       co_borrow = 0, co_funding = 0\<rparr>)))"

definition carry_cost :: "intent \<Rightarrow> decimal \<Rightarrow> int \<Rightarrow> decimal \<Rightarrow> int \<Rightarrow> costs trading" where
  "carry_cost i funding_rate funding_periods borrow_rate borrow_periods =
     rbind (ensure (\<not> (funding_periods < 0 \<or> borrow_periods < 0)) Invalid_Value) (\<lambda>_.
     rbind (ensure (\<not> borrow_rate < 0) Invalid_Value) (\<lambda>_.
     let direction = (if in_side i = Buy then 1 else - 1);
         funding = dmul (dmul (dmul funding_rate (of_int funding_periods)) BPS) direction;
         borrow = (if in_side i = Sell \<and> in_market_type i = Margin
           then dmul borrow_rate (of_int borrow_periods) else 0)
     in check_costs \<lparr>co_fee = 0, co_spread = 0, co_gas = 0, co_borrow = borrow, co_funding = funding\<rparr>))"

definition round_trip_cost :: "intent \<Rightarrow> capabilities \<Rightarrow> decimal \<Rightarrow> decimal \<Rightarrow> bool \<Rightarrow> bool option
    \<Rightarrow> decimal \<Rightarrow> int \<Rightarrow> decimal \<Rightarrow> int \<Rightarrow> costs trading" where
  "round_trip_cost i caps spread gas maker exit_maker funding_rate funding_periods borrow_rate borrow_periods =
     rbind (entry_cost i caps spread gas maker) (\<lambda>entry.
     rbind (entry_cost i caps spread gas (case exit_maker of None \<Rightarrow> maker | Some m \<Rightarrow> m)) (\<lambda>exit_leg.
     rbind (carry_cost i funding_rate funding_periods borrow_rate borrow_periods) (\<lambda>carry.
     rbind (add_costs entry exit_leg) (\<lambda>legs. add_costs legs carry))))"

section \<open>Viability\<close>

record viability =
  vi_gross :: decimal
  vi_cost :: costs
  vi_survives :: bool

definition net_bps :: "viability \<Rightarrow> decimal" where
  "net_bps v = dsub (vi_gross v) (total_bps (vi_cost v))"

definition survives_costs :: "decimal \<Rightarrow> costs \<Rightarrow> decimal \<Rightarrow> viability trading" where
  "survives_costs gross cost margin =
     rbind (ensure (\<not> margin < 0) Invalid_Value) (\<lambda>_.
     Inr \<lparr>vi_gross = gross, vi_cost = cost, vi_survives = (margin < dsub gross (total_bps cost))\<rparr>)"

section \<open>Lemmas\<close>

lemma dadd_mono: "a \<le> b \<Longrightarrow> c \<le> d \<Longrightarrow> dadd a c \<le> dadd b d"
  by (simp add: dadd_def dround_mono)

lemma dsub_mono: "a \<le> b \<Longrightarrow> d \<le> c \<Longrightarrow> dsub a c \<le> dsub b d"
  by (simp add: dsub_def dround_mono)

lemma dmul_nonneg: "0 \<le> a \<Longrightarrow> 0 \<le> b \<Longrightarrow> 0 \<le> dmul a b"
  by (simp add: dmul_def)

lemma dadd_nonneg: "0 \<le> a \<Longrightarrow> 0 \<le> b \<Longrightarrow> 0 \<le> dadd a b"
  by (simp add: dadd_def)

lemma ddiv_nonneg: "0 \<le> a \<Longrightarrow> 0 \<le> b \<Longrightarrow> 0 \<le> ddiv a b"
  by (simp add: ddiv_def)

lemma check_costs_eq: "check_costs c = Inr d \<longleftrightarrow> d = c \<and> 0 \<le> co_fee c \<and> 0 \<le> co_spread c \<and> 0 \<le> co_gas c \<and> 0 \<le> co_borrow c"
  by (auto simp: check_costs_def result_simps not_less)

text \<open>The order of the components: one cost is at most another in every component.\<close>

definition cheaper :: "costs \<Rightarrow> costs \<Rightarrow> bool" where
  "cheaper a b \<longleftrightarrow> co_fee a \<le> co_fee b \<and> co_spread a \<le> co_spread b \<and> co_gas a \<le> co_gas b
     \<and> co_borrow a \<le> co_borrow b \<and> co_funding a \<le> co_funding b"

lemma total_bps_mono: "cheaper a b \<Longrightarrow> total_bps a \<le> total_bps b"
  by (simp add: cheaper_def total_bps_def dadd_mono)

lemma dadd_above:
  assumes "exact x" "0 \<le> y"
  shows "x \<le> dadd x y" "x \<le> dadd y x"
  using assms by (auto simp: dadd_def intro: dround_ge_exact)

lemma entry_costE:
  assumes "entry_cost i caps spread gas maker = Inr c"
  shows "c = \<lparr>co_fee = leg_fee_bps caps (in_market_type i) maker, co_spread = (if maker then 0 else ddiv spread 2),
      co_gas = dmul (ddiv gas (intent_notional i)) BPS, co_borrow = 0, co_funding = 0\<rparr>"
    "0 \<le> spread" "0 \<le> gas" "0 < intent_notional i" "0 \<le> leg_fee_bps caps (in_market_type i) maker"
  using assms by (auto simp: entry_cost_def check_costs_eq Let_def result_simps not_less not_le)

lemma entry_cost_exact:
  assumes "entry_cost i caps spread gas maker = Inr c" "exact (leg_fee_bps caps (in_market_type i) maker)"
  shows "exact (co_fee c)" "exact (co_spread c)" "exact (co_gas c)" "exact (co_borrow c)" "exact (co_funding c)"
    "0 \<le> co_fee c" "0 \<le> co_spread c" "0 \<le> co_gas c" "co_borrow c = 0" "co_funding c = 0"
  using entry_costE[OF assms(1)] assms(2)
  by (auto simp: BPS_def intro!: dmul_nonneg ddiv_nonneg)

lemma carry_costE:
  assumes "carry_cost i rate n brate m = Inr c"
  shows "co_fee c = 0" "co_spread c = 0" "co_gas c = 0" "0 \<le> co_borrow c" "0 \<le> n" "0 \<le> m"
    "co_funding c = dmul (dmul (dmul rate (of_int n)) BPS) (if in_side i = Buy then 1 else - 1)"
    "co_borrow c = (if in_side i = Sell \<and> in_market_type i = Margin then dmul brate (of_int m) else 0)"
  using assms by (auto simp: carry_cost_def check_costs_eq Let_def result_simps not_less)

lemma add_costsE:
  assumes "add_costs a b = Inr c"
  shows "c = \<lparr>co_fee = dadd (co_fee a) (co_fee b), co_spread = dadd (co_spread a) (co_spread b),
     co_gas = dadd (co_gas a) (co_gas b), co_borrow = dadd (co_borrow a) (co_borrow b),
     co_funding = dadd (co_funding a) (co_funding b)\<rparr>"
  using assms by (auto simp: add_costs_def check_costs_eq)

section \<open>Properties\<close>

lemma dmul_sgn: "sgn (dmul a b) = sgn (a * b)"
  using dmul_sign[of a b] by (auto simp: sgn_if)

text \<open>Funding is priced as a transfer with the sign the book settles: a buy and a sell of the same
  terms are charged opposite amounts, and for a position of the intent's side the modelled charge is
  positive exactly when the settlement the book applies is a payment.\<close>

theorem funding_cost_matches_settlement:
  assumes "carry_cost i rate n b m = Inr c" "carry_cost j rate n b m = Inr d"
    and "in_side i = Buy" "in_side j = Sell" "0 < n" "0 < q" "0 < mark"
  shows "co_funding d = - co_funding c
    \<and> sgn (funding_amount (signed_fill Buy q) mark rate) = - sgn (co_funding c)
    \<and> sgn (funding_amount (signed_fill Sell q) mark rate) = - sgn (co_funding d)"
proof -
  let ?x = "dmul (dmul rate (of_int n)) BPS"
  have c: "co_funding c = dmul ?x 1" and d: "co_funding d = dmul ?x (- 1)"
    using carry_costE(7)[OF assms(1)] carry_costE(7)[OF assms(2)] assms(3,4) by simp_all
  have neg: "co_funding d = - co_funding c"
    unfolding c d dmul_def by (simp add: dround_minus)
  have s: "sgn (co_funding c) = sgn rate"
    using assms(5) unfolding c by (simp add: dmul_sgn sgn_mult BPS_def)
  have sq: "sgn (signed_fill Buy q) = 1" "sgn (signed_fill Sell q) = - 1"
    using assms(6) by (simp_all add: signed_fill_def dneg_def dround_minus sgn_if)
  show ?thesis using neg s sq by (simp add: funding_amount_sign[OF assms(7)] sgn_minus)
qed

definition sample_perp :: intent where
  "sample_perp = sample_intent\<lparr>in_stop_price := None, in_take_profit_price := None\<rparr>"

definition sample_caps :: capabilities where
  "sample_caps = \<lparr>cap_spot = True, cap_margin = True, cap_perpetuals = True, cap_limit_orders = True,
     cap_shorting = True, cap_funding_data = True, cap_maker_fee_bps = 4, cap_taker_fee_bps = 7, cap_min_notional = 10,
     cap_perp_maker_fee_bps = Some (3 / 2), cap_perp_taker_fee_bps = Some (9 / 2)\<rparr>"

lemma funding_cost_matches_settlement_witness:
  "sgn (funding_amount (signed_fill Sell 2) 100 (1 / 10000)) = (1 :: rat)"
proof -
  have c: "carry_cost (sample_perp\<lparr>in_side := Buy\<rparr>) (1 / 10000) 3 0 0
      = Inr \<lparr>co_fee = 0, co_spread = 0, co_gas = 0, co_borrow = 0, co_funding = 3\<rparr>"
    and d: "carry_cost sample_perp (1 / 10000) 3 0 0
      = Inr \<lparr>co_fee = 0, co_spread = 0, co_gas = 0, co_borrow = 0, co_funding = - 3\<rparr>"
    by code_simp+
  have "in_side (sample_perp\<lparr>in_side := Buy\<rparr>) = Buy" "in_side sample_perp = Sell"
    by (simp_all add: sample_perp_def sample_intent_def)
  from funding_cost_matches_settlement[OF c d this, of 2 100] show ?thesis by simp
qed

text \<open>Costing the round trip never makes an edge look better than costing one of its legs: with funding
  that is not a credit, the total of the round trip is at least the total of the entry and at least that of
  the exit, so an edge that survives the round trip survives each leg alone.\<close>

theorem round_trip_covers_each_leg:
  assumes "round_trip_cost i caps spread gas maker exit_maker rate n brate m = Inr c"
    and "entry_cost i caps spread gas leg = Inr e" "leg \<in> {maker, case exit_maker of None \<Rightarrow> maker | Some x \<Rightarrow> x}"
    and "exact (leg_fee_bps caps (in_market_type i) leg)" "in_side i = Buy \<and> 0 \<le> rate \<or> in_side i = Sell \<and> rate \<le> 0"
  shows "total_bps e \<le> total_bps c
    \<and> (\<forall>gross margin v. survives_costs gross c margin = Inr v \<and> vi_survives v
         \<longrightarrow> (\<exists>w. survives_costs gross e margin = Inr w \<and> vi_survives w))"
proof -
  let ?x = "case exit_maker of None \<Rightarrow> maker | Some x \<Rightarrow> x"
  from assms(1) obtain a b y l where legs: "entry_cost i caps spread gas maker = Inr a"
    "entry_cost i caps spread gas ?x = Inr b" and y: "carry_cost i rate n brate m = Inr y"
    and l: "add_costs a b = Inr l" and c: "add_costs l y = Inr c"
    by (auto simp: round_trip_cost_def result_simps)
  note A = entry_costE[OF legs(1)] and B = entry_costE[OF legs(2)] and Y = carry_costE[OF y]
  have fund: "0 \<le> co_funding y"
    using assms(5) Y(5) unfolding Y(7) dmul_def BPS_def
    by (auto simp: mult_nonneg_nonneg mult_nonpos_nonneg mult_nonpos_nonpos)
  have e: "exact (co_fee e)" "exact (co_spread e)" "exact (co_gas e)" "co_borrow e = 0" "co_funding e = 0"
    using entry_cost_exact[OF assms(2,4)] by auto
  have pick: "e = a \<or> e = b" using assms(2,3) legs by auto
  have le: "f e \<le> dadd (f a) (f b)" if "exact (f e)" "0 \<le> f a" "0 \<le> f b" for f
    using pick that dadd_above[of "f e"] by auto
  have "co_fee e \<le> co_fee l" "co_spread e \<le> co_spread l" "co_gas e \<le> co_gas l" "co_borrow l = 0" "co_funding l = 0"
    using le[of co_fee] le[of co_spread] le[of co_gas] e A B
    by (auto simp: add_costsE[OF l] BPS_def dmul_nonneg ddiv_nonneg dadd_def)
  moreover have "exact (co_fee l)" "exact (co_spread l)" "exact (co_gas l)"
    using add_costsE[OF l] by simp_all
  moreover have "co_fee c = dadd (co_fee l) 0" "co_spread c = dadd (co_spread l) 0" "co_gas c = dadd (co_gas l) 0"
    "co_borrow c = dround (co_borrow l + co_borrow y)" "co_funding c = dround (co_funding l + co_funding y)"
    using add_costsE[OF c] Y(1-3) by (simp_all add: dadd_def)
  ultimately have "cheaper e c"
    using Y(4) e(4,5) fund unfolding cheaper_def by simp
  then have total: "total_bps e \<le> total_bps c" by (rule total_bps_mono)
  then have "margin < dsub gross (total_bps e)" if "margin < dsub gross (total_bps c)" for gross margin
    using that dsub_mono[of gross gross "total_bps e" "total_bps c"] by simp
  with total show ?thesis by (auto simp: survives_costs_def result_simps)
qed

lemma round_trip_covers_each_leg_witness:
  "total_bps \<lparr>co_fee = 3 / 2, co_spread = 0, co_gas = 0, co_borrow = 0, co_funding = 0\<rparr>
    \<le> total_bps \<lparr>co_fee = 6, co_spread = 1, co_gas = 0, co_borrow = 0, co_funding = 0\<rparr>"
proof -
  have rt: "round_trip_cost sample_perp sample_caps 2 0 True (Some False) 0 0 0 0
      = Inr \<lparr>co_fee = 6, co_spread = 1, co_gas = 0, co_borrow = 0, co_funding = 0\<rparr>"
    and en: "entry_cost sample_perp sample_caps 2 0 True
      = Inr \<lparr>co_fee = 3 / 2, co_spread = 0, co_gas = 0, co_borrow = 0, co_funding = 0\<rparr>"
    and ex: "exact (leg_fee_bps sample_caps (in_market_type sample_perp) True)"
    unfolding exact_def by code_simp+
  show ?thesis
    using round_trip_covers_each_leg[OF rt en _ ex] by (auto simp: sample_perp_def sample_intent_def)
qed

end
