(* ===== verification/Sizing.thy ===== *)
theory Sizing
  imports Venue_Costs
begin

text \<open>
  Position sizing, \<open>src/omni/portfolio/sizing.py\<close>: the payoff ratio read off the barriers, the Kelly
  fraction, and the quantity after the fraction, the volatility scaling and the NAV clamp. The lemmas
  show that a size never exceeds the clamp, that a sized trade has its stop on the losing side, and
  that without rounding the Kelly fraction maximises expected logarithmic growth.
\<close>

section \<open>Numbers a caller may pass\<close>

text \<open>A \<open>Decimal\<close>, an \<open>int\<close>, a \<open>float\<close> (the decimal its \<open>repr\<close> denotes), a \<open>bool\<close>, anything else.\<close>

datatype number = Decimal_Number xdecimal | Int_Number int | Float_Number xdecimal | Bool_Number bool | Not_A_Number

fun coerced :: "number \<Rightarrow> xdecimal trading" where
  "coerced (Decimal_Number x) = Inr x"
| "coerced (Int_Number n) = Inr (Fin (of_int n))"
| "coerced (Float_Number x) = Inr x"
| "coerced (Bool_Number b) = Inl Type_Error"
| "coerced Not_A_Number = Inl Type_Error"

definition finite_number :: "number \<Rightarrow> decimal trading" where
  "finite_number v = rbind (coerced v) (\<lambda>x. rbind (ensure (is_finite x) Invalid_Value) (\<lambda>_. Inr (finite_part x)))"

definition money :: "number \<Rightarrow> decimal trading" where
  "money v = (case v of Float_Number x \<Rightarrow> Inl Type_Error | _ \<Rightarrow> finite_number v)"

definition TOL :: decimal where "TOL = 1 / 10 ^ 12"
definition DEFAULT_KELLY_FRACTION :: decimal where "DEFAULT_KELLY_FRACTION = 1 / 4"

section \<open>Payoff and Kelly\<close>

definition payoff_ratio :: "number \<Rightarrow> number \<Rightarrow> number \<Rightarrow> decimal trading" where
  "payoff_ratio entry stop target =
     rbind (money entry) (\<lambda>e.
     rbind (money stop) (\<lambda>s.
     rbind (money target) (\<lambda>t.
     rbind (ensure (\<not> e \<le> 0) Invalid_Value) (\<lambda>_.
     rbind (ensure (\<not> s \<le> 0) Invalid_Value) (\<lambda>_.
     rbind (ensure (\<not> t \<le> 0) Invalid_Value) (\<lambda>_.
     let tolerance = dmul e TOL in
     if tolerance < dsub t e then
       (let risk = dsub e s in
        rbind (ensure (\<not> risk \<le> tolerance) Invalid_Value) (\<lambda>_. Inr (ddiv (dsub t e) risk)))
     else if tolerance < dsub e t then
       (let risk = dsub s e in
        rbind (ensure (\<not> risk \<le> tolerance) Invalid_Value) (\<lambda>_. Inr (ddiv (dsub e t) risk)))
     else Inl Invalid_Value))))))"

definition kelly_fraction :: "number option \<Rightarrow> number \<Rightarrow> decimal trading" where
  "kelly_fraction hit_rate payoff =
     (case hit_rate of
        None \<Rightarrow> Inl Invalid_Value
      | Some h \<Rightarrow>
          rbind (finite_number h) (\<lambda>p.
          rbind (finite_number payoff) (\<lambda>b.
          rbind (ensure (0 \<le> p \<and> p \<le> 1) Invalid_Value) (\<lambda>_.
          rbind (ensure (\<not> b \<le> 0) Invalid_Value) (\<lambda>_.
          let edge = dsub (dmul p b) (dsub 1 p)
          in Inr (if edge \<le> 0 then 0 else ddiv edge b))))))"

section \<open>The quantity\<close>

definition vol_scaled :: "number option \<Rightarrow> number option \<Rightarrow> decimal \<Rightarrow> decimal trading" where
  "vol_scaled volatility vol_target fraction =
     (case volatility of
        None \<Rightarrow> Inr fraction
      | Some v \<Rightarrow>
          rbind (finite_number v) (\<lambda>realised.
          rbind (finite_number (case vol_target of None \<Rightarrow> Not_A_Number | Some w \<Rightarrow> w)) (\<lambda>wanted.
          rbind (ensure (\<not> realised \<le> TOL) Invalid_Value) (\<lambda>_.
          rbind (ensure (\<not> wanted \<le> TOL) Invalid_Value) (\<lambda>_.
          Inr (dmul fraction (ddiv wanted realised)))))))"

definition size_position :: "number \<Rightarrow> number option \<Rightarrow> number \<Rightarrow> number \<Rightarrow> number \<Rightarrow> number \<Rightarrow> number
    \<Rightarrow> number option \<Rightarrow> number option \<Rightarrow> decimal trading" where
  "size_position nav hit_rate entry stop target kelly_cap max_position volatility vol_target =
     rbind (ensure (hit_rate \<noteq> None) Invalid_Value) (\<lambda>_.
     rbind (money nav) (\<lambda>equity.
     rbind (ensure (\<not> equity \<le> 0) Invalid_Value) (\<lambda>_.
     rbind (finite_number kelly_cap) (\<lambda>cap.
     rbind (ensure (0 < cap \<and> cap \<le> 1) Invalid_Value) (\<lambda>_.
     rbind (finite_number max_position) (\<lambda>limit.
     rbind (ensure (0 < limit \<and> limit \<le> 1) Invalid_Value) (\<lambda>_.
     rbind (ensure ((volatility = None) = (vol_target = None)) Invalid_Value) (\<lambda>_.
     rbind (money entry) (\<lambda>entry_price.
     rbind (payoff_ratio (Decimal_Number (Fin entry_price)) stop target) (\<lambda>payoff.
     rbind (kelly_fraction hit_rate (Decimal_Number (Fin payoff))) (\<lambda>kelly.
     rbind (vol_scaled volatility vol_target (dmul kelly cap)) (\<lambda>fraction.
     Inr (ddiv (dmul (min fraction limit) equity) entry_price)))))))))))))"

section \<open>Lemmas\<close>

lemma finite_number_eq: "finite_number v = Inr x \<longleftrightarrow> coerced v = Inr (Fin x)"
proof -
  have "is_finite y \<and> finite_part y = x \<longleftrightarrow> y = Fin x" for y by (cases y) auto
  then show ?thesis by (auto simp: finite_number_def result_simps)
qed

lemma finite_number_Fin [simp]: "finite_number (Decimal_Number (Fin x)) = Inr x" "money (Decimal_Number (Fin x)) = Inr x"
  by (simp_all add: finite_number_def money_def)

lemma money_finite: "money v = Inr x \<Longrightarrow> finite_number v = Inr x"
  by (auto simp: money_def split: number.splits)

lemma dsub_pos: "0 < dsub a b \<longleftrightarrow> b < a"
  by (simp add: dsub_def)

lemma dmul_TOL: "0 < e \<Longrightarrow> 0 < dmul e TOL"
  by (simp add: dmul_def TOL_def)

text \<open>A payoff exists only for barriers on opposite sides of the entry, and is positive.\<close>

lemma payoff_ratioE:
  assumes "payoff_ratio entry stop target = Inr b"
  obtains e s t where "money entry = Inr e" "money stop = Inr s" "money target = Inr t" "0 < e" "0 < s" "0 < t"
    "s < e \<and> e < t \<and> b = ddiv (dsub t e) (dsub e s) \<or> t < e \<and> e < s \<and> b = ddiv (dsub e t) (dsub s e)"
proof -
  from assms obtain e s t where m: "money entry = Inr e" "money stop = Inr s" "money target = Inr t" "0 < e" "0 < s" "0 < t"
    and b: "dmul e TOL < dsub t e \<and> dmul e TOL < dsub e s \<and> b = ddiv (dsub t e) (dsub e s)
      \<or> dmul e TOL < dsub e t \<and> dmul e TOL < dsub s e \<and> b = ddiv (dsub e t) (dsub s e)"
    by (auto simp: payoff_ratio_def Let_def result_simps not_le split: if_splits)
  have "s < e \<and> e < t \<and> b = ddiv (dsub t e) (dsub e s) \<or> t < e \<and> e < s \<and> b = ddiv (dsub e t) (dsub s e)"
    using b dmul_TOL[OF m(4)] dsub_pos[of t e] dsub_pos[of e s] dsub_pos[of e t] dsub_pos[of s e] by linarith
  with m show thesis by (rule that)
qed

lemma payoff_ratio_pos: "payoff_ratio entry stop target = Inr b \<Longrightarrow> 0 < b"
  by (elim payoff_ratioE) (auto simp: ddiv_def dsub_def)

lemma kelly_fractionE:
  assumes "kelly_fraction hit_rate payoff = Inr f"
  obtains h p b where "hit_rate = Some h" "finite_number h = Inr p" "finite_number payoff = Inr b" "0 \<le> p" "p \<le> 1" "0 < b"
    "f = (if dsub (dmul p b) (dsub 1 p) \<le> 0 then 0 else ddiv (dsub (dmul p b) (dsub 1 p)) b)"
  using assms by (cases hit_rate) (auto simp: kelly_fraction_def Let_def result_simps not_le)

text \<open>The edge is at most the payoff, so the fraction is a fraction of NAV.\<close>

lemma kelly_range:
  assumes "kelly_fraction hit_rate payoff = Inr f" "finite_number payoff = Inr b" "exact b"
  shows "0 \<le> f" "f \<le> 1"
proof -
  from assms(1,2) obtain p where p: "0 \<le> p" "p \<le> 1" and b: "0 < b"
    and f: "f = (if dsub (dmul p b) (dsub 1 p) \<le> 0 then 0 else ddiv (dsub (dmul p b) (dsub 1 p)) b)"
    by (elim kelly_fractionE) auto
  show "0 \<le> f" using b by (auto simp: f ddiv_def not_le)
  have "dmul p b \<le> b"
    unfolding dmul_def using p b assms(3) by (intro dround_le_exact) (simp_all add: mult_left_le_one_le)
  moreover have "0 \<le> dsub 1 p" using p by (simp add: dsub_def)
  ultimately have "dsub (dmul p b) (dsub 1 p) \<le> b"
    unfolding dsub_def[of "dmul p b"] using assms(3) by (intro dround_le_exact) simp_all
  moreover have "exact (1 :: rat)" using exact_of_int[of 1] by simp
  ultimately show "f \<le> 1"
    using b by (auto simp: f ddiv_def intro!: dround_le_exact)
qed

lemma vol_scaled_nonneg:
  assumes "vol_scaled volatility vol_target x = Inr y" "0 \<le> x"
  shows "0 \<le> y"
proof (cases volatility)
  case None
  with assms show ?thesis by (simp add: vol_scaled_def)
next
  case (Some v)
  with assms(1) obtain r w where "\<not> r \<le> TOL" "\<not> w \<le> TOL" "y = dmul x (ddiv w r)"
    by (auto simp: vol_scaled_def result_simps)
  moreover have "0 < TOL" by (simp add: TOL_def)
  ultimately show ?thesis using assms(2) by (auto simp: not_le intro!: dmul_nonneg ddiv_nonneg)
qed

lemma size_positionE:
  assumes "size_position nav hit_rate entry stop target kelly_cap max_position volatility vol_target = Inr q"
  obtains equity cap limit e payoff kelly fraction where "money nav = Inr equity" "0 < equity"
    "finite_number kelly_cap = Inr cap" "0 < cap" "cap \<le> 1" "finite_number max_position = Inr limit" "0 < limit" "limit \<le> 1"
    "money entry = Inr e" "payoff_ratio (Decimal_Number (Fin e)) stop target = Inr payoff"
    "kelly_fraction hit_rate (Decimal_Number (Fin payoff)) = Inr kelly"
    "vol_scaled volatility vol_target (dmul kelly cap) = Inr fraction"
    "q = ddiv (dmul (min fraction limit) equity) e"
  using assms by (auto simp: size_position_def result_simps not_le)

lemma size_position_clamped:
  assumes "size_position nav hit_rate entry stop target kelly_cap max_position volatility vol_target = Inr q"
    and "money nav = Inr equity" "finite_number max_position = Inr limit" "money entry = Inr e"
  shows "q \<le> ddiv (dmul limit equity) e"
proof -
  from assms(1) obtain equity' cap limit' e' payoff kelly fraction where m: "money nav = Inr equity'" "0 < equity'"
    "finite_number max_position = Inr limit'" "money entry = Inr e'"
    and r: "payoff_ratio (Decimal_Number (Fin e')) stop target = Inr payoff"
    and q: "q = ddiv (dmul (min fraction limit') equity') e'"
    by (elim size_positionE)
  from r have "0 < e'" by (elim payoff_ratioE) auto
  with m q assms(2-4) show ?thesis
    unfolding ddiv_def dmul_def
    by (auto intro!: dround_mono divide_right_mono mult_right_mono)
qed

section \<open>Properties\<close>

text \<open>C27. A size is a quantity within the NAV clamp, whatever the edge and the volatility scaling: it is not
  negative, it is at most the clamp's fraction of NAV divided by the price, and it exists only for a stop on
  the losing side of the entry and a target on the winning side.\<close>

theorem size_within_clamp:
  assumes "size_position nav hit_rate entry stop target kelly_cap max_position volatility vol_target = Inr q"
  shows "\<exists>equity limit e s t. money nav = Inr equity \<and> finite_number max_position = Inr limit \<and> money entry = Inr e
    \<and> money stop = Inr s \<and> money target = Inr t \<and> hit_rate \<noteq> None
    \<and> 0 \<le> q \<and> q \<le> ddiv (dmul limit equity) e \<and> (s < e \<and> e < t \<or> t < e \<and> e < s)"
proof -
  from assms obtain equity cap limit e payoff kelly fraction where m: "money nav = Inr equity" "0 < equity"
    "finite_number max_position = Inr limit" "money entry = Inr e" "0 < cap" "0 < limit"
    and r: "payoff_ratio (Decimal_Number (Fin e)) stop target = Inr payoff"
    and k: "kelly_fraction hit_rate (Decimal_Number (Fin payoff)) = Inr kelly"
    and v: "vol_scaled volatility vol_target (dmul kelly cap) = Inr fraction"
    and q: "q = ddiv (dmul (min fraction limit) equity) e"
    by (elim size_positionE)
  from r obtain s t where st: "money stop = Inr s" "money target = Inr t" "0 < e" "s < e \<and> e < t \<or> t < e \<and> e < s"
    and ex: "exact payoff"
    by (elim payoff_ratioE) auto
  have "0 \<le> kelly" using kelly_range(1)[OF k] ex by simp
  then have "0 \<le> fraction" using vol_scaled_nonneg[OF v] m(5) by (simp add: dmul_nonneg)
  then have "0 \<le> q" unfolding q using m(2,6) st(3) by (intro ddiv_nonneg dmul_nonneg) auto
  moreover have "q \<le> ddiv (dmul limit equity) e" using size_position_clamped[OF assms m(1,3,4)] .
  moreover have "hit_rate \<noteq> None" using k by (auto elim: kelly_fractionE)
  ultimately show ?thesis using m st by blast
qed

lemma exact_small: "exact (1 :: rat)" "exact (2 :: rat)" "exact (50 :: rat)" "exact (100 :: rat)" "exact (1 / 2)"
  using exact_of_int[of 1] exact_of_int[of 2] exact_of_int[of 50] exact_of_int[of 100] exact_coefficient[of 5 "- 1"]
  by (simp_all add: power_int_minus)

lemma size_within_clamp_witness:
  "size_position (Decimal_Number (Fin 100)) (Some (Int_Number 1)) (Decimal_Number (Fin 2)) (Decimal_Number (Fin 1))
     (Decimal_Number (Fin 3)) (Int_Number 1) (Int_Number 1) None None = Inr 50
   \<and> (50 :: decimal) \<le> ddiv (dmul 1 100) 2"
proof -
  have "dmul 2 TOL \<le> 1 / 2"
    unfolding dmul_def by (intro dround_le_exact) (simp_all add: TOL_def exact_small)
  then have tol: "dmul 2 TOL < 1" by simp
  have s: "size_position (Decimal_Number (Fin 100)) (Some (Int_Number 1)) (Decimal_Number (Fin 2)) (Decimal_Number (Fin 1))
     (Decimal_Number (Fin 3)) (Int_Number 1) (Int_Number 1) None None = Inr 50"
    using tol
    by (simp add: size_position_def payoff_ratio_def kelly_fraction_def vol_scaled_def Let_def finite_number_def[of "Int_Number 1"]
        ddiv_def dsub_def dmul_def[of 1] dround_exact exact_small)
  from size_within_clamp[OF s] have "(50 :: decimal) \<le> ddiv (dmul 1 100) 2"
    by (auto simp: finite_number_def[of "Int_Number 1"])
  with s show ?thesis by blast
qed

text \<open>The expected logarithmic growth of staking a fraction \<open>x\<close> at odds \<open>b\<close> with hit rate \<open>p\<close>.\<close>

definition log_growth :: "real \<Rightarrow> real \<Rightarrow> real \<Rightarrow> real" where
  "log_growth p b x = p * ln (1 + b * x) + (1 - p) * ln (1 - x)"

lemma ln_ratio_le:
  assumes "0 < x" "0 < (y :: real)"
  shows "ln x - ln y \<le> x / y - 1"
  using ln_le_minus_one[of "x / y"] assms by (simp add: ln_div)

lemma log_growth_no_edge:
  assumes "0 \<le> p" "p \<le> 1" "0 < b" "p * b \<le> 1 - p" "0 \<le> x" "x < 1"
  shows "log_growth p b x \<le> 0"
proof -
  have "ln (1 + b * x) \<le> b * x" "ln (1 - x) \<le> - x"
    using ln_le_minus_one[of "1 + b * x"] ln_le_minus_one[of "1 - x"] mult_nonneg_nonneg[of b x] assms by linarith+
  then have "log_growth p b x \<le> p * (b * x) + (1 - p) * (- x)"
    unfolding log_growth_def using assms(1,2) by (intro add_mono mult_left_mono) auto
  also have "\<dots> = (p * b - (1 - p)) * x" by (simp add: algebra_simps)
  also have "\<dots> \<le> 0" using assms by (simp add: mult_nonpos_nonneg)
  finally show ?thesis .
qed

lemma log_growth_edge:
  assumes "0 \<le> p" "p \<le> 1" "0 < b" "1 - p < p * b" "0 \<le> x" "x < 1"
  shows "log_growth p b x \<le> log_growth p b ((p * b - (1 - p)) / b)"
proof -
  let ?f = "(p * b - (1 - p)) / b"
  have pos: "0 < p" using assms(2,3,4) by (cases "p = 0") (use assms(1) in auto)
  have "b * ?f = p * b - (1 - p)" using assms(3) by simp
  then have up: "1 + b * ?f = p * (1 + b)" by (simp add: algebra_simps)
  have down: "1 - ?f = (1 - p) * (1 + b) / b" using assms(3) by (simp add: field_simps)
  have bx: "0 < 1 + b * x" using assms(3,5) by (simp add: add_pos_nonneg)
  have a: "p * (ln (1 + b * x) - ln (1 + b * ?f)) \<le> (1 + b * x) / (1 + b) - p"
  proof -
    have "ln (1 + b * x) - ln (1 + b * ?f) \<le> (1 + b * x) / (p * (1 + b)) - 1"
      unfolding up using bx pos assms(3) by (intro ln_ratio_le) auto
    from mult_left_mono[OF this, of p] pos show ?thesis by (simp add: right_diff_distrib)
  qed
  have c: "(1 - p) * (ln (1 - x) - ln (1 - ?f)) \<le> (1 - x) * b / (1 + b) - (1 - p)"
  proof (cases "p = 1")
    case True
    with assms show ?thesis by simp
  next
    case False
    then have "ln (1 - x) - ln (1 - ?f) \<le> (1 - x) / ((1 - p) * (1 + b) / b) - 1"
      unfolding down using assms by (intro ln_ratio_le) auto
    from mult_left_mono[OF this, of "1 - p"] False assms show ?thesis
      by (simp add: right_diff_distrib)
  qed
  have "(1 + b * x) / (1 + b) + (1 - x) * b / (1 + b) = 1"
    using assms(3) by (simp add: add_divide_distrib[symmetric] algebra_simps)
  with a c have "p * (ln (1 + b * x) - ln (1 + b * ?f)) + (1 - p) * (ln (1 - x) - ln (1 - ?f)) \<le> 0"
    by linarith
  then show ?thesis by (simp add: log_growth_def algebra_simps)
qed

text \<open>Where the decimal context does not round, the Kelly fraction is the optimal one: no other stake in
  [0, 1) has a higher expected logarithmic growth, and it is zero when the bet has no edge.\<close>

theorem kelly_maximises_growth:
  assumes "kelly_fraction (Some h) payoff = Inr f" "finite_number h = Inr p" "finite_number payoff = Inr b"
    and "exact (p * b)" "exact (1 - p)" "exact (p * b - (1 - p))" "exact ((p * b - (1 - p)) / b)"
    and "0 \<le> x" "x < 1"
  shows "log_growth (of_rat p) (of_rat b) x \<le> log_growth (of_rat p) (of_rat b) (of_rat f)
    \<and> (p * b \<le> 1 - p \<longrightarrow> f = 0)"
proof -
  let ?p = "of_rat p :: real" and ?b = "of_rat b :: real"
  from assms(1-3) have b: "0 < b" and p: "0 \<le> p" "p \<le> 1"
    and f: "f = (if p * b - (1 - p) \<le> 0 then 0 else (p * b - (1 - p)) / b)"
    using assms(4-7) by (auto elim!: kelly_fractionE simp: dmul_exact dsub_exact ddiv_exact)
  have real: "0 \<le> ?p" "?p \<le> 1" "0 < ?b" using b p by simp_all
  have edge: "p * b \<le> 1 - p \<longleftrightarrow> ?p * ?b \<le> 1 - ?p"
    by (metis of_rat_1 of_rat_diff of_rat_less_eq of_rat_mult)
  show ?thesis
  proof (cases "p * b \<le> 1 - p")
    case True
    then have "f = 0" by (simp add: f)
    moreover have "log_growth ?p ?b 0 = 0" by (simp add: log_growth_def)
    ultimately show ?thesis using log_growth_no_edge[OF real _ assms(8,9)] True edge by simp
  next
    case False
    then have "of_rat f = (?p * ?b - (1 - ?p)) / ?b"
      by (simp add: f of_rat_divide of_rat_diff of_rat_mult)
    then show ?thesis using log_growth_edge[OF real _ assms(8,9)] False edge by simp
  qed
qed

lemma kelly_maximises_growth_witness:
  "log_growth (1 / 2) 2 (1 / 10) \<le> log_growth (1 / 2) 2 (of_rat (1 / 4))"
proof -
  have k: "kelly_fraction (Some (Float_Number (Fin (1 / 2)))) (Decimal_Number (Fin 2)) = Inr (1 / 4)"
    and h: "finite_number (Float_Number (Fin (1 / 2))) = Inr (1 / 2)"
    and e: "exact (1 / 2 * 2)" "exact (1 - 1 / 2)" "exact (1 / 2 * 2 - (1 - 1 / 2))"
      "exact ((1 / 2 * 2 - (1 - 1 / 2)) / 2)"
    unfolding exact_def by code_simp+
  have r: "of_rat (1 / 2) = (1 / 2 :: real)" by (simp add: of_rat_divide)
  show ?thesis
    using kelly_maximises_growth[OF k h finite_number_Fin(1) e, of "1 / 10"] by (simp add: r)
qed

end
