(* ===== verification/Risk.thy ===== *)
theory Risk
  imports Sizing
begin

text \<open>
  The pre-trade risk engine, \<open>src/omni/portfolio/risk.py\<close>: validated limits, and \<open>check\<close>, which lists
  every reason an intent must not be sent. The lemmas show that a permission means every limit was
  evaluated and holds on the book after the trade, that absent evidence refuses, and that leaving a
  correlation out never helps. A number that is not a \<open>Decimal\<close> is represented by NaN, since the code
  treats both as unusable; the free text of a verdict is not kept.
\<close>

section \<open>Limits\<close>

datatype refusal =
    Position_Too_Large | Gross_Exposure_Exceeded | Net_Exposure_Exceeded | Too_Many_Positions
  | Correlation_Limit_Exceeded | Below_Min_Notional | Above_Max_Notional | Daily_Loss_Limit_Hit
  | Max_Drawdown_Hit | Stale_Data | Reconciliation_Divergence | Trading_Halted | No_Limits_Configured
  | No_State_Available | Daily_Pnl_Unknown | Peak_Nav_Unknown | Reconciliation_Unknown

record 'd risk_limits =
  rl_position :: 'd
  rl_gross :: 'd
  rl_net :: 'd
  rl_positions :: int
  rl_correlated :: 'd
  rl_threshold :: 'd
  rl_min_notional :: 'd
  rl_max_notional :: 'd
  rl_daily_loss :: 'd
  rl_drawdown :: 'd
  rl_data_age :: int

definition finite_limits :: "xdecimal risk_limits \<Rightarrow> decimal risk_limits" where
  "finite_limits l = \<lparr>rl_position = finite_part (rl_position l), rl_gross = finite_part (rl_gross l),
     rl_net = finite_part (rl_net l), rl_positions = rl_positions l, rl_correlated = finite_part (rl_correlated l),
     rl_threshold = finite_part (rl_threshold l), rl_min_notional = finite_part (rl_min_notional l),
     rl_max_notional = finite_part (rl_max_notional l), rl_daily_loss = finite_part (rl_daily_loss l),
     rl_drawdown = finite_part (rl_drawdown l), rl_data_age = rl_data_age l\<rparr>"

definition check_fraction :: "xdecimal \<Rightarrow> unit trading" where
  "check_fraction v =
     rbind (ensure (is_finite v) Invalid_Value) (\<lambda>_.
     rbind (ensure (\<not> finite_part v \<le> 0) Invalid_Value) (\<lambda>_.
     ensure (\<not> 1 < finite_part v) Invalid_Value))"

definition check_bound :: "xdecimal \<Rightarrow> unit trading" where
  "check_bound v =
     rbind (ensure (is_finite v) Invalid_Value) (\<lambda>_. ensure (\<not> finite_part v \<le> 0) Invalid_Value)"

definition check_limits :: "xdecimal risk_limits \<Rightarrow> decimal risk_limits trading" where
  "check_limits l =
     rbind (rmap check_fraction [rl_position l, rl_gross l, rl_net l, rl_correlated l, rl_threshold l,
       rl_daily_loss l, rl_drawdown l]) (\<lambda>_.
     rbind (rmap check_bound [rl_min_notional l, rl_max_notional l]) (\<lambda>_.
     rbind (ensure (\<not> finite_part (rl_max_notional l) \<le> finite_part (rl_min_notional l)) Invalid_Value) (\<lambda>_.
     rbind (ensure (\<not> rl_positions l < 1) Invalid_Value) (\<lambda>_.
     rbind (ensure (\<not> rl_data_age l \<le> 0) Invalid_Value) (\<lambda>_. Inr (finite_limits l))))))"

section \<open>What the engine is given\<close>

record holding =
  ho_venue :: string
  ho_symbol :: string
  ho_market :: market_type
  ho_quantity :: xdecimal
  ho_entry :: xdecimal

text \<open>The structural view of the portfolio; \<open>None\<close> for positions it does not report.\<close>

record risk_snapshot =
  rs_nav :: xdecimal
  rs_positions :: "holding list option"

definition snapshot_of :: "portfolio_state \<Rightarrow> risk_snapshot" where
  "snapshot_of st = \<lparr>rs_nav = Fin (st_nav st), rs_positions = Some (map (\<lambda>p. \<lparr>ho_venue = po_venue p,
     ho_symbol = po_symbol p, ho_market = po_market_type p, ho_quantity = Fin (po_quantity p),
     ho_entry = Fin (po_average_entry p)\<rparr>) (st_positions st))\<rparr>"

text \<open>An instant and whether it is timezone-aware.\<close>

type_synonym instant = "bool \<times> int"
type_synonym correlations = "string \<times> string \<Rightarrow> xdecimal option"

record evidence =
  ev_correlations :: "correlations option"
  ev_data_as_of :: "instant option"
  ev_now :: "instant option"
  ev_pnl_today :: "xdecimal option"
  ev_peak_nav :: "xdecimal option"
  ev_halted :: bool
  ev_reconciled :: "bool option"

definition correlation :: "string \<Rightarrow> string \<Rightarrow> correlations option \<Rightarrow> decimal option" where
  "correlation a b cs =
     (case cs of
        None \<Rightarrow> None
      | Some c \<Rightarrow>
          (case (case c (a, b) of None \<Rightarrow> c (b, a) | Some v \<Rightarrow> Some v) of
             None \<Rightarrow> None
           | Some v \<Rightarrow> if \<not> is_finite v \<or> finite_part v < - 1 \<or> 1 < finite_part v then None else Some (finite_part v)))"

section \<open>Exposure after the trade\<close>

text \<open>A position with finite numbers: venue, symbol, market type, quantity and entry.\<close>

type_synonym leg = "string \<times> string \<times> market_type \<times> decimal \<times> decimal"

fun leg_row :: "leg \<Rightarrow> string \<times> string" where "leg_row (v, s, m, q, e) = (v, s)"
fun leg_symbol :: "leg \<Rightarrow> string" where "leg_symbol (v, s, m, q, e) = s"
fun leg_quantity :: "leg \<Rightarrow> decimal" where "leg_quantity (v, s, m, q, e) = q"
fun leg_entry :: "leg \<Rightarrow> decimal" where "leg_entry (v, s, m, q, e) = e"

definition finite_leg :: "holding \<Rightarrow> leg" where
  "finite_leg h = (ho_venue h, ho_symbol h, ho_market h, finite_part (ho_quantity h), finite_part (ho_entry h))"

definition leg_notional :: "leg \<Rightarrow> decimal" where
  "leg_notional l = dmul (dabs (leg_quantity l)) (leg_entry l)"

definition intent_delta :: "intent \<Rightarrow> decimal" where
  "intent_delta i = (if in_side i = Buy then in_quantity i else dneg (in_quantity i))"

definition resulting_quantity :: "intent \<Rightarrow> leg list \<Rightarrow> decimal" where
  "resulting_quantity i legs =
     dadd (dsum (map leg_quantity (filter (\<lambda>l. leg_symbol l = in_symbol i) legs))) (intent_delta i)"

definition resulting_notional :: "intent \<Rightarrow> leg list \<Rightarrow> decimal" where
  "resulting_notional i legs = dmul (dabs (resulting_quantity i legs)) (in_reference_price i)"

text \<open>\<open>d[k] = d.get(k, 0) + q\<close>\<close>

definition add_to :: "('l \<Rightarrow> 'k) \<Rightarrow> ('l \<Rightarrow> decimal) \<Rightarrow> 'l \<Rightarrow> ('k \<times> decimal) list \<Rightarrow> ('k \<times> decimal) list" where
  "add_to key quantity l d = AList.update (key l) (dadd (dict_get d (key l) 0) (quantity l)) d"

definition resulting_book :: "intent \<Rightarrow> leg list \<Rightarrow> ((string \<times> string) \<times> decimal) list" where
  "resulting_book i legs =
     add_to (\<lambda>_. (in_venue i, in_symbol i)) intent_delta i (fold (add_to leg_row leg_quantity) legs [])"

definition set_default :: "leg \<Rightarrow> ((string \<times> string) \<times> decimal) list \<Rightarrow> ((string \<times> string) \<times> decimal) list" where
  "set_default l d = (if map_of d (leg_row l) = None then d @ [(leg_row l, leg_entry l)] else d)"

definition risk_marks :: "intent \<Rightarrow> leg list \<Rightarrow> ((string \<times> string) \<times> decimal) list" where
  "risk_marks i legs = AList.update (in_venue i, in_symbol i) (in_reference_price i) (fold set_default legs [])"

definition resulting_gross :: "intent \<Rightarrow> leg list \<Rightarrow> decimal" where
  "resulting_gross i legs =
     dsum (map (\<lambda>(row, q). dmul (dabs q) (dict_get (risk_marks i legs) row 0)) (resulting_book i legs))"

definition resulting_net :: "intent \<Rightarrow> leg list \<Rightarrow> decimal" where
  "resulting_net i legs =
     dsum (map (\<lambda>(row, q). dmul q (dict_get (risk_marks i legs) row 0)) (resulting_book i legs))"

definition open_count :: "intent \<Rightarrow> leg list \<Rightarrow> int" where
  "open_count i legs =
     int (length (filter (\<lambda>(s, q). q \<noteq> 0)
       (add_to (\<lambda>_. in_symbol i) intent_delta i (fold (add_to leg_symbol leg_quantity) legs []))))"

definition symbol_notional :: "leg list \<Rightarrow> string \<Rightarrow> decimal" where
  "symbol_notional others s = dsum (map leg_notional (filter (\<lambda>l. leg_symbol l = s) others))"

definition correlated_with :: "decimal risk_limits \<Rightarrow> correlations option \<Rightarrow> string \<Rightarrow> string \<Rightarrow> bool" where
  "correlated_with limits cs a s =
     (case correlation a s cs of None \<Rightarrow> True | Some rho \<Rightarrow> rl_threshold limits < dabs rho)"

definition correlated_exposure :: "intent \<Rightarrow> leg list \<Rightarrow> decimal risk_limits \<Rightarrow> correlations option \<Rightarrow> decimal" where
  "correlated_exposure i legs limits cs =
     (let others = filter (\<lambda>l. leg_symbol l \<noteq> in_symbol i) legs
      in fold (\<lambda>s total. let n = symbol_notional others s in
           if n \<le> 0 then total else if correlated_with limits cs (in_symbol i) s then dadd total n else total)
         (sorted_list_of_set (set (map leg_symbol others))) (resulting_notional i legs))"

section \<open>The check\<close>

definition only_if :: "bool \<Rightarrow> refusal \<Rightarrow> refusal list" where
  "only_if c r = (if c then [r] else [])"

text \<open>The clock is read when no \<open>now\<close> is given.\<close>

definition stale :: "int \<Rightarrow> decimal risk_limits option \<Rightarrow> evidence \<Rightarrow> bool" where
  "stale clock limits e =
     (case ev_data_as_of e of
        None \<Rightarrow> True
      | Some (aware, t) \<Rightarrow>
          (case limits of
             None \<Rightarrow> False
           | Some l \<Rightarrow>
               (let (ref_aware, ref) = (case ev_now e of None \<Rightarrow> (True, clock) | Some n \<Rightarrow> n)
                in aware \<noteq> ref_aware \<or> ref - t < 0 \<or> rl_data_age l < ref - t)))"

definition standing_refusals :: "int \<Rightarrow> decimal risk_limits option \<Rightarrow> evidence \<Rightarrow> refusal list" where
  "standing_refusals clock limits e =
     only_if (ev_halted e) Trading_Halted
     @ (case ev_reconciled e of None \<Rightarrow> [Reconciliation_Unknown] | Some ok \<Rightarrow> only_if (\<not> ok) Reconciliation_Divergence)
     @ only_if (limits = None) No_Limits_Configured @ only_if (stale clock limits e) Stale_Data"

definition pnl_refusals :: "decimal risk_limits \<Rightarrow> decimal \<Rightarrow> xdecimal option \<Rightarrow> refusal list" where
  "pnl_refusals limits nav pnl =
     (case pnl of
        None \<Rightarrow> [Daily_Pnl_Unknown]
      | Some x \<Rightarrow>
          if \<not> is_finite x then [Daily_Pnl_Unknown]
          else only_if (finite_part x < 0 \<and> dmul (rl_daily_loss limits) nav < dneg (finite_part x)) Daily_Loss_Limit_Hit)"

definition drawdown_refusals :: "decimal risk_limits \<Rightarrow> decimal \<Rightarrow> xdecimal option \<Rightarrow> refusal list" where
  "drawdown_refusals limits nav peak =
     (case peak of
        None \<Rightarrow> [Peak_Nav_Unknown]
      | Some x \<Rightarrow>
          if \<not> is_finite x \<or> finite_part x \<le> 0 then [Peak_Nav_Unknown]
          else only_if (rl_drawdown limits < ddiv (dsub (finite_part x) nav) (finite_part x)) Max_Drawdown_Hit)"

definition limit_refusals :: "intent \<Rightarrow> decimal \<Rightarrow> leg list \<Rightarrow> decimal risk_limits \<Rightarrow> evidence \<Rightarrow> refusal list" where
  "limit_refusals i nav legs limits e =
     only_if (intent_notional i < rl_min_notional limits) Below_Min_Notional
     @ only_if (rl_max_notional limits < intent_notional i) Above_Max_Notional
     @ only_if (dmul (rl_position limits) nav < resulting_notional i legs) Position_Too_Large
     @ only_if (dmul (rl_gross limits) nav < resulting_gross i legs) Gross_Exposure_Exceeded
     @ only_if (dmul (rl_net limits) nav < dabs (resulting_net i legs)) Net_Exposure_Exceeded
     @ only_if (rl_positions limits < open_count i legs) Too_Many_Positions
     @ only_if (dmul (rl_correlated limits) nav < correlated_exposure i legs limits (ev_correlations e))
         Correlation_Limit_Exceeded
     @ pnl_refusals limits nav (ev_pnl_today e)
     @ drawdown_refusals limits nav (ev_peak_nav e)"

definition state_refusals :: "intent \<Rightarrow> risk_snapshot option \<Rightarrow> decimal risk_limits option \<Rightarrow> evidence \<Rightarrow> refusal list" where
  "state_refusals i state limits e =
     (case state of
        None \<Rightarrow> [No_State_Available]
      | Some s \<Rightarrow>
          (case rs_positions s of
             None \<Rightarrow> [No_State_Available]
           | Some positions \<Rightarrow>
               if \<not> is_finite (rs_nav s) \<or> finite_part (rs_nav s) \<le> 0
                 \<or> list_ex (\<lambda>h. \<not> is_finite (ho_quantity h) \<or> \<not> is_finite (ho_entry h)) positions
               then [No_State_Available]
               else (case limits of
                       None \<Rightarrow> []
                     | Some l \<Rightarrow> limit_refusals i (finite_part (rs_nav s)) (map finite_leg positions) l e)))"

record verdict =
  ve_allowed :: bool
  ve_refusals :: "refusal list"

definition check_verdict :: "verdict \<Rightarrow> verdict trading" where
  "check_verdict v =
     rbind (ensure (\<not> (ve_allowed v \<and> ve_refusals v \<noteq> [])) Invalid_Value) (\<lambda>_.
     rbind (ensure (\<not> (\<not> ve_allowed v \<and> ve_refusals v = [])) Invalid_Value) (\<lambda>_. Inr v))"

definition risk_check :: "int \<Rightarrow> intent \<Rightarrow> risk_snapshot option \<Rightarrow> decimal risk_limits option \<Rightarrow> evidence \<Rightarrow> verdict trading" where
  "risk_check clock i state limits e =
     (let rs = standing_refusals clock limits e @ state_refusals i state limits e
      in check_verdict \<lparr>ve_allowed = (rs = []), ve_refusals = rs\<rparr>)"

section \<open>The book after the trade\<close>

lemma fold_add_to_get:
  "dict_get (fold (add_to key quantity) ls d) k 0
    = foldl dadd (dict_get d k 0) (map quantity (filter (\<lambda>l. key l = k) ls))"
  by (induction ls arbitrary: d) (simp_all add: add_to_def dict_get_update)

lemma fold_add_to_keys:
  "fst ` set (fold (add_to key quantity) ls d) = fst ` set d \<union> key ` set ls"
  by (induction ls arbitrary: d) (auto simp: add_to_def dom_update)

lemma fold_add_to_distinct:
  "distinct (map fst d) \<Longrightarrow> distinct (map fst (fold (add_to key quantity) ls d))"
  by (induction ls arbitrary: d) (simp_all add: add_to_def distinct_update)

lemma dict_get_member:
  "distinct (map fst d) \<Longrightarrow> (k, v) \<in> set d \<Longrightarrow> dict_get d k dflt = v"
  by (simp add: dict_get_def)

text \<open>What is held in a row or a symbol once the intent has traded.\<close>

definition row_after :: "intent \<Rightarrow> leg list \<Rightarrow> string \<times> string \<Rightarrow> decimal" where
  "row_after i legs row =
     (let held = dsum (map leg_quantity (filter (\<lambda>l. leg_row l = row) legs))
      in if row = (in_venue i, in_symbol i) then dadd held (intent_delta i) else held)"

definition symbol_after :: "intent \<Rightarrow> leg list \<Rightarrow> string \<Rightarrow> decimal" where
  "symbol_after i legs s =
     (let held = dsum (map leg_quantity (filter (\<lambda>l. leg_symbol l = s) legs))
      in if s = in_symbol i then dadd held (intent_delta i) else held)"

lemma resulting_book_get: "dict_get (resulting_book i legs) row 0 = row_after i legs row"
  by (simp add: resulting_book_def add_to_def dict_get_update fold_add_to_get row_after_def dsum_def Let_def)

lemma resulting_book_distinct: "distinct (map fst (resulting_book i legs))"
  by (simp add: resulting_book_def add_to_def distinct_update fold_add_to_distinct)

lemma resulting_book_rows: "fst ` set (resulting_book i legs) = insert (in_venue i, in_symbol i) (leg_row ` set legs)"
  by (simp add: resulting_book_def add_to_def dom_update fold_add_to_keys)

lemma resulting_book_entry: "(row, q) \<in> set (resulting_book i legs) \<Longrightarrow> q = row_after i legs row"
  using dict_get_member[OF resulting_book_distinct] resulting_book_get by metis

lemma open_count_card:
  "open_count i legs = int (card {s \<in> insert (in_symbol i) (leg_symbol ` set legs). symbol_after i legs s \<noteq> 0})"
proof -
  let ?d = "add_to (\<lambda>_. in_symbol i) intent_delta i (fold (add_to leg_symbol leg_quantity) legs [])"
  have d: "distinct (map fst ?d)" by (simp add: add_to_def distinct_update fold_add_to_distinct)
  have get: "dict_get ?d s 0 = symbol_after i legs s" for s
    by (simp add: add_to_def dict_get_update fold_add_to_get symbol_after_def dsum_def Let_def)
  have keys: "fst ` set ?d = insert (in_symbol i) (leg_symbol ` set legs)"
    by (simp add: add_to_def dom_update fold_add_to_keys)
  have "(\<lambda>(s, q). q \<noteq> 0) x \<longleftrightarrow> symbol_after i legs (fst x) \<noteq> 0" if "x \<in> set ?d" for x
    using dict_get_member[OF d, of "fst x" "snd x" 0] that get by (cases x) auto
  then have f: "filter (\<lambda>(s, q). q \<noteq> 0) ?d = filter (\<lambda>x. symbol_after i legs (fst x) \<noteq> 0) ?d"
    by (intro filter_cong refl) blast
  have "length (filter (\<lambda>x. symbol_after i legs (fst x) \<noteq> 0) ?d)
      = length (filter (\<lambda>s. symbol_after i legs s \<noteq> 0) (map fst ?d))"
    by (simp add: filter_map o_def)
  also have "\<dots> = card (set (filter (\<lambda>s. symbol_after i legs s \<noteq> 0) (map fst ?d)))"
    using d by (intro distinct_card[symmetric] distinct_filter)
  also have "set (filter (\<lambda>s. symbol_after i legs s \<noteq> 0) (map fst ?d))
      = {s \<in> insert (in_symbol i) (leg_symbol ` set legs). symbol_after i legs s \<noteq> 0}"
    using keys by (auto simp: image_iff)
  finally show ?thesis unfolding open_count_def f by simp
qed

lemma set_default_get:
  "map_of (fold set_default legs d) row
    = (case map_of d row of Some m \<Rightarrow> Some m | None \<Rightarrow> map_option leg_entry (find (\<lambda>l. leg_row l = row) legs))"
  by (induction legs arbitrary: d) (auto simp: set_default_def split: option.splits)

definition mark_after :: "intent \<Rightarrow> leg list \<Rightarrow> string \<times> string \<Rightarrow> decimal" where
  "mark_after i legs row =
     (if row = (in_venue i, in_symbol i) then in_reference_price i
      else case find (\<lambda>l. leg_row l = row) legs of None \<Rightarrow> 0 | Some l \<Rightarrow> leg_entry l)"

lemma risk_marks_get: "dict_get (risk_marks i legs) row 0 = mark_after i legs row"
  by (simp add: risk_marks_def dict_get_update mark_after_def)
    (simp add: dict_get_def set_default_get split: option.split)

lemma resulting_gross_eq:
  "resulting_gross i legs = dsum (map (\<lambda>row. dmul (dabs (row_after i legs row)) (mark_after i legs row)) (map fst (resulting_book i legs)))"
  unfolding resulting_gross_def risk_marks_get
  by (intro arg_cong[where f = dsum]) (auto dest: resulting_book_entry)

text \<open>A sum of amounts that are not negative is at least each of them, even with rounding.\<close>

lemma foldl_dadd_grows:
  assumes "exact a" "\<forall>x\<in>set xs. 0 \<le> x"
  shows "a \<le> foldl dadd a xs"
  using assms
proof (induction xs arbitrary: a)
  case (Cons x xs)
  then have "a \<le> dadd a x" by (simp add: dadd_above)
  also have "\<dots> \<le> foldl dadd (dadd a x) xs" using Cons by simp
  finally show ?case by simp
qed simp

lemma foldl_dadd_nonneg: "0 \<le> a \<Longrightarrow> \<forall>x\<in>set xs. 0 \<le> x \<Longrightarrow> 0 \<le> foldl dadd a xs"
  by (induction xs arbitrary: a) (auto simp: dadd_nonneg)

lemma dsum_ge_member:
  assumes "\<forall>x\<in>set xs. 0 \<le> x" "x \<in> set xs" "exact x"
  shows "x \<le> dsum xs"
proof -
  from assms(2) obtain ys zs where xs: "xs = ys @ x # zs" by (meson split_list)
  have "0 \<le> foldl dadd 0 ys" using assms(1) xs by (intro foldl_dadd_nonneg) auto
  then have "x \<le> dadd (foldl dadd 0 ys) x" using assms(3) by (simp add: dadd_above)
  also have "\<dots> \<le> foldl dadd (dadd (foldl dadd 0 ys) x) zs"
    using assms(1) xs by (intro foldl_dadd_grows) auto
  finally show ?thesis by (simp add: dsum_def xs)
qed

lemma row_within_gross:
  assumes "\<forall>l\<in>set legs. 0 \<le> leg_entry l" "0 \<le> in_reference_price i"
    and "row \<in> insert (in_venue i, in_symbol i) (leg_row ` set legs)"
  shows "dmul (dabs (row_after i legs row)) (mark_after i legs row) \<le> resulting_gross i legs"
  unfolding resulting_gross_eq
proof (rule dsum_ge_member)
  have "0 \<le> mark_after i legs r" for r
    using assms(1,2) by (auto simp: mark_after_def dest!: find_Some_mem split: option.split)
  then show "\<forall>x\<in>set (map (\<lambda>r. dmul (dabs (row_after i legs r)) (mark_after i legs r)) (map fst (resulting_book i legs))). 0 \<le> x"
    by (auto intro!: dmul_nonneg simp: dabs_def)
  show "dmul (dabs (row_after i legs row)) (mark_after i legs row)
      \<in> set (map (\<lambda>r. dmul (dabs (row_after i legs r)) (mark_after i legs r)) (map fst (resulting_book i legs)))"
    using assms(3) by (simp only: resulting_book_rows[symmetric] set_map) (rule imageI)
qed simp

section \<open>Properties\<close>

lemma only_if_Nil [simp]: "only_if c r = [] \<longleftrightarrow> \<not> c"
  by (simp add: only_if_def)

lemma risk_check_eq:
  "risk_check clock i st lo e = Inr \<lparr>ve_allowed = (standing_refusals clock lo e @ state_refusals i st lo e = []),
     ve_refusals = standing_refusals clock lo e @ state_refusals i st lo e\<rparr>"
  by (simp add: risk_check_def check_verdict_def Let_def)

lemma allowed_iff:
  "risk_check clock i st lo e = Inr v \<Longrightarrow> ve_allowed v \<longleftrightarrow> standing_refusals clock lo e = [] \<and> state_refusals i st lo e = []"
  by (auto simp: risk_check_eq)

lemma standing_clear:
  "standing_refusals clock lo e = [] \<longleftrightarrow>
    \<not> ev_halted e \<and> ev_reconciled e = Some True \<and> lo \<noteq> None \<and> \<not> stale clock lo e"
  by (auto simp: standing_refusals_def split: option.splits)

lemma state_clearE:
  assumes "state_refusals i st (Some l) e = []"
  obtains s ps nav where "st = Some s" "rs_positions s = Some ps" "rs_nav s = Fin nav" "0 < nav"
    "\<And>h. h \<in> set ps \<Longrightarrow> is_finite (ho_quantity h) \<and> is_finite (ho_entry h)"
    "limit_refusals i nav (map finite_leg ps) l e = []"
proof (cases st)
  case (Some s)
  with assms obtain ps where ps: "rs_positions s = Some ps" by (cases "rs_positions s") (auto simp: state_refusals_def)
  with Some assms have c: "is_finite (rs_nav s)" "0 < finite_part (rs_nav s)"
    "\<not> list_ex (\<lambda>h. \<not> is_finite (ho_quantity h) \<or> \<not> is_finite (ho_entry h)) ps"
    "limit_refusals i (finite_part (rs_nav s)) (map finite_leg ps) l e = []"
    by (auto simp: state_refusals_def not_le split: if_splits)
  from c(1) obtain nav where "rs_nav s = Fin nav" by (cases "rs_nav s") auto
  with c Some ps show thesis by (intro that[of s ps nav]) (auto simp: list_ex_iff)
qed (use assms in \<open>simp add: state_refusals_def\<close>)

lemma limit_clearE:
  assumes "limit_refusals i nav legs l e = []"
  obtains pnl peak where "rl_min_notional l \<le> intent_notional i" "intent_notional i \<le> rl_max_notional l"
    "resulting_notional i legs \<le> dmul (rl_position l) nav" "resulting_gross i legs \<le> dmul (rl_gross l) nav"
    "dabs (resulting_net i legs) \<le> dmul (rl_net l) nav" "open_count i legs \<le> rl_positions l"
    "correlated_exposure i legs l (ev_correlations e) \<le> dmul (rl_correlated l) nav"
    "ev_pnl_today e = Some (Fin pnl)" "pnl < 0 \<Longrightarrow> dneg pnl \<le> dmul (rl_daily_loss l) nav"
    "ev_peak_nav e = Some (Fin peak)" "0 < peak" "ddiv (dsub peak nav) peak \<le> rl_drawdown l"
proof -
  from assms have p: "pnl_refusals l nav (ev_pnl_today e) = []" "drawdown_refusals l nav (ev_peak_nav e) = []"
    by (auto simp: limit_refusals_def)
  from p(1) obtain pnl where "ev_pnl_today e = Some (Fin pnl)" "\<not> (pnl < 0 \<and> dmul (rl_daily_loss l) nav < dneg pnl)"
    by (auto simp: pnl_refusals_def split: option.splits if_splits elim!: is_finite.elims)
  moreover from p(2) obtain peak where "ev_peak_nav e = Some (Fin peak)" "0 < peak" "\<not> rl_drawdown l < ddiv (dsub peak nav) peak"
    by (auto simp: drawdown_refusals_def not_le split: option.splits if_splits elim!: is_finite.elims)
  ultimately show thesis
    using assms by (intro that[of pnl peak]) (auto simp: limit_refusals_def not_less)
qed

text \<open>The other exposures, read off the book after the trade.\<close>

lemma resulting_quantity_eq: "resulting_quantity i legs = symbol_after i legs (in_symbol i)"
  by (simp add: resulting_quantity_def symbol_after_def Let_def)

lemma resulting_net_eq:
  "resulting_net i legs = dsum (map (\<lambda>row. dmul (row_after i legs row) (mark_after i legs row)) (map fst (resulting_book i legs)))"
  unfolding resulting_net_def risk_marks_get
  by (intro arg_cong[where f = dsum]) (auto dest: resulting_book_entry)

definition symbol_worth :: "leg list \<Rightarrow> string \<Rightarrow> decimal" where
  "symbol_worth legs s = dsum (map leg_notional (filter (\<lambda>l. leg_symbol l = s) legs))"

text \<open>The other symbols that count as correlated with the intent's: those of some worth whose correlation is unknown or beyond
  the threshold.\<close>

definition correlated_symbols :: "intent \<Rightarrow> leg list \<Rightarrow> decimal risk_limits \<Rightarrow> correlations option \<Rightarrow> string list" where
  "correlated_symbols i legs l cs = filter (\<lambda>s. 0 < symbol_worth legs s \<and> correlated_with l cs (in_symbol i) s)
     (sorted_list_of_set (leg_symbol ` set legs - {in_symbol i}))"

lemma correlated_exposure_eq:
  "correlated_exposure i legs l cs = dsum (resulting_notional i legs # map (symbol_worth legs) (correlated_symbols i legs l cs))"
proof -
  let ?others = "filter (\<lambda>l. leg_symbol l \<noteq> in_symbol i) legs"
  have worth: "symbol_notional ?others s = symbol_worth legs s" if "s \<noteq> in_symbol i" for s
  proof -
    have "filter (\<lambda>l. leg_symbol l = s) ?others = filter (\<lambda>l. leg_symbol l = s) legs" using that by (auto intro!: filter_cong)
    then show ?thesis by (simp add: symbol_notional_def symbol_worth_def)
  qed
  have fold: "fold (\<lambda>s total. let n = symbol_notional ?others s in if n \<le> 0 then total
        else if correlated_with l cs (in_symbol i) s then dadd total n else total) ss t
      = foldl dadd t (map (symbol_worth legs) (filter (\<lambda>s. 0 < symbol_worth legs s \<and> correlated_with l cs (in_symbol i) s) ss))"
    if "in_symbol i \<notin> set ss" for ss t
    using that by (induction ss arbitrary: t) (auto simp: Let_def worth not_le)
  have symbols: "set (map leg_symbol ?others) = leg_symbol ` set legs - {in_symbol i}" by auto
  have own: "dadd 0 (resulting_notional i legs) = resulting_notional i legs"
    by (simp add: resulting_notional_def dadd_def dmul_def)
  have "in_symbol i \<notin> set (sorted_list_of_set (leg_symbol ` set legs - {in_symbol i}))" by simp
  from fold[OF this] show ?thesis
    unfolding correlated_exposure_def Let_def symbols by (simp add: correlated_symbols_def dsum_def own)
qed

text \<open>C28. A permission is only given with every fact in hand and every limit kept on the book after the trade: trading is
  not halted, the books were reconciled, the data is fresh, NAV is finite and positive, the day's result and the peak are
  known and inside their limits, and the order size is inside its band. The position in the symbol, the sum of what the rows
  of the book are worth, their signed sum either way, the number of open symbols, and the position together with the worth of
  every other symbol that is correlated with it, or not known not to be, are each inside their limit.\<close>

theorem risk_permission_means:
  assumes "risk_check clock i st lo e = Inr v" "ve_allowed v"
  shows "\<exists>s l ps nav pnl peak. st = Some s \<and> lo = Some l \<and> rs_positions s = Some ps \<and> rs_nav s = Fin nav \<and> 0 < nav
    \<and> \<not> ev_halted e \<and> ev_reconciled e = Some True \<and> \<not> stale clock (Some l) e
    \<and> ev_pnl_today e = Some (Fin pnl) \<and> (pnl < 0 \<longrightarrow> dneg pnl \<le> dmul (rl_daily_loss l) nav)
    \<and> ev_peak_nav e = Some (Fin peak) \<and> 0 < peak \<and> ddiv (dsub peak nav) peak \<le> rl_drawdown l
    \<and> rl_min_notional l \<le> intent_notional i \<and> intent_notional i \<le> rl_max_notional l
    \<and> (let legs = map finite_leg ps; own = dmul (dabs (symbol_after i legs (in_symbol i))) (in_reference_price i) in
        own \<le> dmul (rl_position l) nav
        \<and> (\<exists>rows. distinct rows \<and> set rows = insert (in_venue i, in_symbol i) (leg_row ` set legs)
            \<and> dsum (map (\<lambda>row. dmul (dabs (row_after i legs row)) (mark_after i legs row)) rows) \<le> dmul (rl_gross l) nav
            \<and> dabs (dsum (map (\<lambda>row. dmul (row_after i legs row) (mark_after i legs row)) rows)) \<le> dmul (rl_net l) nav)
        \<and> int (card {a. symbol_after i legs a \<noteq> 0}) \<le> rl_positions l
        \<and> dsum (own # map (symbol_worth legs) (correlated_symbols i legs l (ev_correlations e))) \<le> dmul (rl_correlated l) nav)"
proof -
  from assms(1,2) have c: "standing_refusals clock lo e = []" "state_refusals i st lo e = []"
    by (simp_all add: allowed_iff)
  then obtain l where l: "lo = Some l" by (auto simp: standing_clear)
  from c(2)[unfolded l] obtain s ps nav where s: "st = Some s" "rs_positions s = Some ps" "rs_nav s = Fin nav" "0 < nav"
    and f: "limit_refusals i nav (map finite_leg ps) l e = []" by (elim state_clearE)
  let ?legs = "map finite_leg ps"
  from f obtain pnl peak where k: "rl_min_notional l \<le> intent_notional i" "intent_notional i \<le> rl_max_notional l"
    "resulting_notional i ?legs \<le> dmul (rl_position l) nav" "resulting_gross i ?legs \<le> dmul (rl_gross l) nav"
    "dabs (resulting_net i ?legs) \<le> dmul (rl_net l) nav" "open_count i ?legs \<le> rl_positions l"
    "correlated_exposure i ?legs l (ev_correlations e) \<le> dmul (rl_correlated l) nav"
    and m: "ev_pnl_today e = Some (Fin pnl)" "pnl < 0 \<longrightarrow> dneg pnl \<le> dmul (rl_daily_loss l) nav"
    "ev_peak_nav e = Some (Fin peak)" "0 < peak" "ddiv (dsub peak nav) peak \<le> rl_drawdown l"
    by (elim limit_clearE) blast
  have "{a. symbol_after i ?legs a \<noteq> 0} = {a \<in> insert (in_symbol i) (leg_symbol ` set ?legs). symbol_after i ?legs a \<noteq> 0}"
  proof -
    have "symbol_after i ?legs a = 0" if "a \<notin> insert (in_symbol i) (leg_symbol ` set ?legs)" for a
    proof -
      have "filter (\<lambda>g. leg_symbol g = a) ?legs = []" using that by (auto simp: filter_empty_conv)
      with that show ?thesis by (simp add: symbol_after_def dsum_def)
    qed
    then show ?thesis by blast
  qed
  with k(6) have count: "int (card {a. symbol_after i ?legs a \<noteq> 0}) \<le> rl_positions l" by (simp add: open_count_card)
  have rows: "\<exists>rows. distinct rows \<and> set rows = insert (in_venue i, in_symbol i) (leg_row ` set ?legs)
      \<and> dsum (map (\<lambda>row. dmul (dabs (row_after i ?legs row)) (mark_after i ?legs row)) rows) \<le> dmul (rl_gross l) nav
      \<and> dabs (dsum (map (\<lambda>row. dmul (row_after i ?legs row) (mark_after i ?legs row)) rows)) \<le> dmul (rl_net l) nav"
    using k(4,5) resulting_book_distinct resulting_book_rows unfolding resulting_gross_eq resulting_net_eq
    by (intro exI[of _ "map fst (resulting_book i ?legs)"]) simp
  have own: "resulting_notional i ?legs = dmul (dabs (symbol_after i ?legs (in_symbol i))) (in_reference_price i)"
    by (simp add: resulting_notional_def resulting_quantity_eq)
  show ?thesis
    using s l c k(1,2) m count rows k(3,7)[unfolded own correlated_exposure_eq] unfolding Let_def
    by (intro exI[of _ s] exI[of _ l] exI[of _ ps] exI[of _ nav] exI[of _ pnl] exI[of _ peak]) (simp add: standing_clear)
qed

definition sample_limits :: "decimal risk_limits" where
  "sample_limits = \<lparr>rl_position = 1, rl_gross = 1, rl_net = 1, rl_positions = 5, rl_correlated = 1, rl_threshold = 1 / 2,
     rl_min_notional = 10, rl_max_notional = 900, rl_daily_loss = 1, rl_drawdown = 1, rl_data_age = 60\<rparr>"

definition sample_evidence :: evidence where
  "sample_evidence = \<lparr>ev_correlations = None, ev_data_as_of = Some (True, 5), ev_now = Some (True, 10),
     ev_pnl_today = Some (Fin 0), ev_peak_nav = Some (Fin 1000), ev_halted = False, ev_reconciled = Some True\<rparr>"

definition sample_snapshot :: risk_snapshot where
  "sample_snapshot = \<lparr>rs_nav = Fin 1000, rs_positions = Some []\<rparr>"

lemma sample_allowed:
  "risk_check 0 sample_intent (Some sample_snapshot) (Some sample_limits) sample_evidence
    = Inr \<lparr>ve_allowed = True, ve_refusals = []\<rparr>"
proof -
  have ex: "exact (2 :: rat)" "exact (100 :: rat)" "exact (200 :: rat)" "exact (1000 :: rat)"
    by (rule exact_numeral, simp)+
  have exposure: "resulting_quantity sample_intent [] = - 2" "resulting_notional sample_intent [] = 200"
    "resulting_gross sample_intent [] = 200" "resulting_net sample_intent [] = - 200" "open_count sample_intent [] = 1"
    "correlated_exposure sample_intent [] sample_limits None = 200" "intent_notional sample_intent = 200"
    using ex
    by (simp_all add: resulting_quantity_def resulting_notional_def resulting_gross_def resulting_net_def open_count_def
        correlated_exposure_def intent_notional_def resulting_book_def risk_marks_def add_to_def intent_delta_def dsum_def
        sample_intent_def dadd_def dmul_def dabs_def dneg_def dround_minus dround_exact)
  show ?thesis
    using ex exposure
    by (simp add: risk_check_eq standing_clear state_refusals_def limit_refusals_def pnl_refusals_def drawdown_refusals_def
        stale_def sample_snapshot_def sample_evidence_def only_if_def)
      (simp add: sample_limits_def dmul_def dabs_def dsub_def ddiv_def dround_minus dround_exact)
qed

lemma risk_permission_means_witness:
  "int (card {a. symbol_after sample_intent [] a \<noteq> 0}) \<le> 5
    \<and> (\<exists>rows. set rows = {(in_venue sample_intent, in_symbol sample_intent)}
      \<and> dabs (dsum (map (\<lambda>row. dmul (row_after sample_intent [] row) (mark_after sample_intent [] row)) rows)) \<le> dmul 1 1000)"
  using risk_permission_means[OF sample_allowed]
  by (auto simp: sample_snapshot_def sample_limits_def Let_def)

text \<open>Absence of evidence is a refusal: without limits, a usable portfolio, the age of the data, the day's
  result, a positive peak NAV or a reconciliation, no intent is allowed.\<close>

theorem missing_evidence_refuses:
  assumes "st = None \<or> lo = None \<or> ev_data_as_of e = None \<or> ev_reconciled e = None
      \<or> (\<exists>s. st = Some s \<and> (\<not> is_finite (rs_nav s) \<or> rs_positions s = None))
      \<or> (case ev_pnl_today e of None \<Rightarrow> True | Some x \<Rightarrow> \<not> is_finite x)
      \<or> (case ev_peak_nav e of None \<Rightarrow> True | Some x \<Rightarrow> \<not> is_finite x)"
  shows "\<exists>v. risk_check clock i st lo e = Inr v \<and> \<not> ve_allowed v \<and> ve_refusals v \<noteq> []"
proof -
  have False if c: "standing_refusals clock lo e = []" "state_refusals i st lo e = []"
  proof -
    from c(1) obtain l where l: "lo = Some l" "ev_reconciled e = Some True" "\<not> stale clock lo e" by (auto simp: standing_clear)
    from c(2)[unfolded l] obtain s ps nav where s: "st = Some s" "rs_positions s = Some ps" "rs_nav s = Fin nav"
      and f: "limit_refusals i nav (map finite_leg ps) l e = []" by (elim state_clearE)
    from f obtain pnl peak where "ev_pnl_today e = Some (Fin pnl)" "ev_peak_nav e = Some (Fin peak)"
      by (elim limit_clearE)
    with l s assms show False by (auto simp: stale_def)
  qed
  then show ?thesis by (auto simp: risk_check_eq)
qed

lemma missing_evidence_refuses_witness:
  "\<exists>v. risk_check 0 sample_intent (Some sample_snapshot) (Some sample_limits)
      (sample_evidence\<lparr>ev_pnl_today := Some NaN\<rparr>) = Inr v \<and> \<not> ve_allowed v \<and> ve_refusals v \<noteq> []"
  by (rule missing_evidence_refuses) (simp add: sample_evidence_def)

lemma correlated_fold_mono:
  assumes "a \<le> b" "exact a" "exact b"
  shows "fold (\<lambda>s total. if n s \<le> 0 then total else if P s then dadd total (n s) else total) xs a
    \<le> fold (\<lambda>s total. if n s \<le> 0 then total else dadd total (n s)) xs b"
  using assms
proof (induction xs arbitrary: a b)
  case (Cons x xs)
  have "a \<le> dadd b (n x)" if "\<not> n x \<le> 0" using that Cons.prems dadd_above(1)[of b "n x"] by simp
  with Cons show ?case by (auto simp: dadd_mono)
qed simp

text \<open>An unmeasured correlation counts against the intent: whatever is allowed without any correlation table
  is allowed with every table.\<close>

theorem unmeasured_correlation_is_conservative:
  assumes "risk_check clock i st lo (e\<lparr>ev_correlations := None\<rparr>) = Inr v" "ve_allowed v"
  shows "\<exists>w. risk_check clock i st lo (e\<lparr>ev_correlations := cs\<rparr>) = Inr w \<and> ve_allowed w"
proof -
  let ?n = "e\<lparr>ev_correlations := None\<rparr>" and ?c = "e\<lparr>ev_correlations := cs\<rparr>"
  from assms have c: "standing_refusals clock lo ?n = []" "state_refusals i st lo ?n = []" by (simp_all add: allowed_iff)
  have less: "correlated_exposure i legs l cs \<le> correlated_exposure i legs l None" for legs l
    unfolding correlated_exposure_def Let_def correlated_with_def correlation_def[of _ _ None] option.case if_True
    by (rule correlated_fold_mono) (simp_all add: resulting_notional_def)
  have "limit_refusals i nav legs l ?c = []" if "limit_refusals i nav legs l ?n = []" for nav legs l
    using that order_trans[OF less] by (simp add: limit_refusals_def not_less)
  then have "state_refusals i st lo ?c = []"
    using c(2) by (auto simp: state_refusals_def split: option.splits if_splits)
  moreover have "stale clock lo ?c = stale clock lo ?n" by (simp add: stale_def split: option.split)
  then have "standing_refusals clock lo ?c = []" using c(1) by (simp add: standing_clear)
  ultimately show ?thesis by (simp add: risk_check_eq)
qed

lemma unmeasured_correlation_is_conservative_witness:
  "\<exists>w. risk_check 0 sample_intent (Some sample_snapshot) (Some sample_limits)
      (sample_evidence\<lparr>ev_correlations := Some (\<lambda>p. Some (Fin 1))\<rparr>) = Inr w \<and> ve_allowed w"
proof -
  have "sample_evidence\<lparr>ev_correlations := None\<rparr> = sample_evidence" by (simp add: sample_evidence_def)
  then show ?thesis
    using unmeasured_correlation_is_conservative[of 0 sample_intent "Some sample_snapshot" "Some sample_limits" sample_evidence]
      sample_allowed by simp
qed

text \<open>A long spot and a short perpetual of equal size in one symbol at one venue disappear from the gross
  exposure and from the count of open positions, although they are two positions.\<close>

theorem same_venue_hedge_has_no_gross:
  assumes "exact q" "(v, s) \<noteq> (in_venue i, in_symbol i)" "s \<noteq> in_symbol i"
  shows "resulting_gross i [(v, s, Spot, q, e1), (v, s, Perpetual, - q, e2)] = resulting_gross i []
    \<and> open_count i [(v, s, Spot, q, e1), (v, s, Perpetual, - q, e2)] = open_count i []"
proof -
  let ?legs = "[(v, s, Spot, q, e1), (v, s, Perpetual, - q, e2)]"
  have book: "resulting_book i ?legs = [((v, s), 0), ((in_venue i, in_symbol i), dadd 0 (intent_delta i))]"
    using assms by (auto simp: resulting_book_def add_to_def) (simp_all add: dadd_def)
  have none: "resulting_book i [] = [((in_venue i, in_symbol i), dadd 0 (intent_delta i))]"
    by (simp add: resulting_book_def add_to_def)
  have "dict_get (risk_marks i legs) (in_venue i, in_symbol i) 0 = in_reference_price i" for legs
    by (simp add: risk_marks_get mark_after_def)
  then have "resulting_gross i ?legs = resulting_gross i []"
    unfolding resulting_gross_def book none by (simp add: dsum_def dmul_def dabs_def dadd_def)
  moreover have "open_count i ?legs = open_count i []"
    using assms(1,3) by (auto simp: open_count_def add_to_def) (simp_all add: dadd_def)
  ultimately show ?thesis ..
qed

lemma same_venue_hedge_has_no_gross_witness:
  "resulting_gross sample_intent [(''paper'', ''ETH/USD'', Spot, 5, 2000), (''paper'', ''ETH/USD'', Perpetual, - 5, 2010)]
    = resulting_gross sample_intent []"
proof -
  have "exact (5 :: rat)" by (rule exact_numeral) simp
  from same_venue_hedge_has_no_gross[OF this, of "''paper''" "''ETH/USD''" sample_intent 2000 2010]
  show ?thesis by (simp add: sample_intent_def)
qed

end
