(* ===== verification/Expectancy.thy ===== *)
theory Expectancy
  imports Risk
begin

text \<open>
  Realised expectancy of resolved predictions, \<open>src/omni/trading/expectancy.py\<close>: the P&L of one resolved
  trade in basis points, and the pooled mean with the shape of its sample. The lemmas show that the sign of a
  P&L is the sign of the move in the direction of the call, and that the shares reported next to the mean are
  shares of the whole sample.
\<close>

section \<open>One resolved trade\<close>

datatype direction = Up | Down | Neutral
datatype outcome = Upper | Lower | Expiry | Pending

text \<open>The horizon is the date a prediction ends at, as a day number.\<close>

record resolved_trade =
  rt_entity :: string
  rt_direction :: direction
  rt_outcome :: outcome
  rt_entry :: decimal
  rt_upper :: decimal
  rt_lower :: decimal
  rt_horizon :: int
  rt_exit :: "decimal option"

definition check_trade :: "resolved_trade \<Rightarrow> resolved_trade trading" where
  "check_trade t =
     rbind (ensure (\<not> rt_entry t \<le> 0) Invalid_Value) (\<lambda>_.
     rbind (ensure (rt_lower t < rt_entry t \<and> rt_entry t < rt_upper t) Invalid_Value) (\<lambda>_.
     rbind (ensure (rt_outcome t \<noteq> Pending) Invalid_Value) (\<lambda>_. Inr t)))"

definition target_bps :: "resolved_trade \<Rightarrow> decimal" where
  "target_bps t = dmul (ddiv (dsub (rt_upper t) (rt_entry t)) (rt_entry t)) BPS"

definition stop_bps :: "resolved_trade \<Rightarrow> decimal" where
  "stop_bps t = dmul (ddiv (dsub (rt_entry t) (rt_lower t)) (rt_entry t)) BPS"

definition is_assumed :: "resolved_trade \<Rightarrow> bool" where
  "is_assumed t \<longleftrightarrow> rt_outcome t = Expiry \<and> rt_exit t = None"

definition pnl_bps :: "resolved_trade \<Rightarrow> decimal" where
  "pnl_bps t =
     (case (rt_outcome t, rt_exit t) of
        (Expiry, None) \<Rightarrow> 0
      | (Expiry, Some exit) \<Rightarrow>
          (let move = dmul (ddiv (dsub exit (rt_entry t)) (rt_entry t)) BPS in
           case rt_direction t of Up \<Rightarrow> move | Down \<Rightarrow> dneg move | Neutral \<Rightarrow> 0)
      | (out, _) \<Rightarrow>
          (case rt_direction t of
             Up \<Rightarrow> if out = Upper then target_bps t else dneg (stop_bps t)
           | Down \<Rightarrow> if out = Lower then stop_bps t else dneg (target_bps t)
           | Neutral \<Rightarrow> 0))"

section \<open>The pooled sample\<close>

record expectancy =
  ex_n :: nat
  ex_gross :: decimal
  ex_assumed :: nat
  ex_horizons :: nat
  ex_entities :: "(string \<times> nat \<times> decimal) list"

definition assumed_share :: "expectancy \<Rightarrow> decimal" where
  "assumed_share e = (if ex_n e = 0 then 0 else ddiv (of_nat (ex_assumed e)) (of_nat (ex_n e)))"

definition effective_n :: "expectancy \<Rightarrow> nat" where
  "effective_n e = min (ex_n e) (ex_horizons e)"

definition positive_entities :: "expectancy \<Rightarrow> nat" where
  "positive_entities e = length (filter (\<lambda>(k, c, mean). 0 < mean) (ex_entities e))"

definition contributions :: "expectancy \<Rightarrow> decimal list" where
  "contributions e = map (\<lambda>(k, c, mean). dabs (dmul mean (of_nat c))) (ex_entities e)"

definition concentration :: "expectancy \<Rightarrow> decimal" where
  "concentration e =
     (if ex_entities e = [] then 0
      else let totals = contributions e; grand = dsum totals in
        if grand = 0 then 0 else ddiv (fold max (tl totals) (hd totals)) grand)"

definition expectancy_net :: "expectancy \<Rightarrow> decimal \<Rightarrow> decimal trading" where
  "expectancy_net e cost = rbind (ensure (\<not> cost < 0) Invalid_Value) (\<lambda>_. Inr (dsub (ex_gross e) cost))"

definition by_entity :: "resolved_trade list \<Rightarrow> (string \<times> decimal list) list" where
  "by_entity trades =
     fold (\<lambda>t d. AList.update (rt_entity t) (dict_get d (rt_entity t) [] @ [pnl_bps t]) d) trades []"

definition compute_expectancy :: "resolved_trade list \<Rightarrow> expectancy" where
  "compute_expectancy trades =
     (if trades = [] then \<lparr>ex_n = 0, ex_gross = 0, ex_assumed = 0, ex_horizons = 0, ex_entities = []\<rparr>
      else \<lparr>ex_n = length trades,
            ex_gross = ddiv (dsum (map pnl_bps trades)) (of_nat (length trades)),
            ex_assumed = length (filter is_assumed trades),
            ex_horizons = length (remdups (map rt_horizon trades)),
            ex_entities = sort_key (\<lambda>(k, c, mean). - mean)
              (map (\<lambda>(k, pnls). (k, length pnls, ddiv (dsum pnls) (of_nat (length pnls)))) (by_entity trades))\<rparr>)"

section \<open>The sign of a P&L\<close>

lemma sgn_move: "0 < e \<Longrightarrow> sgn (dmul (ddiv (dsub a e) e) BPS) = sgn (a - e)"
  by (simp add: dmul_def ddiv_def dsub_def BPS_def sgn_mult sgn_divide)

lemma sgn_dneg: "sgn (dneg x) = - sgn x"
  by (simp add: dneg_def sgn_minus)

text \<open>The price a trade closed at.\<close>

definition closing_price :: "resolved_trade \<Rightarrow> decimal" where
  "closing_price t = (case rt_outcome t of Upper \<Rightarrow> rt_upper t | Lower \<Rightarrow> rt_lower t | _ \<Rightarrow> the (rt_exit t))"

text \<open>A realised P&L is a gain exactly when the price moved the way the call said: for a resolved trade with a
  direction and a known closing price, the sign of the P&L is the sign of the move from the entry, reversed for a
  call that says down. Reading the barrier without the side would invert half the book.\<close>

theorem pnl_follows_direction:
  assumes "check_trade t = Inr t" "\<not> is_assumed t"
  shows "sgn (pnl_bps t) = (case rt_direction t of
      Up \<Rightarrow> sgn (closing_price t - rt_entry t) | Down \<Rightarrow> sgn (rt_entry t - closing_price t) | Neutral \<Rightarrow> 0)"
proof -
  have t: "0 < rt_entry t" "rt_outcome t \<noteq> Pending" using assms(1) by (auto simp: check_trade_def result_simps)
  have flip: "sgn (a - b) = - sgn (b - a)" for a b :: rat by (simp add: sgn_if)
  have stop: "sgn (stop_bps t) = sgn (rt_entry t - rt_lower t)"
    using t(1) by (simp add: stop_bps_def dmul_def ddiv_def dsub_def BPS_def sgn_mult sgn_divide)
  show ?thesis
    using t assms(2) stop
    by (cases "rt_outcome t"; cases "rt_direction t"; cases "rt_exit t")
      (simp_all add: pnl_bps_def closing_price_def is_assumed_def sgn_move sgn_dneg Let_def target_bps_def
        flip[of "rt_entry t"])
qed

section \<open>The shape of the sample\<close>

lemma by_entity_spec:
  "distinct (map fst (by_entity trades))"
  "dict_get (by_entity trades) k [] = map pnl_bps (filter (\<lambda>t. rt_entity t = k) trades)"
  "fst ` set (by_entity trades) = rt_entity ` set trades"
proof -
  let ?f = "\<lambda>t d. AList.update (rt_entity t) (dict_get d (rt_entity t) [] @ [pnl_bps t]) d"
  have "distinct (map fst d) \<Longrightarrow> distinct (map fst (fold ?f trades d))" for d
    by (induction trades arbitrary: d) (simp_all add: distinct_update)
  then show "distinct (map fst (by_entity trades))" by (simp add: by_entity_def)
  have "dict_get (fold ?f trades d) k [] = dict_get d k [] @ map pnl_bps (filter (\<lambda>t. rt_entity t = k) trades)" for d
    by (induction trades arbitrary: d) (simp_all add: dict_get_update)
  then show "dict_get (by_entity trades) k [] = map pnl_bps (filter (\<lambda>t. rt_entity t = k) trades)"
    by (simp add: by_entity_def)
  have "fst ` set (fold ?f trades d) = fst ` set d \<union> rt_entity ` set trades" for d
    by (induction trades arbitrary: d) (auto simp: dom_update)
  then show "fst ` set (by_entity trades) = rt_entity ` set trades" by (simp add: by_entity_def)
qed

lemma fold_max_ge: "(a :: decimal) \<le> fold max xs a" "x \<in> set xs \<Longrightarrow> x \<le> fold max xs a" "fold max xs a \<in> insert a (set xs)"
proof (induction xs arbitrary: a)
  case (Cons b xs)
  { case 1 with Cons(1)[of "max b a"] show ?case by simp }
  { case 2 with Cons(1,2)[of "max b a"] show ?case by auto }
  { case 3 with Cons(3)[of "max b a"] show ?case by (auto simp: max_def split: if_splits) }
qed simp_all

lemma concentration_bounds: "0 \<le> concentration e" "concentration e \<le> 1"
proof -
  have "0 \<le> concentration e \<and> concentration e \<le> 1"
  proof (cases "ex_entities e = [] \<or> dsum (contributions e) = 0")
    case True
    then show ?thesis by (auto simp: concentration_def)
  next
    case False
    let ?ts = "contributions e"
    have nonneg: "\<forall>x\<in>set ?ts. 0 \<le> x" and ex: "\<forall>x\<in>set ?ts. exact x" by (auto simp: contributions_def dabs_def)
    have "?ts = hd ?ts # tl ?ts" using False by (simp add: contributions_def)
    then have top: "fold max (tl ?ts) (hd ?ts) \<in> set ?ts" using fold_max_ge(3)[of "tl ?ts" "hd ?ts"] by (metis list.simps(15))
    then have "fold max (tl ?ts) (hd ?ts) \<le> dsum ?ts" using nonneg ex by (intro dsum_ge_member) auto
    moreover have "0 \<le> fold max (tl ?ts) (hd ?ts)" "0 < dsum ?ts"
      using nonneg top False dsum_nonneg[OF nonneg] by auto
    ultimately have "fold max (tl ?ts) (hd ?ts) / dsum ?ts \<le> 1" "0 \<le> fold max (tl ?ts) (hd ?ts) / dsum ?ts" by simp_all
    then have "ddiv (fold max (tl ?ts) (hd ?ts)) (dsum ?ts) \<le> 1" "0 \<le> ddiv (fold max (tl ?ts) (hd ?ts)) (dsum ?ts)"
      using exact_of_int[of 1] by (auto simp: ddiv_def intro: dround_le_exact)
    then show ?thesis using False by (simp add: concentration_def Let_def)
  qed
  then show "0 \<le> concentration e" "concentration e \<le> 1" by auto
qed

lemma sum_length_filter:
  "finite A \<Longrightarrow> f ` set xs \<subseteq> A \<Longrightarrow> (\<Sum>k\<in>A. length (filter (\<lambda>x. f x = k) xs)) = length xs"
proof (induction xs)
  case (Cons x xs)
  have "(\<Sum>k\<in>A. length (filter (\<lambda>y. f y = k) (x # xs)))
      = (\<Sum>k\<in>A. (if k = f x then 1 else 0) + length (filter (\<lambda>y. f y = k) xs))"
    by (intro sum.cong) auto
  also have "\<dots> = 1 + length xs" using Cons by (simp add: sum.distrib sum.delta)
  finally show ?case by simp
qed simp

lemma entities_spec:
  assumes "trades \<noteq> []"
  defines "es \<equiv> ex_entities (compute_expectancy trades)"
  shows "distinct (map fst es)" "sum_list (map (\<lambda>(k, c, mean). c) es) = length trades"
    and "(k, c, mean) \<in> set es \<Longrightarrow> c = length (filter (\<lambda>t. rt_entity t = k) trades) \<and> 0 < c
      \<and> mean = ddiv (dsum (map pnl_bps (filter (\<lambda>t. rt_entity t = k) trades))) (of_nat c)"
proof -
  let ?row = "\<lambda>(k, pnls). (k, length pnls, ddiv (dsum pnls) (of_nat (length pnls)))"
  have es: "es = sort_key (\<lambda>(k, c, mean). - mean) (map ?row (by_entity trades))"
    using assms(1) by (simp add: es_def compute_expectancy_def)
  have set: "set es = ?row ` set (by_entity trades)" by (simp add: es)
  have fst: "fst \<circ> ?row = fst" by auto
  have keys: "distinct (map fst (map ?row (by_entity trades)))" using by_entity_spec(1) by (simp add: fst)
  then have "distinct (map ?row (by_entity trades))" using distinct_map by blast
  then have des: "distinct es" by (simp add: es)
  have "inj_on fst (set es)" using keys unfolding set by (simp only: distinct_map set_map)
  with des show d: "distinct (map fst es)" by (simp add: distinct_map)
  have entry: "pnls = map pnl_bps (filter (\<lambda>t. rt_entity t = k) trades)" if "(k, pnls) \<in> set (by_entity trades)" for k pnls
    using that by_entity_spec(1,2)[of trades] by (metis dict_get_member)
  show row: "c = length (filter (\<lambda>t. rt_entity t = k) trades) \<and> 0 < c
      \<and> mean = ddiv (dsum (map pnl_bps (filter (\<lambda>t. rt_entity t = k) trades))) (of_nat c)"
    if "(k, c, mean) \<in> set es" for k c mean
  proof -
    from that obtain pnls where p: "(k, pnls) \<in> set (by_entity trades)" "c = length pnls" "mean = ddiv (dsum pnls) (of_nat c)"
      unfolding set by auto
    have "k \<in> rt_entity ` set trades" using p(1) by_entity_spec(3)[of trades] by force
    then have "filter (\<lambda>t. rt_entity t = k) trades \<noteq> []" by (auto simp: filter_empty_conv)
    with p entry[OF p(1)] show ?thesis by simp
  qed
  have "sum_list (map (\<lambda>(k, c, mean). c) es) = (\<Sum>x\<in>set es. length (filter (\<lambda>t. rt_entity t = fst x) trades))"
  proof (subst sum_list_distinct_conv_sum_set[OF des], rule sum.cong[OF refl])
    fix x assume "x \<in> set es"
    moreover obtain k c mean where "x = (k, c, mean)" by (cases x)
    ultimately show "(case x of (k, c, mean) \<Rightarrow> c) = length (filter (\<lambda>t. rt_entity t = fst x) trades)" using row by simp
  qed
  also have "\<dots> = (\<Sum>k\<in>fst ` set es. length (filter (\<lambda>t. rt_entity t = k) trades))"
    using d by (subst sum.reindex) (simp_all add: distinct_map)
  also have "\<dots> = length trades"
  proof (rule sum_length_filter)
    have "fst ` set es = fst ` set (by_entity trades)" unfolding set image_image by (simp add: case_prod_beta')
    then show "rt_entity ` set trades \<subseteq> fst ` set es" by (simp add: by_entity_spec(3))
  qed simp
  finally show "sum_list (map (\<lambda>(k, c, mean). c) es) = length trades" .
qed

text \<open>What is reported next to the mean describes the whole sample: every trade is counted under exactly one
  entity, the entities are ordered from the best mean, the effective sample is at most the number of trades and at
  most the number of distinct horizons, and the assumed share and the concentration are between zero and one.\<close>

theorem expectancy_describes_sample:
  "ex_n (compute_expectancy trades) = length trades
    \<and> sum_list (map (\<lambda>(k, c, mean). c) (ex_entities (compute_expectancy trades))) = length trades
    \<and> distinct (map fst (ex_entities (compute_expectancy trades)))
    \<and> sorted (map (\<lambda>(k, c, mean). - mean) (ex_entities (compute_expectancy trades)))
    \<and> effective_n (compute_expectancy trades) = min (length trades) (card (rt_horizon ` set trades))
    \<and> 0 \<le> assumed_share (compute_expectancy trades) \<and> assumed_share (compute_expectancy trades) \<le> 1
    \<and> 0 \<le> concentration (compute_expectancy trades) \<and> concentration (compute_expectancy trades) \<le> 1"
proof (cases "trades = []")
  case True
  then show ?thesis by (simp add: compute_expectancy_def effective_n_def assumed_share_def concentration_def)
next
  case False
  have share: "0 \<le> ddiv (of_nat a) (of_nat n) \<and> ddiv (of_nat a) (of_nat n) \<le> 1" if "a \<le> n" "0 < n" for a n :: nat
    using that exact_of_int[of 1] by (auto simp: ddiv_def divide_le_eq intro!: dround_le_exact)
  have "card (rt_horizon ` set trades) = length (remdups (map rt_horizon trades))"
    by (simp add: length_remdups_card_conv)
  then show ?thesis
    using False share[of "length (filter is_assumed trades)" "length trades"] entities_spec(1,2)[OF False]
      concentration_bounds[of "compute_expectancy trades"]
    by (simp add: compute_expectancy_def effective_n_def assumed_share_def)
qed

definition sample_trade :: resolved_trade where
  "sample_trade = \<lparr>rt_entity = ''ETH'', rt_direction = Down, rt_outcome = Lower, rt_entry = 100, rt_upper = 110,
     rt_lower = 80, rt_horizon = 3, rt_exit = None\<rparr>"

lemma pnl_follows_direction_witness: "0 < pnl_bps sample_trade"
proof -
  have "check_trade sample_trade = Inr sample_trade" "\<not> is_assumed sample_trade" by code_simp+
  from pnl_follows_direction[OF this] have "sgn (pnl_bps sample_trade) = 1"
    by (simp add: sample_trade_def closing_price_def)
  then show ?thesis by (simp add: sgn_if split: if_splits)
qed

end
