(* ===== verification/Eligibility.thy ===== *)
theory Eligibility
  imports Expectancy
begin

text \<open>
  Which findings may be surfaced and which methods may hold capital: the conviction gate,
  \<open>src/omni/conviction/gate.py\<close>, and the trading policy, \<open>src/omni/trading/policy.py\<close>, with its two queries
  over the prediction table. The lemmas show what a permission means, that no other audience's predictions
  take part in it, and that a finding can be surfaced at a confidence whose own record is below the target.
  A hit rate is a quotient of two counters in binary floating point; that division is the argument \<open>quo\<close>
  of the definitions, and a float is represented by the number it denotes.
\<close>

section \<open>The conviction gate\<close>

definition MIN_RESOLVED_FOR_CALIBRATION :: nat where "MIN_RESOLVED_FOR_CALIBRATION = 10"

record calibration =
  cb_claim_type :: string
  cb_method :: string
  cb_low :: rat
  cb_high :: rat
  cb_n :: nat
  cb_hits :: nat

definition hit_rate :: "(nat \<Rightarrow> nat \<Rightarrow> rat) \<Rightarrow> calibration \<Rightarrow> rat option" where
  "hit_rate quo b = (if cb_n b < MIN_RESOLVED_FOR_CALIBRATION then None else Some (quo (cb_hits b) (cb_n b)))"

datatype gate_refusal = Gate_Uncalibrated | Below_Threshold | No_Disconfirming_Search | No_Search_For_Method | Not_Falsifiable

record candidate =
  cd_claim_type :: string
  cd_method :: string
  cd_confidence :: rat
  cd_searched :: bool
  cd_search_supported :: bool
  cd_falsifiable :: bool

record gate_verdict =
  gv_surfaced :: bool
  gv_candidate :: candidate
  gv_refusal :: "gate_refusal option"
  gv_rate :: "rat option"
  gv_threshold :: "rat option"

definition qualifies :: "(nat \<Rightarrow> nat \<Rightarrow> rat) \<Rightarrow> rat \<Rightarrow> calibration \<Rightarrow> bool" where
  "qualifies quo target b = (case hit_rate quo b of None \<Rightarrow> False | Some r \<Rightarrow> target \<le> r)"

definition calibrated_threshold :: "(nat \<Rightarrow> nat \<Rightarrow> rat) \<Rightarrow> calibration list \<Rightarrow> rat \<Rightarrow> rat option" where
  "calibrated_threshold quo buckets target =
     (case map cb_low (filter (qualifies quo target) buckets) of [] \<Rightarrow> None | l # ls \<Rightarrow> Some (fold min ls l))"

definition in_bucket :: "rat \<Rightarrow> calibration \<Rightarrow> bool" where
  "in_bucket confidence b \<longleftrightarrow> cb_low b \<le> confidence \<and> confidence < cb_high b \<or> confidence = 1 \<and> cb_high b = 1"

definition assess :: "(nat \<Rightarrow> nat \<Rightarrow> rat) \<Rightarrow> candidate \<Rightarrow> calibration list \<Rightarrow> rat \<Rightarrow> gate_verdict" where
  "assess quo c buckets target =
     (let relevant = filter (\<lambda>b. cb_claim_type b = cd_claim_type c \<and> cb_method b = cd_method c) buckets;
          refused = (\<lambda>r t. \<lparr>gv_surfaced = False, gv_candidate = c, gv_refusal = Some r, gv_rate = None, gv_threshold = t\<rparr>) in
      case calibrated_threshold quo relevant target of
        None \<Rightarrow> refused Gate_Uncalibrated None
      | Some threshold \<Rightarrow>
          if \<not> cd_falsifiable c then refused Not_Falsifiable (Some threshold)
          else if \<not> cd_search_supported c then refused No_Search_For_Method (Some threshold)
          else if \<not> cd_searched c then refused No_Disconfirming_Search (Some threshold)
          else if cd_confidence c < threshold then refused Below_Threshold (Some threshold)
          else \<lparr>gv_surfaced = True, gv_candidate = c, gv_refusal = None,
                 gv_rate = (case find (in_bucket (cd_confidence c)) relevant of None \<Rightarrow> None | Some b \<Rightarrow> hit_rate quo b),
                 gv_threshold = Some threshold\<rparr>)"

text \<open>\<open>xs[:n]\<close>: a negative \<open>n\<close> counts from the end.\<close>

definition slice_to :: "int \<Rightarrow> 'a list \<Rightarrow> 'a list" where
  "slice_to n xs = (if 0 \<le> n then take (nat n) xs else take (length xs - nat (- n)) xs)"

definition conviction_key :: "gate_verdict \<Rightarrow> rat \<times> rat" where
  "conviction_key v = (- (case gv_rate v of None \<Rightarrow> 0 | Some r \<Rightarrow> r), - cd_confidence (gv_candidate v))"

definition rate_limit_by_conviction :: "gate_verdict list \<Rightarrow> int \<Rightarrow> gate_verdict list" where
  "rate_limit_by_conviction verdicts max_surfaced =
     slice_to max_surfaced (sort_key conviction_key (filter gv_surfaced verdicts))"

section \<open>The prediction table\<close>

text \<open>\<open>pd_backfill\<close> is the marker in the provenance, at either level.\<close>

record prediction_row =
  pd_id :: nat
  pd_entity :: string
  pd_symbol :: "string option"
  pd_kind :: string
  pd_method :: string
  pd_direction :: direction
  pd_confidence :: rat
  pd_entry :: decimal
  pd_upper :: decimal
  pd_lower :: decimal
  pd_exit :: "decimal option"
  pd_horizon :: int
  pd_created :: int
  pd_outcome :: outcome
  pd_audience :: "nat option"
  pd_backfill :: bool

definition visible :: "nat option \<Rightarrow> prediction_row \<Rightarrow> bool" where
  "visible audience r \<longleftrightarrow> pd_audience r = None \<or> pd_audience r = audience"

definition resolved_rows :: "string \<Rightarrow> string \<Rightarrow> nat option \<Rightarrow> prediction_row list \<Rightarrow> prediction_row list" where
  "resolved_rows meth kind audience rows =
     filter (\<lambda>r. pd_method r = meth \<and> pd_kind r = kind \<and> pd_outcome r \<noteq> Pending \<and> visible audience r) rows"

definition width_bucket :: "rat \<Rightarrow> nat" where
  "width_bucket c = (if c < 0 then 0 else if 1 \<le> c then 11 else nat \<lfloor>c * 10\<rfloor> + 1)"

definition is_hit :: "prediction_row \<Rightarrow> bool" where
  "is_hit r \<longleftrightarrow> pd_direction r = Up \<and> pd_outcome r = Upper \<or> pd_direction r = Down \<and> pd_outcome r = Lower
     \<or> pd_direction r = Neutral \<and> pd_outcome r = Expiry"

record bucket_row =
  kr_low :: rat
  kr_high :: rat
  kr_n :: nat
  kr_hits :: nat
  kr_live :: nat

definition bucket_key :: "prediction_row \<Rightarrow> nat option \<times> nat" where
  "bucket_key r = (pd_audience r, width_bucket (pd_confidence r))"

definition bucket_rows :: "prediction_row list \<Rightarrow> bucket_row list" where
  "bucket_rows rows =
     map (\<lambda>k. let g = filter (\<lambda>r. bucket_key r = k) rows in
         \<lparr>kr_low = (of_nat (snd k) - 1) / 10, kr_high = of_nat (snd k) / 10, kr_n = length g,
          kr_hits = length (filter is_hit g), kr_live = length (filter (\<lambda>r. \<not> pd_backfill r) g)\<rparr>)
       (remdups (map bucket_key rows))"

definition trade_of_row :: "prediction_row \<Rightarrow> resolved_trade" where
  "trade_of_row r = \<lparr>rt_entity = (case pd_symbol r of Some s \<Rightarrow> s | None \<Rightarrow> pd_entity r), rt_direction = pd_direction r,
     rt_outcome = pd_outcome r, rt_entry = pd_entry r, rt_upper = pd_upper r, rt_lower = pd_lower r,
     rt_horizon = pd_horizon r div 86400000000, rt_exit = pd_exit r\<rparr>"

definition resolved_trades :: "prediction_row list \<Rightarrow> resolved_trade list" where
  "resolved_trades rows = map trade_of_row (filter (\<lambda>r. pd_direction r \<noteq> Neutral) rows)"

section \<open>The trading policy\<close>

definition MIN_LIVE_RESOLVED_FOR_SCALE :: nat where "MIN_LIVE_RESOLVED_FOR_SCALE = 30"

datatype trading_phase = Paper | Micro | Scale | Halted

datatype ineligible =
    Uncalibrated | Below_Hit_Rate | Insufficient_Resolved | Too_Much_Assumed | Concentrated | Below_Expectancy
  | No_Walk_Forward | Negative_Expectancy | Backfill_Only | Phase_Forbids

record eligibility =
  el_eligible :: bool
  el_phase :: trading_phase
  el_method :: string
  el_kind :: string
  el_resolved :: nat
  el_live :: nat
  el_hit_rate :: "rat option"
  el_reason :: "ineligible option"
  el_measured :: nat
  el_expectancy_n :: nat
  el_effective_n :: nat
  el_gross :: "decimal option"
  el_net :: "decimal option"
  el_assumed :: "decimal option"
  el_concentration :: "decimal option"
  el_positive :: nat

text \<open>The thresholds of one call, all required.\<close>

record bars =
  pb_cost :: xdecimal
  pb_min_expectancy :: xdecimal
  pb_min_effective :: int
  pb_max_assumed :: xdecimal
  pb_max_concentration :: xdecimal

definition check_target :: "xdecimal \<Rightarrow> unit trading" where
  "check_target t = ensure (is_finite t \<and> 0 \<le> finite_part t \<and> finite_part t \<le> 1) Invalid_Value"

definition check_bars :: "bars \<Rightarrow> unit trading" where
  "check_bars b =
     rbind (ensure (is_finite (pb_cost b)) Invalid_Value) (\<lambda>_.
     rbind (ensure (is_finite (pb_min_expectancy b)) Invalid_Value) (\<lambda>_.
     rbind (ensure (is_finite (pb_max_assumed b)) Invalid_Value) (\<lambda>_.
     rbind (ensure (is_finite (pb_max_concentration b)) Invalid_Value) (\<lambda>_.
     rbind (ensure (\<not> finite_part (pb_cost b) < 0) Invalid_Value) (\<lambda>_.
     rbind (ensure (\<not> finite_part (pb_min_expectancy b) \<le> 0) Invalid_Value) (\<lambda>_.
     rbind (ensure (\<not> pb_min_effective b < 1) Invalid_Value) (\<lambda>_.
     rbind (ensure (0 \<le> finite_part (pb_max_assumed b) \<and> finite_part (pb_max_assumed b) \<le> 1) Invalid_Value) (\<lambda>_.
     ensure (0 \<le> finite_part (pb_max_concentration b) \<and> finite_part (pb_max_concentration b) \<le> 1) Invalid_Value))))))))"

text \<open>The reasons in the order they are raised.\<close>

definition policy_reason :: "trading_phase \<Rightarrow> bool option \<Rightarrow> bars \<Rightarrow> expectancy \<Rightarrow> rat option \<Rightarrow> decimal \<Rightarrow> nat \<Rightarrow> ineligible option" where
  "policy_reason phase walk b realised rate net live =
     (if phase = Halted then Some Phase_Forbids
      else if \<not> 0 < ex_n realised \<or> rate = None then Some Uncalibrated
      else if int (effective_n realised) < pb_min_effective b then Some Insufficient_Resolved
      else if finite_part (pb_max_assumed b) < assumed_share realised then Some Too_Much_Assumed
      else if finite_part (pb_max_concentration b) < concentration realised then Some Concentrated
      else if net < finite_part (pb_min_expectancy b) then Some Below_Expectancy
      else if walk = None then Some No_Walk_Forward
      else if walk = Some False then Some Negative_Expectancy
      else if phase = Scale \<and> live < MIN_LIVE_RESOLVED_FOR_SCALE then Some Backfill_Only
      else None)"

definition calibration_of :: "string \<Rightarrow> string \<Rightarrow> bucket_row \<Rightarrow> calibration" where
  "calibration_of kind meth k = \<lparr>cb_claim_type = kind, cb_method = meth, cb_low = kr_low k, cb_high = kr_high k,
     cb_n = kr_n k, cb_hits = kr_hits k\<rparr>"

definition eligible :: "(nat \<Rightarrow> nat \<Rightarrow> rat) \<Rightarrow> prediction_row list \<Rightarrow> string \<Rightarrow> string \<Rightarrow> nat option \<Rightarrow> trading_phase
    \<Rightarrow> xdecimal \<Rightarrow> bool option \<Rightarrow> bars \<Rightarrow> eligibility trading" where
  "eligible quo table meth kind audience phase target walk b =
     rbind (check_target target) (\<lambda>_.
     rbind (check_bars b) (\<lambda>_.
     let rows = resolved_rows meth kind audience table;
         krs = bucket_rows rows;
         buckets = map (calibration_of kind meth) krs in
     rbind (rmap check_trade (resolved_trades rows)) (\<lambda>trades.
     let realised = compute_expectancy trades;
         measured = 0 < ex_n realised;
         report = (\<lambda>v. if measured then Some v else None) in
     rbind (expectancy_net realised (finite_part (pb_cost b))) (\<lambda>net.
     let usable = filter (\<lambda>c. hit_rate quo c \<noteq> None) buckets;
         measured_n = sum_list (map cb_n usable);
         rate = (if usable = [] then None else Some (quo (sum_list (map cb_hits usable)) measured_n));
         live = sum_list (map kr_live krs);
         reason = policy_reason phase walk b realised rate net live in
     Inr \<lparr>el_eligible = (reason = None), el_phase = phase, el_method = meth, el_kind = kind,
          el_resolved = sum_list (map cb_n buckets), el_live = live, el_hit_rate = rate, el_reason = reason,
          el_measured = measured_n, el_expectancy_n = ex_n realised, el_effective_n = effective_n realised,
          el_gross = report (ex_gross realised), el_net = report net, el_assumed = report (assumed_share realised),
          el_concentration = report (concentration realised), el_positive = positive_entities realised\<rparr>))))"

section \<open>What a permission means\<close>

lemma bucket_rows_counts:
  "sum_list (map kr_n (bucket_rows rows)) = length rows"
  "sum_list (map kr_live (bucket_rows rows)) = length (filter (\<lambda>r. \<not> pd_backfill r) rows)"
proof -
  have sums: "sum_list (map (\<lambda>k. length (filter (\<lambda>r. bucket_key r = k) xs)) (remdups (map bucket_key rows))) = length xs"
    if "set xs \<subseteq> set rows" for xs
    using that by (subst sum_list_distinct_conv_sum_set) (auto intro!: sum_length_filter)
  show "sum_list (map kr_n (bucket_rows rows)) = length rows"
    using sums[of rows] by (simp add: bucket_rows_def Let_def o_def)
  have "filter (\<lambda>r. \<not> pd_backfill r) (filter (\<lambda>r. bucket_key r = k) rows)
      = filter (\<lambda>r. bucket_key r = k) (filter (\<lambda>r. \<not> pd_backfill r) rows)" for k
    by (simp add: conj_commute)
  then show "sum_list (map kr_live (bucket_rows rows)) = length (filter (\<lambda>r. \<not> pd_backfill r) rows)"
    using sums[of "filter (\<lambda>r. \<not> pd_backfill r) rows"] by (simp add: bucket_rows_def Let_def o_def)
qed

lemma eligibleE:
  assumes "eligible quo table meth kind audience phase target walk b = Inr e"
  obtains trades net where "check_bars b = Inr ()" "rmap check_trade (resolved_trades (resolved_rows meth kind audience table)) = Inr trades"
    "expectancy_net (compute_expectancy trades) (finite_part (pb_cost b)) = Inr net"
    "el_live e = length (filter (\<lambda>r. \<not> pd_backfill r) (resolved_rows meth kind audience table))"
    "el_reason e = policy_reason phase walk b (compute_expectancy trades) (el_hit_rate e) net (el_live e)"
    "el_eligible e \<longleftrightarrow> el_reason e = None" "el_phase e = phase" "el_method e = meth" "el_kind e = kind"
    "el_net e = (if 0 < ex_n (compute_expectancy trades) then Some net else None)"
proof -
  from assms obtain trades net where t: "check_bars b = Inr ()"
    "rmap check_trade (resolved_trades (resolved_rows meth kind audience table)) = Inr trades"
    "expectancy_net (compute_expectancy trades) (finite_part (pb_cost b)) = Inr net"
    by (auto simp: eligible_def Let_def result_simps)
  from assms show thesis
    by (intro that[OF t]) (simp_all add: eligible_def t Let_def result_simps bucket_rows_counts, auto)
qed

lemma check_trade_same: "check_trade t = Inr u \<Longrightarrow> u = t"
  by (auto simp: check_trade_def result_simps)

lemma rmap_check_trade: "rmap check_trade ts = Inr us \<Longrightarrow> us = ts"
  by (induction ts arbitrary: us) (auto simp: result_simps dest: check_trade_same)

lemma policy_reason_None:
  assumes "policy_reason phase walk b realised rate net live = None"
  shows "phase \<noteq> Halted" "0 < ex_n realised" "rate \<noteq> None" "pb_min_effective b \<le> int (effective_n realised)"
    "assumed_share realised \<le> finite_part (pb_max_assumed b)" "concentration realised \<le> finite_part (pb_max_concentration b)"
    "finite_part (pb_min_expectancy b) \<le> net" "walk = Some True" "phase = Scale \<Longrightarrow> MIN_LIVE_RESOLVED_FOR_SCALE \<le> live"
  using assms by (auto simp: policy_reason_def not_less split: if_splits)

text \<open>C33. A method that may hold capital has earned it: trading is not halted, a hit rate was measured, the sample
  spans enough distinct horizons and is not too assumed or too concentrated, its mean net of the round trip is at
  least the stated minimum and so positive, a walk-forward was run and held, and for the scale phase thirty of
  the resolved predictions this audience may see were live and not backfilled.\<close>

theorem eligible_means:
  assumes "eligible quo table meth kind audience phase target walk b = Inr e" "el_eligible e"
  shows "let rows = resolved_rows meth kind audience table; realised = compute_expectancy (resolved_trades rows);
             net = dsub (ex_gross realised) (finite_part (pb_cost b))
    in phase \<noteq> Halted \<and> el_hit_rate e \<noteq> None \<and> pb_min_effective b \<le> int (effective_n realised)
      \<and> assumed_share realised \<le> finite_part (pb_max_assumed b)
      \<and> concentration realised \<le> finite_part (pb_max_concentration b)
      \<and> 0 < finite_part (pb_min_expectancy b) \<and> finite_part (pb_min_expectancy b) \<le> net \<and> el_net e = Some net
      \<and> walk = Some True
      \<and> (phase = Scale \<longrightarrow> 30 \<le> length (filter (\<lambda>r. \<not> pd_backfill r) rows))"
proof -
  obtain trades net where e: "check_bars b = Inr ()" "rmap check_trade (resolved_trades (resolved_rows meth kind audience table)) = Inr trades"
    "expectancy_net (compute_expectancy trades) (finite_part (pb_cost b)) = Inr net"
    "el_live e = length (filter (\<lambda>r. \<not> pd_backfill r) (resolved_rows meth kind audience table))"
    "el_reason e = policy_reason phase walk b (compute_expectancy trades) (el_hit_rate e) net (el_live e)"
    "el_eligible e \<longleftrightarrow> el_reason e = None" "el_net e = (if 0 < ex_n (compute_expectancy trades) then Some net else None)"
    by (rule eligibleE[OF assms(1)])
  have trades: "trades = resolved_trades (resolved_rows meth kind audience table)" by (rule rmap_check_trade[OF e(2)])
  have net: "net = dsub (ex_gross (compute_expectancy trades)) (finite_part (pb_cost b))"
    using e(3) by (simp add: expectancy_net_def result_simps)
  have "policy_reason phase walk b (compute_expectancy trades) (el_hit_rate e) net (el_live e) = None"
    using e(5,6) assms(2) by simp
  note ok = policy_reason_None[OF this]
  have "0 < finite_part (pb_min_expectancy b)" using e(1) by (simp add: check_bars_def result_simps)
  then show ?thesis
    using ok e(4,7) by (simp add: Let_def trades net MIN_LIVE_RESOLVED_FOR_SCALE_def)
qed

lemma resolved_rows_visible:
  "resolved_rows meth kind audience table
    = filter (\<lambda>r. pd_method r = meth \<and> pd_kind r = kind \<and> pd_outcome r \<noteq> Pending) (filter (visible audience) table)"
  by (simp add: resolved_rows_def conj_ac)

text \<open>No audience's record opens another audience's gate: two prediction tables that agree on the shared
  predictions and on the audience's own give the same verdict, with the same figures in it, whatever other
  audiences have resolved.\<close>

theorem other_audiences_invisible:
  assumes "filter (visible audience) table = filter (visible audience) table'"
  shows "eligible quo table meth kind audience phase target walk b = eligible quo table' meth kind audience phase target walk b"
  unfolding eligible_def resolved_rows_visible assms ..

section \<open>What surfacing means\<close>

lemma fold_min_least: "fold min xs (a :: rat) \<le> a \<and> (\<forall>x\<in>set xs. fold min xs a \<le> x) \<and> fold min xs a \<in> insert a (set xs)"
proof (induction xs arbitrary: a)
  case (Cons b xs)
  from Cons[of "min b a"] show ?case by (auto simp: min_def split: if_splits)
qed simp

lemma threshold_Some:
  assumes "calibrated_threshold quo bs target = Some t"
  shows "\<exists>b\<in>set bs. qualifies quo target b \<and> cb_low b = t" "\<forall>b\<in>set bs. qualifies quo target b \<longrightarrow> t \<le> cb_low b"
proof -
  obtain l ls where l: "map cb_low (filter (qualifies quo target) bs) = l # ls" "t = fold min ls l"
    using assms by (auto simp: calibrated_threshold_def split: list.splits)
  have mem: "x \<in> set (l # ls) \<longleftrightarrow> (\<exists>b\<in>set bs. qualifies quo target b \<and> cb_low b = x)" for x
    unfolding l(1)[symmetric] by auto
  show "\<exists>b\<in>set bs. qualifies quo target b \<and> cb_low b = t" using fold_min_least[of ls l] mem[of t] by (simp add: l(2))
  have "\<forall>x\<in>set (l # ls). t \<le> x" using fold_min_least[of ls l] by (simp add: l(2))
  then show "\<forall>b\<in>set bs. qualifies quo target b \<longrightarrow> t \<le> cb_low b" using mem by blast
qed

text \<open>A surfaced finding rests on resolved outcomes: it can be scored, a disconfirming search ran, and its class
  has a confidence bucket with at least ten resolved predictions, at the target rate, at or below its confidence.\<close>

theorem surfaced_is_calibrated:
  assumes "gv_surfaced (assess quo c buckets target)"
  shows "cd_falsifiable c \<and> cd_search_supported c \<and> cd_searched c
    \<and> (\<exists>b\<in>set buckets. cb_claim_type b = cd_claim_type c \<and> cb_method b = cd_method c \<and> 10 \<le> cb_n b
        \<and> target \<le> quo (cb_hits b) (cb_n b) \<and> cb_low b \<le> cd_confidence c)"
proof -
  let ?rel = "filter (\<lambda>b. cb_claim_type b = cd_claim_type c \<and> cb_method b = cd_method c) buckets"
  from assms obtain t where t: "calibrated_threshold quo ?rel target = Some t"
    by (auto simp: assess_def Let_def split: option.splits)
  with assms have c: "cd_falsifiable c" "cd_search_supported c" "cd_searched c" "t \<le> cd_confidence c"
    by (auto simp: assess_def Let_def split: if_splits)
  obtain b where b: "b \<in> set ?rel" "qualifies quo target b" "cb_low b = t" using threshold_Some(1)[OF t] by blast
  then have "10 \<le> cb_n b \<and> target \<le> quo (cb_hits b) (cb_n b)"
    by (auto simp: qualifies_def hit_rate_def MIN_RESOLVED_FOR_CALIBRATION_def split: if_splits)
  with b c show ?thesis by auto
qed

text \<open>The record at the finding's own confidence plays no part in surfacing it: with one bucket at the target rate,
  a finding above that bucket is surfaced whatever rate its own bucket has, and that rate is reported with it.\<close>

theorem surfaced_whatever_its_bucket:
  assumes "b \<in> set buckets" "cb_claim_type b = cd_claim_type c" "cb_method b = cd_method c" "qualifies quo target b"
    and "cb_low b \<le> cd_confidence c" "cd_falsifiable c" "cd_search_supported c" "cd_searched c"
    and "find (in_bucket (cd_confidence c)) (filter (\<lambda>b. cb_claim_type b = cd_claim_type c \<and> cb_method b = cd_method c) buckets) = Some own"
  shows "gv_surfaced (assess quo c buckets target) \<and> gv_rate (assess quo c buckets target) = hit_rate quo own"
proof -
  let ?rel = "filter (\<lambda>b. cb_claim_type b = cd_claim_type c \<and> cb_method b = cd_method c) buckets"
  have b: "b \<in> set ?rel" using assms(1-3) by simp
  then have "map cb_low (filter (qualifies quo target) ?rel) \<noteq> []" using assms(4) by (auto simp: filter_empty_conv)
  then obtain t where t: "calibrated_threshold quo ?rel target = Some t"
    by (cases "map cb_low (filter (qualifies quo target) ?rel)") (simp_all add: calibrated_threshold_def)
  then have "t \<le> cb_low b" using threshold_Some(2)[OF t] b assms(4) by blast
  then have "\<not> cd_confidence c < t" using assms(5) by simp
  then show ?thesis using t assms(6-9) by (simp add: assess_def Let_def)
qed

section \<open>Samples\<close>

definition exact_quotient :: "nat \<Rightarrow> nat \<Rightarrow> rat" where
  "exact_quotient h n = of_nat h / of_nat n"

definition sample_buckets :: "calibration list" where
  "sample_buckets = [\<lparr>cb_claim_type = ''filing'', cb_method = ''trend.sma'', cb_low = 3 / 10, cb_high = 4 / 10, cb_n = 20, cb_hits = 14\<rparr>,
     \<lparr>cb_claim_type = ''filing'', cb_method = ''trend.sma'', cb_low = 8 / 10, cb_high = 9 / 10, cb_n = 20, cb_hits = 2\<rparr>]"

definition sample_candidate :: candidate where
  "sample_candidate = \<lparr>cd_claim_type = ''filing'', cd_method = ''trend.sma'', cd_confidence = 85 / 100, cd_searched = True,
     cd_search_supported = True, cd_falsifiable = True\<rparr>"

lemma surfaced_is_calibrated_witness:
  "\<exists>b\<in>set sample_buckets. 10 \<le> cb_n b \<and> 6 / 10 \<le> exact_quotient (cb_hits b) (cb_n b)"
proof -
  have "gv_surfaced (assess exact_quotient sample_candidate sample_buckets (6 / 10))" by code_simp
  from surfaced_is_calibrated[OF this] show ?thesis by blast
qed

lemma surfaced_whatever_its_bucket_witness:
  "gv_surfaced (assess exact_quotient sample_candidate sample_buckets (6 / 10))
    \<and> gv_rate (assess exact_quotient sample_candidate sample_buckets (6 / 10)) = Some (1 / 10)"
proof -
  have h: "sample_buckets ! 0 \<in> set sample_buckets" "cb_claim_type (sample_buckets ! 0) = cd_claim_type sample_candidate"
    "cb_method (sample_buckets ! 0) = cd_method sample_candidate" "qualifies exact_quotient (6 / 10) (sample_buckets ! 0)"
    "cb_low (sample_buckets ! 0) \<le> cd_confidence sample_candidate" "cd_falsifiable sample_candidate"
    "cd_search_supported sample_candidate" "cd_searched sample_candidate"
    "find (in_bucket (cd_confidence sample_candidate)) (filter (\<lambda>b. cb_claim_type b = cd_claim_type sample_candidate
      \<and> cb_method b = cd_method sample_candidate) sample_buckets) = Some (sample_buckets ! 1)"
    by code_simp+
  have "hit_rate exact_quotient (sample_buckets ! 1) = Some (1 / 10)" by code_simp
  with surfaced_whatever_its_bucket[OF h] show ?thesis by simp
qed

definition resolved_up :: "nat \<Rightarrow> string \<Rightarrow> nat option \<Rightarrow> prediction_row" where
  "resolved_up i s audience = \<lparr>pd_id = i, pd_entity = ''e'', pd_symbol = Some s, pd_kind = ''crypto'', pd_method = ''trend.sma'',
     pd_direction = Up, pd_confidence = 5 / 10, pd_entry = 1, pd_upper = 2, pd_lower = 1 / 2, pd_exit = None,
     pd_horizon = int i * 86400000000, pd_created = 0, pd_outcome = Upper, pd_audience = audience, pd_backfill = False\<rparr>"

definition sample_table :: "prediction_row list" where
  "sample_table = map (\<lambda>i. resolved_up i (if i mod 2 = 0 then ''ETH'' else ''SOL'') None) [0..<10]"

definition lenient_bars :: bars where
  "lenient_bars = \<lparr>pb_cost = Fin 20, pb_min_expectancy = Fin 5, pb_min_effective = 8, pb_max_assumed = Fin 0, pb_max_concentration = Fin 1\<rparr>"

lemma sample_eligible:
  "\<exists>e. eligible exact_quotient sample_table ''trend.sma'' ''crypto'' (Some 4) Paper (Fin (1 / 2)) (Some True) lenient_bars = Inr e
    \<and> el_eligible e \<and> el_hit_rate e = Some 1"
proof -
  have "rbind (eligible exact_quotient sample_table ''trend.sma'' ''crypto'' (Some 4) Paper (Fin (1 / 2)) (Some True) lenient_bars)
      (\<lambda>e. ensure (el_eligible e \<and> el_hit_rate e = Some 1) Type_Error) = Inr ()"
    by code_simp
  then show ?thesis by (auto simp: result_simps)
qed

lemma eligible_means_witness:
  "\<exists>e. eligible exact_quotient sample_table ''trend.sma'' ''crypto'' (Some 4) Paper (Fin (1 / 2)) (Some True) lenient_bars = Inr e
    \<and> (\<exists>net. el_net e = Some net \<and> 5 \<le> net)"
proof -
  obtain e where e: "eligible exact_quotient sample_table ''trend.sma'' ''crypto'' (Some 4) Paper (Fin (1 / 2)) (Some True) lenient_bars = Inr e"
    "el_eligible e"
    using sample_eligible by blast
  with eligible_means[OF e] show ?thesis by (auto simp: Let_def lenient_bars_def)
qed

lemma other_audiences_invisible_witness:
  "eligible exact_quotient (resolved_up 50 ''BTC'' (Some 9) # sample_table) ''trend.sma'' ''crypto'' (Some 4) Paper (Fin (1 / 2)) (Some True) lenient_bars
    = eligible exact_quotient sample_table ''trend.sma'' ''crypto'' (Some 4) Paper (Fin (1 / 2)) (Some True) lenient_bars"
  by (rule other_audiences_invisible) (simp add: visible_def resolved_up_def)

end
