(* ===== verification/Bridge.thy ===== *)
theory Bridge
  imports Eligibility
begin

text \<open>
  From a prediction to a sized intent, \<open>src/omni/trading/bridge.py\<close>: the refusals in their order, the
  barriers that swap for a short, the size, and the risk engine's verdict. The lemmas show what an intent
  that comes out has passed. \<open>shown\<close> is the decimal a float hit rate prints as; \<open>fresh\<close> is the random key
  an intent is born with; the provenance is reduced to the prediction's id.
\<close>

section \<open>Results\<close>

datatype bridge_refusal =
    Neutral_Direction | Method_Ineligible | Uncalibrated_Hit_Rate | Sized_To_Zero | Risk_Refused
  | Venue_Lacks_Capability | No_Symbol

record bridge_result =
  bg_intent :: "intent option"
  bg_refusal :: "bridge_refusal option"
  bg_eligibility :: eligibility
  bg_risk :: "verdict option"

definition check_bridge_result :: "bridge_result \<Rightarrow> bridge_result trading" where
  "check_bridge_result r =
     rbind (ensure (\<not> (bg_intent r \<noteq> None \<and> bg_refusal r \<noteq> None)) Invalid_Value) (\<lambda>_.
     rbind (ensure (\<not> (bg_intent r = None \<and> bg_refusal r = None)) Invalid_Value) (\<lambda>_. Inr r))"

definition refuse_prediction :: "eligibility \<Rightarrow> verdict option \<Rightarrow> bridge_refusal \<Rightarrow> bridge_result trading" where
  "refuse_prediction el risk reason =
     check_bridge_result \<lparr>bg_intent = None, bg_refusal = Some reason, bg_eligibility = el, bg_risk = risk\<rparr>"

definition barriers :: "side \<Rightarrow> decimal \<Rightarrow> decimal \<Rightarrow> decimal \<times> decimal" where
  "barriers s high low = (if s = Buy then (low, high) else (high, low))"

definition held_here :: "portfolio_state option \<Rightarrow> string \<Rightarrow> string \<Rightarrow> decimal" where
  "held_here state venue symbol =
     (case state of
        None \<Rightarrow> 0
      | Some st \<Rightarrow> dsum (map po_quantity (filter (\<lambda>p. po_venue p = venue \<and> po_symbol p = symbol) (st_positions st))))"

section \<open>The bridge\<close>

definition no_symbol :: "string option \<Rightarrow> bool" where
  "no_symbol s = (case s of None \<Rightarrow> True | Some t \<Rightarrow> strip t = [])"

text \<open>The side of a direction; a neutral prediction has none.\<close>

fun side_of :: "direction \<Rightarrow> side option" where
  "side_of Up = Some Buy"
| "side_of Down = Some Sell"
| "side_of Neutral = None"

definition sized_intent :: "prediction_row \<Rightarrow> side \<Rightarrow> string \<Rightarrow> string \<Rightarrow> market_type \<Rightarrow> decimal \<Rightarrow> string \<Rightarrow> intent" where
  "sized_intent r s venue symbol mt quantity fresh =
     (let (stop, take_profit) = barriers s (pd_upper r) (pd_lower r) in
      \<lparr>in_venue = venue, in_symbol = symbol, in_side = s, in_market_type = mt, in_quantity = quantity,
       in_reference_price = pd_entry r, in_kind = Market, in_limit_price = None, in_stop_price = Some stop,
       in_take_profit_price = Some take_profit, in_expires_at = Some (pd_horizon r), in_reduce_only = False,
       in_provenance = Text.decimal (pd_id r), in_key = fresh\<rparr>)"

definition size_prediction :: "(rat \<Rightarrow> decimal) \<Rightarrow> prediction_row \<Rightarrow> side \<Rightarrow> rat \<Rightarrow> portfolio_state \<Rightarrow> decimal risk_limits
    \<Rightarrow> number \<Rightarrow> number option \<Rightarrow> number option \<Rightarrow> decimal trading" where
  "size_prediction shown r s rate st limits kelly_cap volatility vol_target =
     (let (stop, take_profit) = barriers s (pd_upper r) (pd_lower r); D = (\<lambda>x. Decimal_Number (Fin x)) in
      size_position (D (st_nav st)) (Some (Float_Number (Fin (shown rate)))) (D (pd_entry r)) (D stop) (D take_profit)
        kelly_cap (D (rl_position limits)) volatility vol_target)"

definition prediction_to_intent :: "(rat \<Rightarrow> decimal) \<Rightarrow> int \<Rightarrow> prediction_row \<Rightarrow> eligibility \<Rightarrow> portfolio_state option
    \<Rightarrow> decimal risk_limits option \<Rightarrow> string \<Rightarrow> capabilities \<Rightarrow> string option \<Rightarrow> market_type
    \<Rightarrow> number \<Rightarrow> number option \<Rightarrow> number option \<Rightarrow> evidence \<Rightarrow> string \<Rightarrow> bridge_result trading" where
  "prediction_to_intent shown clock r el state limits venue caps symbol mt kelly_cap volatility vol_target ev fresh =
     (let refuse = refuse_prediction el None in
      if no_symbol symbol then refuse No_Symbol
      else case side_of (pd_direction r) of
        None \<Rightarrow> refuse Neutral_Direction
      | Some s \<Rightarrow>
          if \<not> el_eligible el then refuse Method_Ineligible
          else (case el_hit_rate el of
            None \<Rightarrow> refuse Uncalibrated_Hit_Rate
          | Some rate \<Rightarrow>
              if s = Sell \<and> \<not> cap_shorting caps \<and> held_here state venue (the symbol) \<le> 0 then refuse Venue_Lacks_Capability
              else
                rbind (option_result Invalid_Value state) (\<lambda>st.
                rbind (option_result Invalid_Value limits) (\<lambda>l.
                rbind (size_prediction shown r s rate st l kelly_cap volatility vol_target) (\<lambda>quantity.
                if quantity \<le> 0 then refuse Sized_To_Zero
                else
                  rbind (check_intent (sized_intent r s venue (the symbol) mt quantity fresh)) (\<lambda>i.
                  rbind (risk_check clock i (Some (snapshot_of st)) (Some l) ev) (\<lambda>v.
                  if \<not> ve_allowed v then refuse_prediction el (Some v) Risk_Refused
                  else check_bridge_result \<lparr>bg_intent = Some i, bg_refusal = None, bg_eligibility = el, bg_risk = Some v\<rparr>)))))))"

section \<open>What an intent has passed\<close>

lemma refuse_prediction_eq [simp]:
  "refuse_prediction el v reason = Inr \<lparr>bg_intent = None, bg_refusal = Some reason, bg_eligibility = el, bg_risk = v\<rparr>"
  by (simp add: refuse_prediction_def check_bridge_result_def)

lemma check_intent_same: "check_intent i = Inr j \<Longrightarrow> j = i"
  by (auto simp: check_intent_def result_simps Let_def split: if_splits)

lemma prediction_to_intentE:
  assumes "prediction_to_intent shown clock r el state limits venue caps symbol mt kelly_cap volatility vol_target ev fresh = Inr res"
    and "bg_intent res = Some i"
  obtains s rate st l quantity v where "side_of (pd_direction r) = Some s" "el_eligible el" "el_hit_rate el = Some rate"
    "state = Some st" "limits = Some l" "\<not> no_symbol symbol"
    "s = Sell \<Longrightarrow> cap_shorting caps \<or> 0 < held_here state venue (the symbol)"
    "size_prediction shown r s rate st l kelly_cap volatility vol_target = Inr quantity" "0 < quantity"
    "check_intent i = Inr i" "i = sized_intent r s venue (the symbol) mt quantity fresh"
    "risk_check clock i (Some (snapshot_of st)) (Some l) ev = Inr v" "ve_allowed v" "bg_refusal res = None"
proof -
  from assms obtain s where s: "side_of (pd_direction r) = Some s"
    by (auto simp: prediction_to_intent_def Let_def split: option.splits if_splits)
  with assms obtain rate where rate: "el_hit_rate el = Some rate" "el_eligible el" "\<not> no_symbol symbol"
    by (auto simp: prediction_to_intent_def Let_def split: option.splits if_splits)
  with assms s have cap: "\<not> (s = Sell \<and> \<not> cap_shorting caps \<and> held_here state venue (the symbol) \<le> 0)"
    by (auto simp: prediction_to_intent_def Let_def)
  from assms s rate cap obtain st l quantity where q: "state = Some st" "limits = Some l"
    "size_prediction shown r s rate st l kelly_cap volatility vol_target = Inr quantity" "0 < quantity"
    by (auto simp: prediction_to_intent_def Let_def result_simps not_le split: if_splits)
  let ?i = "sized_intent r s venue (the symbol) mt quantity fresh"
  from assms s rate cap q obtain v where v: "check_intent ?i = Inr i" "risk_check clock i (Some (snapshot_of st)) (Some l) ev = Inr v"
    "ve_allowed v" "bg_refusal res = None"
    by (auto simp: prediction_to_intent_def Let_def result_simps check_bridge_result_def split: if_splits)
  from check_intent_same[OF v(1)] v q s rate cap show thesis
    by (intro that[of s rate st l quantity v]) (auto simp: not_le)
qed

text \<open>C1. An intent that leaves the bridge trades the prediction's own call and nothing else: the method may hold
  capital, an up call buys and a down call sells, the stop is on the losing side of the entry and the target on the
  winning side, also for a short where the barriers swap, the quantity is positive and within the position limit of
  NAV, the intent ends with the prediction's horizon, and the risk engine allowed it against reconciled books.\<close>

theorem intent_trades_the_call:
  assumes "prediction_to_intent shown clock r el (Some st) (Some l) venue caps symbol mt kelly_cap volatility vol_target ev fresh = Inr res"
    and "bg_intent res = Some i"
  shows "el_eligible el \<and> bg_refusal res = None
    \<and> pd_direction r = (if in_side i = Buy then Up else Down)
    \<and> (\<exists>stop target. in_stop_price i = Some stop \<and> in_take_profit_price i = Some target \<and> {stop, target} = {pd_upper r, pd_lower r}
        \<and> (if in_side i = Buy then stop < pd_entry r \<and> pd_entry r < target else target < pd_entry r \<and> pd_entry r < stop))
    \<and> 0 < in_quantity i \<and> in_quantity i \<le> ddiv (dmul (rl_position l) (st_nav st)) (pd_entry r)
    \<and> in_expires_at i = Some (pd_horizon r)
    \<and> (\<exists>v. risk_check clock i (Some (snapshot_of st)) (Some l) ev = Inr v \<and> ve_allowed v) \<and> ev_reconciled ev = Some True"
  using assms
proof (cases rule: prediction_to_intentE)
  case (1 s rate st' l' quantity v)
  then have [simp]: "st' = st" "l' = l" by simp_all
  have i: "in_side i = s" "in_quantity i = quantity" "in_reference_price i = pd_entry r" "in_expires_at i = Some (pd_horizon r)"
    "in_stop_price i = Some (fst (barriers s (pd_upper r) (pd_lower r)))"
    "in_take_profit_price i = Some (snd (barriers s (pd_upper r) (pd_lower r)))"
    by (simp_all add: 1(11) sized_intent_def barriers_def)
  have straddle: "if s = Buy then fst (barriers s (pd_upper r) (pd_lower r)) < pd_entry r \<and> pd_entry r < snd (barriers s (pd_upper r) (pd_lower r))
      else snd (barriers s (pd_upper r) (pd_lower r)) < pd_entry r \<and> pd_entry r < fst (barriers s (pd_upper r) (pd_lower r))"
    using 1(10) i by (auto simp: check_intent_def validate_barriers_def Let_def result_simps not_le split: if_splits)
  have "size_position (Decimal_Number (Fin (st_nav st))) (Some (Float_Number (Fin (shown rate)))) (Decimal_Number (Fin (pd_entry r)))
      (Decimal_Number (Fin (fst (barriers s (pd_upper r) (pd_lower r))))) (Decimal_Number (Fin (snd (barriers s (pd_upper r) (pd_lower r)))))
      kelly_cap (Decimal_Number (Fin (rl_position l))) volatility vol_target = Inr quantity"
    using 1(8) by (simp add: size_prediction_def case_prod_beta' Let_def)
  from size_position_clamped[OF this] have "quantity \<le> ddiv (dmul (rl_position l) (st_nav st)) (pd_entry r)" by simp
  moreover have "pd_direction r = (if s = Buy then Up else Down)" using 1(1) by (cases "pd_direction r") auto
  moreover have "ev_reconciled ev = Some True" using allowed_iff[OF 1(12)] 1(13) by (simp add: standing_clear)
  moreover have "{fst (barriers s (pd_upper r) (pd_lower r)), snd (barriers s (pd_upper r) (pd_lower r))} = {pd_upper r, pd_lower r}"
    by (auto simp: barriers_def)
  ultimately show ?thesis using 1 i straddle by auto
qed

text \<open>A call that falls: an entry of 100 between barriers at 90 and 110, on a book of 1000 in cash.\<close>

definition falling_call :: prediction_row where
  "falling_call = (resolved_up 3 ''ETH/USD'' None)\<lparr>pd_direction := Down, pd_entry := 100, pd_upper := 110, pd_lower := 90\<rparr>"

definition sample_state :: portfolio_state where
  "sample_state = \<lparr>st_portfolio = 7, st_nav = 1000, st_cash = 1000, st_positions = [], st_cash_positions = []\<rparr>"

definition sample_eligibility :: eligibility where
  "sample_eligibility = \<lparr>el_eligible = True, el_phase = Paper, el_method = ''trend.sma'', el_kind = ''crypto'', el_resolved = 10,
     el_live = 10, el_hit_rate = Some (6 / 10), el_reason = None, el_measured = 10, el_expectancy_n = 10, el_effective_n = 10,
     el_gross = Some 90, el_net = Some 70, el_assumed = Some 0, el_concentration = Some (1 / 2), el_positive = 2\<rparr>"

definition falling_intent :: intent where
  "falling_intent = sized_intent falling_call Sell ''paper'' ''ETH/USD'' Perpetual 1 ''k1''"

lemma falling_size:
  "size_prediction (\<lambda>x. x) falling_call Sell (6 / 10) sample_state sample_limits (Decimal_Number (Fin (1 / 2))) None None = Inr 1"
proof -
  have e: "exact (3 / 5)" "exact (2 / 5)" "exact (1 / 5)" "exact (1 / 10)" "exact (10 :: rat)" "exact (90 :: rat)" "exact (110 :: rat)"
    "exact (1000 :: rat)"
    unfolding exact_def by code_simp+
  have "dmul 100 TOL \<le> 1 / 2"
    unfolding dmul_def by (intro dround_le_exact) (simp_all add: TOL_def exact_small)
  then have tol: "dmul 100 TOL < 10" by simp
  show ?thesis
    using tol
    by (simp add: size_prediction_def falling_call_def resolved_up_def sample_state_def sample_limits_def barriers_def
        size_position_def payoff_ratio_def kelly_fraction_def vol_scaled_def Let_def
        ddiv_def dsub_def dmul_def[of 1] dmul_def[of "3 / 5"] dmul_def[of "1 / 5"] dmul_def[of "1 / 10"] dround_exact
        finite_number_def[of "Float_Number x" for x] exact_small e)
qed

definition sample_call :: "bridge_result trading" where
  "sample_call = prediction_to_intent (\<lambda>x. x) 0 falling_call sample_eligibility (Some sample_state) (Some sample_limits) ''paper''
     (sample_caps\<lparr>cap_shorting := True\<rparr>) (Some ''ETH/USD'') Perpetual (Decimal_Number (Fin (1 / 2))) None None sample_evidence ''k1''"

lemma falling_checks:
  "check_intent falling_intent = Inr falling_intent"
  "\<exists>v. risk_check 0 falling_intent (Some (snapshot_of sample_state)) (Some sample_limits) sample_evidence = Inr v \<and> ve_allowed v"
proof -
  have "rbind (check_intent falling_intent) (\<lambda>i. ensure True Type_Error) = Inr ()"
    by code_simp
  then show "check_intent falling_intent = Inr falling_intent"
    using check_intent_same by (auto simp: result_simps)
  have "rbind (risk_check 0 falling_intent (Some (snapshot_of sample_state)) (Some sample_limits) sample_evidence)
      (\<lambda>v. ensure (ve_allowed v) Type_Error) = Inr ()"
    by code_simp
  then show "\<exists>v. risk_check 0 falling_intent (Some (snapshot_of sample_state)) (Some sample_limits) sample_evidence = Inr v \<and> ve_allowed v"
    by (auto simp: result_simps)
qed

lemma intent_trades_the_call_witness:
  "\<exists>res i. sample_call = Inr res \<and> bg_intent res = Some i \<and> in_side i = Sell \<and> in_stop_price i = Some 110 \<and> 0 < in_quantity i"
proof -
  obtain v where v: "risk_check 0 falling_intent (Some (snapshot_of sample_state)) (Some sample_limits) sample_evidence = Inr v" "ve_allowed v"
    using falling_checks(2) by blast
  have sym: "\<not> no_symbol (Some ''ETH/USD'')" by code_simp
  have rate: "size_prediction (\<lambda>x. x) falling_call Sell (3 / 5) sample_state sample_limits (Decimal_Number (Fin (1 / 2))) None None = Inr 1"
    using falling_size by simp
  have up: "side_of (pd_direction falling_call) = Some Sell" by (simp add: falling_call_def)
  have s: "sample_call = Inr \<lparr>bg_intent = Some falling_intent, bg_refusal = None, bg_eligibility = sample_eligibility, bg_risk = Some v\<rparr>"
    using rate falling_checks(1) v sym up
    by (simp add: sample_call_def prediction_to_intent_def falling_intent_def[symmetric] check_bridge_result_def
        option_result_def Let_def sample_eligibility_def)
  have i: "in_side falling_intent = Sell" "in_stop_price falling_intent = Some 110"
    by (simp_all add: falling_intent_def sized_intent_def barriers_def falling_call_def)
  from intent_trades_the_call[OF s[unfolded sample_call_def]] have "0 < in_quantity falling_intent" by simp
  with s i show ?thesis by auto
qed

end
