(* ===== verification/Paper_Venue.thy ===== *)
theory Paper_Venue
  imports Venue_Costs
begin

text \<open>
  The simulated venue, \<open>src/omni/venue/paper_venue.py\<close>: recorded bars, the fill price and size rules,
  execution with its refusals, and the venue's own positions and cash. The lemmas show that no fill
  flatters (inside the bar, at the limit or better, within the volume cap), that the venue's averaging
  and cash rules are those of the book, and that an expiring intent is filled from the bar at its expiry.
  The market window is an argument; the instants are integers. A fill's \<open>raw\<close> payload is kept as
  \<open>rejected\<close> for a refusal, \<open>partial\<close> for an execution of less than was asked and \<open>bar\<close> for any other.
\<close>

section \<open>Bars\<close>

record bar =
  br_symbol :: string
  br_open :: decimal
  br_high :: decimal
  br_low :: decimal
  br_close :: decimal
  br_volume :: decimal
  br_at :: int

definition check_bar :: "bar \<Rightarrow> bar trading" where
  "check_bar b =
     rbind (ensure (\<not> br_high b < br_low b) Invalid_Value) (\<lambda>_.
     rbind (ensure (br_low b \<le> br_open b \<and> br_open b \<le> br_high b) Invalid_Value) (\<lambda>_.
     rbind (ensure (br_low b \<le> br_close b \<and> br_close b \<le> br_high b) Invalid_Value) (\<lambda>_.
     rbind (ensure (\<not> br_volume b < 0) Invalid_Value) (\<lambda>_. Inr b))))"

definition clamp :: "bar \<Rightarrow> decimal \<Rightarrow> decimal" where
  "clamp b price = min (max price (br_low b)) (br_high b)"

text \<open>\<open>RecordedBars\<close>: the latest bar at or before an instant, the first of equals.\<close>

definition recorded_bar :: "(string \<times> bar list) list \<Rightarrow> string \<Rightarrow> int \<Rightarrow> bar option" where
  "recorded_bar bars symbol t =
     (case filter (\<lambda>b. br_at b \<le> t) (dict_get bars symbol []) of
        [] \<Rightarrow> None
      | b # bs \<Rightarrow> Some (fold (\<lambda>c best. if br_at best < br_at c then c else best) bs b))"

definition add_bar :: "bar \<Rightarrow> (string \<times> bar list) list \<Rightarrow> (string \<times> bar list) list" where
  "add_bar b bars = AList.update (br_symbol b) (dict_get bars (br_symbol b) [] @ [b]) bars"

section \<open>The venue\<close>

text \<open>The market window, and the instant \<open>provenance["as_of"]\<close> holds when it holds one.\<close>

record market =
  mk_bar :: "string \<Rightarrow> int \<Rightarrow> bar option"
  mk_stamp :: "string \<Rightarrow> int option"

record paper_venue =
  pv_name :: string
  pv_caps :: capabilities
  pv_spread :: decimal
  pv_cap :: decimal
  pv_impact :: decimal
  pv_quote_asset :: string
  pv_listed :: "string list option"
  pv_balances :: "(string \<times> decimal) list"
  pv_positions :: "((string \<times> market_type) \<times> position) list"
  pv_fills :: "decimal fill list"

definition DEFAULT_PARTICIPATION_CAP :: decimal where "DEFAULT_PARTICIPATION_CAP = 1 / 10"
definition DEFAULT_IMPACT_BPS :: decimal where "DEFAULT_IMPACT_BPS = 100"

definition open_paper_venue :: "capabilities \<Rightarrow> string \<Rightarrow> decimal \<Rightarrow> decimal \<Rightarrow> decimal \<Rightarrow> (string \<times> decimal) list
    \<Rightarrow> string \<Rightarrow> string list option \<Rightarrow> paper_venue trading" where
  "open_paper_venue caps name spread cap impact balances quote_asset listed =
     rbind (ensure (\<not> (cap \<le> 0 \<or> 1 < cap)) Invalid_Value) (\<lambda>_.
     rbind (ensure (\<not> (spread < 0 \<or> impact < 0)) Invalid_Value) (\<lambda>_.
     rbind (ensure (strip quote_asset \<noteq> []) Invalid_Value) (\<lambda>_.
     Inr \<lparr>pv_name = name, pv_caps = caps, pv_spread = spread, pv_cap = cap, pv_impact = impact,
          pv_quote_asset = quote_asset, pv_listed = listed, pv_balances = balances, pv_positions = [], pv_fills = []\<rparr>)))"

definition require_bar :: "market \<Rightarrow> intent \<Rightarrow> bar trading" where
  "require_bar M i =
     rbind (case in_expires_at i of
              Some t \<Rightarrow> Inr t
            | None \<Rightarrow> option_result Venue_Unavailable (mk_stamp M (in_provenance i))) (\<lambda>t.
     option_result Venue_Unavailable (mk_bar M (in_symbol i) t))"

definition fillable_quantity :: "paper_venue \<Rightarrow> intent \<Rightarrow> bar \<Rightarrow> decimal" where
  "fillable_quantity V i b = min (in_quantity i) (dmul (br_volume b) (pv_cap V))"

definition participation :: "decimal \<Rightarrow> bar \<Rightarrow> decimal" where
  "participation quantity b = (if br_volume b \<le> 0 then 1 else ddiv quantity (br_volume b))"

definition price_for :: "paper_venue \<Rightarrow> intent \<Rightarrow> bar \<Rightarrow> decimal \<Rightarrow> decimal option" where
  "price_for V i b quantity =
     (case (in_kind i, in_limit_price i) of
        (Limit, Some limit) \<Rightarrow>
          if in_side i = Buy then (if limit < br_low b then None else Some (clamp b (min limit (br_open b))))
          else (if br_high b < limit then None else Some (clamp b (max limit (br_open b))))
      | _ \<Rightarrow>
          (let half_spread = ddiv (dmul (br_close b) (pv_spread V)) 20000;
               impact = ddiv (dmul (dmul (br_close b) (pv_impact V)) (participation quantity b)) 10000;
               adverse = dadd half_spread impact
           in Some (clamp b (if in_side i = Buy then dadd (br_close b) adverse else dsub (br_close b) adverse))))"

definition venue_fee :: "paper_venue \<Rightarrow> decimal \<Rightarrow> decimal \<Rightarrow> decimal" where
  "venue_fee V price quantity = ddiv (dmul (dmul price quantity) (cap_taker_fee_bps (pv_caps V))) 10000"

definition paper_quote :: "market \<Rightarrow> paper_venue \<Rightarrow> intent \<Rightarrow> quote trading" where
  "paper_quote M V i =
     rbind (require_bar M i) (\<lambda>b.
     let quantity = fillable_quantity V i b in
     rbind (option_result Venue_Unavailable (price_for V i b quantity)) (\<lambda>price.
     check_quote \<lparr>qt_intent = i, qt_expected_price = price, qt_fee = venue_fee V price quantity,
       qt_slippage = dmul (dabs (dsub price (br_close b))) quantity, qt_gas = 0\<rparr>))"

section \<open>Symbols and settlement\<close>

definition symbol_for :: "paper_venue \<Rightarrow> string \<Rightarrow> market_type \<Rightarrow> string option" where
  "symbol_for V asset mt =
     (if \<not> supports (pv_caps V) mt then None
      else let a = strip asset in
        if a = [] then None
        else if CHR ''/'' \<in> set a then Some a
        else if (case pv_listed V of None \<Rightarrow> False | Some l \<Rightarrow> a \<notin> set l) then None
        else Some (a @ ''/'' @ pv_quote_asset V))"

definition settle_asset :: "string \<Rightarrow> string trading" where
  "settle_asset symbol =
     (let q = after_sep (CHR ''/'') symbol in rbind (ensure (q \<noteq> []) Invalid_Value) (\<lambda>_. Inr q))"

definition credit_funding :: "string \<Rightarrow> xdecimal option \<Rightarrow> paper_venue \<Rightarrow> paper_venue trading" where
  "credit_funding symbol amount V =
     rbind (option_result Type_Error amount) (\<lambda>x.
     rbind (ensure (is_finite x) Invalid_Value) (\<lambda>_.
     rbind (settle_asset symbol) (\<lambda>asset.
     Inr (V\<lparr>pv_balances := AList.update asset (dadd (dict_get (pv_balances V) asset 0) (finite_part x)) (pv_balances V)\<rparr>))))"

section \<open>What a fill does to the venue\<close>

definition venue_closed_pnl :: "decimal fill \<Rightarrow> position option \<Rightarrow> decimal" where
  "venue_closed_pnl f existing =
     (case existing of
        None \<Rightarrow> 0
      | Some p \<Rightarrow>
          if po_quantity p = 0 then 0
          else let signed = (if fl_side f = Buy then fl_quantity f else dneg (fl_quantity f)) in
            if (0 < po_quantity p) = (0 < signed) then 0
            else let closed = min (dabs signed) (dabs (po_quantity p)) in
              if 0 < po_quantity p then dmul closed (dsub (fl_price f) (po_average_entry p))
              else dmul closed (dsub (po_average_entry p) (fl_price f)))"

definition venue_cash_flow :: "decimal fill \<Rightarrow> market_type \<Rightarrow> position option \<Rightarrow> decimal" where
  "venue_cash_flow f mt existing =
     (if mt = Perpetual then venue_closed_pnl f existing
      else if fl_side f = Buy then dneg (fill_notional f) else fill_notional f)"

definition debit_cash :: "decimal fill \<Rightarrow> market_type \<Rightarrow> position option \<Rightarrow> (string \<times> decimal) list
    \<Rightarrow> (string \<times> decimal) list trading" where
  "debit_cash f mt existing balances =
     rbind (settle_asset (fl_symbol f)) (\<lambda>asset.
     Inr (AList.update asset (dsub (dadd (dict_get balances asset 0) (venue_cash_flow f mt existing)) (fl_fee f)) balances))"

definition venue_next :: "decimal fill \<Rightarrow> position option \<Rightarrow> decimal \<times> decimal" where
  "venue_next f existing =
     (let signed = (if fl_side f = Buy then fl_quantity f else dneg (fl_quantity f)) in
      case existing of
        None \<Rightarrow> (signed, fl_price f)
      | Some p \<Rightarrow>
          let q = po_quantity p; new = dadd q signed in
          if q = 0 \<or> (0 < q) \<noteq> (0 < signed) then
            (new, if new \<noteq> 0 \<and> (0 < new) \<noteq> (0 < q) then fl_price f else po_average_entry p)
          else
            let total = dadd (dabs q) (dabs signed) in
            (new, ddiv (dadd (dmul (po_average_entry p) (dabs q)) (dmul (fl_price f) (dabs signed))) total))"

definition apply_to_venue :: "decimal fill \<Rightarrow> market_type \<Rightarrow> paper_venue \<Rightarrow> paper_venue trading" where
  "apply_to_venue f mt V =
     (let key = (fl_symbol f, mt); existing = map_of (pv_positions V) key in
      rbind (debit_cash f mt existing (pv_balances V)) (\<lambda>balances.
      let (new_quantity, new_entry) = venue_next f existing in
      if new_quantity = 0 then
        Inr (V\<lparr>pv_balances := balances, pv_positions := AList.delete key (pv_positions V)\<rparr>)
      else
        rbind (check_position \<lparr>po_venue = pv_name V, po_symbol = fl_symbol f, po_market_type = mt,
            po_quantity = new_quantity, po_average_entry = new_entry, po_as_of = fl_at f\<rparr>) (\<lambda>p.
        Inr (V\<lparr>pv_balances := balances, pv_positions := AList.update key p (pv_positions V)\<rparr>))))"

section \<open>Execution\<close>

definition empty_fill :: "intent \<Rightarrow> string \<Rightarrow> int \<Rightarrow> decimal fill" where
  "empty_fill i venue t = \<lparr>fl_intent_id = in_key i, fl_venue = venue, fl_symbol = in_symbol i, fl_side = in_side i,
     fl_quantity = 0, fl_price = 0, fl_fee = 0, fl_at = t, fl_aware = True, fl_external_id = None, fl_raw = ''rejected''\<rparr>"

definition held_quantity :: "paper_venue \<Rightarrow> string \<Rightarrow> market_type \<Rightarrow> decimal" where
  "held_quantity V symbol mt = (case map_of (pv_positions V) (symbol, mt) of None \<Rightarrow> 0 | Some p \<Rightarrow> po_quantity p)"

text \<open>A refused order is an empty fill, a venue that cannot execute raises.\<close>

definition paper_execute :: "market \<Rightarrow> intent \<Rightarrow> paper_venue \<Rightarrow> (decimal fill \<times> paper_venue) trading" where
  "paper_execute M i V =
     rbind (require_bar M i) (\<lambda>b.
     if intent_notional i < cap_min_notional (pv_caps V) then Inr (empty_fill i (pv_name V) (br_at b), V)
     else
       rbind (ensure (supports (pv_caps V) (in_market_type i)) Venue_Unavailable) (\<lambda>_.
       rbind (ensure (\<not> (in_side i = Sell \<and> \<not> cap_shorting (pv_caps V)
           \<and> held_quantity V (in_symbol i) (in_market_type i) < in_quantity i)) Venue_Unavailable) (\<lambda>_.
       let quantity = fillable_quantity V i b in
       if quantity \<le> 0 then Inr (empty_fill i (pv_name V) (br_at b), V)
       else
         (case price_for V i b quantity of
            None \<Rightarrow> Inr (empty_fill i (pv_name V) (br_at b), V)
          | Some price \<Rightarrow>
              let f = \<lparr>fl_intent_id = in_key i, fl_venue = pv_name V, fl_symbol = in_symbol i, fl_side = in_side i,
                fl_quantity = quantity, fl_price = price, fl_fee = venue_fee V price quantity, fl_at = br_at b,
                fl_aware = True, fl_external_id = Some (''paper-'' @ Text.decimal (length (pv_fills V))), fl_raw = (if quantity < in_quantity i then ''partial'' else ''bar'')\<rparr>
              in rbind (check_fill (fill_numbers Fin f)) (\<lambda>_.
                 rbind (apply_to_venue f (in_market_type i) V) (\<lambda>V'.
                 Inr (f, V'\<lparr>pv_fills := pv_fills V' @ [f]\<rparr>)))))))"

section \<open>What the venue reports\<close>

definition venue_positions :: "paper_venue \<Rightarrow> position list" where
  "venue_positions V = map snd (pv_positions V)"

text \<open>\<open>_EPOCH\<close> is instant 0; a balance is reported without its negative part.\<close>

definition venue_balances :: "paper_venue \<Rightarrow> balance list trading" where
  "venue_balances V =
     (let now = (case map fl_at (pv_fills V) of [] \<Rightarrow> 0 | t # ts \<Rightarrow> fold max ts t)
      in rmap (\<lambda>(asset, amount). check_balance \<lparr>ba_venue = pv_name V, ba_asset = asset, ba_free = max amount 0,
           ba_locked = 0, ba_as_of = now\<rparr>) (pv_balances V))"

definition cancel_paper :: "string \<Rightarrow> paper_venue \<Rightarrow> bool" where
  "cancel_paper external_id V = False"

section \<open>Execution, case by case\<close>

lemma paper_executeE:
  assumes "paper_execute M i V = Inr (f, V')"
  obtains b where "require_bar M i = Inr b" "f = empty_fill i (pv_name V) (br_at b)" "V' = V"
  | b price W where "require_bar M i = Inr b" "0 < fillable_quantity V i b" "price_for V i b (fillable_quantity V i b) = Some price"
      "fl_quantity f = fillable_quantity V i b" "fl_price f = price" "fl_at f = br_at b" "fl_side f = in_side i"
      "fl_symbol f = in_symbol i" "fl_venue f = pv_name V" "fl_intent_id f = in_key i" "fl_aware f"
      "fl_fee f = venue_fee V price (fillable_quantity V i b)"
      "valid_fill f" "apply_to_venue f (in_market_type i) V = Inr W" "V' = W\<lparr>pv_fills := pv_fills W @ [f]\<rparr>"
proof -
  from assms obtain b where b: "require_bar M i = Inr b" by (auto simp: paper_execute_def result_simps)
  show thesis
  proof (cases "f = empty_fill i (pv_name V) (br_at b) \<and> V' = V")
    case True
    with b show thesis by (intro that(1)) auto
  next
    case False
    let ?q = "fillable_quantity V i b"
    from assms b False have q: "\<not> ?q \<le> 0"
      by (auto simp: paper_execute_def result_simps Let_def split: if_splits)
    with assms b False obtain price where price: "price_for V i b ?q = Some price"
      by (auto simp: paper_execute_def result_simps Let_def split: if_splits option.splits)
    define g where "g = \<lparr>fl_intent_id = in_key i, fl_venue = pv_name V, fl_symbol = in_symbol i, fl_side = in_side i,
                fl_quantity = ?q, fl_price = price, fl_fee = venue_fee V price ?q, fl_at = br_at b,
                fl_aware = True, fl_external_id = Some (''paper-'' @ Text.decimal (length (pv_fills V))), fl_raw = (if ?q < in_quantity i then ''partial'' else ''bar'')\<rparr>"
    from assms b False q price have "rbind (check_fill (fill_numbers Fin g)) (\<lambda>_.
                 rbind (apply_to_venue g (in_market_type i) V) (\<lambda>V'. Inr (g, V'\<lparr>pv_fills := pv_fills V' @ [g]\<rparr>))) = Inr (f, V')"
      unfolding g_def by (auto simp: paper_execute_def result_simps Let_def split: if_splits)
    then obtain W where "f = g" "valid_fill f" "apply_to_venue f (in_market_type i) V = Inr W"
      "V' = W\<lparr>pv_fills := pv_fills W @ [f]\<rparr>"
      by (auto simp: result_simps check_fill_finite)
    with b q price show thesis by (intro that(2)[of b price W]) (auto simp: g_def)
  qed
qed

section \<open>A sample market\<close>

definition sample_bars :: "(string \<times> bar list) list" where
  "sample_bars = [(''BTC/USDT'', [
     \<lparr>br_symbol = ''BTC/USDT'', br_open = 100, br_high = 110, br_low = 90, br_close = 100, br_volume = 1000, br_at = 10\<rparr>,
     \<lparr>br_symbol = ''BTC/USDT'', br_open = 100, br_high = 102, br_low = 80, br_close = 100, br_volume = 1000, br_at = 20\<rparr>])]"

definition late_bar :: bar where
  "late_bar = \<lparr>br_symbol = ''BTC/USDT'', br_open = 100, br_high = 102, br_low = 80, br_close = 100, br_volume = 1000, br_at = 20\<rparr>"

definition sample_market :: market where
  "sample_market = \<lparr>mk_bar = recorded_bar sample_bars, mk_stamp = (\<lambda>_. None)\<rparr>"

definition sample_venue :: paper_venue where
  "sample_venue = \<lparr>pv_name = ''paper'', pv_caps = sample_caps\<lparr>cap_taker_fee_bps := 10\<rparr>, pv_spread = 200, pv_cap = 1,
     pv_impact = 100, pv_quote_asset = ''USDT'', pv_listed = None, pv_balances = [(''USDT'', 1000)],
     pv_positions = [], pv_fills = []\<rparr>"

definition sample_short :: intent where
  "sample_short = sample_perp\<lparr>in_quantity := 1000, in_expires_at := Some 20\<rparr>"

definition sample_fill :: "decimal fill" where
  "sample_fill = \<lparr>fl_intent_id = ''k1'', fl_venue = ''paper'', fl_symbol = ''BTC/USDT'', fl_side = Sell,
     fl_quantity = 1000, fl_price = 98, fl_fee = 98, fl_at = 20, fl_aware = True, fl_external_id = Some ''paper-0'', fl_raw = ''bar''\<rparr>"

definition sample_venue_after :: paper_venue where
  "sample_venue_after = sample_venue\<lparr>pv_balances := [(''USDT'', 902)],
     pv_positions := [((''BTC/USDT'', Perpetual), \<lparr>po_venue = ''paper'', po_symbol = ''BTC/USDT'', po_market_type = Perpetual,
       po_quantity = - 1000, po_average_entry = 98, po_as_of = 20\<rparr>)], pv_fills := [sample_fill]\<rparr>"

lemma sample_bar: "require_bar sample_market sample_short = Inr late_bar" "check_bar late_bar = Inr late_bar"
  by code_simp+

lemma sample_execution: "paper_execute sample_market sample_short sample_venue = Inr (sample_fill, sample_venue_after)"
  by code_simp

section \<open>Fills that do not flatter\<close>

lemma clamp_range: "br_low b \<le> br_high b \<Longrightarrow> br_low b \<le> clamp b x \<and> clamp b x \<le> br_high b"
  by (auto simp: clamp_def)

lemma clamp_least: "y \<le> x \<Longrightarrow> y \<le> br_high b \<Longrightarrow> y \<le> clamp b x"
  by (auto simp: clamp_def)

lemma clamp_greatest: "x \<le> y \<Longrightarrow> br_low b \<le> y \<Longrightarrow> clamp b x \<le> y"
  by (auto simp: clamp_def)

text \<open>A taker pays at least the close when buying and receives at most the close when selling.\<close>

lemma taker_price:
  assumes "check_bar b = Inr b'" "0 \<le> br_low b" "0 \<le> pv_spread V" "0 \<le> pv_impact V" "0 \<le> quantity" "exact (br_close b)"
    and "in_limit_price i = None" "price_for V i b quantity = Some price"
  shows "if in_side i = Buy then br_close b \<le> price else price \<le> br_close b"
proof -
  have b: "br_low b \<le> br_close b" "br_close b \<le> br_high b" "0 \<le> br_volume b"
    using assms(1) by (auto simp: check_bar_def result_simps)
  have c: "0 \<le> br_close b" using assms(2) b by simp
  have p: "0 \<le> participation quantity b" using assms(5) b by (auto simp: participation_def intro: ddiv_nonneg)
  define a where "a = dadd (ddiv (dmul (br_close b) (pv_spread V)) 20000)
    (ddiv (dmul (dmul (br_close b) (pv_impact V)) (participation quantity b)) 10000)"
  have a: "0 \<le> a" unfolding a_def using c assms(3,4) p by (intro dadd_nonneg ddiv_nonneg dmul_nonneg) auto
  have price: "price = clamp b (if in_side i = Buy then dadd (br_close b) a else dsub (br_close b) a)"
    using assms(7,8) by (auto simp: price_for_def a_def Let_def split: order_kind.splits option.splits if_splits)
  have "br_close b \<le> dadd (br_close b) a" using a assms(6) by (simp add: dadd_above)
  moreover have "dsub (br_close b) a \<le> br_close b"
    unfolding dsub_def using a assms(6) by (intro dround_le_exact) auto
  ultimately show ?thesis unfolding price using b by (auto intro: clamp_least clamp_greatest)
qed

text \<open>C29. A paper execution never flatters: either nothing is filled and the venue is unchanged, or the fill is
  dated and priced inside the bar it was matched with, takes at most the order and at most the capped share of
  the bar's volume, never improves on a limit, and without a limit is no better than the close.\<close>

theorem paper_fill_never_flatters:
  assumes "paper_execute M i V = Inr (f, V')" "require_bar M i = Inr b" "check_bar b = Inr b'"
    and "0 \<le> br_low b" "exact (br_close b)" "0 \<le> pv_spread V" "0 \<le> pv_impact V"
    and "in_kind i = Limit \<longleftrightarrow> in_limit_price i \<noteq> None"
  shows "fl_quantity f = 0 \<and> V' = V
    \<or> 0 < fl_quantity f \<and> fl_quantity f \<le> in_quantity i \<and> fl_quantity f \<le> dmul (br_volume b) (pv_cap V)
      \<and> br_low b \<le> fl_price f \<and> fl_price f \<le> br_high b \<and> fl_at f = br_at b \<and> fl_side f = in_side i
      \<and> (case in_limit_price i of
           Some limit \<Rightarrow> if in_side i = Buy then fl_price f \<le> limit else limit \<le> fl_price f
         | None \<Rightarrow> if in_side i = Buy then br_close b \<le> fl_price f else fl_price f \<le> br_close b)"
  using assms(1)
proof (cases rule: paper_executeE)
  case (1 c)
  then show ?thesis by (simp add: empty_fill_def)
next
  case (2 c price W)
  have c: "c = b" using 2(1) assms(2) by simp
  let ?q = "fillable_quantity V i b"
  have q: "?q \<le> in_quantity i" "?q \<le> dmul (br_volume b) (pv_cap V)" by (simp_all add: fillable_quantity_def)
  have bar: "br_low b \<le> br_high b" "br_low b \<le> br_open b" "br_open b \<le> br_high b"
    using assms(3) by (auto simp: check_bar_def result_simps)
  have inside: "br_low b \<le> price \<and> price \<le> br_high b"
    using 2(3) bar(1) unfolding c
    by (auto simp: price_for_def Let_def clamp_range split: order_kind.splits option.splits if_splits)
  have limit: "if in_side i = Buy then price \<le> l else l \<le> price" if "in_limit_price i = Some l" for l
    using 2(3) assms(8) bar that unfolding c
    by (auto simp: price_for_def split: order_kind.splits if_splits intro!: clamp_greatest clamp_least)
  have taker: "if in_side i = Buy then br_close b \<le> price else price \<le> br_close b" if "in_limit_price i = None"
    using taker_price[OF assms(3,4,6,7) _ assms(5) that 2(3)[unfolded c]] 2(2) c by simp
  show ?thesis
    using 2 q inside limit taker unfolding c by (cases "in_limit_price i") auto
qed

lemma paper_fill_never_flatters_witness:
  "fl_quantity sample_fill \<le> in_quantity sample_short \<and> fl_price sample_fill \<le> br_close late_bar"
proof -
  have e: "exact (br_close late_bar)" by (simp add: late_bar_def exact_numeral)
  show ?thesis
    using paper_fill_never_flatters[OF sample_execution sample_bar _ e]
    by (simp add: late_bar_def sample_venue_def sample_short_def sample_perp_def sample_intent_def sample_fill_def)
qed

section \<open>The venue and the book keep the same position and the same cash\<close>

definition pos_triple :: "position \<Rightarrow> decimal \<times> decimal \<times> int" where
  "pos_triple p = (po_quantity p, po_average_entry p, po_as_of p)"

lemma signed_fill_eq: "(if s = Buy then q else dneg q) = signed_fill s q"
  by (simp add: signed_fill_def)

lemma dmul_commute: "dmul a b = dmul b a"
  by (simp add: dmul_def mult.commute)

text \<open>The venue's averaging is the averaging of the book.\<close>

lemma venue_next_leg:
  assumes "0 < fl_quantity f" "exact (fl_quantity f)"
    and "\<And>p. existing = Some p \<Longrightarrow> po_quantity p \<noteq> 0 \<and> exact (po_quantity p)"
  shows "next_leg f (map_option pos_triple existing)
    = (let (n, e) = venue_next f existing in if n = 0 then None else Some (n, e, fl_at f))"
proof (cases existing)
  case None
  let ?d = "signed_fill (fl_side f) (fl_quantity f)"
  have "exact ?d" "?d \<noteq> 0" using assms(1,2) by (auto simp: signed_fill_def dneg_exact)
  with None show ?thesis by (simp add: next_leg_def venue_next_def next_position_def signed_fill_eq Let_def)
next
  case (Some p)
  define q where "q = po_quantity p"
  define d where "d = signed_fill (fl_side f) (fl_quantity f)"
  have q: "q \<noteq> 0" "exact q" using assms(3) Some by (auto simp: q_def)
  have d: "d \<noteq> 0" "exact d" using assms(1,2) by (auto simp: d_def signed_fill_def dneg_exact)
  have total: "dadd (dabs q) (dabs d) = dabs (dadd q d)" if "(0 < q) = (0 < d)"
  proof -
    have "\<bar>q\<bar> + \<bar>d\<bar> = \<bar>q + d\<bar>" using that q(1) d(1) by linarith
    moreover have "\<bar>dround x\<bar> = dround \<bar>x\<bar>" for x by (simp add: abs_if dround_minus)
    ultimately show ?thesis using q d by (simp add: dadd_def dabs_def dround_exact)
  qed
  have keep: "(0 < dadd q d) = (0 < q)" if "(0 < q) = (0 < d)"
    using that q(1) d(1) dadd_sign(1)[of q d] by linarith
  let ?n = "dadd q d" and ?e = "po_average_entry p"
  have book: "next_leg f (map_option pos_triple existing) = (if ?n = 0 then None else Some (?n,
      (if (0 < q) \<noteq> (0 < ?n) then fl_price f
       else if (0 < d) = (0 < q) then ddiv (dadd (dmul (dabs q) ?e) (dmul (dabs d) (fl_price f))) (dabs ?n) else ?e), fl_at f))"
    using q(1) by (simp add: Some pos_triple_def next_leg_def next_position_def q_def d_def Let_def)
  have venue: "venue_next f existing = (?n, if (0 < q) \<noteq> (0 < d) then (if ?n \<noteq> 0 \<and> (0 < ?n) \<noteq> (0 < q) then fl_price f else ?e)
      else ddiv (dadd (dmul ?e (dabs q)) (dmul (fl_price f) (dabs d))) (dadd (dabs q) (dabs d)))"
    using q(1) by (simp add: Some venue_next_def signed_fill_eq q_def d_def Let_def)
  show ?thesis
  proof (cases "(0 < q) = (0 < d)")
    case True
    then show ?thesis unfolding book venue total[OF True]
      using keep[OF True] by (simp add: dmul_commute[of ?e] dmul_commute[of "fl_price f"])
  next
    case False
    then show ?thesis unfolding book venue by auto
  qed
qed

lemma venue_flow_leg:
  assumes "0 < fl_quantity f"
  shows "leg_cash f mt (map_option pos_triple existing) = dsub (venue_cash_flow f mt existing) (fl_fee f)"
proof -
  let ?d = "signed_fill (fl_side f) (fl_quantity f)"
  have none: "closed_pnl 0 e sd n pr = 0" for e sd n pr
    by (simp add: closed_pnl_def closed_quantity_def dmul_def)
  have pnl: "venue_closed_pnl f (Some p) = closed_pnl (po_quantity p) (po_average_entry p) (fl_side f) (fl_quantity f) (fl_price f)" for p
  proof (cases "po_quantity p = 0 \<or> (0 < po_quantity p) = (0 < ?d)")
    case True
    then show ?thesis
      by (auto simp: venue_closed_pnl_def closed_pnl_def closed_quantity_def signed_fill_eq Let_def dmul_def)
  next
    case False
    then show ?thesis
      by (simp add: venue_closed_pnl_def closed_pnl_def closed_quantity_def signed_fill_eq Let_def eq_commute[of "0 < ?d"])
  qed
  show ?thesis
    by (cases existing; cases "fl_side f") (simp_all add: leg_cash_def cash_delta_def venue_cash_flow_def pos_triple_def pnl none venue_closed_pnl_def[of f None])
qed

definition venue_ok :: "paper_venue \<Rightarrow> bool" where
  "venue_ok V \<longleftrightarrow> distinct (map fst (pv_positions V))
     \<and> (\<forall>(k, x)\<in>set (pv_positions V). k = (po_symbol x, po_market_type x) \<and> po_venue x = pv_name V
          \<and> po_quantity x \<noteq> 0 \<and> exact (po_quantity x) \<and> 0 < po_average_entry x)"

definition venue_position :: "string \<Rightarrow> string \<times> market_type \<Rightarrow> decimal \<times> decimal \<times> int \<Rightarrow> position" where
  "venue_position name k v = \<lparr>po_venue = name, po_symbol = fst k, po_market_type = snd k, po_quantity = fst v,
     po_average_entry = fst (snd v), po_as_of = snd (snd v)\<rparr>"

interpretation venue_store: leg_store "\<lambda>ps k. map_option pos_triple (map_of ps k)"
  "\<lambda>k v. AList.update k (venue_position name k v)" AList.delete for name
  by unfold_locales (simp_all add: update_conv' delete_conv' pos_triple_def venue_position_def)

interpretation venue_rows: leg_store "\<lambda>rows k. select_position rows (p, name, k)"
  "\<lambda>k. upsert_position (p, name, k)" "\<lambda>k. delete_position (p, name, k)" for p name
  by unfold_locales (auto simp: select_upsert_position select_delete_position)

interpretation venue_book: leg_simulation "\<lambda>ps k. map_option pos_triple (map_of ps k)"
  "\<lambda>k v. AList.update k (venue_position name k v)" AList.delete
  "\<lambda>rows k. select_position rows (p, name, k)" "\<lambda>k. upsert_position (p, name, k)" "\<lambda>k. delete_position (p, name, k)"
  for name p
  by unfold_locales

lemma apply_to_venueE:
  assumes "apply_to_venue f mt V = Inr W" "venue_ok V" "valid_fill f" "0 < fl_quantity f" "exact (fl_quantity f)"
  obtains asset where "settle_asset (fl_symbol f) = Inr asset"
    "W = V\<lparr>pv_balances := AList.update asset (dsub (dadd (dict_get (pv_balances V) asset 0)
            (venue_cash_flow f mt (map_of (pv_positions V) (fl_symbol f, mt)))) (fl_fee f)) (pv_balances V),
          pv_positions := set_leg (\<lambda>k v. AList.update k (venue_position (pv_name V) k v)) AList.delete (fl_symbol f, mt)
            (next_leg f (map_option pos_triple (map_of (pv_positions V) (fl_symbol f, mt)))) (pv_positions V)\<rparr>"
proof -
  let ?k = "(fl_symbol f, mt)"
  define existing where "existing = map_of (pv_positions V) ?k"
  have ex: "po_quantity p \<noteq> 0 \<and> exact (po_quantity p)" if "existing = Some p" for p
    using that assms(2) by (auto simp: existing_def venue_ok_def dest!: map_of_SomeD)
  obtain n e where ne: "venue_next f existing = (n, e)" by fastforce
  have leg: "next_leg f (map_option pos_triple existing) = (if n = 0 then None else Some (n, e, fl_at f))"
    using venue_next_leg[OF assms(4,5) ex] by (simp add: ne)
  from assms(1) obtain asset where asset: "settle_asset (fl_symbol f) = Inr asset"
    by (auto simp: apply_to_venue_def debit_cash_def result_simps Let_def)
  define bal where "bal = AList.update asset
    (dsub (dadd (dict_get (pv_balances V) asset 0) (venue_cash_flow f mt existing)) (fl_fee f)) (pv_balances V)"
  have "debit_cash f mt existing (pv_balances V) = Inr bal" by (simp add: debit_cash_def asset bal_def)
  then have W: "(if n = 0 then Inr (V\<lparr>pv_balances := bal, pv_positions := AList.delete ?k (pv_positions V)\<rparr>)
      else rbind (check_position (venue_position (pv_name V) ?k (n, e, fl_at f)))
        (\<lambda>p. Inr (V\<lparr>pv_balances := bal, pv_positions := AList.update ?k p (pv_positions V)\<rparr>))) = Inr W"
    using assms(1) by (cases "n = 0") (simp_all add: apply_to_venue_def Let_def existing_def[symmetric] ne venue_position_def)
  have "W = V\<lparr>pv_balances := bal, pv_positions := set_leg (\<lambda>k v. AList.update k (venue_position (pv_name V) k v))
      AList.delete ?k (next_leg f (map_option pos_triple existing)) (pv_positions V)\<rparr>"
    using W by (auto simp: leg set_leg_def result_simps check_position_def split: if_splits)
  with asset show thesis by (intro that) (simp_all add: bal_def existing_def)
qed

text \<open>The cash of one venue and asset in the book.\<close>

definition venue_cash :: "nat \<Rightarrow> string \<Rightarrow> string \<Rightarrow> cash_row list \<Rightarrow> rat" where
  "venue_cash p v a rows =
     (case find (\<lambda>r. ca_portfolio r = p \<and> ca_venue r = v \<and> ca_asset r = a) rows of None \<Rightarrow> 0 | Some r \<Rightarrow> ca_free r)"

lemma venue_cash_upsert:
  "venue_cash p v a (upsert_cash p' v' a' x t rows)
    = venue_cash p v a rows + (if p' = p \<and> v' = v \<and> a' = a then x else 0)"
  by (induction rows) (auto simp: venue_cash_def)

text \<open>The book of a portfolio holds at this venue what the venue holds.\<close>

definition mirrors :: "paper_venue \<Rightarrow> book \<Rightarrow> nat \<Rightarrow> string \<Rightarrow> bool" where
  "mirrors V B p base \<longleftrightarrow>
     (\<lambda>k. map_option pos_triple (map_of (pv_positions V) k)) = (\<lambda>k. select_position (bk_positions B) (p, pv_name V, k))
     \<and> dict_get (pv_balances V) base 0 = venue_cash p (pv_name V) base (bk_cash B)"

text \<open>Adding the flow and taking the fee does not round.\<close>

definition cash_unrounded :: "decimal \<Rightarrow> decimal \<Rightarrow> decimal \<Rightarrow> bool" where
  "cash_unrounded balance flow fee \<longleftrightarrow> exact (balance + flow) \<and> exact (balance + flow - fee) \<and> exact (flow - fee)"

lemma set_AList_update: "x \<in> set (AList.update k v d) \<Longrightarrow> x = (k, v) \<or> x \<in> set d"
  by (induction d) (auto split: if_splits)

lemma set_leg_venue_ok:
  assumes "venue_ok V" "position_checks leg" "\<And>q e t. leg = Some (q, e, t) \<Longrightarrow> exact q"
  shows "venue_ok (V\<lparr>pv_balances := bal, pv_positions :=
    set_leg (\<lambda>k v. AList.update k (venue_position (pv_name V) k v)) AList.delete k leg (pv_positions V)\<rparr>)"
proof (cases leg)
  case None
  have "set (AList.delete k (pv_positions V)) \<subseteq> set (pv_positions V)" by (auto simp: AList.delete_eq)
  with None assms(1) show ?thesis by (auto simp: venue_ok_def set_leg_def distinct_delete)
next
  case (Some v)
  obtain q e t where v: "v = (q, e, t)" by (cases v)
  let ?new = "(k, venue_position (pv_name V) k v)"
  have "case x of (j, y) \<Rightarrow> j = (po_symbol y, po_market_type y) \<and> po_venue y = pv_name V
      \<and> po_quantity y \<noteq> 0 \<and> exact (po_quantity y) \<and> 0 < po_average_entry y"
    if "x \<in> set (AList.update k (venue_position (pv_name V) k v) (pv_positions V))" for x
    using set_AList_update[OF that]
  proof
    assume "x = ?new"
    with Some assms(2,3) show ?thesis by (simp add: position_checks_def v venue_position_def)
  qed (use assms(1) in \<open>auto simp: venue_ok_def\<close>)
  with Some assms(1) show ?thesis by (simp add: venue_ok_def set_leg_def distinct_update)
qed

lemma next_leg_exact: "exact (fl_quantity f) \<Longrightarrow> next_leg f held = Some (q, e, t) \<Longrightarrow> exact q"
  by (auto simp: next_leg_def next_position_def Let_def split: if_splits prod.splits option.splits)

lemma apply_to_venue_mirrors:
  assumes "apply_to_venue f mt V = Inr W" "mirrors V B p base" "venue_ok V" "book_inv B" "portfolio_base B p = Some base"
    and "settle_asset (fl_symbol f) = Inr base" "valid_fill f" "fl_aware f" "0 < fl_quantity f" "exact (fl_quantity f)"
    and "fl_venue f = pv_name V"
    and "cash_unrounded (dict_get (pv_balances V) base 0)
      (venue_cash_flow f mt (map_of (pv_positions V) (fl_symbol f, mt))) (fl_fee f)"
  shows "venue_ok W \<and> (\<exists>B'. apply_fill_rows p f mt B = Inr B' \<and> book_inv B' \<and> portfolio_base B' p = Some base
    \<and> mirrors W B' p base)"
proof -
  let ?k = "(fl_symbol f, mt)"
  let ?held = "map_option pos_triple (map_of (pv_positions V) ?k)"
  have agree: "(\<lambda>k. map_option pos_triple (map_of (pv_positions V) k)) = (\<lambda>k. select_position (bk_positions B) (p, pv_name V, k))"
    and cash: "dict_get (pv_balances V) base 0 = venue_cash p (pv_name V) base (bk_cash B)"
    using assms(2) by (simp_all add: mirrors_def)
  have held: "select_position (bk_positions B) (p, fl_venue f, fl_symbol f, mt) = ?held"
    using fun_cong[OF agree, of ?k] assms(11) by simp
  from apply_to_venueE[OF assms(1,3,7,9,10)] assms(6)
  have W: "W = V\<lparr>pv_balances := AList.update base (dsub (dadd (dict_get (pv_balances V) base 0)
            (venue_cash_flow f mt (map_of (pv_positions V) ?k))) (fl_fee f)) (pv_balances V),
          pv_positions := set_leg (\<lambda>k v. AList.update k (venue_position (pv_name V) k v)) AList.delete ?k
            (next_leg f ?held) (pv_positions V)\<rparr>"
    by auto
  from apply_fill_rows_total[OF assms(4,7,8,5)] obtain B' where B': "apply_fill_rows p f mt B = Inr B'" "book_inv B'"
    "bk_portfolios B' = bk_portfolios B" .
  from B'(1) have checks: "position_checks (next_leg f ?held)"
    and pos: "bk_positions B' = set_leg (\<lambda>k. upsert_position (p, pv_name V, k)) (\<lambda>k. delete_position (p, pv_name V, k)) ?k
        (next_leg f ?held) (bk_positions B)"
    and rows: "bk_cash B' = upsert_cash p (pv_name V) base (leg_cash f mt ?held) (fl_at f) (bk_cash B)"
    using assms(5,11) held by (auto elim!: apply_fill_rowsE simp: set_leg_def split: option.split)
  have "venue_ok W" unfolding W by (rule set_leg_venue_ok[OF assms(3) checks next_leg_exact[OF assms(10)]])
  moreover have "(\<lambda>k. map_option pos_triple (map_of (pv_positions W) k))
      = (\<lambda>k. select_position (bk_positions B') (p, pv_name W, k))"
    unfolding W pos by (simp add: venue_book.agree_set[OF agree])
  moreover have "dict_get (pv_balances W) base 0 = venue_cash p (pv_name W) base (bk_cash B')"
    using assms(12)
    by (simp add: W rows dict_get_update venue_cash_upsert venue_flow_leg[OF assms(9)] cash[symmetric] cash_unrounded_def
        dadd_exact dsub_exact)
  ultimately show ?thesis using B' assms(5) by (auto simp: mirrors_def portfolio_base_def)
qed

section \<open>Properties of the venue\<close>

text \<open>C30. The venue and the book give the same answer to what a fill does: whatever a paper order executes,
  applying the reported fill to a book that mirrored the venue before gives a book that mirrors it again, the
  same position with the same average entry and the same cash, where the cash addition does not round.\<close>

theorem paper_fill_keeps_books_equal:
  assumes "paper_execute M i V = Inr (f, V')" "mirrors V B p base" "venue_ok V" "book_inv B"
    and "portfolio_base B p = Some base" "settle_asset (in_symbol i) = Inr base" "exact (in_quantity i)"
    and "cash_unrounded (dict_get (pv_balances V) base 0)
      (venue_cash_flow f (in_market_type i) (map_of (pv_positions V) (in_symbol i, in_market_type i))) (fl_fee f)"
  shows "venue_ok V' \<and> (if fl_quantity f = 0 then V' = V
    else \<exists>B'. apply_fill_rows p f (in_market_type i) B = Inr B' \<and> book_inv B' \<and> portfolio_base B' p = Some base
      \<and> mirrors V' B' p base)"
  using assms(1)
proof (cases rule: paper_executeE)
  case (1 b)
  then show ?thesis using assms(3) by (simp add: empty_fill_def)
next
  case (2 b price W)
  have "exact (fl_quantity f)" using 2(4) assms(7) by (simp add: fillable_quantity_def min_def)
  from apply_to_venue_mirrors[OF 2(14) assms(2-5) _ 2(13,11) _ this 2(9)] 2 assms(6,8)
  have "venue_ok W" "\<exists>B'. apply_fill_rows p f (in_market_type i) B = Inr B' \<and> book_inv B' \<and> portfolio_base B' p = Some base
    \<and> mirrors W B' p base" by simp_all
  then show ?thesis using 2(2,4,15) by (simp add: venue_ok_def mirrors_def)
qed

lemma sample_venue_mirrored: "mirrors sample_venue usdt_book 7 ''USDT''" "venue_ok sample_venue"
  by (simp_all add: mirrors_def sample_venue_def usdt_book_def venue_cash_def venue_ok_def dict_get_def select_position_def)

lemma paper_fill_keeps_books_equal_witness:
  "\<exists>B'. apply_fill_rows 7 sample_fill Perpetual usdt_book = Inr B' \<and> mirrors sample_venue_after B' 7 ''USDT''"
proof -
  have i: "settle_asset (in_symbol sample_short) = Inr ''USDT''" "exact (in_quantity sample_short)"
    by (code_simp, simp add: sample_short_def exact_numeral)
  have c: "cash_unrounded (dict_get (pv_balances sample_venue) ''USDT'' 0)
      (venue_cash_flow sample_fill (in_market_type sample_short)
        (map_of (pv_positions sample_venue) (in_symbol sample_short, in_market_type sample_short))) (fl_fee sample_fill)"
    by code_simp
  have s: "fl_quantity sample_fill \<noteq> 0" "in_market_type sample_short = Perpetual"
    by (simp_all add: sample_fill_def sample_short_def sample_perp_def sample_intent_def)
  from paper_fill_keeps_books_equal[OF sample_execution sample_venue_mirrored usdt_book_ok(1,2) i c] s
  show ?thesis by auto
qed

lemma recorded_bar_latest:
  assumes "recorded_bar bars s t = Some b" "c \<in> set (dict_get bars s [])" "br_at c \<le> t"
  shows "br_at c \<le> br_at b" "br_at b \<le> t"
proof -
  have fold: "br_at (fold (\<lambda>c best. if br_at best < br_at c then c else best) bs x) = fold max (map br_at bs) (br_at x)" for bs x
    by (induction bs arbitrary: x) (auto simp: max_def)
  have top: "x \<le> fold max ts x \<and> (\<forall>y\<in>set ts. y \<le> fold max ts x) \<and> fold max ts x \<in> insert x (set ts)" for ts and x :: int
  proof (induction ts arbitrary: x)
    case (Cons a ts)
    from Cons[of "max a x"] show ?case by (auto simp: max_def split: if_splits)
  qed simp
  obtain d ds where f: "filter (\<lambda>b. br_at b \<le> t) (dict_get bars s []) = d # ds"
    and b: "b = fold (\<lambda>c best. if br_at best < br_at c then c else best) ds d"
    using assms(1) by (auto simp: recorded_bar_def split: list.splits)
  have "c \<in> set (d # ds)" unfolding f[symmetric] using assms(2,3) by simp
  moreover have "\<forall>x\<in>set (d # ds). br_at x \<le> t" unfolding f[symmetric] by simp
  ultimately show "br_at c \<le> br_at b" "br_at b \<le> t"
    unfolding b fold using top[of "br_at d" "map br_at ds"] by auto
qed

text \<open>An intent that carries an expiry is filled from the last bar before the expiry: against recorded bars
  the fill is dated at or after every bar up to the horizon's end, also bars after the decision.\<close>

theorem expiring_intent_reads_last_bar:
  assumes "paper_execute M i V = Inr (f, V')" "mk_bar M = recorded_bar bars" "in_expires_at i = Some horizon"
    and "c \<in> set (dict_get bars (in_symbol i) [])" "br_at c \<le> horizon"
  shows "br_at c \<le> fl_at f \<and> fl_at f \<le> horizon"
proof -
  from assms(1) obtain b where b: "require_bar M i = Inr b" "fl_at f = br_at b"
    by (cases rule: paper_executeE) (auto simp: empty_fill_def)
  then have "recorded_bar bars (in_symbol i) horizon = Some b"
    using assms(2,3) by (simp add: require_bar_def result_simps)
  from recorded_bar_latest[OF this assms(4,5)] b(2) show ?thesis by simp
qed

lemma expiring_intent_reads_last_bar_witness: "(10 :: int) < fl_at sample_fill"
proof -
  have "late_bar \<in> set (dict_get sample_bars (in_symbol sample_short) [])" "br_at late_bar = 20"
    "mk_bar sample_market = recorded_bar sample_bars" "in_expires_at sample_short = Some 20"
    by (simp_all add: sample_bars_def late_bar_def sample_short_def sample_perp_def sample_intent_def sample_market_def dict_get_def)
  with expiring_intent_reads_last_bar[OF sample_execution] show ?thesis by fastforce
qed

end
