(* ===== verification/Venue_Reconcile.thy ===== *)
theory Venue_Reconcile
  imports Risk Paper_Venue
begin

text \<open>
  Reconciliation of the stored book with a venue, \<open>src/omni/portfolio/reconcile.py\<close>: indexing both
  sides, the position, spot-holding and cash comparisons, the verdict, and the stored results with
  the read of the latest one per venue. The lemmas show what a clean verdict means in both directions,
  that a book mirroring the paper venue gets one, and which stored result is read back. The free text of
  a discrepancy is not kept; where building it raises, the model raises too.
\<close>

section \<open>Decimal arithmetic outside the finite numbers\<close>

fun x_add :: "xdecimal \<Rightarrow> xdecimal \<Rightarrow> xdecimal trading" where
  "x_add NaN y = Inr NaN"
| "x_add x NaN = Inr NaN"
| "x_add (Infinity a) (Infinity b) = (if a = b then Inr (Infinity a) else Inl Decimal_Error)"
| "x_add (Infinity a) (Fin y) = Inr (Infinity a)"
| "x_add (Fin x) (Infinity b) = Inr (Infinity b)"
| "x_add (Fin x) (Fin y) = Inr (Fin (dadd x y))"

fun x_sub :: "xdecimal \<Rightarrow> xdecimal \<Rightarrow> xdecimal trading" where
  "x_sub x (Fin y) = (case x of Fin a \<Rightarrow> Inr (Fin (dsub a y)) | _ \<Rightarrow> Inr x)"
| "x_sub x (Infinity b) = x_add x (Infinity (\<not> b))"
| "x_sub x NaN = Inr NaN"

fun x_abs :: "xdecimal \<Rightarrow> xdecimal" where
  "x_abs (Fin x) = Fin (dabs x)"
| "x_abs (Infinity _) = Infinity True"
| "x_abs NaN = NaN"

text \<open>\<open>x <= bound\<close> for a finite bound; NaN raises.\<close>

fun x_at_most :: "xdecimal \<Rightarrow> decimal \<Rightarrow> bool trading" where
  "x_at_most (Fin x) bound = Inr (x \<le> bound)"
| "x_at_most (Infinity up) bound = Inr (\<not> up)"
| "x_at_most NaN bound = Inl Decimal_Error"

section \<open>The verdict\<close>

datatype divergence =
    Position_Quantity | Position_Missing_Locally | Position_Missing_At_Venue | Cash_Balance
  | Cash_Locked | Unknown_Symbol | Venue_Unreachable

record discrepancy =
  dc_kind :: divergence
  dc_venue :: string
  dc_symbol :: string
  dc_local :: "xdecimal option"
  dc_remote :: "xdecimal option"

definition or_zero :: "xdecimal option \<Rightarrow> xdecimal" where
  "or_zero v = (case v of None \<Rightarrow> Fin 0 | Some x \<Rightarrow> x)"

definition magnitude :: "discrepancy \<Rightarrow> xdecimal trading" where
  "magnitude d = rbind (x_sub (or_zero (dc_local d)) (or_zero (dc_remote d))) (\<lambda>x. Inr (x_abs x))"

record reconciliation =
  rr_reconciled :: bool
  rr_found :: "discrepancy list"
  rr_at :: int
  rr_venue :: string

definition check_reconciliation :: "reconciliation \<Rightarrow> reconciliation trading" where
  "check_reconciliation r =
     rbind (ensure (\<not> (rr_reconciled r \<and> rr_found r \<noteq> [])) Invalid_Value) (\<lambda>_.
     rbind (ensure (\<not> (\<not> rr_reconciled r \<and> rr_found r = [])) Invalid_Value) (\<lambda>_. Inr r))"

definition usable_figure :: "xdecimal option \<Rightarrow> bool" where
  "usable_figure v = (case v of None \<Rightarrow> True | Some x \<Rightarrow> is_finite x)"

definition in_tolerance :: "xdecimal option \<Rightarrow> xdecimal option \<Rightarrow> decimal \<Rightarrow> bool trading" where
  "in_tolerance l r tolerance = rbind (x_sub (or_zero l) (or_zero r)) (\<lambda>d. x_at_most (x_abs d) tolerance)"

section \<open>Indexing both sides\<close>

text \<open>Cash read from either side: \<open>CashPosition\<close> or \<open>Balance\<close>.\<close>

record funds =
  fd_venue :: string
  fd_asset :: string
  fd_free :: xdecimal
  fd_locked :: xdecimal

definition unknown :: "string \<Rightarrow> discrepancy" where
  "unknown venue = \<lparr>dc_kind = Unknown_Symbol, dc_venue = venue, dc_symbol = [], dc_local = None, dc_remote = None\<rparr>"

text \<open>The book of net quantities, and the list of unknown holdings appended to.\<close>

definition index_positions :: "string \<Rightarrow> holding list \<Rightarrow> discrepancy list
    \<Rightarrow> (((string \<times> market_type) \<times> xdecimal) list \<times> discrepancy list) trading" where
  "index_positions venue ps unknowns =
     rfold (\<lambda>p (book, us).
       if strip (ho_symbol p) = [] then Inr (book, us @ [unknown venue])
       else rbind (x_add (dict_get book (ho_symbol p, ho_market p) (Fin 0)) (ho_quantity p)) (\<lambda>q.
         Inr (AList.update (ho_symbol p, ho_market p) q book, us))) ps ([], unknowns)"

definition index_balances :: "string \<Rightarrow> funds list \<Rightarrow> discrepancy list
    \<Rightarrow> ((string \<times> (xdecimal \<times> xdecimal)) list \<times> discrepancy list) trading" where
  "index_balances venue bs unknowns =
     rfold (\<lambda>b (book, us).
       if strip (fd_asset b) = [] then Inr (book, us @ [unknown venue])
       else let (free, locked) = dict_get book (fd_asset b) (Fin 0, Fin 0) in
         rbind (x_add free (fd_free b)) (\<lambda>free'.
         rbind (x_add locked (fd_locked b)) (\<lambda>locked'.
         Inr (AList.update (fd_asset b) (free', locked') book, us)))) bs ([], unknowns)"

text \<open>\<open>sorted(set(local) | set(remote))\<close>; a market type sorts by its value.\<close>

definition both_keys :: "('k::linorder \<times> 'a) list \<Rightarrow> ('k \<times> 'b) list \<Rightarrow> 'k list" where
  "both_keys l r = sort (remdups (map fst l @ map fst r))"

section \<open>Comparing\<close>

definition position_discrepancy :: "string \<Rightarrow> decimal \<Rightarrow> string \<times> market_type \<Rightarrow> xdecimal option \<Rightarrow> xdecimal option
    \<Rightarrow> discrepancy list trading" where
  "position_discrepancy venue tolerance key l r =
     (let found = (\<lambda>kind. [\<lparr>dc_kind = kind, dc_venue = venue, dc_symbol = fst key, dc_local = l, dc_remote = r\<rparr>]) in
      if \<not> usable_figure l \<or> \<not> usable_figure r then Inr (found Position_Quantity)
      else rbind (in_tolerance l r tolerance) (\<lambda>close. Inr (
        if close then []
        else if l = None then found Position_Missing_Locally
        else if r = None then found Position_Missing_At_Venue
        else found Position_Quantity)))"

definition position_discrepancies :: "string \<Rightarrow> decimal \<Rightarrow> ((string \<times> market_type) \<times> xdecimal) list
    \<Rightarrow> ((string \<times> market_type) \<times> xdecimal) list \<Rightarrow> discrepancy list trading" where
  "position_discrepancies venue tolerance l r =
     rbind (rmap (\<lambda>k. position_discrepancy venue tolerance k (map_of l k) (map_of r k)) (both_keys l r))
       (\<lambda>ds. Inr (concat ds))"

definition spot_discrepancy :: "string \<Rightarrow> decimal \<Rightarrow> string \<Rightarrow> xdecimal option \<Rightarrow> xdecimal option
    \<Rightarrow> discrepancy list trading" where
  "spot_discrepancy venue tolerance asset l r =
     (let found = [\<lparr>dc_kind = Position_Quantity, dc_venue = venue, dc_symbol = asset, dc_local = l, dc_remote = r\<rparr>] in
      if usable_figure l \<and> usable_figure r then rbind (in_tolerance l r tolerance) (\<lambda>close. Inr (if close then [] else found))
      else Inr found)"

definition spot_discrepancies :: "string \<Rightarrow> decimal \<Rightarrow> (string \<times> xdecimal) list \<Rightarrow> (string \<times> xdecimal) list
    \<Rightarrow> discrepancy list trading" where
  "spot_discrepancies venue tolerance l r =
     rbind (rmap (\<lambda>k. spot_discrepancy venue tolerance k (map_of l k) (map_of r k)) (both_keys l r))
       (\<lambda>ds. Inr (concat ds))"

definition pair_total :: "(xdecimal \<times> xdecimal) option \<Rightarrow> xdecimal option trading" where
  "pair_total v = (case v of None \<Rightarrow> Inr None | Some (free, locked) \<Rightarrow> rbind (x_add free locked) (\<lambda>t. Inr (Some t)))"

text \<open>The text of the locked discrepancy compares the totals, and raises where they cannot be compared.\<close>

definition locked_discrepancy :: "string \<Rightarrow> decimal \<Rightarrow> string \<Rightarrow> (xdecimal \<times> xdecimal) option
    \<Rightarrow> (xdecimal \<times> xdecimal) option \<Rightarrow> xdecimal option \<Rightarrow> xdecimal option \<Rightarrow> discrepancy list trading" where
  "locked_discrepancy venue tolerance asset lp rp l r =
     (case (lp, rp) of
        (Some (_, ll), Some (_, rl)) \<Rightarrow>
          if usable_figure (Some ll) \<and> usable_figure (Some rl) then
            rbind (in_tolerance (Some ll) (Some rl) tolerance) (\<lambda>close.
            if close then Inr []
            else rbind (in_tolerance l r tolerance) (\<lambda>_.
              Inr [\<lparr>dc_kind = Cash_Locked, dc_venue = venue, dc_symbol = asset, dc_local = Some ll, dc_remote = Some rl\<rparr>]))
          else Inr []
      | _ \<Rightarrow> Inr [])"

definition total_discrepancy :: "string \<Rightarrow> decimal \<Rightarrow> string \<Rightarrow> xdecimal option \<Rightarrow> xdecimal option
    \<Rightarrow> discrepancy list trading" where
  "total_discrepancy venue tolerance asset l r =
     (let found = [\<lparr>dc_kind = Cash_Balance, dc_venue = venue, dc_symbol = asset, dc_local = l, dc_remote = r\<rparr>] in
      if \<not> usable_figure l \<or> \<not> usable_figure r then Inr found
      else rbind (in_tolerance l r tolerance) (\<lambda>close. Inr (if close then [] else found)))"

definition balance_discrepancy :: "string \<Rightarrow> decimal \<Rightarrow> string \<Rightarrow> (xdecimal \<times> xdecimal) option
    \<Rightarrow> (xdecimal \<times> xdecimal) option \<Rightarrow> discrepancy list trading" where
  "balance_discrepancy venue tolerance asset lp rp =
     rbind (pair_total lp) (\<lambda>l.
     rbind (pair_total rp) (\<lambda>r.
     rbind (locked_discrepancy venue tolerance asset lp rp l r) (\<lambda>locked.
     rbind (total_discrepancy venue tolerance asset l r) (\<lambda>total. Inr (locked @ total)))))"

definition balance_discrepancies :: "string \<Rightarrow> decimal \<Rightarrow> (string \<times> (xdecimal \<times> xdecimal)) list
    \<Rightarrow> (string \<times> (xdecimal \<times> xdecimal)) list \<Rightarrow> discrepancy list trading" where
  "balance_discrepancies venue tolerance l r =
     rbind (rmap (\<lambda>k. balance_discrepancy venue tolerance k (map_of l k) (map_of r k)) (both_keys l r))
       (\<lambda>ds. Inr (concat ds))"

section \<open>Reconciling\<close>

text \<open>What a venue answers: its two reports, read once, and the resolver some venues have.\<close>

record venue_view =
  vv_name :: string
  vv_reports :: "(holding list \<times> funds list) trading"
  vv_spot_asset :: "(string \<Rightarrow> string option) option"

definition spot_name :: "venue_view \<Rightarrow> holding \<Rightarrow> string option" where
  "spot_name V p = (case vv_spot_asset V of Some f \<Rightarrow> if ho_market p = Spot then f (ho_symbol p) else None | None \<Rightarrow> None)"

definition reported_assets :: "funds list \<Rightarrow> string list" where
  "reported_assets bs = map fd_asset (filter (\<lambda>b. strip (fd_asset b) \<noteq> []) bs)"

definition promoted :: "venue_view \<Rightarrow> funds list \<Rightarrow> holding \<Rightarrow> string option" where
  "promoted V bs p = (case spot_name V p of Some a \<Rightarrow> if a \<in> set (reported_assets bs) then Some a else None | None \<Rightarrow> None)"

definition add_quantities :: "(string \<times> xdecimal) list \<Rightarrow> (string \<times> xdecimal) list trading" where
  "add_quantities xs =
     rfold (\<lambda>(a, q) book. rbind (x_add (dict_get book a (Fin 0)) q) (\<lambda>t. Inr (AList.update a t book))) xs []"

definition local_holdings :: "venue_view \<Rightarrow> funds list \<Rightarrow> holding list \<Rightarrow> (string \<times> xdecimal) list trading" where
  "local_holdings V bs ps =
     add_quantities (map (\<lambda>p. (the (promoted V bs p), ho_quantity p)) (filter (\<lambda>p. promoted V bs p \<noteq> None) ps))"

definition remote_holdings :: "string list \<Rightarrow> funds list \<Rightarrow> (string \<times> xdecimal) list trading" where
  "remote_holdings held bs = add_quantities (map (\<lambda>b. (fd_asset b, fd_free b)) (filter (\<lambda>b. fd_asset b \<in> set held) bs))"

definition compare_books :: "venue_view \<Rightarrow> decimal \<Rightarrow> holding list \<Rightarrow> funds list \<Rightarrow> holding list \<Rightarrow> funds list
    \<Rightarrow> discrepancy list trading" where
  "compare_books V tolerance mine my_cash rps rbs =
     rbind (local_holdings V rbs mine) (\<lambda>lh.
     rbind (remote_holdings (map fst lh) rbs) (\<lambda>rh.
     rbind (index_positions (vv_name V) (filter (\<lambda>p. promoted V rbs p = None) mine) []) (\<lambda>(lbook, u1).
     rbind (index_positions (vv_name V) rps u1) (\<lambda>(rbook, u2).
     rbind (index_balances (vv_name V) my_cash u2) (\<lambda>(lcash, u3).
     rbind (index_balances (vv_name V) (filter (\<lambda>b. fd_asset b \<notin> set (map fst lh)) rbs) u3) (\<lambda>(rcash, u4).
     rbind (position_discrepancies (vv_name V) tolerance lbook rbook) (\<lambda>pd.
     rbind (balance_discrepancies (vv_name V) tolerance lcash rcash) (\<lambda>bd.
     rbind (spot_discrepancies (vv_name V) tolerance lh rh) (\<lambda>sd.
     Inr (u4 @ pd @ bd @ sd))))))))))"

definition reconcile_venue :: "holding list \<Rightarrow> funds list \<Rightarrow> venue_view \<Rightarrow> xdecimal option \<Rightarrow> int \<Rightarrow> bool
    \<Rightarrow> reconciliation trading" where
  "reconcile_venue positions balances V tolerance now aware =
     rbind (ensure (case tolerance of None \<Rightarrow> False | Some t \<Rightarrow> is_finite t) Invalid_Value) (\<lambda>_.
     let tol = finite_part (or_zero tolerance) in
     rbind (ensure (\<not> tol < 0) Invalid_Value) (\<lambda>_.
     rbind (ensure aware Invalid_Value) (\<lambda>_.
     case vv_reports V of
       Inl Venue_Unavailable \<Rightarrow>
         check_reconciliation \<lparr>rr_reconciled = False, rr_found = [\<lparr>dc_kind = Venue_Unreachable, dc_venue = vv_name V,
           dc_symbol = [], dc_local = None, dc_remote = None\<rparr>], rr_at = now, rr_venue = vv_name V\<rparr>
     | Inl e \<Rightarrow> Inl e
     | Inr (rps, rbs) \<Rightarrow>
         rbind (compare_books V tol (filter (\<lambda>p. ho_venue p = vv_name V) positions)
             (filter (\<lambda>b. fd_venue b = vv_name V) balances) rps rbs) (\<lambda>found.
         check_reconciliation \<lparr>rr_reconciled = (found = []), rr_found = found, rr_at = now, rr_venue = vv_name V\<rparr>))))"

section \<open>Books as keyed sums\<close>

text \<open>Both indexers and the holdings are one loop: add each value to its key's running total.\<close>

definition add_keyed :: "('v \<Rightarrow> 'v \<Rightarrow> 'v trading) \<Rightarrow> 'v \<Rightarrow> ('k \<times> 'v) list \<Rightarrow> ('k \<times> 'v) list \<Rightarrow> ('k \<times> 'v) list trading" where
  "add_keyed add zero xs book =
     rfold (\<lambda>(k, v) book. rbind (add (dict_get book k zero) v) (\<lambda>t. Inr (AList.update k t book))) xs book"

definition total_of :: "('v \<Rightarrow> 'v \<Rightarrow> 'v trading) \<Rightarrow> 'v \<Rightarrow> 'v list \<Rightarrow> 'v trading" where
  "total_of add zero vs = rfold (\<lambda>v t. add t v) vs zero"

definition at_key :: "'k \<Rightarrow> ('k \<times> 'v) list \<Rightarrow> 'v list" where
  "at_key k xs = map snd (filter (\<lambda>x. fst x = k) xs)"

lemma at_key_Cons: "at_key k (x # xs) = (if fst x = k then snd x # at_key k xs else at_key k xs)"
  by (simp add: at_key_def)

lemma add_keyed_lookup:
  assumes "add_keyed add zero xs book = Inr book'"
  shows "total_of add (dict_get book k zero) (at_key k xs) = Inr (dict_get book' k zero)"
    and "map_of book' k = None \<longleftrightarrow> map_of book k = None \<and> at_key k xs = []"
proof -
  have "total_of add (dict_get book k zero) (at_key k xs) = Inr (dict_get book' k zero)
    \<and> (map_of book' k = None \<longleftrightarrow> map_of book k = None \<and> at_key k xs = [])"
    using assms
  proof (induction xs arbitrary: book)
    case Nil
    then show ?case by (simp add: add_keyed_def total_of_def at_key_def)
  next
    case (Cons x xs)
    obtain j v where x: "x = (j, v)" by (cases x)
    from Cons.prems obtain t where t: "add (dict_get book j zero) v = Inr t"
      "add_keyed add zero xs (AList.update j t book) = Inr book'"
      by (auto simp: add_keyed_def x result_simps)
    from Cons.IH[OF t(2)] t(1) show ?case
      by (auto simp: x at_key_Cons total_of_def dict_get_update update_conv')
  qed
  then show "total_of add (dict_get book k zero) (at_key k xs) = Inr (dict_get book' k zero)"
    and "map_of book' k = None \<longleftrightarrow> map_of book k = None \<and> at_key k xs = []" by auto
qed

text \<open>The total under a key, NaN where the additions raise.\<close>

definition net :: "('k \<times> xdecimal) list \<Rightarrow> 'k \<Rightarrow> xdecimal" where
  "net xs k = (case total_of x_add (Fin 0) (at_key k xs) of Inr t \<Rightarrow> t | Inl _ \<Rightarrow> NaN)"

fun add_pairs :: "xdecimal \<times> xdecimal \<Rightarrow> xdecimal \<times> xdecimal \<Rightarrow> (xdecimal \<times> xdecimal) trading" where
  "add_pairs (a, b) (c, d) = rbind (x_add a c) (\<lambda>x. rbind (x_add b d) (\<lambda>y. Inr (x, y)))"

lemma total_of_pairs:
  "total_of add_pairs (a, b) vs = Inr (x, y)
    \<Longrightarrow> total_of x_add a (map fst vs) = Inr x \<and> total_of x_add b (map snd vs) = Inr y"
proof (induction vs arbitrary: a b)
  case Nil
  then show ?case by (simp add: total_of_def)
next
  case (Cons v vs)
  obtain c d where v: "v = (c, d)" by (cases v)
  from Cons.prems obtain a' b' where "x_add a c = Inr a'" "x_add b d = Inr b'" "total_of add_pairs (a', b') vs = Inr (x, y)"
    by (auto simp: total_of_def v result_simps)
  with Cons.IH show ?case by (simp add: total_of_def v)
qed

definition position_pairs :: "holding list \<Rightarrow> ((string \<times> market_type) \<times> xdecimal) list" where
  "position_pairs ps = map (\<lambda>p. ((ho_symbol p, ho_market p), ho_quantity p)) (filter (\<lambda>p. strip (ho_symbol p) \<noteq> []) ps)"

definition funds_pairs :: "funds list \<Rightarrow> (string \<times> (xdecimal \<times> xdecimal)) list" where
  "funds_pairs bs = map (\<lambda>b. (fd_asset b, (fd_free b, fd_locked b))) (filter (\<lambda>b. strip (fd_asset b) \<noteq> []) bs)"

lemma index_positions_keyed:
  "index_positions venue ps us = rbind (add_keyed x_add (Fin 0) (position_pairs ps) [])
     (\<lambda>book. Inr (book, us @ map (\<lambda>_. unknown venue) (filter (\<lambda>p. strip (ho_symbol p) = []) ps)))"
proof -
  let ?step = "\<lambda>p (book, us). if strip (ho_symbol p) = [] then Inr (book, us @ [unknown venue])
       else rbind (x_add (dict_get book (ho_symbol p, ho_market p) (Fin 0)) (ho_quantity p)) (\<lambda>q.
         Inr (AList.update (ho_symbol p, ho_market p) q book, us))"
  have "rfold ?step ps (book, us) = rbind (add_keyed x_add (Fin 0) (position_pairs ps) book)
     (\<lambda>book. Inr (book, us @ map (\<lambda>_. unknown venue) (filter (\<lambda>p. strip (ho_symbol p) = []) ps)))" for book
  proof (induction ps arbitrary: book us)
    case (Cons p ps)
    then show ?case
      by (cases "x_add (dict_get book (ho_symbol p, ho_market p) (Fin 0)) (ho_quantity p)")
        (auto simp: position_pairs_def add_keyed_def)
  qed (simp add: position_pairs_def add_keyed_def)
  then show ?thesis by (simp add: index_positions_def)
qed

lemma index_balances_keyed:
  "index_balances venue bs us = rbind (add_keyed add_pairs (Fin 0, Fin 0) (funds_pairs bs) [])
     (\<lambda>book. Inr (book, us @ map (\<lambda>_. unknown venue) (filter (\<lambda>b. strip (fd_asset b) = []) bs)))"
proof -
  let ?step = "\<lambda>b (book, us).
       if strip (fd_asset b) = [] then Inr (book, us @ [unknown venue])
       else let (free, locked) = dict_get book (fd_asset b) (Fin 0, Fin 0) in
         rbind (x_add free (fd_free b)) (\<lambda>free'.
         rbind (x_add locked (fd_locked b)) (\<lambda>locked'.
         Inr (AList.update (fd_asset b) (free', locked') book, us)))"
  have "rfold ?step bs (book, us) = rbind (add_keyed add_pairs (Fin 0, Fin 0) (funds_pairs bs) book)
     (\<lambda>book. Inr (book, us @ map (\<lambda>_. unknown venue) (filter (\<lambda>b. strip (fd_asset b) = []) bs)))" for book
  proof (induction bs arbitrary: book us)
    case (Cons b bs)
    obtain x y where xy: "dict_get book (fd_asset b) (Fin 0, Fin 0) = (x, y)" by fastforce
    show ?case
      by (cases "x_add x (fd_free b)"; cases "x_add y (fd_locked b)")
        (auto simp: Cons funds_pairs_def add_keyed_def xy)
  qed (simp add: funds_pairs_def add_keyed_def)
  then show ?thesis by (simp add: index_balances_def)
qed

lemma add_quantities_keyed: "add_quantities xs = add_keyed x_add (Fin 0) xs []"
  by (simp add: add_quantities_def add_keyed_def)

lemma or_zero_dict_get: "or_zero (map_of d k) = dict_get d k (Fin 0)"
  by (simp add: or_zero_def dict_get_def)

lemma keyed_net:
  assumes "add_keyed x_add (Fin 0) xs [] = Inr book"
  shows "or_zero (map_of book k) = net xs k" "map_of book k = None \<longleftrightarrow> at_key k xs = []"
  using add_keyed_lookup[OF assms, of k] by (simp_all add: net_def or_zero_dict_get)

section \<open>When two readings agree\<close>

definition agree :: "decimal \<Rightarrow> xdecimal \<Rightarrow> xdecimal \<Rightarrow> bool" where
  "agree tolerance x y \<longleftrightarrow> is_finite x \<and> is_finite y \<and> dabs (dsub (finite_part x) (finite_part y)) \<le> tolerance"

lemma usable_figure_or_zero: "usable_figure v \<longleftrightarrow> is_finite (or_zero v)"
  by (cases v) (simp_all add: usable_figure_def or_zero_def)

lemma usable_figure_Some: "usable_figure (Some x) \<longleftrightarrow> is_finite x"
  by (simp add: usable_figure_def)

lemma in_tolerance_usable:
  "usable_figure l \<Longrightarrow> usable_figure r \<Longrightarrow> in_tolerance l r tolerance = Inr (agree tolerance (or_zero l) (or_zero r))"
  by (cases "or_zero l"; cases "or_zero r") (simp_all add: usable_figure_or_zero in_tolerance_def agree_def)

lemma agree_zero: "0 \<le> tolerance \<Longrightarrow> agree tolerance (Fin 0) (Fin 0)"
  by (simp add: agree_def dabs_def dsub_def)

lemma position_discrepancy_agree:
  "\<exists>ds. position_discrepancy venue tolerance k l r = Inr ds \<and> (ds = [] \<longleftrightarrow> agree tolerance (or_zero l) (or_zero r))"
  by (cases "usable_figure l \<and> usable_figure r")
    (auto simp: position_discrepancy_def in_tolerance_usable Let_def agree_def[of _ "or_zero l"] usable_figure_or_zero)

lemma spot_discrepancy_agree:
  "\<exists>ds. spot_discrepancy venue tolerance k l r = Inr ds \<and> (ds = [] \<longleftrightarrow> agree tolerance (or_zero l) (or_zero r))"
  by (cases "usable_figure l \<and> usable_figure r")
    (auto simp: spot_discrepancy_def in_tolerance_usable Let_def agree_def[of _ "or_zero l"] usable_figure_or_zero)

lemma both_keys_set [simp]: "set (both_keys l r) = dom (map_of l) \<union> dom (map_of r)"
  by (simp add: both_keys_def dom_map_of_conv_image_fst)

lemma rmap_Inr_mem: "rmap f xs = Inr ys \<Longrightarrow> x \<in> set xs \<Longrightarrow> \<exists>y. f x = Inr y"
  by (induction xs arbitrary: ys) (auto simp: result_simps)

text \<open>Comparing every key finds nothing exactly when every key agrees, also keys neither side has.\<close>

lemma concat_rmap_Nil:
  assumes "rmap f ks = Inr dss" "\<And>k. k \<in> set ks \<Longrightarrow> \<exists>ds. f k = Inr ds \<and> (ds = [] \<longleftrightarrow> P k)" "\<And>k. k \<notin> set ks \<Longrightarrow> P k"
  shows "concat dss = [] \<longleftrightarrow> (\<forall>k. P k)"
proof -
  have "concat dss = [] \<longleftrightarrow> (\<forall>k\<in>set ks. P k)"
    using assms(1,2)
  proof (induction ks arbitrary: dss)
    case (Cons k ks)
    then obtain ds dss' where ds: "f k = Inr ds" "rmap f ks = Inr dss'" "dss = ds # dss'" by (auto simp: result_simps)
    moreover have "ds = [] \<longleftrightarrow> P k" using Cons.prems(2)[of k] ds(1) by auto
    moreover have "concat dss' = [] \<longleftrightarrow> (\<forall>k\<in>set ks. P k)" using ds(2) Cons.prems(2) by (intro Cons.IH) auto
    ultimately show ?case by simp
  qed simp
  with assms(3) show ?thesis by blast
qed

lemma map_of_None_or_zero: "k \<notin> dom (map_of d) \<Longrightarrow> or_zero (map_of d k) = Fin 0"
  by (cases "map_of d k") (auto simp: or_zero_def)

lemma position_discrepancies_none:
  assumes "position_discrepancies venue tolerance l r = Inr ds" "0 \<le> tolerance"
  shows "ds = [] \<longleftrightarrow> (\<forall>k. agree tolerance (or_zero (map_of l k)) (or_zero (map_of r k)))"
proof -
  obtain dss where dss: "rmap (\<lambda>k. position_discrepancy venue tolerance k (map_of l k) (map_of r k)) (both_keys l r) = Inr dss"
    "ds = concat dss"
    using assms(1) by (auto simp: position_discrepancies_def result_simps)
  show ?thesis unfolding dss(2)
    by (rule concat_rmap_Nil[OF dss(1) position_discrepancy_agree])
      (simp add: map_of_None_or_zero agree_zero[OF assms(2)])
qed

lemma spot_discrepancies_none:
  assumes "spot_discrepancies venue tolerance l r = Inr ds" "0 \<le> tolerance"
  shows "ds = [] \<longleftrightarrow> (\<forall>k. agree tolerance (or_zero (map_of l k)) (or_zero (map_of r k)))"
proof -
  obtain dss where dss: "rmap (\<lambda>k. spot_discrepancy venue tolerance k (map_of l k) (map_of r k)) (both_keys l r) = Inr dss"
    "ds = concat dss"
    using assms(1) by (auto simp: spot_discrepancies_def result_simps)
  show ?thesis unfolding dss(2)
    by (rule concat_rmap_Nil[OF dss(1) spot_discrepancy_agree])
      (simp add: map_of_None_or_zero agree_zero[OF assms(2)])
qed

text \<open>Cash agrees when the totals agree and, where both sides have a row, the locked legs too.\<close>

definition total_value :: "xdecimal \<Rightarrow> xdecimal \<Rightarrow> xdecimal" where
  "total_value free locked = (case x_add free locked of Inr t \<Rightarrow> t | Inl _ \<Rightarrow> NaN)"

definition or_zeros :: "(xdecimal \<times> xdecimal) option \<Rightarrow> xdecimal \<times> xdecimal" where
  "or_zeros v = (case v of None \<Rightarrow> (Fin 0, Fin 0) | Some x \<Rightarrow> x)"

definition pairs_agree :: "decimal \<Rightarrow> (xdecimal \<times> xdecimal) option \<Rightarrow> (xdecimal \<times> xdecimal) option \<Rightarrow> bool" where
  "pairs_agree tolerance lp rp \<longleftrightarrow>
     agree tolerance (total_value (fst (or_zeros lp)) (snd (or_zeros lp))) (total_value (fst (or_zeros rp)) (snd (or_zeros rp)))
     \<and> (lp \<noteq> None \<and> rp \<noteq> None \<longrightarrow> agree tolerance (snd (or_zeros lp)) (snd (or_zeros rp)))"

lemma finite_x_add: "x_add a b = Inr t \<Longrightarrow> is_finite t \<Longrightarrow> is_finite b"
  by (cases "(a, b)" rule: x_add.cases) (auto split: if_splits)

lemma pair_total_value:
  "pair_total v = Inr t \<Longrightarrow> or_zero t = total_value (fst (or_zeros v)) (snd (or_zeros v))"
  by (auto simp: pair_total_def total_value_def or_zeros_def or_zero_def result_simps dadd_def split: option.splits)

lemma total_discrepancy_agree:
  "total_discrepancy venue tolerance k l r = Inr ds \<Longrightarrow> ds = [] \<longleftrightarrow> agree tolerance (or_zero l) (or_zero r)"
  by (cases "usable_figure l \<and> usable_figure r")
    (auto simp: total_discrepancy_def in_tolerance_usable Let_def agree_def[of _ "or_zero l"] usable_figure_or_zero split: if_splits)

lemma locked_discrepancy_agree:
  assumes "locked_discrepancy venue tolerance k lp rp l r = Inr ds"
  shows "ds = [] \<longleftrightarrow> (lp \<noteq> None \<and> rp \<noteq> None \<and> is_finite (snd (or_zeros lp)) \<and> is_finite (snd (or_zeros rp))
    \<longrightarrow> agree tolerance (snd (or_zeros lp)) (snd (or_zeros rp)))"
proof (cases "lp = None \<or> rp = None")
  case True
  with assms show ?thesis by (auto simp: locked_discrepancy_def split: option.splits)
next
  case False
  then obtain a b c d where ab: "lp = Some (a, b)" "rp = Some (c, d)" by auto
  have f: "or_zero (Some x) = x" for x by (simp add: or_zero_def)
  show ?thesis
  proof (cases "is_finite b \<and> is_finite d")
    case True
    with assms show ?thesis
      by (auto simp: ab locked_discrepancy_def usable_figure_or_zero f in_tolerance_usable or_zeros_def result_simps split: if_splits)
  next
    case False
    with assms show ?thesis by (auto simp: ab locked_discrepancy_def usable_figure_or_zero f or_zeros_def split: if_splits)
  qed
qed

lemma balance_discrepancy_agree:
  assumes "balance_discrepancy venue tolerance k lp rp = Inr ds"
  shows "ds = [] \<longleftrightarrow> pairs_agree tolerance lp rp"
proof -
  from assms obtain l r locked total where t: "pair_total lp = Inr l" "pair_total rp = Inr r"
    "locked_discrepancy venue tolerance k lp rp l r = Inr locked" "total_discrepancy venue tolerance k l r = Inr total"
    "ds = locked @ total"
    by (auto simp: balance_discrepancy_def result_simps)
  have fin: "is_finite (snd (or_zeros v))" if "pair_total v = Inr u" "is_finite (or_zero u)" for v u
    using that by (auto simp: pair_total_def or_zeros_def or_zero_def result_simps dest: finite_x_add split: option.splits)
  have "total = [] \<Longrightarrow> is_finite (snd (or_zeros lp)) \<and> is_finite (snd (or_zeros rp))"
    using total_discrepancy_agree[OF t(4)] fin[OF t(1)] fin[OF t(2)] by (simp add: agree_def)
  then show ?thesis
    using locked_discrepancy_agree[OF t(3)] total_discrepancy_agree[OF t(4)]
    unfolding t(5) pairs_agree_def pair_total_value[OF t(1), symmetric] pair_total_value[OF t(2), symmetric] by auto
qed

lemma balance_discrepancies_none:
  assumes "balance_discrepancies venue tolerance l r = Inr ds" "0 \<le> tolerance"
  shows "ds = [] \<longleftrightarrow> (\<forall>k. pairs_agree tolerance (map_of l k) (map_of r k))"
proof -
  let ?f = "\<lambda>k. balance_discrepancy venue tolerance k (map_of l k) (map_of r k)"
  obtain dss where dss: "rmap ?f (both_keys l r) = Inr dss" "ds = concat dss"
    using assms(1) by (auto simp: balance_discrepancies_def result_simps)
  have "\<exists>ds. ?f k = Inr ds \<and> (ds = [] \<longleftrightarrow> pairs_agree tolerance (map_of l k) (map_of r k))" if "k \<in> set (both_keys l r)" for k
  proof -
    from rmap_Inr_mem[OF dss(1) that] obtain ds where "?f k = Inr ds" by blast
    with balance_discrepancy_agree show ?thesis by blast
  qed
  moreover have "pairs_agree tolerance (map_of l k) (map_of r k)" if "k \<notin> set (both_keys l r)" for k
  proof -
    have "map_of l k = None" "map_of r k = None" using that by (simp_all add: domIff del: not_None_eq split_paired_All)
    then show ?thesis
      by (simp add: pairs_agree_def or_zeros_def total_value_def dadd_def agree_zero[OF assms(2)])
  qed
  ultimately show ?thesis unfolding dss(2) by (rule concat_rmap_Nil[OF dss(1)])
qed

text \<open>The two sides of one venue agree at every key, in both directions.\<close>

definition positions_agree :: "decimal \<Rightarrow> holding list \<Rightarrow> holding list \<Rightarrow> bool" where
  "positions_agree tolerance ls rs \<longleftrightarrow>
     (\<forall>k. agree tolerance (net (position_pairs ls) k) (net (position_pairs rs) k))"

definition funds_at :: "string \<Rightarrow> funds list \<Rightarrow> (xdecimal \<times> xdecimal) option" where
  "funds_at a bs = (let ps = at_key a (funds_pairs bs) in
     if ps = [] then None
     else case total_of add_pairs (Fin 0, Fin 0) ps of Inr t \<Rightarrow> Some t | Inl _ \<Rightarrow> Some (NaN, NaN))"

definition cash_agrees :: "decimal \<Rightarrow> funds list \<Rightarrow> funds list \<Rightarrow> bool" where
  "cash_agrees tolerance ls rs \<longleftrightarrow> (\<forall>a. pairs_agree tolerance (funds_at a ls) (funds_at a rs))"

definition all_named :: "holding list \<Rightarrow> funds list \<Rightarrow> bool" where
  "all_named ps bs \<longleftrightarrow> (\<forall>p\<in>set ps. strip (ho_symbol p) \<noteq> []) \<and> (\<forall>b\<in>set bs. strip (fd_asset b) \<noteq> [])"

lemma keyed_funds:
  assumes "add_keyed add_pairs (Fin 0, Fin 0) (funds_pairs bs) [] = Inr book"
  shows "map_of book a = funds_at a bs"
  using add_keyed_lookup[OF assms, of a] by (auto simp: funds_at_def Let_def dict_get_def split: option.splits)

text \<open>The spot positions that the venue reports as a balance of their token, and the free parts of those balances.\<close>

definition wrapped_pairs :: "venue_view \<Rightarrow> funds list \<Rightarrow> holding list \<Rightarrow> (string \<times> xdecimal) list" where
  "wrapped_pairs V rbs ps = map (\<lambda>p. (the (promoted V rbs p), ho_quantity p)) (filter (\<lambda>p. promoted V rbs p \<noteq> None) ps)"

definition free_pairs :: "string set \<Rightarrow> funds list \<Rightarrow> (string \<times> xdecimal) list" where
  "free_pairs tokens bs = map (\<lambda>b. (fd_asset b, fd_free b)) (filter (\<lambda>b. fd_asset b \<in> tokens) bs)"

lemma keyed_names:
  assumes "add_keyed x_add (Fin 0) xs [] = Inr book"
  shows "set (map fst book) = fst ` set xs"
proof -
  have "k \<in> dom (map_of book) \<longleftrightarrow> k \<in> fst ` set xs" for k
  proof -
    have "map_of book k = None \<longleftrightarrow> (\<forall>x\<in>set xs. fst x \<noteq> k)"
      using keyed_net(2)[OF assms, of k] by (simp add: at_key_def filter_empty_conv)
    then show ?thesis by (auto simp: domIff)
  qed
  then show ?thesis by (auto simp: dom_map_of_conv_image_fst)
qed

lemma compare_books_clean:
  assumes "compare_books V tolerance ls lbs rs rbs = Inr found" "0 \<le> tolerance"
    and "wrapped = wrapped_pairs V rbs ls" "tokens = fst ` set wrapped"
    and "kept = filter (\<lambda>p. promoted V rbs p = None) ls" "rest = filter (\<lambda>b. fd_asset b \<notin> tokens) rbs"
  shows "found = [] \<longleftrightarrow> all_named (kept @ rs) (lbs @ rest) \<and> positions_agree tolerance kept rs \<and> cash_agrees tolerance lbs rest
    \<and> (\<forall>a. agree tolerance (net wrapped a) (net (free_pairs tokens rbs) a))"
proof -
  from assms(1) obtain lh rh where h: "add_keyed x_add (Fin 0) wrapped [] = Inr lh"
    "add_keyed x_add (Fin 0) (map (\<lambda>b. (fd_asset b, fd_free b)) (filter (\<lambda>b. fd_asset b \<in> set (map fst lh)) rbs)) [] = Inr rh"
    by (auto simp: compare_books_def local_holdings_def remote_holdings_def add_quantities_keyed wrapped_pairs_def assms(3) result_simps)
  have tokens: "set (map fst lh) = tokens" using keyed_names[OF h(1)] assms(4) by simp
  have lh: "local_holdings V rbs ls = Inr lh"
    using h(1) by (simp add: local_holdings_def add_quantities_keyed wrapped_pairs_def assms(3))
  have rh: "remote_holdings (map fst lh) rbs = Inr rh" using h(2) by (simp add: remote_holdings_def add_quantities_keyed)
  from assms(1) obtain lbook rbook lcash rcash pd bd sd where k:
    "add_keyed x_add (Fin 0) (position_pairs kept) [] = Inr lbook" "add_keyed x_add (Fin 0) (position_pairs rs) [] = Inr rbook"
    "add_keyed add_pairs (Fin 0, Fin 0) (funds_pairs lbs) [] = Inr lcash"
    "add_keyed add_pairs (Fin 0, Fin 0) (funds_pairs rest) [] = Inr rcash"
    "position_discrepancies (vv_name V) tolerance lbook rbook = Inr pd"
    "balance_discrepancies (vv_name V) tolerance lcash rcash = Inr bd"
    "spot_discrepancies (vv_name V) tolerance lh rh = Inr sd"
    and found: "found = map (\<lambda>_. unknown (vv_name V)) (filter (\<lambda>p. strip (ho_symbol p) = []) kept)
      @ map (\<lambda>_. unknown (vv_name V)) (filter (\<lambda>p. strip (ho_symbol p) = []) rs)
      @ map (\<lambda>_. unknown (vv_name V)) (filter (\<lambda>b. strip (fd_asset b) = []) lbs)
      @ map (\<lambda>_. unknown (vv_name V)) (filter (\<lambda>b. strip (fd_asset b) = []) rest) @ pd @ bd @ sd"
    unfolding compare_books_def lh rbind_Inr rh tokens assms(5)[symmetric] assms(6)[symmetric]
    by (auto simp: index_positions_keyed index_balances_keyed result_simps)
  have "found = [] \<longleftrightarrow> all_named (kept @ rs) (lbs @ rest) \<and> pd = [] \<and> bd = [] \<and> sd = []"
    unfolding found by (auto simp: all_named_def filter_empty_conv)
  then show ?thesis
    using position_discrepancies_none[OF k(5) assms(2)] balance_discrepancies_none[OF k(6) assms(2)]
      spot_discrepancies_none[OF k(7) assms(2)] h(2)[unfolded tokens]
    by (simp add: keyed_net(1)[OF k(1)] keyed_net(1)[OF k(2)] keyed_funds[OF k(3)] keyed_funds[OF k(4)] keyed_net(1)[OF h(1)]
        keyed_net(1)[OF h(2)[unfolded tokens]] free_pairs_def positions_agree_def cash_agrees_def)
qed

text \<open>A venue with no spot resolver, as every venue but the one that reports wrapped spot as balances.\<close>

lemma compare_books_none:
  assumes "compare_books V tolerance ls lbs rs rbs = Inr found" "\<forall>p. spot_name V p = None" "0 \<le> tolerance"
  shows "found = [] \<longleftrightarrow> all_named (ls @ rs) (lbs @ rbs) \<and> positions_agree tolerance ls rs \<and> cash_agrees tolerance lbs rbs"
proof -
  have p: "promoted V rbs p = None" for p by (simp add: promoted_def assms(2))
  have "net ([] :: (string \<times> xdecimal) list) a = Fin 0" for a by (simp add: net_def at_key_def total_of_def)
  then have "agree tolerance (net [] a) (net (free_pairs {} rbs) a)" for a
    by (simp add: free_pairs_def agree_zero[OF assms(3)])
  then show ?thesis
    using compare_books_clean[OF assms(1,3) refl refl refl refl] by (simp add: wrapped_pairs_def p)
qed

section \<open>Properties of the verdict\<close>







text \<open>A token balance that stands in for a spot position is compared by its free part only: its locked part can
  be anything and the verdict is the same, although for every other asset a locked leg is compared on its own.\<close>

theorem locked_spot_balance_unseen:
  assumes "vv_reports V = Inr (rps, rbs)" "p \<in> set ps" "ho_venue p = vv_name V" "promoted V rbs p = Some a"
  shows "reconcile_venue ps bs (V\<lparr>vv_reports := Inr (rps, map (\<lambda>b. if fd_asset b = a then b\<lparr>fd_locked := x\<rparr> else b) rbs)\<rparr>)
      tolerance now aware
    = reconcile_venue ps bs V tolerance now aware"
proof -
  let ?f = "\<lambda>b. if fd_asset b = a then b\<lparr>fd_locked := x\<rparr> else b"
  let ?V = "V\<lparr>vv_reports := Inr (rps, map ?f rbs)\<rparr>"
  have assets: "reported_assets (map ?f rbs) = reported_assets rbs"
    by (induction rbs) (auto simp: reported_assets_def)
  have prom: "promoted ?V (map ?f rbs) = promoted V rbs"
    unfolding promoted_def assets spot_name_def fun_eq_iff by simp
  have loc: "local_holdings ?V (map ?f rbs) qs = local_holdings V rbs qs" for qs
    by (simp add: local_holdings_def prom)
  have rem: "remote_holdings held (map ?f rbs) = remote_holdings held rbs" for held
  proof -
    have "map (\<lambda>b. (fd_asset b, fd_free b)) (filter (\<lambda>b. fd_asset b \<in> set held) (map ?f rbs))
      = map (\<lambda>b. (fd_asset b, fd_free b)) (filter (\<lambda>b. fd_asset b \<in> set held) rbs)"
      by (induction rbs) auto
    then show ?thesis by (simp only: remote_holdings_def)
  qed
  have rest: "filter (\<lambda>b. fd_asset b \<notin> held) (map ?f rbs) = filter (\<lambda>b. fd_asset b \<notin> held) rbs" if "a \<in> held" for held
    using that by (induction rbs) auto
  let ?mine = "filter (\<lambda>p. ho_venue p = vv_name V) ps"
  have "a \<in> fst ` set lh" if "local_holdings V rbs ?mine = Inr lh" for lh
  proof -
    have "at_key a (map (\<lambda>p. (the (promoted V rbs p), ho_quantity p)) (filter (\<lambda>p. promoted V rbs p \<noteq> None) ?mine)) \<noteq> []"
      using assms(2-4) by (fastforce simp: at_key_def filter_empty_conv)
    with that show ?thesis
      using add_keyed_lookup(2)[of x_add "Fin 0" _ "[]" lh a]
      by (auto simp: local_holdings_def add_quantities_keyed map_of_eq_None_iff)
  qed
  then have "compare_books ?V tol ?mine cash rps (map ?f rbs) = compare_books V tol ?mine cash rps rbs" for tol cash
    by (cases "local_holdings V rbs ?mine") (simp_all add: compare_books_def loc rem rest prom)
  then show ?thesis by (simp add: reconcile_venue_def assms(1))
qed

definition wrapped :: holding where
  "wrapped = \<lparr>ho_venue = ''hl'', ho_symbol = ''UETH/USDC'', ho_market = Spot, ho_quantity = Fin 2, ho_entry = Fin 100\<rparr>"

definition hl_view :: venue_view where
  "hl_view = \<lparr>vv_name = ''hl'',
     vv_reports = Inr ([], [\<lparr>fd_venue = ''hl'', fd_asset = ''ETH'', fd_free = Fin 2, fd_locked = Fin 0\<rparr>]),
     vv_spot_asset = Some (\<lambda>s. if s = ''UETH/USDC'' then Some ''ETH'' else None)\<rparr>"

lemma locked_spot_balance_unseen_witness:
  "reconcile_venue [wrapped] [] (hl_view\<lparr>vv_reports := Inr ([], [\<lparr>fd_venue = ''hl'', fd_asset = ''ETH'', fd_free = Fin 2, fd_locked = Fin 3\<rparr>])\<rparr>)
     (Some (Fin 0)) 9 True = Inr \<lparr>rr_reconciled = True, rr_found = [], rr_at = 9, rr_venue = ''hl''\<rparr>"
proof -
  have v: "vv_reports hl_view = Inr ([], [\<lparr>fd_venue = ''hl'', fd_asset = ''ETH'', fd_free = Fin 2, fd_locked = Fin 0\<rparr>])"
    by (simp add: hl_view_def)
  have p: "promoted hl_view [\<lparr>fd_venue = ''hl'', fd_asset = ''ETH'', fd_free = Fin 2, fd_locked = Fin 0\<rparr>] wrapped = Some ''ETH''"
    "ho_venue wrapped = vv_name hl_view"
    by code_simp+
  have "reconcile_venue [wrapped] [] hl_view (Some (Fin 0)) 9 True = Inr \<lparr>rr_reconciled = True, rr_found = [], rr_at = 9, rr_venue = ''hl''\<rparr>"
    by code_simp
  then show ?thesis
    using locked_spot_balance_unseen[OF v _ p(2,1), of "[wrapped]" "[]" "Fin 3" "Some (Fin 0)" 9 True] by simp
qed

section \<open>A mirrored book reconciles\<close>

lemma rmap_total: "(\<And>x. x \<in> set xs \<Longrightarrow> \<exists>y. f x = Inr y) \<Longrightarrow> \<exists>ys. rmap f xs = Inr ys"
proof (induction xs)
  case (Cons x xs)
  then obtain y ys where "f x = Inr y" "rmap f xs = Inr ys" by (metis list.set_intros)
  then show ?case by simp
qed simp

lemma add_keyed_total:
  assumes "\<And>x y. ok x \<Longrightarrow> ok y \<Longrightarrow> \<exists>t. add x y = Inr t \<and> ok t" "ok zero"
    and "\<forall>x\<in>set xs. ok (snd x)" "\<forall>k. ok (dict_get book k zero)"
  shows "\<exists>book'. add_keyed add zero xs book = Inr book' \<and> (\<forall>k. ok (dict_get book' k zero))"
  using assms(3,4)
proof (induction xs arbitrary: book)
  case Nil
  then show ?case by (simp add: add_keyed_def)
next
  case (Cons x xs)
  obtain k v where x: "x = (k, v)" by (cases x)
  obtain t where t: "add (dict_get book k zero) v = Inr t" "ok t" using assms(1) Cons.prems by (metis x list.set_intros(1) snd_conv)
  have "\<exists>book'. add_keyed add zero xs (AList.update k t book) = Inr book' \<and> (\<forall>k. ok (dict_get book' k zero))"
    using Cons.prems t(2) by (intro Cons.IH) (auto simp: dict_get_update)
  then show ?case by (simp add: add_keyed_def x t(1))
qed

definition finite_pair :: "xdecimal \<times> xdecimal \<Rightarrow> bool" where
  "finite_pair v \<longleftrightarrow> is_finite (fst v) \<and> is_finite (snd v)"

lemma x_add_finite: "is_finite x \<Longrightarrow> is_finite y \<Longrightarrow> \<exists>t. x_add x y = Inr t \<and> is_finite t"
  by (cases x; cases y) simp_all

lemma add_pairs_finite: "finite_pair x \<Longrightarrow> finite_pair y \<Longrightarrow> \<exists>t. add_pairs x y = Inr t \<and> finite_pair t"
  using x_add_finite[of "fst x" "fst y"] x_add_finite[of "snd x" "snd y"]
  by (cases x; cases y) (auto simp: finite_pair_def)

lemma pair_total_finite: "(\<And>x. v = Some x \<Longrightarrow> finite_pair x) \<Longrightarrow> \<exists>t. pair_total v = Inr t \<and> usable_figure t"
  using x_add_finite[of "fst (the v)" "snd (the v)"]
  by (cases v) (auto simp: pair_total_def finite_pair_def usable_figure_def)

lemma balance_discrepancy_total:
  assumes "\<And>x. lp = Some x \<Longrightarrow> finite_pair x" "\<And>x. rp = Some x \<Longrightarrow> finite_pair x"
  shows "\<exists>ds. balance_discrepancy venue tolerance k lp rp = Inr ds"
proof -
  obtain l r where t: "pair_total lp = Inr l" "usable_figure l" "pair_total rp = Inr r" "usable_figure r"
    using pair_total_finite[of lp] pair_total_finite[of rp] assms by blast
  have "\<exists>ds. locked_discrepancy venue tolerance k lp rp l r = Inr ds"
    using assms by (cases lp; cases rp)
      (auto simp: locked_discrepancy_def in_tolerance_usable t(2,4) finite_pair_def usable_figure_Some split: prod.splits)
  moreover have "\<exists>ds. total_discrepancy venue tolerance k l r = Inr ds"
    by (simp add: total_discrepancy_def in_tolerance_usable t(2,4) Let_def)
  ultimately show ?thesis by (auto simp: balance_discrepancy_def t(1,3))
qed

definition finite_books :: "holding list \<Rightarrow> funds list \<Rightarrow> bool" where
  "finite_books ps bs \<longleftrightarrow> (\<forall>p\<in>set ps. is_finite (ho_quantity p)) \<and> (\<forall>b\<in>set bs. is_finite (fd_free b) \<and> is_finite (fd_locked b))"

text \<open>On finite books the comparison never raises.\<close>

lemma compare_books_total:
  assumes "finite_books ls lbs" "finite_books rs rbs" "\<forall>p. spot_name V p = None"
  shows "\<exists>found. compare_books V tolerance ls lbs rs rbs = Inr found"
proof -
  have p: "promoted V rbs p = None" for p by (simp add: promoted_def assms(3))
  have pos: "\<exists>book. add_keyed x_add (Fin 0) (position_pairs ps) [] = Inr book \<and> (\<forall>k. is_finite (dict_get book k (Fin 0)))"
    if "\<forall>p\<in>set ps. is_finite (ho_quantity p)" for ps
    using that by (intro add_keyed_total x_add_finite) (auto simp: position_pairs_def)
  have cash: "\<exists>book. add_keyed add_pairs (Fin 0, Fin 0) (funds_pairs bs) [] = Inr book \<and> (\<forall>k. finite_pair (dict_get book k (Fin 0, Fin 0)))"
    if "\<forall>b\<in>set bs. is_finite (fd_free b) \<and> is_finite (fd_locked b)" for bs
    using that by (intro add_keyed_total add_pairs_finite) (auto simp: funds_pairs_def finite_pair_def)
  obtain lbook rbook lcash rcash where k:
    "add_keyed x_add (Fin 0) (position_pairs ls) [] = Inr lbook" "add_keyed x_add (Fin 0) (position_pairs rs) [] = Inr rbook"
    "add_keyed add_pairs (Fin 0, Fin 0) (funds_pairs lbs) [] = Inr lcash" "\<forall>k. finite_pair (dict_get lcash k (Fin 0, Fin 0))"
    "add_keyed add_pairs (Fin 0, Fin 0) (funds_pairs rbs) [] = Inr rcash" "\<forall>k. finite_pair (dict_get rcash k (Fin 0, Fin 0))"
    using assms(1,2) pos[of ls] pos[of rs] cash[of lbs] cash[of rbs] by (auto simp: finite_books_def)
  have "\<exists>dss. rmap (\<lambda>k. position_discrepancy (vv_name V) tolerance k (map_of lbook k) (map_of rbook k)) (both_keys lbook rbook) = Inr dss"
    using position_discrepancy_agree by (intro rmap_total) blast
  then obtain pd where pd: "position_discrepancies (vv_name V) tolerance lbook rbook = Inr pd"
    by (auto simp: position_discrepancies_def)
  have fin: "map_of d k = Some x \<Longrightarrow> finite_pair x" if "\<forall>k. finite_pair (dict_get d k (Fin 0, Fin 0))" for d k x
    using that[rule_format, of k] by (simp add: dict_get_def)
  have "\<exists>dss. rmap (\<lambda>k. balance_discrepancy (vv_name V) tolerance k (map_of lcash k) (map_of rcash k)) (both_keys lcash rcash) = Inr dss"
    by (intro rmap_total balance_discrepancy_total) (auto dest: fin[OF k(4)] fin[OF k(6)])
  then obtain bd where bd: "balance_discrepancies (vv_name V) tolerance lcash rcash = Inr bd"
    by (auto simp: balance_discrepancies_def)
  show ?thesis
    by (simp add: compare_books_def local_holdings_def remote_holdings_def add_quantities_def p index_positions_keyed
        index_balances_keyed k(1,2,3,5) pd bd spot_discrepancies_def both_keys_def)
qed

text \<open>What the reconciler reads of a loaded portfolio and of the paper venue, whose resolver names no asset.\<close>

definition holding_of :: "position \<Rightarrow> holding" where
  "holding_of p = \<lparr>ho_venue = po_venue p, ho_symbol = po_symbol p, ho_market = po_market_type p,
     ho_quantity = Fin (po_quantity p), ho_entry = Fin (po_average_entry p)\<rparr>"

definition funds_of_cash :: "cash_position \<Rightarrow> funds" where
  "funds_of_cash c = \<lparr>fd_venue = cp_venue c, fd_asset = cp_asset c, fd_free = Fin (cp_free c), fd_locked = Fin (cp_locked c)\<rparr>"

definition funds_of_balance :: "balance \<Rightarrow> funds" where
  "funds_of_balance b = \<lparr>fd_venue = ba_venue b, fd_asset = ba_asset b, fd_free = Fin (ba_free b), fd_locked = Fin (ba_locked b)\<rparr>"

definition paper_view :: "paper_venue \<Rightarrow> venue_view" where
  "paper_view V = \<lparr>vv_name = pv_name V, vv_reports = rbind (venue_balances V) (\<lambda>bs.
     Inr (map holding_of (venue_positions V), map funds_of_balance bs)), vv_spot_asset = Some (\<lambda>_. None)\<rparr>"

text \<open>Venue and book keep their cash in one row of the base asset.\<close>

definition single_currency :: "paper_venue \<Rightarrow> book \<Rightarrow> nat \<Rightarrow> string \<Rightarrow> bool" where
  "single_currency V B p base \<longleftrightarrow> map fst (pv_balances V) = [base]
     \<and> map (\<lambda>r. (ca_asset r, ca_locked r)) (filter (\<lambda>r. ca_portfolio r = p \<and> ca_venue r = pv_name V) (bk_cash B)) = [(base, 0)]"

lemma at_key_distinct: "distinct (map fst xs) \<Longrightarrow> at_key k xs = (case map_of xs k of None \<Rightarrow> [] | Some v \<Rightarrow> [v])"
proof (induction xs)
  case (Cons x xs)
  have "at_key k xs = []" if "k \<notin> set (map fst xs)" using that by (auto simp: at_key_def filter_empty_conv)
  with Cons show ?case by (cases x) (auto simp: at_key_Cons split: option.split)
qed (simp add: at_key_def)

lemma net_distinct:
  assumes "distinct (map fst xs)" "\<forall>x\<in>set xs. \<exists>q. snd x = Fin q \<and> exact q"
  shows "net xs k = or_zero (map_of xs k)"
proof (cases "map_of xs k")
  case (Some v)
  then have "\<exists>q. v = Fin q \<and> exact q" using assms(2) by (auto dest!: map_of_SomeD)
  with Some show ?thesis by (auto simp: net_def at_key_distinct[OF assms(1)] total_of_def or_zero_def dadd_exact)
qed (simp add: net_def at_key_distinct[OF assms(1)] total_of_def or_zero_def)

lemma agree_refl: "is_finite x \<Longrightarrow> 0 \<le> tolerance \<Longrightarrow> agree tolerance x x"
  by (simp add: agree_def dsub_def dabs_def)

lemma map_of_eqI:
  assumes "distinct (map fst xs)" "distinct (map fst ys)" "set xs = set ys"
  shows "map_of xs = map_of ys"
  using assms by (metis map_of_inject_set)

lemma select_position_row:
  assumes "book_inv B"
  shows "select_position (bk_positions B) key = Some (q, e, t)
    \<longleftrightarrow> (\<exists>r\<in>set (bk_positions B). row_key r = key \<and> ps_quantity r = q \<and> ps_entry r = e \<and> ps_at r = t)"
proof -
  have "find (\<lambda>r. row_key r = key) (bk_positions B) = Some r \<longleftrightarrow> r \<in> set (bk_positions B) \<and> row_key r = key" for r
    using assms by (intro find_distinct_map) (simp add: book_inv_def)
  then show ?thesis by (auto simp: select_position_def)
qed

text \<open>Both sides hold the same quantities under the same keys.\<close>

lemma mirrored_pairs:
  assumes "mirrors V B p base" "venue_ok V" "book_inv B" "\<forall>x\<in>set (venue_positions V). strip (po_symbol x) \<noteq> []"
  defines "mine \<equiv> filter (\<lambda>h. ho_venue h = pv_name V) (map holding_of (map position_of_row (position_rows B p)))"
  shows "(\<forall>h\<in>set mine. strip (ho_symbol h) \<noteq> [])"
    and "0 \<le> tolerance \<Longrightarrow> positions_agree tolerance mine (map holding_of (venue_positions V))"
proof -
  let ?theirs = "map holding_of (venue_positions V)"
  have eq: "map_option pos_triple (map_of (pv_positions V) k) = select_position (bk_positions B) (p, pv_name V, k)" for k
    using assms(1) by (auto simp: mirrors_def dest: fun_cong)
  have entry: "(\<exists>x. (k, x) \<in> set (pv_positions V) \<and> po_quantity x = q)
    \<longleftrightarrow> (\<exists>r\<in>set (bk_positions B). row_key r = (p, pv_name V, k) \<and> ps_quantity r = q)" for k q
  proof -
    have d: "(k, x) \<in> set (pv_positions V) \<longleftrightarrow> map_of (pv_positions V) k = Some x" for x
      using assms(2) by (simp add: venue_ok_def)
    have "(\<exists>x. map_of (pv_positions V) k = Some x \<and> po_quantity x = q)
      \<longleftrightarrow> (\<exists>e t. select_position (bk_positions B) (p, pv_name V, k) = Some (q, e, t))"
      unfolding eq[symmetric] by (auto simp: pos_triple_def)
    then show ?thesis unfolding d by (auto simp: select_position_row[OF assms(3)])
  qed
  have keys: "(k, x) \<in> set (pv_positions V) \<Longrightarrow> k = (po_symbol x, po_market_type x) \<and> exact (po_quantity x)" for k x
    using assms(2) by (auto simp: venue_ok_def)
  have mine: "h \<in> set mine \<longleftrightarrow> (\<exists>r\<in>set (bk_positions B). ps_portfolio r = p \<and> ps_venue r = pv_name V \<and> h = holding_of (position_of_row r))" for h
    by (auto simp: mine_def position_rows_def holding_of_def position_of_row_def)
  let ?rows = "filter (\<lambda>r. ps_venue r = pv_name V) (position_rows B p)"
  have rows: "mine = map (\<lambda>r. holding_of (position_of_row r)) ?rows"
    by (simp add: mine_def filter_map o_def holding_of_def position_of_row_def)
  show named: "\<forall>h\<in>set mine. strip (ho_symbol h) \<noteq> []"
  proof
    fix h assume "h \<in> set mine"
    then obtain r where r: "r \<in> set (bk_positions B)" "row_key r = (p, pv_name V, (ps_symbol r, ps_market r))" "ho_symbol h = ps_symbol r"
      unfolding mine by (auto simp: row_key_def holding_of_def position_of_row_def)
    then obtain x where "((ps_symbol r, ps_market r), x) \<in> set (pv_positions V)" using entry by blast
    with keys[OF this] assms(4) r(3) show "strip (ho_symbol h) \<noteq> []" by (force simp: venue_positions_def)
  qed
  have pairs: "position_pairs hs = map (\<lambda>h. ((ho_symbol h, ho_market h), ho_quantity h)) hs" if "\<forall>h\<in>set hs. strip (ho_symbol h) \<noteq> []" for hs
    using that by (simp add: position_pairs_def)
  have theirs: "\<forall>h\<in>set ?theirs. strip (ho_symbol h) \<noteq> []" using assms(4) by (auto simp: holding_of_def)
  have key: "(k, v) \<in> set (position_pairs mine) \<longleftrightarrow>
      (\<exists>q. v = Fin q \<and> (\<exists>r\<in>set (bk_positions B). row_key r = (p, pv_name V, k) \<and> ps_quantity r = q))" for k v
  proof -
    have "(k, v) \<in> set (position_pairs mine) \<longleftrightarrow> (\<exists>h. h \<in> set mine \<and> k = (ho_symbol h, ho_market h) \<and> v = ho_quantity h)"
      unfolding pairs[OF named] by auto
    also have "\<dots> \<longleftrightarrow> (\<exists>r\<in>set (bk_positions B). ps_portfolio r = p \<and> ps_venue r = pv_name V
        \<and> k = (ps_symbol r, ps_market r) \<and> v = Fin (ps_quantity r))"
      unfolding mine by (fastforce simp: holding_of_def position_of_row_def)
    finally show ?thesis by (fastforce simp: row_key_def)
  qed
  have same: "set (position_pairs mine) = set (position_pairs ?theirs)"
  proof (intro set_eqI)
    fix x :: "(string \<times> market_type) \<times> xdecimal"
    obtain k v where x: "x = (k, v)" by (cases x)
    have "x \<in> set (position_pairs ?theirs) \<longleftrightarrow> (\<exists>q. v = Fin q \<and> (\<exists>y. (k, y) \<in> set (pv_positions V) \<and> po_quantity y = q))"
    proof -
      have "x \<in> set (position_pairs ?theirs) \<longleftrightarrow> (\<exists>j y. (j, y) \<in> set (pv_positions V)
          \<and> k = (po_symbol y, po_market_type y) \<and> v = Fin (po_quantity y))"
        unfolding pairs[OF theirs] x by (auto simp: venue_positions_def holding_of_def image_iff Bex_def)
      also have "\<dots> \<longleftrightarrow> (\<exists>q. v = Fin q \<and> (\<exists>y. (k, y) \<in> set (pv_positions V) \<and> po_quantity y = q))"
        using keys by metis
      finally show ?thesis .
    qed
    then show "x \<in> set (position_pairs mine) \<longleftrightarrow> x \<in> set (position_pairs ?theirs)"
      unfolding x key entry by simp
  qed
  have "map fst (position_pairs ?theirs) = map fst (pv_positions V)"
    unfolding pairs[OF theirs] using keys by (auto simp: venue_positions_def holding_of_def)
  then have dt: "distinct (map fst (position_pairs ?theirs))" using assms(2) by (simp add: venue_ok_def)
  have "distinct (map row_key (filter (\<lambda>r. ps_portfolio r = p) (bk_positions B)))"
    using assms(3) by (simp add: book_inv_def distinct_map_filter)
  then have "distinct (map row_key (position_rows B p))" by (simp add: position_rows_def distinct_map)
  then have "distinct (map row_key ?rows)" by (rule distinct_map_filter)
  moreover have "map row_key ?rows = map (\<lambda>r. (p, pv_name V, (ps_symbol r, ps_market r))) ?rows"
    by (simp add: row_key_def position_rows_def)
  ultimately have "distinct (map (\<lambda>r. (ps_symbol r, ps_market r)) ?rows)"
    by (simp add: distinct_map inj_on_def)
  moreover have "map fst (position_pairs mine) = map (\<lambda>r. (ps_symbol r, ps_market r)) ?rows"
    unfolding pairs[OF named] unfolding rows by (simp add: holding_of_def position_of_row_def)
  ultimately have dm: "distinct (map fst (position_pairs mine))" by simp
  have exact: "\<forall>x\<in>set (position_pairs ?theirs). \<exists>q. snd x = Fin q \<and> exact q"
    unfolding pairs[OF theirs] using keys by (auto simp: venue_positions_def holding_of_def)
  show "positions_agree tolerance mine ?theirs" if "0 \<le> tolerance"
  proof -
    have "net (position_pairs mine) k = net (position_pairs ?theirs) k" for k
      using net_distinct[OF dt exact] net_distinct[OF dm exact[folded same]] map_of_eqI[OF dm dt same] by simp
    moreover have "is_finite (net (position_pairs ?theirs) k)" for k
      unfolding net_distinct[OF dt exact]
      using exact by (cases "map_of (position_pairs ?theirs) k") (auto simp: or_zero_def dest!: map_of_SomeD)
    ultimately show ?thesis using that by (simp add: positions_agree_def agree_refl)
  qed
qed

text \<open>The cash rows a loaded portfolio has at the venue, and what the venue reports.\<close>

lemma mirrored_cash:
  assumes "mirrors V B p base" "single_currency V B p base" "0 \<le> dict_get (pv_balances V) base 0"
  defines "cash \<equiv> filter (\<lambda>b. fd_venue b = pv_name V) (map funds_of_cash (map cash_of_row (cash_rows B p)))"
    and "x \<equiv> dict_get (pv_balances V) base 0"
  obtains bs where "venue_balances V = Inr bs" "map funds_of_balance bs = cash"
    "cash = [\<lparr>fd_venue = pv_name V, fd_asset = base, fd_free = Fin x, fd_locked = Fin 0\<rparr>]"
proof -
  from assms(2) obtain v where v: "pv_balances V = [(base, v)]" by (auto simp: single_currency_def map_eq_Cons_conv)
  then have x: "x = v" by (simp add: x_def)
  from assms(2) obtain r where r: "filter (\<lambda>r. ca_portfolio r = p \<and> ca_venue r = pv_name V) (bk_cash B) = [r]"
      "ca_asset r = base" "ca_locked r = 0"
    by (auto simp: single_currency_def map_eq_Cons_conv)
  have mem: "r \<in> set (bk_cash B)" "ca_portfolio r = p" "ca_venue r = pv_name V"
    using arg_cong[OF r(1), of set] by auto
  have "find (\<lambda>r. ca_portfolio r = p \<and> ca_venue r = pv_name V \<and> ca_asset r = base) (bk_cash B) = Some r"
  proof (cases "find (\<lambda>r. ca_portfolio r = p \<and> ca_venue r = pv_name V \<and> ca_asset r = base) (bk_cash B)")
    case None
    with mem r(2) show ?thesis by (auto simp: find_None_all)
  next
    case (Some s)
    then have "s \<in> set [r]" unfolding r(1)[symmetric] using find_Some_mem[OF Some] by auto
    with Some show ?thesis by simp
  qed
  then have free: "ca_free r = v"
    using assms(1) x by (simp add: mirrors_def venue_cash_def x_def)
  have "filter (\<lambda>r. ca_venue r = pv_name V) (cash_rows B p) = [r]"
  proof -
    have "filter (\<lambda>r. ca_venue r = pv_name V) (cash_rows B p) = sort_key (\<lambda>r. (ca_venue r, ca_asset r)) [r]"
      unfolding cash_rows_def filter_sort filter_filter r(1)[symmetric] by (simp add: conj_commute)
    then show ?thesis by simp
  qed
  then have cash: "cash = [\<lparr>fd_venue = pv_name V, fd_asset = base, fd_free = Fin x, fd_locked = Fin 0\<rparr>]"
    by (simp add: cash_def filter_map o_def funds_of_cash_def cash_of_row_def mem r free x)
  have "\<exists>now. venue_balances V = Inr [\<lparr>ba_venue = pv_name V, ba_asset = base, ba_free = x, ba_locked = 0, ba_as_of = now\<rparr>]"
    using assms(3) by (simp add: venue_balances_def v x x_def check_balance_def Let_def max_def)
  then obtain now where "venue_balances V = Inr [\<lparr>ba_venue = pv_name V, ba_asset = base, ba_free = x, ba_locked = 0, ba_as_of = now\<rparr>]" ..
  from that[OF this _ cash] show thesis by (simp add: funds_of_balance_def cash)
qed

text \<open>The parts agree with each other: a portfolio whose book mirrors the paper venue, loaded from its rows and
  compared with what the venue reports, is reconciled at every tolerance, so a reconcile-first loop is not halted by
  its own simulated fills; the condition that is needed is a balance that is not negative.\<close>

theorem paper_book_reconciles:
  assumes "mirrors V B p base" "venue_ok V" "book_inv B" "portfolio_base B p = Some base" "single_currency V B p base"
    and "\<forall>x\<in>set (venue_positions V). strip (po_symbol x) \<noteq> []" "strip base \<noteq> []"
    and "0 \<le> dict_get (pv_balances V) base 0" "0 \<le> tolerance"
  shows "\<exists>st r. load p B = Inr st \<and> reconcile_venue (map holding_of (st_positions st)) (map funds_of_cash (st_cash_positions st))
      (paper_view V) (Some (Fin tolerance)) now True = Inr r \<and> rr_reconciled r"
proof -
  let ?st = "loaded_state p base B"
  let ?ls = "filter (\<lambda>h. ho_venue h = pv_name V) (map holding_of (map position_of_row (position_rows B p)))"
  let ?cash = "filter (\<lambda>b. fd_venue b = pv_name V) (map funds_of_cash (map cash_of_row (cash_rows B p)))"
  obtain bs where bs: "venue_balances V = Inr bs" "map funds_of_balance bs = ?cash"
    "?cash = [\<lparr>fd_venue = pv_name V, fd_asset = base, fd_free = Fin (dict_get (pv_balances V) base 0), fd_locked = Fin 0\<rparr>]"
    by (rule mirrored_cash[OF assms(1,5,8)])
  let ?rs = "map holding_of (venue_positions V)"
  have spot: "\<forall>h. spot_name (paper_view V) h = None" by (simp add: spot_name_def paper_view_def)
  have name: "vv_name (paper_view V) = pv_name V" by (simp add: paper_view_def)
  have "finite_books ?ls ?cash" "finite_books ?rs (map funds_of_balance bs)"
    by (auto simp: finite_books_def holding_of_def funds_of_cash_def funds_of_balance_def)
  from compare_books_total[OF this spot] obtain found where
    found: "compare_books (paper_view V) tolerance ?ls ?cash ?rs (map funds_of_balance bs) = Inr found" by blast
  have "all_named (?ls @ ?rs) (?cash @ map funds_of_balance bs)"
    using mirrored_pairs(1)[OF assms(1-3,6)] assms(6,7) unfolding bs(2,3) by (auto simp: all_named_def holding_of_def)
  moreover have "positions_agree tolerance ?ls ?rs" by (rule mirrored_pairs(2)[OF assms(1-3,6,9)])
  moreover have "cash_agrees tolerance ?cash (map funds_of_balance bs)"
    unfolding bs(2) unfolding bs(3) using assms(7,9)
    by (auto simp: cash_agrees_def pairs_agree_def funds_at_def funds_pairs_def at_key_def total_of_def or_zeros_def
        total_value_def agree_refl split: if_splits)
  ultimately have "found = []" using compare_books_none[OF found spot assms(9)] by blast
  then have "\<exists>r. reconcile_venue (map holding_of (st_positions ?st)) (map funds_of_cash (st_cash_positions ?st))
      (paper_view V) (Some (Fin tolerance)) now True = Inr r \<and> rr_reconciled r"
    using found assms(9) by (simp add: reconcile_venue_def or_zero_def name loaded_state_def make_state_def
        paper_view_def[of V] bs(1) check_reconciliation_def)
  then show ?thesis using load_total[OF assms(3,4)] by blast
qed

lemma paper_book_reconciles_witness:
  "\<exists>st r. load 7 usdt_book = Inr st \<and> reconcile_venue (map holding_of (st_positions st)) (map funds_of_cash (st_cash_positions st))
      (paper_view sample_venue) (Some (Fin 0)) 5 True = Inr r \<and> rr_reconciled r"
proof -
  have "single_currency sample_venue usdt_book 7 ''USDT''" "\<forall>x\<in>set (venue_positions sample_venue). strip (po_symbol x) \<noteq> []"
    "strip ''USDT'' \<noteq> []" "0 \<le> dict_get (pv_balances sample_venue) ''USDT'' 0"
    by code_simp+
  from paper_book_reconciles[OF sample_venue_mirrored usdt_book_ok(1,2) this] show ?thesis by simp
qed

section \<open>Stored results\<close>

text \<open>
  The two tables. \<open>rw_recorded\<close> is the database clock of the insert; row ids grow, where the database draws
  random ones, and only break ties that are left.
\<close>

record result_row =
  rw_id :: nat
  rw_portfolio :: nat
  rw_venue :: string
  rw_reconciled :: bool
  rw_at :: int
  rw_recorded :: int

record finding_row =
  fw_result :: nat
  fw_seq :: nat
  fw_found :: discrepancy

record result_store =
  rs_results :: "result_row list"
  rs_findings :: "finding_row list"
  rs_next :: nat

definition finding_rows :: "nat \<Rightarrow> discrepancy list \<Rightarrow> finding_row list" where
  "finding_rows n ds = map (\<lambda>(i, d). \<lparr>fw_result = n, fw_seq = i, fw_found = d\<rparr>) (enumerate 0 ds)"

definition record_result :: "nat \<Rightarrow> int \<Rightarrow> reconciliation \<Rightarrow> bool \<Rightarrow> result_store \<Rightarrow> (nat \<times> result_store) trading" where
  "record_result p now r aware S =
     rbind (ensure aware Invalid_Value) (\<lambda>_.
     rbind (ensure (\<forall>d\<in>set (rr_found r). dc_venue d = rr_venue r) Invalid_Value) (\<lambda>_.
     rbind (ensure (rr_venue r \<noteq> []) Integrity_Error) (\<lambda>_.
     Inr (rs_next S, \<lparr>rs_results = rs_results S @ [\<lparr>rw_id = rs_next S, rw_portfolio = p, rw_venue = rr_venue r,
           rw_reconciled = rr_reconciled r, rw_at = rr_at r, rw_recorded = now\<rparr>],
         rs_findings = rs_findings S @ finding_rows (rs_next S) (rr_found r),
         rs_next = Suc (rs_next S)\<rparr>))))"

text \<open>\<open>SELECT DISTINCT ON (venue) ... ORDER BY venue, checked_at DESC, reconciled, recorded_at DESC, id\<close>.\<close>

primrec distinct_on :: "('a \<Rightarrow> 'k) \<Rightarrow> 'a list \<Rightarrow> 'a list" where
  "distinct_on f [] = []"
| "distinct_on f (x # xs) = x # filter (\<lambda>y. f y \<noteq> f x) (distinct_on f xs)"

definition latest_key :: "result_row \<Rightarrow> string \<times> int \<times> bool \<times> int \<times> nat" where
  "latest_key w = (rw_venue w, - rw_at w, rw_reconciled w, - rw_recorded w, rw_id w)"

definition latest_rows :: "nat \<Rightarrow> result_store \<Rightarrow> result_row list" where
  "latest_rows p S = distinct_on rw_venue (sort_key latest_key (filter (\<lambda>w. rw_portfolio w = p) (rs_results S)))"

definition found_rows :: "nat \<Rightarrow> result_store \<Rightarrow> discrepancy list" where
  "found_rows i S = map fw_found (sort_key fw_seq (filter (\<lambda>f. fw_result f = i) (rs_findings S)))"

definition latest_by_venue :: "nat \<Rightarrow> result_store \<Rightarrow> (string \<times> reconciliation) list trading" where
  "latest_by_venue p S =
     rmap (\<lambda>w. rbind (check_reconciliation \<lparr>rr_reconciled = rw_reconciled w, rr_found = found_rows (rw_id w) S,
         rr_at = rw_at w, rr_venue = rw_venue w\<rparr>) (\<lambda>r. Inr (rw_venue w, r))) (latest_rows p S)"

definition store_ok :: "result_store \<Rightarrow> bool" where
  "store_ok S \<longleftrightarrow> distinct (map rw_id (rs_results S)) \<and> (\<forall>w\<in>set (rs_results S). rw_id w < rs_next S)
     \<and> (\<forall>f\<in>set (rs_findings S). fw_result f < rs_next S)
     \<and> (\<forall>w\<in>set (rs_results S). rw_reconciled w \<longleftrightarrow> found_rows (rw_id w) S = [])"

lemma distinct_on_least:
  assumes "sorted (map h xs)" "inj_on h (set xs)"
  shows "x \<in> set (distinct_on f xs) \<longleftrightarrow> x \<in> set xs \<and> (\<forall>y\<in>set xs. f y = f x \<longrightarrow> h x \<le> h y)"
  using assms
proof (induction xs)
  case (Cons a xs)
  then have IH: "x \<in> set (distinct_on f xs) \<longleftrightarrow> x \<in> set xs \<and> (\<forall>y\<in>set xs. f y = f x \<longrightarrow> h x \<le> h y)"
    and le: "\<forall>y\<in>set xs. h a \<le> h y" by simp_all
  have "x = a" if "x \<in> set xs" "f a = f x" "h x \<le> h a"
    using that le Cons.prems(2) by (auto dest: order_antisym inj_onD[of h "set (a # xs)" x a])
  with IH le show ?case by auto
qed simp

lemma image_filter_neq: "f ` {x \<in> D. f x \<noteq> c} = f ` D - {c}"
  by auto

lemma distinct_on_keys: "distinct (map f (distinct_on f xs))" "f ` set (distinct_on f xs) = f ` set xs"
proof (induction xs)
  case (Cons x xs)
  case 1 with Cons show ?case by (auto simp: distinct_map_filter)
  case 2 with Cons show ?case by (simp add: image_filter_neq)
qed simp_all

lemma latest_rows_iff:
  assumes "store_ok S"
  shows "w \<in> set (latest_rows p S) \<longleftrightarrow> w \<in> set (rs_results S) \<and> rw_portfolio w = p
    \<and> (\<forall>u\<in>set (rs_results S). rw_portfolio u = p \<and> rw_venue u = rw_venue w \<longrightarrow> latest_key w \<le> latest_key u)"
proof -
  let ?xs = "sort_key latest_key (filter (\<lambda>w. rw_portfolio w = p) (rs_results S))"
  have "inj_on rw_id (set (rs_results S))" using assms by (simp add: store_ok_def distinct_map)
  then have "inj_on latest_key (set ?xs)" by (auto simp: inj_on_def latest_key_def)
  from distinct_on_least[OF _ this, of w rw_venue] show ?thesis by (auto simp: latest_rows_def)
qed

lemma latest_by_venue_total:
  assumes "store_ok S"
  obtains view where "latest_by_venue p S = Inr view" "distinct (map fst view)" "map fst view = map rw_venue (latest_rows p S)"
    "\<And>v r. map_of view v = Some r \<longleftrightarrow> (\<exists>w\<in>set (latest_rows p S). rw_venue w = v \<and> r = \<lparr>rr_reconciled = rw_reconciled w,
        rr_found = found_rows (rw_id w) S, rr_at = rw_at w, rr_venue = rw_venue w\<rparr>)"
proof -
  let ?r = "\<lambda>w. \<lparr>rr_reconciled = rw_reconciled w, rr_found = found_rows (rw_id w) S, rr_at = rw_at w, rr_venue = rw_venue w\<rparr>"
  define view where "view = map (\<lambda>w. (rw_venue w, ?r w)) (latest_rows p S)"
  have "check_reconciliation (?r w) = Inr (?r w)" if "w \<in> set (latest_rows p S)" for w
    using that assms by (simp add: latest_rows_iff check_reconciliation_def store_ok_def)
  then have v: "latest_by_venue p S = Inr view"
    unfolding latest_by_venue_def view_def by (intro rmap_ok) simp
  have keys: "map fst view = map rw_venue (latest_rows p S)" by (simp add: view_def o_def)
  then have d: "distinct (map fst view)" by (simp add: latest_rows_def distinct_on_keys)
  show thesis by (rule that[OF v d keys]) (auto simp: map_of_eq_Some_iff[OF d], auto simp: view_def)
qed

text \<open>Reading stored verdicts back is total and errs on the side of a halt: on every well-formed store a
  venue is absent exactly when it was never checked, and what is returned is dated at or after every reading of that
  venue and is clean only if every reading with that date is clean.\<close>

theorem latest_result_is_conservative:
  assumes "store_ok S"
  shows "\<exists>view. latest_by_venue p S = Inr view
    \<and> (\<forall>v. map_of view v = None \<longleftrightarrow> (\<forall>w\<in>set (rs_results S). \<not> (rw_portfolio w = p \<and> rw_venue w = v)))
    \<and> (\<forall>v r. map_of view v = Some r \<longrightarrow> (\<forall>w\<in>set (rs_results S). rw_portfolio w = p \<and> rw_venue w = v \<longrightarrow>
        rw_at w \<le> rr_at r \<and> (rr_reconciled r \<and> rw_at w = rr_at r \<longrightarrow> rw_reconciled w)))"
proof -
  obtain view where view: "latest_by_venue p S = Inr view" "distinct (map fst view)" "map fst view = map rw_venue (latest_rows p S)"
    "\<And>v r. map_of view v = Some r \<longleftrightarrow> (\<exists>w\<in>set (latest_rows p S). rw_venue w = v \<and> r = \<lparr>rr_reconciled = rw_reconciled w,
        rr_found = found_rows (rw_id w) S, rr_at = rw_at w, rr_venue = rw_venue w\<rparr>)"
    by (rule latest_by_venue_total[OF assms]) blast
  have absent: "map_of view v = None \<longleftrightarrow> (\<forall>w\<in>set (rs_results S). \<not> (rw_portfolio w = p \<and> rw_venue w = v))" for v
  proof -
    have "map_of view v = None \<longleftrightarrow> v \<notin> set (map rw_venue (latest_rows p S))"
      unfolding view(3)[symmetric] by (simp add: map_of_eq_None_iff)
    then show ?thesis by (auto simp: latest_rows_def distinct_on_keys)
  qed
  have newest: "rw_at w \<le> rr_at r \<and> (rr_reconciled r \<and> rw_at w = rr_at r \<longrightarrow> rw_reconciled w)"
    if "map_of view v = Some r" "w \<in> set (rs_results S)" "rw_portfolio w = p" "rw_venue w = v" for v r w
  proof -
    from that(1) obtain u where u: "u \<in> set (latest_rows p S)" "rw_venue u = v" "rr_at r = rw_at u" "rr_reconciled r = rw_reconciled u"
      by (auto simp: view(4))
    then have "latest_key u \<le> latest_key w" using that(2-4) by (simp add: latest_rows_iff[OF assms])
    with u that(4) show ?thesis by (auto simp: latest_key_def less_eq_prod_def)
  qed
  show ?thesis using view(1) absent newest by blast
qed

definition tied_store :: result_store where
  "tied_store = \<lparr>rs_results = [\<lparr>rw_id = 0, rw_portfolio = 7, rw_venue = ''paper'', rw_reconciled = True, rw_at = 5, rw_recorded = 6\<rparr>,
       \<lparr>rw_id = 1, rw_portfolio = 7, rw_venue = ''paper'', rw_reconciled = False, rw_at = 5, rw_recorded = 5\<rparr>],
     rs_findings = [\<lparr>fw_result = 1, fw_seq = 0, fw_found = unknown ''paper''\<rparr>], rs_next = 2\<rparr>"

lemma tied_store_ok: "store_ok tied_store"
  by code_simp

lemma latest_result_is_conservative_witness:
  "\<exists>view. latest_by_venue 7 tied_store = Inr view \<and> (\<forall>r. map_of view ''paper'' = Some r \<longrightarrow> 5 \<le> rr_at r \<and> (rr_at r = 5 \<longrightarrow> \<not> rr_reconciled r))"
proof -
  obtain view where v: "latest_by_venue 7 tied_store = Inr view"
    and all: "\<forall>v r. map_of view v = Some r \<longrightarrow> (\<forall>w\<in>set (rs_results tied_store). rw_portfolio w = 7 \<and> rw_venue w = v \<longrightarrow>
        rw_at w \<le> rr_at r \<and> (rr_reconciled r \<and> rw_at w = rr_at r \<longrightarrow> rw_reconciled w))"
    using latest_result_is_conservative[OF tied_store_ok, of 7] by blast
  obtain w where w: "w \<in> set (rs_results tied_store)" "rw_portfolio w = 7 \<and> rw_venue w = ''paper''" "rw_at w = 5" "\<not> rw_reconciled w"
    by (rule that[of "rs_results tied_store ! 1"]) (simp_all add: tied_store_def)
  have "5 \<le> rr_at r \<and> (rr_at r = 5 \<longrightarrow> \<not> rr_reconciled r)" if "map_of view ''paper'' = Some r" for r
    using all[rule_format, OF that w(1,2)] w(3,4) by auto
  with v show ?thesis by blast
qed

lemma finding_rows_simps:
  "map fw_seq (finding_rows n ds) = [0..<length ds]" "map fw_found (finding_rows n ds) = ds"
  "f \<in> set (finding_rows n ds) \<Longrightarrow> fw_result f = n"
proof -
  have "map fw_seq (finding_rows n ds) = map fst (enumerate 0 ds)" by (simp add: finding_rows_def case_prod_beta' comp_def)
  then show "map fw_seq (finding_rows n ds) = [0..<length ds]" by simp
  have "map fw_found (finding_rows n ds) = map snd (enumerate 0 ds)" by (simp add: finding_rows_def case_prod_beta' comp_def)
  then show "map fw_found (finding_rows n ds) = ds" by simp
qed (auto simp: finding_rows_def)

lemma found_rows_recorded:
  assumes "record_result p now r aware S = Inr (i, S')" "store_ok S"
  shows "found_rows (rs_next S) S' = rr_found r" "j < rs_next S \<Longrightarrow> found_rows j S' = found_rows j S"
proof -
  let ?new = "finding_rows (rs_next S) (rr_found r)"
  have S': "rs_findings S' = rs_findings S @ ?new" using assms(1) by (auto simp: record_result_def result_simps)
  have old: "filter (\<lambda>f. fw_result f = rs_next S) (rs_findings S) = []"
    using assms(2) by (auto simp: store_ok_def filter_empty_conv)
  have new: "filter (\<lambda>f. fw_result f = j) ?new = (if j = rs_next S then ?new else [])" for j
    by (auto simp: filter_empty_conv filter_id_conv dest: finding_rows_simps(3))
  have "sort_key fw_seq ?new = ?new" by (rule sort_key_id_if_sorted) (simp add: finding_rows_simps(1))
  then show "found_rows (rs_next S) S' = rr_found r"
    by (simp add: found_rows_def S' old new finding_rows_simps(2))
  show "found_rows j S' = found_rows j S" if "j < rs_next S"
    using that by (simp add: found_rows_def S' new)
qed

lemma record_result_store_ok:
  assumes "record_result p now r aware S = Inr (i, S')" "store_ok S" "check_reconciliation r = Inr r"
  shows "store_ok S'"
proof -
  have S': "rs_results S' = rs_results S @ [\<lparr>rw_id = rs_next S, rw_portfolio = p, rw_venue = rr_venue r,
      rw_reconciled = rr_reconciled r, rw_at = rr_at r, rw_recorded = now\<rparr>]"
    "rs_findings S' = rs_findings S @ finding_rows (rs_next S) (rr_found r)" "rs_next S' = Suc (rs_next S)"
    using assms(1) by (auto simp: record_result_def result_simps)
  have fresh: "rs_next S \<notin> rw_id ` set (rs_results S)" using assms(2) by (auto simp: store_ok_def)
  have coherent: "rr_reconciled r \<longleftrightarrow> rr_found r = []" using assms(3) by (auto simp: check_reconciliation_def result_simps)
  have old: "\<forall>w\<in>set (rs_results S). found_rows (rw_id w) S' = found_rows (rw_id w) S \<and> rw_id w < rs_next S"
    using assms(2) found_rows_recorded(2)[OF assms(1,2)] by (simp add: store_ok_def)
  show ?thesis
    using assms(2) fresh old coherent
    unfolding store_ok_def S'
    by (auto simp: found_rows_recorded(1)[OF assms(1,2)] less_Suc_eq dest: finding_rows_simps(3))
qed

lemma option_eqI: "(\<And>q. x = Some q \<longleftrightarrow> y = Some q) \<Longrightarrow> x = y"
  by (metis not_Some_eq)

text \<open>C32. A recorded verdict is the one read back: after recording a verdict dated after every earlier reading of
  its venue, the latest result of that venue is that verdict with its discrepancies in their order, and every
  other venue reads as before.\<close>

theorem recorded_result_read_back:
  assumes "record_result p now r True S = Inr (i, S')" "store_ok S" "check_reconciliation r = Inr r"
    and "\<forall>w\<in>set (rs_results S). rw_portfolio w = p \<and> rw_venue w = rr_venue r \<longrightarrow> rw_at w < rr_at r"
  shows "store_ok S' \<and> (\<exists>before after. latest_by_venue p S = Inr before \<and> latest_by_venue p S' = Inr after
    \<and> map_of after = (map_of before)(rr_venue r \<mapsto> r))"
proof -
  have ok: "store_ok S'" by (rule record_result_store_ok[OF assms(1-3)])
  define new where "new = \<lparr>rw_id = rs_next S, rw_portfolio = p, rw_venue = rr_venue r, rw_reconciled = rr_reconciled r,
    rw_at = rr_at r, rw_recorded = now\<rparr>"
  have nv: "rw_venue new = rr_venue r" "rw_portfolio new = p" by (simp_all add: new_def)
  have rows: "set (rs_results S') = insert new (set (rs_results S))"
    using assms(1) by (auto simp: record_result_def result_simps new_def)
  have later: "latest_key new < latest_key w" if "w \<in> set (rs_results S)" "rw_portfolio w = p" "rw_venue w = rr_venue r" for w
    using that assms(4) by (simp add: latest_key_def new_def less_prod_def)
  have newest: "new \<in> set (latest_rows p S')"
    unfolding latest_rows_iff[OF ok] rows nv
  proof (intro conjI ballI impI)
    fix u assume "u \<in> insert new (set (rs_results S))" "rw_portfolio u = p \<and> rw_venue u = rr_venue r"
    then show "latest_key new \<le> latest_key u" using later[of u] by (cases "u = new") (simp_all add: less_imp_le)
  qed simp_all
  have others: "w \<in> set (latest_rows p S') \<longleftrightarrow> w \<in> set (latest_rows p S)" if "rw_venue w \<noteq> rr_venue r" for w
  proof -
    have "rw_venue new \<noteq> rw_venue w" "w \<noteq> new" using that nv by auto
    then show ?thesis by (simp add: latest_rows_iff[OF ok] latest_rows_iff[OF assms(2)] rows)
  qed
  obtain before where before: "latest_by_venue p S = Inr before"
    "\<And>v q. map_of before v = Some q \<longleftrightarrow> (\<exists>w\<in>set (latest_rows p S). rw_venue w = v \<and> q = \<lparr>rr_reconciled = rw_reconciled w,
        rr_found = found_rows (rw_id w) S, rr_at = rw_at w, rr_venue = rw_venue w\<rparr>)"
    by (rule latest_by_venue_total[OF assms(2)]) blast
  obtain after where after: "latest_by_venue p S' = Inr after"
    "\<And>v q. map_of after v = Some q \<longleftrightarrow> (\<exists>w\<in>set (latest_rows p S'). rw_venue w = v \<and> q = \<lparr>rr_reconciled = rw_reconciled w,
        rr_found = found_rows (rw_id w) S', rr_at = rw_at w, rr_venue = rw_venue w\<rparr>)"
    by (rule latest_by_venue_total[OF ok]) blast
  have "map_of after v = ((map_of before)(rr_venue r \<mapsto> r)) v" for v
  proof (cases "v = rr_venue r")
    case True
    have "r = \<lparr>rr_reconciled = rw_reconciled new, rr_found = found_rows (rw_id new) S', rr_at = rw_at new, rr_venue = rw_venue new\<rparr>"
      using found_rows_recorded(1)[OF assms(1,2)] by (simp add: new_def)
    then have "map_of after v = Some r" unfolding after(2) True using newest nv(1) by blast
    with True show ?thesis by simp
  next
    case False
    have "map_of after v = Some q \<longleftrightarrow> map_of before v = Some q" for q
    proof -
      have same: "found_rows (rw_id w) S' = found_rows (rw_id w) S" if "w \<in> set (latest_rows p S)" for w
      proof -
        have "w \<in> set (rs_results S)" using that by (simp add: latest_rows_iff[OF assms(2)])
        then have "rw_id w < rs_next S" using assms(2) by (simp add: store_ok_def)
        then show ?thesis by (rule found_rows_recorded(2)[OF assms(1,2)])
      qed
      have mem: "w \<in> set (latest_rows p S') \<longleftrightarrow> w \<in> set (latest_rows p S)" if "rw_venue w = v" for w
        using others[of w] that False by simp
      show ?thesis unfolding before(2) after(2)
      proof (intro iffI; elim bexE conjE)
        fix w assume "w \<in> set (latest_rows p S')" "rw_venue w = v" and q: "q = \<lparr>rr_reconciled = rw_reconciled w,
          rr_found = found_rows (rw_id w) S', rr_at = rw_at w, rr_venue = rw_venue w\<rparr>"
        then have w: "w \<in> set (latest_rows p S)" "rw_venue w = v" using mem by simp_all
        show "\<exists>w\<in>set (latest_rows p S). rw_venue w = v \<and> q = \<lparr>rr_reconciled = rw_reconciled w,
          rr_found = found_rows (rw_id w) S, rr_at = rw_at w, rr_venue = rw_venue w\<rparr>"
          by (rule bexI[OF _ w(1)]) (simp add: w(2) q same[OF w(1)])
      next
        fix w assume w: "w \<in> set (latest_rows p S)" "rw_venue w = v" and q: "q = \<lparr>rr_reconciled = rw_reconciled w,
          rr_found = found_rows (rw_id w) S, rr_at = rw_at w, rr_venue = rw_venue w\<rparr>"
        then have w': "w \<in> set (latest_rows p S')" using mem by simp
        show "\<exists>w\<in>set (latest_rows p S'). rw_venue w = v \<and> q = \<lparr>rr_reconciled = rw_reconciled w,
          rr_found = found_rows (rw_id w) S', rr_at = rw_at w, rr_venue = rw_venue w\<rparr>"
          by (rule bexI[OF _ w']) (simp add: w(2) q same[OF w(1)])
      qed
    qed
    then have "map_of after v = map_of before v" by (rule option_eqI)
    with False show ?thesis by simp
  qed
  then have "map_of after = (map_of before)(rr_venue r \<mapsto> r)" by (rule ext)
  with ok before(1) after(1) show ?thesis by blast
qed

lemma recorded_result_read_back_witness:
  "\<exists>S' before after. store_ok S' \<and> latest_by_venue 7 tied_store = Inr before \<and> latest_by_venue 7 S' = Inr after
    \<and> map_of after = (map_of before)(''paper'' \<mapsto> \<lparr>rr_reconciled = True, rr_found = [], rr_at = 8, rr_venue = ''paper''\<rparr>)"
proof -
  let ?r = "\<lparr>rr_reconciled = True, rr_found = [], rr_at = 8, rr_venue = ''paper''\<rparr>"
  have "check_reconciliation ?r = Inr ?r" by code_simp
  moreover have "\<forall>w\<in>set (rs_results tied_store). rw_portfolio w = 7 \<and> rw_venue w = rr_venue ?r \<longrightarrow> rw_at w < rr_at ?r" by code_simp
  moreover obtain i S' where "record_result 7 9 ?r True tied_store = Inr (i, S')" by (simp add: record_result_def)
  ultimately show ?thesis using recorded_result_read_back[OF _ tied_store_ok, of 7 9 ?r i S'] by auto
qed

end
