(* ===== verification/Trading_Cycle.thy ===== *)
theory Trading_Cycle
  imports Bridge Venue_Reconcile
begin

text \<open>
  One trading cycle, \<open>src/omni/trading/loop.py\<close>, with the boundary to the venue of \<open>order_safety.py\<close> and the
  recording of \<open>pretrade.py\<close>. The world is what the cycle reads and writes: the order ledger, the book, the
  recorded verdicts, and the venue behind its port. Every database call commits on its own, so an operation
  that raises keeps what was committed before it: it returns the error and the world it leaves.

  Left out: the texts of refusals and halts, and the alert pass, which reads the verdicts and cannot raise.
  The lemmas carry three arguments through the rows of a cycle: what it sends, what it counts, what it leaves open.
\<close>

section \<open>The world and the venue port\<close>

record 'v world =
  wd_ledger :: ledger
  wd_book :: book
  wd_results :: result_store
  wd_venue :: 'v

text \<open>A venue as the loop calls it. \<open>vp_execute\<close> may move the venue also when its answer is lost; \<open>vp_resting\<close> is
  whether the raw answer of an empty fill says that the order rests.\<close>

record 'v venue_port =
  vp_name :: string
  vp_caps :: capabilities
  vp_view :: "'v \<Rightarrow> venue_view"
  vp_execute :: "intent \<Rightarrow> 'v \<Rightarrow> xdecimal fill trading \<times> 'v"
  vp_resting :: "string \<Rightarrow> bool"

definition and_then :: "'a trading \<times> 'w \<Rightarrow> ('a \<Rightarrow> 'w \<Rightarrow> 'b trading \<times> 'w) \<Rightarrow> 'b trading \<times> 'w" where
  "and_then m f = (case fst m of Inl e \<Rightarrow> (Inl e, snd m) | Inr x \<Rightarrow> f x (snd m))"

text \<open>A call on the ledger, committed on its own.\<close>

definition on_ledger :: "(ledger \<Rightarrow> ('a \<times> ledger) trading) \<Rightarrow> 'v world \<Rightarrow> 'a trading \<times> 'v world" where
  "on_ledger f W = (case f (wd_ledger W) of Inl e \<Rightarrow> (Inl e, W) | Inr (x, L) \<Rightarrow> (Inr x, W\<lparr>wd_ledger := L\<rparr>))"

definition move_order :: "nat \<Rightarrow> order_status \<Rightarrow> string option \<Rightarrow> string option \<Rightarrow> 'v world \<Rightarrow> unit trading \<times> 'v world" where
  "move_order i target ext pl = on_ledger (\<lambda>L. rbind (transition i target ext pl L) (\<lambda>L'. Inr ((), L')))"

section \<open>The boundary of an uncertain execution\<close>

definition unsettled_status :: "order_status \<Rightarrow> bool" where
  "unsettled_status s \<longleftrightarrow> s \<in> {Submitted, Acknowledged, Partially_Filled}"

definition unsettled_orders :: "ledger \<Rightarrow> nat \<Rightarrow> trade_order list" where
  "unsettled_orders L p = sort_key (\<lambda>r. (od_created r, od_id r))
     (filter (\<lambda>r. od_portfolio r = p \<and> unsettled_status (od_status r)) (ld_orders L))"

text \<open>\<open>ExecutionUncertain\<close> ends the cycle, other exceptions leave it.\<close>

datatype execution = Answered "xdecimal fill" | Uncertain

definition is_empty :: "xdecimal fill \<Rightarrow> bool" where
  "is_empty f \<longleftrightarrow> fl_quantity f = Fin 0"

definition execute_or_halt :: "'v venue_port \<Rightarrow> nat \<Rightarrow> intent \<Rightarrow> 'v world \<Rightarrow> execution trading \<times> 'v world" where
  "execute_or_halt P i x W =
     (let (answer, v) = vp_execute P x (wd_venue W); W1 = W\<lparr>wd_venue := v\<rparr> in
      case answer of
        Inl Venue_Unavailable \<Rightarrow>
          and_then (move_order i Acknowledged None (Some ''execution_uncertain'') W1) (\<lambda>_ W2. (Inr Uncertain, W2))
      | Inl e \<Rightarrow> (Inl e, W1)
      | Inr f \<Rightarrow>
          if is_empty f \<and> vp_resting P (fl_raw f) then
            and_then (move_order i Acknowledged (fl_external_id f) (Some ''resting'') W1) (\<lambda>_ W2. (Inr Uncertain, W2))
          else (Inr (Answered f), W1))"

section \<open>Configuration and result\<close>

record cycle_config =
  lc_phase :: trading_phase
  lc_target :: xdecimal
  lc_tolerance :: xdecimal
  lc_max :: int
  lc_market :: market_type
  lc_limits :: "decimal risk_limits"
  lc_bars :: bars

definition check_config :: "cycle_config \<Rightarrow> cycle_config trading" where
  "check_config c = rbind (ensure (\<not> lc_max c < 1) Invalid_Value) (\<lambda>_. Inr c)"

datatype loop_refusal = Ceiling_Reached | Already_Ordered | Empty_Fill | Loop_Venue_Unavailable | Execution_Uncertain

text \<open>The names a refusal is counted under.\<close>

datatype cycle_refusal = Policy_Reason ineligible | Bridge_Reason bridge_refusal | Loop_Reason loop_refusal

text \<open>Why a cycle halted: the venue did not reconcile (and whether that verdict could not be recorded), an
  order is unsettled, or an outcome is unknown.\<close>

datatype halt = Not_Reconciled string "discrepancy list" bool | Orders_Unsettled | Outcome_Unknown

record cycle_result =
  cr_considered :: nat
  cr_executed :: nat
  cr_refused :: "(cycle_refusal \<times> nat) list"
  cr_fills :: "xdecimal fill list"
  cr_halted :: bool
  cr_reason :: "halt option"

definition counted :: "(cycle_refusal \<times> nat) list \<Rightarrow> nat" where
  "counted refused = sum_list (map snd refused)"

definition check_cycle :: "cycle_result \<Rightarrow> cycle_result trading" where
  "check_cycle r =
     rbind (ensure (\<not> (cr_halted r \<and> cr_reason r = None)) Invalid_Value) (\<lambda>_.
     rbind (ensure (\<not> (\<not> cr_halted r \<and> cr_reason r \<noteq> None)) Invalid_Value) (\<lambda>_.
     rbind (ensure (cr_executed r = length (cr_fills r)) Invalid_Value) (\<lambda>_.
     rbind (ensure (int (counted (cr_refused r)) = int (cr_considered r) - int (cr_executed r)) Invalid_Value) (\<lambda>_.
     Inr r))))"

definition refusal_name :: "bridge_result \<Rightarrow> cycle_refusal trading" where
  "refusal_name r =
     (case bg_refusal r of
        None \<Rightarrow> Inl Invalid_Value
      | Some b \<Rightarrow>
          (case (b, el_reason (bg_eligibility r)) of
             (Method_Ineligible, Some why) \<Rightarrow> Inr (Policy_Reason why)
           | _ \<Rightarrow> Inr (Bridge_Reason b)))"

section \<open>The rows of a cycle\<close>

text \<open>What the cycle reads of the analysis side: the prediction table, the results of the walk-forward validation,
  the realised P&L of the day, and how a float is divided and printed.\<close>

record desk =
  dk_table :: "prediction_row list"
  dk_walk :: "string \<Rightarrow> bool option"
  dk_pnl :: "xdecimal option"
  dk_quotient :: "nat \<Rightarrow> nat \<Rightarrow> rat"
  dk_shown :: "rat \<Rightarrow> decimal"

definition pending_rows :: "int \<Rightarrow> prediction_row list \<Rightarrow> prediction_row list" where
  "pending_rows now rows = sort_key (\<lambda>r. (pd_created r, pd_id r)) (filter (\<lambda>r. pd_outcome r = Pending \<and> now < pd_horizon r) rows)"

text \<open>The local variables of the loop; \<open>cy_known\<close> holds one eligibility per method, kind and audience.\<close>

record cycle =
  cy_book :: portfolio_state
  cy_peak :: decimal
  cy_refused :: "(cycle_refusal \<times> nat) list"
  cy_fills :: "xdecimal fill list"
  cy_considered :: nat
  cy_submitted :: nat
  cy_known :: "((string \<times> string \<times> nat option) \<times> eligibility) list"

definition cycle_refuse :: "cycle_refusal \<Rightarrow> cycle \<Rightarrow> cycle" where
  "cycle_refuse reason cy = cy\<lparr>cy_refused := AList.update reason (dict_get (cy_refused cy) reason 0 + 1) (cy_refused cy)\<rparr>"

definition eligible_for :: "cycle_config \<Rightarrow> desk \<Rightarrow> string \<times> string \<times> nat option \<Rightarrow> eligibility trading" where
  "eligible_for cfg dk key =
     (let (meth, kind, audience) = key in
      eligible (dk_quotient dk) (dk_table dk) meth kind audience (lc_phase cfg) (lc_target cfg) (dk_walk dk meth) (lc_bars cfg))"

definition eligibility_key :: "prediction_row \<Rightarrow> string \<times> string \<times> nat option" where
  "eligibility_key r = (pd_method r, pd_kind r, pd_audience r)"

definition known_eligibility :: "cycle_config \<Rightarrow> desk \<Rightarrow> prediction_row \<Rightarrow> cycle \<Rightarrow> (eligibility \<times> cycle) trading" where
  "known_eligibility cfg dk r cy =
     (case map_of (cy_known cy) (eligibility_key r) of
        Some e \<Rightarrow> Inr (e, cy)
      | None \<Rightarrow>
          rbind (eligible_for cfg dk (eligibility_key r)) (\<lambda>e.
          Inr (e, cy\<lparr>cy_known := AList.update (eligibility_key r) e (cy_known cy)\<rparr>)))"

definition cycle_evidence :: "desk \<Rightarrow> prediction_row \<Rightarrow> int \<Rightarrow> cycle \<Rightarrow> evidence" where
  "cycle_evidence dk r now cy = \<lparr>ev_correlations = None, ev_data_as_of = Some (True, pd_created r), ev_now = Some (True, now),
     ev_pnl_today = dk_pnl dk, ev_peak_nav = Some (Fin (cy_peak cy)), ev_halted = False, ev_reconciled = Some True\<rparr>"

definition order_key :: "nat \<Rightarrow> prediction_row \<Rightarrow> string" where
  "order_key p r = Text.decimal p @ '':'' @ Text.decimal (pd_id r)"

definition bridge_row :: "'v venue_port \<Rightarrow> cycle_config \<Rightarrow> desk \<Rightarrow> int \<Rightarrow> prediction_row \<Rightarrow> eligibility \<Rightarrow> cycle \<Rightarrow> bridge_result trading" where
  "bridge_row P cfg dk now r e cy =
     prediction_to_intent (dk_shown dk) now r e (Some (cy_book cy)) (Some (lc_limits cfg)) (vp_name P) (vp_caps P) (pd_symbol r)
       (lc_market cfg) (Decimal_Number (Fin DEFAULT_KELLY_FRACTION)) None None (cycle_evidence dk r now cy) []"

text \<open>From an intent to its fill. The answer is the loop's variables and whether the cycle halts.\<close>

definition settle_answer :: "nat \<Rightarrow> nat \<Rightarrow> market_type \<Rightarrow> cycle \<Rightarrow> xdecimal fill \<Rightarrow> 'v world \<Rightarrow> (cycle \<times> halt option) trading \<times> 'v world" where
  "settle_answer p i mt cy f W =
     (if is_empty f then
        and_then (move_order i Rejected (fl_external_id f) (Some ''empty_fill'') W)
          (\<lambda>_ W'. (Inr (cycle_refuse (Loop_Reason Empty_Fill) cy, None), W'))
      else
        (case record_and_apply_fill i p f mt (wd_ledger W, wd_book W) of
           Inl e \<Rightarrow> (Inl e, W)
         | Inr (st, L, B) \<Rightarrow>
             (Inr (cy\<lparr>cy_book := st, cy_peak := max (cy_peak cy) (st_nav st), cy_fills := cy_fills cy @ [f]\<rparr>, None),
              W\<lparr>wd_ledger := L, wd_book := B\<rparr>)))"

definition place_order :: "'v venue_port \<Rightarrow> nat \<Rightarrow> market_type \<Rightarrow> intent \<Rightarrow> cycle \<Rightarrow> 'v world \<Rightarrow> (cycle \<times> halt option) trading \<times> 'v world" where
  "place_order P p mt x cy W =
     and_then (on_ledger (record_intent p x) W) (\<lambda>i W1.
     and_then (option_result Order_Ledger_Error (get_order (wd_ledger W1) i), W1) (\<lambda>order _.
     if od_status order \<noteq> Intent then (Inr (cycle_refuse (Loop_Reason Already_Ordered) cy, None), W1)
     else
       and_then (move_order i Submitted None None W1) (\<lambda>_ W2.
       let cy' = cy\<lparr>cy_submitted := Suc (cy_submitted cy)\<rparr> in
       and_then (execute_or_halt P i x W2) (\<lambda>answer W3.
       case answer of
         Uncertain \<Rightarrow> (Inr (cycle_refuse (Loop_Reason Execution_Uncertain) cy', Some Outcome_Unknown), W3)
       | Answered f \<Rightarrow> settle_answer p i mt cy' f W3))))"

definition cycle_row :: "'v venue_port \<Rightarrow> nat \<Rightarrow> cycle_config \<Rightarrow> desk \<Rightarrow> int \<Rightarrow> prediction_row \<Rightarrow> cycle \<Rightarrow> 'v world
    \<Rightarrow> (cycle \<times> halt option) trading \<times> 'v world" where
  "cycle_row P p cfg dk now r cy0 W =
     and_then (known_eligibility cfg dk r (cy0\<lparr>cy_considered := Suc (cy_considered cy0)\<rparr>), W) (\<lambda>(e, cy) _.
     and_then (bridge_row P cfg dk now r e cy, W) (\<lambda>res _.
     case bg_intent res of
       None \<Rightarrow> and_then (refusal_name res, W) (\<lambda>reason _. (Inr (cycle_refuse reason cy, None), W))
     | Some x \<Rightarrow>
         if lc_max cfg \<le> int (cy_submitted cy) then (Inr (cycle_refuse (Loop_Reason Ceiling_Reached) cy, None), W)
         else place_order P p (lc_market cfg) (x\<lparr>in_key := order_key p r\<rparr>) cy W))"

fun cycle_rows :: "('r \<Rightarrow> 'c \<Rightarrow> 'w \<Rightarrow> ('c \<times> 'h option) trading \<times> 'w) \<Rightarrow> 'r list \<Rightarrow> 'c \<Rightarrow> 'w \<Rightarrow> ('c \<times> 'h option) trading \<times> 'w" where
  "cycle_rows step [] cy W = (Inr (cy, None), W)"
| "cycle_rows step (r # rs) cy W =
     and_then (step r cy W) (\<lambda>(cy', h) W'. case h of Some _ \<Rightarrow> (Inr (cy', h), W') | None \<Rightarrow> cycle_rows step rs cy' W')"

section \<open>The cycle\<close>

text \<open>The verdict is recorded whatever it is; a failure to record it decides nothing.\<close>

definition record_verdict :: "nat \<Rightarrow> reconciliation \<Rightarrow> 'v world \<Rightarrow> bool \<times> 'v world" where
  "record_verdict p v W =
     (case record_result p (bk_now (wd_book W)) v True (wd_results W) of
        Inl _ \<Rightarrow> (True, W)
      | Inr (i, S) \<Rightarrow> (False, W\<lparr>wd_results := S\<rparr>))"

definition halted_cycle :: "halt \<Rightarrow> cycle_result" where
  "halted_cycle h = \<lparr>cr_considered = 0, cr_executed = 0, cr_refused = [], cr_fills = [], cr_halted = True, cr_reason = Some h\<rparr>"

definition peak_nav :: "nat \<Rightarrow> book \<Rightarrow> decimal \<Rightarrow> decimal" where
  "peak_nav p B nav =
     (case map nv_nav (filter (\<lambda>n. nv_portfolio n = p) (bk_navs B)) of
        [] \<Rightarrow> nav
      | x # xs \<Rightarrow> max (fold max xs x) nav)"

definition start_cycle :: "portfolio_state \<Rightarrow> decimal \<Rightarrow> cycle" where
  "start_cycle book peak = \<lparr>cy_book = book, cy_peak = peak, cy_refused = [], cy_fills = [], cy_considered = 0,
     cy_submitted = 0, cy_known = []\<rparr>"

definition end_cycle :: "cycle \<Rightarrow> halt option \<Rightarrow> cycle_result" where
  "end_cycle cy h = \<lparr>cr_considered = cy_considered cy, cr_executed = length (cy_fills cy), cr_refused = cy_refused cy,
     cr_fills = cy_fills cy, cr_halted = (h \<noteq> None), cr_reason = h\<rparr>"

definition read_verdict :: "'v venue_port \<Rightarrow> cycle_config \<Rightarrow> int \<Rightarrow> portfolio_state \<Rightarrow> 'v \<Rightarrow> reconciliation trading" where
  "read_verdict P cfg now book v =
     reconcile_venue (map holding_of (st_positions book)) (map funds_of_cash (st_cash_positions book)) (vp_view P v)
       (Some (lc_tolerance cfg)) now True"

definition run_cycle :: "'v venue_port \<Rightarrow> nat \<Rightarrow> cycle_config \<Rightarrow> desk \<Rightarrow> instant \<Rightarrow> 'v world \<Rightarrow> cycle_result trading \<times> 'v world" where
  "run_cycle P p cfg dk stamp W =
     (let (aware, now) = stamp in
      if \<not> aware then (Inl Invalid_Value, W)
      else
        and_then (load p (wd_book W), W) (\<lambda>book _.
        and_then (read_verdict P cfg now book (wd_venue W), W) (\<lambda>v _.
        let (unrecorded, W1) = record_verdict p v W in
        if \<not> rr_reconciled v then (check_cycle (halted_cycle (Not_Reconciled (rr_venue v) (rr_found v) unrecorded)), W1)
        else if unsettled_orders (wd_ledger W1) p \<noteq> [] then (check_cycle (halted_cycle Orders_Unsettled), W1)
        else
          and_then (cycle_rows (cycle_row P p cfg dk now) (pending_rows now (dk_table dk))
              (start_cycle book (peak_nav p (wd_book W1) (st_nav book))) W1) (\<lambda>(cy, h) W2.
          (check_cycle (end_cycle cy h), W2)))))"

section \<open>One order, step by step\<close>

lemma and_then_simps [simp]: "and_then (Inl e, W) f = (Inl e, W)" "and_then (Inr x, W) f = f x W"
  by (simp_all add: and_then_def)

lemma and_then_cases:
  assumes "and_then m f = (res, W')"
  obtains e where "m = (Inl e, W')" "res = Inl e" | x W where "m = (Inr x, W)" "f x W = (res, W')"
  using assms by (cases m; cases "fst m") (auto simp: and_then_def)

lemma move_order_cases:
  assumes "move_order i target ext pl W = (res, W')"
  obtains e where "res = Inl e" "W' = W"
  | L where "transition i target ext pl (wd_ledger W) = Inr L" "res = Inr ()" "W' = W\<lparr>wd_ledger := L\<rparr>"
  using assms unfolding move_order_def on_ledger_def
  by (cases "transition i target ext pl (wd_ledger W)") auto

text \<open>The order \<open>i\<close> of the intent \<open>x\<close> was fresh, became \<open>Submitted\<close>, and the venue was asked.\<close>

definition sent :: "'v venue_port \<Rightarrow> nat \<Rightarrow> intent \<Rightarrow> 'v world \<Rightarrow> nat \<Rightarrow> ledger \<Rightarrow> xdecimal fill trading \<Rightarrow> 'v \<Rightarrow> bool" where
  "sent P p x W i L a v \<longleftrightarrow> (\<exists>L1 row. record_intent p x (wd_ledger W) = Inr (i, L1) \<and> order_by_id L1 i = Some row
     \<and> od_status row = Intent \<and> transition i Submitted None None L1 = Inr L \<and> vp_execute P x (wd_venue W) = (a, v))"

inductive placed :: "'v venue_port \<Rightarrow> nat \<Rightarrow> market_type \<Rightarrow> intent \<Rightarrow> cycle \<Rightarrow> 'v world
    \<Rightarrow> (cycle \<times> halt option) trading \<Rightarrow> 'v world \<Rightarrow> bool" for P p mt x cy W where
  Not_Recorded: "placed P p mt x cy W (Inl e) W"
| Only_Recorded: "record_intent p x (wd_ledger W) = Inr (i, L) \<Longrightarrow> placed P p mt x cy W (Inl e) (W\<lparr>wd_ledger := L\<rparr>)"
| Ordered_Before: "record_intent p x (wd_ledger W) = Inr (i, L) \<Longrightarrow> order_by_id L i = Some row \<Longrightarrow> od_status row \<noteq> Intent
    \<Longrightarrow> placed P p mt x cy W (Inr (cycle_refuse (Loop_Reason Already_Ordered) cy, None)) (W\<lparr>wd_ledger := L\<rparr>)"
| Failed: "sent P p x W i L a v \<Longrightarrow> placed P p mt x cy W (Inl e) (W\<lparr>wd_ledger := L, wd_venue := v\<rparr>)"
| Outcome_Lost: "sent P p x W i L a v \<Longrightarrow> transition i Acknowledged ext pl L = Inr L'
    \<Longrightarrow> placed P p mt x cy W (Inr (cycle_refuse (Loop_Reason Execution_Uncertain) (cy\<lparr>cy_submitted := Suc (cy_submitted cy)\<rparr>),
          Some Outcome_Unknown)) (W\<lparr>wd_venue := v, wd_ledger := L'\<rparr>)"
| Declined: "sent P p x W i L (Inr f) v \<Longrightarrow> is_empty f \<Longrightarrow> transition i Rejected (fl_external_id f) pl L = Inr L'
    \<Longrightarrow> placed P p mt x cy W (Inr (cycle_refuse (Loop_Reason Empty_Fill) (cy\<lparr>cy_submitted := Suc (cy_submitted cy)\<rparr>), None))
          (W\<lparr>wd_venue := v, wd_ledger := L'\<rparr>)"
| Booked: "sent P p x W i L (Inr f) v \<Longrightarrow> \<not> is_empty f \<Longrightarrow> record_and_apply_fill i p f mt (L, wd_book W) = Inr (st, L', B)
    \<Longrightarrow> placed P p mt x cy W
          (Inr (cy\<lparr>cy_submitted := Suc (cy_submitted cy), cy_book := st, cy_peak := max (cy_peak cy) (st_nav st),
             cy_fills := cy_fills cy @ [f]\<rparr>, None)) (W\<lparr>wd_venue := v, wd_ledger := L', wd_book := B\<rparr>)"

lemma settle_answer_placed:
  assumes "sent P p x W i L (Inr f) v"
    and "settle_answer p i mt (cy\<lparr>cy_submitted := Suc (cy_submitted cy)\<rparr>) f (W\<lparr>wd_ledger := L, wd_venue := v\<rparr>) = (res, W')"
  shows "placed P p mt x cy W res W'"
proof (cases "is_empty f")
  case True
  with assms(2) have "and_then (move_order i Rejected (fl_external_id f) (Some ''empty_fill'') (W\<lparr>wd_ledger := L, wd_venue := v\<rparr>))
          (\<lambda>_ W'. (Inr (cycle_refuse (Loop_Reason Empty_Fill) (cy\<lparr>cy_submitted := Suc (cy_submitted cy)\<rparr>), None), W')) = (res, W')"
    by (simp add: settle_answer_def)
  then show ?thesis
    using True by (elim and_then_cases move_order_cases) (auto intro: Failed[OF assms(1)] Declined[OF assms(1)])
next
  case False
  then show ?thesis
    using assms(2) Failed[OF assms(1)] Booked[OF assms(1) False]
    by (cases "record_and_apply_fill i p f mt (L, wd_book W)") (auto simp: settle_answer_def)
qed

lemma execute_or_halt_placed:
  assumes "sent P p x W i L a v"
    and "and_then (execute_or_halt P i x (W\<lparr>wd_ledger := L\<rparr>)) (\<lambda>answer W3.
       case answer of
         Uncertain \<Rightarrow> (Inr (cycle_refuse (Loop_Reason Execution_Uncertain) (cy\<lparr>cy_submitted := Suc (cy_submitted cy)\<rparr>), Some Outcome_Unknown), W3)
       | Answered f \<Rightarrow> settle_answer p i mt (cy\<lparr>cy_submitted := Suc (cy_submitted cy)\<rparr>) f W3) = (res, W')"
  shows "placed P p mt x cy W res W'"
proof -
  let ?cy = "cy\<lparr>cy_submitted := Suc (cy_submitted cy)\<rparr>"
  have ask: "vp_execute P x (wd_venue W) = (a, v)" using assms(1) by (auto simp: sent_def)
  let ?next = "\<lambda>answer W3. case answer of
         Uncertain \<Rightarrow> (Inr (cycle_refuse (Loop_Reason Execution_Uncertain) ?cy, Some Outcome_Unknown), W3)
       | Answered f \<Rightarrow> settle_answer p i mt ?cy f W3"
  have lost: "placed P p mt x cy W res W'"
    if "and_then (and_then (move_order i Acknowledged ext pl (W\<lparr>wd_ledger := L, wd_venue := v\<rparr>)) (\<lambda>_ W2. (Inr Uncertain, W2))) ?next
      = (res, W')" for ext pl
    using that by (elim and_then_cases move_order_cases) (auto intro: Failed[OF assms(1)] Outcome_Lost[OF assms(1)])
  show ?thesis
  proof (cases a)
    case (Inl e)
    show ?thesis
    proof (cases "e = Venue_Unavailable")
      case True
      then show ?thesis
        using assms(2) Inl ask lost[of None "Some ''execution_uncertain''"]
        by (simp add: execute_or_halt_def Let_def)
    next
      case False
      with Inl ask have "execute_or_halt P i x (W\<lparr>wd_ledger := L\<rparr>) = (Inl e, W\<lparr>wd_ledger := L, wd_venue := v\<rparr>)"
        by (cases e) (simp_all add: execute_or_halt_def)
      then show ?thesis using assms(2) by (auto intro: Failed[OF assms(1)])
    qed
  next
    case (Inr f)
    show ?thesis
    proof (cases "is_empty f \<and> vp_resting P (fl_raw f)")
      case True
      then show ?thesis
        using assms(2) Inr ask lost[of "fl_external_id f" "Some ''resting''"]
        by (simp add: execute_or_halt_def Let_def)
    next
      case False
      with Inr ask have "execute_or_halt P i x (W\<lparr>wd_ledger := L\<rparr>) = (Inr (Answered f), W\<lparr>wd_ledger := L, wd_venue := v\<rparr>)"
        by (auto simp: execute_or_halt_def)
      with assms(2) Inr show ?thesis using settle_answer_placed assms(1) by fastforce
    qed
  qed
qed

lemma place_order_placed:
  assumes "place_order P p mt x cy W = (res, W')"
  shows "placed P p mt x cy W res W'"
proof (cases "record_intent p x (wd_ledger W)")
  case (Inl e)
  then show ?thesis using assms by (auto simp: place_order_def on_ledger_def intro: Not_Recorded)
next
  case (Inr iL)
  obtain i L1 where iL: "iL = (i, L1)" by (cases iL)
  note rec = Inr[unfolded iL]
  show ?thesis
  proof (cases "order_by_id L1 i")
    case None
    then show ?thesis using assms rec by (auto simp: place_order_def on_ledger_def get_order_def intro: Only_Recorded)
  next
    case (Some row)
    show ?thesis
    proof (cases "od_status row = Intent")
      case False
      then show ?thesis
        using assms rec Some by (auto simp: place_order_def on_ledger_def get_order_def intro: Ordered_Before)
    next
      case True
      show ?thesis
      proof (cases "transition i Submitted None None L1")
        case (Inl e)
        then show ?thesis
          using assms rec Some True
          by (auto simp: place_order_def on_ledger_def get_order_def move_order_def intro: Only_Recorded)
      next
        case (Inr L)
        obtain a v where "vp_execute P x (wd_venue W) = (a, v)" by fastforce
        with rec Some True Inr have "sent P p x W i L a v" by (auto simp: sent_def)
        then show ?thesis
          using assms rec Some True Inr
          by (intro execute_or_halt_placed[of P p x W i L a v mt cy res W'])
            (simp_all add: place_order_def on_ledger_def get_order_def move_order_def Let_def)
      qed
    qed
  qed
qed

section \<open>A row and a list of rows\<close>

text \<open>The cached eligibilities are the ones the policy gives.\<close>

definition known_ok :: "cycle_config \<Rightarrow> desk \<Rightarrow> cycle \<Rightarrow> bool" where
  "known_ok cfg dk cy \<longleftrightarrow> (\<forall>k e. map_of (cy_known cy) k = Some e \<longrightarrow> eligible_for cfg dk k = Inr e)"

lemma known_eligibility_fresh:
  assumes "known_eligibility cfg dk r cy = Inr (e, cy')" "known_ok cfg dk cy"
  shows "eligible_for cfg dk (eligibility_key r) = Inr e \<and> known_ok cfg dk cy' \<and> (\<exists>known. cy' = cy\<lparr>cy_known := known\<rparr>)"
proof (cases "map_of (cy_known cy) (eligibility_key r)")
  case (Some x)
  with assms have "cy' = cy" "eligible_for cfg dk (eligibility_key r) = Inr e" by (auto simp: known_eligibility_def known_ok_def simp del: split_paired_All)
  with assms(2) show ?thesis by (intro conjI exI[of _ "cy_known cy"]) simp_all
qed (use assms in \<open>auto simp: known_eligibility_def known_ok_def result_simps update_conv' split: if_splits simp del: split_paired_All\<close>)

inductive row_done :: "'v venue_port \<Rightarrow> nat \<Rightarrow> cycle_config \<Rightarrow> desk \<Rightarrow> int \<Rightarrow> prediction_row \<Rightarrow> cycle \<Rightarrow> 'v world
    \<Rightarrow> (cycle \<times> halt option) trading \<Rightarrow> 'v world \<Rightarrow> bool" for P p cfg dk now r cy W where
  Raised: "row_done P p cfg dk now r cy W (Inl e) W"
| Refused: "cy' = cy\<lparr>cy_considered := Suc (cy_considered cy), cy_known := known\<rparr> \<Longrightarrow> known_ok cfg dk cy'
    \<Longrightarrow> row_done P p cfg dk now r cy W (Inr (cycle_refuse reason cy', None)) W"
| Placed: "cy' = cy\<lparr>cy_considered := Suc (cy_considered cy), cy_known := known\<rparr> \<Longrightarrow> known_ok cfg dk cy'
    \<Longrightarrow> eligible_for cfg dk (eligibility_key r) = Inr e \<Longrightarrow> bridge_row P cfg dk now r e cy' = Inr b \<Longrightarrow> bg_intent b = Some x
    \<Longrightarrow> int (cy_submitted cy) < lc_max cfg
    \<Longrightarrow> placed P p (lc_market cfg) (x\<lparr>in_key := order_key p r\<rparr>) cy' W res W'
    \<Longrightarrow> row_done P p cfg dk now r cy W res W'"

lemma cycle_row_done:
  assumes "cycle_row P p cfg dk now r cy0 W = (res, W')" "known_ok cfg dk cy0"
  shows "row_done P p cfg dk now r cy0 W res W'"
proof (cases "known_eligibility cfg dk r (cy0\<lparr>cy_considered := Suc (cy_considered cy0)\<rparr>)")
  case (Inl e)
  then show ?thesis using assms by (auto simp: cycle_row_def intro: Raised)
next
  case (Inr ec)
  obtain e cy where ec: "ec = (e, cy)" by (cases ec)
  have "known_ok cfg dk (cy0\<lparr>cy_considered := Suc (cy_considered cy0)\<rparr>)" using assms(2) by (simp add: known_ok_def)
  from known_eligibility_fresh[OF Inr[unfolded ec] this] obtain known where
    cy: "cy = cy0\<lparr>cy_considered := Suc (cy_considered cy0), cy_known := known\<rparr>"
    and e: "eligible_for cfg dk (eligibility_key r) = Inr e" "known_ok cfg dk cy" by auto
  note refused = Refused[OF cy e(2)]
  show ?thesis
  proof (cases "bridge_row P cfg dk now r e cy")
    case (Inl e')
    then show ?thesis using assms(1) Inr ec by (auto simp: cycle_row_def intro: Raised)
  next
    case (Inr b)
    note known = \<open>known_eligibility _ _ _ _ = _\<close> ec Inr
    show ?thesis
    proof (cases "bg_intent b")
      case None
      then show ?thesis
        using assms(1) known refused by (cases "refusal_name b") (auto simp: cycle_row_def intro: Raised)
    next
      case (Some x)
      show ?thesis
      proof (cases "lc_max cfg \<le> int (cy_submitted cy)")
        case True
        then show ?thesis using assms(1) known refused Some by (auto simp: cycle_row_def)
      next
        case False
        then have "place_order P p (lc_market cfg) (x\<lparr>in_key := order_key p r\<rparr>) cy W = (res, W')"
          using assms(1) known Some by (simp add: cycle_row_def)
        moreover have "int (cy_submitted cy0) < lc_max cfg" using False cy by simp
        ultimately show ?thesis by (intro Placed[OF cy e(2,1) Inr Some] place_order_placed) auto
      qed
    qed
  qed
qed

text \<open>An invariant of the loop: it holds between rows, a row that raises leaves \<open>Q\<close>, a row that halts adds \<open>H\<close>.\<close>

lemma cycle_rows_invariant:
  assumes "cycle_rows step rows cy W = (res, W')" "I cy W"
    and "\<And>r cy W res W'. r \<in> set rows \<Longrightarrow> I cy W \<Longrightarrow> step r cy W = (res, W')
      \<Longrightarrow> (case res of Inl e \<Rightarrow> Q W' | Inr (cy', h) \<Rightarrow> I cy' W' \<and> (h \<noteq> None \<longrightarrow> H W'))"
  shows "case res of Inl e \<Rightarrow> Q W' | Inr (cy', h) \<Rightarrow> I cy' W' \<and> (h \<noteq> None \<longrightarrow> H W')"
  using assms
proof (induction rows arbitrary: cy W)
  case Nil
  then show ?case by auto
next
  case (Cons r rows)
  obtain res1 W1 where one: "step r cy W = (res1, W1)" by fastforce
  note step = Cons.prems(3)[OF list.set_intros(1) Cons.prems(2) one]
  show ?case
  proof (cases res1)
    case (Inl e)
    with one step Cons.prems(1) show ?thesis by auto
  next
    case (Inr ch)
    obtain cy1 h where ch: "ch = (cy1, h)" by (cases ch)
    show ?thesis
    proof (cases h)
      case None
      with one Inr ch Cons.prems(1) have "cycle_rows step rows cy1 W1 = (res, W')" by simp
      moreover have "I cy1 W1" using step Inr ch by simp
      ultimately show ?thesis
        by (rule Cons.IH) (rule Cons.prems(3)[OF list.set_intros(2)]; assumption)
    next
      case (Some k)
      with one Inr ch Cons.prems(1) step show ?thesis by auto
    qed
  qed
qed

section \<open>What a cycle counts\<close>

lemma counted_update: "counted (AList.update k (dict_get d k 0 + 1) d) = Suc (counted d)"
  by (induction d) (auto simp: counted_def)

lemma cycle_refuse_sel [simp]:
  "cy_considered (cycle_refuse reason cy) = cy_considered cy" "cy_fills (cycle_refuse reason cy) = cy_fills cy"
  "cy_submitted (cycle_refuse reason cy) = cy_submitted cy" "cy_book (cycle_refuse reason cy) = cy_book cy"
  "counted (cy_refused (cycle_refuse reason cy)) = Suc (counted (cy_refused cy))"
  using counted_update by (simp_all add: cycle_refuse_def)

definition accounted :: "cycle \<Rightarrow> bool" where
  "accounted cy \<longleftrightarrow> cy_considered cy = length (cy_fills cy) + counted (cy_refused cy)"

lemma placed_accounts:
  assumes "placed P p mt x cy W (Inr (cy', h)) W'" "cy_considered cy = Suc (length (cy_fills cy) + counted (cy_refused cy))"
  shows "accounted cy' \<and> cy_considered cy' = cy_considered cy"
  using assms by (cases rule: placed.cases) (auto simp: accounted_def)

lemma row_accounts:
  assumes "row_done P p cfg dk now r cy W (Inr (cy', h)) W'" "accounted cy"
  shows "accounted cy' \<and> cy_considered cy' = Suc (cy_considered cy)"
  using assms(1)
proof (cases rule: row_done.cases)
  case (Placed cy1 known e b x)
  then show ?thesis using placed_accounts[OF Placed(7)] assms(2) by (simp add: accounted_def)
qed (use assms(2) in \<open>auto simp: accounted_def\<close>)

lemma known_ok_more [simp]:
  "known_ok cfg dk (cycle_refuse reason cy) = known_ok cfg dk cy" "known_ok cfg dk (start_cycle book peak)"
  "known_ok cfg dk (cy\<lparr>cy_considered := n\<rparr>) = known_ok cfg dk cy" "known_ok cfg dk (cy\<lparr>cy_submitted := n\<rparr>) = known_ok cfg dk cy"
  "known_ok cfg dk (cy\<lparr>cy_submitted := n, cy_book := st, cy_peak := x, cy_fills := fs\<rparr>) = known_ok cfg dk cy"
  by (simp_all add: known_ok_def cycle_refuse_def start_cycle_def)

lemma row_known_ok: "row_done P p cfg dk now r cy W (Inr (cy', h)) W' \<Longrightarrow> known_ok cfg dk cy'"
  by (elim row_done.cases placed.cases) auto

lemma check_end_cycle: "accounted cy \<Longrightarrow> check_cycle (end_cycle cy h) = Inr (end_cycle cy h)"
  by (cases h) (simp_all add: check_cycle_def end_cycle_def accounted_def)

lemma check_halted_cycle: "check_cycle (halted_cycle h) = Inr (halted_cycle h)"
  by (simp add: check_cycle_def halted_cycle_def counted_def)

section \<open>The shape of a cycle\<close>

lemma record_verdict_sel [simp]:
  "wd_ledger (snd (record_verdict p v W)) = wd_ledger W" "wd_book (snd (record_verdict p v W)) = wd_book W"
  "wd_venue (snd (record_verdict p v W)) = wd_venue W"
  by (auto simp: record_verdict_def split: sum.splits)

lemma run_cycle_cases:
  assumes "run_cycle P p cfg dk (aware, now) W = (res, W')"
  obtains e where "res = Inl e" "W' = W"
  | book v h where "load p (wd_book W) = Inr book" "read_verdict P cfg now book (wd_venue W) = Inr v"
      "\<not> rr_reconciled v \<or> unsettled_orders (wd_ledger W) p \<noteq> []"
      "h \<noteq> Outcome_Unknown" "res = Inr (halted_cycle h)" "W' = snd (record_verdict p v W)"
  | book v rs where "aware" "load p (wd_book W) = Inr book" "read_verdict P cfg now book (wd_venue W) = Inr v"
      "rr_reconciled v" "unsettled_orders (wd_ledger W) p = []"
      "cycle_rows (cycle_row P p cfg dk now) (pending_rows now (dk_table dk))
         (start_cycle book (peak_nav p (wd_book W) (st_nav book))) (snd (record_verdict p v W)) = (rs, W')"
      "res = (case rs of Inl e \<Rightarrow> Inl e | Inr (cy, h) \<Rightarrow> check_cycle (end_cycle cy h))"
proof (cases aware)
  case False
  with assms that(1) show thesis by (auto simp: run_cycle_def)
next
  case True
  show thesis
  proof (cases "load p (wd_book W)")
    case (Inl e)
    with True assms that(1) show thesis by (auto simp: run_cycle_def)
  next
    case (Inr book)
    show thesis
    proof (cases "read_verdict P cfg now book (wd_venue W)")
      case (Inl e)
      with True Inr assms that(1) show thesis by (auto simp: run_cycle_def)
    next
      case (Inr v)
      obtain u W1 where rec: "record_verdict p v W = (u, W1)" by fastforce
      then have W1: "W1 = snd (record_verdict p v W)" by simp
      note known = True \<open>load p (wd_book W) = Inr book\<close> Inr rec
      show thesis
      proof (cases "rr_reconciled v \<and> unsettled_orders (wd_ledger W) p = []")
        case False
        define h where "h = (if rr_reconciled v then Orders_Unsettled else Not_Reconciled (rr_venue v) (rr_found v) u)"
        have ledger: "wd_ledger W1 = wd_ledger W" and h: "h \<noteq> Outcome_Unknown" by (simp_all add: W1 h_def)
        from ledger assms known False have "res = Inr (halted_cycle h)" "W' = W1"
          by (cases "rr_reconciled v"; auto simp: run_cycle_def check_halted_cycle h_def)+
        with False W1 h show thesis by (intro that(2)[OF \<open>load p (wd_book W) = Inr book\<close> Inr]) auto
      next
        case True
        obtain rs W2 where rows: "cycle_rows (cycle_row P p cfg dk now) (pending_rows now (dk_table dk))
         (start_cycle book (peak_nav p (wd_book W) (st_nav book))) W1 = (rs, W2)" by fastforce
        have "wd_book W1 = wd_book W" "wd_ledger W1 = wd_ledger W" by (simp_all add: W1)
        with assms known True rows have "res = (case rs of Inl e \<Rightarrow> Inl e | Inr (cy, h) \<Rightarrow> check_cycle (end_cycle cy h))" "W' = W2"
          by (auto simp: run_cycle_def and_then_def split: sum.splits)
        with that(3)[OF \<open>aware\<close> \<open>load p (wd_book W) = Inr book\<close> Inr] True rows W1 show thesis by auto
      qed
    qed
  qed
qed

lemma rows_account:
  assumes "cycle_rows (cycle_row P p cfg dk now) rows cy W = (Inr (cy', h), W')" "accounted cy" "known_ok cfg dk cy"
  shows "accounted cy'"
proof -
  let ?I = "\<lambda>cy (W :: 'a world). accounted cy \<and> known_ok cfg dk cy"
  have "case res of Inl e \<Rightarrow> True | Inr (cy', h) \<Rightarrow> ?I cy' W' \<and> (h \<noteq> None \<longrightarrow> True)"
    if "?I cy W" "cycle_row P p cfg dk now r cy W = (res, W')" for r cy and W W' :: "'a world" and res
    using that row_accounts row_known_ok cycle_row_done[OF that(2)] by (cases res) fastforce+
  from cycle_rows_invariant[OF assms(1), of ?I "\<lambda>_. True" "\<lambda>_. True", OF _ this] assms(2,3) show ?thesis by simp
qed

section \<open>What a cycle sends\<close>

text \<open>The contract of a venue: what it answers with is a \<open>Fill\<close>, so it has passed the constructor.\<close>

locale venue_contract =
  fixes P :: "'v venue_port"
  assumes constructed: "fst (vp_execute P x v) = Inr f \<Longrightarrow> check_fill f = Inr f"
begin

lemma sent_fill: "sent P p x W i L (Inr f) v \<Longrightarrow> check_fill f = Inr f"
  using constructed[of x "wd_venue W" f] by (auto simp: sent_def)

lemma placed_ledger:
  assumes "placed P p mt x cy W res W'"
  shows "ledger_run (wd_ledger W) (wd_ledger W')"
proof -
  have submitted: "ledger_run (wd_ledger W) L" if "sent P p x W i L a v" for i L a v
    using that unfolding sent_def by (meson Record_Intent Transition converse_rtranclp_into_rtranclp rtranclp.rtrancl_refl)
  have next_step: "ledger_run (wd_ledger W) L'" if "sent P p x W i L a v" "ledger_step L L'" for i L a v L'
    using submitted[OF that(1)] that(2) by (rule rtranclp.rtrancl_into_rtrancl)
  show ?thesis
    using assms
  proof (cases rule: placed.cases)
    case (Booked i L f v st L' B)
    then have "record_fill i f L = Inr L'" by (auto simp: record_and_apply_fill_def result_simps)
    with Booked(3) have "ledger_run (wd_ledger W) L'" by (intro next_step[OF Booked(3)] Record_Fill[OF sent_fill])
    then show ?thesis by (simp add: Booked)
  qed (auto intro: submitted next_step Transition dest: Record_Intent)
qed

end


text \<open>The venue with a log of the intents it was asked to execute.\<close>

definition logged :: "'v venue_port \<Rightarrow> ('v \<times> intent list) venue_port" where
  "logged P = \<lparr>vp_name = vp_name P, vp_caps = vp_caps P, vp_view = (\<lambda>s. vp_view P (fst s)),
     vp_execute = (\<lambda>x s. (fst (vp_execute P x (fst s)), snd (vp_execute P x (fst s)), snd s @ [x])), vp_resting = vp_resting P\<rparr>"

abbreviation sent_log :: "('v \<times> intent list) world \<Rightarrow> intent list" where
  "sent_log W \<equiv> snd (wd_venue W)"

text \<open>No key was sent twice, and what was sent has an order in the ledger that is no longer an intent.\<close>

definition sent_once :: "('v \<times> intent list) world \<Rightarrow> bool" where
  "sent_once W \<longleftrightarrow> ledger_inv (wd_ledger W) \<and> distinct (map in_key (sent_log W))
     \<and> (\<forall>x\<in>set (sent_log W). \<exists>r\<in>set (ld_orders (wd_ledger W)). in_key (od_intent r) = in_key x \<and> od_status r \<noteq> Intent)"

definition moved_on :: "ledger \<Rightarrow> string \<Rightarrow> bool" where
  "moved_on L k \<longleftrightarrow> (\<exists>r\<in>set (ld_orders L). in_key (od_intent r) = k \<and> od_status r \<noteq> Intent)"

lemma update_order_moved_on:
  assumes "moved_on L k" "\<And>r. od_intent (f r) = od_intent r" "\<And>r. od_status (f r) \<noteq> Intent"
  shows "moved_on (update_order i f (insert_event i st ext pl L)) k"
proof -
  from assms(1) obtain r where "r \<in> set (ld_orders L)" "in_key (od_intent r) = k" "od_status r \<noteq> Intent"
    by (auto simp: moved_on_def)
  then show ?thesis
    using assms(2,3) unfolding moved_on_def by (intro bexI[of _ "if od_id r = i then f r else r"]) auto
qed

lemma not_back_to_intent: "t \<in> set (LEGAL_TRANSITIONS s) \<Longrightarrow> t \<noteq> Intent"
  using order_life.initial_not_reentered by blast

lemma ledger_step_moved_on:
  assumes "ledger_step L L'" "moved_on L k"
  shows "moved_on L' k"
  using assms(1)
proof (cases rule: ledger_step.cases)
  case (Record_Intent p i n)
  have "set (ld_orders L) \<subseteq> set (ld_orders L')" using Record_Intent by (elim record_intentE) auto
  with assms(2) show ?thesis by (auto simp: moved_on_def)
next
  case (Transition i target ext pl)
  with assms(2) show ?thesis
    by (elim transitionE) (auto dest: not_back_to_intent intro!: update_order_moved_on)
next
  case (Record_Fill f i)
  have "record_finite_fill i (fill_numbers finite_part f) L = Inr L'" using record_fill_finite[OF Record_Fill] by simp
  with assms(2) show ?thesis
    by (elim record_finite_fillE) (auto dest: not_back_to_intent intro!: update_order_moved_on)
qed (use assms(2) in \<open>auto simp: moved_on_def\<close>)

lemma ledger_run_moved_on: "ledger_run L L' \<Longrightarrow> moved_on L k \<Longrightarrow> moved_on L' k"
  by (induction rule: rtranclp_induct) (auto intro: ledger_step_moved_on)

lemma sent_once_moved_on:
  "sent_once W \<longleftrightarrow> ledger_inv (wd_ledger W) \<and> distinct (map in_key (sent_log W)) \<and> (\<forall>x\<in>set (sent_log W). moved_on (wd_ledger W) (in_key x))"
  by (simp add: sent_once_def moved_on_def)

lemma sent_once_later:
  assumes "sent_once W" "ledger_run (wd_ledger W) (wd_ledger W')" "sent_log W' = sent_log W"
  shows "sent_once W'"
  using assms ledger_run_inv ledger_run_moved_on by (auto simp: sent_once_moved_on)

lemma recorded_key:
  assumes "record_intent p x L = Inr (i, L1)" "order_by_id L1 i = Some row" "ledger_inv L"
  shows "in_key (od_intent row) = in_key x"
  using assms(1)
proof (cases rule: record_intentE)
  case (1 existing)
  then have "row = existing" using order_by_id_mem[OF assms(3)] order_by_keyD[OF 1(1)] assms(2) by auto
  with order_by_keyD[OF 1(1)] show ?thesis by simp
next
  case (2 r)
  then have "r \<in> set (ld_orders L1)" "od_id r = i" by simp_all
  then have "row = r" using order_by_id_mem[OF record_intent_inv[OF assms(3,1)]] assms(2) by auto
  with 2 show ?thesis by simp
qed

text \<open>An order that is sent had not moved on before and has afterwards.\<close>

lemma sent_fresh:
  assumes "sent P p x W i L a v" "ledger_inv (wd_ledger W)"
  shows "\<not> moved_on (wd_ledger W) (in_key x)" "moved_on L (in_key x)"
proof -
  from assms(1) obtain L1 row where rec: "record_intent p x (wd_ledger W) = Inr (i, L1)" "order_by_id L1 i = Some row"
    "od_status row = Intent" "transition i Submitted None None L1 = Inr L" by (auto simp: sent_def)
  have inv: "ledger_inv L1" using record_intent_inv[OF assms(2) rec(1)] .
  have key: "in_key (od_intent row) = in_key x" using recorded_key[OF rec(1,2) assms(2)] .
  have row: "row \<in> set (ld_orders L1)" "od_id row = i" using order_by_idD[OF rec(2)] by auto
  show "\<not> moved_on (wd_ledger W) (in_key x)"
  proof
    assume "moved_on (wd_ledger W) (in_key x)"
    then have "moved_on L1 (in_key x)" using ledger_step_moved_on[OF Record_Intent[OF rec(1)]] by blast
    then obtain r where "r \<in> set (ld_orders L1)" "in_key (od_intent r) = in_key x" "od_status r \<noteq> Intent"
      by (auto simp: moved_on_def)
    moreover from this have "r = row"
      using order_by_key_mem[OF inv row(1)] order_by_key_mem[OF inv, of r] key by simp
    ultimately show False using rec(3) by simp
  qed
  from rec(4) show "moved_on L (in_key x)"
    using row key by (elim transitionE) (auto simp: moved_on_def intro!: bexI[of _ "row\<lparr>od_status := Submitted, od_external_id := coalesce None (od_external_id row)\<rparr>"])
qed

context venue_contract
begin

lemma contract_logged: "venue_contract (logged P)"
  by unfold_locales (auto simp: logged_def intro: constructed)

lemma placed_log:
  assumes "placed (logged P) p mt x cy W res W'" "sent_once W"
  shows "sent_once W' \<and> (sent_log W' = sent_log W \<or> sent_log W' = sent_log W @ [x])
    \<and> (\<forall>cy' h. res = Inr (cy', h) \<longrightarrow> cy_submitted cy' + length (sent_log W) = cy_submitted cy + length (sent_log W'))"
proof -
  have run: "ledger_run (wd_ledger W) (wd_ledger W')"
    using venue_contract.placed_ledger[OF contract_logged assms(1)] .
  have log: "snd v = sent_log W @ [x]" if "sent (logged P) p x W i L a v" for i L a v
    using that by (auto simp: sent_def logged_def)
  have inv: "ledger_inv (wd_ledger W)" using assms(2) by (simp add: sent_once_def)
  have once: "sent_once W'" if "sent (logged P) p x W i L a v" "ledger_run L (wd_ledger W')" "wd_venue W' = v" for i L a v
    using assms(2) sent_fresh[OF that(1) inv] log[OF that(1)] that(2,3) run ledger_run_inv[OF run inv]
      ledger_run_moved_on[OF run] ledger_run_moved_on[OF that(2)]
    by (auto simp: sent_once_moved_on)
  have same: "sent_once W'" if "sent_log W' = sent_log W"
    using sent_once_later[OF assms(2) run that] .
  show ?thesis
    using assms(1)
  proof (cases rule: placed.cases)
    case (Failed i L a v e)
    then show ?thesis using once[OF Failed(3)] log[OF Failed(3)] by simp
  next
    case (Outcome_Lost i L a v ext pl L')
    then show ?thesis using once[OF Outcome_Lost(3)] log[OF Outcome_Lost(3)] by (auto intro: Transition)
  next
    case (Declined i L f v pl L')
    then show ?thesis using once[OF Declined(3)] log[OF Declined(3)] by (auto intro: Transition)
  next
    case (Booked i L f v st L' B)
    have "record_fill i f L = Inr L'" using Booked(5) by (auto simp: record_and_apply_fill_def result_simps)
    then have "ledger_run L L'" using venue_contract.sent_fill[OF contract_logged Booked(3)] by (auto intro: Record_Fill)
    then show ?thesis using Booked once[OF Booked(3)] log[OF Booked(3)] by simp
  qed (use same in auto)
qed

end

section \<open>The argument through a cycle\<close>

text \<open>What is true of an intent that a cycle of portfolio \<open>p\<close> sends at \<open>now\<close>.\<close>

definition earned :: "'v venue_port \<Rightarrow> nat \<Rightarrow> cycle_config \<Rightarrow> desk \<Rightarrow> int \<Rightarrow> intent \<Rightarrow> bool" where
  "earned P p cfg dk now x \<longleftrightarrow> (\<exists>r\<in>set (pending_rows now (dk_table dk)). \<exists>e cy b y.
     eligible_for cfg dk (eligibility_key r) = Inr e \<and> bridge_row P cfg dk now r e cy = Inr b \<and> bg_intent b = Some y
     \<and> x = y\<lparr>in_key := order_key p r\<rparr>)"

definition sending :: "'v venue_port \<Rightarrow> nat \<Rightarrow> cycle_config \<Rightarrow> desk \<Rightarrow> int \<Rightarrow> intent list \<Rightarrow> ('v \<times> intent list) world \<Rightarrow> bool" where
  "sending P p cfg dk now old W \<longleftrightarrow> sent_once W \<and> (\<exists>new. sent_log W = old @ new \<and> list_all (earned P p cfg dk now) new
     \<and> int (length new) \<le> lc_max cfg)"

definition cycle_sending :: "'v venue_port \<Rightarrow> nat \<Rightarrow> cycle_config \<Rightarrow> desk \<Rightarrow> int \<Rightarrow> intent list \<Rightarrow> cycle \<Rightarrow> ('v \<times> intent list) world \<Rightarrow> bool" where
  "cycle_sending P p cfg dk now old cy W \<longleftrightarrow> sending P p cfg dk now old W \<and> known_ok cfg dk cy
     \<and> length (sent_log W) = length old + cy_submitted cy"

lemma bridge_row_logged [simp]: "bridge_row (logged P) cfg dk now r e cy = bridge_row P cfg dk now r e cy"
  by (simp add: bridge_row_def logged_def)

context venue_contract
begin

lemma row_sends:
  assumes "row_done (logged P) p cfg dk now r cy W res W'" "r \<in> set (pending_rows now (dk_table dk))"
    and "cycle_sending P p cfg dk now old cy W"
  shows "sending P p cfg dk now old W' \<and> (\<forall>cy' h. res = Inr (cy', h) \<longrightarrow> cycle_sending P p cfg dk now old cy' W')"
  using assms(1)
proof (cases rule: row_done.cases)
  case (Placed cy1 known e b x)
  let ?x = "x\<lparr>in_key := order_key p r\<rparr>"
  from assms(3) obtain new where new: "sent_log W = old @ new" "list_all (earned P p cfg dk now) new" "length new = cy_submitted cy"
    and once: "sent_once W"
    by (auto simp: cycle_sending_def sending_def)
  have "earned P p cfg dk now ?x" using Placed(3-5) assms(2) unfolding earned_def bridge_row_logged by blast
  with placed_log[OF Placed(7) once] new Placed(6)
  have s: "sending P p cfg dk now old W'"
    by (auto simp: sending_def)
  moreover have "cycle_sending P p cfg dk now old cy' W'" if "res = Inr (cy', h)" for cy' h
    using s placed_log[OF Placed(7) once] row_known_ok[OF assms(1)[unfolded that]] new Placed(1) that
    by (auto simp: cycle_sending_def)
  ultimately show ?thesis by blast
qed (use assms(3) in \<open>auto simp: cycle_sending_def\<close>)

lemma cycle_sends:
  assumes "run_cycle (logged P) p cfg dk (aware, now) W = (res, W')" "sent_once W" "check_config cfg = Inr cfg"
  shows "sending P p cfg dk now (sent_log W) W'"
proof -
  have pos: "0 \<le> lc_max cfg" using assms(3) by (auto simp: check_config_def result_simps)
  have start: "sending P p cfg dk now (sent_log W) (snd (record_verdict p v W))" for v
    using pos sent_once_later[OF assms(2), of "snd (record_verdict p v W)"] by (simp add: sending_def)
  show ?thesis
    using assms(1)
  proof (cases rule: run_cycle_cases)
    case (3 book v rs)
    let ?I = "cycle_sending P p cfg dk now (sent_log W)" and ?Q = "sending P p cfg dk now (sent_log W)"
    have step: "case res of Inl e \<Rightarrow> ?Q W' | Inr (cy', h) \<Rightarrow> ?I cy' W' \<and> (h \<noteq> None \<longrightarrow> True)"
      if "r \<in> set (pending_rows now (dk_table dk))" "?I cy W" "cycle_row (logged P) p cfg dk now r cy W = (res, W')" for r cy W W' res
    proof -
      have "known_ok cfg dk cy" using that(2) by (simp add: cycle_sending_def)
      from row_sends[OF cycle_row_done[OF that(3) this] that(1,2)] show ?thesis by (auto split: sum.splits)
    qed
    have I0: "?I (start_cycle book (peak_nav p (wd_book W) (st_nav book))) (snd (record_verdict p v W))"
      using start by (simp add: cycle_sending_def) (simp add: start_cycle_def)
    have "case rs of Inl e \<Rightarrow> ?Q W' | Inr (cy', h) \<Rightarrow> ?I cy' W' \<and> (h \<noteq> None \<longrightarrow> True)"
      by (rule cycle_rows_invariant[OF 3(6), of ?I ?Q "\<lambda>_. True"]) (rule I0, rule step)
    then show ?thesis by (auto simp: cycle_sending_def split: sum.splits)
  qed (use start pos assms(2) in \<open>auto simp: sending_def\<close>)
qed

end

section \<open>The paper venue as a port\<close>

definition paper_port :: "string \<Rightarrow> capabilities \<Rightarrow> market \<Rightarrow> paper_venue venue_port" where
  "paper_port name caps M = \<lparr>vp_name = name, vp_caps = caps, vp_view = paper_view,
     vp_execute = (\<lambda>x V. case paper_execute M x V of Inl e \<Rightarrow> (Inl e, V) | Inr (f, V') \<Rightarrow> (Inr (fill_numbers Fin f), V')),
     vp_resting = (\<lambda>_. False)\<rparr>"

lemma paper_fill_valid:
  assumes "paper_execute M x V = Inr (f, V')"
  shows "valid_fill f" "fl_aware f" "fl_quantity f \<le> max 0 (in_quantity x)"
proof -
  have "valid_fill f \<and> fl_aware f \<and> fl_quantity f \<le> max 0 (in_quantity x)"
    using assms by (cases rule: paper_executeE) (auto simp: empty_fill_def valid_fill_def fillable_quantity_def)
  then show "valid_fill f" "fl_aware f" "fl_quantity f \<le> max 0 (in_quantity x)" by auto
qed

text \<open>Submitting an order that is an intent.\<close>

lemma order_by_id_update:
  assumes "order_by_id L i = Some row" "\<And>r. od_id (f r) = od_id r"
  shows "order_by_id (update_order i f (insert_event i st ext pl L)) i = Some (f row)"
proof -
  have "find (\<lambda>r. od_id r = i) (map (\<lambda>r. if od_id r = i then f r else r) rs) = map_option f (find (\<lambda>r. od_id r = i) rs)" for rs
    using assms(2) by (induction rs) auto
  with assms(1) show ?thesis by (simp add: order_by_id_def)
qed

lemma submit_intent:
  assumes "record_intent p x (wd_ledger W) = Inr (i, L1)" "order_by_id L1 i = Some row" "od_status row = Intent"
    and "vp_execute P x (wd_venue W) = (a, v)"
  shows "\<exists>L. sent P p x W i L a v \<and> order_by_id L i = Some (row\<lparr>od_status := Submitted\<rparr>)"
proof -
  let ?f = "\<lambda>r. r\<lparr>od_status := Submitted, od_external_id := coalesce None (od_external_id r)\<rparr>"
  let ?L = "update_order i ?f (insert_event i Submitted None (Venue_Payload None) L1)"
  have "transition i Submitted None None L1 = Inr ?L"
    using assms(2,3) by (simp add: transition_def check_transition_def)
  moreover have "?f row = row\<lparr>od_status := Submitted\<rparr>" by (simp add: coalesce_def)
  moreover have "order_by_id ?L i = Some (?f row)" using assms(2) by (rule order_by_id_update) simp
  ultimately show ?thesis using assms by (intro exI[of _ ?L]) (auto simp: sent_def)
qed

lemma place_answered:
  assumes "sent P p x W i L (Inr f) v" "\<not> is_empty f"
  shows "place_order P p mt x cy W =
    (case record_and_apply_fill i p f mt (L, wd_book W) of
       Inl e \<Rightarrow> (Inl e, W\<lparr>wd_venue := v, wd_ledger := L\<rparr>)
     | Inr (st, L', B) \<Rightarrow>
         (Inr (cy\<lparr>cy_submitted := Suc (cy_submitted cy), cy_book := st, cy_peak := max (cy_peak cy) (st_nav st),
             cy_fills := cy_fills cy @ [f]\<rparr>, None), W\<lparr>wd_venue := v, wd_ledger := L', wd_book := B\<rparr>))"
proof -
  from assms(1) obtain L1 row where rec: "record_intent p x (wd_ledger W) = Inr (i, L1)" "order_by_id L1 i = Some row"
    "od_status row = Intent" "transition i Submitted None None L1 = Inr L" "vp_execute P x (wd_venue W) = (Inr f, v)"
    by (auto simp: sent_def)
  have ask: "execute_or_halt P i x (W\<lparr>wd_ledger := L\<rparr>) = (Inr (Answered f), W\<lparr>wd_ledger := L, wd_venue := v\<rparr>)"
    using rec(5) assms(2) by (simp add: execute_or_halt_def)
  have world: "W\<lparr>wd_ledger := L, wd_venue := v\<rparr> = W\<lparr>wd_venue := v, wd_ledger := L\<rparr>" by simp
  have "place_order P p mt x cy W = settle_answer p i mt (cy\<lparr>cy_submitted := Suc (cy_submitted cy)\<rparr>) f (W\<lparr>wd_ledger := L, wd_venue := v\<rparr>)"
    using rec ask by (simp add: place_order_def on_ledger_def move_order_def get_order_def Let_def)
  then show ?thesis
    using assms(2) unfolding world by (auto simp: settle_answer_def split: sum.splits prod.splits)
qed

text \<open>A venue whose fills have finite numbers and a time zone and stay within the intent.\<close>

locale venue_within = venue_contract +
  assumes within: "fst (vp_execute P x v) = Inr f \<Longrightarrow> fl_aware f \<and> (\<exists>g. f = fill_numbers Fin g \<and> fl_quantity g \<le> max 0 (in_quantity x))"
begin

text \<open>A fill of an order that is new to the ledger is always booked.\<close>

lemma fresh_fill_booked:
  assumes "ledger_inv (wd_ledger W)" "book_inv (wd_book W)" "portfolio_base (wd_book W) p = Some base"
    and "order_by_key (wd_ledger W) (in_key x) = None" "0 < in_quantity x" "exact (in_quantity x)" "0 < in_reference_price x"
    and "vp_execute P x (wd_venue W) = (Inr f, v)" "\<not> is_empty f"
  shows "\<exists>st L B. place_order P p mt x cy W = (Inr (cy\<lparr>cy_submitted := Suc (cy_submitted cy), cy_book := st,
        cy_peak := max (cy_peak cy) (st_nav st), cy_fills := cy_fills cy @ [f]\<rparr>, None),
      W\<lparr>wd_venue := v, wd_ledger := L, wd_book := B\<rparr>)
    \<and> apply_fill p (fill_numbers finite_part f) mt (wd_book W) = Inr (st, B) \<and> ledger_inv L \<and> book_inv B"
proof -
  let ?row = "\<lparr>od_id = ld_next (wd_ledger W), od_portfolio = p, od_intent = x, od_status = Intent, od_external_id = None,
    od_filled = 0, od_average = None, od_fee = 0, od_created = ld_now (wd_ledger W)\<rparr>"
  let ?i = "ld_next (wd_ledger W)"
  obtain L1 where rec: "record_intent p x (wd_ledger W) = Inr (?i, L1)" "?row \<in> set (ld_orders L1)"
    using assms(4,5,7) by (auto simp: record_intent_def order_checks_def)
  have inv: "ledger_inv L1" using record_intent_inv[OF assms(1) rec(1)] .
  have row: "order_by_id L1 ?i = Some ?row" using order_by_id_mem[OF inv rec(2)] by simp
  from submit_intent[OF rec(1) row _ assms(8)] obtain L where
    L: "sent P p x W ?i L (Inr f) v" "order_by_id L ?i = Some (?row\<lparr>od_status := Submitted\<rparr>)" by auto
  have invL: "ledger_inv L" using L(1) inv rec(1) by (auto simp: sent_def intro: transition_inv)
  from within[of x "wd_venue W" f] assms(8) obtain g where g: "f = fill_numbers Fin g" "fl_quantity g \<le> in_quantity x" "fl_aware f"
    using assms(5) by auto
  have valid: "valid_fill g" using sent_fill[OF L(1)] by (simp add: g(1) check_fill_finite)
  have q: "0 < fl_quantity g" using valid assms(9) by (simp add: g(1) is_empty_def fill_numbers_def valid_fill_def less_le)
  have "dadd 0 (fl_quantity g) \<le> in_quantity x"
    unfolding dadd_def using g(2) assms(6) by (intro dround_le_exact) simp_all
  moreover have fin: "fill_numbers finite_part f = g" by (simp add: g(1) fill_numbers_def)
  ultimately have "\<exists>L'. record_fill ?i f L = Inr L'"
    using q L(2) g(1)
    by (cases "in_quantity x \<le> dadd 0 (fl_quantity g)")
      (simp_all add: record_fill_def record_finite_fill_def accumulate_parts check_transition_def fill_numbers_def[of Fin] Let_def)
  then obtain L' where L': "record_fill ?i f L = Inr L'" by blast
  obtain B where B: "apply_fill_rows p g mt (wd_book W) = Inr B" "book_inv B" "bk_portfolios B = bk_portfolios (wd_book W)"
    using apply_fill_rows_total[OF assms(2) valid _ assms(3)] g(1,3) by (auto simp: fill_numbers_def)
  have "load p B = Inr (loaded_state p base B)"
    using B(2,3) assms(3) by (intro load_total) (simp_all add: portfolio_base_def)
  then have "apply_fill p g mt (wd_book W) = Inr (loaded_state p base B, B)" by (simp add: apply_fill_def B(1))
  moreover from this have "record_and_apply_fill ?i p f mt (L, wd_book W) = Inr (loaded_state p base B, L', B)"
    using assms(3) L' by (simp add: record_and_apply_fill_def fin)
  moreover have "ledger_inv L'"
    using ledger_step_inv[OF Record_Fill[OF sent_fill[OF L(1)] L'] invL] .
  ultimately show ?thesis using place_answered[OF L(1) assms(9), of mt cy] B(2) fin by auto
qed

end

interpretation paper: venue_within "paper_port name caps M" for name caps M
proof
  show "fst (vp_execute (paper_port name caps M) x V) = Inr f \<Longrightarrow> check_fill f = Inr f" for x V f
    by (cases "paper_execute M x V") (auto simp: paper_port_def check_fill_finite paper_fill_valid(1))
  show "fst (vp_execute (paper_port name caps M) x V) = Inr f
      \<Longrightarrow> fl_aware f \<and> (\<exists>g. f = fill_numbers Fin g \<and> fl_quantity g \<le> max 0 (in_quantity x))" for x V f
    by (fastforce simp: paper_port_def fill_numbers_def dest: paper_fill_valid split: sum.splits)
qed

section \<open>Properties\<close>

text \<open>C2. A cycle trades only on verified books: when the stored book cannot be read or does not reconcile with the
  venue, or an order of the portfolio is unsettled, the cycle leaves ledger, book and venue as they are, and the
  result it may return is a halt that considered nothing.\<close>

theorem unverified_cycle_trades_nothing:
  assumes "run_cycle P p cfg dk (aware, now) W = (res, W')"
    and "\<not> (\<exists>book v. load p (wd_book W) = Inr book \<and> read_verdict P cfg now book (wd_venue W) = Inr v \<and> rr_reconciled v)
      \<or> unsettled_orders (wd_ledger W) p \<noteq> []"
  shows "wd_ledger W' = wd_ledger W \<and> wd_book W' = wd_book W \<and> wd_venue W' = wd_venue W
    \<and> (\<forall>r. res = Inr r \<longrightarrow> cr_halted r \<and> cr_considered r = 0 \<and> cr_fills r = [])"
  using assms(1)
proof (cases rule: run_cycle_cases)
  case (3 book v rs)
  then show ?thesis using assms(2) by blast
qed (auto simp: halted_cycle_def)

lemma unverified_cycle_trades_nothing_witness:
  "\<forall>cfg dk S. wd_venue (snd (run_cycle (paper_port ''paper'' sample_caps sample_market) 7 cfg dk (True, 10)
     \<lparr>wd_ledger = ledger_submitted, wd_book = usdt_book, wd_results = S, wd_venue = sample_venue\<rparr>)) = sample_venue"
proof (intro allI)
  fix cfg dk S
  let ?W = "\<lparr>wd_ledger = ledger_submitted, wd_book = usdt_book, wd_results = S, wd_venue = sample_venue\<rparr>"
  let ?run = "run_cycle (paper_port ''paper'' sample_caps sample_market) 7 cfg dk (True, 10) ?W"
  have "unsettled_orders (wd_ledger ?W) 7 \<noteq> []" unfolding world.simps by code_simp
  then show "wd_venue (snd ?run) = sample_venue"
    using unverified_cycle_trades_nothing[of "paper_port ''paper'' sample_caps sample_market" 7 cfg dk True 10 ?W "fst ?run" "snd ?run"]
    by simp
qed

lemma rows_considered:
  assumes "cycle_rows (cycle_row P p cfg dk now) rows cy W = (Inr (cy', h), W')" "accounted cy" "known_ok cfg dk cy"
  shows "cy_considered cy' \<le> cy_considered cy + length rows \<and> (h = None \<longrightarrow> cy_considered cy' = cy_considered cy + length rows)"
  using assms
proof (induction rows arbitrary: cy W)
  case (Cons r rows)
  from Cons.prems(1) obtain cy1 h1 W1 where one: "cycle_row P p cfg dk now r cy W = (Inr (cy1, h1), W1)"
    and rest: "(case h1 of Some _ \<Rightarrow> (Inr (cy1, h1), W1) | None \<Rightarrow> cycle_rows (cycle_row P p cfg dk now) rows cy1 W1) = (Inr (cy', h), W')"
    by (auto elim: and_then_cases)
  note d = cycle_row_done[OF one Cons.prems(3)]
  note row = row_accounts[OF d Cons.prems(2)] row_known_ok[OF d]
  show ?case
  proof (cases h1)
    case None
    with rest have "cycle_rows (cycle_row P p cfg dk now) rows cy1 W1 = (Inr (cy', h), W')" by simp
    from Cons.IH[OF this] row show ?thesis by simp
  next
    case (Some k)
    with rest row show ?thesis by auto
  qed
qed simp

text \<open>C3. Every prediction a cycle looks at is accounted for: from the start of a cycle, whatever the rows, the
  venue and the world, the number considered is the number of fills plus the counted refusals, so the check of the
  result never raises; and a cycle that is not halted has considered every pending prediction.\<close>

theorem cycle_accounts:
  assumes "cycle_rows (cycle_row P p cfg dk now) rows (start_cycle book peak) W = (Inr (cy, h), W')"
  shows "check_cycle (end_cycle cy h) = Inr (end_cycle cy h)
    \<and> cr_considered (end_cycle cy h) = cr_executed (end_cycle cy h) + counted (cr_refused (end_cycle cy h))
    \<and> cr_considered (end_cycle cy h) \<le> length rows
    \<and> (\<not> cr_halted (end_cycle cy h) \<longrightarrow> cr_considered (end_cycle cy h) = length rows)"
proof -
  have start: "accounted (start_cycle book peak)" "cy_considered (start_cycle book peak) = 0"
    by (simp_all add: accounted_def start_cycle_def counted_def)
  have "accounted cy" using rows_account[OF assms start(1)] by simp
  moreover note rows_considered[OF assms start(1)]
  ultimately show ?thesis using check_end_cycle start(2) by (auto simp: end_cycle_def accounted_def)
qed

section \<open>Runs of the desk\<close>

text \<open>Cycles of any portfolio, configuration and instant, and between them whatever else commits to the tables or
  moves the market.\<close>

inductive desk_step :: "'v venue_port \<Rightarrow> ('v \<times> intent list) world \<Rightarrow> (nat \<times> intent) list \<Rightarrow> ('v \<times> intent list) world \<Rightarrow> bool" for P where
  Cycle: "check_config cfg = Inr cfg \<Longrightarrow> run_cycle (logged P) p cfg dk (aware, now) W = (res, W') \<Longrightarrow>
    desk_step P W (map (Pair p) (drop (length (sent_log W)) (sent_log W'))) W'"
| Elsewhere: "ledger_run (wd_ledger W) L \<Longrightarrow>
    desk_step P W [] \<lparr>wd_ledger = L, wd_book = B, wd_results = S, wd_venue = (v, sent_log W)\<rparr>"

text \<open>A run, with what each portfolio's cycles asked the venue to execute, in order.\<close>

inductive desk_run :: "'v venue_port \<Rightarrow> ('v \<times> intent list) world \<Rightarrow> (nat \<times> intent) list \<Rightarrow> ('v \<times> intent list) world \<Rightarrow> bool" for P W where
  Start: "desk_run P W [] W"
| Step: "desk_run P W t V \<Longrightarrow> desk_step P V s V' \<Longrightarrow> desk_run P W (t @ s) V'"

text \<open>The intent was sent for a prediction of the portfolio: it names the prediction, and its key names both.\<close>

definition names_prediction :: "nat \<times> intent \<Rightarrow> bool" where
  "names_prediction = (\<lambda>(p, x). \<exists>r. in_provenance x = Text.decimal (pd_id r) \<and> in_key x = order_key p r)"

lemma bridged_intent:
  assumes "bridge_row P cfg dk now r e cy = Inr b" "bg_intent b = Some y"
  shows "el_eligible e \<and> in_expires_at y = Some (pd_horizon r) \<and> pd_direction r = (if in_side y = Buy then Up else Down)
    \<and> 0 < in_quantity y \<and> in_provenance y = Text.decimal (pd_id r)"
  using assms(1)[unfolded bridge_row_def] assms(2)
proof (cases rule: prediction_to_intentE)
  case (1 s rate st l quantity v)
  then have "pd_direction r = (if s = Buy then Up else Down)" by (cases "pd_direction r") auto
  with 1 show ?thesis by (simp add: 1(11) sized_intent_def barriers_def)
qed

lemma earned_names: "earned P p cfg dk now x \<Longrightarrow> names_prediction (p, x)"
proof -
  assume "earned P p cfg dk now x"
  then obtain r e cy b y where "bridge_row P cfg dk now r e cy = Inr b" "bg_intent b = Some y" "x = y\<lparr>in_key := order_key p r\<rparr>"
    by (auto simp: earned_def)
  with bridged_intent[OF this(1,2)] show ?thesis by (auto simp: names_prediction_def intro!: exI[of _ r])
qed

text \<open>Keys that are distinct and name the prediction make the predictions distinct.\<close>

lemma names_distinct:
  assumes "list_all names_prediction t" "distinct (map in_key (map snd t))"
  shows "distinct (map (\<lambda>(p, x). (p, in_provenance x)) t)"
proof -
  let ?key = "\<lambda>(p, n). Text.decimal p @ '':'' @ n"
  have "map in_key (map snd t) = map ?key (map (\<lambda>(p, x). (p, in_provenance x)) t)"
    using assms(1) by (auto simp: list_all_iff names_prediction_def order_key_def)
  with assms(2) show ?thesis by (metis distinct_map)
qed

context venue_contract
begin

lemma desk_step_sends:
  assumes "desk_step P W t W'" "sent_once W"
  shows "sent_once W' \<and> sent_log W' = sent_log W @ map snd t \<and> list_all names_prediction t"
  using assms(1)
proof (cases rule: desk_step.cases)
  case (Cycle cfg p dk aware now res)
  with cycle_sends[OF Cycle(3) assms(2) Cycle(2)] show ?thesis
    by (auto simp: sending_def list_all_iff comp_def intro: earned_names)
next
  case (Elsewhere L B S v)
  then show ?thesis using assms(2) by (auto intro!: sent_once_later[of W])
qed

lemma desk_run_sends:
  assumes "desk_run P W t W'" "sent_once W"
  shows "sent_once W' \<and> sent_log W' = sent_log W @ map snd t \<and> list_all names_prediction t"
  using assms by (induction rule: desk_run.induct) (auto dest: desk_step_sends)

end

text \<open>C4. No portfolio sends a prediction to a venue twice: however many cycles of whatever portfolios run, at whatever
  instants and with whatever configuration and tables, and whatever is committed between them, the intents the venue was
  asked to execute name each prediction at most once for each portfolio, and each of them has an order in the ledger, under
  the key of that portfolio and that prediction, that is past the intent.\<close>

theorem prediction_sent_at_most_once:
  assumes "venue_contract P" "desk_run P W t W'" "ledger_inv (wd_ledger W)" "sent_log W = []"
  shows "sent_log W' = map snd t \<and> distinct (map (\<lambda>(p, x). (p, in_provenance x)) t)
    \<and> (\<forall>(p, x)\<in>set t. \<exists>n. in_provenance x = Text.decimal n \<and> (\<exists>o1\<in>set (ld_orders (wd_ledger W')).
         in_key (od_intent o1) = Text.decimal p @ '':'' @ Text.decimal n \<and> od_status o1 \<noteq> Intent))"
proof -
  have "sent_once W" using assms(3,4) by (simp add: sent_once_def)
  from venue_contract.desk_run_sends[OF assms(1,2) this] assms(4)
  have s: "sent_once W'" "sent_log W' = map snd t" and names: "list_all names_prediction t" by simp_all
  from s have keys: "distinct (map in_key (map snd t))" and orders: "\<forall>x\<in>set (map snd t). \<exists>r\<in>set (ld_orders (wd_ledger W')).
      in_key (od_intent r) = in_key x \<and> od_status r \<noteq> Intent" by (simp_all add: sent_once_def)
  have "\<exists>n. in_provenance x = Text.decimal n \<and> (\<exists>o1\<in>set (ld_orders (wd_ledger W')).
      in_key (od_intent o1) = Text.decimal p @ '':'' @ Text.decimal n \<and> od_status o1 \<noteq> Intent)" if "(p, x) \<in> set t" for p x
  proof -
    have "names_prediction (p, x)" using names that by (simp add: list_all_iff)
    then obtain r where "in_provenance x = Text.decimal (pd_id r)" "in_key x = order_key p r"
      by (auto simp: names_prediction_def)
    moreover have "x \<in> set (map snd t)" using that by force
    with orders obtain o1 where "o1 \<in> set (ld_orders (wd_ledger W'))" "in_key (od_intent o1) = in_key x" "od_status o1 \<noteq> Intent"
      by blast
    ultimately show ?thesis by (intro exI[of _ "pd_id r"] conjI bexI[of _ o1]) (simp_all add: order_key_def)
  qed
  with s(2) names_distinct[OF names keys] show ?thesis by blast
qed

text \<open>C5. What a cycle sends it has a right to send: at most the configured number of intents, each for a pending
  prediction whose horizon is ahead, on the side of its call, of a method the policy admits, expiring with the
  prediction, with a positive quantity.\<close>

theorem sent_orders_are_earned:
  assumes "venue_contract P" "run_cycle (logged P) p cfg dk (aware, now) W = (res, W')" "sent_once W" "check_config cfg = Inr cfg"
  shows "\<exists>new. sent_log W' = sent_log W @ new \<and> int (length new) \<le> lc_max cfg
    \<and> (\<forall>x\<in>set new. \<exists>r\<in>set (dk_table dk). \<exists>e. pd_outcome r = Pending \<and> now < pd_horizon r
        \<and> in_key x = order_key p r \<and> in_expires_at x = Some (pd_horizon r)
        \<and> pd_direction r = (if in_side x = Buy then Up else Down)
        \<and> eligible_for cfg dk (eligibility_key r) = Inr e \<and> el_eligible e \<and> 0 < in_quantity x)"
proof -
  from venue_contract.cycle_sends[OF assms] obtain new where new: "sent_log W' = sent_log W @ new"
    "list_all (earned P p cfg dk now) new" "int (length new) \<le> lc_max cfg"
    by (auto simp: sending_def)
  have "\<exists>r\<in>set (dk_table dk). \<exists>e. pd_outcome r = Pending \<and> now < pd_horizon r
        \<and> in_key x = order_key p r \<and> in_expires_at x = Some (pd_horizon r)
        \<and> pd_direction r = (if in_side x = Buy then Up else Down)
        \<and> eligible_for cfg dk (eligibility_key r) = Inr e \<and> el_eligible e \<and> 0 < in_quantity x"
    if "earned P p cfg dk now x" for x
  proof -
    from that obtain r e cy b y where r: "r \<in> set (pending_rows now (dk_table dk))" "eligible_for cfg dk (eligibility_key r) = Inr e"
      and b: "bridge_row P cfg dk now r e cy = Inr b" "bg_intent b = Some y" and x: "x = y\<lparr>in_key := order_key p r\<rparr>"
      by (auto simp: earned_def)
    note bridged_intent[OF b]
    with r x show ?thesis by (auto simp: pending_rows_def)
  qed
  with new show ?thesis by (auto simp: list_all_iff)
qed

section \<open>Unknown outcomes\<close>

text \<open>The keys of a portfolio's predictions belong to that portfolio's orders.\<close>

definition keys_owned :: "nat \<Rightarrow> ledger \<Rightarrow> bool" where
  "keys_owned p L \<longleftrightarrow> (\<forall>o1\<in>set (ld_orders L). \<forall>r. in_key (od_intent o1) = order_key p r \<longrightarrow> od_portfolio o1 = p)"

lemma keys_owned_update:
  "keys_owned p L \<Longrightarrow> (\<And>r. od_intent (f r) = od_intent r) \<Longrightarrow> (\<And>r. od_portfolio (f r) = od_portfolio r)
    \<Longrightarrow> keys_owned p (update_order i f (insert_event i st ext pl L))"
  by (force simp: keys_owned_def)

lemma record_intent_owned:
  "record_intent p x L = Inr (i, L') \<Longrightarrow> keys_owned p L \<Longrightarrow> keys_owned p L'"
  by (auto simp: record_intent_def Let_def keys_owned_def result_simps split: option.splits)

lemma transition_owned: "transition i st ext pl L = Inr L' \<Longrightarrow> keys_owned p L \<Longrightarrow> keys_owned p L'"
  by (elim transitionE) (auto intro: keys_owned_update)

lemma record_fill_owned: "record_fill i f L = Inr L' \<Longrightarrow> keys_owned p L \<Longrightarrow> keys_owned p L'"
  by (auto simp: record_fill_def result_simps elim!: record_finite_fillE intro!: keys_owned_update)

lemma sent_owned: "sent P p x W i L a v \<Longrightarrow> keys_owned p (wd_ledger W) \<Longrightarrow> keys_owned p L"
  by (auto simp: sent_def dest: record_intent_owned transition_owned)

lemma placed_owned:
  assumes "placed P p mt x cy W res W'" "keys_owned p (wd_ledger W)"
  shows "keys_owned p (wd_ledger W')"
  using assms(1)
proof (cases rule: placed.cases)
  case (Booked i L f v st L' B)
  then have "record_fill i f L = Inr L'" by (auto simp: record_and_apply_fill_def result_simps)
  from record_fill_owned[OF this sent_owned[OF Booked(3) assms(2)]] show ?thesis by (simp add: Booked)
qed (use assms(2) in \<open>auto dest: record_intent_owned sent_owned transition_owned\<close>)

text \<open>The order that is sent under a key of the portfolio is an order of the portfolio.\<close>

lemma sent_portfolio:
  assumes "sent P p x W i L a v" "ledger_inv (wd_ledger W)" "keys_owned p (wd_ledger W)" "in_key x = order_key p r"
  obtains row where "order_by_id L i = Some row" "od_portfolio row = p" "od_status row = Submitted"
proof -
  from assms(1) obtain L1 row where rec: "record_intent p x (wd_ledger W) = Inr (i, L1)" "order_by_id L1 i = Some row"
    "transition i Submitted None None L1 = Inr L" by (auto simp: sent_def)
  have key: "in_key (od_intent row) = in_key x" using recorded_key[OF rec(1,2) assms(2)] .
  have "od_portfolio row = p"
    using record_intent_owned[OF rec(1) assms(3)] order_by_idD[OF rec(2)] key assms(4) by (auto simp: keys_owned_def)
  moreover have "order_by_id L i = Some (row\<lparr>od_status := Submitted, od_external_id := coalesce None (od_external_id row)\<rparr>)"
    using rec(3) rec(2) by (elim transitionE) (auto intro!: order_by_id_update)
  ultimately show thesis by (intro that[of "row\<lparr>od_status := Submitted, od_external_id := coalesce None (od_external_id row)\<rparr>"]) simp_all
qed


lemma unsettledI:
  "order_by_id L i = Some row \<Longrightarrow> od_portfolio row = p \<Longrightarrow> unsettled_status (od_status row) \<Longrightarrow> unsettled_orders L p \<noteq> []"
proof -
  assume "order_by_id L i = Some row" "od_portfolio row = p" "unsettled_status (od_status row)"
  then have "row \<in> set (unsettled_orders L p)" by (auto simp: unsettled_orders_def dest: order_by_idD)
  then show ?thesis by auto
qed

text \<open>An order stays with its portfolio.\<close>

lemma update_order_owner:
  assumes "order_by_id L j = Some row" "\<And>r. od_id (f r) = od_id r" "\<And>r. od_portfolio (f r) = od_portfolio r"
  shows "\<exists>row'. order_by_id (update_order i f (insert_event i st ext pl L)) j = Some row' \<and> od_portfolio row' = od_portfolio row"
proof -
  have "\<exists>row'. find (\<lambda>r. od_id r = j) (map (\<lambda>r. if od_id r = i then f r else r) rs) = Some row' \<and> od_portfolio row' = od_portfolio row"
    if "find (\<lambda>r. od_id r = j) rs = Some row" for rs
    using that assms(2,3) by (induction rs) (auto split: if_splits)
  with assms(1) show ?thesis by (simp add: order_by_id_def)
qed

lemma ledger_step_owner:
  assumes "ledger_step L L'" "order_by_id L j = Some row"
  shows "\<exists>row'. order_by_id L' j = Some row' \<and> od_portfolio row' = od_portfolio row"
  using assms(1)
proof (cases rule: ledger_step.cases)
  case (Record_Intent p i n)
  then show ?thesis using assms(2) by (elim record_intentE) (auto simp: order_by_id_def find_append)
next
  case (Transition i target ext pl)
  then show ?thesis using assms(2) by (elim transitionE) (auto intro!: update_order_owner)
next
  case (Record_Fill f i)
  have "record_finite_fill i (fill_numbers finite_part f) L = Inr L'" using record_fill_finite[OF Record_Fill] by simp
  then show ?thesis using assms(2) by (elim record_finite_fillE) (auto intro!: update_order_owner)
qed (use assms(2) in \<open>auto simp: order_by_id_def\<close>)

lemma ledger_run_owner:
  assumes "ledger_run L L'" "order_by_id L i = Some row"
  shows "\<exists>row'. order_by_id L' i = Some row' \<and> od_portfolio row' = od_portfolio row"
  using assms(1)
proof (induction rule: rtranclp_induct)
  case (step M N)
  then show ?case using ledger_step_owner[OF step(2)] by fastforce
qed (use assms(2) in simp)

text \<open>An order of the portfolio that has been sent and not settled.\<close>

definition left_open :: "nat \<Rightarrow> ledger \<Rightarrow> nat \<Rightarrow> bool" where
  "left_open p L i \<longleftrightarrow> (\<exists>row. order_by_id L i = Some row \<and> od_portfolio row = p \<and> unsettled_status (od_status row))"

lemma left_open_unsettled: "left_open p L i \<Longrightarrow> unsettled_orders L p \<noteq> []"
  unfolding left_open_def using unsettledI by blast

lemma outcome_lost_open:
  assumes "placed P p mt x cy W (Inr (cy', Some k)) W'" "ledger_inv (wd_ledger W)" "keys_owned p (wd_ledger W)" "in_key x = order_key p r"
  shows "\<exists>i row. order_by_id (wd_ledger W') i = Some row \<and> od_portfolio row = p \<and> od_status row = Acknowledged"
  using assms(1)
proof (cases rule: placed.cases)
  case (Outcome_Lost i L a v ext pl L')
  obtain row where row: "order_by_id L i = Some row" "od_portfolio row = p" "od_status row = Submitted"
    using sent_portfolio[OF Outcome_Lost(4) assms(2-4)] .
  let ?f = "\<lambda>r. r\<lparr>od_status := Acknowledged, od_external_id := coalesce ext (od_external_id r)\<rparr>"
  have "order_by_id L' i = Some (?f row)"
    using Outcome_Lost(5) row(1) by (elim transitionE) (auto intro!: order_by_id_update)
  with row(2) Outcome_Lost show ?thesis by (intro exI[of _ i] exI[of _ "?f row"]) simp
qed

context venue_contract
begin

lemma halted_rows_open:
  assumes "cycle_rows (cycle_row P p cfg dk now) rows cy W = (Inr (cy', Some k), W')"
    and "known_ok cfg dk cy" "ledger_inv (wd_ledger W)" "keys_owned p (wd_ledger W)"
  shows "\<exists>i row. order_by_id (wd_ledger W') i = Some row \<and> od_portfolio row = p \<and> od_status row = Acknowledged"
proof -
  let ?I = "\<lambda>cy (W :: 'v world). known_ok cfg dk cy \<and> ledger_inv (wd_ledger W) \<and> keys_owned p (wd_ledger W)"
    and ?H = "\<lambda>W :: 'v world. \<exists>i row. order_by_id (wd_ledger W) i = Some row \<and> od_portfolio row = p \<and> od_status row = Acknowledged"
  have step: "case res of Inl e \<Rightarrow> True | Inr (cy', h) \<Rightarrow> ?I cy' W' \<and> (h \<noteq> None \<longrightarrow> ?H W')"
    if "?I cy W" "cycle_row P p cfg dk now r cy W = (res, W')" for r cy W W' res
  proof -
    have d: "row_done P p cfg dk now r cy W res W'" using cycle_row_done[OF that(2)] that(1) by simp
    from d show ?thesis
    proof (cases rule: row_done.cases)
      case (Placed cy1 known e b x)
      have "ledger_inv (wd_ledger W')" "keys_owned p (wd_ledger W')"
        using ledger_run_inv[OF placed_ledger[OF Placed(7)]] placed_owned[OF Placed(7)] that(1) by auto
      moreover have "?H W'" if "res = Inr (cy', Some k)" for cy' k
        using outcome_lost_open[OF Placed(7)[unfolded that]] \<open>?I cy W\<close> by simp
      ultimately show ?thesis using row_known_ok d by (auto split: sum.splits)
    qed (use that(1) in auto)
  qed
  from cycle_rows_invariant[OF assms(1), of ?I "\<lambda>_. True" ?H, OF _ step] assms(2-4) show ?thesis by simp
qed

end

text \<open>A portfolio with an order left open trades nothing, whatever else has happened to the ledger.\<close>

lemma open_order_stops:
  assumes "left_open p (wd_ledger V) i" "run_cycle P p cfg dk stamp V = (res, V')"
  shows "wd_ledger V' = wd_ledger V \<and> wd_book V' = wd_book V \<and> wd_venue V' = wd_venue V
    \<and> (\<forall>r. res = Inr r \<longrightarrow> cr_halted r \<and> cr_considered r = 0 \<and> cr_fills r = [])"
proof -
  obtain aware now where "stamp = (aware, now)" by (cases stamp)
  then show ?thesis
    using assms(2) left_open_unsettled[OF assms(1)] by (auto elim!: run_cycle_cases simp: halted_cycle_def)
qed

text \<open>C6. An order whose outcome is unknown stops its portfolio until somebody settles that order: the cycle that lost the
  answer leaves an acknowledged order of the portfolio, and after any further operations on the ledger, those of other
  portfolios' cycles among them, as long as that one order is still unsettled no later cycle of the portfolio trades,
  of whatever configuration, at whatever venue and state of the market and the book. The keys of the portfolio's
  predictions are taken to belong to its own orders.\<close>

theorem uncertain_outcome_halts:
  assumes "venue_contract P" "run_cycle P p cfg dk (aware, now) W = (Inr r, W')" "cr_reason r = Some Outcome_Unknown"
    and "ledger_inv (wd_ledger W)" "keys_owned p (wd_ledger W)"
  shows "\<exists>i row. order_by_id (wd_ledger W') i = Some row \<and> od_portfolio row = p \<and> od_status row = Acknowledged
    \<and> (\<forall>V row' P2 cfg2 dk2 stamp res V'. ledger_run (wd_ledger W') (wd_ledger V)
        \<and> order_by_id (wd_ledger V) i = Some row' \<and> unsettled_status (od_status row')
        \<and> run_cycle P2 p cfg2 dk2 stamp (V :: 'v world) = (res, V') \<longrightarrow>
          wd_ledger V' = wd_ledger V \<and> wd_book V' = wd_book V \<and> wd_venue V' = wd_venue V
          \<and> (\<forall>r2. res = Inr r2 \<longrightarrow> cr_halted r2 \<and> cr_considered r2 = 0 \<and> cr_fills r2 = []))"
proof -
  obtain i row where row: "order_by_id (wd_ledger W') i = Some row" "od_portfolio row = p" "od_status row = Acknowledged"
    using assms(2)
  proof (cases rule: run_cycle_cases)
    case (2 book v h)
    then show ?thesis using assms(3) by (simp add: halted_cycle_def)
  next
    case (3 book v rs)
    then obtain cy h where rs: "rs = Inr (cy, h)" "check_cycle (end_cycle cy h) = Inr r" by (cases rs) auto
    then have "h = Some Outcome_Unknown" using assms(3) by (auto simp: check_cycle_def end_cycle_def result_simps)
    with venue_contract.halted_rows_open[OF assms(1) 3(6)[unfolded rs(1) this]] assms(4,5) that show ?thesis by auto
  qed simp
  show ?thesis
  proof (intro exI[of _ i] exI[of _ row] conjI row allI impI)
    fix V :: "'v world" and row' P2 cfg2 dk2 stamp res V'
    assume later: "ledger_run (wd_ledger W') (wd_ledger V) \<and> order_by_id (wd_ledger V) i = Some row'
      \<and> unsettled_status (od_status row') \<and> run_cycle P2 p cfg2 dk2 stamp V = (res, V')"
    then have "od_portfolio row' = p" using ledger_run_owner[of "wd_ledger W'" "wd_ledger V" i row] row by auto
    with later have "left_open p (wd_ledger V) i" "run_cycle P2 p cfg2 dk2 stamp V = (res, V')" by (auto simp: left_open_def)
    from open_order_stops[OF this] show "wd_ledger V' = wd_ledger V" "wd_book V' = wd_book V" "wd_venue V' = wd_venue V"
      "\<And>r2. res = Inr r2 \<Longrightarrow> cr_halted r2" "\<And>r2. res = Inr r2 \<Longrightarrow> cr_considered r2 = 0"
      "\<And>r2. res = Inr r2 \<Longrightarrow> cr_fills r2 = []" by auto
  qed
qed

section \<open>Fills that cannot be booked, and fills that are\<close>

text \<open>C7. A fill can be lost: when an earlier cycle recorded the intent of a prediction and stopped before it was
  submitted, a later cycle finds that order, sends its own newly sized intent under it, and if the venue fills more
  than the recorded quantity the ledger refuses the fill: the venue has moved, the book has not, and the order is
  left submitted with nothing filled.\<close>

theorem stale_intent_fill_is_lost:
  assumes "ledger_inv (wd_ledger W)" "order_by_key (wd_ledger W) (in_key x) = Some row" "od_status row = Intent"
    and "0 < in_quantity x" "0 < in_reference_price x" "portfolio_base (wd_book W) p = Some base"
    and "vp_execute P x (wd_venue W) = (Inr (fill_numbers Fin g), v)"
    and "0 < fl_quantity g" "in_quantity (od_intent row) < dadd 0 (fl_quantity g)"
  shows "\<exists>L. place_order P p mt x cy W = (Inl Order_Ledger_Error, W\<lparr>wd_venue := v, wd_ledger := L\<rparr>)
    \<and> order_by_id L (od_id row) = Some (row\<lparr>od_status := Submitted\<rparr>)"
proof -
  have mem: "row \<in> set (ld_orders (wd_ledger W))" using order_by_keyD[OF assms(2)] by simp
  have rec: "record_intent p x (wd_ledger W) = Inr (od_id row, wd_ledger W)"
    using assms(2,4,5) by (simp add: record_intent_def order_checks_def)
  have row: "order_by_id (wd_ledger W) (od_id row) = Some row" using order_by_id_mem[OF assms(1) mem] .
  from submit_intent[OF rec row assms(3,7)] obtain L where L: "sent P p x W (od_id row) L (Inr (fill_numbers Fin g)) v"
    "order_by_id L (od_id row) = Some (row\<lparr>od_status := Submitted\<rparr>)" by blast
  have "amounts_ok (events_of (wd_ledger W) (od_id row)) row" using assms(1) mem by (simp add: ledger_inv_def row_ok_def)
  then have zero: "od_filled row = 0" using assms(3) unfolding amounts_ok_def by blast
  have fin: "fill_numbers finite_part (fill_numbers Fin g) = g"
    and parts: "fl_quantity (fill_numbers Fin g) = Fin (fl_quantity g)" "fl_price (fill_numbers Fin g) = Fin (fl_price g)"
      "fl_fee (fill_numbers Fin g) = Fin (fl_fee g)"
    by (simp_all add: fill_numbers_def)
  have over: "in_quantity (od_intent row) \<le> dadd 0 (fl_quantity g)" using assms(9) by simp
  have "record_finite_fill (od_id row) g L = Inl Order_Ledger_Error"
    unfolding record_finite_fill_def L(2) using assms(8,9) over
    by (simp add: accumulate_parts check_transition_def Let_def zero not_le)
  then have "record_fill (od_id row) (fill_numbers Fin g) L = Inl Order_Ledger_Error"
    by (simp add: record_fill_def parts fin)
  then have "record_and_apply_fill (od_id row) p (fill_numbers Fin g) mt (L, wd_book W) = Inl Order_Ledger_Error"
    using assms(6) by (simp add: record_and_apply_fill_def)
  moreover have "\<not> is_empty (fill_numbers Fin g)" using assms(8) by (simp add: is_empty_def parts)
  ultimately show ?thesis using place_answered[OF L(1), of mt cy] L(2) by auto
qed

text \<open>On the paper venue a fill of an order that is new to the ledger is always booked: the cycle goes on with the
  book the fill was applied to, and ledger and book stay consistent.\<close>

theorem new_order_fill_is_booked:
  assumes "ledger_inv (wd_ledger W)" "book_inv (wd_book W)" "portfolio_base (wd_book W) p = Some base"
    and "order_by_key (wd_ledger W) (in_key x) = None" "0 < in_quantity x" "exact (in_quantity x)" "0 < in_reference_price x"
    and "paper_execute M x (wd_venue W) = Inr (f, V)" "fl_quantity f \<noteq> 0"
  shows "\<exists>st L B. place_order (paper_port name caps M) p mt x cy W = (Inr (cy\<lparr>cy_submitted := Suc (cy_submitted cy), cy_book := st,
        cy_peak := max (cy_peak cy) (st_nav st), cy_fills := cy_fills cy @ [fill_numbers Fin f]\<rparr>, None),
      W\<lparr>wd_venue := V, wd_ledger := L, wd_book := B\<rparr>)
    \<and> apply_fill p f mt (wd_book W) = Inr (st, B) \<and> ledger_inv L \<and> book_inv B"
proof -
  have "vp_execute (paper_port name caps M) x (wd_venue W) = (Inr (fill_numbers Fin f), V)" "\<not> is_empty (fill_numbers Fin f)"
    using assms(8,9) by (simp_all add: paper_port_def is_empty_def fill_numbers_def)
  moreover have "fill_numbers finite_part (fill_numbers Fin f) = f" by (simp add: fill_numbers_def)
  ultimately show ?thesis
    using paper.fresh_fill_booked[OF assms(1-7), of name caps M "fill_numbers Fin f" V mt cy] by simp
qed

section \<open>A sample desk\<close>

definition no_results :: result_store where
  "no_results = \<lparr>rs_results = [], rs_findings = [], rs_next = 0\<rparr>"

definition any_cycle :: cycle where
  "any_cycle = start_cycle (loaded_state 7 ''USDT'' usdt_book) 1000"

lemma stale_intent_fill_is_lost_witness:
  "\<exists>L. place_order (paper_port ''paper'' sample_caps sample_market) 7 Perpetual sample_short any_cycle
       \<lparr>wd_ledger = ledger_intent, wd_book = usdt_book, wd_results = no_results, wd_venue = sample_venue\<rparr>
     = (Inl Order_Ledger_Error, \<lparr>wd_ledger = L, wd_book = usdt_book, wd_results = no_results, wd_venue = sample_venue_after\<rparr>)"
proof -
  let ?W = "\<lparr>wd_ledger = ledger_intent, wd_book = usdt_book, wd_results = no_results, wd_venue = sample_venue\<rparr>"
  have ask: "vp_execute (paper_port ''paper'' sample_caps sample_market) sample_short (wd_venue ?W)
      = (Inr (fill_numbers Fin sample_fill), sample_venue_after)"
    using sample_execution by (simp add: paper_port_def)
  have key: "order_by_key (wd_ledger ?W) (in_key sample_short) = Some sample_order" "od_status sample_order = Intent"
    "0 < in_quantity sample_short" "0 < in_reference_price sample_short" "0 < fl_quantity sample_fill"
    "in_quantity (od_intent sample_order) < dadd 0 (fl_quantity sample_fill)"
    unfolding world.simps by code_simp+
  have "ledger_inv (wd_ledger ?W)" using reachable_inv[OF sample_run(1)] by simp
  from stale_intent_fill_is_lost[OF this key(1-4) _ ask key(5,6), of 7 "''USDT''" Perpetual any_cycle] usdt_book_ok
  show ?thesis by auto
qed

lemma new_order_fill_is_booked_witness:
  "\<exists>cy L B. place_order (paper_port ''paper'' sample_caps sample_market) 7 Perpetual sample_short any_cycle
       \<lparr>wd_ledger = empty_ledger, wd_book = usdt_book, wd_results = no_results, wd_venue = sample_venue\<rparr>
     = (Inr (cy, None), \<lparr>wd_ledger = L, wd_book = B, wd_results = no_results, wd_venue = sample_venue_after\<rparr>)"
proof -
  let ?W = "\<lparr>wd_ledger = empty_ledger, wd_book = usdt_book, wd_results = no_results, wd_venue = sample_venue\<rparr>"
  have ex: "exact (in_quantity sample_short)" unfolding exact_def by code_simp
  have h: "order_by_key (wd_ledger ?W) (in_key sample_short) = None" "0 < in_quantity sample_short"
    "0 < in_reference_price sample_short" "fl_quantity sample_fill \<noteq> 0"
    unfolding world.simps by code_simp+
  have inv: "ledger_inv (wd_ledger ?W)" "book_inv (wd_book ?W)" "portfolio_base (wd_book ?W) 7 = Some ''USDT''"
    "paper_execute sample_market sample_short (wd_venue ?W) = Inr (sample_fill, sample_venue_after)"
    using ledger_inv_empty usdt_book_ok sample_execution by simp_all
  from new_order_fill_is_booked[OF inv(1-3) h(1,2) ex h(3) inv(4) h(4), of "''paper''" sample_caps Perpetual any_cycle]
  show ?thesis by auto
qed

text \<open>A desk with one pending call and a venue that does not answer.\<close>

definition pending_call :: prediction_row where
  "pending_call = falling_call\<lparr>pd_id := 50, pd_outcome := Pending, pd_horizon := 20, pd_created := 5\<rparr>"

definition sample_config :: cycle_config where
  "sample_config = \<lparr>lc_phase = Paper, lc_target = Fin (1 / 2), lc_tolerance = Fin 1, lc_max = 3, lc_market = Perpetual,
     lc_limits = sample_limits, lc_bars = lenient_bars\<rparr>"

definition sample_desk :: desk where
  "sample_desk = \<lparr>dk_table = pending_call # sample_table, dk_walk = (\<lambda>_. Some True), dk_pnl = Some (Fin 0),
     dk_quotient = exact_quotient, dk_shown = (\<lambda>x. x)\<rparr>"

definition silent_port :: "paper_venue venue_port" where
  "silent_port = (paper_port ''paper'' sample_caps sample_market)\<lparr>vp_execute := (\<lambda>x V. (Inl Venue_Unavailable, V))\<rparr>"

interpretation silent: venue_contract silent_port
  by unfold_locales (simp add: silent_port_def)

lemma eligible_rows:
  "resolved_rows meth kind audience table = resolved_rows meth kind audience' table'
    \<Longrightarrow> eligible quo table meth kind audience phase target walk b = eligible quo table' meth kind audience' phase target walk b"
  by (simp only: eligible_def)

lemma sample_desk_eligible:
  "\<exists>e. eligible_for sample_config sample_desk (eligibility_key pending_call) = Inr e \<and> el_eligible e \<and> el_hit_rate e = Some 1"
proof -
  have rows: "resolved_rows ''trend.sma'' ''crypto'' None (pending_call # sample_table) = resolved_rows ''trend.sma'' ''crypto'' (Some 4) sample_table"
    and key: "eligibility_key pending_call = (''trend.sma'', ''crypto'', None)" by code_simp+
  have "eligible_for sample_config sample_desk (eligibility_key pending_call)
      = eligible exact_quotient (pending_call # sample_table) ''trend.sma'' ''crypto'' None Paper (Fin (1 / 2)) (Some True) lenient_bars"
    by (simp only: eligible_for_def key sample_config_def sample_desk_def Let_def prod.case cycle_config.simps desk.simps)
  also have "\<dots> = eligible exact_quotient sample_table ''trend.sma'' ''crypto'' (Some 4) Paper (Fin (1 / 2)) (Some True) lenient_bars"
    by (rule eligible_rows[OF rows])
  finally show ?thesis using sample_eligible by (simp only:)
qed

definition opening_state :: portfolio_state where
  "opening_state = \<lparr>st_portfolio = 7, st_nav = 1000, st_cash = 1000, st_positions = [], st_cash_positions =
     [\<lparr>cp_venue = ''paper'', cp_asset = ''USDT'', cp_free = 1000, cp_locked = 0, cp_as_of = 0\<rparr>]\<rparr>"

lemma opening_book: "load 7 usdt_book = Inr opening_state" "peak_nav 7 usdt_book 1000 = 1000"
proof -
  have "rbind (load 7 usdt_book) (\<lambda>st. ensure (st = opening_state) Type_Error) = Inr ()" by code_simp
  then show "load 7 usdt_book = Inr opening_state" by (auto simp: result_simps)
  show "peak_nav 7 usdt_book 1000 = 1000" by code_simp
qed

lemma opening_verdict:
  "\<exists>v. reconcile_venue (map holding_of (st_positions opening_state)) (map funds_of_cash (st_cash_positions opening_state))
    (paper_view sample_venue) (Some (Fin 1)) 10 True = Inr v \<and> rr_reconciled v"
proof -
  have "rbind (reconcile_venue (map holding_of (st_positions opening_state)) (map funds_of_cash (st_cash_positions opening_state))
    (paper_view sample_venue) (Some (Fin 1)) 10 True) (\<lambda>v. ensure (rr_reconciled v) Type_Error) = Inr ()" by code_simp
  then show ?thesis by (auto simp: result_simps)
qed

definition sent_intent :: intent where
  "sent_intent = sized_intent pending_call Sell ''paper'' ''ETH/USD'' Perpetual (5 / 2) []"

lemma pending_size:
  "size_prediction (\<lambda>x. x) pending_call Sell 1 opening_state sample_limits (Decimal_Number (Fin DEFAULT_KELLY_FRACTION)) None None = Inr (5 / 2)"
proof -
  have e: "exact (1 / 4)" "exact (5 / 2)" "exact (10 :: rat)" "exact (90 :: rat)" "exact (110 :: rat)" "exact (250 :: rat)"
    unfolding exact_def by code_simp+
  have "dmul 100 TOL \<le> 1 / 2"
    unfolding dmul_def by (intro dround_le_exact) (simp_all add: TOL_def exact_small)
  then have tol: "dmul 100 TOL < 10" by simp
  show ?thesis
    using tol
    by (simp add: size_prediction_def pending_call_def falling_call_def resolved_up_def opening_state_def sample_limits_def barriers_def
        size_position_def payoff_ratio_def kelly_fraction_def vol_scaled_def Let_def DEFAULT_KELLY_FRACTION_def
        ddiv_def dsub_def dmul_def[of 1] dmul_def[of "1 / 4"] dround_exact
        finite_number_def[of "Float_Number x" for x] exact_small e)
qed

definition opening_evidence :: evidence where
  "opening_evidence = cycle_evidence sample_desk pending_call 10 (start_cycle opening_state 1000)"

lemma sent_checks:
  "check_intent sent_intent = Inr sent_intent"
  "\<exists>v. risk_check 10 sent_intent (Some (snapshot_of opening_state)) (Some sample_limits) opening_evidence = Inr v \<and> ve_allowed v"
proof -
  have "rbind (check_intent sent_intent) (\<lambda>i. ensure True Type_Error) = Inr ()" by code_simp
  then show "check_intent sent_intent = Inr sent_intent" using check_intent_same by (auto simp: result_simps)
  have "rbind (risk_check 10 sent_intent (Some (snapshot_of opening_state)) (Some sample_limits) opening_evidence)
      (\<lambda>v. ensure (ve_allowed v) Type_Error) = Inr ()" by code_simp
  then show "\<exists>v. risk_check 10 sent_intent (Some (snapshot_of opening_state)) (Some sample_limits) opening_evidence = Inr v \<and> ve_allowed v"
    by (auto simp: result_simps)
qed

lemma sample_bridge:
  assumes "vp_name P = ''paper''" "vp_caps P = sample_caps" "cy_book cy = opening_state" "cy_peak cy = 1000"
    and "el_eligible e" "el_hit_rate e = Some 1"
  shows "\<exists>b. bridge_row P sample_config sample_desk 10 pending_call e cy = Inr b \<and> bg_intent b = Some sent_intent"
proof -
  obtain v where v: "risk_check 10 sent_intent (Some (snapshot_of opening_state)) (Some sample_limits) opening_evidence = Inr v" "ve_allowed v"
    using sent_checks(2) by blast
  have sym: "\<not> no_symbol (Some ''ETH/USD'')" "side_of (pd_direction pending_call) = Some Sell" "pd_symbol pending_call = Some ''ETH/USD''"
    "cap_shorting sample_caps" by code_simp+
  have ev: "cycle_evidence sample_desk pending_call 10 cy = opening_evidence"
    using assms(4) by (simp add: opening_evidence_def cycle_evidence_def start_cycle_def)
  have cfg: "lc_limits sample_config = sample_limits" "lc_market sample_config = Perpetual" "dk_shown sample_desk = (\<lambda>x. x)"
    by (simp_all add: sample_config_def sample_desk_def)
  have "bridge_row P sample_config sample_desk 10 pending_call e cy
      = Inr \<lparr>bg_intent = Some sent_intent, bg_refusal = None, bg_eligibility = e, bg_risk = Some v\<rparr>"
    unfolding bridge_row_def prediction_to_intent_def ev cfg assms(1-3,6) sym Let_def
    using sym(1,4) assms(5) pending_size sent_checks(1) v
    by (simp add: sent_intent_def[symmetric] check_bridge_result_def option_result_def)
  then show ?thesis by simp
qed

lemma fresh_order_lost:
  assumes "ledger_inv (wd_ledger W)" "order_by_key (wd_ledger W) (in_key x) = None" "0 < in_quantity x" "0 < in_reference_price x"
    and "vp_execute P x (wd_venue W) = (Inl Venue_Unavailable, v)"
  shows "\<exists>cy' W'. place_order P p mt x cy W = (Inr (cy', Some Outcome_Unknown), W') \<and> wd_venue W' = v"
proof -
  let ?row = "\<lparr>od_id = ld_next (wd_ledger W), od_portfolio = p, od_intent = x, od_status = Intent, od_external_id = None,
    od_filled = 0, od_average = None, od_fee = 0, od_created = ld_now (wd_ledger W)\<rparr>"
  let ?i = "ld_next (wd_ledger W)"
  obtain L1 where rec: "record_intent p x (wd_ledger W) = Inr (?i, L1)" "?row \<in> set (ld_orders L1)"
    using assms(2-4) by (auto simp: record_intent_def order_checks_def)
  have row: "order_by_id L1 ?i = Some ?row" using order_by_id_mem[OF record_intent_inv[OF assms(1) rec(1)] rec(2)] by simp
  from submit_intent[OF rec(1) row _ assms(5)] obtain L where
    L: "sent P p x W ?i L (Inl Venue_Unavailable) v" "order_by_id L ?i = Some (?row\<lparr>od_status := Submitted\<rparr>)" by auto
  have t: "transition ?i Submitted None None L1 = Inr L" using L(1) rec(1) by (auto simp: sent_def)
  obtain L2 where "transition ?i Acknowledged None (Some ''execution_uncertain'') L = Inr L2"
    using L(2) by (simp add: transition_def check_transition_def)
  then have "execute_or_halt P ?i x (W\<lparr>wd_ledger := L\<rparr>) = (Inr Uncertain, W\<lparr>wd_ledger := L, wd_venue := v, wd_ledger := L2\<rparr>)"
    using assms(5) by (simp add: execute_or_halt_def move_order_def on_ledger_def)
  then show ?thesis
    using rec(1) row t by (simp add: place_order_def on_ledger_def move_order_def get_order_def Let_def)
qed

abbreviation opening_world :: "'v \<Rightarrow> 'v world" where
  "opening_world v \<equiv> \<lparr>wd_ledger = empty_ledger, wd_book = usdt_book, wd_results = no_results, wd_venue = v\<rparr>"

abbreviation sample_order_sent :: intent where
  "sample_order_sent \<equiv> sent_intent\<lparr>in_key := order_key 7 pending_call\<rparr>"

lemma sample_rows:
  assumes "vp_name P = ''paper''" "vp_caps P = sample_caps" "vp_execute P sample_order_sent (wd_venue W) = (Inl Venue_Unavailable, v')"
    and "wd_ledger W = empty_ledger"
  shows "\<exists>cy W'. cycle_rows (cycle_row P 7 sample_config sample_desk 10) (pending_rows 10 (dk_table sample_desk))
      (start_cycle opening_state 1000) W = (Inr (cy, Some Outcome_Unknown), W') \<and> wd_venue W' = v'"
proof -
  have none: "order_by_key empty_ledger (in_key sample_order_sent) = None" by code_simp
  have pos: "0 < in_quantity sample_order_sent" "0 < in_reference_price sample_order_sent" by code_simp+
  have rows: "pending_rows 10 (dk_table sample_desk) = [pending_call]"
  proof -
    have "dk_table sample_desk = pending_call # sample_table" by (simp add: sample_desk_def)
    moreover have "filter (\<lambda>r. pd_outcome r = Pending \<and> 10 < pd_horizon r) (pending_call # sample_table) = [pending_call]"
      by code_simp
    ultimately show ?thesis by (simp only: pending_rows_def) simp
  qed
  let ?cy = "start_cycle opening_state 1000"
  obtain e where e: "eligible_for sample_config sample_desk (eligibility_key pending_call) = Inr e" "el_eligible e" "el_hit_rate e = Some 1"
    using sample_desk_eligible by blast
  let ?cy1 = "?cy\<lparr>cy_considered := Suc (cy_considered ?cy), cy_known := AList.update (eligibility_key pending_call) e (cy_known ?cy)\<rparr>"
  have known: "known_eligibility sample_config sample_desk pending_call (?cy\<lparr>cy_considered := Suc (cy_considered ?cy)\<rparr>) = Inr (e, ?cy1)"
    using e(1) by (simp add: known_eligibility_def start_cycle_def)
  have cy1: "cy_book ?cy1 = opening_state" "cy_peak ?cy1 = 1000" "cy_submitted ?cy1 = 0" by (simp_all add: start_cycle_def)
  from sample_bridge[OF assms(1,2) cy1(1,2) e(2,3)] obtain b where
    b: "bridge_row P sample_config sample_desk 10 pending_call e ?cy1 = Inr b" "bg_intent b = Some sent_intent" by blast
  obtain cy' W' where placed: "place_order P 7 Perpetual sample_order_sent ?cy1 W = (Inr (cy', Some Outcome_Unknown), W')" "wd_venue W' = v'"
    using fresh_order_lost[of W sample_order_sent P v' 7 Perpetual ?cy1] none pos assms(3,4) ledger_inv_empty by auto
  have lc: "\<not> lc_max sample_config \<le> 0" "lc_market sample_config = Perpetual" by (simp_all add: sample_config_def)
  have "cycle_row P 7 sample_config sample_desk 10 pending_call ?cy W = (Inr (cy', Some Outcome_Unknown), W')"
    using known b cy1(3) lc placed(1) by (simp add: cycle_row_def)
  with placed(2) show ?thesis unfolding rows by simp
qed

lemma sample_cycle:
  assumes "vp_name P = ''paper''" "vp_caps P = sample_caps" "vp_view P v = paper_view sample_venue"
    and "vp_execute P sample_order_sent v = (Inl Venue_Unavailable, v')"
  shows "\<exists>r W'. run_cycle P 7 sample_config sample_desk (True, 10) (opening_world v) = (Inr r, W')
    \<and> cr_reason r = Some Outcome_Unknown \<and> wd_venue W' = v'"
proof -
  obtain verdict where verdict: "read_verdict P sample_config 10 opening_state v = Inr verdict" "rr_reconciled verdict"
    using opening_verdict assms(3) by (auto simp: read_verdict_def sample_config_def)
  let ?W1 = "snd (record_verdict 7 verdict (opening_world v))"
  have none: "unsettled_orders empty_ledger 7 = []" by code_simp
  let ?cy = "start_cycle opening_state 1000"
  have start: "accounted ?cy" by (simp add: accounted_def start_cycle_def counted_def)
  from sample_rows[OF assms(1,2), of ?W1 v'] assms(4) obtain cy W' where
    cycle: "cycle_rows (cycle_row P 7 sample_config sample_desk 10) (pending_rows 10 (dk_table sample_desk)) ?cy ?W1
      = (Inr (cy, Some Outcome_Unknown), W')" "wd_venue W' = v'" by auto
  have nav: "st_nav opening_state = 1000" by (simp add: opening_state_def)
  have "accounted cy" using rows_account[OF cycle(1) start known_ok_more(2)] .
  then have "run_cycle P 7 sample_config sample_desk (True, 10) (opening_world v) = (Inr (end_cycle cy (Some Outcome_Unknown)), W')"
    using verdict none cycle(1) opening_book nav by (simp add: run_cycle_def check_end_cycle split_beta)
  with cycle(2) show ?thesis by (simp add: end_cycle_def)
qed

lemma sample_config_ok: "check_config sample_config = Inr sample_config"
  by (simp add: check_config_def sample_config_def)

lemma sample_logged_cycle:
  "\<exists>r W'. run_cycle (logged silent_port) 7 sample_config sample_desk (True, 10) (opening_world (sample_venue, [])) = (Inr r, W')
    \<and> sent_log W' = [sample_order_sent]"
proof -
  have "vp_execute (logged silent_port) sample_order_sent (sample_venue, []) = (Inl Venue_Unavailable, sample_venue, [sample_order_sent])"
    by (simp add: logged_def silent_port_def)
  from sample_cycle[OF _ _ _ this] show ?thesis by (auto simp: logged_def silent_port_def paper_port_def)
qed

lemma cycle_accounts_witness:
  "\<exists>cy W'. cycle_rows (cycle_row silent_port 7 sample_config sample_desk 10) (pending_rows 10 (dk_table sample_desk))
       (start_cycle opening_state 1000) (opening_world sample_venue) = (Inr (cy, Some Outcome_Unknown), W')
     \<and> cr_considered (end_cycle cy (Some Outcome_Unknown)) = counted (cr_refused (end_cycle cy (Some Outcome_Unknown)))
         + cr_executed (end_cycle cy (Some Outcome_Unknown))"
proof -
  obtain cy W' where run: "cycle_rows (cycle_row silent_port 7 sample_config sample_desk 10) (pending_rows 10 (dk_table sample_desk))
       (start_cycle opening_state 1000) (opening_world sample_venue) = (Inr (cy, Some Outcome_Unknown), W')"
    using sample_rows[of silent_port "opening_world sample_venue" sample_venue] by (auto simp: silent_port_def paper_port_def)
  from cycle_accounts[OF run] run show ?thesis by auto
qed

lemma prediction_sent_at_most_once_witness:
  "\<exists>W'. desk_run silent_port (opening_world (sample_venue, [])) [(7, sample_order_sent)] W'
     \<and> distinct (map (\<lambda>(p, x). (p, in_provenance x)) [(7 :: nat, sample_order_sent)])
     \<and> sent_log W' = [sample_order_sent]"
proof -
  let ?W = "opening_world (sample_venue, [])"
  obtain r W' where run: "run_cycle (logged silent_port) 7 sample_config sample_desk (True, 10) ?W = (Inr r, W')"
    "sent_log W' = [sample_order_sent]"
    using sample_logged_cycle by blast
  have step: "desk_step silent_port ?W [(7, sample_order_sent)] W'" using Cycle[OF sample_config_ok run(1)] run(2) by simp
  have "desk_run silent_port ?W [(7, sample_order_sent)] W'"
    using Step[OF Start[of silent_port ?W] step] by simp
  with prediction_sent_at_most_once[OF silent.venue_contract_axioms this] ledger_inv_empty show ?thesis by auto
qed

lemma sent_orders_are_earned_witness:
  "\<exists>r W' new. run_cycle (logged silent_port) 7 sample_config sample_desk (True, 10) (opening_world (sample_venue, [])) = (Inr r, W')
     \<and> sent_log W' = new \<and> new \<noteq> [] \<and> (\<forall>x\<in>set new. \<exists>c\<in>set (dk_table sample_desk). pd_outcome c = Pending \<and> in_key x = order_key 7 c)"
proof -
  obtain r W' where run: "run_cycle (logged silent_port) 7 sample_config sample_desk (True, 10) (opening_world (sample_venue, [])) = (Inr r, W')"
    "sent_log W' = [sample_order_sent]"
    using sample_logged_cycle by blast
  have "sent_once (opening_world (sample_venue, []))" using ledger_inv_empty by (simp add: sent_once_def)
  from sent_orders_are_earned[OF silent.venue_contract_axioms run(1) this sample_config_ok] run show ?thesis by auto
qed

lemma uncertain_outcome_halts_witness:
  "\<exists>r W'. run_cycle silent_port 7 sample_config sample_desk (True, 10) (opening_world sample_venue) = (Inr r, W')
     \<and> wd_venue (snd (run_cycle (paper_port ''paper'' sample_caps sample_market) 7 sample_config sample_desk (True, 11) W')) = wd_venue W'"
proof -
  have "vp_execute silent_port sample_order_sent sample_venue = (Inl Venue_Unavailable, sample_venue)" by (simp add: silent_port_def)
  from sample_cycle[OF _ _ _ this] obtain r W' where
    run: "run_cycle silent_port 7 sample_config sample_desk (True, 10) (opening_world sample_venue) = (Inr r, W')"
      "cr_reason r = Some Outcome_Unknown"
    by (auto simp: silent_port_def paper_port_def)
  let ?next = "run_cycle (paper_port ''paper'' sample_caps sample_market) 7 sample_config sample_desk (True, 11) W'"
  have owned: "keys_owned 7 (wd_ledger (opening_world sample_venue))" by (simp add: keys_owned_def empty_ledger_def)
  have inv: "ledger_inv (wd_ledger (opening_world sample_venue))" using ledger_inv_empty by simp
  have "wd_venue (snd ?next) = wd_venue W'"
    using uncertain_outcome_halts[OF silent.venue_contract_axioms run inv owned]
  proof (elim exE conjE)
    fix i row
    assume row: "order_by_id (wd_ledger W') i = Some row" "od_status row = Acknowledged"
      and later: "\<forall>V row' P2 cfg2 dk2 stamp res V'. ledger_run (wd_ledger W') (wd_ledger V)
        \<and> order_by_id (wd_ledger V) i = Some row' \<and> unsettled_status (od_status row')
        \<and> run_cycle P2 7 cfg2 dk2 stamp (V :: paper_venue world) = (res, V') \<longrightarrow>
          wd_ledger V' = wd_ledger V \<and> wd_book V' = wd_book V \<and> wd_venue V' = wd_venue V
          \<and> (\<forall>r2. res = Inr r2 \<longrightarrow> cr_halted r2 \<and> cr_considered r2 = 0 \<and> cr_fills r2 = [])"
    have "unsettled_status (od_status row)" using row(2) by (simp add: unsettled_status_def)
    with later[rule_format, of W' row "paper_port ''paper'' sample_caps sample_market" sample_config sample_desk "(True, 11)"
        "fst ?next" "snd ?next"] row(1)
    show ?thesis by simp
  qed
  with run(1) show ?thesis by blast
qed

end
