(* ===== verification/Throttle.thy ===== *)
theory Throttle
  imports Text
begin

text \<open>
  Admission of credentials: the burst guard of \<open>src/omni/auth/ratelimit.py\<close>, the escalating lockout of
  \<open>auth/throttle.py\<close>, and the budgets and the guard of \<open>auth/admission.py\<close>. Instants of the database clock are
  microseconds; the burst guard's monotonic clock is rational, without the rounding of \<open>now - window\<close>.
  Parameters: \<open>digest\<close> is SHA-256 in hexadecimal, \<open>canonical\<close> the parser of IP addresses (None where it raises).

  The lemmas: what the burst guard admits in a window, how long a lockout lasts and when it ends, and that
  refusals and pruning do not change what later decisions are made from.
\<close>

section \<open>The burst guard\<close>

definition WINDOW_SECONDS :: rat where "WINDOW_SECONDS = 60"
definition MAX_BURST :: nat where "MAX_BURST = 5"

type_synonym burst_table = "(string \<times> rat list) list"

definition check_rate_limit :: "rat \<Rightarrow> nat \<Rightarrow> string \<Rightarrow> rat \<Rightarrow> burst_table \<Rightarrow> bool \<times> burst_table" where
  "check_rate_limit window limit ip now attempts =
     (let q = dropWhile (\<lambda>t. t < now - window) (dict_get attempts ip [])
      in if limit \<le> length q then (False, AList.update ip q attempts)
         else (True, AList.update ip (q @ [now]) attempts))"

text \<open>A sequence of attempts and which of them were let in, in order.\<close>

fun burst_run :: "rat \<Rightarrow> nat \<Rightarrow> (string \<times> rat) list \<Rightarrow> burst_table \<Rightarrow> (string \<times> rat) list \<times> burst_table" where
  "burst_run window limit [] S = ([], S)"
| "burst_run window limit ((ip, now) # as) S =
     (let (ok, S1) = check_rate_limit window limit ip now S; (rest, S2) = burst_run window limit as S1
      in (if ok then (ip, now) # rest else rest, S2))"

section \<open>The lockout\<close>

definition MAX_ATTEMPTS :: nat where "MAX_ATTEMPTS = 5"
definition BASE_COOLDOWN :: int where "BASE_COOLDOWN = 60 * 1000000"
definition MAX_COOLDOWN :: int where "MAX_COOLDOWN = 3600 * 1000000"
definition LOOKBACK :: int where "LOOKBACK = 24 * 3600 * 1000000"
definition PRUNE_BATCH :: int where "PRUNE_BATCH = 1000"

definition cooldown_for :: "nat \<Rightarrow> int" where
  "cooldown_for failures =
     (if failures < MAX_ATTEMPTS then 0
      else let steps = min (failures - MAX_ATTEMPTS) 6 in min (BASE_COOLDOWN * 2 ^ steps) MAX_COOLDOWN)"

definition normalize_ip :: "(string \<Rightarrow> string option) \<Rightarrow> string \<Rightarrow> string" where
  "normalize_ip canonical raw =
     (let v = strip raw;
          v = (if v \<noteq> [] \<and> hd v = CHR ''['' \<and> last v = CHR '']'' then butlast (tl v) else v)
      in case canonical v of Some c \<Rightarrow> c | None \<Rightarrow> raw)"

definition email_fingerprint :: "(string \<Rightarrow> string) \<Rightarrow> string \<Rightarrow> string" where
  "email_fingerprint digest email = digest (lower (strip email))"

text \<open>A row of \<open>auth_throttle_event\<close>: fingerprint, client IP, instant.\<close>

record throttle_event =
  te_email :: string
  te_ip :: string
  te_at :: int

definition streak :: "int \<Rightarrow> string \<Rightarrow> string \<Rightarrow> throttle_event list \<Rightarrow> int list" where
  "streak now email ip events = map te_at (filter (\<lambda>e. te_email e = email \<and> te_ip e = ip \<and> now - LOOKBACK < te_at e) events)"

text \<open>Whether the pair is admitted, and otherwise for how long it is not.\<close>

definition check_login_throttle :: "int \<Rightarrow> string \<Rightarrow> string \<Rightarrow> throttle_event list \<Rightarrow> bool \<times> int" where
  "check_login_throttle now email ip events =
     (case streak now email ip events of
        [] \<Rightarrow> (True, 0)
      | t # ts \<Rightarrow>
          let remaining = cooldown_for (length (t # ts)) - (now - fold max ts t)
          in if 0 < remaining then (False, remaining) else (True, 0))"

definition record_login_failure :: "int \<Rightarrow> string \<Rightarrow> string \<Rightarrow> throttle_event list \<Rightarrow> throttle_event list" where
  "record_login_failure now email ip events = events @ [\<lparr>te_email = email, te_ip = ip, te_at = now\<rparr>]"

definition record_login_success :: "string \<Rightarrow> string \<Rightarrow> throttle_event list \<Rightarrow> throttle_event list" where
  "record_login_success email ip events = filter (\<lambda>e. \<not> (te_email e = email \<and> te_ip e = ip)) events"

section \<open>Budgets\<close>

record auth_budget =
  bu_key :: string
  bu_used :: nat
  bu_expires :: int

datatype auth_error = Burst_Refused | Too_Many int | Invalid_Budget | Invalid_Batch

type_synonym 'a auth = "(auth_error, 'a) result"

text \<open>The seconds of the \<open>Retry-After\<close> header, of a duration in microseconds.\<close>

definition retry_seconds :: "int \<Rightarrow> int" where
  "retry_seconds d = max 1 (- ((- d) div 1000000))"

definition reserve_one :: "int \<Rightarrow> string \<Rightarrow> int \<Rightarrow> int \<Rightarrow> auth_budget list \<Rightarrow> auth_budget list option" where
  "reserve_one now key maximum seconds budgets =
     (case find (\<lambda>b. bu_key b = key) budgets of
        None \<Rightarrow> Some (budgets @ [\<lparr>bu_key = key, bu_used = 1, bu_expires = now + seconds * 1000000\<rparr>])
      | Some b \<Rightarrow>
          if bu_expires b \<le> now \<or> int (bu_used b) < maximum then
            Some (map (\<lambda>r. if bu_key r = key then
                (if bu_expires b \<le> now then r\<lparr>bu_used := 1, bu_expires := now + seconds * 1000000\<rparr>
                 else r\<lparr>bu_used := bu_used b + 1\<rparr>) else r) budgets)
          else None)"

definition reserve_budgets :: "int \<Rightarrow> (string \<times> int \<times> int) list \<Rightarrow> auth_budget list \<Rightarrow> auth_budget list auth" where
  "reserve_budgets now items budgets =
     rfold (\<lambda>(key, maximum, seconds) bs.
       rbind (ensure (\<not> (maximum < 1 \<or> seconds \<le> 0)) Invalid_Budget) (\<lambda>_.
       case reserve_one now key maximum seconds bs of
         Some bs' \<Rightarrow> Inr bs'
       | None \<Rightarrow> Inl (Too_Many (retry_seconds (case find (\<lambda>b. bu_key b = key) bs of
             Some b \<Rightarrow> max 1000000 (bu_expires b - now) | None \<Rightarrow> 1000000)))))
     (sort items) budgets"

text \<open>The oldest expired rows, at most a batch of each table.\<close>

definition prune_oldest :: "('r \<Rightarrow> int) \<Rightarrow> int \<Rightarrow> int \<Rightarrow> 'r list \<Rightarrow> 'r list \<times> 'r list" where
  "prune_oldest age limit batch rows =
     (let numbered = zip rows [0..<length rows];
          old = take (nat batch) (sort_key (\<lambda>x. age (fst x)) (filter (\<lambda>x. age (fst x) < limit) numbered))
      in (map fst (filter (\<lambda>x. snd x \<notin> set (map snd old)) numbered), map fst old))"

definition prune_auth_state :: "int \<Rightarrow> int \<Rightarrow> throttle_event list \<times> auth_budget list
    \<Rightarrow> ((nat \<times> nat) \<times> throttle_event list \<times> auth_budget list) auth" where
  "prune_auth_state now batch tables =
     rbind (ensure (\<not> batch < 1) Invalid_Batch) (\<lambda>_.
     let (events, gone) = prune_oldest te_at (now - LOOKBACK) batch (fst tables);
         (budgets, over) = prune_oldest bu_expires (now - LOOKBACK) batch (snd tables)
     in Inr ((length gone, length over), events, budgets))"

section \<open>The guard and the login\<close>

record auth_state =
  as_burst :: burst_table
  as_events :: "throttle_event list"
  as_budgets :: "auth_budget list"

record auth_policy =
  ap_ip_budget :: int
  ap_account_budget :: int

definition guard_budgets :: "auth_policy \<Rightarrow> string \<Rightarrow> string \<Rightarrow> (string \<times> int \<times> int) list" where
  "guard_budgets policy fingerprint ip =
     [(''credential:ip:'' @ ip, ap_ip_budget policy, 60), (''credential:account:'' @ fingerprint, ap_account_budget policy, 60)]"

text \<open>The reservation commits before the decision; \<open>lock\<close> is whether no other request of the pair is deciding. The
  body runs in the guard's transaction: what it wrote stays unless it raises.\<close>

definition credential_guard :: "(string \<Rightarrow> string) \<Rightarrow> (string \<Rightarrow> string option) \<Rightarrow> auth_policy \<Rightarrow> string \<Rightarrow> string \<Rightarrow> int \<Rightarrow> bool
    \<Rightarrow> (throttle_event list \<Rightarrow> ('a \<times> throttle_event list) auth) \<Rightarrow> auth_state \<Rightarrow> 'a auth \<times> auth_state" where
  "credential_guard digest canonical policy email raw now lock body st =
     (let ip = normalize_ip canonical raw; fingerprint = email_fingerprint digest email in
      case reserve_budgets now (guard_budgets policy fingerprint ip) (as_budgets st) of
        Inl e \<Rightarrow> (Inl e, st)
      | Inr budgets \<Rightarrow>
          let st1 = st\<lparr>as_budgets := budgets\<rparr> in
          if \<not> lock then (Inl (Too_Many (retry_seconds 1000000)), st1)
          else
            let (admitted, remaining) = check_login_throttle now fingerprint ip (as_events st1) in
            if \<not> admitted then (Inl (Too_Many (retry_seconds remaining)), st1)
            else (case body (as_events st1) of
                Inl e \<Rightarrow> (Inl e, st1)
              | Inr (x, events) \<Rightarrow> (Inr x, st1\<lparr>as_events := events\<rparr>)))"

definition burst_guard :: "string \<Rightarrow> rat \<Rightarrow> auth_state \<Rightarrow> bool \<times> auth_state" where
  "burst_guard ip tick st =
     (let (ok, attempts) = check_rate_limit WINDOW_SECONDS MAX_BURST ip tick (as_burst st) in (ok, st\<lparr>as_burst := attempts\<rparr>))"

text \<open>One login: \<open>verified\<close> is whether the password was right.\<close>

definition login :: "(string \<Rightarrow> string) \<Rightarrow> (string \<Rightarrow> string option) \<Rightarrow> auth_policy \<Rightarrow> string \<Rightarrow> string \<Rightarrow> rat \<Rightarrow> int \<Rightarrow> bool \<Rightarrow> bool
    \<Rightarrow> auth_state \<Rightarrow> bool auth \<times> auth_state" where
  "login digest canonical policy email ip tick now lock verified st =
     (let (ok, st) = burst_guard ip tick st in
      if \<not> ok then (Inl Burst_Refused, st)
      else credential_guard digest canonical policy email ip now lock (\<lambda>events.
        let key = normalize_ip canonical ip; fingerprint = email_fingerprint digest email in
        Inr (verified, if verified then record_login_success fingerprint key events
                       else record_login_failure now fingerprint key events)) st)"

section \<open>What the burst guard admits\<close>

lemma dropWhile_below: "c \<le> d \<Longrightarrow> dropWhile (\<lambda>t. t < d) (dropWhile (\<lambda>t. t < c) xs) = dropWhile (\<lambda>t. t < (d :: rat)) xs"
  by (induction xs) auto

lemma dropWhile_sorted: "sorted xs \<Longrightarrow> dropWhile (\<lambda>t. t < d) xs = filter (\<lambda>t. (d :: rat) \<le> t) xs"
proof (induction xs)
  case (Cons x xs)
  then have "d \<le> x \<Longrightarrow> filter (\<lambda>t. d \<le> t) xs = xs" by (auto simp: filter_id_conv)
  with Cons show ?case by auto
qed simp

lemma dropWhile_snoc: "\<not> P y \<Longrightarrow> dropWhile P (xs @ [y]) = dropWhile P xs @ [y]"
  by (induction xs) auto

definition admitted_times :: "string \<Rightarrow> (string \<times> rat) list \<Rightarrow> rat list" where
  "admitted_times ip h = map snd (filter (\<lambda>a. fst a = ip) h)"

text \<open>A table against the history \<open>h\<close> of what was let in: each queue is what the last look at it left.\<close>

definition burst_ok :: "rat \<Rightarrow> (string \<times> rat) list \<Rightarrow> rat \<Rightarrow> burst_table \<Rightarrow> bool" where
  "burst_ok window h now S \<longleftrightarrow> 0 \<le> window \<and> sorted (map snd h) \<and> (\<forall>a\<in>set h. snd a \<le> now)
     \<and> (\<forall>ip. \<exists>c \<le> now - window. dict_get S ip [] = dropWhile (\<lambda>t. t < c) (admitted_times ip h))"

lemma admitted_sorted: "sorted (map snd h) \<Longrightarrow> sorted (admitted_times ip h)"
  unfolding admitted_times_def by (induction h) auto

lemma check_rate_limit_iff:
  assumes "burst_ok window h t S" "t \<le> now"
  shows "fst (check_rate_limit window limit ip now S) \<longleftrightarrow> length (filter (\<lambda>t. now - window \<le> t) (admitted_times ip h)) < limit"
    and "burst_ok window (if fst (check_rate_limit window limit ip now S) then h @ [(ip, now)] else h) now
      (snd (check_rate_limit window limit ip now S))"
proof -
  let ?q = "dropWhile (\<lambda>t. t < now - window) (dict_get S ip [])"
  have sorted: "0 \<le> window" "sorted (map snd h)" "\<forall>a\<in>set h. snd a \<le> now" using assms by (auto simp: burst_ok_def)
  obtain c where c: "c \<le> t - window" "dict_get S ip [] = dropWhile (\<lambda>t. t < c) (admitted_times ip h)"
    using assms(1) by (auto simp: burst_ok_def)
  then have q: "?q = dropWhile (\<lambda>t. t < now - window) (admitted_times ip h)" using assms(2) by (simp add: dropWhile_below)
  then show iff: "fst (check_rate_limit window limit ip now S) \<longleftrightarrow> length (filter (\<lambda>t. now - window \<le> t) (admitted_times ip h)) < limit"
    using dropWhile_sorted[OF admitted_sorted[OF sorted(2)]] by (auto simp: check_rate_limit_def Let_def)
  have others: "\<exists>c \<le> now - window. dict_get S i [] = dropWhile (\<lambda>t. t < c) (admitted_times i h)" for i
  proof -
    from assms(1) obtain d where "d \<le> t - window" "dict_get S i [] = dropWhile (\<lambda>t. t < d) (admitted_times i h)"
      by (auto simp: burst_ok_def)
    with assms(2) show ?thesis by (intro exI[of _ d]) auto
  qed
  have drop: "\<exists>c \<le> now - window. dropWhile (\<lambda>t. t < now - window) (admitted_times ip h) = dropWhile (\<lambda>t. t < c) (admitted_times ip h)"
    by blast
  show "burst_ok window (if fst (check_rate_limit window limit ip now S) then h @ [(ip, now)] else h) now
      (snd (check_rate_limit window limit ip now S))"
  proof (cases "limit \<le> length ?q")
    case True
    with sorted others drop show ?thesis
      by (auto simp: burst_ok_def check_rate_limit_def q dict_get_update)
  next
    case False
    let ?h = "h @ [(ip, now)]"
    from sorted(1) have "dropWhile (\<lambda>t. t < now - window) (admitted_times ip h) @ [now] = dropWhile (\<lambda>t. t < now - window) (admitted_times ip ?h)"
      by (simp add: admitted_times_def dropWhile_snoc)
    then have "\<exists>c \<le> now - window. dropWhile (\<lambda>t. t < now - window) (admitted_times ip h) @ [now] = dropWhile (\<lambda>t. t < c) (admitted_times ip ?h)"
      by blast
    moreover have "admitted_times i ?h = admitted_times i h" if "i \<noteq> ip" for i using that by (simp add: admitted_times_def)
    ultimately have "\<exists>c \<le> now - window. dict_get (snd (check_rate_limit window limit ip now S)) i [] = dropWhile (\<lambda>t. t < c) (admitted_times i ?h)" for i
      using False others[of i] by (cases "i = ip") (simp_all add: check_rate_limit_def q dict_get_update)
    moreover have "fst (check_rate_limit window limit ip now S)" using False by (simp add: check_rate_limit_def)
    ultimately show ?thesis using sorted by (simp add: burst_ok_def sorted_append)
  qed
qed


definition burst_bounded :: "rat \<Rightarrow> nat \<Rightarrow> (string \<times> rat) list \<Rightarrow> bool" where
  "burst_bounded window limit h \<longleftrightarrow> (\<forall>ip a. length (filter (\<lambda>t. a \<le> t \<and> t \<le> a + window) (admitted_times ip h)) \<le> limit)"

lemma burst_bounded_snoc:
  assumes "burst_bounded window limit h" "\<forall>x\<in>set h. snd x \<le> now" "length (filter (\<lambda>t. now - window \<le> t) (admitted_times ip h)) < limit"
  shows "burst_bounded window limit (h @ [(ip, now)])"
  unfolding burst_bounded_def
proof (intro allI)
  fix i a
  show "length (filter (\<lambda>t. a \<le> t \<and> t \<le> a + window) (admitted_times i (h @ [(ip, now)]))) \<le> limit"
  proof (cases "i = ip \<and> a \<le> now \<and> now \<le> a + window")
    case True
    have "length (filter (\<lambda>t. a \<le> t \<and> t \<le> a + window) (admitted_times ip h)) \<le> length (filter (\<lambda>t. now - window \<le> t) (admitted_times ip h))"
    proof -
      have "filter (\<lambda>t. a \<le> t \<and> t \<le> a + window) xs = filter (\<lambda>t. a \<le> t \<and> t \<le> a + window) (filter (\<lambda>t. now - window \<le> t) xs)" for xs
        using True by (induction xs) auto
      then show ?thesis by (metis length_filter_le)
    qed
    with assms(3) True show ?thesis by (simp add: admitted_times_def)
  next
    case False
    then have "filter (\<lambda>t. a \<le> t \<and> t \<le> a + window) (admitted_times i (h @ [(ip, now)])) = filter (\<lambda>t. a \<le> t \<and> t \<le> a + window) (admitted_times i h)"
      by (auto simp: admitted_times_def)
    with assms(1) show ?thesis by (simp add: burst_bounded_def)
  qed
qed

lemma burst_run_ok:
  assumes "burst_run window limit as S = (adm, S')" "burst_ok window h t S" "sorted (map snd as)" "\<forall>a\<in>set as. t \<le> snd a"
    and "burst_bounded window limit h"
  shows "burst_ok window (h @ adm) (last (t # map snd as)) S' \<and> burst_bounded window limit (h @ adm)"
  using assms
proof (induction as arbitrary: S adm h t)
  case (Cons a as)
  obtain ip now where a: "a = (ip, now)" by (cases a)
  obtain ok S1 where c: "check_rate_limit window limit ip now S = (ok, S1)" by fastforce
  from Cons.prems(1) a c obtain rest where r: "burst_run window limit as S1 = (rest, S')"
    and out: "adm = (if ok then (ip, now) # rest else rest)"
    by (cases "burst_run window limit as S1") auto
  let ?h = "if ok then h @ [(ip, now)] else h"
  have now: "t \<le> now" using Cons.prems(4) a by simp
  note step = check_rate_limit_iff[OF Cons.prems(2) now, of limit ip, unfolded c fst_conv snd_conv]
  have before: "\<forall>x\<in>set h. snd x \<le> now" using Cons.prems(2) now by (auto simp: burst_ok_def)
  have "burst_bounded window limit ?h"
    using Cons.prems(5) step(1) burst_bounded_snoc[OF Cons.prems(5) before] by simp
  from Cons.IH[OF r step(2) _ _ this] Cons.prems(3) a
  show ?case by (auto simp: out split: if_splits)
qed (auto simp: burst_ok_def)

lemma burst_run_start:
  assumes "burst_run window limit as [] = (adm, S)" "sorted (map snd as)" "0 \<le> window"
  shows "burst_ok window adm (last (0 # map snd as)) S \<and> burst_bounded window limit adm \<or> as = []"
proof (cases as)
  case (Cons a rest)
  have "burst_ok window [] (snd a) []"
    using assms(3) by (auto simp: burst_ok_def admitted_times_def)
  from burst_run_ok[OF assms(1) this assms(2)] assms(2) Cons show ?thesis
    by (auto simp: burst_bounded_def admitted_times_def)
qed simp


text \<open>The burst guard lets at most the limit through in any stretch of time as long as the window, per client,
  whatever the attempts, as long as the clock does not go back.\<close>

theorem burst_window_bound:
  assumes "burst_run window limit as [] = (adm, S)" "sorted (map snd as)" "0 \<le> window"
  shows "length (filter (\<lambda>x. fst x = ip \<and> a \<le> snd x \<and> snd x \<le> a + window) adm) \<le> limit"
proof (cases "as = []")
  case True
  then show ?thesis using assms(1) by simp
next
  case False
  then have "burst_bounded window limit adm" using burst_run_start[OF assms] by blast
  then have "length (filter (\<lambda>t. a \<le> t \<and> t \<le> a + window) (admitted_times ip adm)) \<le> limit"
    by (simp add: burst_bounded_def)
  moreover have "length (filter (\<lambda>t. a \<le> t \<and> t \<le> a + window) (admitted_times ip h))
      = length (filter (\<lambda>x. fst x = ip \<and> a \<le> snd x \<and> snd x \<le> a + window) h)" for h
    by (induction h) (auto simp: admitted_times_def)
  ultimately show ?thesis by simp
qed

text \<open>A client that tries every ten seconds: of the attempts the first five are let in.\<close>

definition hammering :: "(string \<times> rat) list" where
  "hammering = map (\<lambda>i. (''10.0.0.9'', of_int i)) [0, 1, 2, 3, 4, 5, 14, 24, 34, 44, 54, 59]"

lemma hammering_run:
  "fst (burst_run WINDOW_SECONDS MAX_BURST hammering []) = map (\<lambda>i. (''10.0.0.9'', of_int i)) [0, 1, 2, 3, 4]"
  "sorted (map snd hammering)"
  by code_simp+

lemma burst_window_bound_witness:
  "length (filter (\<lambda>x. fst x = ''10.0.0.9'' \<and> 0 \<le> snd x \<and> snd x \<le> 0 + WINDOW_SECONDS)
     (fst (burst_run WINDOW_SECONDS MAX_BURST hammering []))) \<le> MAX_BURST"
  by (rule burst_window_bound[of WINDOW_SECONDS MAX_BURST hammering _ "snd (burst_run WINDOW_SECONDS MAX_BURST hammering [])"])
    (simp_all add: hammering_run WINDOW_SECONDS_def)

text \<open>The burst guard opens again for everyone: once the attempts that were let in are older than the window the
  next one is let in, however many attempts were refused in between, for refused attempts are not recorded.\<close>

theorem burst_door_reopens:
  assumes "burst_run window limit as [] = (adm, S)" "sorted (map snd as @ [now])" "0 \<le> window" "0 < limit"
    and "\<forall>x\<in>set adm. fst x = ip \<longrightarrow> snd x < now - window"
  shows "fst (check_rate_limit window limit ip now S)"
proof (cases "as = []")
  case True
  then show ?thesis using assms(1,4) by (simp add: check_rate_limit_def)
next
  case False
  then have ok: "burst_ok window adm (last (0 # map snd as)) S"
    using burst_run_start[OF assms(1) _ assms(3)] assms(2) by (auto simp: sorted_append)
  have "snd (last as) \<le> now" using assms(2) last_in_set[OF False] by (auto simp: sorted_append)
  then have "last (0 # map snd as) \<le> now" using False by (simp add: last_map)
  note iff = check_rate_limit_iff(1)[OF ok this, of limit ip]
  have "filter (\<lambda>t. now - window \<le> t) (admitted_times ip adm) = []"
    using assms(5) by (auto simp: admitted_times_def filter_empty_conv)
  with iff assms(4) show ?thesis by simp
qed

lemma burst_door_reopens_witness:
  "fst (check_rate_limit WINDOW_SECONDS MAX_BURST ''10.0.0.9'' 65 (snd (burst_run WINDOW_SECONDS MAX_BURST hammering [])))
    \<and> length (filter (\<lambda>x. 5 \<le> snd x) hammering) = 7"
proof -
  have "sorted (map snd hammering @ [65])" by code_simp
  moreover have "\<forall>x\<in>set (fst (burst_run WINDOW_SECONDS MAX_BURST hammering [])). fst x = ''10.0.0.9'' \<longrightarrow> snd x < 65 - WINDOW_SECONDS"
    unfolding hammering_run(1) by (simp add: WINDOW_SECONDS_def)
  ultimately have "fst (check_rate_limit WINDOW_SECONDS MAX_BURST ''10.0.0.9'' 65 (snd (burst_run WINDOW_SECONDS MAX_BURST hammering [])))"
    by (intro burst_door_reopens[of WINDOW_SECONDS MAX_BURST hammering "fst (burst_run WINDOW_SECONDS MAX_BURST hammering [])"])
      (simp_all add: WINDOW_SECONDS_def MAX_BURST_def)
  moreover have "length (filter (\<lambda>x. 5 \<le> snd x) hammering) = 7" by code_simp
  ultimately show ?thesis by blast
qed

section \<open>How long a lockout lasts\<close>

lemma cooldown_mono:
  assumes "m \<le> n"
  shows "cooldown_for m \<le> cooldown_for n"
proof -
  have "(2 :: int) ^ min (m - MAX_ATTEMPTS) 6 \<le> 2 ^ min (n - MAX_ATTEMPTS) 6" using assms by (intro power_increasing) auto
  then have "min (BASE_COOLDOWN * 2 ^ min (m - MAX_ATTEMPTS) 6) MAX_COOLDOWN \<le> min (BASE_COOLDOWN * 2 ^ min (n - MAX_ATTEMPTS) 6) MAX_COOLDOWN"
    by (intro min.mono) (simp_all add: BASE_COOLDOWN_def)
  moreover have "0 \<le> min (BASE_COOLDOWN * 2 ^ k) MAX_COOLDOWN" for k by (simp add: BASE_COOLDOWN_def MAX_COOLDOWN_def)
  ultimately show ?thesis using assms by (auto simp: cooldown_for_def Let_def)
qed

lemma cooldown_bounds: "0 \<le> cooldown_for n" "cooldown_for n \<le> MAX_COOLDOWN"
  by (simp_all add: cooldown_for_def Let_def BASE_COOLDOWN_def MAX_COOLDOWN_def)

lemma fold_max_Max: "fold max ts t = Max (insert (t :: int) (set ts))"
  using Max.set_eq_fold[of t ts] by simp

lemma fold_max_mem: "fold max ts t \<in> insert (t :: int) (set ts)"
  unfolding fold_max_Max by (rule Max_in) auto

lemma fold_max_upper: "x \<in> insert (t :: int) (set ts) \<Longrightarrow> x \<le> fold max ts t"
  unfolding fold_max_Max by (rule Max_ge) auto

lemma streak_later:
  assumes "now \<le> later"
  shows "set (streak later email ip events) \<subseteq> set (streak now email ip events)"
    and "length (streak later email ip events) \<le> length (streak now email ip events)"
proof -
  have "streak later email ip events = filter (\<lambda>t. later - LOOKBACK < t) (streak now email ip events)"
    using assms unfolding streak_def by (induction events) auto
  then show "set (streak later email ip events) \<subseteq> set (streak now email ip events)"
    and "length (streak later email ip events) \<le> length (streak now email ip events)" by auto
qed

text \<open>C39. A lockout ends: a pair that is refused is told a positive time of at most the longest cooldown, and if nothing
  more is recorded for it, whatever attempts are refused meanwhile, it is admitted when that time is over and ever
  after; a pair with fewer failures than the limit is never refused.\<close>

theorem lockout_ends:
  assumes "check_login_throttle now email ip events = (False, r)" "\<forall>e\<in>set events. te_at e \<le> now"
  shows "0 < r \<and> r \<le> MAX_COOLDOWN \<and> MAX_ATTEMPTS \<le> length (streak now email ip events)
    \<and> (\<forall>later \<ge> now + r. check_login_throttle later email ip events = (True, 0))"
proof -
  from assms(1) obtain t ts where s: "streak now email ip events = t # ts"
    by (auto simp: check_login_throttle_def split: list.splits)
  with assms(1) have r: "r = cooldown_for (length (t # ts)) - (now - fold max ts t)" "0 < r"
    by (auto simp: check_login_throttle_def Let_def split: if_splits)
  have "\<forall>x\<in>set (streak now email ip events). x \<le> now" using assms(2) by (auto simp: streak_def)
  then have past: "\<forall>x\<in>insert t (set ts). x \<le> now" by (simp add: s)
  have last: "fold max ts t \<le> now" using fold_max_mem[of ts t] past by blast
  have "MAX_ATTEMPTS \<le> length (t # ts)" using r last by (auto simp: cooldown_for_def split: if_splits)
  moreover have "r \<le> MAX_COOLDOWN" using r(1) last cooldown_bounds(2)[of "length (t # ts)"] by linarith
  moreover have "check_login_throttle later email ip events = (True, 0)" if "now + r \<le> later" for later
  proof (cases "streak later email ip events")
    case (Cons u us)
    have "now \<le> later" using that r(2) by simp
    note later = streak_later[OF this, of email ip events, unfolded s Cons]
    have "fold max us u \<in> insert t (set ts)" using later(1) fold_max_mem[of us u] by auto
    then have "fold max us u \<le> fold max ts t" by (rule fold_max_upper)
    moreover have "cooldown_for (length (u # us)) \<le> cooldown_for (length (t # ts))" using later(2) by (intro cooldown_mono) simp
    ultimately have "cooldown_for (length (u # us)) - (later - fold max us u) \<le> 0" using that r(1) by linarith
    then show ?thesis by (simp add: check_login_throttle_def Cons)
  qed (simp add: check_login_throttle_def)
  ultimately show ?thesis using r(2) s by simp
qed


lemma lockout_ends_witness:
  "\<exists>events r. check_login_throttle 100000000 ''h'' ''ip'' events = (False, r)
     \<and> check_login_throttle (100000000 + r) ''h'' ''ip'' events = (True, 0)"
proof -
  let ?events = "map (\<lambda>t. \<lparr>te_email = ''h'', te_ip = ''ip'', te_at = t * 1000000\<rparr>) [90, 91, 92, 93, 94, 95]"
  have l: "check_login_throttle 100000000 ''h'' ''ip'' ?events = (False, 115000000)" by code_simp
  from lockout_ends[OF l] have "check_login_throttle (100000000 + 115000000) ''h'' ''ip'' ?events = (True, 0)" by simp
  with l show ?thesis by blast
qed

section \<open>Pruning\<close>

text \<open>What is pruned is old, at most a batch, and the rows that are not old stay in their order.\<close>

lemma prune_oldest_keeps:
  assumes "prune_oldest age limit batch rows = (kept, gone)" "\<forall>r. P r \<longrightarrow> limit \<le> age r"
  shows "filter P kept = filter P rows" "length gone \<le> nat batch"
proof -
  let ?ix = "zip rows [0..<length rows]"
  define old where "old = take (nat batch) (sort_key (\<lambda>x. age (fst x)) (filter (\<lambda>x. age (fst x) < limit) ?ix))"
  have out: "kept = map fst (filter (\<lambda>x. snd x \<notin> set (map snd old)) ?ix)" "gone = map fst old"
    using assms(1) unfolding prune_oldest_def Let_def old_def[symmetric] by simp_all
  have old: "x \<in> set ?ix \<and> age (fst x) < limit" if "x \<in> set old" for x
    using in_set_takeD[OF that[unfolded old_def]] by simp
  show "length gone \<le> nat batch" by (simp add: out(2) old_def)
  have stays: "snd x \<notin> set (map snd old)" if "x \<in> set ?ix" "P (fst x)" for x
  proof
    assume "snd x \<in> set (map snd old)"
    then obtain y where y: "y \<in> set old" "snd y = snd x" by auto
    from old[OF y(1)] that(1) y(2) have "fst y = fst x" by (auto simp: in_set_zip)
    moreover have "limit \<le> age (fst x)" using that(2) assms(2) by blast
    ultimately show False using old[OF y(1)] by simp
  qed
  have "filter P (map fst (filter (\<lambda>x. snd x \<notin> set (map snd old)) xs)) = filter P (map fst xs)"
    if "set xs \<subseteq> set ?ix" for xs
    using that
  proof (induction xs)
    case (Cons x xs)
    with stays[of x] show ?case by auto
  qed simp
  from this[of ?ix] show "filter P kept = filter P rows" by (simp add: out(1))
qed

text \<open>Maintenance never changes a decision: whatever it prunes, at every instant from then on each pair is admitted
  or refused, and for how long, as if nothing had been pruned, a budget that has not expired is found unchanged,
  and no table loses more than a batch.\<close>

theorem pruning_changes_no_decision:
  assumes "prune_auth_state now batch (events, budgets) = Inr ((n, m), events', budgets')" "now \<le> later"
  shows "check_login_throttle later email ip events' = check_login_throttle later email ip events
    \<and> filter (\<lambda>b. later < bu_expires b) budgets' = filter (\<lambda>b. later < bu_expires b) budgets
    \<and> int n \<le> batch \<and> int m \<le> batch"
proof -
  from assms(1) obtain gone over where p: "prune_oldest te_at (now - LOOKBACK) batch events = (events', gone)"
    "prune_oldest bu_expires (now - LOOKBACK) batch budgets = (budgets', over)" "n = length gone" "m = length over" "1 \<le> batch"
    by (auto simp: prune_auth_state_def result_simps split: prod.splits)
  let ?P = "\<lambda>e. te_email e = email \<and> te_ip e = ip \<and> later - LOOKBACK < te_at e"
  have "filter ?P events' = filter ?P events" using assms(2) by (intro prune_oldest_keeps(1)[OF p(1)]) auto
  moreover have "filter (\<lambda>b. later < bu_expires b) budgets' = filter (\<lambda>b. later < bu_expires b) budgets"
    using assms(2) by (intro prune_oldest_keeps(1)[OF p(2)]) (simp add: LOOKBACK_def)
  ultimately show ?thesis
    using prune_oldest_keeps(2)[OF p(1), of "\<lambda>_. False", simplified] prune_oldest_keeps(2)[OF p(2), of "\<lambda>_. False", simplified] p(3-5)
    by (simp add: check_login_throttle_def streak_def) linarith
qed

lemma pruning_changes_no_decision_witness:
  "\<exists>n events'. prune_auth_state (2 * LOOKBACK) 1 (map (\<lambda>t. \<lparr>te_email = ''h'', te_ip = ''ip'', te_at = t\<rparr>) [5, 3, LOOKBACK + 1], [])
      = Inr ((n, 0), events', []) \<and> length events' = 2
    \<and> check_login_throttle (2 * LOOKBACK) ''h'' ''ip'' events'
      = check_login_throttle (2 * LOOKBACK) ''h'' ''ip'' (map (\<lambda>t. \<lparr>te_email = ''h'', te_ip = ''ip'', te_at = t\<rparr>) [5, 3, LOOKBACK + 1])"
proof -
  have p: "prune_auth_state (2 * LOOKBACK) 1 (map (\<lambda>t. \<lparr>te_email = ''h'', te_ip = ''ip'', te_at = t\<rparr>) [5, 3, LOOKBACK + 1], [])
      = Inr ((1, 0), map (\<lambda>t. \<lparr>te_email = ''h'', te_ip = ''ip'', te_at = t\<rparr>) [5, LOOKBACK + 1], [])"
    by code_simp
  from pruning_changes_no_decision[OF p order_refl] p show ?thesis by auto
qed


section \<open>A login\<close>

text \<open>Only a login that was let through is recorded, and it is recorded as it ended: one that is refused, at whatever
  gate, leaves the failures as they were; one that is let through was not locked out, and it clears the streak of its
  pair or lengthens it by one, and touches no other pair.\<close>

theorem login_records_outcome:
  assumes "login digest canonical policy email raw tick now lock verified st = (res, st')"
  shows "case res of
      Inl _ \<Rightarrow> as_events st' = as_events st
    | Inr ok \<Rightarrow>
        let key = normalize_ip canonical raw; fingerprint = email_fingerprint digest email in
        ok = verified \<and> fst (check_login_throttle now fingerprint key (as_events st))
        \<and> streak now fingerprint key (as_events st') = (if verified then [] else streak now fingerprint key (as_events st) @ [now])
        \<and> (\<forall>f i. (f, i) \<noteq> (fingerprint, key) \<longrightarrow> streak now f i (as_events st') = streak now f i (as_events st))"
proof -
  let ?k = "normalize_ip canonical raw" and ?f = "email_fingerprint digest email"
  have failure: "streak now f i (record_login_failure now ?f ?k es) = streak now f i es @ (if f = ?f \<and> i = ?k then [now] else [])" for f i es
    by (simp add: streak_def record_login_failure_def LOOKBACK_def)
  have success: "streak now f i (record_login_success ?f ?k es) = (if f = ?f \<and> i = ?k then [] else streak now f i es)" for f i es
    by (induction es) (auto simp: streak_def record_login_success_def)
  obtain ok st1 where b: "burst_guard raw tick st = (ok, st1)" by fastforce
  then have same: "as_events st1 = as_events st" by (auto simp: burst_guard_def split: prod.splits)
  show ?thesis
  proof (cases ok)
    case False
    with assms b same show ?thesis by (auto simp: login_def)
  next
    case True
    show ?thesis
    proof (cases "reserve_budgets now (guard_budgets policy ?f ?k) (as_budgets st1)")
      case (Inl e)
      with assms b True same show ?thesis by (auto simp: login_def credential_guard_def Let_def)
    next
      case (Inr budgets)
      obtain admitted r where c: "check_login_throttle now ?f ?k (as_events st) = (admitted, r)" by fastforce
      show ?thesis
      proof (cases "lock \<and> admitted")
        case False
        with assms b True same Inr c show ?thesis
          by (auto simp: login_def credential_guard_def Let_def split: if_splits)
      next
        case True
        with assms b \<open>ok\<close> same Inr c have "res = Inr verified"
          "as_events st' = (if verified then record_login_success ?f ?k (as_events st) else record_login_failure now ?f ?k (as_events st))"
          by (auto simp: login_def credential_guard_def Let_def)
        with c True show ?thesis by (auto simp: Let_def failure success)
      qed
    qed
  qed
qed

definition empty_auth :: auth_state where
  "empty_auth = \<lparr>as_burst = [], as_events = [], as_budgets = []\<rparr>"

lemma login_records_outcome_witness:
  "\<exists>st. login (\<lambda>x. x) (\<lambda>_. None) \<lparr>ap_ip_budget = 9, ap_account_budget = 9\<rparr> ''A@x '' ''[::1]'' 0 5 True False empty_auth = (Inr False, st)
    \<and> streak 5 ''a@x'' ''[::1]'' (as_events st) = [5]"
proof -
  have l: "login (\<lambda>x. x) (\<lambda>_. None) \<lparr>ap_ip_budget = 9, ap_account_budget = 9\<rparr> ''A@x '' ''[::1]'' 0 5 True False empty_auth
      = (Inr False, \<lparr>as_burst = [(''[::1]'', [0])], as_events = [\<lparr>te_email = ''a@x'', te_ip = ''[::1]'', te_at = 5\<rparr>],
          as_budgets = [\<lparr>bu_key = ''credential:account:a@x'', bu_used = 1, bu_expires = 60000005\<rparr>,
            \<lparr>bu_key = ''credential:ip:[::1]'', bu_used = 1, bu_expires = 60000005\<rparr>]\<rparr>)"
    by code_simp
  have n: "normalize_ip (\<lambda>_. None) ''[::1]'' = ''[::1]''" "email_fingerprint (\<lambda>x. x) ''A@x '' = ''a@x''" by code_simp+
  from login_records_outcome[OF l] have "streak 5 ''a@x'' ''[::1]'' [\<lparr>te_email = ''a@x'', te_ip = ''[::1]'', te_at = 5\<rparr>]
      = streak 5 ''a@x'' ''[::1]'' (as_events empty_auth) @ [5]"
    by (simp add: n Let_def)
  with l show ?thesis by (auto simp: empty_auth_def streak_def)
qed

end
