(* ===== verification/Claims.thy ===== *)
theory Claims
  imports Venue_Reconcile
begin

text \<open>
  What the carry book reads from the claim store: the visibility rule of \<open>src/omni/coverage/visibility.py\<close>, the
  mark and the settlements of \<open>trading/carry_loop.py\<close> (\<open>_price_at\<close>, \<open>_settlements\<close>) and the trailing window of
  \<open>conviction/crosssectional.py\<close> (\<open>_funding_window\<close>). A claim's value is a JSON object or something else; a scalar of
  it is null, a number or text that \<open>Decimal(str(raw))\<close> reads as \<open>Amount\<close>, or other text. Rows that tie in an
  \<open>ORDER BY\<close> come in insertion order. The lemmas show who sees what, and that nothing is read from the future.
\<close>

section \<open>The claim table\<close>

datatype scalar = Null | Amount xdecimal | Label string

datatype claim_type = Funding_Rate | Price_Snapshot | Other_Claim string

record claim =
  cl_entity :: nat
  cl_type :: claim_type
  cl_key :: string
  cl_value :: "(string \<times> scalar) list option"
  cl_event :: int
  cl_known :: int
  cl_audience :: "nat option"
  cl_allowed :: bool
  cl_superseded :: bool

definition visible_claims :: "nat option \<Rightarrow> claim list \<Rightarrow> claim list" where
  "visible_claims audience claims = filter (\<lambda>c. \<not> cl_superseded c
     \<and> (case cl_audience c of None \<Rightarrow> cl_allowed c | Some u \<Rightarrow> audience = Some u)) claims"

definition DAY_MICROS :: int where "DAY_MICROS = 86400000000"

text \<open>\<open>split_part(key, ':', 1)\<close>\<close>

definition key_venue :: "claim \<Rightarrow> string" where
  "key_venue c = takeWhile (\<lambda>x. x \<noteq> CHR '':'') (cl_key c)"

text \<open>\<open>payload.get(name)\<close> and \<open>_decimal\<close> of it: absent, null, unreadable and non-finite are all None.\<close>

definition scalar_at :: "claim \<Rightarrow> string \<Rightarrow> scalar" where
  "scalar_at c name = (case cl_value c of None \<Rightarrow> Null | Some obj \<Rightarrow> dict_get obj name Null)"

fun usable_decimal :: "scalar \<Rightarrow> decimal option" where
  "usable_decimal (Amount (Fin x)) = Some x"
| "usable_decimal _ = None"

section \<open>Marks and settlements\<close>

definition price_rows :: "nat option \<Rightarrow> nat \<Rightarrow> int \<Rightarrow> string \<Rightarrow> claim list \<Rightarrow> claim list" where
  "price_rows audience entity t venue claims = sort_key (\<lambda>c. (- cl_event c, - cl_known c))
     (filter (\<lambda>c. cl_entity c = entity \<and> cl_type c = Price_Snapshot \<and> scalar_at c ''venue'' = Label venue
        \<and> cl_event c \<le> t \<and> cl_known c \<le> t) (visible_claims audience claims))"

definition price_at :: "nat option \<Rightarrow> nat \<Rightarrow> int \<Rightarrow> string \<Rightarrow> claim list \<Rightarrow> decimal option" where
  "price_at audience entity t venue claims =
     (case price_rows audience entity t venue claims of
        [] \<Rightarrow> None
      | c # _ \<Rightarrow>
          (let raw = (if scalar_at c ''close'' = Null then scalar_at c ''price'' else scalar_at c ''close'') in
           case usable_decimal raw of None \<Rightarrow> None | Some price \<Rightarrow> if price \<le> 0 then None else Some price))"

definition settlement_rows :: "nat list \<Rightarrow> nat option \<Rightarrow> string \<Rightarrow> int \<Rightarrow> int \<Rightarrow> claim list \<Rightarrow> claim list" where
  "settlement_rows ids audience funding_venue since until claims = distinct_on (\<lambda>c. (cl_entity c, cl_event c))
     (sort_key (\<lambda>c. (cl_entity c, cl_event c, - cl_known c))
       (filter (\<lambda>c. cl_entity c \<in> set ids \<and> cl_type c = Funding_Rate \<and> key_venue c = funding_venue \<and> cl_known c \<le> until
          \<and> since < cl_event c \<and> cl_event c \<le> until) (visible_claims audience claims)))"

text \<open>A settlement is its time, its name and its rate.\<close>

definition settlements :: "nat list \<Rightarrow> nat option \<Rightarrow> string \<Rightarrow> int \<Rightarrow> int \<Rightarrow> claim list \<Rightarrow> (int \<times> nat \<times> decimal) list" where
  "settlements ids audience funding_venue since until claims =
     (if ids = [] then []
      else sort_key (\<lambda>s. (fst s, fst (snd s)))
        (List.map_filter (\<lambda>c. map_option (\<lambda>rate. (cl_event c, cl_entity c, rate)) (usable_decimal (scalar_at c ''rate'')))
          (settlement_rows ids audience funding_venue since until claims)))"

section \<open>The trailing window\<close>

definition window_rows :: "nat list \<Rightarrow> nat option \<Rightarrow> int \<Rightarrow> int \<Rightarrow> string \<Rightarrow> claim list \<Rightarrow> claim list" where
  "window_rows ids audience as_of lookback funding_venue claims =
     distinct_on (\<lambda>c. (cl_entity c, cl_key c, cl_event c))
       (sort_key (\<lambda>c. (cl_entity c, cl_key c, cl_event c, - cl_known c))
         (filter (\<lambda>c. cl_entity c \<in> set ids \<and> cl_type c = Funding_Rate \<and> key_venue c = funding_venue \<and> cl_known c \<le> as_of
            \<and> as_of - lookback * DAY_MICROS \<le> cl_event c) (visible_claims audience claims)))"

text \<open>A rate that is not finite is kept; one that cannot be read is skipped.\<close>

fun window_rate :: "scalar \<Rightarrow> xdecimal option" where
  "window_rate (Amount x) = Some x"
| "window_rate _ = None"

definition funding_window :: "nat list \<Rightarrow> nat option \<Rightarrow> int \<Rightarrow> int \<Rightarrow> string \<Rightarrow> claim list \<Rightarrow> (nat \<times> (int \<times> xdecimal) list) list" where
  "funding_window ids audience as_of lookback funding_venue claims =
     map (\<lambda>(e, rates). (e, sort_key fst rates))
       (fold (\<lambda>c windows. case window_rate (scalar_at c ''rate'') of
            None \<Rightarrow> windows
          | Some x \<Rightarrow> AList.update (cl_entity c) (dict_get windows (cl_entity c) [] @ [(cl_event c, x)]) windows)
         (window_rows ids audience as_of lookback funding_venue claims) [])"

section \<open>What is not read\<close>

text \<open>A claim an audience could have known at an instant.\<close>

definition known_by :: "nat option \<Rightarrow> int \<Rightarrow> claim \<Rightarrow> bool" where
  "known_by audience t c \<longleftrightarrow> cl_known c \<le> t \<and> (cl_audience c = None \<or> cl_audience c = audience)"

lemma visible_known:
  assumes "\<And>c. P c \<Longrightarrow> cl_known c \<le> t"
  shows "filter P (visible_claims audience claims) = filter P (visible_claims audience (filter (known_by audience t) claims))"
proof -
  let ?seen = "\<lambda>c. \<not> cl_superseded c \<and> (case cl_audience c of None \<Rightarrow> cl_allowed c | Some u \<Rightarrow> audience = Some u)"
  have "P c \<and> ?seen c \<longleftrightarrow> P c \<and> ?seen c \<and> known_by audience t c" for c
    using assms[of c] by (cases "cl_audience c") (auto simp: known_by_def)
  then show ?thesis by (auto simp: visible_claims_def intro!: filter_cong)
qed

text \<open>C8. The reads of the carry book at an instant depend only on the claims its audience could know at that instant: two
  stores that differ in claims made known later, or owned by somebody else, give the same mark, the same settlements and
  the same trailing window.\<close>

theorem later_and_foreign_claims_invisible:
  assumes "filter (known_by audience t) claims = filter (known_by audience t) claims'"
  shows "price_at audience e t venue claims = price_at audience e t venue claims'
    \<and> settlements ids audience venue since t claims = settlements ids audience venue since t claims'
    \<and> funding_window ids audience t lookback venue claims = funding_window ids audience t lookback venue claims'"
proof -
  have same: "filter P (visible_claims audience claims) = filter P (visible_claims audience claims')"
    if "\<And>c. P c \<Longrightarrow> cl_known c \<le> t" for P
    using visible_known[OF that, where claims = claims] visible_known[OF that, where claims = claims'] assms by simp
  have "price_rows audience e t venue claims = price_rows audience e t venue claims'"
    unfolding price_rows_def by (subst same) auto
  moreover have "settlement_rows ids audience venue since t claims = settlement_rows ids audience venue since t claims'"
    unfolding settlement_rows_def by (subst same) auto
  moreover have "window_rows ids audience t lookback venue claims = window_rows ids audience t lookback venue claims'"
    unfolding window_rows_def by (subst same) auto
  ultimately show ?thesis by (simp add: price_at_def settlements_def funding_window_def)
qed

definition price_claim :: "nat \<Rightarrow> int \<Rightarrow> decimal \<Rightarrow> nat option \<Rightarrow> claim" where
  "price_claim e t price audience = \<lparr>cl_entity = e, cl_type = Price_Snapshot, cl_key = ''binance:X'',
     cl_value = Some [(''venue'', Label ''paper''), (''close'', Amount (Fin price))], cl_event = t, cl_known = t,
     cl_audience = audience, cl_allowed = True, cl_superseded = False\<rparr>"

lemma later_and_foreign_claims_invisible_witness:
  "price_at (Some 5) 1 10 ''paper'' [price_claim 1 9 100 None, price_claim 1 11 70 None, price_claim 1 10 60 (Some 6)] = Some 100"
proof -
  have "filter (known_by (Some 5) 10) [price_claim 1 9 100 None, price_claim 1 11 70 None, price_claim 1 10 60 (Some 6)]
      = filter (known_by (Some 5) 10) [price_claim 1 9 100 None]" by code_simp
  moreover have "price_at (Some 5) 1 10 ''paper'' [price_claim 1 9 100 None] = Some 100" by code_simp
  ultimately show ?thesis using later_and_foreign_claims_invisible[THEN conjunct1] by metis
qed

end
