(* ===== verification/Basket.thy ===== *)
theory Basket
  imports Claims
begin

text \<open>
  Which names the carry book holds, \<open>src/omni/conviction/crosssectional.py\<close>: the mean funding of each name over the
  trailing window, the ranking, and the basket with its two ranks. A name is ordered as its text is. The lemmas show
  that a basket is always full and inside the exit band, that the names it keeps and buys are paid no worse than those
  it leaves out, and that selecting again from the same scores changes nothing.
\<close>

section \<open>Ranking\<close>

definition MIN_SETTLEMENTS :: int where "MIN_SETTLEMENTS = 2"
definition UNIVERSE_MULTIPLE_OF_ENTER :: int where "UNIVERSE_MULTIPLE_OF_ENTER = 2"

datatype abstention = No_Coverage | Universe_Too_Small | Non_Finite_Score

definition minimum_universe :: "int \<Rightarrow> int \<Rightarrow> int" where
  "minimum_universe enter exit = max (exit + 1) (enter * UNIVERSE_MULTIPLE_OF_ENTER)"

definition score_of :: "('k \<times> xdecimal) list \<Rightarrow> 'k \<Rightarrow> decimal" where
  "score_of scores k = finite_part (dict_get scores k (Fin 0))"

definition rank_names :: "('k::linorder \<times> xdecimal) list \<Rightarrow> 'k list" where
  "rank_names scores = sort_key (\<lambda>k. (dneg (score_of scores k), k)) (map fst scores)"

section \<open>The basket\<close>

record 'k selection =
  bs_held :: "'k set"
  bs_abstention :: "abstention option"

text \<open>Retained names keep their place, then the top of the ranking fills the room that is left.\<close>

definition fill_room :: "nat \<Rightarrow> 'k list \<Rightarrow> 'k list \<Rightarrow> 'k list" where
  "fill_room room best keep = fold (\<lambda>k keep. if room \<le> length keep \<or> k \<in> set keep then keep else keep @ [k]) best keep"

definition new_basket :: "nat \<Rightarrow> nat \<Rightarrow> 'k list \<Rightarrow> 'k set \<Rightarrow> 'k list" where
  "new_basket enter exit ranked held =
     fill_room enter (take enter ranked) (take enter (remdups (filter (\<lambda>k. k \<in> held) (take exit ranked))))"

definition select_basket :: "('k::linorder \<times> xdecimal) list \<Rightarrow> 'k set \<Rightarrow> int \<Rightarrow> int \<Rightarrow> 'k selection trading" where
  "select_basket scores held enter exit =
     rbind (ensure (\<not> enter < 1) Invalid_Value) (\<lambda>_.
     rbind (ensure (\<not> exit < enter) Invalid_Value) (\<lambda>_.
     if \<not> list_all (\<lambda>(k, s). is_finite s) scores then Inr \<lparr>bs_held = held, bs_abstention = Some Non_Finite_Score\<rparr>
     else if int (length scores) < minimum_universe enter exit then Inr \<lparr>bs_held = held, bs_abstention = Some Universe_Too_Small\<rparr>
     else Inr \<lparr>bs_held = set (new_basket (nat enter) (nat exit) (rank_names scores) held), bs_abstention = None\<rparr>))"

section \<open>The decision\<close>

definition trailing_score :: "(int \<times> xdecimal) list \<Rightarrow> int \<Rightarrow> xdecimal option" where
  "trailing_score rates minimum =
     (if int (length rates) < minimum then None
      else if \<not> list_all (\<lambda>(t, x). is_finite x) rates then Some NaN
      else Some (Fin (ddiv (dsum (map (finite_part \<circ> snd) rates)) (of_nat (length rates)))))"

record basket_decision =
  bd_as_of :: int
  bd_held :: "nat set"
  bd_entered :: "nat set"
  bd_exited :: "nat set"
  bd_scores :: "(nat \<times> xdecimal) list"
  bd_abstention :: "abstention option"

definition window_scores :: "int \<Rightarrow> (nat \<times> (int \<times> xdecimal) list) list \<Rightarrow> (nat \<times> xdecimal) list" where
  "window_scores minimum windows =
     List.map_filter (\<lambda>(e, rates). map_option (\<lambda>s. (e, s)) (trailing_score rates minimum)) windows"

definition select_carry_basket :: "claim list \<Rightarrow> nat list \<Rightarrow> nat option \<Rightarrow> int \<Rightarrow> nat set \<Rightarrow> int \<Rightarrow> int \<Rightarrow> string \<Rightarrow> int \<Rightarrow> int
    \<Rightarrow> basket_decision trading" where
  "select_carry_basket claims ids audience as_of held enter exit funding_venue lookback minimum =
     rbind (ensure (ids \<noteq> []) Invalid_Value) (\<lambda>_.
     rbind (ensure (\<not> lookback < 1) Invalid_Value) (\<lambda>_.
     rbind (ensure (\<not> minimum < MIN_SETTLEMENTS) Invalid_Value) (\<lambda>_.
     let windows = funding_window ids audience as_of lookback funding_venue claims;
         still = (\<lambda>scores why. \<lparr>bd_as_of = as_of, bd_held = held, bd_entered = {}, bd_exited = {}, bd_scores = scores,
           bd_abstention = Some why\<rparr>);
         scores = window_scores minimum windows in
     if windows = [] then Inr (still [] No_Coverage)
     else
       rbind (select_basket scores held enter exit) (\<lambda>s.
       case bs_abstention s of
         Some why \<Rightarrow> Inr (still scores why)
       | None \<Rightarrow> Inr \<lparr>bd_as_of = as_of, bd_held = bs_held s, bd_entered = bs_held s - held, bd_exited = held - bs_held s,
           bd_scores = scores, bd_abstention = None\<rparr>))))"

section \<open>Filling a basket\<close>

lemma rank_names_set [simp]: "set (rank_names scores) = fst ` set scores" "length (rank_names scores) = length scores"
  by (simp_all add: rank_names_def)

lemma rank_names_distinct: "distinct (map fst scores) \<Longrightarrow> distinct (rank_names scores)"
  by (simp add: rank_names_def)

lemma fill_room_Cons:
  "fill_room room (k # best) keep = fill_room room best (if room \<le> length keep \<or> k \<in> set keep then keep else keep @ [k])"
  by (simp add: fill_room_def)

lemma fill_room_props:
  assumes "distinct keep" "length keep \<le> room"
  shows "distinct (fill_room room best keep) \<and> length (fill_room room best keep) \<le> room
    \<and> set keep \<subseteq> set (fill_room room best keep) \<and> set (fill_room room best keep) \<subseteq> set keep \<union> set best
    \<and> (length (fill_room room best keep) < room \<longrightarrow> set best \<subseteq> set (fill_room room best keep))"
  using assms
proof (induction best arbitrary: keep)
  case Nil
  then show ?case by (simp add: fill_room_def)
next
  case (Cons k best)
  let ?keep = "if room \<le> length keep \<or> k \<in> set keep then keep else keep @ [k]"
  have "distinct ?keep" "length ?keep \<le> room" "set keep \<subseteq> set ?keep" "set ?keep \<subseteq> insert k (set keep)" using Cons.prems by auto
  moreover note Cons.IH[OF this(1,2)]
  moreover have "k \<in> set ?keep" if "length (fill_room room best ?keep) < room"
  proof (rule ccontr)
    assume "k \<notin> set ?keep"
    then have "room \<le> length keep" "?keep = keep" by (auto split: if_splits)
    moreover from \<open>length keep \<le> room\<close> have "length keep \<le> length (fill_room room best keep)"
      using Cons.IH[OF Cons.prems] Cons.prems(1) by (metis card_mono distinct_card finite_set)
    ultimately show False using that by simp
  qed
  ultimately show ?case unfolding fill_room_Cons by auto
qed

text \<open>With enough names the basket is exactly full.\<close>

lemma new_basket_props:
  assumes "distinct ranked" "enter \<le> length ranked" "enter \<le> exit"
  shows "distinct (new_basket enter exit ranked held) \<and> length (new_basket enter exit ranked held) = enter
    \<and> set (new_basket enter exit ranked held) \<subseteq> set (take exit ranked)
    \<and> set (new_basket enter exit ranked held) - held \<subseteq> set (take enter ranked)
    \<and> (card (held \<inter> set (take exit ranked)) \<le> enter \<longrightarrow> held \<inter> set (take exit ranked) \<subseteq> set (new_basket enter exit ranked held))"
proof -
  let ?in = "filter (\<lambda>k. k \<in> held) (take exit ranked)" and ?B = "new_basket enter exit ranked held"
  have d: "distinct ?in" using assms(1) by simp
  then have keep: "remdups ?in = ?in" by (simp add: distinct_remdups_id)
  have B: "?B = fill_room enter (take enter ranked) (take enter ?in)" by (simp add: new_basket_def keep)
  note f = fill_room_props[of "take enter ?in" enter "take enter ranked", folded B]
  have "length ?B = enter"
  proof (rule ccontr)
    assume "length ?B \<noteq> enter"
    with f d have "set (take enter ranked) \<subseteq> set ?B" "length ?B < enter" "distinct ?B" by auto
    moreover have "card (set (take enter ranked)) = enter" using assms by (simp add: distinct_card)
    ultimately show False by (metis card_mono distinct_card finite_set not_le)
  qed
  moreover have "set (take enter ranked) \<subseteq> set (take exit ranked)" using assms(3) by (rule set_take_subset_set_take)
  moreover have "set (take enter ?in) \<subseteq> set (take exit ranked) \<inter> held" using set_take_subset[of enter ?in] by auto
  moreover have "set ?in \<subseteq> set ?B" if "card (held \<inter> set (take exit ranked)) \<le> enter"
  proof -
    have "length ?in = card (held \<inter> set (take exit ranked))"
      using distinct_card[OF d] by (simp add: Int_def conj_commute)
    with that have "take enter ?in = ?in" by simp
    then show ?thesis using f d by auto
  qed
  ultimately show ?thesis using f d by auto
qed

lemma new_basket_again:
  assumes "distinct ranked" "enter \<le> length ranked" "enter \<le> exit"
  shows "set (new_basket enter exit ranked (set (new_basket enter exit ranked held))) = set (new_basket enter exit ranked held)"
proof -
  let ?B = "set (new_basket enter exit ranked held)"
  note p = new_basket_props[OF assms, of held] and q = new_basket_props[OF assms, of ?B]
  have B: "?B \<inter> set (take exit ranked) = ?B" "card ?B = enter" using p distinct_card[of "new_basket enter exit ranked held"] by auto
  with q have "?B \<subseteq> set (new_basket enter exit ranked ?B)" by auto
  moreover have "card (set (new_basket enter exit ranked ?B)) = enter" using q by (simp add: distinct_card)
  ultimately show ?thesis using B(2) by (metis card_subset_eq finite_set)
qed

text \<open>Filling room in closed form: what is kept, then the first of the others.\<close>

lemma fill_room_eq:
  assumes "distinct best" "length keep \<le> room"
  shows "fill_room room best keep = keep @ take (room - length keep) (filter (\<lambda>k. k \<notin> set keep) best)"
  using assms
proof (induction best arbitrary: keep)
  case Nil
  then show ?case by (simp add: fill_room_def)
next
  case (Cons k best)
  show ?case
  proof (cases "room \<le> length keep \<or> k \<in> set keep")
    case True
    then show ?thesis using Cons by (auto simp: fill_room_Cons)
  next
    case False
    have "filter (\<lambda>j. j \<noteq> k \<and> j \<notin> set keep) best = filter (\<lambda>j. j \<notin> set keep) best"
      using Cons.prems(1) by (intro filter_cong) auto
    moreover have "room - length keep = Suc (room - Suc (length keep))" using False by (simp add: Suc_diff_Suc not_le)
    ultimately show ?thesis using False Cons.IH[of "keep @ [k]"] Cons.prems by (simp add: fill_room_Cons)
  qed
qed

lemma new_basket_eq:
  assumes "distinct ranked"
  shows "new_basket enter exit ranked held = (let kept = take enter (filter (\<lambda>k. k \<in> held) (take exit ranked))
    in kept @ take (enter - length kept) (filter (\<lambda>k. k \<notin> set kept) (take enter ranked)))"
  using assms by (simp add: new_basket_def distinct_remdups_id fill_room_eq Let_def)

text \<open>What a name further down a part of the ranking pays is no more than what the first names of that part pay.\<close>

lemma first_pays:
  assumes "x \<in> set (take n (filter Q (take m (rank_names scores))))"
    and "y \<in> set (filter Q (take m (rank_names scores)))" "y \<notin> set (take n (filter Q (take m (rank_names scores))))"
    and "exact (score_of scores x)" "exact (score_of scores y)"
  shows "score_of scores y \<le> score_of scores x"
proof -
  let ?key = "\<lambda>k. (dneg (score_of scores k), k)" and ?r = "filter Q (take m (rank_names scores))"
  have "sorted (map ?key (rank_names scores))" by (simp add: rank_names_def)
  then have "sorted (map ?key ?r)" by (intro sorted_filter) (simp add: sorted_wrt_take take_map[symmetric])
  then have "sorted (map ?key (take n ?r) @ map ?key (drop n ?r))" by (simp only: map_append[symmetric] append_take_drop_id)
  moreover have "y \<in> set (drop n ?r)" using assms(2,3) by (metis Un_iff append_take_drop_id set_append)
  ultimately have "?key x \<le> ?key y" using assms(1) by (auto simp: sorted_append)
  then have "dneg (score_of scores x) \<le> dneg (score_of scores y)" by auto
  then show ?thesis using assms(4,5) by (simp add: dneg_exact)
qed

text \<open>A name that enters pays at least what any ranked name left out of the basket pays.\<close>

lemma entering_pays:
  assumes "distinct (rank_names scores)" "x \<in> set (new_basket enter exit (rank_names scores) held) - held"
    and "y \<in> set (rank_names scores) - set (new_basket enter exit (rank_names scores) held)"
    and "exact (score_of scores x)" "exact (score_of scores y)"
  shows "score_of scores y \<le> score_of scores x"
proof -
  let ?r = "rank_names scores"
  let ?kept = "take enter (filter (\<lambda>k. k \<in> held) (take exit ?r))"
  let ?others = "filter (\<lambda>k. k \<notin> set ?kept) (take enter ?r)"
  note eq = new_basket_eq[OF assms(1), of enter exit held, unfolded Let_def]
  have "set ?kept \<subseteq> held" by (auto dest: in_set_takeD)
  with assms(2) have x: "x \<in> set (take (enter - length ?kept) ?others)" unfolding eq by auto
  have y: "y \<notin> set ?kept" "y \<notin> set (take (enter - length ?kept) ?others)" using assms(3) unfolding eq by auto
  show ?thesis
  proof (cases "y \<in> set (take enter ?r)")
    case True
    then have "y \<in> set ?others" using y(1) by simp
    from first_pays[OF x this y(2) assms(4,5)] show ?thesis .
  next
    case False
    have "x \<in> set (take enter ?r)" using in_set_takeD[OF x] by simp
    with first_pays[of x enter "\<lambda>_. True" "length ?r" scores y] False assms(3-5) show ?thesis by simp
  qed
qed

text \<open>When the exit band holds too many held names, the better paid of them are kept.\<close>

lemma kept_pays:
  assumes "distinct (rank_names scores)" "x \<in> held \<inter> set (new_basket enter exit (rank_names scores) held)"
    and "y \<in> held \<inter> set (take exit (rank_names scores)) - set (new_basket enter exit (rank_names scores) held)"
    and "exact (score_of scores x)" "exact (score_of scores y)"
  shows "score_of scores y \<le> score_of scores x"
proof -
  let ?r = "rank_names scores"
  let ?in = "filter (\<lambda>k. k \<in> held) (take exit ?r)"
  note eq = new_basket_eq[OF assms(1), of enter exit held, unfolded Let_def]
  have y: "y \<in> set ?in" "y \<notin> set (take enter ?in)" using assms(3) unfolding eq by auto
  then have "enter < length ?in" by (metis not_le take_all)
  then have "x \<in> set (take enter ?in)" using assms(2) unfolding eq by simp
  from first_pays[OF this y assms(4,5)] show ?thesis .
qed

section \<open>The decision, read back\<close>

lemma select_basketE:
  assumes "select_basket scores held enter exit = Inr s"
  obtains why where "1 \<le> enter" "enter \<le> exit" "bs_held s = held" "bs_abstention s = Some why"
  | "1 \<le> enter" "enter \<le> exit" "minimum_universe enter exit \<le> int (length scores)" "bs_abstention s = None"
      "bs_held s = set (new_basket (nat enter) (nat exit) (rank_names scores) held)"
      "list_all (\<lambda>(k, x). is_finite x) scores"
  using assms by (auto simp: select_basket_def result_simps not_less split: if_splits)

text \<open>Selecting again from the same scores.\<close>

lemma select_basket_again:
  assumes "select_basket scores held enter exit = Inr s" "distinct (map fst scores)"
  shows "select_basket scores (bs_held s) enter exit = Inr s"
  using assms(1)
proof (cases rule: select_basketE)
  case 1
  then show ?thesis using assms(1) by simp
next
  case 2
  then have "nat enter \<le> length (rank_names scores)" "nat enter \<le> nat exit" by (auto simp: minimum_universe_def)
  from new_basket_again[OF rank_names_distinct[OF assms(2)] this, of held] 2 show ?thesis
    by (cases s) (auto simp: select_basket_def)
qed

lemma funding_window_keys: "distinct (map fst (funding_window ids audience as_of lookback venue claims))"
proof -
  have "distinct (map fst (fold (\<lambda>c windows. case window_rate (scalar_at c ''rate'') of None \<Rightarrow> windows
      | Some x \<Rightarrow> AList.update (cl_entity c) (dict_get windows (cl_entity c) [] @ [(cl_event c, x)]) windows) rows ws))"
    if "distinct (map fst ws)" for rows and ws :: "(nat \<times> (int \<times> xdecimal) list) list"
    using that by (induction rows arbitrary: ws) (auto simp: distinct_update split: option.splits)
  then show ?thesis by (simp add: funding_window_def split_def comp_def)
qed

lemma window_scores_mem: "(e, x) \<in> set (window_scores minimum windows) \<longleftrightarrow> (\<exists>rates. (e, rates) \<in> set windows \<and> trailing_score rates minimum = Some x)"
  by (induction windows) (auto simp: window_scores_def List.map_filter_simps split: option.splits)

lemma window_scores_Cons: "window_scores minimum ((e, rates) # ws) =
    (case trailing_score rates minimum of None \<Rightarrow> window_scores minimum ws | Some x \<Rightarrow> (e, x) # window_scores minimum ws)"
  by (simp add: window_scores_def List.map_filter_simps split: option.splits)

lemma window_scores_keys: "distinct (map fst windows) \<Longrightarrow> distinct (map fst (window_scores minimum windows))"
proof (induction windows)
  case (Cons w ws)
  then have "fst w \<notin> fst ` set (window_scores minimum ws)" using window_scores_mem[of _ _ minimum ws] by (cases w) force
  with Cons show ?case by (cases w) (auto simp: window_scores_Cons split: option.splits)
qed (simp add: window_scores_def List.map_filter_simps)

lemma window_score_exact:
  assumes "e \<in> fst ` set (window_scores minimum windows)" "distinct (map fst windows)"
  shows "exact (score_of (window_scores minimum windows) e)"
proof -
  from assms(1) obtain x where x: "(e, x) \<in> set (window_scores minimum windows)" by auto
  then have "score_of (window_scores minimum windows) e = finite_part x"
    using window_scores_keys[OF assms(2)] by (simp add: score_of_def dict_get_def map_of_is_SomeI)
  moreover from x have "exact (finite_part x)" by (auto simp: window_scores_mem trailing_score_def split: if_splits)
  ultimately show ?thesis by simp
qed

lemma select_carry_basketE:
  assumes "select_carry_basket claims ids audience as_of held enter exit venue lookback minimum = Inr d"
  obtains why where "bd_abstention d = Some why" "bd_held d = held" "bd_entered d = {}" "bd_exited d = {}"
  | s where "bd_scores d = window_scores minimum (funding_window ids audience as_of lookback venue claims)"
      "select_basket (bd_scores d) held enter exit = Inr s" "bs_abstention s = None" "bd_abstention d = None"
      "bd_held d = bs_held s" "bd_entered d = bs_held s - held" "bd_exited d = held - bs_held s" "ids \<noteq> []" "1 \<le> lookback"
      "MIN_SETTLEMENTS \<le> minimum" "funding_window ids audience as_of lookback venue claims \<noteq> []"
  using assms by (auto simp: select_carry_basket_def result_simps Let_def split: if_splits option.splits)

section \<open>Properties\<close>

text \<open>C9. A decision of the carry selector either abstains and moves nothing, or names a basket of exactly the entry
  rank: every name in it ranks inside the exit band and every name that enters ranks inside the entry rank. The best paid
  are taken: a name that enters pays at least what any ranked name outside the basket pays. A held name inside the exit band
  is sold only when the band holds more held names than the basket has places, and then the held names that stay pay at
  least what those that are sold pay.\<close>

theorem basket_full_and_calm:
  assumes "select_carry_basket claims ids audience as_of held enter exit venue lookback minimum = Inr d"
  shows "(bd_abstention d \<noteq> None \<and> bd_held d = held \<and> bd_entered d = {} \<and> bd_exited d = {})
    \<or> (let ranked = rank_names (bd_scores d); pays = score_of (bd_scores d); band = set (take (nat exit) ranked) in bd_abstention d = None
      \<and> card (bd_held d) = nat enter \<and> bd_held d = (held - bd_exited d) \<union> bd_entered d
      \<and> bd_held d \<subseteq> band \<and> bd_entered d \<subseteq> set (take (nat enter) ranked) - held
      \<and> (\<forall>x\<in>bd_entered d. \<forall>y\<in>set ranked - bd_held d. pays y \<le> pays x)
      \<and> (card (held \<inter> band) \<le> nat enter \<longrightarrow> bd_exited d \<inter> band = {})
      \<and> (\<forall>x\<in>held \<inter> bd_held d. \<forall>y\<in>bd_exited d \<inter> band. pays y \<le> pays x))"
  using assms
proof (cases rule: select_carry_basketE)
  case (2 s)
  let ?ranked = "rank_names (bd_scores d)" and ?B = "new_basket (nat enter) (nat exit) (rank_names (bd_scores d)) held"
  have keys: "distinct (map fst (funding_window ids audience as_of lookback venue claims))" by (rule funding_window_keys)
  have d: "distinct ?ranked" using window_scores_keys[OF keys] 2(1) by (simp add: rank_names_distinct)
  have exact: "exact (score_of (bd_scores d) x)" if "x \<in> set ?ranked" for x
    using that window_score_exact[OF _ keys, of _ minimum] 2(1) by simp
  from 2(2) show ?thesis
  proof (cases rule: select_basketE)
    case b: 2
    have "nat enter \<le> length ?ranked" "nat enter \<le> nat exit" using b(1,2,3) by (auto simp: minimum_universe_def)
    note p = new_basket_props[OF d this, of held, folded b(5)]
    have card: "card (bs_held s) = nat enter" using p unfolding b(5) by (simp add: distinct_card)
    have ranked: "set ?B \<subseteq> set ?ranked" using p set_take_subset[of "nat exit" ?ranked] unfolding b(5) by blast
    have "\<forall>x\<in>bd_entered d. \<forall>y\<in>set ?ranked - bd_held d. score_of (bd_scores d) y \<le> score_of (bd_scores d) x"
      using entering_pays[OF d] exact ranked unfolding 2(5,6) b(5) by blast
    moreover have "\<forall>x\<in>held \<inter> bd_held d. \<forall>y\<in>bd_exited d \<inter> set (take (nat exit) ?ranked). score_of (bd_scores d) y \<le> score_of (bd_scores d) x"
      using kept_pays[OF d] exact ranked set_take_subset[of "nat exit" ?ranked] unfolding 2(5,7) b(5) by blast
    moreover have "bd_entered d \<subseteq> set (take (nat enter) ?ranked) - held" using p 2(6) by blast
    moreover have "bd_held d = (held - bd_exited d) \<union> bd_entered d" using 2(5,6,7) by blast
    moreover have "bd_exited d \<inter> set (take (nat exit) ?ranked) = {}" if "card (held \<inter> set (take (nat exit) ?ranked)) \<le> nat enter"
      using p that 2(7) by blast
    ultimately show ?thesis using p card 2(4,5) unfolding Let_def by (intro disjI2 conjI) simp_all
  qed (use 2 in simp)
qed simp

text \<open>C10. A basket is a fixed point of the selection: deciding again from the same funding, holding what was decided, the
  selector names the same basket and neither buys nor sells. The two ranks cause no churn of their own.\<close>

theorem basket_settles:
  assumes "select_carry_basket claims ids audience as_of held enter exit venue lookback minimum = Inr d"
  shows "\<exists>d'. select_carry_basket claims ids audience as_of (bd_held d) enter exit venue lookback minimum = Inr d'
    \<and> bd_held d' = bd_held d \<and> bd_entered d' = {} \<and> bd_exited d' = {} \<and> bd_abstention d' = bd_abstention d"
  using assms
proof (cases rule: select_carry_basketE)
  case (2 s)
  then have "distinct (map fst (bd_scores d))" using window_scores_keys[OF funding_window_keys] by simp
  note again = select_basket_again[OF 2(2) this]
  then show ?thesis using 2 by (simp add: select_carry_basket_def Let_def)
qed (use assms in auto)

definition funding_claim :: "nat \<Rightarrow> int \<Rightarrow> decimal \<Rightarrow> claim" where
  "funding_claim e t rate = \<lparr>cl_entity = e, cl_type = Funding_Rate, cl_key = ''binance:X'', cl_value = Some [(''rate'', Amount (Fin rate))],
     cl_event = t, cl_known = t, cl_audience = Some 5, cl_allowed = False, cl_superseded = False\<rparr>"

definition sample_claims :: "claim list" where
  "sample_claims = concat (map (\<lambda>(e, rate). [funding_claim e 1000 rate, funding_claim e 2000 rate])
     [(1, 4 / 1000), (2, 3 / 1000), (3, 2 / 1000), (4, 1 / 1000)])"

definition sample_decision :: "nat set \<Rightarrow> basket_decision" where
  "sample_decision held = \<lparr>bd_as_of = 3000, bd_held = {1, 3}, bd_entered = {1, 3} - held, bd_exited = held - {1, 3},
     bd_scores = [(1, Fin (4 / 1000)), (2, Fin (3 / 1000)), (3, Fin (2 / 1000)), (4, Fin (1 / 1000))], bd_abstention = None\<rparr>"

lemma sample_ranked: "rank_names (bd_scores (sample_decision held)) = [1, 2, 3, 4]"
  unfolding sample_decision_def basket_decision.simps by code_simp

lemma sample_selects:
  "select_carry_basket sample_claims [1, 2, 3, 4] (Some 5) 3000 {3, 4} 2 3 ''binance'' 7 2 = Inr (sample_decision {3, 4})"
proof -
  let ?W = "[(1, [(1000, Fin (4 / 1000)), (2000, Fin (4 / 1000))]), (2, [(1000, Fin (3 / 1000)), (2000, Fin (3 / 1000))]),
         (3, [(1000, Fin (2 / 1000)), (2000, Fin (2 / 1000))]), (4, [(1000, Fin (1 / 1000)), (2000, Fin (1 / 1000))])]"
  let ?S = "bd_scores (sample_decision {3, 4})"
  have window: "funding_window [1, 2, 3, 4] (Some 5) 3000 7 ''binance'' sample_claims = ?W" by code_simp
  have scores: "window_scores 2 ?W = ?S" unfolding sample_decision_def by code_simp
  have basket: "new_basket (nat 2) (nat 3) [1, 2, 3, 4] ({3, 4} :: nat set) = [3, 1]" by code_simp
  have "list_all (\<lambda>(k, s). is_finite s) ?S" "length ?S = 4" by (simp_all add: sample_decision_def)
  then have "select_basket ?S {3, 4} 2 3 = Inr \<lparr>bs_held = {3, 1}, bs_abstention = None\<rparr>"
    unfolding select_basket_def sample_ranked basket by (simp add: minimum_universe_def UNIVERSE_MULTIPLE_OF_ENTER_def)
  then show ?thesis
    unfolding select_carry_basket_def Let_def window scores
    by (simp add: MIN_SETTLEMENTS_def) (auto simp: sample_decision_def)
qed

lemma basket_full_and_calm_witness:
  "bd_exited (sample_decision {3, 4}) \<inter> {1, 2, 3} = {} \<and> score_of (bd_scores (sample_decision {3, 4})) 2 \<le> score_of (bd_scores (sample_decision {3, 4})) 1"
proof -
  let ?d = "sample_decision {3, 4}"
  have d: "{3, 4} \<inter> {1, 2, 3} = {3 :: nat}" "bd_abstention ?d = None" "1 \<in> bd_entered ?d" "2 \<notin> bd_held ?d"
    by (auto simp: sample_decision_def)
  note t = basket_full_and_calm[OF sample_selects, unfolded Let_def sample_ranked]
  have "\<forall>x\<in>bd_entered ?d. \<forall>y\<in>set [1, 2, 3, 4] - bd_held ?d. score_of (bd_scores ?d) y \<le> score_of (bd_scores ?d) x"
    using t d(2) by blast
  moreover have "card ({3, 4} \<inter> set (take (nat 3) [1, 2, 3, 4 :: nat])) \<le> nat 2 \<longrightarrow> bd_exited ?d \<inter> set (take (nat 3) [1, 2, 3, 4]) = {}"
    using t d(2) by blast
  moreover have "set (take (nat 3) [1, 2, 3, 4 :: nat]) = {1, 2, 3}" by (simp add: eval_nat_numeral)
  ultimately show ?thesis using d by simp
qed

lemma basket_settles_witness:
  "\<exists>d. select_carry_basket sample_claims [1, 2, 3, 4] (Some 5) 3000 {1, 3} 2 3 ''binance'' 7 2 = Inr d \<and> bd_exited d = {}"
proof -
  have "bd_held (sample_decision {3, 4}) = {1, 3}" by (simp add: sample_decision_def)
  then show ?thesis using basket_settles[OF sample_selects] by auto
qed

end
