(* ===== verification/Carry_Pair.thy ===== *)
theory Carry_Pair
  imports Trading_Cycle Basket
begin

text \<open>
  The pair of the carry book, \<open>src/omni/trading/carry_loop.py\<close>: its configuration, the names of its two legs on a venue,
  the legs the book holds, and the trade of a pair with its compensating trades. A pair is long spot and short perpetual
  in equal quantity; the world is the one of \<open>Trading_Cycle\<close>, and a step that raises leaves what was committed. An
  instant is written as its number of microseconds; the texts of halts are left out.

  The lemmas follow the fills a pair commits to the book: a traded pair is one unit, an untraded one leaves nothing behind
  or says so, and a decided leg is sent once.
\<close>

section \<open>Configuration\<close>

record carry_policy =
  kp_gross :: decimal
  kp_loss :: decimal
  kp_drawdown :: decimal

text \<open>An argument is None when it is not a \<open>Decimal\<close>.\<close>

definition positive_amount :: "xdecimal option \<Rightarrow> bool" where
  "positive_amount x = (case x of Some (Fin v) \<Rightarrow> \<not> v \<le> 0 | _ \<Rightarrow> False)"

definition unit_fraction :: "xdecimal option \<Rightarrow> bool" where
  "unit_fraction x = (case x of Some (Fin v) \<Rightarrow> \<not> v \<le> 0 \<and> \<not> 1 < v | _ \<Rightarrow> False)"

definition make_policy :: "xdecimal option \<Rightarrow> xdecimal option \<Rightarrow> xdecimal option \<Rightarrow> carry_policy trading" where
  "make_policy gross loss drawdown =
     rbind (ensure (positive_amount gross) Invalid_Value) (\<lambda>_.
     rbind (ensure (unit_fraction loss) Invalid_Value) (\<lambda>_.
     rbind (ensure (unit_fraction drawdown) Invalid_Value) (\<lambda>_.
     Inr \<lparr>kp_gross = finite_part (the gross), kp_loss = finite_part (the loss), kp_drawdown = finite_part (the drawdown)\<rparr>)))"

record carry_config =
  kc_enter :: int
  kc_exit :: int
  kc_notional :: decimal
  kc_funding_venue :: string
  kc_spread :: decimal
  kc_tolerance :: decimal
  kc_policy :: carry_policy
  kc_lookback :: int
  kc_minimum :: int

definition make_config :: "int \<Rightarrow> int \<Rightarrow> xdecimal option \<Rightarrow> string \<Rightarrow> xdecimal option \<Rightarrow> xdecimal option \<Rightarrow> carry_policy option
    \<Rightarrow> int \<Rightarrow> int \<Rightarrow> carry_config trading" where
  "make_config enter exit notional funding_venue spread tolerance policy lookback minimum =
     rbind (option_result Type_Error notional) (\<lambda>n.
     rbind (ensure (positive_amount notional) Invalid_Value) (\<lambda>_.
     rbind (option_result Type_Error spread) (\<lambda>s.
     rbind (ensure (is_finite s \<and> \<not> finite_part s < 0) Invalid_Value) (\<lambda>_.
     rbind (option_result Type_Error tolerance) (\<lambda>t.
     rbind (ensure (is_finite t \<and> \<not> finite_part t < 0) Invalid_Value) (\<lambda>_.
     rbind (ensure (strip funding_venue \<noteq> []) Invalid_Value) (\<lambda>_.
     rbind (option_result Type_Error policy) (\<lambda>pol.
     Inr \<lparr>kc_enter = enter, kc_exit = exit, kc_notional = finite_part n, kc_funding_venue = funding_venue,
       kc_spread = finite_part s, kc_tolerance = finite_part t, kc_policy = pol, kc_lookback = lookback,
       kc_minimum = minimum\<rparr>))))))))"

section \<open>The venue, and what a name is called there\<close>

text \<open>The port of the directional loop and what the carry loop calls besides: the names of an asset's markets, further
  spellings of a held position, whether a raw answer says that the fill is partial, the credit of a settlement and the
  smallest order. The optional ones are read with \<open>getattr\<close> or are no method of every venue.\<close>

record 'v carry_venue =
  cv_port :: "'v venue_port"
  cv_symbol_for :: "string \<Rightarrow> market_type \<Rightarrow> string option trading"
  cv_aliases :: "(string \<Rightarrow> market_type \<Rightarrow> string list) option"
  cv_partial :: "string \<Rightarrow> bool"
  cv_credit :: "(string \<Rightarrow> decimal \<Rightarrow> 'v \<Rightarrow> 'v trading) option"
  cv_minimum :: "(string \<Rightarrow> decimal option) option"

abbreviation cv_name :: "'v carry_venue \<Rightarrow> string" where
  "cv_name V \<equiv> vp_name (cv_port V)"

record pair_symbols =
  sy_asset :: string
  sy_spot :: string
  sy_perp :: string

definition for_market :: "pair_symbols \<Rightarrow> market_type \<Rightarrow> string" where
  "for_market sy mt = (if mt = Spot then sy_spot sy else sy_perp sy)"

definition claim_symbol :: "nat \<Rightarrow> string \<Rightarrow> (string \<times> nat) list \<Rightarrow> (string \<times> nat) list trading" where
  "claim_symbol e symbol seen =
     rbind (ensure (\<not> (case map_of seen symbol of Some e' \<Rightarrow> e' \<noteq> e | None \<Rightarrow> False)) Invalid_Value) (\<lambda>_.
     Inr (AList.update symbol e seen))"

definition name_entity :: "'v carry_venue \<Rightarrow> nat \<times> string option \<Rightarrow> (nat \<times> pair_symbols) list \<times> (string \<times> nat) list
    \<Rightarrow> ((nat \<times> pair_symbols) list \<times> (string \<times> nat) list) trading" where
  "name_entity V row acc =
     (let (e, symbol) = row; (named, seen) = acc in
      case symbol of
        None \<Rightarrow> Inr acc
      | Some asset \<Rightarrow>
          if strip asset = [] then Inr acc
          else
            rbind (cv_symbol_for V asset Spot) (\<lambda>spot.
            rbind (cv_symbol_for V asset Perpetual) (\<lambda>perp.
            case (spot, perp) of
              (Some s, Some q) \<Rightarrow>
                rbind (rfold (claim_symbol e) [s, q] seen) (\<lambda>seen'.
                Inr (AList.update e \<lparr>sy_asset = asset, sy_spot = s, sy_perp = q\<rparr> named, seen'))
            | _ \<Rightarrow> Inr acc)))"

text \<open>The \<open>entity\<close> table is a list of ids and symbols.\<close>

definition symbols_of :: "'v carry_venue \<Rightarrow> (nat \<times> string option) list \<Rightarrow> nat list \<Rightarrow> (nat \<times> pair_symbols) list trading" where
  "symbols_of V entities ids =
     rbind (rfold (name_entity V) (filter (\<lambda>row. fst row \<in> set ids) entities) ([], [])) (\<lambda>acc. Inr (fst acc))"

definition leg_names :: "'v carry_venue \<Rightarrow> pair_symbols \<Rightarrow> (string \<times> string) list" where
  "leg_names V sy = concat (map (\<lambda>(symbol, mt). map (\<lambda>s. (s, sy_asset sy))
     (symbol # (case cv_aliases V of None \<Rightarrow> [] | Some aliases \<Rightarrow> aliases (sy_asset sy) mt))) [(sy_spot sy, Spot), (sy_perp sy, Perpetual)])"

definition name_leg :: "string \<times> string \<Rightarrow> (string \<times> string) list \<Rightarrow> (string \<times> string) list trading" where
  "name_leg sa asset_of =
     rbind (ensure (map_of asset_of (fst sa) \<in> {None, Some (snd sa)}) Invalid_Value) (\<lambda>_.
     Inr (AList.update (fst sa) (snd sa) asset_of))"

definition pairing_map :: "(nat \<times> pair_symbols) list \<Rightarrow> 'v carry_venue \<Rightarrow> (string \<times> string) list trading" where
  "pairing_map named V = rfold name_leg (concat (map (\<lambda>(e, sy). leg_names V sy) named)) []"

section \<open>The legs the book holds\<close>

record legs =
  lg_spot :: decimal
  lg_perp :: decimal

definition PAIR_DUST_FRACTION :: decimal where "PAIR_DUST_FRACTION = 5 / 1000"

definition is_pair :: "legs \<Rightarrow> bool" where
  "is_pair l \<longleftrightarrow> \<not> (lg_spot l \<le> 0 \<or> 0 \<le> lg_perp l)
     \<and> (let residual = dabs (dadd (lg_spot l) (lg_perp l)) in
        residual = 0 \<or> residual \<le> dmul PAIR_DUST_FRACTION (max (lg_spot l) (dneg (lg_perp l))))"

definition add_leg :: "string \<Rightarrow> (string \<times> string) list \<Rightarrow> position \<Rightarrow> (string \<times> legs) list \<Rightarrow> (string \<times> legs) list" where
  "add_leg venue asset_of x held =
     (if po_venue x \<noteq> venue \<or> po_market_type x = Margin then held
      else let key = dict_get asset_of (po_symbol x) (po_symbol x); l = dict_get held key \<lparr>lg_spot = 0, lg_perp = 0\<rparr> in
        AList.update key (if po_market_type x = Spot then l\<lparr>lg_spot := po_quantity x\<rparr> else l\<lparr>lg_perp := po_quantity x\<rparr>) held)"

definition legs_by_asset :: "portfolio_state \<Rightarrow> string \<Rightarrow> (string \<times> string) list \<Rightarrow> (string \<times> legs) list" where
  "legs_by_asset book venue asset_of = fold (add_leg venue asset_of) (st_positions book) []"

definition unpaired :: "(string \<times> legs) list \<Rightarrow> string list" where
  "unpaired held = sort (map fst (filter (\<lambda>(k, l). \<not> is_pair l) held))"

section \<open>Sending a leg\<close>

datatype carry_refusal = Unlisted | No_Reference_Price | No_Mark | Pair_Did_Not_Balance | Outside_Universe | Dust_Below_Minimum

datatype leg_role = Role_Open | Role_Close | Role_Unwind

fun role_value :: "leg_role \<Rightarrow> string" where
  "role_value Role_Open = ''open''"
| "role_value Role_Close = ''close''"
| "role_value Role_Unwind = ''unwind''"

definition instant_text :: "int \<Rightarrow> string" where
  "instant_text t = Text.decimal (nat t)"

definition leg_key :: "nat \<Rightarrow> int \<Rightarrow> string \<Rightarrow> market_type \<Rightarrow> leg_role \<Rightarrow> string" where
  "leg_key p as_of symbol mt role = Text.decimal p @ '':carry:'' @ instant_text as_of @ '':'' @ symbol @ '':'' @ market_value mt
     @ '':'' @ role_value role"

definition leg_intent :: "nat \<Rightarrow> string \<Rightarrow> string \<Rightarrow> market_type \<Rightarrow> side \<Rightarrow> decimal \<Rightarrow> decimal \<Rightarrow> int \<Rightarrow> bool \<Rightarrow> leg_role \<Rightarrow> intent trading" where
  "leg_intent p venue symbol mt side quantity price as_of reduce role =
     check_intent \<lparr>in_venue = venue, in_symbol = symbol, in_side = side, in_market_type = mt, in_quantity = quantity,
       in_reference_price = price, in_kind = Market, in_limit_price = None, in_stop_price = None, in_take_profit_price = None,
       in_expires_at = None, in_reduce_only = reduce, in_provenance = instant_text as_of, in_key = leg_key p as_of symbol mt role\<rparr>"

text \<open>The book keeping of one cycle.\<close>

record carry =
  ks_refused :: "(carry_refusal \<times> nat) list"
  ks_cost :: decimal
  ks_fees :: decimal

definition start_carry :: carry where
  "start_carry = \<lparr>ks_refused = [], ks_cost = 0, ks_fees = 0\<rparr>"

definition carry_refuse :: "carry_refusal \<Rightarrow> carry \<Rightarrow> carry" where
  "carry_refuse reason ks = ks\<lparr>ks_refused := AList.update reason (dict_get (ks_refused ks) reason 0 + 1) (ks_refused ks)\<rparr>"

text \<open>A fill whose numbers are not finite is refused by the ledger right after, so its cost is not seen.\<close>

definition leg_cost :: "intent \<Rightarrow> xdecimal fill \<Rightarrow> capabilities \<Rightarrow> decimal \<Rightarrow> decimal trading" where
  "leg_cost x f caps spread =
     (if is_empty f then Inr 0
      else rbind (entry_cost x caps spread 0 False) (\<lambda>c.
        Inr (dmul (ddiv (total_bps c) BPS) (fill_notional (fill_numbers finite_part f)))))"

text \<open>What is done with the venue's answer; an uncertain one raises out of the cycle.\<close>

definition finish_leg :: "'v carry_venue \<Rightarrow> nat \<Rightarrow> carry_config \<Rightarrow> intent \<Rightarrow> nat \<Rightarrow> carry \<Rightarrow> execution \<Rightarrow> 'v world
    \<Rightarrow> (xdecimal fill \<times> carry) trading \<times> 'v world" where
  "finish_leg V p cfg x i ks answer W =
     (case answer of
       Uncertain \<Rightarrow> (Inl Uncertain_Execution, W)
     | Answered f \<Rightarrow>
         and_then (leg_cost x f (vp_caps (cv_port V)) (kc_spread cfg), W) (\<lambda>cost _.
         let ks' = ks\<lparr>ks_cost := dadd (ks_cost ks) cost\<rparr> in
         if is_empty f then
           and_then (move_order i Rejected (fl_external_id f) (Some ''empty_fill'') W) (\<lambda>_ W'. (Inr (f, ks'), W'))
         else
           (case record_and_apply_fill i p f (in_market_type x) (wd_ledger W, wd_book W) of
              Inl e \<Rightarrow> (Inl e, W)
            | Inr (st, L, B) \<Rightarrow>
                (Inr (f, ks'\<lparr>ks_fees := dadd (ks_fees ks') (finite_part (fl_fee f))\<rparr>), W\<lparr>wd_ledger := L, wd_book := B\<rparr>))))"

definition send_leg :: "'v carry_venue \<Rightarrow> nat \<Rightarrow> carry_config \<Rightarrow> intent \<Rightarrow> carry \<Rightarrow> 'v world \<Rightarrow> (xdecimal fill \<times> carry) trading \<times> 'v world" where
  "send_leg V p cfg x ks W =
     and_then (on_ledger (record_intent p x) W) (\<lambda>i W1.
     and_then (move_order i Submitted None None W1) (\<lambda>_ W2.
     and_then (execute_or_halt (cv_port V) i x W2) (finish_leg V p cfg x i ks)))"

section \<open>A pair\<close>

record pair_execution =
  pe_entity :: nat
  pe_symbol :: string
  pe_spot :: "xdecimal fill"
  pe_perp :: "xdecimal fill"
  pe_own_size :: bool

definition check_pair :: "pair_execution \<Rightarrow> pair_execution trading" where
  "check_pair x =
     rbind (ensure (fl_side (pe_spot x) \<noteq> fl_side (pe_perp x)) Invalid_Value) (\<lambda>_.
     rbind (ensure (\<not> (\<not> pe_own_size x \<and> fl_quantity (pe_spot x) \<noteq> fl_quantity (pe_perp x))) Invalid_Value) (\<lambda>_.
     Inr x))"

definition pair_quantity :: "pair_execution \<Rightarrow> xdecimal" where
  "pair_quantity x = fl_quantity (pe_spot x)"

definition opposite_side :: "side \<Rightarrow> side" where
  "opposite_side s = (if s = Buy then Sell else Buy)"

text \<open>The legs that filled are taken back one by one; the answer is the leg that could not be.\<close>

fun unwind :: "'v carry_venue \<Rightarrow> nat \<Rightarrow> carry_config \<Rightarrow> pair_symbols \<Rightarrow> decimal \<Rightarrow> int \<Rightarrow> (market_type \<times> xdecimal fill) list \<Rightarrow> carry
    \<Rightarrow> 'v world \<Rightarrow> (market_type option \<times> carry) trading \<times> 'v world" where
  "unwind V p cfg sy price as_of [] ks W = (Inr (None, ks), W)"
| "unwind V p cfg sy price as_of ((mt, f) # rest) ks W =
     (if is_empty f then unwind V p cfg sy price as_of rest ks W
      else
        and_then (leg_intent p (cv_name V) (for_market sy mt) mt (opposite_side (fl_side f)) (finite_part (fl_quantity f)) price as_of
            True Role_Unwind, W) (\<lambda>x _.
        and_then (send_leg V p cfg x ks W) (\<lambda>(undone, ks') W'.
        if fl_quantity undone \<noteq> fl_quantity f then (Inr (Some mt, ks'), W')
        else unwind V p cfg sy price as_of rest ks' W')))"

definition leg_order :: "market_type list" where
  "leg_order = [Perpetual, Spot]"

definition leg_side :: "bool \<Rightarrow> market_type \<Rightarrow> side" where
  "leg_side opening mt = (if opening = (mt = Spot) then Buy else Sell)"

text \<open>The legs in their order; the next leg is sized at what this one filled, unless each has a size of its own. The answer
  is whether no leg fell short, and the fills.\<close>

fun send_legs :: "'v carry_venue \<Rightarrow> nat \<Rightarrow> carry_config \<Rightarrow> pair_symbols \<Rightarrow> decimal \<Rightarrow> int \<Rightarrow> bool \<Rightarrow> (market_type \<Rightarrow> decimal) option
    \<Rightarrow> market_type list \<Rightarrow> decimal \<Rightarrow> (market_type \<times> xdecimal fill) list \<Rightarrow> carry \<Rightarrow> 'v world
    \<Rightarrow> (bool \<times> (market_type \<times> xdecimal fill) list \<times> carry) trading \<times> 'v world" where
  "send_legs V p cfg sy price as_of opening own [] quantity filled ks W = (Inr (True, filled, ks), W)"
| "send_legs V p cfg sy price as_of opening own (mt # mts) quantity filled ks W =
     (let q = (case own of Some held \<Rightarrow> held mt | None \<Rightarrow> quantity) in
      and_then (leg_intent p (cv_name V) (for_market sy mt) mt (leg_side opening mt) q price as_of (\<not> opening)
          (if opening then Role_Open else Role_Close), W) (\<lambda>x _.
      and_then (send_leg V p cfg x ks W) (\<lambda>(f, ks') W'.
      if is_empty f \<or> cv_partial V (fl_raw f) then (Inr (False, filled @ [(mt, f)], ks'), W')
      else send_legs V p cfg sy price as_of opening own mts (if own = None then finite_part (fl_quantity f) else q)
        (filled @ [(mt, f)]) ks' W')))"

definition near_own_size :: "(market_type \<Rightarrow> decimal) \<Rightarrow> market_type \<times> xdecimal fill \<Rightarrow> bool" where
  "near_own_size held leg = (let (mt, f) = leg in
     dabs (dsub (finite_part (fl_quantity f)) (held mt)) \<le> dmul PAIR_DUST_FRACTION (dabs (held mt)))"

definition is_neutral :: "(market_type \<Rightarrow> decimal) option \<Rightarrow> (market_type \<times> xdecimal fill) list \<Rightarrow> bool" where
  "is_neutral own filled =
     (case (map_of filled Spot, map_of filled Perpetual) of
        (Some spot, Some perp) \<Rightarrow> fl_side spot \<noteq> fl_side perp
          \<and> (case own of None \<Rightarrow> fl_quantity spot = fl_quantity perp | Some held \<Rightarrow> list_all (near_own_size held) filled)
      | _ \<Rightarrow> False)"

definition trade_pair :: "'v carry_venue \<Rightarrow> nat \<Rightarrow> carry_config \<Rightarrow> pair_symbols \<Rightarrow> nat \<Rightarrow> decimal \<Rightarrow> decimal \<Rightarrow> int \<Rightarrow> bool
    \<Rightarrow> (market_type \<Rightarrow> decimal) option \<Rightarrow> carry \<Rightarrow> 'v world \<Rightarrow> (pair_execution option \<times> market_type option \<times> carry) trading \<times> 'v world" where
  "trade_pair V p cfg sy e quantity price as_of opening own ks W =
     and_then (send_legs V p cfg sy price as_of opening own leg_order quantity [] ks W) (\<lambda>(balanced, filled, ks1) W1.
     if balanced \<and> is_neutral own filled then
       and_then (check_pair \<lparr>pe_entity = e, pe_symbol = sy_asset sy, pe_spot = the (map_of filled Spot),
           pe_perp = the (map_of filled Perpetual), pe_own_size = (own \<noteq> None)\<rparr>, W1) (\<lambda>pair _.
       (Inr (Some pair, None, ks1), W1))
     else
       and_then (unwind V p cfg sy price as_of filled (carry_refuse Pair_Did_Not_Balance ks1) W1) (\<lambda>(halt, ks2) W2.
       (Inr (None, halt, ks2), W2)))"

section \<open>One leg, case by case\<close>

inductive leg_done :: "'v venue_port \<Rightarrow> nat \<Rightarrow> intent \<Rightarrow> 'v world \<Rightarrow> (trading_error + xdecimal fill) \<Rightarrow> 'v world \<Rightarrow> bool" for P p x W where
  Not_Recorded: "leg_done P p x W (Inl e) W"
| Only_Recorded: "record_intent p x (wd_ledger W) = Inr (i, L) \<Longrightarrow> leg_done P p x W (Inl e) (W\<lparr>wd_ledger := L\<rparr>)"
| Failed: "sent P p x W i L a v \<Longrightarrow> leg_done P p x W (Inl e) (W\<lparr>wd_ledger := L, wd_venue := v\<rparr>)"
| Outcome_Lost: "sent P p x W i L a v \<Longrightarrow> transition i Acknowledged ext pl L = Inr L'
    \<Longrightarrow> leg_done P p x W (Inl Uncertain_Execution) (W\<lparr>wd_venue := v, wd_ledger := L'\<rparr>)"
| Declined: "sent P p x W i L (Inr f) v \<Longrightarrow> is_empty f \<Longrightarrow> transition i Rejected (fl_external_id f) pl L = Inr L'
    \<Longrightarrow> leg_done P p x W (Inr f) (W\<lparr>wd_venue := v, wd_ledger := L'\<rparr>)"
| Booked: "sent P p x W i L (Inr f) v \<Longrightarrow> \<not> is_empty f
    \<Longrightarrow> record_and_apply_fill i p f (in_market_type x) (L, wd_book W) = Inr (st, L', B)
    \<Longrightarrow> leg_done P p x W (Inr f) (W\<lparr>wd_venue := v, wd_ledger := L', wd_book := B\<rparr>)"

lemma submitted_sent:
  assumes "record_intent p x (wd_ledger W) = Inr (i, L1)" "transition i Submitted None None L1 = Inr L" "vp_execute P x (wd_venue W) = (a, v)"
  shows "sent P p x W i L a v"
proof -
  from assms(2) obtain row where row: "order_by_id L1 i = Some row" "Submitted \<in> set (LEGAL_TRANSITIONS (od_status row))"
    by (auto elim: transitionE)
  then have "od_status row = Intent" by (cases "od_status row") auto
  with assms row show ?thesis by (auto simp: sent_def)
qed

lemma answered_done:
  assumes "sent (cv_port V) p x W i L (Inr f) v" "finish_leg V p cfg x i ks (Answered f) (W\<lparr>wd_ledger := L, wd_venue := v\<rparr>) = (res, W')"
  shows "leg_done (cv_port V) p x W (map_sum id fst res) W'"
proof (cases "leg_cost x f (vp_caps (cv_port V)) (kc_spread cfg)")
  case (Inl e)
  then show ?thesis using assms by (auto simp: finish_leg_def intro: Failed)
next
  case (Inr cost)
  show ?thesis
  proof (cases "is_empty f")
    case True
    with assms(2) Inr have "and_then (move_order i Rejected (fl_external_id f) (Some ''empty_fill'') (W\<lparr>wd_ledger := L, wd_venue := v\<rparr>))
        (\<lambda>_ W4. (Inr (f, ks\<lparr>ks_cost := dadd (ks_cost ks) cost\<rparr>), W4)) = (res, W')"
      by (simp add: finish_leg_def Let_def)
    then show ?thesis
      using True by (elim and_then_cases move_order_cases) (auto intro: Failed[OF assms(1)] Declined[OF assms(1)])
  next
    case False
    then show ?thesis
      using assms(2) Inr Failed[OF assms(1)] Booked[OF assms(1) False]
      by (cases "record_and_apply_fill i p f (in_market_type x) (L, wd_book W)") (auto simp: finish_leg_def Let_def)
  qed
qed

lemma executed_done:
  assumes "sent (cv_port V) p x W i L a v"
    and "and_then (execute_or_halt (cv_port V) i x (W\<lparr>wd_ledger := L\<rparr>)) (finish_leg V p cfg x i ks) = (res, W')"
  shows "leg_done (cv_port V) p x W (map_sum id fst res) W'"
proof -
  have ask: "vp_execute (cv_port V) x (wd_venue W) = (a, v)" using assms(1) by (auto simp: sent_def)
  have lost: "leg_done (cv_port V) p x W (map_sum id fst res) W'"
    if "and_then (and_then (move_order i Acknowledged ext pl (W\<lparr>wd_ledger := L, wd_venue := v\<rparr>)) (\<lambda>_ W2. (Inr Uncertain, W2)))
      (finish_leg V p cfg x i ks) = (res, W')" for ext pl
    using that by (elim and_then_cases move_order_cases) (auto simp: finish_leg_def intro: Failed[OF assms(1)] Outcome_Lost[OF assms(1)])
  consider e where "a = Inl e" "e \<noteq> Venue_Unavailable" | "a = Inl Venue_Unavailable"
    | f where "a = Inr f" "is_empty f \<and> vp_resting (cv_port V) (fl_raw f)" | f where "a = Inr f" "\<not> (is_empty f \<and> vp_resting (cv_port V) (fl_raw f))"
    by (cases a) auto
  then show ?thesis
  proof cases
    case (1 e)
    then have "execute_or_halt (cv_port V) i x (W\<lparr>wd_ledger := L\<rparr>) = (Inl e, W\<lparr>wd_ledger := L, wd_venue := v\<rparr>)"
      using ask by (cases e) (simp_all add: execute_or_halt_def)
    then show ?thesis using assms(2) by (auto intro: Failed[OF assms(1)])
  next
    case 2
    then show ?thesis using assms(2) ask lost[of None "Some ''execution_uncertain''"] by (simp add: execute_or_halt_def Let_def)
  next
    case (3 f)
    then show ?thesis using assms(2) ask lost[of "fl_external_id f" "Some ''resting''"] by (simp add: execute_or_halt_def Let_def)
  next
    case (4 f)
    then have "execute_or_halt (cv_port V) i x (W\<lparr>wd_ledger := L\<rparr>) = (Inr (Answered f), W\<lparr>wd_ledger := L, wd_venue := v\<rparr>)"
      using ask by (auto simp: execute_or_halt_def)
    with assms 4(1) show ?thesis using answered_done by fastforce
  qed
qed

lemma send_leg_done:
  assumes "send_leg V p cfg x ks W = (res, W')"
  shows "leg_done (cv_port V) p x W (map_sum id fst res) W'"
proof (cases "record_intent p x (wd_ledger W)")
  case (Inl e)
  then show ?thesis using assms by (auto simp: send_leg_def on_ledger_def intro: Not_Recorded)
next
  case (Inr iL)
  obtain i L1 where iL: "iL = (i, L1)" by (cases iL)
  note rec = Inr[unfolded iL]
  show ?thesis
  proof (cases "transition i Submitted None None L1")
    case (Inl e)
    then show ?thesis using assms rec by (auto simp: send_leg_def on_ledger_def move_order_def intro: Only_Recorded)
  next
    case (Inr L)
    obtain a v where "vp_execute (cv_port V) x (wd_venue W) = (a, v)" by fastforce
    from submitted_sent[OF rec Inr this] show ?thesis
      using assms rec Inr by (intro executed_done) (simp_all add: send_leg_def on_ledger_def move_order_def)
  qed
qed

section \<open>What the legs of a pair commit to the book\<close>

definition book_fills :: "nat \<Rightarrow> (market_type \<times> xdecimal fill) list \<Rightarrow> book \<Rightarrow> book trading" where
  "book_fills p = rfold (\<lambda>(mt, f). apply_fill_rows p (fill_numbers finite_part f) mt)"

definition signed_quantity :: "xdecimal fill \<Rightarrow> rat" where
  "signed_quantity f = (if fl_side f = Buy then finite_part (fl_quantity f) else - finite_part (fl_quantity f))"

definition leg_total :: "market_type \<Rightarrow> (market_type \<times> xdecimal fill) list \<Rightarrow> rat" where
  "leg_total mt fs = sum_list (map (\<lambda>(m, f). if m = mt then signed_quantity f else 0) fs)"

text \<open>A fill of a leg: of the symbol of its market, with a finite quantity that is positive unless nothing was filled.\<close>

definition leg_fill :: "pair_symbols \<Rightarrow> market_type \<times> xdecimal fill \<Rightarrow> bool" where
  "leg_fill sy leg \<longleftrightarrow> (let (mt, f) = leg in fl_symbol f = for_market sy mt
     \<and> (is_empty f \<or> is_finite (fl_quantity f) \<and> 0 < finite_part (fl_quantity f)))"

definition filled_legs :: "(market_type \<times> xdecimal fill) list \<Rightarrow> (market_type \<times> xdecimal fill) list" where
  "filled_legs = filter (\<lambda>(mt, f). \<not> is_empty f)"

lemma book_fills_simps [simp]:
  "book_fills p [] B = Inr B"
  "book_fills p ((mt, f) # fs) B = rbind (apply_fill_rows p (fill_numbers finite_part f) mt B) (book_fills p fs)"
  by (simp_all add: book_fills_def)

lemma book_fills_append: "book_fills p (fs @ gs) B = rbind (book_fills p fs B) (book_fills p gs)"
  by (simp add: book_fills_def rfold_append)

lemma leg_total_simps [simp]:
  "leg_total mt [] = 0"
  "leg_total mt ((m, f) # fs) = (if m = mt then signed_quantity f else 0) + leg_total mt fs"
  "leg_total mt (fs @ gs) = leg_total mt fs + leg_total mt gs"
  by (simp_all add: leg_total_def)

lemma filled_legs_simps [simp]:
  "filled_legs [] = []"
  "filled_legs ((mt, f) # fs) = (if is_empty f then filled_legs fs else (mt, f) # filled_legs fs)"
  by (simp_all add: filled_legs_def)

lemma leg_total_filled: "leg_total mt (filled_legs fs) = leg_total mt fs"
  by (induction fs) (auto simp: is_empty_def signed_quantity_def)

lemma leg_intentE:
  assumes "leg_intent p venue symbol mt sd q price as_of reduce role = Inr x"
  obtains "0 < q" "in_symbol x = symbol" "in_market_type x = mt" "in_side x = sd" "in_quantity x = q" "in_venue x = venue"
    "in_key x = leg_key p as_of symbol mt role"
  using assms unfolding leg_intent_def by (auto simp: check_intent_def result_simps)

text \<open>The contract of a venue a pair is traded on: it answers an order with a fill of that order's market and side.\<close>

locale pair_venue = venue_contract P for P :: "'v venue_port" +
  assumes on_order: "fst (vp_execute P x v) = Inr f \<Longrightarrow> fl_side f = in_side x \<and> fl_symbol f = in_symbol x"
begin

lemma done_fill:
  assumes "leg_done P p x W (Inr f) W'"
  shows "fl_side f = in_side x \<and> fl_symbol f = in_symbol x \<and> book_fills p (filled_legs [(in_market_type x, f)]) (wd_book W) = Inr (wd_book W')
    \<and> (is_empty f \<or> is_finite (fl_quantity f) \<and> 0 < finite_part (fl_quantity f))"
  using assms
proof (cases rule: leg_done.cases)
  case (Declined i L v pl L')
  then show ?thesis using on_order[of x "wd_venue W" f] by (auto simp: sent_def)
next
  case (Booked i L v st L' B)
  then have "record_fill i f L = Inr L'" "apply_fill_rows p (fill_numbers finite_part f) (in_market_type x) (wd_book W) = Inr B"
    by (auto simp: record_and_apply_fill_def apply_fill_def result_simps)
  moreover have "check_fill f = Inr f" using sent_fill[OF Booked(2)] .
  ultimately have "is_finite (fl_quantity f) \<and> 0 < finite_part (fl_quantity f)"
    using Booked(3) by (cases "fl_quantity f") (auto simp: record_fill_def is_empty_def check_fill_def result_simps)
  with Booked \<open>apply_fill_rows _ _ _ _ = _\<close> show ?thesis using on_order[of x "wd_venue W" f] by (auto simp: sent_def)
qed

lemma unwind_books:
  assumes "unwind V p cfg sy price as_of fs ks W = (Inr (None, ks'), W')" "cv_port V = P" "list_all (leg_fill sy) fs"
  shows "\<exists>gs. book_fills p gs (wd_book W) = Inr (wd_book W') \<and> (\<forall>mt. leg_total mt gs = - leg_total mt fs)
    \<and> list_all (leg_fill sy) gs \<and> list_all (\<lambda>(mt, f). \<not> is_empty f) gs"
  using assms
proof (induction fs arbitrary: ks W)
  case Nil
  then show ?case by (intro exI[of _ "[]"]) simp
next
  case (Cons leg fs)
  obtain mt f where leg: "leg = (mt, f)" by (cases leg)
  show ?case
  proof (cases "is_empty f")
    case True
    then have "signed_quantity f = 0" by (simp add: signed_quantity_def is_empty_def)
    with Cons True leg show ?thesis by simp
  next
    case False
    with Cons.prems leg obtain x undone ks1 W1 where
      x: "leg_intent p (cv_name V) (for_market sy mt) mt (opposite_side (fl_side f)) (finite_part (fl_quantity f)) price as_of True Role_Unwind = Inr x"
      and sent: "send_leg V p cfg x ks W = (Inr (undone, ks1), W1)" and same: "fl_quantity undone = fl_quantity f"
      and rest: "unwind V p cfg sy price as_of fs ks1 W1 = (Inr (None, ks'), W')"
      by (auto elim!: and_then_cases split: if_splits)
    from x obtain xs: "in_symbol x = for_market sy mt" "in_market_type x = mt" "in_side x = opposite_side (fl_side f)"
      by (rule leg_intentE)
    have d: "leg_done P p x W (Inr undone) W1" using send_leg_done[OF sent] Cons.prems(2) by simp
    note b = done_fill[OF d]
    have undone: "\<not> is_empty undone" using same False by (simp add: is_empty_def)
    have "signed_quantity undone = - signed_quantity f"
      using b xs same by (simp add: signed_quantity_def opposite_side_def)
    moreover from Cons.IH[OF rest Cons.prems(2)] Cons.prems(3) obtain gs where
      gs: "book_fills p gs (wd_book W1) = Inr (wd_book W')" "\<forall>mt. leg_total mt gs = - leg_total mt fs"
        "list_all (leg_fill sy) gs" "list_all (\<lambda>(mt, f). \<not> is_empty f) gs" by auto
    moreover have "leg_fill sy (mt, undone)" using b xs undone by (simp add: leg_fill_def)
    moreover have "book_fills p ((mt, undone) # gs) (wd_book W) = Inr (wd_book W')"
      using b xs undone gs(1) by (auto simp: rbind_eq_Inr)
    ultimately show ?thesis using undone leg by (intro exI[of _ "(mt, undone) # gs"]) simp
  qed
qed

lemma send_legs_books:
  assumes "send_legs V p cfg sy price as_of opening own mts q filled ks W = (Inr (ok, filled', ks'), W')" "cv_port V = P"
  shows "\<exists>new. filled' = filled @ new \<and> book_fills p (filled_legs new) (wd_book W) = Inr (wd_book W') \<and> list_all (leg_fill sy) new
    \<and> list_all (\<lambda>(mt, f). fl_side f = leg_side opening mt) new \<and> (ok \<longrightarrow> map fst new = mts \<and> filled_legs new = new)"
  using assms
proof (induction mts arbitrary: q filled ks W)
  case Nil
  then show ?case by simp
next
  case (Cons mt mts)
  let ?q = "case own of Some held \<Rightarrow> held mt | None \<Rightarrow> q"
  from Cons.prems obtain x f ks1 W1 where
    x: "leg_intent p (cv_name V) (for_market sy mt) mt (leg_side opening mt) ?q price as_of (\<not> opening) (if opening then Role_Open else Role_Close) = Inr x"
    and sent: "send_leg V p cfg x ks W = (Inr (f, ks1), W1)"
    and rest: "(if is_empty f \<or> cv_partial V (fl_raw f) then (Inr (False, filled @ [(mt, f)], ks1), W1)
      else send_legs V p cfg sy price as_of opening own mts (if own = None then finite_part (fl_quantity f) else ?q) (filled @ [(mt, f)]) ks1 W1)
      = (Inr (ok, filled', ks'), W')"
    by (auto simp: Let_def elim!: and_then_cases)
  from x obtain xs: "in_symbol x = for_market sy mt" "in_market_type x = mt" "in_side x = leg_side opening mt"
    by (rule leg_intentE)
  have d: "leg_done P p x W (Inr f) W1" using send_leg_done[OF sent] Cons.prems(2) by simp
  note b = done_fill[OF d, unfolded xs]
  have leg: "leg_fill sy (mt, f)" using b by (simp add: leg_fill_def)
  show ?case
  proof (cases "is_empty f \<or> cv_partial V (fl_raw f)")
    case True
    then show ?thesis using rest b leg by (intro exI[of _ "[(mt, f)]"]) auto
  next
    case False
    with rest have "send_legs V p cfg sy price as_of opening own mts (if own = None then finite_part (fl_quantity f) else ?q)
        (filled @ [(mt, f)]) ks1 W1 = (Inr (ok, filled', ks'), W')" by simp
    from Cons.IH[OF this Cons.prems(2)] obtain new where
      "filled' = (filled @ [(mt, f)]) @ new" "book_fills p (filled_legs new) (wd_book W1) = Inr (wd_book W')" "list_all (leg_fill sy) new"
      "list_all (\<lambda>(mt, f). fl_side f = leg_side opening mt) new" "ok \<longrightarrow> map fst new = mts \<and> filled_legs new = new" by auto
    with False b leg show ?thesis by (intro exI[of _ "(mt, f) # new"]) (auto simp: rbind_eq_Inr)
  qed
qed

end

text \<open>The paper venue, opened as \<open>V0\<close>; it has no method for the smallest order.\<close>

definition paper_carry :: "paper_venue \<Rightarrow> market \<Rightarrow> paper_venue carry_venue" where
  "paper_carry V0 M = \<lparr>cv_port = paper_port (pv_name V0) (pv_caps V0) M, cv_symbol_for = (\<lambda>asset mt. Inr (symbol_for V0 asset mt)),
     cv_aliases = Some (\<lambda>_ _. []), cv_partial = (\<lambda>raw. raw = ''partial''), cv_credit = Some (\<lambda>symbol amount. credit_funding symbol (Some (Fin amount))),
     cv_minimum = None\<rparr>"

lemma paper_fill_order: "paper_execute M x V = Inr (f, V') \<Longrightarrow> fl_side f = in_side x \<and> fl_symbol f = in_symbol x"
  by (erule paper_executeE) (simp_all add: empty_fill_def)

interpretation paper_pair: pair_venue "paper_port name caps M" for name caps M
proof
  show "fst (vp_execute (paper_port name caps M) x V) = Inr f \<Longrightarrow> fl_side f = in_side x \<and> fl_symbol f = in_symbol x" for x V f
    by (fastforce simp: paper_port_def fill_numbers_def dest: paper_fill_order split: sum.splits)
qed

section \<open>One unit\<close>

lemma own_size_near:
  assumes "list_all (near_own_size own) [(Perpetual, q), (Spot, s)]"
  shows "near_own_size own (Perpetual, q)" "near_own_size own (Spot, s)"
  using assms by simp_all

text \<open>C11. A pair is one unit. When a pair is traded without halting the cycle, the fills it has committed to the book are
  either exactly one sale and one purchase in its two markets, of one quantity (closing each leg at its own size: each
  within half a percent of that size), or they cancel out in each market: what filled was taken back in full.\<close>

theorem pair_is_one_unit:
  assumes "pair_venue (cv_port V)" "trade_pair V p cfg sy e q price as_of opening own ks W = (Inr (pair, None, ks'), W')"
  shows "\<exists>fs. book_fills p fs (wd_book W) = Inr (wd_book W') \<and> list_all (leg_fill sy) fs
    \<and> (case pair of
         None \<Rightarrow> leg_total Spot fs = 0 \<and> leg_total Perpetual fs = 0
       | Some x \<Rightarrow> fs = [(Perpetual, pe_perp x), (Spot, pe_spot x)]
           \<and> fl_side (pe_spot x) = (if opening then Buy else Sell) \<and> fl_side (pe_perp x) = (if opening then Sell else Buy)
           \<and> (own = None \<longrightarrow> leg_total Spot fs + leg_total Perpetual fs = 0)
           \<and> (\<forall>held. own = Some held \<longrightarrow> list_all (near_own_size held) fs))"
proof -
  from assms(2) obtain ok filled ks1 W1 where
    legs: "send_legs V p cfg sy price as_of opening own leg_order q [] ks W = (Inr (ok, filled, ks1), W1)"
    and rest: "(if ok \<and> is_neutral own filled then
       and_then (check_pair \<lparr>pe_entity = e, pe_symbol = sy_asset sy, pe_spot = the (map_of filled Spot),
           pe_perp = the (map_of filled Perpetual), pe_own_size = (own \<noteq> None)\<rparr>, W1) (\<lambda>pair _. (Inr (Some pair, None, ks1), W1))
     else and_then (unwind V p cfg sy price as_of filled (carry_refuse Pair_Did_Not_Balance ks1) W1) (\<lambda>(halt, ks2) W2.
       (Inr (None, halt, ks2), W2))) = (Inr (pair, None, ks'), W')"
    unfolding trade_pair_def by (auto elim!: and_then_cases)
  from pair_venue.send_legs_books[OF assms(1) legs] have b: "book_fills p (filled_legs filled) (wd_book W) = Inr (wd_book W1)"
    "list_all (leg_fill sy) filled" "list_all (\<lambda>(mt, f). fl_side f = leg_side opening mt) filled"
    "ok \<longrightarrow> map fst filled = leg_order \<and> filled_legs filled = filled" by auto
  show ?thesis
  proof (cases "ok \<and> is_neutral own filled")
    case True
    with b(4) obtain f g where fg: "filled = [(Perpetual, f), (Spot, g)]" by (auto simp: leg_order_def map_eq_Cons_conv)
    with True rest have x: "pair = Some \<lparr>pe_entity = e, pe_symbol = sy_asset sy, pe_spot = g, pe_perp = f, pe_own_size = (own \<noteq> None)\<rparr>"
      "W' = W1" by (auto simp: check_pair_def result_simps elim!: and_then_cases)
    have n: "fl_side g \<noteq> fl_side f" "own = None \<Longrightarrow> fl_quantity g = fl_quantity f" "own = Some held \<Longrightarrow> list_all (near_own_size held) filled" for held
      using True fg by (auto simp: is_neutral_def)
    have sides: "fl_side g = (if opening then Buy else Sell)" "fl_side f = (if opening then Sell else Buy)"
      using b(3) fg by (simp_all add: leg_side_def)
    have "leg_total Spot filled + leg_total Perpetual filled = 0" if "own = None"
      using n(2)[OF that] sides fg by (simp add: signed_quantity_def)
    then show ?thesis using True b fg x n sides by (intro exI[of _ filled]) auto
  next
    case False
    with rest obtain ks2 where u: "pair = None" "unwind V p cfg sy price as_of filled (carry_refuse Pair_Did_Not_Balance ks1) W1 = (Inr (None, ks2), W')"
      by (auto elim!: and_then_cases)
    from pair_venue.unwind_books[OF assms(1) u(2) refl b(2)] obtain gs where
      gs: "book_fills p gs (wd_book W1) = Inr (wd_book W')" "\<forall>mt. leg_total mt gs = - leg_total mt filled" "list_all (leg_fill sy) gs"
      by auto
    have "list_all (leg_fill sy) (filled_legs filled)" using b(2) by (auto simp: filled_legs_def list_all_iff)
    then show ?thesis using u(1) b(1) gs by (intro exI[of _ "filled_legs filled @ gs"]) (simp add: book_fills_append leg_total_filled)
  qed
qed

section \<open>A venue that fills lots\<close>

definition lot_fill :: "intent \<Rightarrow> decimal \<Rightarrow> string \<Rightarrow> xdecimal fill" where
  "lot_fill x q raw = \<lparr>fl_intent_id = in_key x, fl_venue = in_venue x, fl_symbol = in_symbol x, fl_side = in_side x,
     fl_quantity = Fin q, fl_price = Fin 1, fl_fee = Fin 0, fl_at = 2, fl_aware = True, fl_external_id = None, fl_raw = raw\<rparr>"

text \<open>It fills at most 5 of an order, at the price 1; its state is the number of orders it has seen.\<close>

definition lot_view :: "nat \<Rightarrow> venue_view" where
  "lot_view n = paper_view (sample_venue\<lparr>pv_balances := []\<rparr>)"

definition lot_port :: "nat venue_port" where
  "lot_port = \<lparr>vp_name = ''v'', vp_caps = sample_caps, vp_view = lot_view,
     vp_execute = (\<lambda>x n. (Inr (if 5 < in_quantity x then lot_fill x 5 ''partial'' else lot_fill x (max 0 (in_quantity x)) []), Suc n)),
     vp_resting = (\<lambda>_. False)\<rparr>"

definition lot_venue :: "nat carry_venue" where
  "lot_venue = \<lparr>cv_port = lot_port, cv_symbol_for = (\<lambda>asset mt. Inr (Some asset)), cv_aliases = None,
     cv_partial = (\<lambda>raw. raw = ''partial''), cv_credit = None, cv_minimum = None\<rparr>"

interpretation lots: pair_venue lot_port
  by unfold_locales (auto simp: lot_port_def lot_fill_def check_fill_def max_def split: if_splits)

definition lot_config :: carry_config where
  "lot_config = \<lparr>kc_enter = 2, kc_exit = 3, kc_notional = 5, kc_funding_venue = ''b'', kc_spread = 0, kc_tolerance = 1,
     kc_policy = \<lparr>kp_gross = 100, kp_loss = 1 / 10, kp_drawdown = 1 / 5\<rparr>, kc_lookback = 7, kc_minimum = 2\<rparr>"

definition lot_pair :: pair_symbols where
  "lot_pair = \<lparr>sy_asset = ''B'', sy_spot = ''B'', sy_perp = ''B''\<rparr>"

definition lot_book :: book where
  "lot_book = \<lparr>bk_portfolios = [\<lparr>pf_id = 0, pf_user = 1, pf_name = ''c'', pf_base = ''U''\<rparr>], bk_positions = [],
     bk_cash = [], bk_navs = [], bk_funding = [], bk_next = 8, bk_now = 0\<rparr>"

definition lot_world :: "nat world" where
  "lot_world = \<lparr>wd_ledger = empty_ledger, wd_book = lot_book, wd_results = \<lparr>rs_results = [], rs_findings = [], rs_next = 0\<rparr>, wd_venue = 0\<rparr>"

definition lot_trade :: "decimal \<Rightarrow> (pair_execution option \<times> market_type option \<times> carry) trading \<times> nat world" where
  "lot_trade q = trade_pair lot_venue 0 lot_config lot_pair 1 q 1 3 True None start_carry lot_world"

lemma trade_outcome:
  "(case r of (Inr (a, h, ks), W) \<Rightarrow> Q a h ks W | (Inl e, W) \<Rightarrow> False) \<Longrightarrow> \<exists>a h ks W. r = (Inr (a, h, ks), W) \<and> Q a h ks W"
  by (cases r; cases "fst r") auto

lemma lot_trade_whole:
  "\<exists>x ks W. lot_trade 5 = (Inr (Some x, None, ks), W) \<and> fl_quantity (pe_spot x) = Fin 5 \<and> map ps_quantity (bk_positions (wd_book W)) = [-5, 5]"
proof -
  have "case lot_trade 5 of (Inr (a, h, ks), W) \<Rightarrow> h = None \<and> map ps_quantity (bk_positions (wd_book W)) = [-5, 5]
      \<and> (case a of Some x \<Rightarrow> fl_quantity (pe_spot x) = Fin 5 | None \<Rightarrow> False) | (Inl e, W) \<Rightarrow> False" by code_simp
  from trade_outcome[OF this] show ?thesis by (auto split: option.splits)
qed

lemma lot_trade_partial:
  "\<exists>ks W. lot_trade 8 = (Inr (None, None, ks), W) \<and> bk_positions (wd_book W) = []"
proof -
  have "case lot_trade 8 of (Inr (a, h, ks), W) \<Rightarrow> h = None \<and> bk_positions (wd_book W) = []
      \<and> (case a of Some x \<Rightarrow> False | None \<Rightarrow> True) | (Inl e, W) \<Rightarrow> False" by code_simp
  from trade_outcome[OF this] show ?thesis by (auto split: option.splits)
qed

lemma pair_is_one_unit_witness:
  "(\<exists>W fs. book_fills 0 fs lot_book = Inr W \<and> leg_total Spot fs + leg_total Perpetual fs = 0 \<and> map ps_quantity (bk_positions W) = [-5, 5])
    \<and> (\<exists>W fs. book_fills 0 fs lot_book = Inr W \<and> leg_total Perpetual fs = 0 \<and> bk_positions W = [])"
proof -
  have v: "pair_venue (cv_port lot_venue)" by (simp add: lot_venue_def lots.pair_venue_axioms)
  obtain x ks W where one: "lot_trade 5 = (Inr (Some x, None, ks), W)" "map ps_quantity (bk_positions (wd_book W)) = [-5, 5]"
    using lot_trade_whole by auto
  obtain ks' W' where two: "lot_trade 8 = (Inr (None, None, ks'), W')" "bk_positions (wd_book W') = []" using lot_trade_partial by blast
  have book: "wd_book lot_world = lot_book" by (simp add: lot_world_def)
  from pair_is_one_unit[OF v one(1)[unfolded lot_trade_def], unfolded book option.case]
  obtain fs where "book_fills 0 fs lot_book = Inr (wd_book W)" "leg_total Spot fs + leg_total Perpetual fs = 0"
    by (elim exE conjE) (rule that, assumption, simp only: simp_thms)
  then have "\<exists>W fs. book_fills 0 fs lot_book = Inr W \<and> leg_total Spot fs + leg_total Perpetual fs = 0 \<and> map ps_quantity (bk_positions W) = [-5, 5]"
    using one(2) by (intro exI conjI)
  moreover from pair_is_one_unit[OF v two(1)[unfolded lot_trade_def], unfolded book] two(2)
  have "\<exists>W fs. book_fills 0 fs lot_book = Inr W \<and> leg_total Perpetual fs = 0 \<and> bk_positions W = []" by auto
  ultimately show ?thesis ..
qed

end
