(* ===== verification/Carry_Cycle.thy ===== *)
theory Carry_Cycle
  imports Carry_Pair
begin

text \<open>
  One rebalance of the carry book, \<open>run_carry_cycle\<close> of \<open>src/omni/trading/carry_loop.py\<close>, and the closing of the whole
  book, \<open>wind_down_book\<close>: the gates in their order, the settlement of funding, the exits and entries, and the result with
  its checks. The world is the one of \<open>Trading_Cycle\<close>; the desk is what is read of the analysis side. Left out: the texts
  of halts and the alert pass, which cannot raise.

  The lemmas show what each gate stops, that a finished cycle leaves only pairs, that a decided leg is sent once, and where a
  partial fill or another spelling of a symbol defeats a gate.
\<close>

section \<open>Risk\<close>

datatype carry_failure = Nav_Unmeasurable | Authority_Exceeds | Gross_Exceeds | Daily_Loss | Drawdown

definition day_start :: "int \<Rightarrow> int" where
  "day_start t = t - t mod DAY_MICROS"

definition carry_failures :: "portfolio_state \<Rightarrow> carry_config \<Rightarrow> decimal \<Rightarrow> decimal \<Rightarrow> carry_failure list" where
  "carry_failures book cfg realised peak =
     (let pol = kc_policy cfg; nav = st_nav book in
      [x \<leftarrow> [Authority_Exceeds]. kp_gross pol < dmul (dmul 2 (of_int (kc_enter cfg))) (kc_notional cfg)]
      @ [x \<leftarrow> [Gross_Exceeds]. kp_gross pol < gross_exposure book]
      @ [x \<leftarrow> [Daily_Loss]. realised < 0 \<and> dmul (kp_loss pol) nav < dneg realised]
      @ [x \<leftarrow> [Drawdown]. kp_drawdown pol < ddiv (dsub peak nav) peak])"

definition carry_risk :: "nat \<Rightarrow> portfolio_state \<Rightarrow> carry_config \<Rightarrow> int \<Rightarrow> 'v world \<Rightarrow> carry_failure list trading" where
  "carry_risk p book cfg as_of W =
     (if st_nav book \<le> 0 then Inr [Nav_Unmeasurable]
      else rbind (realised_pnl p (day_start as_of) as_of (wd_ledger W, wd_book W)) (\<lambda>realised.
        Inr (carry_failures book cfg realised (peak_nav p (wd_book W) (st_nav book)))))"

section \<open>Results\<close>

datatype carry_halt = Book_Not_Paired "(string \<times> legs) list" | Unwind_Failed market_type | Venue_Disagrees "discrepancy list" bool
  | Risk_Policy "carry_failure list" | Unresolved_Pair "string list" | Accrual_Incomplete

record carry_result =
  ct_as_of :: int
  ct_held :: "nat set"
  ct_opened :: "pair_execution list"
  ct_closed :: "pair_execution list"
  ct_funding :: "funding_accrual list"
  ct_collected :: decimal
  ct_cost :: decimal
  ct_fees :: decimal
  ct_refused :: "(carry_refusal \<times> nat) list"
  ct_abstention :: "abstention option"
  ct_halted :: bool
  ct_reason :: "carry_halt option"
  ct_settled :: "int option"

definition accrued_amounts :: "funding_accrual list \<Rightarrow> decimal list" where
  "accrued_amounts funding = List.map_filter (\<lambda>a. if fa_outcome a = Accrued then fa_amount a else None) funding"

definition check_result :: "carry_result \<Rightarrow> carry_result trading" where
  "check_result r =
     rbind (ensure (\<not> (ct_halted r \<and> ct_reason r = None)) Invalid_Value) (\<lambda>_.
     rbind (ensure (\<not> (case ct_settled r of Some t \<Rightarrow> t \<noteq> ct_as_of r | None \<Rightarrow> False)) Invalid_Value) (\<lambda>_.
     rbind (ensure (\<not> (\<not> ct_halted r \<and> ct_reason r \<noteq> None)) Invalid_Value) (\<lambda>_.
     rbind (ensure (\<not> (ct_abstention r \<noteq> None \<and> (ct_opened r \<noteq> [] \<or> ct_closed r \<noteq> []))) Invalid_Value) (\<lambda>_.
     rbind (ensure (ct_collected r = dsum (accrued_amounts (ct_funding r))) Invalid_Value) (\<lambda>_.
     Inr r)))))"

definition result_of :: "int \<Rightarrow> nat set \<Rightarrow> carry \<Rightarrow> pair_execution list \<Rightarrow> pair_execution list \<Rightarrow> funding_accrual list \<Rightarrow> abstention option
    \<Rightarrow> carry_halt option \<Rightarrow> bool \<Rightarrow> carry_result trading" where
  "result_of as_of held ks opened closed_pairs funding abstention reason settled = check_result
     \<lparr>ct_as_of = as_of, ct_held = held, ct_opened = opened, ct_closed = closed_pairs, ct_funding = funding,
      ct_collected = dsum (accrued_amounts funding), ct_cost = ks_cost ks, ct_fees = ks_fees ks, ct_refused = ks_refused ks,
      ct_abstention = abstention, ct_halted = (reason \<noteq> None), ct_reason = reason, ct_settled = (if settled then Some as_of else None)\<rparr>"

definition halted_carry :: "int \<Rightarrow> nat set \<Rightarrow> carry \<Rightarrow> funding_accrual list \<Rightarrow> carry_halt \<Rightarrow> carry_result trading" where
  "halted_carry as_of held ks funding h = result_of as_of held ks [] [] funding None (Some h) False"

section \<open>The book at the start\<close>

text \<open>What the cycle reads of the analysis side: the entity table and the claims, and who is asking.\<close>

record carry_desk =
  kd_entities :: "(nat \<times> string option) list"
  kd_claims :: "claim list"
  kd_audience :: "nat option"

definition assets_of :: "(nat \<times> pair_symbols) list \<Rightarrow> (string \<times> nat) list" where
  "assets_of named = fold (\<lambda>(e, sy) d. AList.update (sy_asset sy) e d) named []"

definition held_names :: "(string \<times> nat) list \<Rightarrow> (string \<times> legs) list \<Rightarrow> nat set" where
  "held_names by_asset held = set (List.map_filter (\<lambda>(k, l). if is_pair l then map_of by_asset k else None) held)"

definition unresolved :: "(string \<times> nat) list \<Rightarrow> (string \<times> legs) list \<Rightarrow> string list" where
  "unresolved by_asset held = sort (map fst (filter (\<lambda>(k, l). is_pair l \<and> map_of by_asset k = None) held))"

definition named_legs :: "(string \<times> legs) list \<Rightarrow> string list \<Rightarrow> (string \<times> legs) list" where
  "named_legs held ks = List.map_filter (\<lambda>k. map_option (Pair k) (map_of held k)) ks"

text \<open>The names of the universe, the book and its legs by asset.\<close>

definition open_book :: "'v carry_venue \<Rightarrow> nat \<Rightarrow> carry_desk \<Rightarrow> nat list \<Rightarrow> 'v world
    \<Rightarrow> ((nat \<times> pair_symbols) list \<times> (string \<times> string) list \<times> portfolio_state \<times> (string \<times> legs) list) trading" where
  "open_book V p dk ids W =
     rbind (symbols_of V (kd_entities dk) ids) (\<lambda>named.
     rbind (pairing_map named V) (\<lambda>asset_of.
     rbind (load p (wd_book W)) (\<lambda>book.
     Inr (named, asset_of, book, legs_by_asset book (cv_name V) asset_of))))"

section \<open>Funding\<close>

text \<open>A settlement with its mark.\<close>

definition value_settlements :: "carry_desk \<Rightarrow> string \<Rightarrow> (int \<times> nat \<times> decimal) list \<Rightarrow> (int \<times> nat \<times> decimal \<times> decimal) list" where
  "value_settlements dk venue due =
     List.map_filter (\<lambda>(t, e, rate). map_option (\<lambda>mark. (t, e, rate, mark)) (price_at (kd_audience dk) e t venue (kd_claims dk))) due"

definition refuse_times :: "nat \<Rightarrow> carry_refusal \<Rightarrow> carry \<Rightarrow> carry" where
  "refuse_times n reason = (carry_refuse reason ^^ n)"

text \<open>One settlement: the book accrues it, and a venue that can be told is told.\<close>

definition settle_one :: "'v carry_venue \<Rightarrow> nat \<Rightarrow> (nat \<times> pair_symbols) list \<Rightarrow> int \<times> nat \<times> decimal \<times> decimal \<Rightarrow> 'v world
    \<Rightarrow> funding_accrual trading \<times> 'v world" where
  "settle_one V p named s W =
     (let (t, e, rate, mark) = s in
      and_then (option_result Key_Error (map_of named e), W) (\<lambda>sy _.
      case apply_funding p (cv_name V) (sy_perp sy) t True (Fin rate) (Fin mark) (wd_book W) of
        Inl err \<Rightarrow> (Inl err, W)
      | Inr (a, B) \<Rightarrow>
          let W1 = W\<lparr>wd_book := B\<rparr> in
          (case (cv_credit V, fa_outcome a, fa_amount a) of
             (Some credit, Accrued, Some amount) \<Rightarrow>
               (case credit (sy_perp sy) amount (wd_venue W1) of Inl err \<Rightarrow> (Inl err, W1) | Inr v \<Rightarrow> (Inr a, W1\<lparr>wd_venue := v\<rparr>))
           | _ \<Rightarrow> (Inr a, W1))))"

fun settle_funding :: "'v carry_venue \<Rightarrow> nat \<Rightarrow> (nat \<times> pair_symbols) list \<Rightarrow> (int \<times> nat \<times> decimal \<times> decimal) list \<Rightarrow> 'v world
    \<Rightarrow> funding_accrual list trading \<times> 'v world" where
  "settle_funding V p named [] W = (Inr [], W)"
| "settle_funding V p named (s # ss) W =
     and_then (settle_one V p named s W) (\<lambda>a W1. and_then (settle_funding V p named ss W1) (\<lambda>as W2. (Inr (a # as), W2)))"

section \<open>Exits and entries\<close>

definition own_sizes :: "legs \<Rightarrow> market_type \<Rightarrow> decimal" where
  "own_sizes l mt = (if mt = Spot then lg_spot l else dneg (lg_perp l))"

text \<open>One name of the decision: its symbols, its price, its trade. \<open>size\<close> gives the quantity and the sizes of the legs.\<close>

definition trade_name :: "'v carry_venue \<Rightarrow> nat \<Rightarrow> carry_config \<Rightarrow> carry_desk \<Rightarrow> int \<Rightarrow> (nat \<times> pair_symbols) list \<Rightarrow> bool
    \<Rightarrow> (pair_symbols \<Rightarrow> decimal \<Rightarrow> (decimal \<times> (market_type \<Rightarrow> decimal) option) trading)
    \<Rightarrow> nat \<Rightarrow> carry \<times> pair_execution list \<Rightarrow> 'v world \<Rightarrow> ((carry \<times> pair_execution list) \<times> market_type option) trading \<times> 'v world" where
  "trade_name V p cfg dk as_of named opening sized e st W =
     (let (ks, pairs) = st in
      case map_of named e of
        None \<Rightarrow> (Inr ((carry_refuse Unlisted ks, pairs), None), W)
      | Some sy \<Rightarrow>
          (case price_at (kd_audience dk) e as_of (cv_name V) (kd_claims dk) of
             None \<Rightarrow> (Inr ((carry_refuse No_Reference_Price ks, pairs), None), W)
           | Some price \<Rightarrow>
               and_then (sized sy price, W) (\<lambda>(quantity, own) _.
               and_then (trade_pair V p cfg sy e quantity price as_of opening own ks W) (\<lambda>(pair, h, ks') W'.
               (Inr ((ks', (case pair of None \<Rightarrow> pairs | Some x \<Rightarrow> pairs @ [x])), h), W')))))"

definition held_size :: "(string \<times> legs) list \<Rightarrow> pair_symbols \<Rightarrow> decimal \<Rightarrow> (decimal \<times> (market_type \<Rightarrow> decimal) option) trading" where
  "held_size held sy price =
     rbind (option_result Key_Error (map_of held (sy_asset sy))) (\<lambda>l. Inr (lg_spot l, Some (own_sizes l)))"

definition entry_size :: "carry_config \<Rightarrow> pair_symbols \<Rightarrow> decimal \<Rightarrow> (decimal \<times> (market_type \<Rightarrow> decimal) option) trading" where
  "entry_size cfg sy price = Inr (ddiv (kc_notional cfg) price, None)"

definition sorted_names :: "nat set \<Rightarrow> nat list" where
  "sorted_names = sorted_list_of_set"

section \<open>The cycle\<close>

text \<open>After the decision: no order may be unsettled, exits come before entries, and the book is read again.\<close>

definition trade_basket :: "'v carry_venue \<Rightarrow> nat \<Rightarrow> carry_config \<Rightarrow> carry_desk \<Rightarrow> int \<Rightarrow> (nat \<times> pair_symbols) list \<Rightarrow> (string \<times> legs) list
    \<Rightarrow> basket_decision \<Rightarrow> carry \<Rightarrow> 'v world
    \<Rightarrow> (carry \<times> pair_execution list \<times> pair_execution list \<times> market_type option) trading \<times> 'v world" where
  "trade_basket V p cfg dk as_of named held_legs d ks W =
     (if unsettled_orders (wd_ledger W) p \<noteq> [] then (Inl Uncertain_Execution, W)
      else
        and_then (cycle_rows (trade_name V p cfg dk as_of named False (held_size held_legs)) (sorted_names (bd_exited d)) (ks, []) W)
          (\<lambda>((ks1, exits), h) W1.
        if h \<noteq> None then (Inr (ks1, [], exits, h), W1)
        else
          and_then (cycle_rows (trade_name V p cfg dk as_of named True (entry_size cfg)) (sorted_names (bd_entered d)) (ks1, []) W1)
            (\<lambda>((ks2, entries), h2) W2. (Inr (ks2, entries, exits, h2), W2))))"

definition final_reason :: "market_type option \<Rightarrow> (string \<times> legs) list \<Rightarrow> carry_halt option" where
  "final_reason h held =
     (case h of Some mt \<Rightarrow> Some (Unwind_Failed mt)
      | None \<Rightarrow> if unpaired held \<noteq> [] then Some (Book_Not_Paired (named_legs held (unpaired held))) else None)"

text \<open>From the settled funding to the result.\<close>

definition rebalance :: "'v carry_venue \<Rightarrow> nat \<Rightarrow> carry_config \<Rightarrow> carry_desk \<Rightarrow> nat list \<Rightarrow> int \<Rightarrow> (nat \<times> pair_symbols) list
    \<Rightarrow> (string \<times> string) list \<Rightarrow> (string \<times> legs) list \<Rightarrow> nat set \<Rightarrow> funding_accrual list \<Rightarrow> carry \<Rightarrow> 'v world \<Rightarrow> carry_result trading \<times> 'v world" where
  "rebalance V p cfg dk ids as_of named asset_of held_legs held funding ks W =
     and_then (select_carry_basket (kd_claims dk) ids (kd_audience dk) as_of held (kc_enter cfg) (kc_exit cfg)
         (kc_funding_venue cfg) (kc_lookback cfg) (kc_minimum cfg), W) (\<lambda>d _.
     case bd_abstention d of
       Some why \<Rightarrow> (result_of as_of held ks [] [] funding (Some why) None True, W)
     | None \<Rightarrow>
         and_then (trade_basket V p cfg dk as_of named held_legs d ks W) (\<lambda>(ks1, entries, exits, h) W1.
         and_then (load p (wd_book W1), W1) (\<lambda>book _.
         let final = legs_by_asset book (cv_name V) asset_of in
         (result_of as_of (held_names (assets_of named) final) ks1 entries exits funding None (final_reason h final) True, W1))))"

definition fund_and_rebalance :: "'v carry_venue \<Rightarrow> nat \<Rightarrow> carry_config \<Rightarrow> carry_desk \<Rightarrow> nat list \<Rightarrow> int \<Rightarrow> int \<Rightarrow> (nat \<times> pair_symbols) list
    \<Rightarrow> (string \<times> string) list \<Rightarrow> (string \<times> legs) list \<Rightarrow> nat set \<Rightarrow> 'v world \<Rightarrow> carry_result trading \<times> 'v world" where
  "fund_and_rebalance V p cfg dk ids as_of since named asset_of held_legs held W =
     (let due = settlements (sorted_names held) (kd_audience dk) (kc_funding_venue cfg) since as_of (kd_claims dk);
          valued = value_settlements dk (cv_name V) due;
          ks = refuse_times (length due - length valued) No_Mark start_carry in
      if length valued \<noteq> length due then (halted_carry as_of held ks [] Accrual_Incomplete, W)
      else
        and_then (settle_funding V p named valued W) (\<lambda>funding W1.
        if \<not> list_all (\<lambda>a. fa_outcome a \<noteq> No_Position) funding then (halted_carry as_of held ks funding Accrual_Incomplete, W1)
        else rebalance V p cfg dk ids as_of named asset_of held_legs held funding ks W1))"

definition carry_verdict :: "'v carry_venue \<Rightarrow> carry_config \<Rightarrow> int \<Rightarrow> portfolio_state \<Rightarrow> 'v \<Rightarrow> reconciliation trading" where
  "carry_verdict V cfg as_of book v =
     reconcile_venue (map holding_of (st_positions book)) (map funds_of_cash (st_cash_positions book)) (vp_view (cv_port V) v)
       (Some (Fin (kc_tolerance cfg))) as_of True"

definition run_carry_cycle :: "'v carry_venue \<Rightarrow> nat \<Rightarrow> carry_config \<Rightarrow> carry_desk \<Rightarrow> nat list \<Rightarrow> instant \<Rightarrow> instant \<Rightarrow> 'v world
    \<Rightarrow> carry_result trading \<times> 'v world" where
  "run_carry_cycle V p cfg dk ids stamp since W =
     (let as_of = snd stamp in
      if \<not> fst stamp \<or> \<not> fst since \<or> as_of < snd since \<or> ids = [] then (Inl Invalid_Value, W)
      else
        and_then (open_book V p dk ids W, W) (\<lambda>(named, asset_of, book, held_legs) _.
        let by_asset = assets_of named; held = held_names by_asset held_legs; broken = unpaired held_legs;
            lost = unresolved by_asset held_legs in
        if broken \<noteq> [] then (halted_carry as_of held start_carry [] (Book_Not_Paired (named_legs held_legs broken)), W)
        else if lost \<noteq> [] then
          (halted_carry as_of held (refuse_times (length lost) Outside_Universe start_carry) [] (Unresolved_Pair lost), W)
        else
          and_then (carry_risk p book cfg as_of W, W) (\<lambda>failures _.
          if failures \<noteq> [] then (halted_carry as_of held start_carry [] (Risk_Policy failures), W)
          else if \<not> (supports (vp_caps (cv_port V)) Spot \<and> supports (vp_caps (cv_port V)) Perpetual) then (Inl Invalid_Value, W)
          else
            and_then (carry_verdict V cfg as_of book (wd_venue W), W) (\<lambda>v _.
            let (unrecorded, W1) = record_verdict p v W in
            if \<not> rr_reconciled v then
              (halted_carry as_of held start_carry [] (Venue_Disagrees (rr_found v) unrecorded), W1)
            else fund_and_rebalance V p cfg dk ids as_of (snd since) named asset_of held_legs held W1))))"

section \<open>Closing the book\<close>

record ownership =
  ow_venue :: string
  ow_active :: bool
  ow_proof :: bool

text \<open>Of the unpaired names, those that are not dust below the venue's smallest order, and the dust that is named.\<close>

definition dust_check :: "'v carry_venue \<Rightarrow> carry_desk \<Rightarrow> int \<Rightarrow> (nat \<times> pair_symbols) list \<Rightarrow> (string \<times> legs) list \<Rightarrow> string
    \<Rightarrow> string list \<times> carry \<Rightarrow> (string list \<times> carry) trading" where
  "dust_check V dk as_of named held_legs k acc =
     (let (tradeable, ks) = acc; e = map_of (assets_of named) k;
          sy = (case e of None \<Rightarrow> None | Some i \<Rightarrow> map_of named i);
          l = dict_get held_legs k \<lparr>lg_spot = 0, lg_perp = 0\<rparr>;
          quantity = (if lg_spot l \<noteq> 0 then lg_spot l else lg_perp l) in
      rbind (case sy of None \<Rightarrow> Inr None | Some y \<Rightarrow> rbind (option_result Attribute_Error (cv_minimum V)) (\<lambda>m. Inr (m (sy_spot y)))) (\<lambda>minimum.
      let price = (case (e, sy) of (Some i, Some y) \<Rightarrow> price_at (kd_audience dk) i as_of (cv_name V) (kd_claims dk) | _ \<Rightarrow> None);
          dust = (case (price, minimum) of (Some x, Some least) \<Rightarrow> dmul (dabs quantity) x < least | _ \<Rightarrow> False) in
      Inr (if dust then (tradeable, carry_refuse Dust_Below_Minimum ks) else (tradeable @ [k], ks))))"

text \<open>Here a settlement without a mark is skipped, and the others are applied.\<close>

fun settle_known :: "'v carry_venue \<Rightarrow> nat \<Rightarrow> carry_desk \<Rightarrow> (nat \<times> pair_symbols) list \<Rightarrow> (int \<times> nat \<times> decimal) list \<Rightarrow> carry \<Rightarrow> 'v world
    \<Rightarrow> (funding_accrual list \<times> bool \<times> carry) trading \<times> 'v world" where
  "settle_known V p dk named [] ks W = (Inr ([], True, ks), W)"
| "settle_known V p dk named ((t, e, rate) # due) ks W =
     (case price_at (kd_audience dk) e t (cv_name V) (kd_claims dk) of
        None \<Rightarrow> and_then (settle_known V p dk named due (carry_refuse No_Mark ks) W) (\<lambda>(funding, complete, ks') W'.
          (Inr (funding, False, ks'), W'))
      | Some mark \<Rightarrow>
          and_then (settle_one V p named (t, e, rate, mark) W) (\<lambda>a W1.
          and_then (settle_known V p dk named due ks W1) (\<lambda>(funding, complete, ks') W2. (Inr (a # funding, complete, ks'), W2))))"

definition wind_down_book :: "'v carry_venue \<Rightarrow> nat \<Rightarrow> carry_config \<Rightarrow> carry_desk \<Rightarrow> nat list \<Rightarrow> instant \<Rightarrow> int \<Rightarrow> ownership option \<Rightarrow> 'v world
    \<Rightarrow> carry_result trading \<times> 'v world" where
  "wind_down_book V p cfg dk ids stamp since owner W =
     (let as_of = snd stamp in
      if \<not> fst stamp \<or> (case owner of None \<Rightarrow> True | Some o' \<Rightarrow> \<not> ow_active o' \<or> ow_venue o' \<noteq> cv_name V \<or> \<not> ow_proof o')
      then (Inl Invalid_Value, W)
      else
        and_then (open_book V p dk ids W, W) (\<lambda>(named, asset_of, book, held_legs) _.
        let held = held_names (assets_of named) held_legs in
        and_then (rfold (dust_check V dk as_of named held_legs) (unpaired held_legs) ([], start_carry), W) (\<lambda>(tradeable, ks) _.
        if tradeable \<noteq> [] then (halted_carry as_of held ks [] (Book_Not_Paired (named_legs held_legs tradeable)), W)
        else
          and_then (settle_known V p dk named (settlements (sorted_names held) (kd_audience dk) (kc_funding_venue cfg) since as_of
              (kd_claims dk)) ks W) (\<lambda>(funding, complete, ks1) W1.
          and_then (cycle_rows (trade_name V p cfg dk as_of named False (held_size held_legs)) (sorted_names held) (ks1, []) W1)
            (\<lambda>((ks2, exits), h) W2.
          (result_of as_of held ks2 [] exits funding None (map_option Unwind_Failed h) complete, W2))))))"

section \<open>What a cycle may do to the world\<close>

text \<open>The intents a portfolio's carry book sends at an instant: named by their market and role, and only openings may
  increase a position.\<close>

definition carry_intent :: "nat \<Rightarrow> int \<Rightarrow> leg_role set \<Rightarrow> intent \<Rightarrow> bool" where
  "carry_intent p as_of roles x \<longleftrightarrow> (\<exists>role\<in>roles. in_key x = leg_key p as_of (in_symbol x) (in_market_type x) role
     \<and> in_reduce_only x = (role \<noteq> Role_Open) \<and> in_market_type x \<in> {Spot, Perpetual} \<and> 0 < in_quantity x)"

inductive carry_move :: "'v carry_venue \<Rightarrow> nat \<Rightarrow> (intent \<Rightarrow> bool) \<Rightarrow> 'v world \<Rightarrow> 'v world \<Rightarrow> bool" for V p Q where
  Leg: "leg_done (cv_port V) p x W res W' \<Longrightarrow> Q x \<Longrightarrow> carry_move V p Q W W'"
| Accrue: "apply_funding p (cv_name V) symbol t True rate mark (wd_book W) = Inr (a, B) \<Longrightarrow> carry_move V p Q W (W\<lparr>wd_book := B\<rparr>)"
| Tell: "cv_credit V = Some credit \<Longrightarrow> credit symbol amount (wd_venue W) = Inr v \<Longrightarrow> carry_move V p Q W (W\<lparr>wd_venue := v\<rparr>)"
| Verdict: "carry_move V p Q W (snd (record_verdict p v W))"

abbreviation carry_moves :: "'v carry_venue \<Rightarrow> nat \<Rightarrow> (intent \<Rightarrow> bool) \<Rightarrow> 'v world \<Rightarrow> 'v world \<Rightarrow> bool" where
  "carry_moves V p Q \<equiv> (carry_move V p Q)\<^sup>*\<^sup>*"

lemma moves_trans: "carry_moves V p Q W W1 \<Longrightarrow> carry_moves V p Q W1 W2 \<Longrightarrow> carry_moves V p Q W W2"
  by (rule rtranclp_trans)

lemma and_then_moves:
  assumes "and_then m f = (res, W')" "carry_moves V p Q W (snd m)"
    and "\<And>x W1 res W'. m = (Inr x, W1) \<Longrightarrow> f x W1 = (res, W') \<Longrightarrow> carry_moves V p Q W1 W'"
  shows "carry_moves V p Q W W'"
  using assms(1)
proof (cases rule: and_then_cases)
  case (1 e)
  with assms(2) show ?thesis by simp
next
  case (2 x W1)
  with assms(2) have "carry_moves V p Q W W1" by simp
  then show ?thesis using assms(3)[OF 2] by (rule moves_trans)
qed

text \<open>A pure computation moves nothing.\<close>

lemma pure_then_moves:
  assumes "and_then (m, W) f = (res, W')" "\<And>x. m = Inr x \<Longrightarrow> f x W = (res, W') \<Longrightarrow> carry_moves V p Q W W'"
  shows "carry_moves V p Q W W'"
  using assms by (cases m) auto

lemma leg_moves:
  assumes "and_then (leg_intent p (cv_name V) symbol mt sd q price as_of reduce role, W) (\<lambda>x _. and_then (send_leg V p cfg x ks W) f) = (res, W')"
    and "mt \<in> {Spot, Perpetual}" "role \<in> roles" "reduce = (role \<noteq> Role_Open)"
    and "\<And>g ks W1 res W'. f (g, ks) W1 = (res, W') \<Longrightarrow> carry_moves V p (carry_intent p as_of roles) W1 W'"
  shows "carry_moves V p (carry_intent p as_of roles) W W'"
  using assms(1)
proof (rule pure_then_moves)
  fix x
  assume x: "leg_intent p (cv_name V) symbol mt sd q price as_of reduce role = Inr x" and "and_then (send_leg V p cfg x ks W) f = (res, W')"
  have reduce: "in_reduce_only x = reduce" using x by (auto simp: leg_intent_def check_intent_def result_simps)
  from x have "carry_intent p as_of roles x" using assms(2-4) reduce unfolding carry_intent_def by (elim leg_intentE) auto
  then have "carry_moves V p (carry_intent p as_of roles) W (snd (send_leg V p cfg x ks W))"
    by (intro r_into_rtranclp Leg[OF send_leg_done[OF prod.collapse[symmetric]]])
  with \<open>and_then (send_leg V p cfg x ks W) f = (res, W')\<close> show "carry_moves V p (carry_intent p as_of roles) W W'"
  proof (rule and_then_moves)
    fix y W1 res W'
    assume "f y W1 = (res, W')"
    then show "carry_moves V p (carry_intent p as_of roles) W1 W'" using assms(5)[of "fst y" "snd y"] by simp
  qed
qed

lemma unwind_moves:
  assumes "unwind V p cfg sy price as_of fs ks W = (res, W')" "list_all (\<lambda>(mt, f). mt \<in> {Spot, Perpetual}) fs" "Role_Unwind \<in> roles"
  shows "carry_moves V p (carry_intent p as_of roles) W W'"
  using assms
proof (induction fs arbitrary: ks W res W')
  case (Cons leg fs)
  obtain mt f where leg: "leg = (mt, f)" by (cases leg)
  show ?case
  proof (cases "is_empty f")
    case False
    have "and_then (leg_intent p (cv_name V) (for_market sy mt) mt (opposite_side (fl_side f)) (finite_part (fl_quantity f)) price as_of
        True Role_Unwind, W) (\<lambda>x _. and_then (send_leg V p cfg x ks W) (\<lambda>(undone, ks') W'.
        if fl_quantity undone \<noteq> fl_quantity f then (Inr (Some mt, ks'), W') else unwind V p cfg sy price as_of fs ks' W')) = (res, W')"
      using Cons.prems(1) leg False by simp
    then show ?thesis
    proof (rule leg_moves)
      show "mt \<in> {Spot, Perpetual}" "Role_Unwind \<in> roles" using Cons.prems leg by simp_all
      fix g ks W1 res W'
      assume "(\<lambda>(undone, ks') W'. if fl_quantity undone \<noteq> fl_quantity f then (Inr (Some mt, ks'), W')
        else unwind V p cfg sy price as_of fs ks' W') (g, ks) W1 = (res, W')"
      then show "carry_moves V p (carry_intent p as_of roles) W1 W'"
        using Cons.IH[of ks W1 res W'] Cons.prems(2,3) by (auto split: if_splits)
    qed simp
  qed (use Cons leg in simp)
qed simp

lemma send_legs_moves:
  assumes "send_legs V p cfg sy price as_of opening own mts q filled ks W = (res, W')" "set mts \<subseteq> {Spot, Perpetual}"
    and "(if opening then Role_Open else Role_Close) \<in> roles"
  shows "carry_moves V p (carry_intent p as_of roles) W W'"
  using assms
proof (induction mts arbitrary: q filled ks W res W')
  case (Cons mt mts)
  from Cons.prems(1)[unfolded send_legs.simps Let_def] show ?case
    by (rule leg_moves) (use Cons.prems in \<open>auto split: if_splits intro: Cons.IH\<close>)
qed simp

lemma send_legs_markets:
  assumes "send_legs V p cfg sy price as_of opening own mts q filled ks W = (Inr (ok, filled', ks'), W')"
    and "list_all (\<lambda>(mt, f). mt \<in> M) filled" "set mts \<subseteq> M"
  shows "list_all (\<lambda>(mt, f). mt \<in> M) filled'"
  using assms
proof (induction mts arbitrary: q filled ks W)
  case (Cons mt mts)
  let ?q = "\<lambda>f. if own = None then finite_part (fl_quantity f) else case own of Some held \<Rightarrow> held mt | None \<Rightarrow> q"
  from Cons.prems(1) obtain f ks1 W1 where
    rest: "(if is_empty f \<or> cv_partial V (fl_raw f) then (Inr (False, filled @ [(mt, f)], ks1), W1)
      else send_legs V p cfg sy price as_of opening own mts (?q f) (filled @ [(mt, f)]) ks1 W1) = (Inr (ok, filled', ks'), W')"
    by (auto simp: Let_def elim!: and_then_cases)
  have "list_all (\<lambda>(mt, f). mt \<in> M) (filled @ [(mt, f)])" "set mts \<subseteq> M" using Cons.prems(2,3) by simp_all
  with rest show ?case using Cons.IH[of "?q f" "filled @ [(mt, f)]" ks1 W1] by (auto split: if_splits)
qed simp

lemma trade_pair_moves:
  assumes "trade_pair V p cfg sy e q price as_of opening own ks W = (res, W')"
    and "{if opening then Role_Open else Role_Close, Role_Unwind} \<subseteq> roles"
  shows "carry_moves V p (carry_intent p as_of roles) W W'"
  using assms(1) unfolding trade_pair_def
proof (rule and_then_moves)
  let ?legs = "send_legs V p cfg sy price as_of opening own leg_order q [] ks W"
  have order: "set leg_order \<subseteq> {Spot, Perpetual}" by (simp add: leg_order_def)
  show "carry_moves V p (carry_intent p as_of roles) W (snd ?legs)"
    using assms(2) by (intro send_legs_moves[OF prod.collapse[symmetric] order]) simp
  fix x W1 res W'
  assume legs: "?legs = (Inr x, W1)"
    and rest: "(case x of (balanced, filled, ks1) \<Rightarrow> \<lambda>W1.
       if balanced \<and> is_neutral own filled then
         and_then (check_pair \<lparr>pe_entity = e, pe_symbol = sy_asset sy, pe_spot = the (map_of filled Spot),
             pe_perp = the (map_of filled Perpetual), pe_own_size = (own \<noteq> None)\<rparr>, W1) (\<lambda>pair _. (Inr (Some pair, None, ks1), W1))
       else and_then (unwind V p cfg sy price as_of filled (carry_refuse Pair_Did_Not_Balance ks1) W1) (\<lambda>(halt, ks2) W2.
         (Inr (None, halt, ks2), W2))) W1 = (res, W')"
  obtain balanced filled ks1 where x: "x = (balanced, filled, ks1)" by (cases x)
  have "list_all (\<lambda>(mt, f). mt \<in> {Spot, Perpetual}) filled"
    using send_legs_markets[OF legs[unfolded x] _ order] by simp
  note undo = unwind_moves[OF prod.collapse[symmetric] this, where roles = roles]
  show "carry_moves V p (carry_intent p as_of roles) W1 W'"
  proof (cases "balanced \<and> is_neutral own filled")
    case True
    with rest x show ?thesis by (auto elim: and_then_cases)
  next
    case False
    with rest x have "and_then (unwind V p cfg sy price as_of filled (carry_refuse Pair_Did_Not_Balance ks1) W1) (\<lambda>(halt, ks2) W2.
         (Inr (None, halt, ks2), W2)) = (res, W')" by simp
    then show ?thesis by (rule and_then_moves) (use undo assms(2) in auto)
  qed
qed

lemma trade_name_moves:
  assumes "trade_name V p cfg dk as_of named opening sized e st W = (res, W')"
    and "{if opening then Role_Open else Role_Close, Role_Unwind} \<subseteq> roles"
  shows "carry_moves V p (carry_intent p as_of roles) W W'"
proof -
  obtain ks pairs where st: "st = (ks, pairs)" by (cases st)
  show ?thesis
  proof (cases "map_of named e")
    case None
    then show ?thesis using assms(1) st by (simp add: trade_name_def)
  next
    case (Some sy)
    show ?thesis
    proof (cases "price_at (kd_audience dk) e as_of (cv_name V) (kd_claims dk)")
      case None
      then show ?thesis using assms(1) st Some by (simp add: trade_name_def)
    next
      case price: (Some price)
      have "and_then (sized sy price, W) (\<lambda>(quantity, own) _.
          and_then (trade_pair V p cfg sy e quantity price as_of opening own ks W) (\<lambda>(pair, h, ks') W'.
          (Inr ((ks', (case pair of None \<Rightarrow> pairs | Some x \<Rightarrow> pairs @ [x])), h), W'))) = (res, W')"
        using assms(1) st Some price by (simp add: trade_name_def)
      then show ?thesis
      proof (rule pure_then_moves)
        fix z
        assume "(case z of (quantity, own) \<Rightarrow> \<lambda>_. and_then (trade_pair V p cfg sy e quantity price as_of opening own ks W) (\<lambda>(pair, h, ks') W'.
          (Inr ((ks', (case pair of None \<Rightarrow> pairs | Some x \<Rightarrow> pairs @ [x])), h), W'))) W = (res, W')"
        then have "and_then (trade_pair V p cfg sy e (fst z) price as_of opening (snd z) ks W) (\<lambda>(pair, h, ks') W'.
          (Inr ((ks', (case pair of None \<Rightarrow> pairs | Some x \<Rightarrow> pairs @ [x])), h), W')) = (res, W')" by (cases z) simp
        then show "carry_moves V p (carry_intent p as_of roles) W W'"
          by (rule and_then_moves) (use trade_pair_moves[OF prod.collapse[symmetric] assms(2)] in auto)
      qed
    qed
  qed
qed

lemma rows_moves:
  assumes "cycle_rows step rows cy W = (res, W')" "\<And>r cy W res W'. step r cy W = (res, W') \<Longrightarrow> carry_moves V p Q W W'"
  shows "carry_moves V p Q W W'"
  using assms(1)
proof (induction rows arbitrary: cy W res W')
  case (Cons r rows)
  from Cons.prems[unfolded cycle_rows.simps] show ?case
    by (rule and_then_moves) (use assms(2)[OF prod.collapse[symmetric]] Cons.IH in \<open>auto split: prod.splits option.splits\<close>)
qed simp

lemma settle_one_moves:
  assumes "settle_one V p named s W = (res, W')"
  shows "carry_moves V p Q W W'"
proof -
  obtain t e rate mark where s: "s = (t, e, rate, mark)" by (cases s)
  show ?thesis
  proof (cases "map_of named e")
    case None
    then show ?thesis using assms s by (simp add: settle_one_def)
  next
    case (Some sy)
    show ?thesis
    proof (cases "apply_funding p (cv_name V) (sy_perp sy) t True (Fin rate) (Fin mark) (wd_book W)")
      case (Inl err)
      then show ?thesis using assms s Some by (simp add: settle_one_def)
    next
      case (Inr aB)
      obtain a B where aB: "aB = (a, B)" by (cases aB)
      have one: "carry_move V p Q W (W\<lparr>wd_book := B\<rparr>)" using Accrue[OF Inr[unfolded aB]] .
      have two: "carry_move V p Q (W\<lparr>wd_book := B\<rparr>) (W\<lparr>wd_book := B, wd_venue := v\<rparr>)"
        if "cv_credit V = Some credit" "credit symbol amount (wd_venue W) = Inr v" for credit symbol amount v
        using Tell[OF that(1), of symbol amount "W\<lparr>wd_book := B\<rparr>" v] that(2) by simp
      have "W' = W\<lparr>wd_book := B\<rparr> \<or> (\<exists>credit symbol amount v. cv_credit V = Some credit \<and> credit symbol amount (wd_venue W) = Inr v
          \<and> W' = W\<lparr>wd_book := B, wd_venue := v\<rparr>)"
        using assms s Some Inr aB
        by (auto simp: settle_one_def Let_def split: option.splits funding_outcome.splits sum.splits)
      then show ?thesis using one two by (meson converse_rtranclp_into_rtranclp rtranclp.rtrancl_refl)
    qed
  qed
qed

lemma settle_funding_moves:
  assumes "settle_funding V p named ss W = (res, W')"
  shows "carry_moves V p Q W W'"
  using assms
proof (induction ss arbitrary: W res W')
  case (Cons s ss)
  from Cons.prems[unfolded settle_funding.simps] show ?case
  proof (rule and_then_moves)
    fix x W1 res W'
    assume "and_then (settle_funding V p named ss W1) (\<lambda>as W2. (Inr (x # as), W2)) = (res, W')"
    then show "carry_moves V p Q W1 W'" by (rule and_then_moves) (use Cons.IH[OF prod.collapse[symmetric]] in auto)
  qed (rule settle_one_moves[OF prod.collapse[symmetric]])
qed simp

lemma settle_known_moves:
  assumes "settle_known V p dk named due ks W = (res, W')"
  shows "carry_moves V p Q W W'"
  using assms
proof (induction due arbitrary: ks W res W')
  case (Cons d due)
  note IH = Cons.IH[OF prod.collapse[symmetric]]
  obtain t e rate where d: "d = (t, e, rate)" by (cases d)
  show ?case
  proof (cases "price_at (kd_audience dk) e t (cv_name V) (kd_claims dk)")
    case None
    with Cons.prems d have "and_then (settle_known V p dk named due (carry_refuse No_Mark ks) W) (\<lambda>(funding, complete, ks') W'.
          (Inr (funding, False, ks'), W')) = (res, W')" by simp
    then show ?thesis by (rule and_then_moves) (use IH in auto)
  next
    case (Some mark)
    with Cons.prems d have "and_then (settle_one V p named (t, e, rate, mark) W) (\<lambda>a W1.
          and_then (settle_known V p dk named due ks W1) (\<lambda>(funding, complete, ks') W2. (Inr (a # funding, complete, ks'), W2))) = (res, W')"
      by simp
    then show ?thesis
    proof (rule and_then_moves)
      fix x W1 res W'
      assume "and_then (settle_known V p dk named due ks W1) (\<lambda>(funding, complete, ks') W2. (Inr (x # funding, complete, ks'), W2)) = (res, W')"
      then show "carry_moves V p Q W1 W'" by (rule and_then_moves) (use IH in auto)
    qed (rule settle_one_moves[OF prod.collapse[symmetric]])
  qed
qed simp

text \<open>Every gate is passed: the book is read as pairs of the universe, the policy admits it, both markets are supported and
  the venue agrees with it.\<close>

definition gates_open :: "'v carry_venue \<Rightarrow> nat \<Rightarrow> carry_config \<Rightarrow> carry_desk \<Rightarrow> nat list \<Rightarrow> int \<Rightarrow> 'v world \<Rightarrow> (nat \<times> pair_symbols) list
    \<Rightarrow> (string \<times> string) list \<Rightarrow> portfolio_state \<Rightarrow> (string \<times> legs) list \<Rightarrow> reconciliation \<Rightarrow> bool" where
  "gates_open V p cfg dk ids as_of W named asset_of book held_legs v \<longleftrightarrow>
     open_book V p dk ids W = Inr (named, asset_of, book, held_legs) \<and> unpaired held_legs = []
     \<and> unresolved (assets_of named) held_legs = [] \<and> carry_risk p book cfg as_of W = Inr []
     \<and> supports (vp_caps (cv_port V)) Spot \<and> supports (vp_caps (cv_port V)) Perpetual
     \<and> carry_verdict V cfg as_of book (wd_venue W) = Inr v \<and> rr_reconciled v"

definition gates_closed :: "'v carry_venue \<Rightarrow> nat \<Rightarrow> carry_config \<Rightarrow> carry_desk \<Rightarrow> nat list \<Rightarrow> int \<Rightarrow> 'v world \<Rightarrow> bool" where
  "gates_closed V p cfg dk ids as_of W \<longleftrightarrow> (\<nexists>named asset_of book held_legs v. gates_open V p cfg dk ids as_of W named asset_of book held_legs v)"

lemma record_verdict_other [simp]:
  "wd_ledger (snd (record_verdict p v W)) = wd_ledger W" "wd_book (snd (record_verdict p v W)) = wd_book W"
  "wd_venue (snd (record_verdict p v W)) = wd_venue W"
  by (auto simp: record_verdict_def split: sum.splits)

text \<open>What follows once the book is paired and the policy admits it.\<close>

lemma after_risk:
  assumes "run_carry_cycle V p cfg dk ids stamp since W = (res, W')" "fst stamp" "fst since" "snd since \<le> snd stamp" "ids \<noteq> []"
    and "open_book V p dk ids W = Inr (named, asset_of, book, held_legs)" "unpaired held_legs = []"
    and "unresolved (assets_of named) held_legs = []" "carry_risk p book cfg (snd stamp) W = Inr []"
  obtains e where "res = Inl e" "W' = W"
  | v where "carry_verdict V cfg (snd stamp) book (wd_venue W) = Inr v" "\<not> rr_reconciled v" "W' = snd (record_verdict p v W)"
      "res = halted_carry (snd stamp) (held_names (assets_of named) held_legs) start_carry []
         (Venue_Disagrees (rr_found v) (fst (record_verdict p v W)))"
  | v where "gates_open V p cfg dk ids (snd stamp) W named asset_of book held_legs v"
      "fund_and_rebalance V p cfg dk ids (snd stamp) (snd since) named asset_of held_legs (held_names (assets_of named) held_legs)
         (snd (record_verdict p v W)) = (res, W')"
proof (cases "supports (vp_caps (cv_port V)) Spot \<and> supports (vp_caps (cv_port V)) Perpetual")
  case False
  then show thesis using assms by (intro that(1)) (auto simp: run_carry_cycle_def Let_def)
next
  case able: True
  show thesis
  proof (cases "carry_verdict V cfg (snd stamp) book (wd_venue W)")
    case (Inl e)
    then show thesis using assms able by (intro that(1)) (auto simp: run_carry_cycle_def Let_def)
  next
    case (Inr v)
    obtain u W1 where rec: "record_verdict p v W = (u, W1)" by fastforce
    show thesis
    proof (cases "rr_reconciled v")
      case True
      then show thesis using assms able Inr rec by (intro that(3)) (auto simp: run_carry_cycle_def Let_def gates_open_def)
    next
      case False
      then show thesis using assms able Inr rec by (intro that(2)) (auto simp: run_carry_cycle_def Let_def)
    qed
  qed
qed

lemma run_carry_cycle_cases:
  assumes "run_carry_cycle V p cfg dk ids stamp since W = (res, W')"
  obtains (Raised) e where "res = Inl e" "W' = W"
  | (Stopped) held ks h where "res = halted_carry (snd stamp) held ks [] h" "W' = W \<or> (\<exists>v. W' = snd (record_verdict p v W))"
      "gates_closed V p cfg dk ids (snd stamp) W"
  | (Passed) named asset_of book held_legs v where "gates_open V p cfg dk ids (snd stamp) W named asset_of book held_legs v"
      "fund_and_rebalance V p cfg dk ids (snd stamp) (snd since) named asset_of held_legs (held_names (assets_of named) held_legs)
         (snd (record_verdict p v W)) = (res, W')" "snd since \<le> snd stamp" "ids \<noteq> []"
proof (cases "\<not> fst stamp \<or> \<not> fst since \<or> snd stamp < snd since \<or> ids = []")
  case True
  then show thesis using assms Raised by (auto simp: run_carry_cycle_def Let_def)
next
  case valid: False
  show thesis
  proof (cases "open_book V p dk ids W")
    case (Inl e)
    then show thesis using assms valid Raised by (auto simp: run_carry_cycle_def Let_def)
  next
    case (Inr x)
    obtain named asset_of book held_legs where x: "x = (named, asset_of, book, held_legs)" by (cases x)
    note start = Inr[unfolded x]
    have early: thesis if "\<exists>held ks h. res = halted_carry (snd stamp) held ks [] h" "W' = W \<or> (\<exists>v. W' = snd (record_verdict p v W))"
      "\<And>v. \<not> gates_open V p cfg dk ids (snd stamp) W named asset_of book held_legs v"
      using that start Stopped by (auto simp: gates_closed_def gates_open_def)
    show thesis
    proof (cases "unpaired held_legs = [] \<and> unresolved (assets_of named) held_legs = []")
      case False
      then show thesis using assms valid start
        by (intro early) (auto simp: run_carry_cycle_def Let_def gates_open_def split: if_splits)
    next
      case paired: True
      show thesis
      proof (cases "carry_risk p book cfg (snd stamp) W")
        case (Inl e)
        then show thesis using assms valid start paired Raised by (auto simp: run_carry_cycle_def Let_def)
      next
        case risk: (Inr failures)
        show thesis
        proof (cases "failures = []")
          case False
          then show thesis using assms valid start paired risk
            by (intro early) (auto simp: run_carry_cycle_def Let_def gates_open_def)
        next
          case able: True
          have "fst stamp" "fst since" "snd since \<le> snd stamp" "ids \<noteq> []" "unpaired held_legs = []"
            "unresolved (assets_of named) held_legs = []" using valid paired by auto
          from after_risk[OF assms this(1-4) start this(5,6) risk[unfolded able]] show thesis
          proof cases
            case (1 e)
            then show thesis by (rule Raised)
          next
            case (2 v)
            then show thesis by (intro early) (auto simp: gates_open_def)
          next
            case (3 v)
            then show thesis using valid by (intro Passed) auto
          qed
        qed
      qed
    qed
  qed
qed

text \<open>Whatever its outcome, a cycle moves the world only by legs, settlements and the recorded verdict.\<close>

lemma snd_then_moves:
  "carry_moves V p Q W (snd m) \<Longrightarrow> (\<And>x W1. carry_moves V p Q W1 (snd (f x W1))) \<Longrightarrow> carry_moves V p Q W (snd (and_then m f))"
  by (rule and_then_moves[OF prod.collapse[symmetric]]) (metis snd_conv)+

lemma snd_pure_moves: "(\<And>x. carry_moves V p Q W (snd (f x W))) \<Longrightarrow> carry_moves V p Q W (snd (and_then (m, W) f))"
  by (cases m) simp_all

lemma rows_moves_all:
  "{if opening then Role_Open else Role_Close, Role_Unwind} \<subseteq> roles
    \<Longrightarrow> carry_moves V p (carry_intent p as_of roles) W (snd (cycle_rows (trade_name V p cfg dk as_of named opening sized) es st W))"
  by (rule rows_moves[OF prod.collapse[symmetric]]) (rule trade_name_moves)

lemma trade_basket_moves: "carry_moves V p (carry_intent p as_of UNIV) W (snd (trade_basket V p cfg dk as_of named held_legs d ks W))"
proof -
  have rest: "carry_moves V p (carry_intent p as_of UNIV) W1 (snd ((\<lambda>((ks1, exits), h) W1. if h \<noteq> None then (Inr (ks1, [], exits, h), W1)
        else and_then (cycle_rows (trade_name V p cfg dk as_of named True (entry_size cfg)) (sorted_names (bd_entered d)) (ks1, []) W1)
            (\<lambda>((ks2, entries), h2) W2. (Inr (ks2, entries, exits, h2), W2))) x W1))" for x W1
    by (auto split: prod.split intro!: snd_then_moves rows_moves_all)
  show ?thesis
    unfolding trade_basket_def using rest by (auto intro!: snd_then_moves rows_moves_all)
qed

lemma rebalance_moves:
  "carry_moves V p (carry_intent p as_of UNIV) W (snd (rebalance V p cfg dk ids as_of named asset_of held_legs held funding ks W))"
  unfolding rebalance_def
  by (auto simp: Let_def split: option.split intro!: snd_pure_moves snd_then_moves trade_basket_moves)

lemma fund_and_rebalance_moves:
  "carry_moves V p (carry_intent p as_of UNIV) W (snd (fund_and_rebalance V p cfg dk ids as_of since named asset_of held_legs held W))"
  unfolding fund_and_rebalance_def Let_def
  by (auto intro!: snd_then_moves settle_funding_moves[OF prod.collapse[symmetric]] rebalance_moves)

lemma run_carry_cycle_moves:
  assumes "run_carry_cycle V p cfg dk ids stamp since W = (res, W')"
  shows "carry_moves V p (carry_intent p (snd stamp) UNIV) W W'"
  using assms
proof (cases rule: run_carry_cycle_cases)
  case (Stopped held ks h)
  then show ?thesis using Verdict by fastforce
next
  case (Passed named asset_of book held_legs v)
  have "carry_moves V p (carry_intent p (snd stamp) UNIV) W (snd (record_verdict p v W))" using Verdict by fast
  moreover have "carry_moves V p (carry_intent p (snd stamp) UNIV) (snd (record_verdict p v W)) W'"
    using fund_and_rebalance_moves[of V p "snd stamp" "snd (record_verdict p v W)" cfg dk ids "snd since" named asset_of held_legs
      "held_names (assets_of named) held_legs"] Passed(2) by simp
  ultimately show ?thesis by (rule moves_trans)
qed simp

lemma wind_down_moves:
  assumes "wind_down_book V p cfg dk ids stamp since owner W = (res, W')"
  shows "carry_moves V p (carry_intent p (snd stamp) {Role_Close, Role_Unwind}) W W'"
proof -
  let ?Q = "carry_intent p (snd stamp) {Role_Close, Role_Unwind}"
  have "carry_moves V p ?Q W (snd (wind_down_book V p cfg dk ids stamp since owner W))"
    unfolding wind_down_book_def Let_def
    by (auto split: prod.split intro!: snd_pure_moves snd_then_moves rows_moves_all settle_known_moves[OF prod.collapse[symmetric]])
  with assms show ?thesis by simp
qed

end
