(* ===== verification/Carry_Properties.thy ===== *)
theory Carry_Properties
  imports Carry_Cycle
begin

text \<open>
  The properties of the carry book as a whole: what its gates stop, what a result means, what a finished cycle leaves, that a
  decided leg is sent once however rebalances, closings and the directional desk are mixed, and how a settled or an unsettled
  row blocks or opens a gate. The last section runs a book at a venue that fills lots.
\<close>

section \<open>Results\<close>

text \<open>The constructor accepts every result that the loop builds: an abstention comes with no trade.\<close>

lemma result_of_eq:
  assumes "abstention = None \<or> opened = [] \<and> closed_pairs = []"
  shows "result_of as_of held ks opened closed_pairs funding abstention reason settled = Inr
     \<lparr>ct_as_of = as_of, ct_held = held, ct_opened = opened, ct_closed = closed_pairs, ct_funding = funding,
      ct_collected = dsum (accrued_amounts funding), ct_cost = ks_cost ks, ct_fees = ks_fees ks, ct_refused = ks_refused ks,
      ct_abstention = abstention, ct_halted = (reason \<noteq> None), ct_reason = reason, ct_settled = (if settled then Some as_of else None)\<rparr>"
  using assms by (cases reason) (auto simp: result_of_def check_result_def)

lemma halted_carry_eq:
  "halted_carry as_of held ks funding h = Inr
     \<lparr>ct_as_of = as_of, ct_held = held, ct_opened = [], ct_closed = [], ct_funding = funding,
      ct_collected = dsum (accrued_amounts funding), ct_cost = ks_cost ks, ct_fees = ks_fees ks, ct_refused = ks_refused ks,
      ct_abstention = None, ct_halted = True, ct_reason = Some h, ct_settled = None\<rparr>"
  by (simp add: halted_carry_def result_of_eq)

lemma trade_basket_cases:
  assumes "trade_basket V p cfg dk as_of named held_legs d ks W = (Inr (ks', entries, exits, h), W')"
  shows "unsettled_orders (wd_ledger W) p = []"
  using assms by (auto simp: trade_basket_def split: if_splits)

text \<open>A rebalance ends in an error, in an abstention that changes nothing, or after its trades.\<close>

lemma rebalance_cases:
  assumes "rebalance V p cfg dk ids as_of named asset_of held_legs held funding ks W = (res, W')"
  obtains (Raised) e where "res = Inl e" "W' = W \<or> unsettled_orders (wd_ledger W) p = []"
  | (Abstained) r where "res = Inr r" "W' = W" "ct_abstention r \<noteq> None" "ct_opened r = []" "ct_closed r = []" "ct_reason r = None"
      "ct_halted r = False" "ct_as_of r = as_of" "ct_settled r = Some as_of" "ct_funding r = funding" "ct_collected r = dsum (accrued_amounts funding)"
  | (Traded) r book h where "res = Inr r" "ct_abstention r = None" "load p (wd_book W') = Inr book"
      "ct_reason r = final_reason h (legs_by_asset book (cv_name V) asset_of)" "ct_halted r = (ct_reason r \<noteq> None)"
      "ct_held r = held_names (assets_of named) (legs_by_asset book (cv_name V) asset_of)"
      "ct_as_of r = as_of" "ct_settled r = Some as_of" "ct_funding r = funding" "ct_collected r = dsum (accrued_amounts funding)"
      "unsettled_orders (wd_ledger W) p = []"
proof -
  from assms[unfolded rebalance_def] show thesis
  proof (rule and_then_cases)
    fix e
    assume "res = Inl e" "(select_carry_basket (kd_claims dk) ids (kd_audience dk) as_of held (kc_enter cfg) (kc_exit cfg)
         (kc_funding_venue cfg) (kc_lookback cfg) (kc_minimum cfg), W) = (Inl e, W')"
    then show thesis by (intro Raised) auto
  next
    fix d W0
    assume "(select_carry_basket (kd_claims dk) ids (kd_audience dk) as_of held (kc_enter cfg) (kc_exit cfg)
         (kc_funding_venue cfg) (kc_lookback cfg) (kc_minimum cfg), W) = (Inr d, W0)"
      and rest: "(case bd_abstention d of
       Some why \<Rightarrow> (result_of as_of held ks [] [] funding (Some why) None True, W)
     | None \<Rightarrow>
         and_then (trade_basket V p cfg dk as_of named held_legs d ks W) (\<lambda>(ks1, entries, exits, h) W1.
         and_then (load p (wd_book W1), W1) (\<lambda>book _.
         let final = legs_by_asset book (cv_name V) asset_of in
         (result_of as_of (held_names (assets_of named) final) ks1 entries exits funding None (final_reason h final) True, W1)))) = (res, W')"
    show thesis
    proof (cases "bd_abstention d")
      case (Some why)
      with rest show thesis by (intro Abstained) (auto simp: result_of_eq)
    next
      case None
      note go = rest[unfolded None option.case]
      show thesis
      proof (cases "fst (trade_basket V p cfg dk as_of named held_legs d ks W)")
        case (Inl e)
        with go have "res = Inl e" "W' = snd (trade_basket V p cfg dk as_of named held_legs d ks W)" by (auto simp: and_then_def)
        moreover have "unsettled_orders (wd_ledger W) p = [] \<or> W' = W" using calculation(2) by (simp add: trade_basket_def)
        ultimately show thesis by (intro Raised) auto
      next
        case (Inr x)
        obtain ks1 entries exits h W1 where t: "trade_basket V p cfg dk as_of named held_legs d ks W = (Inr (ks1, entries, exits, h), W1)"
          using Inr by (cases x) (metis prod.collapse)
        note none = trade_basket_cases[OF t]
        show thesis
        proof (cases "load p (wd_book W1)")
          case (Inl e)
          with go t none show thesis by (intro Raised) auto
        next
          case (Inr book)
          with go t none show thesis by (intro Traded[of _ book h]) (auto simp: Let_def result_of_eq)
        qed
      qed
    qed
  qed
qed

section \<open>Funding\<close>

lemma settle_one_keeps:
  assumes "settle_one V p named s W = (res, W')"
  shows "wd_ledger W' = wd_ledger W" "wd_results W' = wd_results W"
proof -
  obtain t e rate mark where s: "s = (t, e, rate, mark)" by (cases s)
  have "wd_ledger W' = wd_ledger W \<and> wd_results W' = wd_results W"
    using assms unfolding s settle_one_def Let_def
    by (cases "map_of named e") (auto simp: Let_def split: sum.splits option.splits funding_outcome.splits prod.splits)
  then show "wd_ledger W' = wd_ledger W" "wd_results W' = wd_results W" by auto
qed

lemma settle_funding_keeps:
  assumes "settle_funding V p named ss W = (res, W')"
  shows "wd_ledger W' = wd_ledger W \<and> wd_results W' = wd_results W"
  using assms
proof (induction ss arbitrary: W res W')
  case (Cons s ss)
  from Cons.prems[unfolded settle_funding.simps] show ?case
  proof (cases rule: and_then_cases)
    case (1 e)
    then show ?thesis using settle_one_keeps by blast
  next
    case (2 a W1)
    note one = settle_one_keeps[OF 2(1)]
    from 2(2) show ?thesis
      using Cons.IH one by (cases rule: and_then_cases) (metis, metis prod.inject)
  qed
qed simp

lemma fund_and_rebalance_cases:
  assumes "fund_and_rebalance V p cfg dk ids as_of since named asset_of held_legs held W = (res, W')"
  obtains (Raised) e where "res = Inl e" "wd_ledger W' = wd_ledger W"
  | (Incomplete) ks funding where "res = halted_carry as_of held ks funding Accrual_Incomplete" "wd_ledger W' = wd_ledger W"
  | (Funded) ks funding W1 where "list_all (\<lambda>a. fa_outcome a \<noteq> No_Position) funding" "wd_ledger W1 = wd_ledger W"
      "rebalance V p cfg dk ids as_of named asset_of held_legs held funding ks W1 = (res, W')"
proof -
  let ?due = "settlements (sorted_names held) (kd_audience dk) (kc_funding_venue cfg) since as_of (kd_claims dk)"
  let ?valued = "value_settlements dk (cv_name V) ?due"
  let ?ks = "refuse_times (length ?due - length ?valued) No_Mark start_carry"
  show thesis
  proof (cases "length ?valued = length ?due")
    case False
    then show thesis using assms by (intro Incomplete) (auto simp: fund_and_rebalance_def Let_def)
  next
    case True
    then have "and_then (settle_funding V p named ?valued W) (\<lambda>funding W1.
        if \<not> list_all (\<lambda>a. fa_outcome a \<noteq> No_Position) funding then (halted_carry as_of held ?ks funding Accrual_Incomplete, W1)
        else rebalance V p cfg dk ids as_of named asset_of held_legs held funding ?ks W1) = (res, W')"
      using assms by (simp add: fund_and_rebalance_def Let_def)
    then show thesis
    proof (cases rule: and_then_cases)
      case (1 e)
      then show thesis using settle_funding_keeps[OF 1(1)] by (intro Raised) auto
    next
      case (2 funding W1)
      then show thesis using settle_funding_keeps[OF 2(1)] Incomplete Funded by (auto split: if_splits)
    qed
  qed
qed

text \<open>C12. No carry trade without a verified book: when a gate is closed (the book does not read as equal pairs of the
  universe, the policy is breached, or the venue disagrees or cannot be read), the cycle changes neither the orders nor the
  book nor the venue, and a result is a halt that trades, settles and marks nothing.\<close>

theorem unsafe_carry_trades_nothing:
  assumes "run_carry_cycle V p cfg dk ids stamp since W = (res, W')" "gates_closed V p cfg dk ids (snd stamp) W"
  shows "wd_ledger W' = wd_ledger W \<and> wd_book W' = wd_book W \<and> wd_venue W' = wd_venue W
    \<and> (\<forall>r. res = Inr r \<longrightarrow> ct_halted r \<and> ct_reason r \<noteq> None \<and> ct_opened r = [] \<and> ct_closed r = [] \<and> ct_funding r = []
        \<and> ct_settled r = None)"
  using assms(1)
proof (cases rule: run_carry_cycle_cases)
  case (Stopped held ks h)
  then show ?thesis by (auto simp: halted_carry_eq)
next
  case (Passed named asset_of book held_legs v)
  with assms(2) show ?thesis by (auto simp: gates_closed_def)
qed simp

text \<open>C15. A result means what it says. It halts exactly when it has a reason; it marks funding as settled up to its own
  instant or not at all, always when it does not halt, and never past a settlement that the book could not apply; an
  abstention is no halt, trades nothing and leaves the orders alone.\<close>

theorem carry_result_means:
  assumes "run_carry_cycle V p cfg dk ids stamp since W = (Inr r, W')"
  shows "ct_as_of r = snd stamp \<and> (ct_halted r \<longleftrightarrow> ct_reason r \<noteq> None) \<and> ct_settled r \<in> {None, Some (snd stamp)}
    \<and> (\<not> ct_halted r \<longrightarrow> ct_settled r = Some (snd stamp))
    \<and> (ct_settled r \<noteq> None \<longrightarrow> list_all (\<lambda>a. fa_outcome a \<noteq> No_Position) (ct_funding r))
    \<and> ct_collected r = dsum (accrued_amounts (ct_funding r))
    \<and> (ct_abstention r \<noteq> None \<longrightarrow> \<not> ct_halted r \<and> ct_opened r = [] \<and> ct_closed r = [] \<and> wd_ledger W' = wd_ledger W)"
  using assms
proof (cases rule: run_carry_cycle_cases)
  case (Stopped held ks h)
  then show ?thesis by (auto simp: halted_carry_eq)
next
  case (Passed named asset_of book held_legs v)
  from Passed(2) show ?thesis
  proof (cases rule: fund_and_rebalance_cases)
    case (Incomplete ks funding)
    then show ?thesis by (auto simp: halted_carry_eq)
  next
    case (Funded ks funding W1)
    from Funded(3) show ?thesis by (cases rule: rebalance_cases) (use Funded in auto)
  qed simp
qed simp

text \<open>The leg a position is: its asset, as the pairing map reads its symbol, and its market.\<close>

definition leg_slot :: "(string \<times> string) list \<Rightarrow> position \<Rightarrow> string \<times> market_type" where
  "leg_slot asset_of x = (dict_get asset_of (po_symbol x) (po_symbol x), po_market_type x)"

definition carry_position :: "string \<Rightarrow> position \<Rightarrow> bool" where
  "carry_position venue x \<longleftrightarrow> po_venue x = venue \<and> po_market_type x \<noteq> Margin"

definition slot_quantity :: "(string \<times> legs) list \<Rightarrow> string \<times> market_type \<Rightarrow> decimal" where
  "slot_quantity held s = (let l = dict_get held (fst s) \<lparr>lg_spot = 0, lg_perp = 0\<rparr> in if snd s = Spot then lg_spot l else lg_perp l)"

lemma slot_quantity_add:
  "snd s \<noteq> Margin \<Longrightarrow> slot_quantity (add_leg venue asset_of x held) s
    = (if carry_position venue x \<and> leg_slot asset_of x = s then po_quantity x else slot_quantity held s)"
  by (cases s; cases "snd s"; cases "po_market_type x")
    (auto simp: slot_quantity_def add_leg_def leg_slot_def carry_position_def Let_def dict_get_def update_conv')

text \<open>A leg that is not zero is a position of the book.\<close>

lemma slot_has_position:
  assumes "slot_quantity (fold (add_leg venue asset_of) xs []) s \<noteq> 0" "snd s \<noteq> Margin"
  shows "\<exists>x\<in>set xs. carry_position venue x \<and> leg_slot asset_of x = s \<and> po_quantity x = slot_quantity (fold (add_leg venue asset_of) xs []) s"
  using assms
proof (induction xs rule: rev_induct)
  case Nil
  then show ?case by (auto simp: slot_quantity_def Let_def split: if_splits)
next
  case (snoc x xs)
  then show ?case by (auto simp: slot_quantity_add split: if_splits)
qed

text \<open>Where no leg has two positions, every position is its leg.\<close>

lemma position_has_slot:
  assumes "distinct (map (leg_slot asset_of) (filter (carry_position venue) xs))" "x \<in> set xs" "carry_position venue x"
  shows "slot_quantity (fold (add_leg venue asset_of) xs []) (leg_slot asset_of x) = po_quantity x"
  using assms
proof (induction xs rule: rev_induct)
  case (snoc y xs)
  have "snd (leg_slot asset_of x) \<noteq> Margin" using snoc.prems(3) by (simp add: carry_position_def leg_slot_def)
  note add = slot_quantity_add[OF this]
  show ?case
  proof (cases "x \<in> set xs")
    case True
    then have "leg_slot asset_of y \<noteq> leg_slot asset_of x" if "carry_position venue y"
      using snoc.prems(1,3) that by (auto simp: image_iff)
    moreover have "distinct (map (leg_slot asset_of) (filter (carry_position venue) xs))" using snoc.prems(1) by (auto split: if_splits)
    ultimately show ?thesis using snoc.IH True snoc.prems(3) by (auto simp: add)
  next
    case False
    then have "x = y" using snoc.prems(2) by simp
    with snoc.prems(3) add show ?thesis by simp
  qed
qed simp

lemma add_leg_keys: "fst ` set (add_leg venue asset_of x held) = (if carry_position venue x then insert (fst (leg_slot asset_of x)) (fst ` set held) else fst ` set held)"
  by (auto simp: add_leg_def carry_position_def leg_slot_def Let_def dom_update)

lemma fold_leg_keys: "carry_position venue x \<Longrightarrow> x \<in> set xs \<Longrightarrow> fst (leg_slot asset_of x) \<in> fst ` set (fold (add_leg venue asset_of) xs held)"
  by (induction xs rule: rev_induct) (auto simp: add_leg_keys)

lemma add_leg_distinct: "distinct (map fst held) \<Longrightarrow> distinct (map fst (add_leg venue asset_of x held))"
  by (simp add: add_leg_def Let_def distinct_update)

lemma legs_by_asset_distinct: "distinct (map fst (legs_by_asset book venue asset_of))"
proof -
  have "distinct (map fst (fold (add_leg venue asset_of) xs held))" if "distinct (map fst held)" for xs held
    using that by (induction xs arbitrary: held) (simp_all add: add_leg_distinct)
  then show ?thesis by (simp add: legs_by_asset_def)
qed

text \<open>Two positions that hedge each other: the spot one is long, the perpetual one short, and what is left between them is
  dust.\<close>

definition hedges :: "position \<Rightarrow> position \<Rightarrow> bool" where
  "hedges spot perp \<longleftrightarrow> po_market_type spot = Spot \<and> po_market_type perp = Perpetual \<and> 0 < po_quantity spot \<and> po_quantity perp < 0
     \<and> dabs (dadd (po_quantity spot) (po_quantity perp)) \<le> dmul PAIR_DUST_FRACTION (max (po_quantity spot) (dneg (po_quantity perp)))"

lemma is_pair_bounds:
  assumes "is_pair l"
  shows "0 < lg_spot l \<and> lg_perp l < 0 \<and> dabs (dadd (lg_spot l) (lg_perp l)) \<le> dmul PAIR_DUST_FRACTION (max (lg_spot l) (dneg (lg_perp l)))"
proof -
  have "0 \<le> dmul PAIR_DUST_FRACTION (max (lg_spot l) (dneg (lg_perp l)))" if "0 < lg_spot l"
    using that by (simp add: dmul_def PAIR_DUST_FRACTION_def)
  with assms show ?thesis by (auto simp: is_pair_def Let_def)
qed

lemma paired_positions:
  assumes "list_all (\<lambda>(k, l). is_pair l) (legs_by_asset book venue asset_of)"
    and "distinct (map (leg_slot asset_of) (filter (carry_position venue) (st_positions book)))"
    and "x \<in> set (st_positions book)" "carry_position venue x"
  shows "\<exists>y\<in>set (st_positions book). carry_position venue y \<and> fst (leg_slot asset_of y) = fst (leg_slot asset_of x) \<and> (hedges x y \<or> hedges y x)"
proof -
  let ?held = "legs_by_asset book venue asset_of" and ?k = "fst (leg_slot asset_of x)"
  have held: "?held = fold (add_leg venue asset_of) (st_positions book) []" by (simp add: legs_by_asset_def)
  obtain l where l: "(?k, l) \<in> set ?held" using fold_leg_keys[OF assms(4,3), of asset_of "[]"] held by auto
  then have get: "dict_get ?held ?k \<lparr>lg_spot = 0, lg_perp = 0\<rparr> = l"
    using map_of_is_SomeI[OF legs_by_asset_distinct] by (simp add: dict_get_def)
  have b: "0 < lg_spot l \<and> lg_perp l < 0 \<and> dabs (dadd (lg_spot l) (lg_perp l)) \<le> dmul PAIR_DUST_FRACTION (max (lg_spot l) (dneg (lg_perp l)))"
    using assms(1) l is_pair_bounds by (auto simp: list_all_iff)
  have slots: "slot_quantity ?held (?k, Spot) = lg_spot l" "slot_quantity ?held (?k, Perpetual) = lg_perp l"
    using get by (simp_all add: slot_quantity_def)
  obtain y z where y: "y \<in> set (st_positions book)" "carry_position venue y" "leg_slot asset_of y = (?k, Spot)" "po_quantity y = lg_spot l"
    and z: "z \<in> set (st_positions book)" "carry_position venue z" "leg_slot asset_of z = (?k, Perpetual)" "po_quantity z = lg_perp l"
    using slot_has_position[of venue asset_of "st_positions book" "(?k, Spot)"] slot_has_position[of venue asset_of "st_positions book" "(?k, Perpetual)"]
      b slots held by auto
  have mine: "slot_quantity ?held (leg_slot asset_of x) = po_quantity x" using position_has_slot[OF assms(2-4)] held by simp
  consider "leg_slot asset_of x = (?k, Spot)" | "leg_slot asset_of x = (?k, Perpetual)"
    using assms(4) by (cases "po_market_type x") (auto simp: carry_position_def leg_slot_def)
  then show ?thesis
  proof cases
    case 1
    then have "po_quantity x = lg_spot l" "po_market_type x = Spot" "po_market_type z = Perpetual"
      using mine slots z(3) by (auto simp: leg_slot_def)
    then have "hedges x z" using b z(4) by (simp add: hedges_def)
    then show ?thesis using z by auto
  next
    case 2
    then have "po_quantity x = lg_perp l" "po_market_type x = Perpetual" "po_market_type y = Spot"
      using mine slots y(3) by (auto simp: leg_slot_def)
    then have "hedges y x" using b y(4) by (simp add: hedges_def)
    then show ?thesis using y by auto
  qed
qed

text \<open>C13. A finished cycle leaves hedged legs only. When it traded and did not halt, then in the book read again every asset the
  book knows has a long spot and a short perpetual leg whose difference is at most half a percent of the larger, and the
  held names it reports are the names of those assets. The book keeps one quantity for each asset and market, so this is said
  of every position where no asset and market has positions under two spellings: then each position at the venue has one of
  the same asset in the other market that hedges it up to that dust.\<close>

theorem finished_cycle_holds_pairs:
  assumes "run_carry_cycle V p cfg dk ids stamp since W = (Inr r, W')" "\<not> ct_halted r" "ct_abstention r = None"
  shows "\<exists>named asset_of book. symbols_of V (kd_entities dk) ids = Inr named \<and> pairing_map named V = Inr asset_of
    \<and> load p (wd_book W') = Inr book
    \<and> (\<forall>(k, l)\<in>set (legs_by_asset book (cv_name V) asset_of). 0 < lg_spot l \<and> lg_perp l < 0
        \<and> dabs (dadd (lg_spot l) (lg_perp l)) \<le> dmul (5 / 1000) (max (lg_spot l) (dneg (lg_perp l))))
    \<and> ct_held r = held_names (assets_of named) (legs_by_asset book (cv_name V) asset_of)
    \<and> (distinct (map (leg_slot asset_of) (filter (carry_position (cv_name V)) (st_positions book))) \<longrightarrow>
        (\<forall>x\<in>set (st_positions book). carry_position (cv_name V) x \<longrightarrow>
          (\<exists>y\<in>set (st_positions book). carry_position (cv_name V) y \<and> fst (leg_slot asset_of y) = fst (leg_slot asset_of x)
            \<and> (hedges x y \<or> hedges y x))))"
  using assms(1)
proof (cases rule: run_carry_cycle_cases)
  case (Stopped held ks h)
  with assms(2) show ?thesis by (simp add: halted_carry_eq)
next
  case (Passed named asset_of book held_legs v)
  have names: "symbols_of V (kd_entities dk) ids = Inr named" "pairing_map named V = Inr asset_of"
    using Passed(1) by (auto simp: gates_open_def open_book_def rbind_eq_Inr)
  from Passed(2) show ?thesis
  proof (cases rule: fund_and_rebalance_cases)
    case (Incomplete ks funding)
    with assms(2) show ?thesis by (simp add: halted_carry_eq)
  next
    case (Funded ks funding W1)
    from Funded(3) show ?thesis
    proof (cases rule: rebalance_cases)
      case (Traded r' book' h)
      let ?held = "legs_by_asset book' (cv_name V) asset_of"
      have "final_reason h ?held = None" using assms(2) Traded by auto
      then have "unpaired ?held = []" by (auto simp: final_reason_def split: option.splits if_splits)
      then have pairs: "list_all (\<lambda>(k, l). is_pair l) ?held"
        by (auto simp: unpaired_def list_all_iff filter_empty_conv dest: arg_cong[of _ _ set])
      then have "\<forall>(k, l)\<in>set ?held. 0 < lg_spot l \<and> lg_perp l < 0
          \<and> dabs (dadd (lg_spot l) (lg_perp l)) \<le> dmul (5 / 1000) (max (lg_spot l) (dneg (lg_perp l)))"
        using is_pair_bounds by (fastforce simp: list_all_iff PAIR_DUST_FRACTION_def)
      with names Traded paired_positions[OF pairs] show ?thesis by blast
    qed (use assms(3) in auto)
  qed simp
qed simp

text \<open>While the portfolio has an order whose outcome is not final, a cycle sends nothing and touches no order.\<close>

lemma unsettled_order_blocks_rebalance:
  assumes "run_carry_cycle V p cfg dk ids stamp since W = (res, W')" "unsettled_orders (wd_ledger W) p \<noteq> []"
  shows "wd_ledger W' = wd_ledger W
    \<and> (\<forall>r. res = Inr r \<longrightarrow> (ct_halted r \<or> ct_abstention r \<noteq> None) \<and> ct_opened r = [] \<and> ct_closed r = [])"
  using assms(1)
proof (cases rule: run_carry_cycle_cases)
  case (Stopped held ks h)
  then show ?thesis by (auto simp: halted_carry_eq)
next
  case (Passed named asset_of book held_legs v)
  from Passed(2) show ?thesis
  proof (cases rule: fund_and_rebalance_cases)
    case (Incomplete ks funding)
    then show ?thesis by (auto simp: halted_carry_eq)
  next
    case (Funded ks funding W1)
    from Funded(3) show ?thesis by (cases rule: rebalance_cases) (use Funded(2) assms(2) in auto)
  qed simp
qed simp

section \<open>What is sent\<close>

text \<open>The ledger and the venue change as they do when the directional loop places the order.\<close>

lemma leg_done_placed: "leg_done P p x W res W' \<Longrightarrow> \<exists>res'. placed P p (in_market_type x) x any_cycle W res' W'"
  by (cases rule: leg_done.cases) (auto intro: placed.intros)

text \<open>The venue with a log of the intents it was asked to execute; a credit leaves the log alone.\<close>

definition logged_carry :: "'v carry_venue \<Rightarrow> ('v \<times> intent list) carry_venue" where
  "logged_carry V = \<lparr>cv_port = logged (cv_port V), cv_symbol_for = cv_symbol_for V, cv_aliases = cv_aliases V, cv_partial = cv_partial V,
     cv_credit = map_option (\<lambda>credit symbol amount s. rbind (credit symbol amount (fst s)) (\<lambda>v. Inr (v, snd s))) (cv_credit V),
     cv_minimum = cv_minimum V\<rparr>"

lemma logged_carry_port [simp]: "cv_port (logged_carry V) = logged (cv_port V)"
  by (simp add: logged_carry_def)

lemma logged_name: "vp_name (logged P) = vp_name P"
  by (simp add: logged_def)

text \<open>What a move sends satisfies \<open>Q\<close>, and nothing is sent twice.\<close>

definition log_grows :: "(intent \<Rightarrow> bool) \<Rightarrow> ('v \<times> intent list) world \<Rightarrow> ('v \<times> intent list) world \<Rightarrow> bool" where
  "log_grows Q W W' \<longleftrightarrow> (\<exists>new. sent_log W' = sent_log W @ new \<and> list_all Q new) \<and> (sent_once W \<longrightarrow> sent_once W')"

lemma log_growsI:
  "sent_log W' = sent_log W \<Longrightarrow> (sent_once W \<Longrightarrow> sent_once W') \<Longrightarrow> log_grows Q W W'"
  "sent_log W' = sent_log W @ [x] \<Longrightarrow> Q x \<Longrightarrow> (sent_once W \<Longrightarrow> sent_once W') \<Longrightarrow> log_grows Q W W'"
  by (auto simp: log_grows_def)

lemma log_grows_trans: "log_grows Q W W1 \<Longrightarrow> log_grows Q W1 W2 \<Longrightarrow> log_grows Q W W2"
proof -
  assume a: "log_grows Q W W1" and b: "log_grows Q W1 W2"
  from a b obtain xs ys where "sent_log W1 = sent_log W @ xs" "list_all Q xs" "sent_log W2 = sent_log W1 @ ys" "list_all Q ys"
    by (auto simp: log_grows_def)
  then have "sent_log W2 = sent_log W @ (xs @ ys)" "list_all Q (xs @ ys)" by simp_all
  with a b show ?thesis unfolding log_grows_def by blast
qed

lemma sent_logged: "sent (logged P) p x W i L a v \<Longrightarrow> snd v = sent_log W @ [x]"
  by (auto simp: sent_def logged_def)

lemma leg_done_log: "leg_done (logged P) p x W res W' \<Longrightarrow> sent_log W' = sent_log W \<or> sent_log W' = sent_log W @ [x]"
  by (cases rule: leg_done.cases) (auto dest: sent_logged)

context venue_contract
begin

lemma carry_move_log:
  assumes "carry_move V p Q W W'" "V = logged_carry V0" "cv_port V0 = P"
  shows "log_grows Q W W'"
  using assms(1)
proof (cases rule: carry_move.cases)
  case (Leg x res)
  have d: "leg_done (logged P) p x W res W'" using Leg(1) assms(2,3) by simp
  obtain res' where "placed (logged P) p (in_market_type x) x any_cycle W res' W'" using leg_done_placed[OF d] by blast
  from placed_log[OF this] leg_done_log[OF d] Leg(2) show ?thesis by (auto intro: log_growsI)
next
  case (Tell credit symbol amount v)
  then have "sent_log W' = sent_log W" "wd_ledger W' = wd_ledger W"
    using assms(2) by (auto simp: logged_carry_def rbind_eq_Inr)
  then show ?thesis by (intro log_growsI) (auto intro: sent_once_later)
qed (auto intro!: log_growsI intro: sent_once_later)

lemma carry_moves_ledger:
  assumes "carry_moves V p Q W W'" "cv_port V = P"
  shows "ledger_run (wd_ledger W) (wd_ledger W')"
  using assms(1)
proof (induction rule: rtranclp_induct)
  case (step W1 W2)
  from step.hyps(2) have "ledger_run (wd_ledger W1) (wd_ledger W2)"
  proof (cases rule: carry_move.cases)
    case (Leg x res)
    then show ?thesis using leg_done_placed placed_ledger assms(2) by blast
  qed simp_all
  with step.IH show ?case by (rule rtranclp_trans)
qed simp

lemma carry_moves_log: "carry_moves (logged_carry V) p Q W W' \<Longrightarrow> cv_port V = P \<Longrightarrow> log_grows Q W W'"
proof (induction rule: rtranclp_induct)
  case base
  then show ?case by (auto intro: log_growsI)
next
  case (step W1 W2)
  show ?case by (rule log_grows_trans[OF step.IH[OF step.prems] carry_move_log[OF step.hyps(2) refl step.prems]])
qed

end

text \<open>What was asked for, and by whom: the order of a leg of a portfolio's carry book at an instant, or the order for a
  prediction of a portfolio.\<close>

datatype sent_order = Leg_Order nat int intent | Prediction_Order nat intent

fun sent_intent :: "sent_order \<Rightarrow> intent" where
  "sent_intent (Leg_Order p t x) = x"
| "sent_intent (Prediction_Order p x) = x"

text \<open>The role of a leg, read off its key.\<close>

definition role_of :: "nat \<Rightarrow> int \<Rightarrow> intent \<Rightarrow> leg_role option" where
  "role_of p t x = find (\<lambda>role. in_key x = leg_key p t (in_symbol x) (in_market_type x) role) [Role_Open, Role_Close, Role_Unwind]"

text \<open>The decision an order carries out: a leg is its portfolio, instant, symbol, market and role; a prediction is its
  portfolio and its id.\<close>

type_synonym decision = "(nat \<times> int \<times> string \<times> market_type \<times> leg_role option) + (nat \<times> string)"

fun decided :: "sent_order \<Rightarrow> decision" where
  "decided (Leg_Order p t x) = Inl (p, t, in_symbol x, in_market_type x, role_of p t x)"
| "decided (Prediction_Order p x) = Inr (p, in_provenance x)"

text \<open>Everybody who uses the venue and the ledger: rebalances and closings of the carry book of any portfolio, cycles of the
  directional desk, and whatever else commits.\<close>

inductive shared_step :: "'v carry_venue \<Rightarrow> ('v \<times> intent list) world \<Rightarrow> sent_order list \<Rightarrow> ('v \<times> intent list) world \<Rightarrow> bool" for V where
  Rebalance: "run_carry_cycle (logged_carry V) p cfg dk ids stamp since W = (res, W') \<Longrightarrow>
    shared_step V W (map (Leg_Order p (snd stamp)) (drop (length (sent_log W)) (sent_log W'))) W'"
| Wind_Down: "wind_down_book (logged_carry V) p cfg dk ids stamp until owner W = (res, W') \<Longrightarrow>
    shared_step V W (map (Leg_Order p (snd stamp)) (drop (length (sent_log W)) (sent_log W'))) W'"
| Desk: "desk_step (cv_port V) W t W' \<Longrightarrow> shared_step V W (map (\<lambda>(p, x). Prediction_Order p x) t) W'"

inductive shared_run :: "'v carry_venue \<Rightarrow> ('v \<times> intent list) world \<Rightarrow> sent_order list \<Rightarrow> ('v \<times> intent list) world \<Rightarrow> bool" for V W where
  Nothing: "shared_run V W [] W"
| Then: "shared_run V W t V1 \<Longrightarrow> shared_step V V1 s V2 \<Longrightarrow> shared_run V W (t @ s) V2"

fun names_decision :: "sent_order \<Rightarrow> bool" where
  "names_decision (Leg_Order p t x) \<longleftrightarrow> role_of p t x \<noteq> None"
| "names_decision (Prediction_Order p x) \<longleftrightarrow> names_prediction (p, x)"

lemma carry_intent_role: "carry_intent p t roles x \<Longrightarrow> role_of p t x \<noteq> None"
proof -
  assume "carry_intent p t roles x"
  then obtain role where "in_key x = leg_key p t (in_symbol x) (in_market_type x) role" by (auto simp: carry_intent_def)
  then show ?thesis by (cases role) (auto simp: role_of_def)
qed

text \<open>The key of an order is a function of the decision, so distinct keys are distinct decisions.\<close>

fun key_of :: "decision \<Rightarrow> string" where
  "key_of (Inl (p, t, symbol, mt, Some role)) = leg_key p t symbol mt role"
| "key_of (Inl (p, t, symbol, mt, None)) = []"
| "key_of (Inr (p, n)) = Text.decimal p @ '':'' @ n"

lemma key_of_decided: "names_decision o1 \<Longrightarrow> in_key (sent_intent o1) = key_of (decided o1)"
proof (cases o1)
  case (Leg_Order p t x)
  assume "names_decision o1"
  then obtain role where "role_of p t x = Some role" using Leg_Order by auto
  moreover from this have "in_key x = leg_key p t (in_symbol x) (in_market_type x) role"
    by (auto simp: role_of_def split: if_splits)
  ultimately show ?thesis using Leg_Order by simp
qed (auto simp: names_prediction_def order_key_def)

lemma decided_distinct:
  assumes "list_all names_decision t" "distinct (map in_key (map sent_intent t))"
  shows "distinct (map decided t)"
proof -
  have "map in_key (map sent_intent t) = map key_of (map decided t)"
    using assms(1) key_of_decided by (auto simp: list_all_iff)
  with assms(2) show ?thesis by (metis distinct_map)
qed

context venue_contract
begin

lemma shared_step_sends:
  assumes "shared_step V W s W'" "cv_port V = P" "sent_once W"
  shows "sent_once W' \<and> sent_log W' = sent_log W @ map sent_intent s \<and> list_all names_decision s"
proof -
  have legs: "sent_once W' \<and> sent_log W' = sent_log W @ map sent_intent (map (Leg_Order p t) (drop (length (sent_log W)) (sent_log W')))
      \<and> list_all names_decision (map (Leg_Order p t) (drop (length (sent_log W)) (sent_log W')))"
    if "carry_moves (logged_carry V) p (carry_intent p t roles) W W'" for p t roles
  proof -
    from carry_moves_log[OF that assms(2)] obtain new where
      "sent_log W' = sent_log W @ new" "list_all (carry_intent p t roles) new" "sent_once W'"
      using assms(3) by (auto simp: log_grows_def)
    then show ?thesis by (auto simp: list_all_iff comp_def dest: carry_intent_role)
  qed
  from assms(1) show ?thesis
  proof (cases rule: shared_step.cases)
    case (Rebalance p cfg dk ids stamp since res)
    from legs[OF run_carry_cycle_moves[OF Rebalance(2)]] Rebalance(1) show ?thesis by simp
  next
    case (Wind_Down p cfg dk ids stamp until owner res)
    from legs[OF wind_down_moves[OF Wind_Down(2)]] Wind_Down(1) show ?thesis by simp
  next
    case (Desk t)
    then have "desk_step P W t W'" using assms(2) by simp
    from desk_step_sends[OF this assms(3)] Desk(1) show ?thesis by (auto simp: list_all_iff comp_def split_def)
  qed
qed

lemma shared_run_sends:
  assumes "shared_run V W t W'" "cv_port V = P" "sent_once W"
  shows "sent_once W' \<and> sent_log W' = sent_log W @ map sent_intent t \<and> list_all names_decision t"
  using assms by (induction rule: shared_run.induct) (auto dest: shared_step_sends)

end

text \<open>C14. No decision is carried out twice. However rebalances, closings and cycles of the directional desk follow each other,
  with whatever configuration, claims and instants, and whatever else is committed between them, the orders the venue was
  asked to execute carry out different decisions: a portfolio sends each leg of an instant (a symbol, a market, and whether
  it is opened, closed or taken back) at most once, so a cycle or a closing that is run again at its instant repeats no leg,
  and it sends each prediction at most once. Every one of them has an order in the ledger that is past the intent.\<close>

theorem leg_sent_at_most_once:
  assumes "venue_contract (cv_port V)" "shared_run V W t W'" "ledger_inv (wd_ledger W)" "sent_log W = []"
  shows "sent_log W' = map sent_intent t \<and> distinct (map decided t)
    \<and> (\<forall>p i x. Leg_Order p i x \<in> set t \<longrightarrow> role_of p i x \<noteq> None)
    \<and> (\<forall>x\<in>set (sent_log W'). \<exists>r\<in>set (ld_orders (wd_ledger W')). in_key (od_intent r) = in_key x \<and> od_status r \<noteq> Intent)"
proof -
  have "sent_once W" using assms(3,4) by (simp add: sent_once_def)
  from venue_contract.shared_run_sends[OF assms(1,2) refl this] assms(4)
  have s: "sent_once W'" "sent_log W' = map sent_intent t" and names: "list_all names_decision t" by simp_all
  have keys: "distinct (map in_key (map sent_intent t))" using s by (simp add: sent_once_def)
  have "role_of p i x \<noteq> None" if "Leg_Order p i x \<in> set t" for p i x
    using names that by (metis list_all_iff names_decision.simps(1))
  with s decided_distinct[OF names keys] show ?thesis unfolding sent_once_def by blast
qed

section \<open>What a closing sends\<close>

text \<open>The order that closes a leg the book held: all of it, sold when it is spot and bought back when it is perpetual.\<close>

definition closing_of :: "nat \<Rightarrow> int \<Rightarrow> pair_symbols \<Rightarrow> legs \<Rightarrow> intent \<Rightarrow> bool" where
  "closing_of p as_of sy l x \<longleftrightarrow> in_reduce_only x \<and> in_key x = leg_key p as_of (in_symbol x) (in_market_type x) Role_Close
     \<and> (in_market_type x = Spot \<and> in_symbol x = sy_spot sy \<and> in_side x = Sell \<and> in_quantity x = lg_spot l \<and> 0 < lg_spot l
       \<or> in_market_type x = Perpetual \<and> in_symbol x = sy_perp sy \<and> in_side x = Buy \<and> in_quantity x = dneg (lg_perp l) \<and> lg_perp l < 0)"

text \<open>The order \<open>x\<close> takes back what the venue answered to \<open>c\<close>.\<close>

definition takes_back :: "'v venue_port \<Rightarrow> nat \<Rightarrow> int \<Rightarrow> intent \<Rightarrow> intent \<Rightarrow> bool" where
  "takes_back P p as_of c x \<longleftrightarrow> in_reduce_only x \<and> in_symbol x = in_symbol c \<and> in_market_type x = in_market_type c
     \<and> in_key x = leg_key p as_of (in_symbol c) (in_market_type c) Role_Unwind \<and> in_side x = opposite_side (in_side c)
     \<and> (\<exists>v f. fst (vp_execute P c v) = Inr f \<and> in_quantity x = finite_part (fl_quantity f))"

definition closings :: "'v venue_port \<Rightarrow> nat \<Rightarrow> int \<Rightarrow> (intent \<Rightarrow> bool) \<Rightarrow> intent list \<Rightarrow> bool" where
  "closings P p as_of C xs \<longleftrightarrow> (\<forall>x\<in>set xs. C x \<or> (\<exists>c\<in>set xs. C c \<and> takes_back P p as_of c x))"

lemma closings_append: "closings P p as_of C xs \<Longrightarrow> closings P p as_of C ys \<Longrightarrow> closings P p as_of C (xs @ ys)"
  by (auto simp: closings_def)

definition asks :: "(intent list \<Rightarrow> bool) \<Rightarrow> ('v \<times> intent list) world \<Rightarrow> ('v \<times> intent list) world \<Rightarrow> bool" where
  "asks K W W' \<longleftrightarrow> (\<exists>new. sent_log W' = sent_log W @ new \<and> K new)"

lemma asks_nothing: "sent_log W' = sent_log W \<Longrightarrow> asks (closings P p as_of C) W W'"
  by (simp add: asks_def closings_def)

lemma asks_same [simp]: "asks (closings P p as_of C) W W"
  by (simp add: asks_nothing)

lemma asks_trans: "asks (closings P p as_of C) W W1 \<Longrightarrow> asks (closings P p as_of C) W1 W2 \<Longrightarrow> asks (closings P p as_of C) W W2"
  unfolding asks_def using closings_append by fastforce

lemma and_then_asks:
  assumes "and_then m f = (res, W')" "asks (closings P p as_of C) W (snd m)"
    and "\<And>x W1. m = (Inr x, W1) \<Longrightarrow> f x W1 = (res, W') \<Longrightarrow> asks (closings P p as_of C) W1 W'"
  shows "asks (closings P p as_of C) W W'"
  using assms(1)
proof (cases rule: and_then_cases)
  case (2 x W1)
  with assms(2) have "asks (closings P p as_of C) W W1" by simp
  then show ?thesis using assms(3)[OF 2] by (rule asks_trans)
qed (use assms(2) in simp)

lemma send_leg_log:
  assumes "send_leg (logged_carry V) p cfg x ks W = (res, W')"
  obtains e where "res = Inl e" "sent_log W' = sent_log W \<or> sent_log W' = sent_log W @ [x]"
  | f ks' v where "res = Inr (f, ks')" "sent_log W' = sent_log W @ [x]" "fst (vp_execute (cv_port V) x v) = Inr f"
proof (cases res)
  case (Inl e)
  have "leg_done (logged (cv_port V)) p x W (map_sum id fst res) W'" using send_leg_done[OF assms] by simp
  from leg_done_log[OF this] that(1)[OF Inl] show thesis by blast
next
  case (Inr fk)
  obtain f ks' where fk: "fk = (f, ks')" by (cases fk)
  have d: "leg_done (logged (cv_port V)) p x W (Inr f) W'" using send_leg_done[OF assms] Inr fk by simp
  have ask: "fst (vp_execute (cv_port V) x (fst (wd_venue W))) = Inr f" if "sent (logged (cv_port V)) p x W i L (Inr f) v" for i L v
    using that by (auto simp: sent_def logged_def)
  have "fst (vp_execute (cv_port V) x (fst (wd_venue W))) = Inr f \<and> sent_log W' = sent_log W @ [x]"
    using d by (cases rule: leg_done.cases) (auto dest: ask sent_logged)
  then show thesis using that(2)[OF Inr[unfolded fk]] by blast
qed

text \<open>The venue answered \<open>x\<close> with the fill of a leg.\<close>

definition answered :: "'v venue_port \<Rightarrow> market_type \<times> xdecimal fill \<Rightarrow> intent \<Rightarrow> bool" where
  "answered P leg x \<longleftrightarrow> in_market_type x = fst leg \<and> (\<exists>v. fst (vp_execute P x v) = Inr (snd leg))"

lemma leg_intent_reduce: "leg_intent p venue symbol mt sd q price as_of reduce role = Inr x \<Longrightarrow> in_reduce_only x = reduce"
  by (auto simp: leg_intent_def check_intent_def result_simps)

lemma closing_intent:
  assumes "leg_intent p venue (for_market sy mt) mt (leg_side False mt) (own_sizes l mt) price as_of True Role_Close = Inr x"
    and "mt \<in> {Spot, Perpetual}"
  shows "closing_of p as_of sy l x \<and> in_market_type x = mt"
  using assms(1)
proof (rule leg_intentE)
  assume "0 < own_sizes l mt" "in_symbol x = for_market sy mt" "in_market_type x = mt" "in_side x = leg_side False mt"
    "in_quantity x = own_sizes l mt" "in_key x = leg_key p as_of (for_market sy mt) mt Role_Close"
  with assms(2) leg_intent_reduce[OF assms(1)] show ?thesis
    by (auto simp: closing_of_def for_market_def leg_side_def own_sizes_def dneg_def)
qed

lemma send_legs_asks:
  assumes "send_legs (logged_carry V) p cfg sy price as_of False (Some (own_sizes l)) mts q filled ks W = (res, W')"
    and "set mts \<subseteq> {Spot, Perpetual}"
  shows "\<exists>new. sent_log W' = sent_log W @ new \<and> list_all (closing_of p as_of sy l) new
    \<and> (\<forall>ok filled' ks'. res = Inr (ok, filled', ks') \<longrightarrow>
        set filled' \<subseteq> set filled \<union> {leg. \<exists>c\<in>set new. answered (cv_port V) leg c})"
  using assms
proof (induction mts arbitrary: q filled ks W)
  case (Cons mt mts)
  let ?x = "leg_intent p (cv_name (logged_carry V)) (for_market sy mt) mt (leg_side False mt) (own_sizes l mt) price as_of True Role_Close"
  show ?case
  proof (cases ?x)
    case (Inl e)
    then have "res = Inl e" "W' = W" using Cons.prems(1) by simp_all
    then show ?thesis by simp
  next
    case (Inr x)
    have x: "closing_of p as_of sy l x" "in_market_type x = mt" using closing_intent[OF Inr] Cons.prems(2) by simp_all
    obtain out W1 where send: "send_leg (logged_carry V) p cfg x ks W = (out, W1)" by fastforce
    from send show ?thesis
    proof (cases rule: send_leg_log)
      case (1 e)
      then have "res = Inl e" "W' = W1" using Cons.prems(1) Inr send by simp_all
      then show ?thesis using 1(2) x(1) by (auto intro: exI[of _ "[]"] exI[of _ "[x]"])
    next
      case (2 f ks1 v)
      have leg: "answered (cv_port V) (mt, f) x" using 2(3) x(2) by (auto simp: answered_def)
      show ?thesis
      proof (cases "is_empty f \<or> cv_partial (logged_carry V) (fl_raw f)")
        case True
        then have "res = Inr (False, filled @ [(mt, f)], ks1)" "W' = W1" using Cons.prems(1) Inr send 2(1) by simp_all
        then show ?thesis using 2(2) x(1) leg by (intro exI[of _ "[x]"]) auto
      next
        case False
        then have "send_legs (logged_carry V) p cfg sy price as_of False (Some (own_sizes l)) mts (own_sizes l mt) (filled @ [(mt, f)]) ks1 W1
          = (res, W')" using Cons.prems(1) Inr send 2(1) by simp
        from Cons.IH[OF this] Cons.prems(2) obtain new where new: "sent_log W' = sent_log W1 @ new" "list_all (closing_of p as_of sy l) new"
          and filled: "\<forall>ok filled' ks'. res = Inr (ok, filled', ks') \<longrightarrow>
            set filled' \<subseteq> set (filled @ [(mt, f)]) \<union> {leg. \<exists>c\<in>set new. answered (cv_port V) leg c}" by auto
        have "\<forall>ok filled' ks'. res = Inr (ok, filled', ks') \<longrightarrow>
            set filled' \<subseteq> set filled \<union> {leg. \<exists>c\<in>set (x # new). answered (cv_port V) leg c}"
          using filled leg by fastforce
        then show ?thesis using new 2(2) x(1) by (intro exI[of _ "x # new"]) simp
      qed
    qed
  qed
qed auto

context pair_venue
begin

lemma unwind_asks:
  assumes "unwind (logged_carry V) p cfg sy price as_of fs ks W = (res, W')" "cv_port V = P"
    and "\<forall>leg\<in>set fs. \<exists>c\<in>set cs. closing_of p as_of sy l c \<and> answered P leg c"
  shows "\<exists>new. sent_log W' = sent_log W @ new \<and> (\<forall>x\<in>set new. \<exists>c\<in>set cs. closing_of p as_of sy l c \<and> takes_back P p as_of c x)"
  using assms
proof (induction fs arbitrary: ks W)
  case (Cons leg fs)
  obtain mt f where leg: "leg = (mt, f)" by (cases leg)
  let ?x = "leg_intent p (cv_name (logged_carry V)) (for_market sy mt) mt (opposite_side (fl_side f)) (finite_part (fl_quantity f)) price as_of
      True Role_Unwind"
  show ?case
  proof (cases "is_empty f")
    case False
    show ?thesis
    proof (cases ?x)
      case (Inl e)
      then show ?thesis using Cons.prems(1) leg False by simp
    next
      case (Inr x)
      from Cons.prems(3) leg obtain c v where c: "c \<in> set cs" "closing_of p as_of sy l c" "in_market_type c = mt"
        "fst (vp_execute P c v) = Inr f" by (auto simp: answered_def)
      have side: "fl_side f = in_side c" using on_order[OF c(4)] by simp
      have "in_symbol c = for_market sy mt" using c(2,3) by (auto simp: closing_of_def for_market_def)
      with Inr have undoes: "takes_back P p as_of c x"
        using c(3,4) side leg_intent_reduce[OF Inr] unfolding takes_back_def by (elim leg_intentE) auto
      obtain out W1 where send: "send_leg (logged_carry V) p cfg x ks W = (out, W1)" by fastforce
      from send show ?thesis
      proof (cases rule: send_leg_log)
        case (1 e)
        then have "W' = W1" using Cons.prems(1) leg False Inr send by simp
        then show ?thesis using 1(2) undoes c(1,2) by (auto intro: exI[of _ "[]"] exI[of _ "[x]"])
      next
        case (2 undone ks1 v)
        show ?thesis
        proof (cases "fl_quantity undone = fl_quantity f")
          case True
          then have "unwind (logged_carry V) p cfg sy price as_of fs ks1 W1 = (res, W')" using Cons.prems(1) leg False Inr send 2(1) by simp
          from Cons.IH[OF this Cons.prems(2)] Cons.prems(3) obtain new where
            "sent_log W' = sent_log W1 @ new" "\<forall>x\<in>set new. \<exists>c\<in>set cs. closing_of p as_of sy l c \<and> takes_back P p as_of c x" by auto
          then show ?thesis using 2(2) undoes c(1,2) by (intro exI[of _ "x # new"]) auto
        next
          case False
          then have "W' = W1" using Cons.prems(1) leg \<open>\<not> is_empty f\<close> Inr send 2(1) by simp
          then show ?thesis using 2(2) undoes c(1,2) by (intro exI[of _ "[x]"]) auto
        qed
      qed
    qed
  qed (use Cons leg in simp)
qed simp

lemma trade_pair_asks:
  assumes "trade_pair (logged_carry V) p cfg sy e q price as_of False (Some (own_sizes l)) ks W = (res, W')" "cv_port V = P"
  shows "asks (closings P p as_of (closing_of p as_of sy l)) W W'"
proof -
  let ?C = "closing_of p as_of sy l"
  obtain out W1 where legs: "send_legs (logged_carry V) p cfg sy price as_of False (Some (own_sizes l)) leg_order q [] ks W = (out, W1)" by fastforce
  have order: "set leg_order \<subseteq> {Spot, Perpetual}" by (simp add: leg_order_def)
  from send_legs_asks[OF legs order] assms(2) obtain cs where cs: "sent_log W1 = sent_log W @ cs" "list_all ?C cs"
    and filled: "\<And>ok filled ks'. out = Inr (ok, filled, ks') \<Longrightarrow> set filled \<subseteq> {leg. \<exists>c\<in>set cs. answered P leg c}" by auto
  have cs_ok: "closings P p as_of ?C (cs @ new)" if "\<forall>x\<in>set new. \<exists>c\<in>set cs. ?C c \<and> takes_back P p as_of c x" for new
    using that cs(2) unfolding closings_def list_all_iff by auto
  show ?thesis
  proof (cases out)
    case (Inl err)
    then show ?thesis using assms(1) legs cs cs_ok[of "[]"] by (auto simp: trade_pair_def asks_def)
  next
    case (Inr z)
    obtain balanced fs ks1 where z: "z = (balanced, fs, ks1)" by (cases z)
    show ?thesis
    proof (cases "balanced \<and> is_neutral (Some (own_sizes l)) fs")
      case True
      then have "W' = W1" using assms(1) legs Inr z by (auto simp: trade_pair_def elim: and_then_cases)
      then show ?thesis using cs cs_ok[of "[]"] by (auto simp: asks_def)
    next
      case False
      obtain u W2 where undo: "unwind (logged_carry V) p cfg sy price as_of fs (carry_refuse Pair_Did_Not_Balance ks1) W1 = (u, W2)" by fastforce
      have "\<forall>leg\<in>set fs. \<exists>c\<in>set cs. ?C c \<and> answered P leg c" using filled[OF Inr[unfolded z]] cs(2) by (auto simp: list_all_iff)
      from unwind_asks[OF undo assms(2) this] obtain new where
        "sent_log W2 = sent_log W1 @ new" "\<forall>x\<in>set new. \<exists>c\<in>set cs. ?C c \<and> takes_back P p as_of c x" by blast
      moreover have "W' = W2" using assms(1) legs Inr z False undo by (auto simp: trade_pair_def elim: and_then_cases)
      ultimately show ?thesis using cs(1) cs_ok by (auto simp: asks_def)
    qed
  qed
qed

end

text \<open>A leg of a name of the universe, held when the closing began.\<close>

definition closing_leg :: "nat \<Rightarrow> int \<Rightarrow> (nat \<times> pair_symbols) list \<Rightarrow> (string \<times> legs) list \<Rightarrow> intent \<Rightarrow> bool" where
  "closing_leg p as_of named held x \<longleftrightarrow>
     (\<exists>e sy l. map_of named e = Some sy \<and> map_of held (sy_asset sy) = Some l \<and> closing_of p as_of sy l x)"

lemma closings_mono: "closings P p as_of C xs \<Longrightarrow> (\<And>x. C x \<Longrightarrow> D x) \<Longrightarrow> closings P p as_of D xs"
  unfolding closings_def by blast

lemma rows_asks:
  assumes "cycle_rows step rows cy W = (res, W')" "\<And>r cy W. asks (closings P p as_of C) W (snd (step r cy W))"
  shows "asks (closings P p as_of C) W W'"
  using assms(1)
proof (induction rows arbitrary: cy W)
  case (Cons r rows)
  show ?case
    using Cons.prems[unfolded cycle_rows.simps] assms(2)
    by (rule and_then_asks) (use Cons.IH in \<open>auto split: prod.splits option.splits intro: asks_nothing\<close>)
qed (simp add: asks_nothing)

context pair_venue
begin

lemma trade_name_asks:
  assumes "cv_port V = P"
  shows "asks (closings P p as_of (closing_leg p as_of named held)) W
    (snd (trade_name (logged_carry V) p cfg dk as_of named False (held_size held) e st W))"
proof -
  obtain ks pairs where st: "st = (ks, pairs)" by (cases st)
  let ?t = "trade_name (logged_carry V) p cfg dk as_of named False (held_size held) e st W"
  show ?thesis
  proof (cases "map_of named e = None \<or> price_at (kd_audience dk) e as_of (cv_name V) (kd_claims dk) = None
      \<or> map_of held (sy_asset (the (map_of named e))) = None")
    case True
    then have "snd ?t = W"
      by (auto simp: trade_name_def st held_size_def logged_name split: option.split)
    then show ?thesis by simp
  next
    case False
    then obtain sy price l where some: "map_of named e = Some sy" "map_of held (sy_asset sy) = Some l"
      "price_at (kd_audience dk) e as_of (cv_name V) (kd_claims dk) = Some price" by auto
    obtain out W1 where pair: "trade_pair (logged_carry V) p cfg sy e (lg_spot l) price as_of False (Some (own_sizes l)) ks W = (out, W1)"
      by fastforce
    then have "snd ?t = W1"
      using some by (cases out) (auto simp: trade_name_def st held_size_def logged_name)
    moreover have "closing_leg p as_of named held x" if "closing_of p as_of sy l x" for x
      using that some unfolding closing_leg_def by blast
    ultimately show ?thesis
      using trade_pair_asks[OF pair assms] closings_mono unfolding asks_def by blast
  qed
qed

lemma snd_then_asks:
  "asks (closings Q p t C) W (snd m) \<Longrightarrow> (\<And>x W1. asks (closings Q p t C) W1 (snd (f x W1))) \<Longrightarrow> asks (closings Q p t C) W (snd (and_then m f))"
  by (rule and_then_asks[OF prod.collapse[symmetric]]) (metis snd_conv)+

lemma snd_pure_asks: "(\<And>x. asks (closings Q p t C) W (snd (f x W))) \<Longrightarrow> asks (closings Q p t C) W (snd (and_then (m, W) f))"
  by (cases m) (simp_all add: asks_nothing)

lemma wind_down_asks:
  assumes "wind_down_book (logged_carry V) p cfg dk ids stamp since owner W = (res, W')" "cv_port V = P"
  shows "W' = W \<or> (\<exists>named asset_of book held. open_book (logged_carry V) p dk ids W = Inr (named, asset_of, book, held)
    \<and> asks (closings P p (snd stamp) (closing_leg p (snd stamp) named held)) W W')"
proof (cases "open_book (logged_carry V) p dk ids W")
  case (Inl e)
  then show ?thesis using assms(1) by (auto simp: wind_down_book_def Let_def split: if_splits)
next
  case (Inr z)
  obtain named asset_of book held where z: "z = (named, asset_of, book, held)" by (cases z)
  let ?K = "closings P p (snd stamp) (closing_leg p (snd stamp) named held)"
  have settled: "asks ?K V1 (snd (settle_known (logged_carry V) p dk named due ks V1))" for due ks V1
  proof -
    have "carry_moves (logged_carry V) p (\<lambda>_. False) V1 (snd (settle_known (logged_carry V) p dk named due ks V1))"
      by (rule settle_known_moves[OF prod.collapse[symmetric]])
    from carry_moves_log[OF this assms(2)] show ?thesis by (intro asks_nothing) (auto simp: log_grows_def list_all_iff)
  qed
  have rows: "asks ?K V1 (snd (cycle_rows (trade_name (logged_carry V) p cfg dk (snd stamp) named False (held_size held)) es st V1))" for es st V1
    by (rule rows_asks[OF prod.collapse[symmetric]]) (rule trade_name_asks[OF assms(2)])
  have "asks ?K W (snd (wind_down_book (logged_carry V) p cfg dk ids stamp since owner W))"
    unfolding wind_down_book_def Let_def Inr z and_then_simps prod.case
    by (auto split: prod.split intro!: snd_pure_asks snd_then_asks rows settled)
  then show ?thesis using assms(1) Inr z by simp
qed

end

text \<open>C16. Closing the book sends nothing but the closing of what is held. Every order a closing sends is marked as reducing and
  is one of two: it closes, in full, a leg that the book held when the closing began -- it sells the whole spot position or
  buys back the whole short perpetual position of a name -- or it takes back such an order of the same closing, on the other
  side, in the quantity that the venue answered to have filled of it.\<close>

theorem wind_down_closes_what_is_held:
  assumes "pair_venue (cv_port V)" "wind_down_book (logged_carry V) p cfg dk ids stamp since owner W = (res, W')"
  shows "\<exists>new. sent_log W' = sent_log W @ new \<and> (new = [] \<or> (\<exists>named asset_of book held.
      open_book (logged_carry V) p dk ids W = Inr (named, asset_of, book, held)
      \<and> (\<forall>x\<in>set new. closing_leg p (snd stamp) named held x
          \<or> (\<exists>c\<in>set new. closing_leg p (snd stamp) named held c \<and> takes_back (cv_port V) p (snd stamp) c x))))"
  using pair_venue.wind_down_asks[OF assms refl] unfolding asks_def closings_def by fastforce

section \<open>Orders and settlements that stay\<close>

lemma order_by_id_other:
  assumes "i \<noteq> j" "\<And>r. od_id (f r) = od_id r"
  shows "order_by_id (update_order i f (insert_event i st ext pl L)) j = order_by_id L j"
proof -
  have "find (\<lambda>r. od_id r = j) (map (\<lambda>r. if od_id r = i then f r else r) rs) = find (\<lambda>r. od_id r = j) rs" for rs
    using assms by (induction rs) auto
  then show ?thesis by (simp add: order_by_id_def)
qed

lemma record_intent_keeps: "record_intent p x L = Inr (i, L1) \<Longrightarrow> order_by_id L j = Some row \<Longrightarrow> order_by_id L1 j = Some row"
  by (erule record_intentE) (auto simp: order_by_id_def find_append)

lemma transition_keeps: "transition i target ext pl L = Inr L' \<Longrightarrow> i \<noteq> j \<Longrightarrow> order_by_id L' j = order_by_id L j"
  by (erule transitionE) (simp add: order_by_id_other)

lemma record_fill_keeps: "record_fill i f L = Inr L' \<Longrightarrow> i \<noteq> j \<Longrightarrow> order_by_id L' j = order_by_id L j"
  by (auto simp: record_fill_def rbind_eq_Inr order_by_id_other elim!: record_finite_fillE)

text \<open>A leg touches no order but its own, which was still an intent.\<close>

lemma sent_keeps:
  assumes "sent P p x W i L a v" "order_by_id (wd_ledger W) j = Some row" "od_status row \<noteq> Intent"
  shows "i \<noteq> j \<and> order_by_id L j = Some row"
proof -
  from assms(1) obtain L1 r where r: "record_intent p x (wd_ledger W) = Inr (i, L1)" "order_by_id L1 i = Some r" "od_status r = Intent"
    "transition i Submitted None None L1 = Inr L" by (auto simp: sent_def)
  note row = record_intent_keeps[OF r(1) assms(2)]
  with r(2,3) assms(3) have "i \<noteq> j" by auto
  with row transition_keeps[OF r(4)] show ?thesis by simp
qed

lemma leg_done_keeps:
  assumes "leg_done P p x W res W'" "order_by_id (wd_ledger W) j = Some row" "od_status row \<noteq> Intent"
  shows "order_by_id (wd_ledger W') j = Some row"
  using assms(1)
proof (cases rule: leg_done.cases)
  case (Only_Recorded i L e)
  then show ?thesis using assms(2) by (auto intro: record_intent_keeps)
next
  case (Failed i L a v e)
  then show ?thesis using sent_keeps[OF Failed(3) assms(2,3)] by simp
next
  case (Outcome_Lost i L a v ext pl L')
  then show ?thesis using sent_keeps[OF Outcome_Lost(3) assms(2,3)] transition_keeps[OF Outcome_Lost(4)] by simp
next
  case (Declined i L f v pl L')
  then show ?thesis using sent_keeps[OF Declined(3) assms(2,3)] transition_keeps[OF Declined(5)] by simp
next
  case (Booked i L f v st L' B)
  then have "record_fill i f L = Inr L'" by (auto simp: record_and_apply_fill_def result_simps)
  then show ?thesis using Booked sent_keeps[OF Booked(3) assms(2,3)] record_fill_keeps[of i f L L' j] by simp
qed (use assms(2) in simp)

lemma carry_moves_keep:
  assumes "carry_moves V p Q W W'" "order_by_id (wd_ledger W) j = Some row" "od_status row \<noteq> Intent"
  shows "order_by_id (wd_ledger W') j = Some row"
  using assms(1)
proof (induction rule: rtranclp_induct)
  case (step W1 W2)
  from step.hyps(2) show ?case
    by (cases rule: carry_move.cases) (use step.IH assms(3) leg_done_keeps in auto)
qed (rule assms(2))

text \<open>The carry book of a portfolio at work: rebalances and closings, at any instant and with any claims.\<close>

inductive carry_step :: "'v carry_venue \<Rightarrow> nat \<Rightarrow> 'v world \<Rightarrow> 'v world \<Rightarrow> bool" for V p where
  Rebalanced: "run_carry_cycle V p cfg dk ids stamp since W = (res, W') \<Longrightarrow> carry_step V p W W'"
| Wound_Down: "wind_down_book V p cfg dk ids stamp until owner W = (res, W') \<Longrightarrow> carry_step V p W W'"

lemma carry_steps_keep:
  assumes "(carry_step V p)\<^sup>*\<^sup>* W W'" "order_by_id (wd_ledger W) j = Some row" "od_status row \<noteq> Intent"
  shows "order_by_id (wd_ledger W') j = Some row"
  using assms(1)
proof (induction rule: rtranclp_induct)
  case (step W1 W2)
  from step.hyps(2) obtain Q where "carry_moves V p Q W1 W2"
    by (cases rule: carry_step.cases) (blast dest: run_carry_cycle_moves wind_down_moves)+
  then show ?case using step.IH assms(3) by (rule carry_moves_keep)
qed (rule assms(2))

text \<open>C17. The carry book never settles an order it left open. Once an order of the portfolio is unsettled (submitted, acknowledged or
  partially filled), it stays so through any number of rebalances and closings, and every rebalance after that sends
  nothing, touches no order, and halts, abstains or raises: also when the open order is a partial fill whose quantity
  was taken back in full.\<close>

theorem unsettled_leg_blocks_for_good:
  assumes "unsettled_orders (wd_ledger W) p \<noteq> []" "ledger_inv (wd_ledger W)" "(carry_step V p)\<^sup>*\<^sup>* W W1"
    and "run_carry_cycle V p cfg dk ids stamp since W1 = (res, W2)"
  shows "wd_ledger W2 = wd_ledger W1 \<and> unsettled_orders (wd_ledger W2) p \<noteq> []
    \<and> (\<forall>r. res = Inr r \<longrightarrow> (ct_halted r \<or> ct_abstention r \<noteq> None) \<and> ct_opened r = [] \<and> ct_closed r = [])"
proof -
  obtain row where "row \<in> set (unsettled_orders (wd_ledger W) p)" using assms(1) by fastforce
  then have row: "row \<in> set (ld_orders (wd_ledger W))" "od_portfolio row = p" "unsettled_status (od_status row)"
    by (auto simp: unsettled_orders_def)
  then have "od_status row \<noteq> Intent" by (auto simp: unsettled_status_def)
  from carry_steps_keep[OF assms(3) order_by_id_mem[OF assms(2) row(1)] this] row(2,3)
  have "unsettled_orders (wd_ledger W1) p \<noteq> []" by (rule unsettledI)
  with unsettled_order_blocks_rebalance[OF assms(4) this] show ?thesis by simp
qed







text \<open>Two positions of one asset and market, under two spellings, are not added up: the later one stands for the leg.\<close>

lemma second_spelling_hides_leg:
  assumes "po_venue x = venue" "po_market_type x = Spot" "dict_get asset_of (po_symbol x) (po_symbol x) = asset"
  shows "lg_spot (the (map_of (legs_by_asset (st\<lparr>st_positions := xs @ [x]\<rparr>) venue asset_of) asset)) = po_quantity x"
  using assms by (simp add: legs_by_asset_def add_leg_def Let_def update_conv')

section \<open>A book at work\<close>

text \<open>Two assets whose price is 1, at a venue that fills lots and agrees with the cash of the book.\<close>

definition desk_rate :: "nat \<Rightarrow> int \<Rightarrow> decimal \<Rightarrow> claim" where
  "desk_rate e t rate = \<lparr>cl_entity = e, cl_type = Funding_Rate, cl_key = ''b:X'', cl_value = Some [(''rate'', Amount (Fin rate))],
     cl_event = t, cl_known = t, cl_audience = Some 5, cl_allowed = False, cl_superseded = False\<rparr>"

definition desk_price :: "nat \<Rightarrow> claim" where
  "desk_price e = \<lparr>cl_entity = e, cl_type = Price_Snapshot, cl_key = ''b:X'',
     cl_value = Some [(''venue'', Label ''v''), (''close'', Amount (Fin 1))], cl_event = 1, cl_known = 1,
     cl_audience = Some 5, cl_allowed = True, cl_superseded = False\<rparr>"

definition lot_desk :: carry_desk where
  "lot_desk = \<lparr>kd_entities = [(1, Some ''B''), (2, Some ''C'')], kd_claims = [desk_rate 1 2 2, desk_rate 1 3 2, desk_rate 2 2 1,
     desk_rate 2 3 1, desk_price 1, desk_price 2], kd_audience = Some 5\<rparr>"

definition desk_venue :: "nat carry_venue" where
  "desk_venue = lot_venue\<lparr>cv_port := lot_port\<lparr>vp_view := (\<lambda>_. paper_view (sample_venue\<lparr>pv_name := ''v'', pv_balances := [(''U'', 100)]\<rparr>))\<rparr>\<rparr>"

definition desk_config :: carry_config where
  "desk_config = lot_config\<lparr>kc_enter := 1, kc_exit := 1\<rparr>"

definition lot_position :: "market_type \<Rightarrow> decimal \<Rightarrow> position_row" where
  "lot_position mt q = \<lparr>ps_portfolio = 0, ps_venue = ''v'', ps_symbol = ''B'', ps_market = mt, ps_quantity = q, ps_entry = 1, ps_at = 0\<rparr>"

definition holding_world :: "position_row list \<Rightarrow> nat world" where
  "holding_world rows = lot_world\<lparr>wd_book := lot_book\<lparr>bk_positions := rows,
     bk_cash := [\<lparr>ca_portfolio = 0, ca_venue = ''v'', ca_asset = ''U'', ca_free = 100, ca_locked = 0, ca_at = 0\<rparr>]\<rparr>\<rparr>"

definition desk_named :: "(nat \<times> pair_symbols) list" where
  "desk_named = [(1, lot_pair), (2, \<lparr>sy_asset = ''C'', sy_spot = ''C'', sy_perp = ''C''\<rparr>)]"

abbreviation desk_names :: "(string \<times> string) list" where
  "desk_names \<equiv> [(''B'', ''B''), (''C'', ''C'')]"

definition desk_verdict :: reconciliation where
  "desk_verdict = \<lparr>rr_reconciled = True, rr_found = [], rr_at = 4, rr_venue = ''v''\<rparr>"

definition desk_start :: "nat world" where
  "desk_start = snd (record_verdict 0 desk_verdict (holding_world []))"

lemma desk_gates:
  "\<exists>book. gates_open desk_venue 0 desk_config lot_desk [1, 2] 4 (holding_world []) desk_named desk_names book [] desk_verdict"
proof -
  have "rbind (open_book desk_venue 0 lot_desk [1, 2] (holding_world [])) (\<lambda>(named, asset_of, book, held).
      ensure (named = desk_named \<and> asset_of = desk_names \<and> held = [] \<and> carry_risk 0 book desk_config 4 (holding_world []) = Inr []
        \<and> carry_verdict desk_venue desk_config 4 book 0 = Inr desk_verdict) Type_Error) = Inr ()" by code_simp
  then obtain book where "open_book desk_venue 0 lot_desk [1, 2] (holding_world []) = Inr (desk_named, desk_names, book, [])"
    "carry_risk 0 book desk_config 4 (holding_world []) = Inr []" "carry_verdict desk_venue desk_config 4 book 0 = Inr desk_verdict"
    by (auto simp: result_simps)
  moreover have "supports (vp_caps (cv_port desk_venue)) Spot" "supports (vp_caps (cv_port desk_venue)) Perpetual" by code_simp+
  moreover have "wd_venue (holding_world []) = 0" "rr_reconciled desk_verdict"
    by (simp_all add: holding_world_def lot_world_def desk_verdict_def)
  ultimately show ?thesis by (auto simp: gates_open_def unpaired_def unresolved_def)
qed

lemma desk_selects:
  "\<exists>d. select_carry_basket (kd_claims lot_desk) [1, 2] (Some 5) 4 {} 1 1 ''b'' 7 2 = Inr d
    \<and> bd_abstention d = None \<and> bd_entered d = {1} \<and> bd_exited d = {}"
proof -
  have window: "funding_window [1, 2] (Some 5) 4 7 ''b'' (kd_claims lot_desk)
      = [(1, [(2, Fin 2), (3, Fin 2)]), (2, [(2, Fin 1), (3, Fin 1)])]" by code_simp
  have scores: "window_scores 2 [(1, [(2, Fin 2), (3, Fin 2)]), (2, [(2, Fin 1), (3, Fin 1)])] = [(1, Fin 2), (2, Fin 1)]" by code_simp
  have ranked: "rank_names [(1 :: nat, Fin 2), (2, Fin 1)] = [1, 2]" by code_simp
  have basket: "new_basket (nat 1) (nat 1) [1, 2] ({} :: nat set) = [1]" by code_simp
  show ?thesis
    unfolding select_carry_basket_def Let_def window scores select_basket_def ranked basket
    by (simp add: MIN_SETTLEMENTS_def minimum_universe_def UNIVERSE_MULTIPLE_OF_ENTER_def)
qed

lemma desk_trades:
  "\<exists>ks pairs W book. trade_name desk_venue 0 desk_config lot_desk 4 desk_named True (entry_size desk_config) 1 (start_carry, []) desk_start
      = (Inr ((ks, pairs), None), W) \<and> load 0 (wd_book W) = Inr book \<and> unpaired (legs_by_asset book ''v'' desk_names) = []"
proof -
  have price: "price_at (Some 5) 1 4 ''v'' (kd_claims lot_desk) = Some 1" by code_simp
  have name: "cv_name desk_venue = ''v''" "kd_audience lot_desk = Some 5" by code_simp+
  have five: "ddiv (kc_notional desk_config) 1 = 5" by code_simp
  have same: "trade_name desk_venue 0 desk_config lot_desk 4 desk_named True (entry_size desk_config) 1 (start_carry, []) desk_start
      = trade_name desk_venue 0 desk_config lot_desk 4 desk_named True (\<lambda>sy price. Inr (5, None)) 1 (start_carry, []) desk_start"
    unfolding trade_name_def name price by (auto simp: entry_size_def five split: option.split)
  have "case trade_name desk_venue 0 desk_config lot_desk 4 desk_named True (\<lambda>sy price. Inr (5, None)) 1 (start_carry, []) desk_start of
      (Inr ((ks, pairs), h), W) \<Rightarrow> h = None \<and> (case load 0 (wd_book W) of
          Inr book \<Rightarrow> unpaired (legs_by_asset book ''v'' desk_names) = [] | Inl e \<Rightarrow> False)
    | (Inl e, W) \<Rightarrow> False" by code_simp
  then show ?thesis unfolding same by (auto split: prod.splits sum.splits)
qed

lemma desk_cycle:
  "\<exists>r W. run_carry_cycle desk_venue 0 desk_config lot_desk [1, 2] (True, 4) (True, 1) (holding_world []) = (Inr r, W)
    \<and> \<not> ct_halted r \<and> ct_abstention r = None \<and> ct_reason r = None \<and> ct_as_of r = 4 \<and> ct_settled r = Some 4"
proof -
  obtain book0 where gates: "gates_open desk_venue 0 desk_config lot_desk [1, 2] 4 (holding_world []) desk_named desk_names book0 [] desk_verdict"
    using desk_gates by blast
  obtain d where d: "select_carry_basket (kd_claims lot_desk) [1, 2] (Some 5) 4 {} 1 1 ''b'' 7 2 = Inr d"
    "bd_abstention d = None" "bd_entered d = {1}" "bd_exited d = {}" using desk_selects by blast
  obtain ks pairs W book where trade: "trade_name desk_venue 0 desk_config lot_desk 4 desk_named True (entry_size desk_config) 1 (start_carry, []) desk_start
      = (Inr ((ks, pairs), None), W)" "load 0 (wd_book W) = Inr book" "unpaired (legs_by_asset book ''v'' desk_names) = []"
    using desk_trades by blast
  have cfg: "kc_enter desk_config = 1" "kc_exit desk_config = 1" "kc_funding_venue desk_config = ''b''" "kc_lookback desk_config = 7"
    "kc_minimum desk_config = 2" "cv_name desk_venue = ''v''" "kd_audience lot_desk = Some 5"
    by (simp_all add: desk_config_def lot_config_def desk_venue_def lot_venue_def lot_port_def lot_desk_def)
  have none: "unsettled_orders (wd_ledger desk_start) 0 = []" by code_simp
  have basket: "trade_basket desk_venue 0 desk_config lot_desk 4 desk_named [] d start_carry desk_start = (Inr (ks, pairs, [], None), W)"
    using trade(1) by (simp add: trade_basket_def none d sorted_names_def)
  have run: "fund_and_rebalance desk_venue 0 desk_config lot_desk [1, 2] 4 1 desk_named desk_names [] (held_names (assets_of desk_named) [])
      desk_start = rebalance desk_venue 0 desk_config lot_desk [1, 2] 4 desk_named desk_names [] {} [] start_carry desk_start"
    by (simp add: fund_and_rebalance_def held_names_def sorted_names_def settlements_def value_settlements_def refuse_times_def)
  obtain r where r: "rebalance desk_venue 0 desk_config lot_desk [1, 2] 4 desk_named desk_names [] {} [] start_carry desk_start = (Inr r, W)"
    "\<not> ct_halted r" "ct_abstention r = None" "ct_reason r = None" "ct_as_of r = 4" "ct_settled r = Some 4"
    using d(1,2) basket trade(2,3) by (auto simp: rebalance_def cfg result_of_eq final_reason_def Let_def)
  from gates have "run_carry_cycle desk_venue 0 desk_config lot_desk [1, 2] (True, 4) (True, 1) (holding_world []) = (Inr r, W)"
    using run r(1) by (auto simp: run_carry_cycle_def gates_open_def desk_start_def Let_def split_beta)
  with r(2-6) show ?thesis by blast
qed

lemma unsafe_carry_trades_nothing_witness:
  "\<exists>res W. run_carry_cycle desk_venue 0 desk_config lot_desk [1, 2] (True, 4) (True, 1) (holding_world [lot_position Spot 5]) = (res, W)
    \<and> wd_venue W = 0 \<and> wd_ledger W = empty_ledger"
proof -
  let ?W = "holding_world [lot_position Spot 5]"
  have "rbind (open_book desk_venue 0 lot_desk [1, 2] ?W) (\<lambda>(named, asset_of, book, held).
      ensure (unpaired held \<noteq> []) Type_Error) = Inr ()" by code_simp
  then have "gates_closed desk_venue 0 desk_config lot_desk [1, 2] (snd (True, 4)) ?W"
    by (auto simp: gates_closed_def gates_open_def result_simps)
  moreover obtain res W where run: "run_carry_cycle desk_venue 0 desk_config lot_desk [1, 2] (True, 4) (True, 1) ?W = (res, W)" by fastforce
  ultimately show ?thesis
    using unsafe_carry_trades_nothing[OF run] by (auto simp: holding_world_def lot_world_def)
qed

lemma carry_result_means_witness:
  "\<exists>r W. run_carry_cycle desk_venue 0 desk_config lot_desk [1, 2] (True, 4) (True, 1) (holding_world []) = (Inr r, W) \<and> ct_settled r = Some 4"
  using desk_cycle carry_result_means by fastforce

lemma finished_cycle_holds_pairs_witness:
  "\<exists>r W book asset_of. run_carry_cycle desk_venue 0 desk_config lot_desk [1, 2] (True, 4) (True, 1) (holding_world []) = (Inr r, W)
    \<and> load 0 (wd_book W) = Inr book
    \<and> list_all (\<lambda>(k, l). 0 < lg_spot l \<and> lg_perp l < 0) (legs_by_asset book (cv_name desk_venue) asset_of)"
proof -
  obtain r W where run: "run_carry_cycle desk_venue 0 desk_config lot_desk [1, 2] (True, 4) (True, 1) (holding_world []) = (Inr r, W)"
    "\<not> ct_halted r" "ct_abstention r = None" using desk_cycle by blast
  from finished_cycle_holds_pairs[OF this] obtain book asset_of where "load 0 (wd_book W) = Inr book"
    "list_all (\<lambda>(k, l). 0 < lg_spot l \<and> lg_perp l < 0) (legs_by_asset book (cv_name desk_venue) asset_of)"
    unfolding list_all_iff by fastforce
  with run(1) show ?thesis by blast
qed

abbreviation paired_world :: "nat world" where
  "paired_world \<equiv> holding_world [lot_position Spot 5, lot_position Perpetual (- 5)]"

definition with_log :: "nat world \<Rightarrow> (nat \<times> intent list) world" where
  "with_log W = \<lparr>wd_ledger = wd_ledger W, wd_book = wd_book W, wd_results = wd_results W, wd_venue = (wd_venue W, [])\<rparr>"

definition lot_wind_down :: "carry_result trading \<times> (nat \<times> intent list) world" where
  "lot_wind_down = wind_down_book (logged_carry lot_venue) 0 lot_config lot_desk [1] (True, 4) 3
     (Some \<lparr>ow_venue = ''v'', ow_active = True, ow_proof = True\<rparr>) (with_log paired_world)"

lemma lot_wind_down_eq:
  "wind_down_book (logged_carry lot_venue) 0 lot_config lot_desk [1] (True, 4) 3 (Some \<lparr>ow_venue = ''v'', ow_active = True, ow_proof = True\<rparr>)
     (with_log paired_world) = (fst lot_wind_down, snd lot_wind_down)"
  by (simp add: lot_wind_down_def)

lemma lot_wind_down_sends: "length (sent_log (snd lot_wind_down)) = 2"
proof -
  let ?V = "logged_carry lot_venue" and ?legs = "[(''B'', \<lparr>lg_spot = 5, lg_perp = - 5\<rparr>)]"
  have "rbind (open_book ?V 0 lot_desk [1] (with_log paired_world)) (\<lambda>(named, asset_of, book, held).
      ensure (named = [(1, lot_pair)] \<and> held = ?legs) Type_Error) = Inr ()" by code_simp
  then obtain asset_of book where book: "open_book ?V 0 lot_desk [1] (with_log paired_world) = Inr ([(1, lot_pair)], asset_of, book, ?legs)"
    by (auto simp: result_simps)
  have held: "held_names (assets_of [(1, lot_pair)]) ?legs = {1}" "unpaired ?legs = []" "sorted_names {1} = [1]"
    "settlements [1] (Some 5) ''b'' 3 4 (kd_claims lot_desk) = []" by code_simp+
  have "case trade_name ?V 0 lot_config lot_desk 4 [(1, lot_pair)] False (held_size ?legs) 1 (start_carry, []) (with_log paired_world) of
      (Inr ((ks, pairs), h), W) \<Rightarrow> length (sent_log W) = 2 | (Inl e, W) \<Rightarrow> False" by code_simp
  then obtain ks pairs h W where trade: "trade_name ?V 0 lot_config lot_desk 4 [(1, lot_pair)] False (held_size ?legs) 1 (start_carry, [])
      (with_log paired_world) = (Inr ((ks, pairs), h), W)" "length (sent_log W) = 2"
    by (auto split: prod.splits sum.splits)
  have name: "vp_name (logged (cv_port lot_venue)) = ''v''" "kc_funding_venue lot_config = ''b''" "kd_audience lot_desk = Some 5"
    by (simp_all add: logged_def lot_venue_def lot_port_def lot_config_def lot_desk_def)
  have "snd lot_wind_down = W"
    using trade(1) unfolding lot_wind_down_def wind_down_book_def Let_def
    by (cases h) (simp_all add: book held name del: One_nat_def)
  with trade(2) show ?thesis by simp
qed

lemma lot_contract: "venue_contract (cv_port lot_venue)"
  using lots.venue_contract_axioms by (simp add: lot_venue_def)

lemma lot_pair_contract: "pair_venue (cv_port lot_venue)"
  using lots.pair_venue_axioms by (simp add: lot_venue_def)

lemma wind_down_closes_what_is_held_witness:
  "\<exists>x new. sent_log (snd lot_wind_down) = x # new \<and> in_reduce_only x"
proof -
  have start: "sent_log (with_log paired_world) = []" by (simp add: with_log_def holding_world_def lot_world_def)
  from lot_wind_down_sends obtain x new where log: "sent_log (snd lot_wind_down) = x # new"
    by (cases "sent_log (snd lot_wind_down)") auto
  from wind_down_closes_what_is_held[OF lot_pair_contract lot_wind_down_eq] have "in_reduce_only x"
    unfolding start log by (auto simp: closing_leg_def closing_of_def takes_back_def)
  with log show ?thesis by blast
qed

lemma leg_sent_at_most_once_witness:
  "\<exists>t. shared_run lot_venue (with_log paired_world) t (snd lot_wind_down) \<and> length t = 2 \<and> distinct (map decided t)"
proof -
  let ?t = "map (Leg_Order 0 (snd (True, 4))) (drop (length (sent_log (with_log paired_world))) (sent_log (snd lot_wind_down)))"
  have "shared_step lot_venue (with_log paired_world) ?t (snd lot_wind_down)"
    by (rule Wind_Down[OF lot_wind_down_eq])
  from Then[OF Nothing this] have run: "shared_run lot_venue (with_log paired_world) ?t (snd lot_wind_down)" by simp
  have start: "wd_ledger (with_log paired_world) = empty_ledger" "sent_log (with_log paired_world) = []"
    by (simp_all add: with_log_def holding_world_def lot_world_def)
  from leg_sent_at_most_once[OF lot_contract run] start ledger_inv_empty have "distinct (map decided ?t)" by simp
  moreover have "length ?t = 2" using start lot_wind_down_sends by simp
  ultimately show ?thesis using run by blast
qed

lemma unsettled_leg_blocks_for_good_witness:
  "\<exists>W ks. lot_trade 8 = (Inr (None, None, ks), W) \<and> bk_positions (wd_book W) = []
    \<and> wd_ledger (snd (run_carry_cycle desk_venue 0 desk_config lot_desk [1, 2] (True, 9) (True, 4) W)) = wd_ledger W"
proof -
  have "case lot_trade 8 of (Inr (a, h, ks), W) \<Rightarrow> h = None \<and> bk_positions (wd_book W) = [] \<and> unsettled_orders (wd_ledger W) 0 \<noteq> []
      \<and> (case a of Some x \<Rightarrow> False | None \<Rightarrow> True) | (Inl e, W) \<Rightarrow> False" by code_simp
  from trade_outcome[OF this] obtain ks W where
    W: "lot_trade 8 = (Inr (None, None, ks), W)" "bk_positions (wd_book W) = []" "unsettled_orders (wd_ledger W) 0 \<noteq> []"
    by (auto split: option.splits)
  have "carry_moves lot_venue 0 (carry_intent 0 3 UNIV) lot_world W"
    using trade_pair_moves[OF W(1)[unfolded lot_trade_def], of UNIV] by simp
  then have "ledger_run (wd_ledger lot_world) (wd_ledger W)"
    by (rule venue_contract.carry_moves_ledger[OF lot_contract _ refl])
  then have "ledger_inv (wd_ledger W)" using ledger_run_inv ledger_inv_empty by (auto simp: lot_world_def)
  from unsettled_leg_blocks_for_good[OF W(3) this rtranclp.rtrancl_refl prod.collapse[symmetric]] W(1,2) show ?thesis by blast
qed



end
