(* ===== verification/Carry_Runner.thy ===== *)
theory Carry_Runner
  imports Carry_Properties
begin

text \<open>
  When a rebalance of the carry book runs and what it settles: \<open>src/omni/trading/carry_runner.py\<close> with the universe filter of
  \<open>trading/tradeable.py\<close>, and the NAV point of \<open>trading/nav_job.py\<close>. The tables \<open>carry_cycle\<close> and \<open>carry_refusal\<close> are
  lists in insertion order; whether the advisory lock is free and the quotes of the venue are parameters. The texts of
  refusals, the log and the command line are left out.

  The lemmas show that the funding windows of a book tile the time since its origin, whoever else writes the log.
\<close>

section \<open>The log of cycles and refusals\<close>

definition REBALANCE_PERIOD :: int where "REBALANCE_PERIOD = 42 * DAY_MICROS"

definition HOUR_MICROS :: int where "HOUR_MICROS = 3600000000"

datatype guard = Outside_Window | No_Recorded_Cycle | Instant_Covered | Inside_Hold | No_Affordable_Name | Cycle_Owned

record cycle_entry =
  ce_portfolio :: nat
  ce_venue :: string
  ce_as_of :: int
  ce_since :: int
  ce_settled :: "int option"
  ce_halted :: bool
  ce_reason :: "carry_halt option"
  ce_abstention :: "abstention option"
  ce_collected :: decimal
  ce_fees :: decimal
  ce_cost :: decimal
  ce_opened :: nat
  ce_closed :: nat
  ce_held :: nat

record boundary =
  bn_opens :: "int option"
  bn_last :: "int option"
  bn_completed :: "int option"

record refusal_entry =
  re_portfolio :: nat
  re_venue :: string
  re_at :: int
  re_guard :: guard
  re_known :: "boundary option"
  re_due :: "int option"

record run_log =
  rl_cycles :: "cycle_entry list"
  rl_refusals :: "refusal_entry list"

fun greatest :: "int list \<Rightarrow> int option" where
  "greatest [] = None"
| "greatest (t # ts) = Some (fold max ts t)"

fun least :: "int list \<Rightarrow> int option" where
  "least [] = None"
| "least (t # ts) = Some (fold min ts t)"

definition entries :: "nat \<Rightarrow> string \<Rightarrow> cycle_entry list \<Rightarrow> cycle_entry list" where
  "entries p venue = filter (\<lambda>c. ce_portfolio c = p \<and> ce_venue c = venue)"

definition read_boundary :: "nat \<Rightarrow> string \<Rightarrow> run_log \<Rightarrow> boundary" where
  "read_boundary p venue lg =
     (let rows = entries p venue (rl_cycles lg) in
      \<lparr>bn_opens = (case greatest (List.map_filter ce_settled rows) of Some t \<Rightarrow> Some t | None \<Rightarrow> least (map ce_since rows)),
       bn_last = greatest (map ce_as_of rows),
       bn_completed = greatest (map ce_as_of (filter (\<lambda>c. \<not> ce_halted c) rows))\<rparr>)"

text \<open>The primary key and the checks of \<open>carry_cycle\<close>.\<close>

definition entry_checks :: "cycle_entry list \<Rightarrow> cycle_entry \<Rightarrow> bool" where
  "entry_checks rows c \<longleftrightarrow> (ce_portfolio c, ce_venue c, ce_as_of c) \<notin> set (map (\<lambda>r. (ce_portfolio r, ce_venue r, ce_as_of r)) rows)
     \<and> (ce_halted c \<longleftrightarrow> ce_reason c \<noteq> None) \<and> ce_since c \<le> ce_as_of c \<and> ce_settled c \<in> {None, Some (ce_as_of c)}
     \<and> (ce_abstention c = None \<or> ce_opened c = 0 \<and> ce_closed c = 0) \<and> ce_venue c \<noteq> []"

definition record_cycle :: "nat \<Rightarrow> string \<Rightarrow> int \<Rightarrow> carry_result \<Rightarrow> run_log \<Rightarrow> run_log trading" where
  "record_cycle p venue since r lg =
     (let c = \<lparr>ce_portfolio = p, ce_venue = venue, ce_as_of = ct_as_of r, ce_since = since, ce_settled = ct_settled r,
        ce_halted = ct_halted r, ce_reason = ct_reason r, ce_abstention = ct_abstention r, ce_collected = ct_collected r,
        ce_fees = ct_fees r, ce_cost = ct_cost r, ce_opened = length (ct_opened r), ce_closed = length (ct_closed r),
        ce_held = card (ct_held r)\<rparr> in
      rbind (ensure (entry_checks (rl_cycles lg) c) Integrity_Error) (\<lambda>_. Inr (lg\<lparr>rl_cycles := rl_cycles lg @ [c]\<rparr>)))"

text \<open>A refusal at an instant that has one already is not inserted again, and a failure to insert is swallowed.\<close>

definition record_refusal :: "nat \<Rightarrow> string \<Rightarrow> int \<Rightarrow> guard \<Rightarrow> boundary option \<Rightarrow> book \<Rightarrow> run_log \<Rightarrow> run_log" where
  "record_refusal p venue now g known B lg =
     (let completed = (case known of None \<Rightarrow> None | Some k \<Rightarrow> bn_completed k);
          e = \<lparr>re_portfolio = p, re_venue = venue, re_at = now, re_guard = g, re_known = known,
            re_due = map_option (\<lambda>t. t + REBALANCE_PERIOD) completed\<rparr> in
      if (p, venue, now) \<in> set (map (\<lambda>r. (re_portfolio r, re_venue r, re_at r)) (rl_refusals lg))
        \<or> portfolio_base B p = None \<or> venue = [] then lg
      else lg\<lparr>rl_refusals := rl_refusals lg @ [e]\<rparr>)"

section \<open>The guards\<close>

definition in_rebalance_window :: "instant \<Rightarrow> bool trading" where
  "in_rebalance_window stamp =
     rbind (ensure (fst stamp) Invalid_Value) (\<lambda>_.
     let hour = (snd stamp mod DAY_MICROS) div HOUR_MICROS in Inr (3 \<le> hour \<and> hour < 7))"

record run_request =
  rq_portfolio :: nat
  rq_config :: carry_config
  rq_ids :: "nat list"
  rq_inception :: "instant option"
  rq_ignore_window :: bool
  rq_ignore_cadence :: bool
  rq_ceiling :: "decimal option"
  rq_assets :: "(nat \<times> string) list option"

text \<open>The first guard that refuses, with the boundary it was taken against.\<close>

definition first_guard :: "run_request \<Rightarrow> int \<Rightarrow> boundary \<Rightarrow> (guard \<times> boundary option) option" where
  "first_guard rq now known =
     (if \<not> rq_ignore_window rq \<and> in_rebalance_window (True, now) \<noteq> Inr True then Some (Outside_Window, None)
      else if bn_opens known = None \<and> rq_inception rq = None then Some (No_Recorded_Cycle, Some known)
      else if (case bn_last known of Some t \<Rightarrow> now \<le> t | None \<Rightarrow> False) then Some (Instant_Covered, Some known)
      else if \<not> rq_ignore_cadence rq \<and> (case bn_completed known of Some t \<Rightarrow> now - t < REBALANCE_PERIOD | None \<Rightarrow> False)
        then Some (Inside_Hold, Some known)
      else None)"

section \<open>Names that are cheap enough\<close>

datatype afford_reason = Unresolvable | No_Pair_Listed | Unquotable

record affordable_name =
  an_entity :: nat
  an_asset :: string
  an_bps :: "decimal option"
  an_reason :: "afford_reason option"

definition affordable :: "affordable_name \<Rightarrow> bool" where
  "affordable a \<longleftrightarrow> an_bps a \<noteq> None \<and> an_reason a = None"

definition probe :: "'v carry_venue \<Rightarrow> string \<Rightarrow> side \<Rightarrow> market_type \<Rightarrow> int \<Rightarrow> decimal \<Rightarrow> intent trading" where
  "probe V symbol sd mt as_of quantity =
     check_intent \<lparr>in_venue = cv_name V, in_symbol = symbol, in_side = sd, in_market_type = mt, in_quantity = quantity,
       in_reference_price = 1, in_kind = Market, in_limit_price = None, in_stop_price = None, in_take_profit_price = None,
       in_expires_at = None, in_reduce_only = False, in_provenance = instant_text as_of,
       in_key = ''probe:'' @ cv_name V @ '':'' @ symbol @ '':'' @ instant_text as_of\<rparr>"

definition leg_bps :: "'v carry_venue \<Rightarrow> (intent \<Rightarrow> quote trading) \<Rightarrow> decimal \<Rightarrow> int \<Rightarrow> string \<times> side \<times> market_type \<Rightarrow> decimal trading" where
  "leg_bps V ask notional as_of leg =
     (let (symbol, sd, mt) = leg in
      rbind (probe V symbol sd mt as_of 1) (\<lambda>x.
      rbind (ask x) (\<lambda>touch.
      rbind (ensure (\<not> qt_expected_price touch \<le> 0) Venue_Unavailable) (\<lambda>_.
      rbind (probe V symbol sd mt as_of (ddiv notional (qt_expected_price touch))) (\<lambda>y.
      rbind (ask y) (\<lambda>sized.
      Inr (dmul (ddiv (dadd (qt_fee sized) (qt_slippage sized)) notional) BPS)))))))"

definition pair_names :: "'v carry_venue \<Rightarrow> string \<Rightarrow> (string option \<times> string option) trading" where
  "pair_names V asset =
     rbind (cv_symbol_for V asset Spot) (\<lambda>spot. rbind (cv_symbol_for V asset Perpetual) (\<lambda>perp. Inr (spot, perp)))"

definition measure_name :: "'v carry_venue \<Rightarrow> (intent \<Rightarrow> quote trading) \<Rightarrow> decimal \<Rightarrow> int \<Rightarrow> nat \<times> string \<Rightarrow> affordable_name trading" where
  "measure_name V ask notional as_of entity =
     (let (e, asset) = entity;
          dropped = (\<lambda>why. Inr \<lparr>an_entity = e, an_asset = asset, an_bps = None, an_reason = Some why\<rparr>) in
      case pair_names V asset of
        Inl err \<Rightarrow> if err \<in> {Invalid_Value, Venue_Unavailable} then dropped Unresolvable else Inl err
      | Inr (Some spot, Some perp) \<Rightarrow>
          (case rmap (leg_bps V ask notional as_of)
              [(spot, Buy, Spot), (perp, Sell, Perpetual), (spot, Sell, Spot), (perp, Buy, Perpetual)] of
             Inl err \<Rightarrow> if err = Venue_Unavailable then dropped Unquotable else Inl err
           | Inr bps \<Rightarrow> Inr \<lparr>an_entity = e, an_asset = asset, an_bps = Some (dsum bps), an_reason = None\<rparr>)
      | Inr _ \<Rightarrow> dropped No_Pair_Listed)"

definition affordability :: "'v carry_venue \<Rightarrow> (intent \<Rightarrow> quote trading) \<Rightarrow> (nat \<times> string) list \<Rightarrow> decimal \<Rightarrow> int \<Rightarrow> affordable_name list trading" where
  "affordability V ask assets notional as_of = rmap (measure_name V ask notional as_of) (sort_key snd assets)"

definition affordable_ids :: "affordable_name list \<Rightarrow> decimal \<Rightarrow> nat list trading" where
  "affordable_ids measured most =
     rbind (ensure (\<not> most \<le> 0) Invalid_Value) (\<lambda>_.
     Inr (map an_entity (filter (\<lambda>a. affordable a \<and> \<not> most < the (an_bps a)) measured)))"

text \<open>The universe the selector is given: all names, or those within the most.\<close>

definition universe :: "'v carry_venue \<Rightarrow> (intent \<Rightarrow> quote trading) \<Rightarrow> run_request \<Rightarrow> int \<Rightarrow> nat list trading" where
  "universe V ask rq now =
     (case rq_ceiling rq of
        None \<Rightarrow> Inr (rq_ids rq)
      | Some most \<Rightarrow>
          rbind (option_result Invalid_Value (rq_assets rq)) (\<lambda>assets.
          rbind (affordability V ask (List.map_filter (\<lambda>e. map_option (Pair e) (map_of assets e)) (remdups (rq_ids rq)))
            (kc_notional (rq_config rq)) now) (\<lambda>measured.
          affordable_ids measured most)))"

section \<open>Running a cycle that is due\<close>

datatype run_error = Refused guard | Failed trading_error

definition refuse_run :: "'v carry_venue \<Rightarrow> run_request \<Rightarrow> int \<Rightarrow> guard \<Rightarrow> boundary option \<Rightarrow> 'v world \<times> run_log
    \<Rightarrow> (run_error + carry_result) \<times> 'v world \<times> run_log" where
  "refuse_run V rq now g known S =
     (let (W, lg) = S in (Inl (Refused g), W, record_refusal (rq_portfolio rq) (cv_name V) now g known (wd_book W) lg))"

definition run_owned :: "'v carry_venue \<Rightarrow> ('v \<Rightarrow> intent \<Rightarrow> quote trading) \<Rightarrow> run_request \<Rightarrow> carry_desk \<Rightarrow> int \<Rightarrow> 'v world \<times> run_log
    \<Rightarrow> (run_error + carry_result) \<times> 'v world \<times> run_log" where
  "run_owned V ask rq dk now S =
     (let (W, lg) = S; p = rq_portfolio rq; known = read_boundary p (cv_name V) lg in
      case first_guard rq now known of
        Some (g, k) \<Rightarrow> refuse_run V rq now g k S
      | None \<Rightarrow>
          (let since = (case bn_opens known of Some t \<Rightarrow> (True, t) | None \<Rightarrow> the (rq_inception rq)) in
           case universe V (ask (wd_venue W)) rq now of
             Inl e \<Rightarrow> (Inl (Failed e), S)
           | Inr ids \<Rightarrow>
               if ids = [] \<and> rq_ceiling rq \<noteq> None then refuse_run V rq now No_Affordable_Name (Some known) S
               else
                 (case run_carry_cycle V p (rq_config rq) dk ids (True, now) since W of
                    (Inl e, W') \<Rightarrow> (Inl (Failed e), W', lg)
                  | (Inr r, W') \<Rightarrow>
                      (case record_cycle p (cv_name V) (snd since) r lg of
                         Inl e \<Rightarrow> (Inl (Failed e), W', lg)
                       | Inr lg' \<Rightarrow> (Inr r, W', lg')))))"

text \<open>\<open>locked\<close>: the advisory lock of the venue could be taken.\<close>

definition run_due_cycle :: "'v carry_venue \<Rightarrow> ('v \<Rightarrow> intent \<Rightarrow> quote trading) \<Rightarrow> run_request \<Rightarrow> carry_desk \<Rightarrow> instant \<Rightarrow> ownership option \<Rightarrow> bool
    \<Rightarrow> 'v world \<times> run_log \<Rightarrow> (run_error + carry_result) \<times> 'v world \<times> run_log" where
  "run_due_cycle V ask rq dk stamp owner locked S =
     (if \<not> fst stamp then (Inl (Failed Invalid_Value), S)
      else case owner of
        None \<Rightarrow> if locked then run_owned V ask rq dk (snd stamp) S else refuse_run V rq (snd stamp) Cycle_Owned None S
      | Some own \<Rightarrow>
          if \<not> ow_active own \<or> ow_venue own \<noteq> cv_name V \<or> \<not> ow_proof own then (Inl (Failed Invalid_Value), S)
          else run_owned V ask rq dk (snd stamp) S)"

section \<open>A NAV point\<close>

text \<open>Every name the venue may report a position under; \<open>held_symbol_aliases\<close> must exist here.\<close>

definition held_spellings :: "'v carry_venue \<Rightarrow> nat \<times> pair_symbols \<Rightarrow> (string \<times> nat) list \<Rightarrow> (string \<times> nat) list trading" where
  "held_spellings V named seen =
     (let (e, sy) = named in
      rfold (\<lambda>mt seen.
        rbind (cv_symbol_for V (sy_asset sy) mt) (\<lambda>symbol.
        rbind (case symbol of None \<Rightarrow> Inr seen | Some s \<Rightarrow> claim_symbol e s seen) (\<lambda>seen1.
        rbind (option_result Attribute_Error (cv_aliases V)) (\<lambda>aliases.
        rfold (claim_symbol e) (aliases (sy_asset sy) mt) seen1)))) [Spot, Perpetual] seen)"

definition mark_position :: "'v carry_venue \<Rightarrow> carry_desk \<Rightarrow> int \<Rightarrow> (string \<times> nat) list \<Rightarrow> position
    \<Rightarrow> ((string \<times> string) \<times> decimal) list \<Rightarrow> ((string \<times> string) \<times> decimal) list trading" where
  "mark_position V dk t entity_of x marks =
     (if po_venue x \<noteq> cv_name V then Inr marks
      else
        rbind (option_result Unmarked_Position (map_of entity_of (po_symbol x))) (\<lambda>e.
        rbind (option_result Unmarked_Position (price_at (kd_audience dk) e t (cv_name V) (kd_claims dk))) (\<lambda>price.
        Inr (AList.update (po_venue x, po_symbol x) price marks))))"

text \<open>\<open>Unmarkable\<close> is \<open>Unmarked_Position\<close>.\<close>

definition nav_point :: "'v carry_venue \<Rightarrow> nat \<Rightarrow> carry_desk \<Rightarrow> nat list \<Rightarrow> instant \<Rightarrow> book \<Rightarrow> (decimal \<times> book) trading" where
  "nav_point V p dk ids stamp B =
     rbind (ensure (fst stamp) Invalid_Value) (\<lambda>_.
     rbind (symbols_of V (kd_entities dk) ids) (\<lambda>named.
     rbind (rfold (held_spellings V) named []) (\<lambda>entity_of.
     rbind (load p B) (\<lambda>book.
     rbind (rfold (mark_position V dk (snd stamp) entity_of) (st_positions book) []) (\<lambda>marks.
     snapshot_nav p (\<lambda>k. map_option Fin (map_of marks k)) B)))))"

section \<open>Funding windows\<close>

text \<open>Windows that follow each other from an origin without gap or overlap.\<close>

fun tiled :: "int \<Rightarrow> (int \<times> int) list \<Rightarrow> bool" where
  "tiled t [] \<longleftrightarrow> True"
| "tiled t ((a, b) # ws) \<longleftrightarrow> a = t \<and> a \<le> b \<and> tiled b ws"

definition settled_windows :: "cycle_entry list \<Rightarrow> (int \<times> int) list" where
  "settled_windows rows = List.map_filter (\<lambda>c. map_option (\<lambda>t. (ce_since c, t)) (ce_settled c)) rows"

definition settled_to :: "int \<Rightarrow> (int \<times> int) list \<Rightarrow> int" where
  "settled_to t ws = (if ws = [] then t else snd (last ws))"

lemma tiled_snoc: "tiled t (ws @ [(a, b)]) \<longleftrightarrow> tiled t ws \<and> a = settled_to t ws \<and> a \<le> b"
  by (induction t ws rule: tiled.induct) (auto simp: settled_to_def)

lemma tiled_greatest: "tiled t ws \<Longrightarrow> fold max (map snd ws) t = settled_to t ws"
  by (induction t ws rule: tiled.induct) (auto simp: settled_to_def max_def)

lemma greatest_tiled: "tiled t ws \<Longrightarrow> greatest (map snd ws) = (if ws = [] then None else Some (settled_to t ws))"
  by (cases ws) (auto simp: tiled_greatest settled_to_def)

lemma settled_windows_simps [simp]:
  "settled_windows [] = []"
  "settled_windows [c] = (case ce_settled c of None \<Rightarrow> [] | Some t \<Rightarrow> [(ce_since c, t)])"
  "settled_windows (rows @ [c]) = settled_windows rows @ (case ce_settled c of None \<Rightarrow> [] | Some t \<Rightarrow> [(ce_since c, t)])"
  by (auto simp: settled_windows_def List.map_filter_def split: option.split)

lemma settled_windows_ends: "List.map_filter ce_settled rows = map snd (settled_windows rows)"
  by (induction rows) (auto simp: settled_windows_def List.map_filter_def)

lemma greatest_upper: "greatest ts = Some m \<Longrightarrow> t \<in> set ts \<Longrightarrow> t \<le> m"
proof (cases ts)
  case (Cons x xs)
  assume "greatest ts = Some m" "t \<in> set ts"
  moreover have "fold max xs x = Max (set (x # xs))" by (simp only: Max.set_eq_fold)
  ultimately show ?thesis using Cons by (auto intro: Max_ge)
qed simp

lemma greatest_None [simp]: "greatest ts = None \<longleftrightarrow> ts = []"
  by (cases ts) auto

lemma least_same: "\<forall>t\<in>set ts. t = o' \<Longrightarrow> least ts = (if ts = [] then None else Some o')"
proof (cases ts)
  case (Cons x xs)
  assume all: "\<forall>t\<in>set ts. t = o'"
  have "fold min ys o' = o'" if "\<forall>t\<in>set ys. t = o'" for ys using that by (induction ys) auto
  with Cons all show ?thesis by simp
qed simp

lemma read_boundary_sel [simp]:
  "bn_last (read_boundary p venue lg) = greatest (map ce_as_of (entries p venue (rl_cycles lg)))"
  "bn_completed (read_boundary p venue lg) = greatest (map ce_as_of (filter (\<lambda>c. \<not> ce_halted c) (entries p venue (rl_cycles lg))))"
  by (simp_all add: read_boundary_def Let_def)

text \<open>The entries of a book at a venue: in order of time, each settled up to its own instant or not at all, and their
  windows tile; before the first settlement every entry names the origin.\<close>

definition well_logged :: "int \<Rightarrow> cycle_entry list \<Rightarrow> bool" where
  "well_logged t rows \<longleftrightarrow> sorted_wrt (<) (map ce_as_of rows) \<and> (\<forall>c\<in>set rows. ce_settled c \<in> {None, Some (ce_as_of c)})
     \<and> tiled t (settled_windows rows) \<and> (settled_windows rows = [] \<longrightarrow> (\<forall>c\<in>set rows. ce_since c = t))
     \<and> (rows \<noteq> [] \<longrightarrow> ce_since (hd rows) = t)"

lemma well_logged_opens:
  assumes "well_logged t rows" "entries p venue (rl_cycles lg) = rows" "rows \<noteq> []"
  shows "bn_opens (read_boundary p venue lg) = Some (settled_to t (settled_windows rows))"
proof (cases "settled_windows rows = []")
  case True
  then have "greatest (List.map_filter ce_settled rows) = None" by (simp add: settled_windows_ends)
  moreover have "least (map ce_since rows) = Some t" using assms(1,3) True by (subst least_same[of _ t]) (auto simp: well_logged_def)
  ultimately show ?thesis using assms(2) True by (simp add: read_boundary_def settled_to_def)
next
  case False
  have "tiled t (settled_windows rows)" using assms(1) by (simp add: well_logged_def)
  from greatest_tiled[OF this] False have "greatest (List.map_filter ce_settled rows) = Some (settled_to t (settled_windows rows))"
    by (simp add: settled_windows_ends)
  then show ?thesis using assms(2) by (simp add: read_boundary_def)
qed

lemma well_logged_snoc:
  assumes "well_logged t rows" "\<forall>c\<in>set rows. ce_as_of c < ce_as_of e" "ce_since e = settled_to t (settled_windows rows)"
    and "ce_since e \<le> ce_as_of e" "ce_settled e \<in> {None, Some (ce_as_of e)}"
  shows "well_logged t (rows @ [e])"
  unfolding well_logged_def
proof (intro conjI)
  note ok = assms(1)[unfolded well_logged_def]
  show "sorted_wrt (<) (map ce_as_of (rows @ [e]))" using ok assms(2) by (simp add: sorted_wrt_append)
  show "\<forall>c\<in>set (rows @ [e]). ce_settled c \<in> {None, Some (ce_as_of c)}" using ok assms(5) by simp
  show "tiled t (settled_windows (rows @ [e]))" using ok assms(3-5) by (cases "ce_settled e") (auto simp: tiled_snoc)
  show "settled_windows (rows @ [e]) = [] \<longrightarrow> (\<forall>c\<in>set (rows @ [e]). ce_since c = t)" using ok assms(3) by (simp add: settled_to_def)
  show "rows @ [e] \<noteq> [] \<longrightarrow> ce_since (hd (rows @ [e])) = t" using ok assms(3) by (cases rows) (auto simp: settled_to_def)
qed

lemma record_refusal_cycles [simp]: "rl_cycles (record_refusal p venue now g k B lg) = rl_cycles lg"
  by (simp add: record_refusal_def Let_def)

text \<open>A run either leaves the log of cycles alone or ran a cycle and appends its entry.\<close>

lemma run_owned_cases:
  assumes "run_owned V ask rq dk now (W, lg) = (res, W', lg')"
  obtains (Refusal) g where "res = Inl (Refused g)" "W' = W" "rl_cycles lg' = rl_cycles lg"
      "\<exists>k. lg' = record_refusal (rq_portfolio rq) (cv_name V) now g k (wd_book W) lg"
  | (Failure) e where "res = Inl (Failed e)" "lg' = lg"
  | (Cycle) since ids r where "res = Inr r" "first_guard rq now (read_boundary (rq_portfolio rq) (cv_name V) lg) = None"
      "since = (case bn_opens (read_boundary (rq_portfolio rq) (cv_name V) lg) of Some t \<Rightarrow> (True, t) | None \<Rightarrow> the (rq_inception rq))"
      "universe V (ask (wd_venue W)) rq now = Inr ids"
      "run_carry_cycle V (rq_portfolio rq) (rq_config rq) dk ids (True, now) since W = (Inr r, W')"
      "record_cycle (rq_portfolio rq) (cv_name V) (snd since) r lg = Inr lg'"
proof -
  let ?known = "read_boundary (rq_portfolio rq) (cv_name V) lg"
  show thesis
  proof (cases "first_guard rq now ?known")
    case (Some gk)
    then show thesis using assms
      by (cases gk) (auto simp: run_owned_def refuse_run_def Let_def intro!: Refusal)
  next
    case None
    let ?since = "case bn_opens ?known of Some t \<Rightarrow> (True, t) | None \<Rightarrow> the (rq_inception rq)"
    show thesis
    proof (cases "universe V (ask (wd_venue W)) rq now")
      case (Inl e)
      then show thesis using assms None by (intro Failure) (auto simp: run_owned_def Let_def)
    next
      case (Inr ids)
      show thesis
      proof (cases "ids = [] \<and> rq_ceiling rq \<noteq> None")
        case True
        then show thesis using assms None Inr by (intro Refusal) (auto simp: run_owned_def refuse_run_def Let_def)
      next
        case False
        obtain out W1 where run: "run_carry_cycle V (rq_portfolio rq) (rq_config rq) dk ids (True, now) ?since W = (out, W1)" by fastforce
        then show thesis
          using assms None Inr False Failure Cycle[OF _ None refl Inr]
          by (cases out) (auto simp: run_owned_def Let_def split: sum.splits)
      qed
    qed
  qed
qed

lemma run_due_cycle_cases:
  assumes "run_due_cycle V ask rq dk stamp owner locked (W, lg) = (res, W', lg')"
  obtains (Refusal) g where "res = Inl (Refused g)" "W' = W" "rl_cycles lg' = rl_cycles lg"
      "\<exists>k. lg' = record_refusal (rq_portfolio rq) (cv_name V) (snd stamp) g k (wd_book W) lg"
  | (Failure) e where "res = Inl (Failed e)" "lg' = lg"
  | (Cycle) since ids r where "res = Inr r" "first_guard rq (snd stamp) (read_boundary (rq_portfolio rq) (cv_name V) lg) = None"
      "since = (case bn_opens (read_boundary (rq_portfolio rq) (cv_name V) lg) of Some t \<Rightarrow> (True, t) | None \<Rightarrow> the (rq_inception rq))"
      "universe V (ask (wd_venue W)) rq (snd stamp) = Inr ids"
      "run_carry_cycle V (rq_portfolio rq) (rq_config rq) dk ids (True, snd stamp) since W = (Inr r, W')"
      "record_cycle (rq_portfolio rq) (cv_name V) (snd since) r lg = Inr lg'"
proof -
  have "run_owned V ask rq dk (snd stamp) (W, lg) = (res, W', lg') \<or> (\<exists>e. res = Inl (Failed e) \<and> lg' = lg)
      \<or> refuse_run V rq (snd stamp) Cycle_Owned None (W, lg) = (res, W', lg')"
    using assms by (auto simp: run_due_cycle_def split: if_splits option.splits)
  then show thesis
  proof (elim disjE)
    assume "run_owned V ask rq dk (snd stamp) (W, lg) = (res, W', lg')"
    then show thesis by (cases rule: run_owned_cases) (rule Refusal Failure Cycle; assumption)+
  next
    assume "refuse_run V rq (snd stamp) Cycle_Owned None (W, lg) = (res, W', lg')"
    then have "res = Inl (Refused Cycle_Owned)" "W' = W" "lg' = record_refusal (rq_portfolio rq) (cv_name V) (snd stamp) Cycle_Owned None (wd_book W) lg"
      by (auto simp: refuse_run_def)
    then show thesis by (intro Refusal) auto
  qed (use Failure in blast)
qed

lemma carry_result_as_of:
  assumes "run_carry_cycle V p cfg dk ids stamp since W = (Inr r, W')"
  shows "ct_as_of r = snd stamp"
  using assms
proof (cases rule: run_carry_cycle_cases)
  case (Passed named asset_of book held_legs v)
  from Passed(2) show ?thesis
  proof (cases rule: fund_and_rebalance_cases)
    case (Funded ks funding W1)
    from Funded(3) show ?thesis by (cases rule: rebalance_cases) auto
  qed (auto simp: halted_carry_eq)
qed (auto simp: halted_carry_eq)

lemma first_guard_None:
  assumes "first_guard rq now known = None"
  shows "rq_ignore_window rq \<or> in_rebalance_window (True, now) = Inr True" "bn_opens known \<noteq> None \<or> rq_inception rq \<noteq> None"
    "bn_last known = Some t \<Longrightarrow> t < now" "rq_ignore_cadence rq \<or> (\<forall>t. bn_completed known = Some t \<longrightarrow> t + REBALANCE_PERIOD \<le> now)"
  using assms by (auto simp: first_guard_def split: if_splits option.splits)

lemma record_cycleE:
  assumes "record_cycle p venue since r lg = Inr lg'"
  obtains c where "lg' = lg\<lparr>rl_cycles := rl_cycles lg @ [c]\<rparr>" "entry_checks (rl_cycles lg) c" "ce_portfolio c = p" "ce_venue c = venue"
    "ce_as_of c = ct_as_of r" "ce_since c = since" "ce_settled c = ct_settled r" "ce_halted c = ct_halted r"
  using assms by (auto simp: record_cycle_def Let_def rbind_eq_Inr)

text \<open>Runs for a portfolio at a venue, and between them whatever happens to the world and whatever is logged of other books.\<close>

inductive run_step :: "'v carry_venue \<Rightarrow> ('v \<Rightarrow> intent \<Rightarrow> quote trading) \<Rightarrow> nat \<Rightarrow> 'v world \<times> run_log \<Rightarrow> 'v world \<times> run_log \<Rightarrow> bool" for V ask p where
  Due: "run_due_cycle V ask rq dk stamp owner locked (W, lg) = (res, W', lg') \<Longrightarrow> rq_portfolio rq = p \<Longrightarrow> run_step V ask p (W, lg) (W', lg')"
| Other_Book: "entries p (cv_name V) (rl_cycles lg') = entries p (cv_name V) (rl_cycles lg) \<Longrightarrow> run_step V ask p (W, lg) (W', lg')"

lemma run_logged:
  assumes "run_due_cycle V ask rq dk stamp owner locked (W, lg) = (res, W', lg')" "rows = entries (rq_portfolio rq) (cv_name V) (rl_cycles lg)"
    and "rows = [] \<or> well_logged t rows"
  shows "\<exists>t'. (let rows' = entries (rq_portfolio rq) (cv_name V) (rl_cycles lg') in rows' = [] \<or> well_logged t' rows')"
  using assms(1)
proof (cases rule: run_due_cycle_cases)
  case (Cycle since ids r)
  let ?known = "read_boundary (rq_portfolio rq) (cv_name V) lg"
  obtain c where c: "lg' = lg\<lparr>rl_cycles := rl_cycles lg @ [c]\<rparr>" "entry_checks (rl_cycles lg) c" "ce_portfolio c = rq_portfolio rq"
    "ce_venue c = cv_name V" "ce_as_of c = ct_as_of r" "ce_since c = snd since" using record_cycleE[OF Cycle(6)] .
  have rows': "entries (rq_portfolio rq) (cv_name V) (rl_cycles lg') = rows @ [c]" using c assms(2) by (simp add: entries_def)
  have now: "ce_as_of c = snd stamp" using c(5) carry_result_as_of[OF Cycle(5)] by simp
  have checks: "ce_since c \<le> ce_as_of c" "ce_settled c \<in> {None, Some (ce_as_of c)}" using c(2) by (auto simp: entry_checks_def)
  show ?thesis
  proof (cases "rows = []")
    case True
    then have "well_logged (ce_since c) (rows @ [c])"
      using checks by (intro well_logged_snoc) (auto simp: well_logged_def settled_to_def)
    then show ?thesis unfolding rows' by auto
  next
    case False
    then have ok: "well_logged t rows" using assms(3) by simp
    obtain m where m: "bn_last ?known = Some m" "\<forall>x\<in>set (map ce_as_of rows). x \<le> m"
      using False assms(2) greatest_upper by (cases "greatest (map ce_as_of rows)") fastforce+
    have "\<forall>x\<in>set rows. ce_as_of x < ce_as_of c" using m first_guard_None(3)[OF Cycle(2) m(1)] now by fastforce
    moreover have "ce_since c = settled_to t (settled_windows rows)"
      using well_logged_opens[OF ok assms(2)[symmetric] False] Cycle(3) c(6) by simp
    ultimately have "well_logged t (rows @ [c])" using well_logged_snoc[OF ok] checks by blast
    then show ?thesis unfolding rows' by auto
  qed
qed (use assms(2,3) in \<open>auto simp: Let_def\<close>)

text \<open>C19. The funding windows of a book tile its life: over any sequence of runs, refused, failed or halted ones included,
  the recorded cycles are in order of time, and the windows they settled follow each other from the origin the first cycle
  was given, without a gap and without an overlap.\<close>

theorem settled_windows_tile:
  assumes "(run_step V ask p)\<^sup>*\<^sup>* (W, lg) (W', lg')" "entries p (cv_name V) (rl_cycles lg) = []"
  shows "\<exists>origin. (let rows = entries p (cv_name V) (rl_cycles lg') in sorted_wrt (<) (map ce_as_of rows)
    \<and> tiled origin (settled_windows rows) \<and> (rows = [] \<or> ce_since (hd rows) = origin))"
proof -
  let ?rows = "\<lambda>S :: 'a world \<times> run_log. entries p (cv_name V) (rl_cycles (snd S))"
  have "\<exists>t. ?rows S = [] \<or> well_logged t (?rows S)" if "(run_step V ask p)\<^sup>*\<^sup>* (W, lg) S" for S
    using that
  proof (induction rule: rtranclp_induct)
    case base
    then show ?case using assms(2) by simp
  next
    case (step S1 S2)
    from step.hyps(2) show ?case
    proof (cases rule: run_step.cases)
      case (Due rq dk stamp owner locked W1 lg1 res W2 lg2)
      with step.IH run_logged[OF Due(3) refl] show ?thesis by (auto simp: Let_def)
    qed (use step.IH in auto)
  qed
  from this[OF assms(1)] show ?thesis by (auto simp: well_logged_def Let_def)
qed

text \<open>C20. A rebalance runs only when it is due, and a refusal changes nothing. A run that ends in a result ran one cycle: inside
  the window of the day unless the request ignores the window, at least a holding period after every cycle of the book that
  did not halt unless the request ignores the hold, and always after every recorded instant. The cycle ran over the universe
  of the request -- the names cheap enough where it sets a ceiling -- and over the funding window that opens where the log
  of the book says, or at the given inception when it says nothing; both are what was logged of it. A run that was refused
  left the world and the log of cycles as they were, and one that failed left the log.\<close>

theorem cycle_runs_when_due:
  assumes "run_due_cycle V ask rq dk stamp owner locked (W, lg) = (res, W', lg')"
  shows "(let p = rq_portfolio rq; rows = entries p (cv_name V) (rl_cycles lg);
       since = (case bn_opens (read_boundary p (cv_name V) lg) of Some t \<Rightarrow> (True, t) | None \<Rightarrow> the (rq_inception rq))
     in case res of
      Inr r \<Rightarrow> (rq_ignore_window rq \<or> in_rebalance_window (True, snd stamp) = Inr True)
        \<and> (rq_ignore_cadence rq \<or> list_all (\<lambda>c. ce_halted c \<or> ce_as_of c + REBALANCE_PERIOD \<le> snd stamp) rows)
        \<and> list_all (\<lambda>c. ce_as_of c < snd stamp) rows
        \<and> (bn_opens (read_boundary p (cv_name V) lg) = None \<longrightarrow> rq_inception rq \<noteq> None)
        \<and> (\<exists>ids c. universe V (ask (wd_venue W)) rq (snd stamp) = Inr ids
            \<and> run_carry_cycle V p (rq_config rq) dk ids (True, snd stamp) since W = (Inr r, W')
            \<and> rl_cycles lg' = rl_cycles lg @ [c] \<and> ce_portfolio c = p \<and> ce_venue c = cv_name V
            \<and> ce_since c = snd since \<and> ce_as_of c = snd stamp \<and> ce_settled c = ct_settled r \<and> ce_halted c = ct_halted r)
    | Inl (Refused g) \<Rightarrow> W' = W \<and> rl_cycles lg' = rl_cycles lg
    | Inl (Failed e) \<Rightarrow> lg' = lg)"
  using assms
proof (cases rule: run_due_cycle_cases)
  case (Cycle since ids r)
  let ?rows = "entries (rq_portfolio rq) (cv_name V) (rl_cycles lg)" and ?known = "read_boundary (rq_portfolio rq) (cv_name V) lg"
  note due = first_guard_None[OF Cycle(2)]
  obtain c where c: "lg' = lg\<lparr>rl_cycles := rl_cycles lg @ [c]\<rparr>" "ce_portfolio c = rq_portfolio rq" "ce_venue c = cv_name V"
    "ce_as_of c = ct_as_of r" "ce_since c = snd since" "ce_settled c = ct_settled r" "ce_halted c = ct_halted r"
    using record_cycleE[OF Cycle(6)] .
  have last: "ce_as_of x < snd stamp" if "x \<in> set ?rows" for x
  proof -
    have "map ce_as_of ?rows \<noteq> []" using that by auto
    then obtain m where "greatest (map ce_as_of ?rows) = Some m" by (metis greatest_None not_Some_eq)
    with due(3)[of m] greatest_upper[OF this, of "ce_as_of x"] that show ?thesis by simp
  qed
  have hold: "ce_as_of x + REBALANCE_PERIOD \<le> snd stamp" if "x \<in> set ?rows" "\<not> ce_halted x" "\<not> rq_ignore_cadence rq" for x
  proof -
    let ?done = "map ce_as_of (filter (\<lambda>c. \<not> ce_halted c) ?rows)"
    have "?done \<noteq> []" using that by (auto simp: filter_empty_conv)
    then obtain m where "greatest ?done = Some m" by (metis greatest_None not_Some_eq)
    with due(4) greatest_upper[OF this, of "ce_as_of x"] that show ?thesis by fastforce
  qed
  have "ce_as_of c = snd stamp" using c(4) carry_result_as_of[OF Cycle(5)] by simp
  then show ?thesis
    unfolding Cycle(1) Let_def sum.case using Cycle(4,5) due(1,2) c last hold unfolding Cycle(3)
    by (intro conjI exI[of _ ids] exI[of _ c]) (auto simp: list_all_iff)
qed (auto simp: Let_def)

section \<open>A first run\<close>

definition first_request :: run_request where
  "first_request = \<lparr>rq_portfolio = 0, rq_config = desk_config, rq_ids = [1, 2], rq_inception = Some (True, 1), rq_ignore_window = True,
     rq_ignore_cadence = False, rq_ceiling = None, rq_assets = None\<rparr>"

abbreviation empty_log :: run_log where
  "empty_log \<equiv> \<lparr>rl_cycles = [], rl_refusals = []\<rparr>"

lemma first_run:
  "\<exists>r W lg c. run_due_cycle desk_venue ask first_request lot_desk (True, 4) None True (holding_world [], empty_log) = (Inr r, W, lg)
    \<and> entries 0 (cv_name desk_venue) (rl_cycles lg) = [c] \<and> ce_since c = 1 \<and> ce_settled c = Some 4"
proof -
  obtain r W where run: "run_carry_cycle desk_venue 0 desk_config lot_desk [1, 2] (True, 4) (True, 1) (holding_world []) = (Inr r, W)"
    and r: "\<not> ct_halted r" "ct_abstention r = None" "ct_reason r = None" "ct_as_of r = 4" "ct_settled r = Some 4"
    using desk_cycle by blast
  have name: "cv_name desk_venue = ''v''" by (simp add: desk_venue_def lot_venue_def lot_port_def)
  have known: "read_boundary 0 ''v'' empty_log = \<lparr>bn_opens = None, bn_last = None, bn_completed = None\<rparr>"
    by (simp add: read_boundary_def entries_def List.map_filter_def)
  have sel: "rq_portfolio first_request = 0" "rq_config first_request = desk_config" "rq_inception first_request = Some (True, 1)"
    "rq_ceiling first_request = None" by (simp_all add: first_request_def)
  have "first_guard first_request 4 (read_boundary 0 ''v'' empty_log) = None"
    unfolding known by (simp add: first_guard_def first_request_def)
  moreover have "universe desk_venue (ask (wd_venue (holding_world []))) first_request 4 = Inr [1, 2]"
    by (simp add: universe_def first_request_def)
  moreover obtain lg where "record_cycle 0 ''v'' 1 r empty_log = Inr lg" "entries 0 ''v'' (rl_cycles lg) \<noteq> []"
    using r by (auto simp: record_cycle_def entry_checks_def Let_def entries_def)
  ultimately have due: "run_due_cycle desk_venue ask first_request lot_desk (True, 4) None True (holding_world [], empty_log) = (Inr r, W, lg)"
    using run by (simp add: run_due_cycle_def run_owned_def Let_def name known sel)
  from \<open>record_cycle 0 ''v'' 1 r empty_log = Inr lg\<close> obtain c where
    "rl_cycles lg = [c]" "ce_portfolio c = 0" "ce_venue c = ''v''" "ce_since c = 1" "ce_settled c = ct_settled r"
    by (auto elim: record_cycleE)
  with due r(5) show ?thesis by (auto simp: entries_def name)
qed

lemma settled_windows_tile_witness:
  "\<exists>W lg. run_step desk_venue (\<lambda>_ _. Inl Venue_Unavailable) 0 (holding_world [], empty_log) (W, lg)
    \<and> settled_windows (entries 0 (cv_name desk_venue) (rl_cycles lg)) = [(1, 4)]
    \<and> tiled 1 (settled_windows (entries 0 (cv_name desk_venue) (rl_cycles lg)))"
proof -
  let ?ask = "\<lambda>_ _. Inl Venue_Unavailable"
  obtain r W lg c where run: "run_due_cycle desk_venue ?ask first_request lot_desk (True, 4) None True (holding_world [], empty_log) = (Inr r, W, lg)"
    "entries 0 (cv_name desk_venue) (rl_cycles lg) = [c]" "ce_since c = 1" "ce_settled c = Some 4"
    using first_run[of ?ask] by blast
  have step: "run_step desk_venue ?ask 0 (holding_world [], empty_log) (W, lg)"
    using run(1) by (rule Due) (simp add: first_request_def)
  from settled_windows_tile[OF r_into_rtranclp[of "run_step desk_venue ?ask 0", OF step]] run(2-4)
  have "tiled 1 (settled_windows (entries 0 (cv_name desk_venue) (rl_cycles lg)))" by (auto simp: entries_def Let_def)
  with step run(2-4) show ?thesis by (intro exI conjI) auto
qed

text \<open>A run that is due by the clock and by the hold: at four in the morning, six weeks after a finished cycle. The funding
  claims are too old by then and the cycle abstains.\<close>

definition four_oclock :: int where "four_oclock = 4 * HOUR_MICROS"

definition past_cycle :: cycle_entry where
  "past_cycle = \<lparr>ce_portfolio = 0, ce_venue = ''v'', ce_as_of = four_oclock, ce_since = 1, ce_settled = Some four_oclock, ce_halted = False,
     ce_reason = None, ce_abstention = None, ce_collected = 0, ce_fees = 0, ce_cost = 0, ce_opened = 0, ce_closed = 0, ce_held = 0\<rparr>"

definition due_request :: run_request where
  "due_request = first_request\<lparr>rq_inception := None, rq_ignore_window := False\<rparr>"

abbreviation due_at :: int where "due_at \<equiv> four_oclock + REBALANCE_PERIOD"

abbreviation past_log :: run_log where
  "past_log \<equiv> \<lparr>rl_cycles = [past_cycle], rl_refusals = []\<rparr>"

lemma due_values: "four_oclock = 14400000000" "due_at = 3643200000000"
  by code_simp+

lemma due_gates:
  "\<exists>book v. gates_open desk_venue 0 desk_config lot_desk [1, 2] 3643200000000 (holding_world []) desk_named desk_names book [] v"
proof -
  have "rbind (open_book desk_venue 0 lot_desk [1, 2] (holding_world [])) (\<lambda>(named, asset_of, book, held).
      rbind (carry_verdict desk_venue desk_config 3643200000000 book 0) (\<lambda>v.
      ensure (named = desk_named \<and> asset_of = desk_names \<and> held = [] \<and> carry_risk 0 book desk_config 3643200000000 (holding_world []) = Inr []
        \<and> rr_reconciled v) Type_Error)) = Inr ()" by code_simp
  then obtain book v where "open_book desk_venue 0 lot_desk [1, 2] (holding_world []) = Inr (desk_named, desk_names, book, [])"
    "carry_risk 0 book desk_config 3643200000000 (holding_world []) = Inr []"
    "carry_verdict desk_venue desk_config 3643200000000 book 0 = Inr v" "rr_reconciled v"
    by (auto simp: result_simps)
  moreover have "supports (vp_caps (cv_port desk_venue)) Spot" "supports (vp_caps (cv_port desk_venue)) Perpetual" by code_simp+
  moreover have "wd_venue (holding_world []) = 0" by (simp add: holding_world_def lot_world_def)
  ultimately show ?thesis by (auto simp: gates_open_def unpaired_def unresolved_def)
qed

lemma due_cycle:
  "\<exists>r W. run_carry_cycle desk_venue 0 desk_config lot_desk [1, 2] (True, due_at) (True, four_oclock) (holding_world []) = (Inr r, W)
    \<and> \<not> ct_halted r \<and> ct_reason r = None \<and> ct_as_of r = due_at \<and> ct_settled r = Some due_at \<and> ct_opened r = [] \<and> ct_closed r = []"
proof -
  obtain book v where gates: "gates_open desk_venue 0 desk_config lot_desk [1, 2] due_at (holding_world []) desk_named desk_names book [] v"
    using due_gates unfolding due_values(2) by blast
  let ?W = "snd (record_verdict 0 v (holding_world []))"
  have cfg: "kc_enter desk_config = 1" "kc_exit desk_config = 1" "kc_funding_venue desk_config = ''b''" "kc_lookback desk_config = 7"
    "kc_minimum desk_config = 2" "cv_name desk_venue = ''v''" "kd_audience lot_desk = Some 5"
    by (simp_all add: desk_config_def lot_config_def desk_venue_def lot_venue_def lot_port_def lot_desk_def)
  have window: "funding_window [1, 2] (Some 5) due_at 7 ''b'' (kd_claims lot_desk) = []" unfolding due_values by code_simp
  have d: "\<exists>d. select_carry_basket (kd_claims lot_desk) [1, 2] (Some 5) due_at {} 1 1 ''b'' 7 2 = Inr d \<and> bd_abstention d = Some No_Coverage"
    unfolding select_carry_basket_def Let_def window by (simp add: MIN_SETTLEMENTS_def)
  have run: "fund_and_rebalance desk_venue 0 desk_config lot_desk [1, 2] due_at four_oclock desk_named desk_names []
      (held_names (assets_of desk_named) []) ?W = rebalance desk_venue 0 desk_config lot_desk [1, 2] due_at desk_named desk_names [] {} [] start_carry ?W"
    by (simp add: fund_and_rebalance_def held_names_def sorted_names_def settlements_def value_settlements_def refuse_times_def)
  obtain r where r: "rebalance desk_venue 0 desk_config lot_desk [1, 2] due_at desk_named desk_names [] {} [] start_carry ?W = (Inr r, ?W)"
    "\<not> ct_halted r" "ct_reason r = None" "ct_as_of r = due_at" "ct_settled r = Some due_at" "ct_opened r = []" "ct_closed r = []"
    using d by (auto simp: rebalance_def cfg result_of_eq)
  have "\<not> due_at < four_oclock" by code_simp
  with gates have "run_carry_cycle desk_venue 0 desk_config lot_desk [1, 2] (True, due_at) (True, four_oclock) (holding_world []) = (Inr r, ?W)"
    using run r(1) by (auto simp: run_carry_cycle_def gates_open_def Let_def split_beta)
  with r show ?thesis by blast
qed

lemma due_run:
  "\<exists>r W lg. run_due_cycle desk_venue ask due_request lot_desk (True, due_at) None True (holding_world [], past_log) = (Inr r, W, lg)"
proof -
  obtain r W where run: "run_carry_cycle desk_venue 0 desk_config lot_desk [1, 2] (True, due_at) (True, four_oclock) (holding_world []) = (Inr r, W)"
    and r: "\<not> ct_halted r" "ct_reason r = None" "ct_as_of r = due_at" "ct_settled r = Some due_at" "ct_opened r = []" "ct_closed r = []"
    using due_cycle by blast
  have name: "cv_name desk_venue = ''v''" by (simp add: desk_venue_def lot_venue_def lot_port_def)
  have known: "read_boundary 0 ''v'' past_log = \<lparr>bn_opens = Some four_oclock, bn_last = Some four_oclock, bn_completed = Some four_oclock\<rparr>"
    by (simp add: read_boundary_def entries_def List.map_filter_def past_cycle_def)
  have window: "in_rebalance_window (True, due_at) = Inr True" unfolding due_values by code_simp
  have sel: "rq_portfolio due_request = 0" "rq_config due_request = desk_config" "rq_ceiling due_request = None"
    by (simp_all add: due_request_def first_request_def)
  have pos: "0 < REBALANCE_PERIOD" by code_simp
  then have "first_guard due_request due_at (read_boundary 0 ''v'' past_log) = None"
    unfolding known by (simp add: first_guard_def window)
  moreover have "universe desk_venue (ask (wd_venue (holding_world []))) due_request due_at = Inr [1, 2]"
    by (simp add: universe_def due_request_def first_request_def)
  moreover have "record_cycle 0 ''v'' four_oclock r past_log \<noteq> Inl e" for e
    using r pos by (auto simp: record_cycle_def entry_checks_def Let_def past_cycle_def result_simps)
  then obtain lg where "record_cycle 0 ''v'' four_oclock r past_log = Inr lg" by (cases "record_cycle 0 ''v'' four_oclock r past_log") auto
  ultimately show ?thesis
    using run by (simp add: run_due_cycle_def run_owned_def Let_def name known sel)
qed

lemma cycle_runs_when_due_witness:
  "\<exists>r W lg c. run_due_cycle desk_venue (\<lambda>_ _. Inl Venue_Unavailable) due_request lot_desk (True, due_at) None True
      (holding_world [], past_log) = (Inr r, W, lg) \<and> rl_cycles lg = [past_cycle, c] \<and> ce_since c = four_oclock \<and> ce_as_of c = due_at
    \<and> in_rebalance_window (True, due_at) = Inr True \<and> \<not> rq_ignore_window due_request \<and> \<not> rq_ignore_cadence due_request"
proof -
  let ?ask = "\<lambda>_ _. Inl Venue_Unavailable"
  obtain r W lg where run: "run_due_cycle desk_venue ?ask due_request lot_desk (True, due_at) None True (holding_world [], past_log) = (Inr r, W, lg)"
    using due_run[of ?ask] by blast
  have name: "cv_name desk_venue = ''v''" by (simp add: desk_venue_def lot_venue_def lot_port_def)
  have opens: "bn_opens (read_boundary 0 ''v'' past_log) = Some four_oclock"
    by (simp add: read_boundary_def entries_def List.map_filter_def past_cycle_def)
  have sel: "rq_portfolio due_request = 0" "\<not> rq_ignore_window due_request" "\<not> rq_ignore_cadence due_request"
    by (simp_all add: due_request_def first_request_def)
  from cycle_runs_when_due[OF run] run sel show ?thesis by (auto simp: Let_def name opens)
qed

end
