(* ===== verification/Spec2Isabelle.thy ===== *)
theory Spec2Isabelle
  imports Portfolio_State Finance_Properties Reports Trading_Cycle Throttle Carry_Runner
begin

text \<open>
  Verification of the ledgers and engines of the Omni Analyst back end (\<open>src/src/omni\<close>).

  \<^bold>\<open>The program.\<close> Omni Analyst is a service over one PostgreSQL database. Analysis code writes
  predictions; the trading loop turns predictions of methods that have earned capital into orders on
  a venue; the portfolio tables are the book of those orders; a second, unrelated ledger keeps personal
  finances, fed by bank imports and read by the envelope budget and the reports; in front of everything stands
  the login door. The development models the parts in which a wrong branch moves money or opens a door:

  \<^item> Trading. \<open>trading/loop.py\<close> runs one cycle: load the book (\<open>portfolio/state.py\<close>), compare it with the
    venue (\<open>portfolio/reconcile.py\<close>) and stop unless they agree and no order is unsettled; then for each
    pending prediction (\<open>trading/policy.py\<close>, \<open>trading/expectancy.py\<close>) build an intent (\<open>trading/bridge.py\<close>, which
    sizes it with \<open>portfolio/sizing.py\<close> and asks \<open>portfolio/risk.py\<close>), record it (\<open>portfolio/orders.py\<close>),
    submit it, execute it on a venue (\<open>venue/paper_venue.py\<close>, \<open>venue/costs.py\<close>) and commit its fill to
    ledger and book in one transaction (\<open>trading/fill_commit.py\<close>).
  \<^item> Carry. \<open>trading/carry_loop.py\<close> holds pairs, long spot and short perpetual in equal quantity. One rebalance reads the
    book as pairs, asks its risk policy and the venue, settles the funding of the names it holds, lets
    \<open>conviction/crosssectional.py\<close> choose the basket from the claims visible to it (\<open>coverage/visibility.py\<close>), and exits and
    enters pair by pair, taking back the leg that filled when its partner did not. \<open>trading/carry_runner.py\<close> decides when a
    cycle is due and from where it settles funding, and logs it. The carry book shares the order ledger, the fill
    transaction, the book and the reconciliation with the directional loop.
  \<^item> Finance. \<open>finance/service.py\<close>, \<open>transfers.py\<close> and \<open>writer.py\<close> write the ledger; \<open>rules.py\<close>,
    \<open>normalisation.py\<close> and \<open>reconcile.py\<close> import bank rows into it; \<open>budget.py\<close> and \<open>reports.py\<close>
    read it; \<open>schedules.py\<close> computes the dates of recurring transactions.
  \<^item> Login. \<open>auth/ratelimit.py\<close>, \<open>auth/throttle.py\<close> and \<open>auth/admission.py\<close>, three gates in a row.

  \<^bold>\<open>The theories\<close>, each named after what it models and importing what it calls:

  \<^item> Shared: \<open>Prelude\<close> (results that may be errors, dictionaries, SQL-table helpers), \<open>Calendar\<close>
    (\<open>datetime.date\<close>), \<open>Text\<close> (Python strings), \<open>Decimal\<close> (\<open>decimal\<close> in its default context, 28 digits half-even).
  \<^item> \<open>Venue_Protocol\<close> (\<open>venue/protocol.py\<close>): sides, intents, quotes, fills, positions, with their constructors.
  \<^item> \<open>Order_Ledger\<close> (\<open>portfolio/orders.py\<close>): the state \<open>ledger\<close> is the tables \<open>trade_order\<close> and
    \<open>order_event\<close>; \<open>record_intent\<close>, \<open>mark_status\<close> and \<open>record_fill\<close> are its operations. Lemmas: an order
    row is always the replay of its event log.
  \<^item> \<open>Portfolio_State\<close> (\<open>portfolio/state.py\<close>, \<open>trading/fill_commit.py\<close>): positions, cash, funding and NAV
    tables. Lemmas: the tables refine the replay of the fills, cash and NAV move by the flows of a fill.
  \<^item> \<open>Venue_Costs\<close>, \<open>Sizing\<close>, \<open>Risk\<close>: from an edge to a size to a permission. Lemmas: bounds of a size and
    what a permission has checked.
  \<^item> \<open>Paper_Venue\<close>, \<open>Venue_Reconcile\<close>: the simulated venue and the comparison with a venue. Lemmas: a
    paper fill never flatters; a clean verdict means agreement in both directions; a book that mirrors the venue stays clean.
  \<^item> \<open>Expectancy\<close>, \<open>Eligibility\<close> (\<open>trading/expectancy.py\<close>, \<open>conviction/gate.py\<close>, \<open>trading/policy.py\<close>): which
    methods may hold capital. Lemmas: what a permission means and whose predictions take part.
  \<^item> \<open>Bridge\<close> (\<open>trading/bridge.py\<close>): prediction to intent, every refusal in its order.
  \<^item> \<open>Trading_Cycle\<close> (\<open>trading/loop.py\<close>, \<open>order_safety.py\<close>, \<open>pretrade.py\<close>): the composition. Its state
    \<open>world\<close> is ledger, book, recorded verdicts and a venue behind the record \<open>port\<close>; the locales \<open>venue_contract\<close>
    and \<open>venue_within\<close> state what the loop relies on and are interpreted on the paper venue. Lemmas: what a
    cycle sends, counts and leaves unsettled, over any sequence of cycles.
  \<^item> \<open>Claims\<close> and \<open>Basket\<close>: what the carry book reads of the claim store and how it chooses. Lemmas: nothing is read from the
    future or of somebody else; the basket is full, calm, and a fixed point of the selection.
  \<^item> \<open>Carry_Pair\<close>, \<open>Carry_Cycle\<close>, \<open>Carry_Properties\<close> (\<open>trading/carry_loop.py\<close>): one leg, one pair, one rebalance
    and the closing of the book, on the same \<open>world\<close>; \<open>carry_venue\<close> is the port with the calls only this loop makes. The
    locale \<open>pair_venue\<close> extends \<open>venue_contract\<close> and is interpreted on the paper venue and on a venue that fills lots.
    Lemmas: \<open>leg_done\<close> lists how a leg can end, \<open>carry_move\<close> what a cycle can do to the world; from these, pairs are one
    unit, closed gates stop everything, a decided leg is sent once, a closing sends only the closing of held legs, and what an
    unsettled order or a tried settlement leads to.
  \<^item> \<open>Carry_Runner\<close> (\<open>trading/carry_runner.py\<close>, \<open>tradeable.py\<close>, \<open>nav_job.py\<close>): the guards, the log \<open>run_log\<close>, the cost
    filter and the NAV point. Lemmas: the settled windows tile the life of a book, and a cycle runs only when due.
  \<^item> \<open>Schedules\<close>, \<open>Normalisation\<close>, \<open>Rules\<close>, \<open>Finance_Ledger\<close>, \<open>Import_Reconcile\<close>: the finance
    operations on the state \<open>finance_db\<close>; \<open>Finance_Laws\<close> proves the invariant of the tables once over every
    operation (locale \<open>skeleton_update\<close> for writes that only patch descriptions), and \<open>Finance_Properties\<close>
    draws the consequences a user sees. \<open>Budget\<close> and \<open>Reports\<close> are the readers.
  \<^item> \<open>Throttle\<close>: the login gates, their tables and the endpoint that runs them in order.

  \<^bold>\<open>Conventions.\<close> An operation that raises gives \<open>Inl\<close> an error. Where the code runs in a transaction the
  error alone is returned (the tables roll back); where every call commits on its own, as in the trading
  loop, the error comes with the world it leaves. \<open>Decimal\<close> is the rational it denotes with every operation
  rounded to 28 digits; \<open>NUMERIC\<close> sums are exact; a value that may be NaN or infinite is \<open>xdecimal\<close>.
  Instants are integers in microseconds, dates are ordinals, rows carry growing ids.

  \<^bold>\<open>Loops.\<close> Loops over rows are structural recursions. The months of a budget chain are a
  \<open>partial_function\<close>, so that a call that never returned would be \<open>None\<close>; \<open>month_view_returns\<close> shows that
  this does not happen. The recurrence solvers have termination measures (the distance to the end of
  the window). No definition uses fuel that could run out.

  \<^bold>\<open>Parameters\<close> stand for what is not under \<open>src/\<close>: the live venue behind \<open>port\<close>, its quotes, the advisory lock, the market window of
  the paper venue, SHA-256 and the parser of IP addresses, the random key of an intent, the float division
  of a hit rate, \<open>csv.reader\<close>, the \<open>strptime\<close> formats and the evaluator of rule formulas.

  \<^bold>\<open>Not modelled.\<close> The HTTP routers, the adapters of live venues, brokers, banks and data providers and
  the language-model clients are input and output around libraries that are not in the repository. The
  capabilities, detectors, producers and back-tests compute statistics in binary floating point through
  numpy, where what matters is rounding in that library. Alerts, entities, watchlists and demand are thin queries.
  Around the carry loop, \<open>carry_health.py\<close> (averages computed by the database) and \<open>crypto_backtest.py\<close> (floats) are left out. Concurrent requests are covered as far as the code makes an
  operation one transaction; interleavings inside a transaction are the database's.
\<close>

end
